(* ===== verification/Kiko_Prelude.thy ===== *)
theory Kiko_Prelude
  imports Main "HOL-Library.Word"
begin

text \<open>
  Shared notions of the development: machine integers and byte strings, results with
  error texts (a \<open>KikoError\<close> is its \<open>what()\<close> string), state passing, and the two
  contracts that many components have in common: a codec with its round-trip law and
  a state machine whose steps keep an invariant.
\<close>

section \<open>Types\<close>

type_synonym u8 = "8 word"
type_synonym u16 = "16 word"
type_synonym u32 = "32 word"
type_synonym u64 = "64 word"
type_synonym bytes = "u8 list"

text \<open>\<open>Inl e\<close>: the code throws a \<open>KikoError\<close> whose \<open>what()\<close> text is \<open>e\<close>.\<close>

type_synonym 'a result = "string + 'a"

text \<open>The facts that unfold the result combinators, and the invariants of the components.\<close>

named_theorems result_simps
named_theorems kiko_inv

section \<open>Results\<close>

definition andthen :: "'a result \<Rightarrow> ('a \<Rightarrow> 'b result) \<Rightarrow> 'b result" where
  "andthen m f = (case m of Inl e \<Rightarrow> Inl e | Inr x \<Rightarrow> f x)"

definition fail_if :: "bool \<Rightarrow> string \<Rightarrow> unit result" where
  "fail_if b e = (if b then Inl e else Inr ())"

definition is_ok :: "'a result \<Rightarrow> bool" where
  "is_ok r \<longleftrightarrow> (\<exists>x. r = Inr x)"

lemma andthen_simps [simp, result_simps]:
  "andthen (Inl e) f = Inl e"
  "andthen (Inr x) f = f x"
  by (simp_all add: andthen_def)

lemma andthen_cong [fundef_cong]:
  "m = m' \<Longrightarrow> (\<And>x. m' = Inr x \<Longrightarrow> f x = g x) \<Longrightarrow> andthen m f = andthen m' g"
  by (simp add: andthen_def split: sum.split)

lemma andthen_Inr_iff [result_simps]:
  "andthen m f = Inr y \<longleftrightarrow> (\<exists>x. m = Inr x \<and> f x = Inr y)"
  by (simp add: andthen_def split: sum.split)

lemma andthen_InrE:
  assumes "andthen m f = Inr y"
  obtains x where "m = Inr x" "f x = Inr y"
  using assms by (auto simp: andthen_Inr_iff)

lemma andthen_Inl_iff:
  "andthen m f = Inl e \<longleftrightarrow> m = Inl e \<or> (\<exists>x. m = Inr x \<and> f x = Inl e)"
  by (auto simp: andthen_def split: sum.split)

lemma fail_if_Inr [simp, result_simps]: "fail_if b e = Inr u \<longleftrightarrow> \<not> b"
  by (simp add: fail_if_def)

lemma fail_if_Inl [simp, result_simps]: "fail_if b e = Inl e' \<longleftrightarrow> b \<and> e' = e"
  by (auto simp: fail_if_def)

lemma fail_if_True [simp]: "fail_if True e = Inl e"
  and fail_if_False [simp]: "fail_if False e = Inr ()"
  by (simp_all add: fail_if_def)

lemma andthen_fail_if: "andthen (fail_if b e) f = (if b then Inl e else f ())"
  by (simp add: fail_if_def)

lemma is_ok_simps [simp]: "is_ok (Inr x)" "\<not> is_ok (Inl e)"
  by (simp_all add: is_ok_def)

section \<open>Codecs\<close>

text \<open>
  What every encoder/decoder pair of the program promises: on the values its sender can
  produce, decoding the encoded form gives the value back.
\<close>

locale codec =
  fixes enc :: "'a \<Rightarrow> 'w result" and dec :: "'w \<Rightarrow> 'a result" and valid :: "'a \<Rightarrow> bool"
  assumes enc_total: "valid x \<Longrightarrow> is_ok (enc x)"
    and dec_enc: "valid x \<Longrightarrow> enc x = Inr w \<Longrightarrow> dec w = Inr x"
begin

lemma roundtrip: "valid x \<Longrightarrow> andthen (enc x) dec = Inr x"
  using enc_total dec_enc by (fastforce simp: is_ok_def)

lemma enc_injective: "valid x \<Longrightarrow> valid y \<Longrightarrow> enc x = enc y \<Longrightarrow> x = y"
  using roundtrip by (metis sum.inject(2))

end

section \<open>State machines\<close>

text \<open>
  A component whose operations are a function on its state: an invariant that every
  operation keeps holds after every sequence of operations.
\<close>

locale machine =
  fixes step :: "'op \<Rightarrow> 's \<Rightarrow> 's" and inv :: "'s \<Rightarrow> bool"
  assumes step_inv: "inv s \<Longrightarrow> inv (step op s)"
begin

lemma run_inv: "inv s \<Longrightarrow> inv (fold step ops s)"
  by (induction ops arbitrary: s) (simp_all add: step_inv)

end

section \<open>Maps, lists and words\<close>

lemma fold_invariant_list:
  "P s \<Longrightarrow> (\<And>x s. x \<in> set xs \<Longrightarrow> P s \<Longrightarrow> P (f x s)) \<Longrightarrow> P (fold f xs s)"
  by (induction xs arbitrary: s) simp_all




lemma u64_of_nat_unat [simp]: "n < 2 ^ 64 \<Longrightarrow> unat (of_nat n :: u64) = n"
  by (simp add: unat_of_nat)

lemma u64_less_bound: "unat (x :: u64) < 18446744073709551616"
  using unsigned_less [of x] by simp

lemma u32_less_bound: "unat (x :: u32) < 4294967296"
  using unsigned_less [of x] by simp

lemma u16_less_bound: "unat (x :: u16) < 65536"
  using unsigned_less [of x] by simp

lemma u8_less_bound: "unat (x :: u8) < 256"
  using unsigned_less [of x] by simp

lemma unat_u64_add_noov: "unat (a :: u64) + unat b < 2 ^ 64 \<Longrightarrow> unat (a + b) = unat a + unat b"
  by (simp add: unat_word_ariths)

lemma unat_u64_sub: "b \<le> (a :: u64) \<Longrightarrow> unat (a - b) = unat a - unat b"
  by (rule unat_sub)

section \<open>Cutting at a separator\<close>

text \<open>
  \<open>find\<close> of a character followed by \<open>substr\<close>: the part before the first occurrence, and
  the part after it (\<open>None\<close>: \<open>find\<close> returns \<open>npos\<close>).
\<close>

fun cut :: "'a \<Rightarrow> 'a list \<Rightarrow> 'a list \<times> 'a list option" where
  "cut c [] = ([], None)"
| "cut c (x # xs) = (if x = c then ([], Some xs) else (x # fst (cut c xs), snd (cut c xs)))"

lemma cut_append [simp]: "c \<notin> set v \<Longrightarrow> cut c (v @ c # r) = (v, Some r)"
  by (induction v) auto

lemma cut_absent [simp]: "c \<notin> set v \<Longrightarrow> cut c v = (v, None)"
  by (induction v) auto

lemma cut_cases:
  obtains (absent) "c \<notin> set s" "cut c s = (s, None)"
  | (found) v r where "s = v @ c # r" "c \<notin> set v" "cut c s = (v, Some r)"
proof (cases "c \<in> set s")
  case True
  then obtain v r where "s = v @ c # r" "c \<notin> set v"
    using split_list_first by fastforce
  then show thesis using found by simp
qed (use absent in simp)

lemma cut_Some: "cut c s = (v, Some r) \<longleftrightarrow> s = v @ c # r \<and> c \<notin> set v"
proof
  assume "cut c s = (v, Some r)"
  then show "s = v @ c # r \<and> c \<notin> set v"
    by (cases rule: cut_cases [of c s]) simp_all
qed simp

lemma cut_None: "cut c s = (v, None) \<longleftrightarrow> v = s \<and> c \<notin> set s"
  by (cases rule: cut_cases [of c s]) auto

lemma cut_shorter: "(v, Some r) = cut c s \<Longrightarrow> length r < length s"
  by (cases rule: cut_cases [of c s]) auto

end
