(* ===== verification/Ord_Map.thy ===== *)
theory Ord_Map
  imports Kiko_Prelude "HOL-Library.List_Lexorder" "HOL-Library.Char_ord"
begin

text \<open>
  \<open>std::map\<close> and \<open>std::set\<close> as the program uses them: association lists in the order of
  their keys (iteration visits them in this order), with insertion, erasure and lookup.
  The contract of a key-value store is a locale; the ordered list provides it.
\<close>

type_synonym ('k, 'v) omap = "('k \<times> 'v) list"

definition omap_ok :: "('k::linorder, 'v) omap \<Rightarrow> bool" where
  "omap_ok m \<longleftrightarrow> sorted (map fst m) \<and> distinct (map fst m)"

fun omap_put :: "'k::linorder \<Rightarrow> 'v \<Rightarrow> ('k, 'v) omap \<Rightarrow> ('k, 'v) omap" where
  "omap_put k v [] = [(k, v)]"
| "omap_put k v (p # m) =
     (if k < fst p then (k, v) # p # m
      else if k = fst p then (k, v) # m
      else p # omap_put k v m)"

definition omap_del :: "'k \<Rightarrow> ('k, 'v) omap \<Rightarrow> ('k, 'v) omap" where
  "omap_del k m = filter (\<lambda>p. fst p \<noteq> k) m"

definition omap_has :: "('k, 'v) omap \<Rightarrow> 'k \<Rightarrow> bool" where
  "omap_has m k \<longleftrightarrow> map_of m k \<noteq> None"

lemma map_of_put [simp]: "map_of (omap_put k v m) = (map_of m)(k \<mapsto> v)"
  by (induction m) (auto simp: fun_eq_iff)

lemma map_of_del [simp]: "map_of (omap_del k m) = (map_of m)(k := None)"
  by (induction m) (auto simp: omap_del_def fun_eq_iff)

lemma keys_put [simp]: "fst ` set (omap_put k v m) = insert k (fst ` set m)"
  by (induction m) auto

lemma omap_ok_Nil [simp]: "omap_ok []"
  by (simp add: omap_ok_def)

lemma omap_ok_Cons:
  "omap_ok (p # m) \<longleftrightarrow> (\<forall>k \<in> fst ` set m. fst p < k) \<and> omap_ok m"
  by (auto simp: omap_ok_def order.strict_iff_order)

lemma omap_ok_put [simp]: "omap_ok m \<Longrightarrow> omap_ok (omap_put k v m)"
  by (induction m) (auto simp: omap_ok_Cons)

lemma omap_ok_filter: "omap_ok m \<Longrightarrow> omap_ok (filter P m)"
  by (induction m) (auto simp: omap_ok_Cons)

lemma omap_ok_del [simp]: "omap_ok m \<Longrightarrow> omap_ok (omap_del k m)"
  by (simp add: omap_del_def omap_ok_filter)

lemma omap_ok_tl: "omap_ok m \<Longrightarrow> omap_ok (tl m)"
  by (cases m) (auto simp: omap_ok_Cons)

lemma omap_ext:
  fixes m n :: "('a::linorder, 'b) omap"
  assumes "omap_ok m" "omap_ok n" "map_of m = map_of n"
  shows "m = n"
proof -
  have in_iff: "p \<in> set l \<longleftrightarrow> map_of l (fst p) = Some (snd p)" if "omap_ok l" for p and l :: "('a, 'b) omap"
    using that by (cases p) (simp add: omap_ok_def)
  have eq: "set m = set n"
    by (rule set_eqI) (simp only: in_iff [OF assms(1)] in_iff [OF assms(2)] assms(3))
  have "inj_on fst (set m \<union> set n)"
    using assms(1) by (simp add: eq [symmetric] omap_ok_def distinct_map)
  then show ?thesis
    using assms eq by (intro map_sorted_distinct_set_unique [where f = fst]) (simp_all add: omap_ok_def)
qed

lemma omap_has_iff: "omap_has m k \<longleftrightarrow> k \<in> fst ` set m"
  by (auto simp: omap_has_def map_of_eq_None_iff)

lemma omap_has_put [simp]: "omap_has (omap_put k v m) j \<longleftrightarrow> j = k \<or> omap_has m j"
  by (simp add: omap_has_def)

lemma omap_has_del [simp]: "omap_has (omap_del k m) j \<longleftrightarrow> j \<noteq> k \<and> omap_has m j"
  by (simp add: omap_has_def)

lemma length_del: "omap_ok m \<Longrightarrow> omap_has m k \<Longrightarrow> length (omap_del k m) = length m - 1"
proof (induction m)
  case (Cons p m)
  show ?case
  proof (cases "fst p = k")
    case True
    then have "\<not> omap_has m k" using Cons.prems by (auto simp: omap_ok_Cons omap_has_iff)
    then have "filter (\<lambda>p. fst p \<noteq> k) m = m" by (auto simp: omap_has_iff filter_id_conv)
    then show ?thesis using True by (simp add: omap_del_def)
  next
    case False
    then have h: "omap_has m k" using Cons.prems by (auto simp: omap_has_iff)
    then have "m \<noteq> []" by (auto simp: omap_has_def)
    then show ?thesis using Cons h False by (cases m) (simp_all add: omap_del_def omap_ok_Cons)
  qed
qed (simp add: omap_has_def)

lemma length_put: "length (omap_put k v m) = (if omap_has m k then length m else Suc (length m))"
  if "omap_ok m"
  using that by (induction m) (auto simp: omap_has_iff omap_ok_Cons)

section \<open>The contract of a key-value store\<close>

locale kv_store =
  fixes lookup :: "'m \<Rightarrow> 'k \<Rightarrow> 'v option" and put :: "'k \<Rightarrow> 'v \<Rightarrow> 'm \<Rightarrow> 'm"
    and erase :: "'k \<Rightarrow> 'm \<Rightarrow> 'm" and ok :: "'m \<Rightarrow> bool"
  assumes lookup_put: "lookup (put k v m) = (lookup m)(k \<mapsto> v)"
    and lookup_erase: "lookup (erase k m) = (lookup m)(k := None)"
    and ok_put: "ok m \<Longrightarrow> ok (put k v m)"
    and ok_erase: "ok m \<Longrightarrow> ok (erase k m)"
    and ext: "ok m \<Longrightarrow> ok n \<Longrightarrow> lookup m = lookup n \<Longrightarrow> m = n"
begin

lemmas store_simps = lookup_put lookup_erase ok_put ok_erase

lemma erase_all_lookup: "lookup (fold erase ks m) k = (if k \<in> set ks then None else lookup m k)"
  by (induction ks arbitrary: m) (auto simp: lookup_erase)

lemma erase_all_ok: "ok m \<Longrightarrow> ok (fold erase ks m)"
  by (induction ks arbitrary: m) (auto simp: ok_erase)

lemma put_put: "ok m \<Longrightarrow> put k v (put k w m) = put k v m"
  by (rule ext) (simp_all add: store_simps)

lemma put_commute: "ok m \<Longrightarrow> j \<noteq> k \<Longrightarrow> put j v (put k w m) = put k w (put j v m)"
  by (rule ext) (simp_all add: store_simps fun_upd_twist)

lemma erase_put: "ok m \<Longrightarrow> lookup m k = None \<Longrightarrow> erase k (put k v m) = m"
  by (rule ext) (simp_all add: store_simps fun_upd_idem)

lemma erase_absent: "ok m \<Longrightarrow> lookup m k = None \<Longrightarrow> erase k m = m"
  by (rule ext) (simp_all add: store_simps fun_upd_idem)

end

interpretation omap: kv_store map_of omap_put omap_del omap_ok
  by unfold_locales (auto intro: omap_ext)

text \<open>\<open>if (cond) message.fields[key] = value\<close>\<close>

definition put_if :: "bool \<Rightarrow> string \<Rightarrow> string \<Rightarrow> (string, string) omap \<Rightarrow> (string, string) omap" where
  "put_if b key value fs = (if b then omap_put key value fs else fs)"

lemma map_of_put_if [simp]: "map_of (put_if b k v fs) j = (if b \<and> j = k then Some v else map_of fs j)"
  by (simp add: put_if_def)

lemma omap_ok_put_if [simp]: "omap_ok fs \<Longrightarrow> omap_ok (put_if b k v fs)"
  by (simp add: put_if_def)

end
