(* ===== verification/Text_Util.thy ===== *)
theory Text_Util
  imports Kiko_Prelude
begin

text \<open>
  \<open>src/core/common.cpp\<close>: decimal numbers, comma lists, case folding, trimming, pairing
  codes and endpoints. A \<open>std::string\<close> is a list of bytes (\<open>string\<close>); the character
  classes are those of the C locale. Index loops over a string are recursions over the
  rest of the string that the index has not passed yet.
\<close>

section \<open>Character classes (C locale)\<close>

definition isdigit :: "char \<Rightarrow> bool" where
  "isdigit c \<longleftrightarrow> (48::nat) \<le> of_char c \<and> of_char c \<le> (57::nat)"

definition isalpha :: "char \<Rightarrow> bool" where
  "isalpha c \<longleftrightarrow> (65::nat) \<le> of_char c \<and> of_char c \<le> (90::nat) \<or> (97::nat) \<le> of_char c \<and> of_char c \<le> (122::nat)"

definition isalnum :: "char \<Rightarrow> bool" where
  "isalnum c \<longleftrightarrow> isdigit c \<or> isalpha c"

definition isspace :: "char \<Rightarrow> bool" where
  "isspace c \<longleftrightarrow> of_char c = (32::nat) \<or> (9::nat) \<le> of_char c \<and> of_char c \<le> (13::nat)"

definition tolower :: "char \<Rightarrow> char" where
  "tolower c = (if (65::nat) \<le> of_char c \<and> of_char c \<le> (90::nat) then char_of (of_char c + 32 :: nat) else c)"

section \<open>Decimal numbers\<close>

definition digit_char :: "nat \<Rightarrow> char" where
  "digit_char d = char_of (48 + d)"

definition digit_val :: "char \<Rightarrow> nat" where
  "digit_val c = of_char c - 48"

text \<open>\<open>std::to_string\<close> of an unsigned value.\<close>

fun to_dec :: "nat \<Rightarrow> string" where
  "to_dec n = (if n < 10 then [digit_char n] else to_dec (n div 10) @ [digit_char (n mod 10)])"

declare to_dec.simps [simp del]

text \<open>\<open>parse_u64_strict\<close>: the accumulator is a 64-bit word, and the guard before the
  multiplication is the code's overflow test.\<close>

definition max_u64 :: u64 where
  "max_u64 = - 1"

fun parse_u64_loop :: "u64 \<Rightarrow> string \<Rightarrow> u64 option" where
  "parse_u64_loop out [] = Some out"
| "parse_u64_loop out (c # cs) =
     (if \<not> isdigit c then None
      else let digit = (of_nat (digit_val c) :: u64) in
        if (max_u64 - digit) div 10 < out then None
        else parse_u64_loop (out * 10 + digit) cs)"

definition parse_u64_strict :: "string \<Rightarrow> u64 option" where
  "parse_u64_strict value = (if value = [] then None else parse_u64_loop 0 value)"

text \<open>The number a digit string denotes, without a bound: the reference.\<close>

definition dec_val :: "nat \<Rightarrow> string \<Rightarrow> nat" where
  "dec_val = foldl (\<lambda>v c. v * 10 + digit_val c)"

lemma dec_val_simps [simp]:
  "dec_val v [] = v"
  "dec_val v (c # cs) = dec_val (v * 10 + digit_val c) cs"
  "dec_val v (cs @ ds) = dec_val (dec_val v cs) ds"
  by (simp_all add: dec_val_def)

lemma dec_val_mono: "v \<le> dec_val v cs"
proof (induction cs arbitrary: v)
  case (Cons c cs)
  have "v \<le> v * 10 + digit_val c" by simp
  also have "\<dots> \<le> dec_val (v * 10 + digit_val c) cs" by (rule Cons.IH)
  finally show ?case by simp
qed simp

lemma digit_val_less: "isdigit c \<Longrightarrow> digit_val c < 10"
  by (auto simp: isdigit_def digit_val_def)

lemma digit_char_facts [simp]:
  assumes "d < 10"
  shows "isdigit (digit_char d)" "digit_val (digit_char d) = d"
  using assms by (simp_all add: isdigit_def digit_char_def digit_val_def)

lemma overflow_guard:
  assumes "d < 10"
  shows "(max_u64 - of_nat d) div 10 < out \<longleftrightarrow> 2 ^ 64 \<le> unat out * 10 + d"
proof -
  have d: "unat (of_nat d :: u64) = d"
    using assms by simp
  have m: "unat max_u64 = 18446744073709551615"
    by (simp add: max_u64_def unsigned_minus_1_eq_mask mask_eq_exp_minus_1)
  have "of_nat d \<le> max_u64"
    using assms by (simp add: word_le_nat_alt d m)
  then have s: "unat (max_u64 - of_nat d) = 18446744073709551615 - d"
    by (simp add: unat_u64_sub d m)
  have "unat ((max_u64 - of_nat d) div 10) = (18446744073709551615 - d) div 10"
    by (simp add: unat_div s)
  then show ?thesis
    using assms by (simp add: word_less_nat_alt) linarith
qed

lemma parse_u64_loop_spec:
  "parse_u64_loop out cs =
     (if list_all isdigit cs \<and> dec_val (unat out) cs < 2 ^ 64 then Some (of_nat (dec_val (unat out) cs)) else None)"
proof (induction out cs rule: parse_u64_loop.induct)
  case (1 out)
  then show ?case using u64_less_bound [of out] by simp
next
  case (2 out c cs)
  show ?case
  proof (cases "isdigit c")
    case False
    then show ?thesis by simp
  next
    case dig: True
    note d10 = digit_val_less [OF dig]
    show ?thesis
    proof (cases "2 ^ 64 \<le> unat out * 10 + digit_val c")
      case True
      then have "2 ^ 64 \<le> dec_val (unat out * 10 + digit_val c) cs"
        using dec_val_mono order_trans by blast
      then show ?thesis
        using dig True by (simp add: Let_def overflow_guard [OF d10])
    next
      case False
      have lt: "unat out * 10 + digit_val c < 2 ^ 64"
        using False by simp
      then have "unat out * 10 < 2 ^ 64" by simp
      then have "unat (out * 10) = unat out * 10"
        by (simp add: unat_word_ariths)
      moreover have "unat (of_nat (digit_val c) :: u64) = digit_val c"
        using d10 by simp
      ultimately have "unat (out * 10 + of_nat (digit_val c)) = unat out * 10 + digit_val c"
        using lt by (subst unat_u64_add_noov) simp_all
      then show ?thesis
        using dig False 2 by (simp add: Let_def overflow_guard [OF d10])
    qed
  qed
qed

lemma parse_u64_strict_eq:
  "parse_u64_strict s =
     (if s \<noteq> [] \<and> list_all isdigit s \<and> dec_val 0 s < 2 ^ 64 then Some (of_nat (dec_val 0 s)) else None)"
  by (simp add: parse_u64_strict_def parse_u64_loop_spec)

lemma to_dec_props: "to_dec n \<noteq> [] \<and> list_all isdigit (to_dec n) \<and> dec_val 0 (to_dec n) = n"
proof (induction n rule: to_dec.induct)
  case (1 n)
  then show ?case
    by (cases "n < 10") (simp_all add: to_dec.simps [of n])
qed

lemma to_dec_inj: "to_dec m = to_dec n \<longleftrightarrow> m = n"
  using to_dec_props [of m] to_dec_props [of n] by metis

lemma to_dec_nonempty [simp]: "to_dec n \<noteq> []"
  and to_dec_digits [simp]: "list_all isdigit (to_dec n)"
  and to_dec_val [simp]: "dec_val 0 (to_dec n) = n"
  using to_dec_props by auto

lemma parse_to_dec: "n < 2 ^ 64 \<Longrightarrow> parse_u64_strict (to_dec n) = Some (of_nat n)"
  by (simp add: parse_u64_strict_eq)

lemma parse_to_dec_unat [simp]: "parse_u64_strict (to_dec (unat (x :: u64))) = Some x"
  using u64_less_bound [of x] by (subst parse_to_dec) simp_all

lemma to_dec_char_not: "\<not> isdigit c \<Longrightarrow> c \<notin> set (to_dec n)"
  using to_dec_digits [of n] by (metis list_all_iff)

section \<open>Comma lists, hexadecimal text\<close>

function split_csv :: "string \<Rightarrow> string list" where
  "split_csv s =
     (case cut (CHR '','') s of (token, rest) \<Rightarrow>
      (if token \<noteq> [] then [token] else []) @
      (case rest of None \<Rightarrow> [] | Some r \<Rightarrow> split_csv r))"
  by pat_completeness auto
termination
  by (relation "measure length") (auto dest: cut_shorter)

declare split_csv.simps [simp del]

fun join_csv :: "string list \<Rightarrow> string" where
  "join_csv [] = []"
| "join_csv (v # vs) = v @ concat (map (\<lambda>w. CHR '','' # w) vs)"

definition hex_digit :: "nat \<Rightarrow> char" where
  "hex_digit d = (if d < 10 then char_of (48 + d) else char_of (87 + d))"

definition hex_encode :: "bytes \<Rightarrow> string" where
  "hex_encode bs = concat (map (\<lambda>b. [hex_digit (unat b div 16), hex_digit (unat b mod 16)]) bs)"

lemma split_csv_last: "CHR '','' \<notin> set v \<Longrightarrow> split_csv v = (if v \<noteq> [] then [v] else [])"
  by (subst split_csv.simps) simp

lemma split_csv_Cons:
  "CHR '','' \<notin> set v \<Longrightarrow> split_csv (v @ CHR '','' # s) = (if v \<noteq> [] then [v] else []) @ split_csv s"
  by (subst split_csv.simps) simp

lemma join_csv_Cons2: "join_csv (v # w # ws) = v @ CHR '','' # join_csv (w # ws)"
  by simp

lemma split_join_csv:
  "\<forall>v \<in> set vs. CHR '','' \<notin> set v \<Longrightarrow> split_csv (join_csv vs) = filter (\<lambda>v. v \<noteq> []) vs"
proof (induction vs rule: induct_list012)
  case 1
  then show ?case by (simp add: split_csv_last)
next
  case (2 v)
  then show ?case by (simp add: split_csv_last)
next
  case (3 v w ws)
  then show ?case by (simp add: join_csv_Cons2 split_csv_Cons del: join_csv.simps)
qed

lemma split_csv_no_empty: "[] \<notin> set (split_csv s)"
  by (induction s rule: split_csv.induct) (subst split_csv.simps, auto split: prod.splits option.splits)

lemma hex_encode_length: "length (hex_encode bs) = 2 * length bs"
  by (induction bs) (simp_all add: hex_encode_def)

lemma hex_digit_inj: "a < 16 \<Longrightarrow> b < 16 \<Longrightarrow> hex_digit a = hex_digit b \<Longrightarrow> a = b"
  by (auto simp: hex_digit_def split: if_splits dest: arg_cong [where f = "of_char :: char \<Rightarrow> nat"])

lemma hex_encode_inj: "hex_encode as = hex_encode bs \<Longrightarrow> as = bs"
proof (induction as arbitrary: bs)
  case Nil
  then show ?case by (cases bs) (simp_all add: hex_encode_def)
next
  case (Cons a as)
  then obtain b bs' where bs: "bs = b # bs'" by (cases bs) (simp_all add: hex_encode_def)
  have lt: "unat x div 16 < 16" "unat x mod 16 < 16" for x :: u8
    using u8_less_bound [of x] by simp_all
  have "unat a div 16 = unat b div 16" "unat a mod 16 = unat b mod 16"
    using Cons.prems bs hex_digit_inj lt by (simp_all add: hex_encode_def)
  then have "unat a = unat b"
    by (metis mult_div_mod_eq)
  then have "a = b" by (rule unsigned_word_eqI)
  then show ?case
    using Cons bs by (simp add: hex_encode_def)
qed

section \<open>Case folding, trimming, pairing codes\<close>

definition lowercase_ascii :: "string \<Rightarrow> string" where
  "lowercase_ascii = map tolower"

definition trim :: "string \<Rightarrow> string" where
  "trim s = rev (dropWhile isspace (rev (dropWhile isspace s)))"

definition normalize_pairing_code :: "string \<Rightarrow> string" where
  "normalize_pairing_code code = lowercase_ascii (trim code)"

definition mnemonic_pairing_char :: "char \<Rightarrow> bool" where
  "mnemonic_pairing_char c \<longleftrightarrow> isalnum c \<or> c = CHR ''-''"

text \<open>The loop over the segments between dashes; \<open>False\<close>: it meets an empty one.\<close>

function mnemonic_segments_ok :: "string \<Rightarrow> bool" where
  "mnemonic_segments_ok s =
     (if s = [] then True
      else case cut (CHR ''-'') s of (segment, rest) \<Rightarrow>
        if segment = [] then False
        else (case rest of None \<Rightarrow> True | Some r \<Rightarrow> mnemonic_segments_ok r))"
  by pat_completeness auto
termination
  by (relation "measure length") (auto dest: cut_shorter)

declare mnemonic_segments_ok.simps [simp del]

definition validate_pairing_code_format :: "string \<Rightarrow> bool \<Rightarrow> string option" where
  "validate_pairing_code_format code required =
     (let normalized = normalize_pairing_code code; mnemonic = CHR ''-'' \<in> set normalized in
      if normalized = [] then (if required then Some ''pairing code is required'' else None)
      else if 200 < length normalized then Some ''pairing code is too long (max 200)''
      else if list_ex (\<lambda>c. of_char c = (10::nat) \<or> of_char c = (13::nat) \<or> of_char c = (9::nat)) normalized
        then Some ''pairing code contains invalid whitespace''
      else if mnemonic \<and> \<not> list_all mnemonic_pairing_char normalized
        then Some ''pairing code has invalid character (use letters, digits, and - for mnemonic codes)''
      else if \<not> mnemonic \<and> \<not> list_all isalnum normalized
        then Some ''pairing code has invalid character (use letters and digits)''
      else if mnemonic then
        (if hd normalized = CHR ''-'' \<or> last normalized = CHR ''-'' \<or> \<not> mnemonic_segments_ok normalized
         then Some ''pairing code has empty mnemonic segment'' else None)
      else if length normalized < 2 then Some ''pairing code is too short''
      else None)"

lemma tolower_idem [simp]: "tolower (tolower c) = tolower c"
  by (simp add: tolower_def)

lemma lowercase_idem [simp]: "lowercase_ascii (lowercase_ascii s) = lowercase_ascii s"
  by (simp add: lowercase_ascii_def)

lemma isspace_tolower [simp]: "isspace (tolower c) = isspace c"
  by (auto simp: isspace_def tolower_def)

lemma lowercase_length [simp]: "length (lowercase_ascii s) = length s"
  by (simp add: lowercase_ascii_def)

lemma dropWhile_hd: "dropWhile P s \<noteq> [] \<Longrightarrow> \<not> P (hd (dropWhile P s))"
  by (induction s) auto

lemma last_dropWhile: "dropWhile P s \<noteq> [] \<Longrightarrow> last (dropWhile P s) = last s"
  by (induction s) auto

lemma trim_ends: "trim s = [] \<or> \<not> isspace (hd (trim s)) \<and> \<not> isspace (last (trim s))"
proof (cases "trim s = []")
  case False
  let ?t = "dropWhile isspace s" and ?u = "dropWhile isspace (rev (dropWhile isspace s))"
  have u: "?u \<noteq> []" using False by (simp add: trim_def)
  then have t: "?t \<noteq> []" by (metis dropWhile.simps(1) rev.simps(1))
  have "last ?u = hd ?t"
    using last_dropWhile [OF u] by (simp add: t last_rev)
  then show ?thesis
    using dropWhile_hd [OF u] dropWhile_hd [OF t] by (simp add: trim_def hd_rev last_rev u)
qed simp

lemma dropWhile_id: "s = [] \<or> \<not> P (hd s) \<Longrightarrow> dropWhile P s = s"
  by (cases s) auto

lemma trim_fix: "s = [] \<or> \<not> isspace (hd s) \<and> \<not> isspace (last s) \<Longrightarrow> trim s = s"
  by (auto simp: trim_def dropWhile_id hd_rev)

lemma normalize_idem: "normalize_pairing_code (normalize_pairing_code code) = normalize_pairing_code code"
proof -
  let ?n = "lowercase_ascii (trim code)"
  have "?n = [] \<or> \<not> isspace (hd ?n) \<and> \<not> isspace (last ?n)"
    using trim_ends [of code] by (auto simp: lowercase_ascii_def hd_map last_map)
  then show ?thesis
    by (simp add: normalize_pairing_code_def trim_fix)
qed

text \<open>The segments of a code between its dashes.\<close>

fun dash_segments :: "string \<Rightarrow> string list" where
  "dash_segments [] = [[]]"
| "dash_segments (c # cs) =
     (if c = CHR ''-'' then [] # dash_segments cs
      else (c # hd (dash_segments cs)) # tl (dash_segments cs))"

lemma dash_segments_nonempty [simp]: "dash_segments s \<noteq> []"
  by (cases s) simp_all

lemma dash_segments_no_dash: "CHR ''-'' \<notin> set s \<Longrightarrow> dash_segments s = [s]"
  by (induction s) auto

lemma dash_segments_append:
  "CHR ''-'' \<notin> set v \<Longrightarrow> dash_segments (v @ CHR ''-'' # r) = v # dash_segments r"
  by (induction v) auto

lemma mnemonic_segments_ok_eq:
  "s \<noteq> [] \<Longrightarrow> last s \<noteq> CHR ''-'' \<Longrightarrow> mnemonic_segments_ok s \<longleftrightarrow> [] \<notin> set (dash_segments s)"
proof (induction s rule: mnemonic_segments_ok.induct)
  case (1 s)
  show ?case
  proof (cases rule: cut_cases [of "CHR ''-''" s])
    case absent
    then show ?thesis
      using 1(2) by (subst mnemonic_segments_ok.simps) (simp add: dash_segments_no_dash)
  next
    case (found v r)
    then have "r \<noteq> []" "last r \<noteq> CHR ''-''"
      using 1(3) by (auto split: if_splits)
    then show ?thesis
      using 1(1) [OF 1(2)] 1(2) found
      by (subst mnemonic_segments_ok.simps) (auto simp: dash_segments_append)
  qed
qed

section \<open>Endpoints\<close>

record endpoint =
  host :: string
  port :: u16

definition is_unspecified :: "endpoint \<Rightarrow> bool" where
  "is_unspecified e \<longleftrightarrow> host e = [] \<or> host e = ''0.0.0.0'' \<or> host e = ''::'' \<or> host e = ''[::]''"

definition endpoint_to_string :: "endpoint \<Rightarrow> string" where
  "endpoint_to_string e =
     (if CHR '':'' \<in> set (host e) \<and> (host e = [] \<or> hd (host e) \<noteq> CHR ''['')
      then ''['' @ host e @ '']:'' @ to_dec (unat (port e))
      else host e @ '':'' @ to_dec (unat (port e)))"

text \<open>The text \<open>']'\<close>, quotes included.\<close>

definition quoted_bracket :: string where
  "quoted_bracket = [CHR 0x27, CHR '']'', CHR 0x27]"

definition checked_endpoint_port :: "u64 \<Rightarrow> string \<Rightarrow> bool \<Rightarrow> u16 result" where
  "checked_endpoint_port p value allow_zero =
     (if p < (if allow_zero then 0 else 1) \<or> 65535 < p
      then Inl (''endpoint port out of range: '' @ value)
      else Inr (ucast p))"

definition parse_port_number :: "string \<Rightarrow> string \<Rightarrow> u64 result" where
  "parse_port_number text value =
     (case parse_u64_strict text of None \<Rightarrow> Inl (''endpoint port is invalid: '' @ value) | Some p \<Rightarrow> Inr p)"

definition parse_endpoint_impl :: "string \<Rightarrow> u16 \<Rightarrow> bool \<Rightarrow> bool \<Rightarrow> endpoint result" where
  "parse_endpoint_impl value default_port allow_zero_port require_port_when_default_zero =
     (let no_default = (default_port = 0 \<and> require_port_when_default_zero) in
      if value \<noteq> [] \<and> hd value = CHR ''['' then
        (case cut (CHR '']'') (tl value) of
           (_, None) \<Rightarrow> Inl (''endpoint missing closing '' @ quoted_bracket @ '': '' @ value)
         | (h, Some rest) \<Rightarrow>
             (if rest = [] then
                (if no_default then Inl (''endpoint must be [host]:port: '' @ value)
                 else Inr \<lparr>host = h, port = default_port\<rparr>)
              else if hd rest \<noteq> CHR '':'' \<or> length rest < 2
                then Inl (''endpoint malformed after '' @ quoted_bracket @ '': '' @ value)
              else andthen (parse_port_number (tl rest) value) (\<lambda>p.
                andthen (checked_endpoint_port p value allow_zero_port) (\<lambda>q.
                  Inr \<lparr>host = h, port = q\<rparr>))))
      else if 1 < count_list value (CHR '':'') then
        (if no_default then Inl (''endpoint must be [host]:port for IPv6: '' @ value)
         else Inr \<lparr>host = value, port = default_port\<rparr>)
      else
        (case cut (CHR '':'') value of
           (_, None) \<Rightarrow> (if no_default then Inl (''endpoint must be host:port: '' @ value)
                  else Inr \<lparr>host = value, port = default_port\<rparr>)
         | (h0, Some port_text) \<Rightarrow>
             (let h = (if h0 = [] then ''::'' else h0) in
              if port_text = [] then Inl (''endpoint port is empty: '' @ value)
              else andthen (parse_port_number port_text value) (\<lambda>p.
                andthen (checked_endpoint_port p value allow_zero_port) (\<lambda>q.
                  Inr \<lparr>host = h, port = q\<rparr>)))))"

definition parse_endpoint :: "string \<Rightarrow> u16 \<Rightarrow> endpoint result" where
  "parse_endpoint value default_port = parse_endpoint_impl value default_port False True"

definition parse_bind_endpoint :: "string \<Rightarrow> u16 \<Rightarrow> endpoint result" where
  "parse_bind_endpoint value default_port = parse_endpoint_impl value default_port True False"

text \<open>The hosts that \<open>to_string\<close> can print and the parser can read back.\<close>

definition printable_host :: "string \<Rightarrow> bool" where
  "printable_host h \<longleftrightarrow> h \<noteq> [] \<and> hd h \<noteq> CHR ''['' \<and> (CHR '':'' \<in> set h \<longrightarrow> CHR '']'' \<notin> set h)"

lemma unat_u16_u64 [simp]: "unat (ucast (p :: u16) :: u64) = unat p"
  using u16_less_bound [of p] by (simp add: unsigned_ucast_eq take_bit_nat_eq_self)

lemma checked_port_of_u16:
  assumes "allow_zero \<or> p \<noteq> 0"
  shows "checked_endpoint_port (ucast (p :: u16)) v allow_zero = Inr p"
proof -
  have "\<not> 65535 < (ucast p :: u64)"
    using u16_less_bound [of p] by (simp add: word_less_nat_alt)
  moreover have "p \<noteq> 0 \<Longrightarrow> \<not> (ucast p :: u64) < 1"
    by (simp add: word_less_nat_alt unat_eq_zero)
  moreover have "ucast (ucast p :: u64) = p"
    by (rule ucast_up_ucast_id) (simp add: is_up)
  ultimately show ?thesis
    using assms by (auto simp: checked_endpoint_port_def)
qed

lemma parse_port_to_dec: "parse_port_number (to_dec (unat (p :: u16))) v = Inr (ucast p)"
  using parse_to_dec_unat [of "ucast p"] by (simp add: parse_port_number_def)

lemma count_list_host_port: "CHR '':'' \<notin> set h \<Longrightarrow> count_list (h @ CHR '':'' # to_dec n) (CHR '':'') = 1"
  using to_dec_char_not [of "CHR '':''" n] by (simp add: isdigit_def count_list_0_iff)

lemma endpoint_roundtrip_bracketed:
  assumes "CHR '']'' \<notin> set h" "p \<noteq> 0"
  shows "parse_endpoint (''['' @ h @ '']:'' @ to_dec (unat p)) d = Inr \<lparr>host = h, port = p\<rparr>"
proof -
  have "cut (CHR '']'') (h @ '']:'' @ to_dec (unat p)) = (h, Some ('':'' @ to_dec (unat p)))"
    using cut_append [OF assms(1), of "'':'' @ to_dec (unat p)"] by simp
  then show ?thesis
    using assms(2)
    by (simp add: parse_endpoint_def parse_endpoint_impl_def parse_port_to_dec checked_port_of_u16 Let_def
        Suc_le_eq [symmetric] not_less_eq_eq)
qed

lemma endpoint_roundtrip_plain:
  assumes "CHR '':'' \<notin> set h" "h \<noteq> []" "hd h \<noteq> CHR ''[''" "p \<noteq> 0"
  shows "parse_endpoint (h @ '':'' @ to_dec (unat p)) d = Inr \<lparr>host = h, port = p\<rparr>"
  using assms count_list_host_port [OF assms(1), of "unat p"]
  by (simp add: parse_endpoint_def parse_endpoint_impl_def parse_port_to_dec checked_port_of_u16 Let_def)

text \<open>
  An endpoint with a printable host and a nonzero port survives \<open>to_string\<close> followed by
  \<open>parse_endpoint\<close>, for IPv6 hosts (printed in brackets) and all others, whatever the default port.
\<close>

theorem endpoint_roundtrip:
  assumes "printable_host (host e)" and "port e \<noteq> 0"
  shows "parse_endpoint (endpoint_to_string e) d = Inr e"
proof -
  have "e = \<lparr>host = host e, port = port e\<rparr>" by simp
  then show ?thesis
    using assms endpoint_roundtrip_bracketed [of "host e" "port e" d]
      endpoint_roundtrip_plain [of "host e" "port e" d]
    by (auto simp: printable_host_def endpoint_to_string_def)
qed

theorem endpoint_roundtrip_witness:
  "parse_endpoint (endpoint_to_string \<lparr>host = ''fe80::1'', port = 9000\<rparr>) 0 =
     Inr \<lparr>host = ''fe80::1'', port = 9000\<rparr>"
  by (rule endpoint_roundtrip) (simp_all add: printable_host_def)

text \<open>
  \<open>parse_u64_strict\<close> is exact: it accepts the non-empty digit strings whose value is
  below 2^64, gives that value, and rejects everything else, so no accepted text wraps around.
\<close>

theorem parse_u64_strict_exact:
  "parse_u64_strict s =
     (if s \<noteq> [] \<and> list_all isdigit s \<and> dec_val 0 s < 2 ^ 64 then Some (of_nat (dec_val 0 s)) else None)"
  by (rule parse_u64_strict_eq)

text \<open>The required pairing codes: what the validator is meant to accept.\<close>

definition pairing_code_ok :: "string \<Rightarrow> bool" where
  "pairing_code_ok n \<longleftrightarrow> length n \<le> 200 \<and>
     (if CHR ''-'' \<in> set n
      then list_all (\<lambda>seg. seg \<noteq> [] \<and> list_all isalnum seg) (dash_segments n)
      else 2 \<le> length n \<and> list_all isalnum n)"

lemma dash_segments_chars:
  "(\<forall>seg \<in> set (dash_segments s). \<forall>c \<in> set seg. P c) \<longleftrightarrow> (\<forall>c \<in> set s. c = CHR ''-'' \<or> P c)"
proof (induction s)
  case (Cons c cs)
  then show ?case
    by (cases "dash_segments cs") (auto split: if_splits)
qed simp

lemma dash_segments_ends:
  "s \<noteq> [] \<Longrightarrow> [] \<notin> set (dash_segments s) \<Longrightarrow> hd s \<noteq> CHR ''-'' \<and> last s \<noteq> CHR ''-''"
proof (induction s rule: rev_induct)
  case (snoc c s)
  have "tl (dash_segments (s @ ''-'')) \<noteq> [] \<and> last (dash_segments (s @ ''-'')) = []" for s
    by (induction s) (auto simp: last_tl)
  then have "[] \<in> set (dash_segments (s @ ''-''))"
    by (metis dash_segments_nonempty last_in_set)
  then have "c \<noteq> CHR ''-''" using snoc.prems(2) by auto
  moreover have "hd (s @ [c]) \<noteq> CHR ''-''"
    using snoc.prems(2) by (cases "s @ [c]") (auto split: if_splits)
  ultimately show ?case by simp
qed simp

lemma segments_alnum_iff:
  "list_all (\<lambda>seg. seg \<noteq> [] \<and> list_all isalnum seg) (dash_segments s) \<longleftrightarrow>
     [] \<notin> set (dash_segments s) \<and> list_all mnemonic_pairing_char s"
proof -
  have "list_all mnemonic_pairing_char s \<longleftrightarrow> (\<forall>seg \<in> set (dash_segments s). \<forall>c \<in> set seg. isalnum c)"
    unfolding dash_segments_chars by (auto simp: list_all_iff mnemonic_pairing_char_def)
  then show ?thesis
    by (auto simp: list_all_iff)
qed

lemma pairing_ok_no_control:
  assumes "list_all mnemonic_pairing_char n"
  shows "\<not> list_ex (\<lambda>c. of_char c = (10::nat) \<or> of_char c = (13::nat) \<or> of_char c = (9::nat)) n"
proof -
  have "\<not> (of_char c = (10::nat) \<or> of_char c = (13::nat) \<or> of_char c = (9::nat))"
    if "mnemonic_pairing_char c" for c
    using that by (auto simp: mnemonic_pairing_char_def isalnum_def isdigit_def isalpha_def)
  then show ?thesis
    using assms by (auto simp: list_ex_iff list_all_iff)
qed

lemma alnum_mnemonic: "list_all isalnum n \<Longrightarrow> list_all mnemonic_pairing_char n"
  by (auto simp: list_all_iff mnemonic_pairing_char_def)

lemma validate_mnemonic:
  assumes "n = normalize_pairing_code code" "CHR ''-'' \<in> set n"
  shows "validate_pairing_code_format code True = None \<longleftrightarrow>
     length n \<le> 200 \<and> list_all mnemonic_pairing_char n \<and> [] \<notin> set (dash_segments n)"
proof -
  have ne: "n \<noteq> []" using assms(2) by auto
  show ?thesis
    using ne assms(2) pairing_ok_no_control [of n] dash_segments_ends [OF ne] mnemonic_segments_ok_eq [OF ne]
    unfolding validate_pairing_code_format_def assms(1) [symmetric] Let_def
    by (simp split: if_splits) linarith
qed

lemma validate_short:
  assumes "n = normalize_pairing_code code" "CHR ''-'' \<notin> set n"
  shows "validate_pairing_code_format code True = None \<longleftrightarrow>
     length n \<le> 200 \<and> list_all isalnum n \<and> 2 \<le> length n"
  using assms(2) pairing_ok_no_control [OF alnum_mnemonic, of n]
  unfolding validate_pairing_code_format_def assms(1) [symmetric] Let_def
  by (cases "n = []"; cases "list_all isalnum n") (auto split: if_splits)

text \<open>
  a required pairing code is accepted exactly when, trimmed and lower-cased, it has at
  most 200 characters and is either at least two letters or digits, or dash-separated
  segments, none of them empty, of letters and digits.
\<close>

theorem validate_pairing_code_exact:
  "validate_pairing_code_format code True = None \<longleftrightarrow> pairing_code_ok (normalize_pairing_code code)"
  using validate_mnemonic [OF refl, of code] validate_short [OF refl, of code]
  unfolding pairing_code_ok_def segments_alnum_iff by auto

end
