(* ===== verification/Protocol.thy ===== *)
theory Protocol
  imports Text_Util Ord_Map
begin

text \<open>
  \<open>src/core/protocol.hpp\<close>, \<open>src/core/protocol.cpp\<close>: control messages, their JSON form and
  the length-prefixed frames. JSON text is produced and read by a third-party library:
  \<open>dump\<close> and \<open>parse\<close> are parameters, and only the values in between are modelled.
\<close>

unbundle bit_operations_syntax

section \<open>Big-endian integers\<close>

text \<open>\<open>htonl\<close>/\<open>ntohl\<close> here, \<open>put_u32\<close>/\<open>put_u64\<close>/\<open>read_u32\<close>/\<open>read_u64\<close> of the mux files.\<close>

definition put_be :: "nat \<Rightarrow> 'a::len word \<Rightarrow> bytes" where
  "put_be n v = map (\<lambda>i. ucast (drop_bit (i * 8) v)) (rev [0..<n])"

definition read_be :: "bytes \<Rightarrow> 'a::len word" where
  "read_be bs = foldl (\<lambda>v b. push_bit 8 v OR ucast b) 0 bs"

abbreviation put_u32 :: "u32 \<Rightarrow> bytes" where "put_u32 \<equiv> put_be 4"
abbreviation put_u64 :: "u64 \<Rightarrow> bytes" where "put_u64 \<equiv> put_be 8"

abbreviation read_u32 :: "bytes \<Rightarrow> u32" where "read_u32 \<equiv> read_be"
abbreviation read_u64 :: "bytes \<Rightarrow> u64" where "read_u64 \<equiv> read_be"

lemma put_be_length [simp]: "length (put_be n v) = n"
  by (simp add: put_be_def)

lemma be_step:
  "push_bit 8 (drop_bit (n + 8) v) OR ucast (ucast (drop_bit n v) :: u8) = drop_bit n (v :: 'a::len word)"
proof (rule bit_word_eqI)
  fix i assume i: "i < LENGTH('a)"
  show "bit (push_bit 8 (drop_bit (n + 8) v) OR ucast (ucast (drop_bit n v) :: u8)) i \<longleftrightarrow> bit (drop_bit n v) i"
    using i by (cases "i < 8") (auto simp: bit_simps not_less dest: bit_imp_le_length)
qed

lemma read_put_be_aux:
  "foldl (\<lambda>v b. push_bit 8 v OR ucast b) (drop_bit (n * 8) v) (put_be n v) = (v :: 'a::len word)"
proof (induction n)
  case (Suc n)
  have "put_be (Suc n) v = ucast (drop_bit (n * 8) v) # put_be n v"
    by (simp add: put_be_def)
  then show ?case
    using Suc be_step [of "n * 8" v] by (simp add: add.commute)
qed (simp add: put_be_def)

lemma read_put_be: "LENGTH('a) \<le> n * 8 \<Longrightarrow> read_be (put_be n v) = (v :: 'a::len word)"
  using read_put_be_aux [of n v] by (simp add: read_be_def drop_bit_word_beyond)

lemma read_put_u32 [simp]: "read_u32 (put_u32 v) = v"
  and read_put_u64 [simp]: "read_u64 (put_u64 w) = w"
  by (simp_all add: read_put_be)

section \<open>Messages\<close>

record message =
  mtype :: string
  mfields :: "(string, string) omap"

definition msg_get :: "message \<Rightarrow> string \<Rightarrow> string \<Rightarrow> string" where
  "msg_get m key fallback = (case map_of (mfields m) key of None \<Rightarrow> fallback | Some v \<Rightarrow> v)"

definition msg_get_u64 :: "message \<Rightarrow> string \<Rightarrow> u64 \<Rightarrow> u64 result" where
  "msg_get_u64 m key fallback =
     (let value = msg_get m key [] in
      if value = [] then Inr fallback
      else case parse_u64_strict value of
        None \<Rightarrow> Inl (''control message field is not an unsigned integer: '' @ key)
      | Some n \<Rightarrow> Inr n)"

definition message_port_field :: "message \<Rightarrow> string \<Rightarrow> bool \<Rightarrow> u16 option result" where
  "message_port_field m key allow_zero =
     (if msg_get m key [] = [] then Inr None
      else andthen (msg_get_u64 m key 0) (\<lambda>p.
        if 65535 < p \<or> (\<not> allow_zero \<and> p = 0) then Inl (''invalid port field: '' @ key)
        else Inr (Some (ucast p))))"

definition message_port_or :: "message \<Rightarrow> string \<Rightarrow> u16 \<Rightarrow> bool \<Rightarrow> u16 result" where
  "message_port_or m key fallback allow_zero =
     andthen (message_port_field m key allow_zero) (\<lambda>p. Inr (case p of None \<Rightarrow> fallback | Some q \<Rightarrow> q))"

lemma msg_get_u64_dec:
  "map_of (mfields m) key = Some (to_dec (unat (n :: u64))) \<Longrightarrow> msg_get_u64 m key d = Inr n"
  by (simp add: msg_get_u64_def msg_get_def Let_def)

lemma msg_get_u64_absent: "map_of (mfields m) key = None \<Longrightarrow> msg_get_u64 m key d = Inr d"
  by (simp add: msg_get_u64_def msg_get_def)

lemma u16_in_range: "\<not> 65535 < (ucast (p :: u16) :: u64)"
  using u16_less_bound [of p] by (simp add: word_less_nat_alt)

lemma ucast_u16_u64_u16 [simp]: "ucast (ucast (p :: u16) :: u64) = p"
  by (rule ucast_up_ucast_id) (simp add: is_up)

lemma message_port_or_dec:
  assumes "map_of (mfields m) key = Some (to_dec (unat (p :: u16)))"
  shows "message_port_or m key d True = Inr p"
proof -
  have "msg_get_u64 m key 0 = Inr (ucast p)"
    using assms msg_get_u64_dec [of m key "ucast p"] by simp
  then show ?thesis
    using assms by (simp add: message_port_or_def message_port_field_def msg_get_def u16_in_range)
qed

lemma message_port_or_absent: "map_of (mfields m) key = None \<Longrightarrow> message_port_or m key d z = Inr d"
  by (simp add: message_port_or_def message_port_field_def msg_get_def)

section \<open>JSON values and the text form of a message\<close>

datatype json =
    JNull
  | JBool bool
  | JUnsigned u64
  | JInteger u64 \<comment> \<open>a negative number, in two's complement\<close>
  | JFloat int int \<comment> \<open>significand and exponent\<close>
  | JString string
  | JArray "json list"
  | JObject "(string \<times> json) list"

text \<open>\<open>object["type"] = type\<close>, then one assignment per field: a field of that name wins.\<close>

definition message_object :: "message \<Rightarrow> json" where
  "message_object m =
     JObject (fold (\<lambda>(key, value). omap_put key (JString value)) (mfields m) [(''type'', JString (mtype m))])"

definition encode_message :: "(json \<Rightarrow> string result) \<Rightarrow> message \<Rightarrow> string result" where
  "encode_message dump m = dump (message_object m)"

text \<open>The loop over the members of the object, in the order of their keys.\<close>

fun object_fields :: "(string \<times> json) list \<Rightarrow> (string, string) omap \<Rightarrow> (string, string) omap result" where
  "object_fields [] acc = Inr acc"
| "object_fields ((key, value) # rest) acc =
     (if key = ''type'' then object_fields rest acc
      else case value of
        JString s \<Rightarrow> object_fields rest (omap_put key s acc)
      | _ \<Rightarrow> Inl (''control message field must be a string: '' @ key))"

definition decode_message :: "(string \<Rightarrow> json result) \<Rightarrow> string \<Rightarrow> message result" where
  "decode_message parse text =
     (case parse text of
        Inl e \<Rightarrow> Inl (''invalid control message json: '' @ e)
      | Inr (JObject obj) \<Rightarrow>
          (case map_of obj ''type'' of
             Some (JString t) \<Rightarrow>
               andthen (object_fields obj []) (\<lambda>fs. Inr \<lparr>mtype = t, mfields = fs\<rparr>)
           | _ \<Rightarrow> Inl ''control message missing type'')
      | Inr _ \<Rightarrow> Inl ''control message must be a json object'')"

lemma fold_put_map_of:
  "omap_ok fs \<Longrightarrow> map_of (fold (\<lambda>(key, value). omap_put key (f value)) fs acc) k =
     (case map_of fs k of Some v \<Rightarrow> Some (f v) | None \<Rightarrow> map_of acc k)"
proof (induction fs arbitrary: acc)
  case (Cons p fs)
  then have "map_of fs (fst p) = None"
    by (auto simp: omap_ok_Cons map_of_eq_None_iff)
  then show ?case
    using Cons by (cases p) (auto simp: omap_ok_Cons split: option.split)
qed simp

lemma fold_put_ok:
  "omap_ok acc \<Longrightarrow> omap_ok (fold (\<lambda>(key, value). omap_put key (f value)) fs acc)"
  by (induction fs arbitrary: acc) auto

definition string_member :: "(string \<times> json) list \<Rightarrow> string \<Rightarrow> string option" where
  "string_member obj k = (case map_of obj k of Some (JString s) \<Rightarrow> Some s | _ \<Rightarrow> None)"

lemma string_member_simps [simp]:
  "string_member [] k = None"
  "string_member ((key, v) # obj) k =
     (if k = key then (case v of JString s \<Rightarrow> Some s | _ \<Rightarrow> None) else string_member obj k)"
  by (simp_all add: string_member_def split: json.split)

lemma object_fields_strings:
  assumes "\<forall>(key, value) \<in> set obj. key = ''type'' \<or> (\<exists>s. value = JString s)"
    and "omap_ok acc" "omap_ok obj"
  shows "\<exists>fs. object_fields obj acc = Inr fs \<and> omap_ok fs \<and>
    (\<forall>k. map_of fs k = (if k = ''type'' \<or> string_member obj k = None then map_of acc k else string_member obj k))"
  using assms
proof (induction obj arbitrary: acc)
  case (Cons p obj)
  obtain key v where p: "p = (key, v)" by (cases p)
  have "map_of obj key = None"
    using Cons.prems(3) p by (auto simp: omap_ok_Cons map_of_eq_None_iff)
  then have absent: "string_member obj key = None"
    by (simp add: string_member_def)
  show ?case
  proof (cases "key = ''type''")
    case True
    then show ?thesis
      using Cons.IH [of acc] Cons.prems p by (auto simp: omap_ok_Cons)
  next
    case False
    then obtain s where v: "v = JString s" using Cons.prems(1) p by auto
    obtain fs where "object_fields obj (omap_put key s acc) = Inr fs" "omap_ok fs"
      "\<forall>k. map_of fs k = (if k = ''type'' \<or> string_member obj k = None then map_of (omap_put key s acc) k
         else string_member obj k)"
      using Cons.IH [of "omap_put key s acc"] Cons.prems p by (auto simp: omap_ok_Cons)
    then show ?thesis
      using p v False absent by (intro exI [of _ fs]) simp
  qed
qed simp

text \<open>The messages the program builds: no field is called \<open>type\<close>.\<close>

definition message_ok :: "message \<Rightarrow> bool" where
  "message_ok m \<longleftrightarrow> omap_ok (mfields m) \<and> \<not> omap_has (mfields m) ''type''"

lemma decode_object:
  assumes "message_ok m" and "message_object m = JObject obj" and "parse text = Inr (JObject obj)"
  shows "decode_message parse text = Inr m"
proof -
  have obj: "obj = fold (\<lambda>(key, value). omap_put key (JString value)) (mfields m) [(''type'', JString (mtype m))]"
    using assms(2) by (simp add: message_object_def)
  have ok: "omap_ok (mfields m)" and nt: "map_of (mfields m) ''type'' = None"
    using assms(1) by (auto simp: message_ok_def omap_has_def)
  have obj_ok: "omap_ok obj"
    unfolding obj by (rule fold_put_ok) (simp add: omap_ok_Cons)
  have get: "map_of obj k = (case map_of (mfields m) k of Some v \<Rightarrow> Some (JString v)
      | None \<Rightarrow> map_of [(''type'', JString (mtype m))] k)" for k
    unfolding obj by (rule fold_put_map_of [OF ok])
  have strings: "\<forall>(key, value) \<in> set obj. key = ''type'' \<or> (\<exists>s. value = JString s)"
  proof clarify
    fix k v assume 1: "(k, v) \<in> set obj" and 2: "\<nexists>s. v = JString s"
    from 1 have "map_of obj k = Some v"
      using obj_ok by (simp add: omap_ok_def)
    then show "k = ''type''"
      using get [of k] 2 by (auto split: option.splits if_splits)
  qed
  obtain fs where fs: "object_fields obj [] = Inr fs" "omap_ok fs"
    "\<forall>k. map_of fs k = (if k = ''type'' \<or> string_member obj k = None then map_of [] k else string_member obj k)"
    using object_fields_strings [OF strings _ obj_ok, of "[]"] by auto
  have "map_of fs k = map_of (mfields m) k" for k
    using nt spec [OF fs(3), of k] by (auto simp: string_member_def get split: option.splits if_splits)
  then have "fs = mfields m"
    by (intro omap_ext [OF fs(2) ok]) (simp add: fun_eq_iff)
  then show ?thesis
    using assms(3) get [of "''type''"] nt fs(1) by (simp add: decode_message_def)
qed

section \<open>Frames\<close>

text \<open>
  The receiving side of a connection: the bytes that still arrive, what comes after them,
  and whether this side has closed the socket. For the reads with a deadline, \<open>arriving\<close> holds
  the bytes that arrive before it passes (or before the operation is cancelled), and \<open>Quiet\<close>
  means that nothing else happens until then. A blocking read on a quiet connection does not
  return; \<open>recv_exact\<close> gives what it returns once the peer closes.
\<close>

datatype wire_end = Quiet | Eof | Broken string

record wire =
  arriving :: bytes
  ending :: wire_end
  closed :: bool

definition kMagic :: bytes where
  "kMagic = [0x6b, 0x69, 0x6b, 0x6f]"

definition kMaxFramePayloadBytes :: nat where
  "kMaxFramePayloadBytes = 64 * 1024 * 1024"

definition verify_magic :: "bytes \<Rightarrow> unit result" where
  "verify_magic header = fail_if (header \<noteq> kMagic) ''invalid frame magic''"

definition send_frame :: "bytes \<Rightarrow> bytes result" where
  "send_frame payload =
     (if kMaxFramePayloadBytes < length payload then Inl ''frame too large''
      else Inr (kMagic @ put_u32 (of_nat (length payload)) @ payload))"

text \<open>\<open>TcpSocket::recv_exact\<close>: all \<open>n\<close> bytes, or the end of the stream.\<close>

definition recv_exact :: "nat \<Rightarrow> wire \<Rightarrow> bytes option result \<times> wire" where
  "recv_exact n w =
     (if n \<le> length (arriving w) then (Inr (Some (take n (arriving w))), w\<lparr>arriving := drop n (arriving w)\<rparr>)
      else ((case ending w of Broken e \<Rightarrow> Inl (''recv failed: '' @ e) | _ \<Rightarrow> Inr None), w\<lparr>arriving := []\<rparr>))"

definition receive_payload :: "nat \<Rightarrow> bytes \<Rightarrow> wire \<Rightarrow> (nat \<Rightarrow> wire \<Rightarrow> bytes option result \<times> wire) \<Rightarrow>
    bytes option result \<times> wire" where
  "receive_payload max_payload_bytes be_len w receive =
     (let len = unat (read_u32 be_len) in
      if max_payload_bytes < len then (Inl ''received frame too large'', w)
      else if len = 0 then (Inr (Some []), w)
      else receive len w)"

definition receive_frame :: "nat \<Rightarrow> wire \<Rightarrow> bytes option result \<times> wire" where
  "receive_frame max_payload_bytes w =
     (case recv_exact 4 w of
        (Inr (Some magic), w1) \<Rightarrow>
          (case verify_magic magic of
             Inl e \<Rightarrow> (Inl e, w1)
           | Inr _ \<Rightarrow>
               (case recv_exact 4 w1 of
                  (Inr (Some be_len), w2) \<Rightarrow> receive_payload max_payload_bytes be_len w2 recv_exact
                | r \<Rightarrow> r))
      | r \<Rightarrow> r)"

definition recv_frame :: "wire \<Rightarrow> bytes option result \<times> wire" where
  "recv_frame = receive_frame kMaxFramePayloadBytes"

text \<open>
  \<open>recv_frame_timeout\<close>: the idle wait may end without a byte; once the first byte has come,
  every later read that does not complete in time closes the socket. A socket error is thrown
  from either, through \<open>recv_some_timeout\<close>.
\<close>

definition receive_remaining :: "nat \<Rightarrow> wire \<Rightarrow> bytes option result \<times> wire" where
  "receive_remaining n w =
     (if n \<le> length (arriving w) then (Inr (Some (take n (arriving w))), w\<lparr>arriving := drop n (arriving w)\<rparr>)
      else case ending w of
        Broken e \<Rightarrow> (Inl (''recv failed: '' @ e), w\<lparr>arriving := []\<rparr>)
      | _ \<Rightarrow> (Inr None, w\<lparr>arriving := [], closed := True\<rparr>))"

definition recv_frame_timeout :: "nat \<Rightarrow> wire \<Rightarrow> bytes option result \<times> wire" where
  "recv_frame_timeout max_payload_bytes w =
     (case arriving w of
        [] \<Rightarrow> (case ending w of
                Quiet \<Rightarrow> (Inr None, w)
              | Eof \<Rightarrow> (Inr None, w\<lparr>closed := True\<rparr>)
              | Broken e \<Rightarrow> (Inl (''recv failed: '' @ e), w))
      | first # rest \<Rightarrow>
          (case receive_remaining 3 (w\<lparr>arriving := rest\<rparr>) of
             (Inr (Some magic), w1) \<Rightarrow>
               (case verify_magic (first # magic) of
                  Inl e \<Rightarrow> (Inl e, w1)
                | Inr _ \<Rightarrow>
                    (case receive_remaining 4 w1 of
                       (Inr (Some be_len), w2) \<Rightarrow> receive_payload max_payload_bytes be_len w2 receive_remaining
                     | r \<Rightarrow> r))
           | r \<Rightarrow> r))"

lemma kMagic_length [simp]: "length kMagic = 4"
  by (simp add: kMagic_def)

lemma verify_magic_iff: "verify_magic h = Inr u \<longleftrightarrow> h = kMagic"
  by (simp add: verify_magic_def)

lemma frame_length_back:
  assumes "length p \<le> kMaxFramePayloadBytes"
  shows "unat (read_u32 (put_u32 (of_nat (length p)))) = length p"
  using assms by (simp add: kMaxFramePayloadBytes_def unat_of_nat)

lemma send_frame_InrD:
  "send_frame p = Inr f \<Longrightarrow> length p \<le> kMaxFramePayloadBytes \<and> f = kMagic @ put_u32 (of_nat (length p)) @ p"
  by (simp add: send_frame_def split: if_splits)

lemma recv_frame_sent:
  assumes "send_frame payload = Inr frame"
  shows "recv_frame \<lparr>arriving = frame @ rest, ending = e, closed = False\<rparr> =
     (Inr (Some payload), \<lparr>arriving = rest, ending = e, closed = False\<rparr>)"
  using send_frame_InrD [OF assms] frame_length_back [of payload]
  by (auto simp: recv_frame_def receive_frame_def recv_exact_def receive_payload_def verify_magic_def Let_def)

text \<open>
  C6: a frame that was sent is read back whole, whatever follows it on the connection, and
  exactly the frame's bytes are consumed.
\<close>

theorem frame_roundtrip:
  assumes "send_frame payload = Inr frame"
  shows "recv_frame \<lparr>arriving = frame @ rest, ending = e, closed = False\<rparr> =
     (Inr (Some payload), \<lparr>arriving = rest, ending = e, closed = False\<rparr>)"
  using assms by (rule recv_frame_sent)

theorem frame_roundtrip_witness:
  "recv_frame \<lparr>arriving = [0x6b, 0x69, 0x6b, 0x6f, 0, 0, 0, 2, 7, 9] @ [1], ending = Eof, closed = False\<rparr> =
     (Inr (Some [7, 9]), \<lparr>arriving = [1], ending = Eof, closed = False\<rparr>)"
  by (rule frame_roundtrip)
    (simp add: send_frame_def kMaxFramePayloadBytes_def kMagic_def put_be_def upt_rec)

text \<open>
  the polling reader never loses its place in the stream: when it returns without a
  frame, either it has consumed nothing or it has closed the socket, so a later poll cannot
  start in the middle of a frame.
\<close>

theorem poll_keeps_framing:
  assumes "recv_frame_timeout limit w = (Inr None, w')"
  shows "w' = w \<or> closed w'"
  using assms
  by (auto simp: recv_frame_timeout_def receive_remaining_def receive_payload_def verify_magic_def fail_if_def
      Let_def split: list.splits prod.splits sum.splits option.splits if_splits wire_end.splits)

theorem poll_keeps_framing_witness:
  "closed (snd (recv_frame_timeout 100 \<lparr>arriving = [0x6b, 0x69], ending = Quiet, closed = False\<rparr>))"
proof -
  let ?w = "\<lparr>arriving = [0x6b, 0x69], ending = Quiet, closed = False\<rparr>"
  have "recv_frame_timeout 100 ?w = (Inr None, ?w\<lparr>arriving := [], closed := True\<rparr>)"
    by (simp add: recv_frame_timeout_def receive_remaining_def)
  from poll_keeps_framing [OF this] show ?thesis
    by (simp add: recv_frame_timeout_def receive_remaining_def)
qed

section \<open>Messages on a connection\<close>

definition bytes_of :: "string \<Rightarrow> bytes" where
  "bytes_of s = map (\<lambda>c. of_nat (of_char c)) s"

definition string_of :: "bytes \<Rightarrow> string" where
  "string_of b = map (\<lambda>x. char_of (unat x)) b"

definition send_message :: "(json \<Rightarrow> string result) \<Rightarrow> message \<Rightarrow> bytes result" where
  "send_message dump m = andthen (encode_message dump m) (\<lambda>text. send_frame (bytes_of text))"

definition recv_message_timeout :: "(string \<Rightarrow> json result) \<Rightarrow> nat \<Rightarrow> wire \<Rightarrow> message option result \<times> wire" where
  "recv_message_timeout parse max_payload_bytes w =
     (case recv_frame_timeout max_payload_bytes w of
        (Inl e, w1) \<Rightarrow> (Inl e, w1)
      | (Inr None, w1) \<Rightarrow> (Inr None, w1)
      | (Inr (Some payload), w1) \<Rightarrow>
          (andthen (decode_message parse (string_of payload)) (\<lambda>m. Inr (Some m)), w1))"

lemma unat_of_char: "unat (of_nat (of_char c) :: u8) = of_char c"
proof -
  have "of_char c < (256 :: nat)"
    using range_nat_of_char by auto
  then show ?thesis by (simp add: unat_of_nat)
qed

lemma string_of_bytes_of [simp]: "string_of (bytes_of s) = s"
  by (simp add: string_of_def bytes_of_def comp_def map_idI unat_of_char)

lemma recv_timeout_frame:
  assumes "send_frame payload = Inr frame" "length payload \<le> limit"
  shows "recv_frame_timeout limit \<lparr>arriving = frame @ rest, ending = e, closed = c\<rparr> =
     (Inr (Some payload), \<lparr>arriving = rest, ending = e, closed = c\<rparr>)"
  using send_frame_InrD [OF assms(1)] frame_length_back [of payload] assms(2)
  by (auto simp: recv_frame_timeout_def receive_remaining_def receive_payload_def verify_magic_def Let_def kMagic_def)

text \<open>What the JSON library promises: reading a printed value gives it back.\<close>

definition json_inverse :: "(json \<Rightarrow> string result) \<Rightarrow> (string \<Rightarrow> json result) \<Rightarrow> bool" where
  "json_inverse dump parse \<longleftrightarrow> (\<forall>j t. dump j = Inr t \<longrightarrow> parse t = Inr j)"

lemma decode_encode_message:
  assumes "json_inverse dump parse" "message_ok m" "encode_message dump m = Inr text"
  shows "decode_message parse text = Inr m"
proof -
  obtain obj where obj: "message_object m = JObject obj"
    by (simp add: message_object_def)
  have "parse text = Inr (JObject obj)"
    using assms obj by (simp add: json_inverse_def encode_message_def)
  then show ?thesis
    using decode_object [OF assms(2) obj] by simp
qed

end
