(* ===== verification/Relay_Protocol.thy ===== *)
theory Relay_Protocol
  imports Protocol
begin

text \<open>
  \<open>src/relay/relay_protocol.hpp\<close>, \<open>src/relay/relay_protocol.cpp\<close>: the typed hello and peer
  messages of the rendezvous relay, as encoder and decoder over control messages.
\<close>

datatype role = Sender | Receiver

definition role_name :: "role \<Rightarrow> string" where
  "role_name r = (case r of Sender \<Rightarrow> ''sender'' | Receiver \<Rightarrow> ''receiver'')"

definition decode_role :: "string \<Rightarrow> role result" where
  "decode_role value =
     (if value = ''sender'' then Inr Sender
      else if value = ''receiver'' then Inr Receiver
      else Inl (''unknown role: '' @ value))"

definition kMaxRelayConnections :: u64 where
  "kMaxRelayConnections = 32"

record relay_hello =
  h_room :: string
  h_role :: role
  h_conn_index :: u64
  h_listen :: endpoint
  h_punch_public :: endpoint
  h_file_count :: u64
  h_total_size :: u64
  h_conn_count :: u64
  h_auxiliary :: bool
  h_no_direct :: bool
  h_local_candidates :: "string list"
  h_app :: string
  h_stun_nat :: string
  h_relay_pass :: "string option"
  h_extension_fields :: "(string, string) omap"

record relay_peer_info =
  pi_peer_public :: endpoint
  pi_peer_listen :: endpoint
  pi_local_candidates :: "string list"
  pi_no_direct :: bool
  pi_self_public :: endpoint
  pi_punch_token :: string
  pi_route_commit_v2 :: bool
  pi_file_count :: u64
  pi_total_size :: u64
  pi_conn_count :: u64

definition kHelloFields :: "string list" where
  "kHelloFields =
     [''room'', ''role'', ''conn_index'', ''listen_host'',
      ''listen_port'', ''punch_public_host'', ''punch_public_port'', ''file_count'',
      ''total_size'', ''conn_count'', ''aux'', ''no_direct'',
      ''local_candidates'', ''app'', ''stun_nat'', ''relay_pass'']"

definition clear_protocol_fields :: "string list \<Rightarrow> (string, string) omap \<Rightarrow> (string, string) omap" where
  "clear_protocol_fields protocol_fields fs = fold omap_del protocol_fields fs"

definition validate_connection_count :: "u64 \<Rightarrow> unit result" where
  "validate_connection_count count =
     fail_if (count = 0 \<or> kMaxRelayConnections < count) ''invalid conn_count''"

definition u64_text :: "u64 \<Rightarrow> string" where "u64_text n = to_dec (unat n)"
definition u16_text :: "u16 \<Rightarrow> string" where "u16_text n = to_dec (unat n)"

definition hello_fields :: "relay_hello \<Rightarrow> (string, string) omap" where
  "hello_fields h =
     (put_if (h_relay_pass h \<noteq> None \<and> h_relay_pass h \<noteq> Some []) ''relay_pass''
        (case h_relay_pass h of Some p \<Rightarrow> p | None \<Rightarrow> []) \<circ>
      put_if (h_stun_nat h \<noteq> []) ''stun_nat'' (h_stun_nat h) \<circ>
      put_if (h_app h \<noteq> []) ''app'' (h_app h) \<circ>
      put_if (h_local_candidates h \<noteq> []) ''local_candidates'' (join_csv (h_local_candidates h)) \<circ>
      put_if (h_no_direct h) ''no_direct'' ''1'' \<circ>
      put_if (h_auxiliary h) ''aux'' ''1'' \<circ>
      put_if (h_conn_count h \<noteq> 1) ''conn_count'' (u64_text (h_conn_count h)) \<circ>
      put_if (0 < h_total_size h) ''total_size'' (u64_text (h_total_size h)) \<circ>
      put_if (0 < h_file_count h) ''file_count'' (u64_text (h_file_count h)) \<circ>
      put_if (0 < port (h_punch_public h)) ''punch_public_port'' (u16_text (port (h_punch_public h))) \<circ>
      put_if (host (h_punch_public h) \<noteq> []) ''punch_public_host'' (host (h_punch_public h)) \<circ>
      put_if (0 < port (h_listen h)) ''listen_port'' (u16_text (port (h_listen h))) \<circ>
      put_if (host (h_listen h) \<noteq> []) ''listen_host'' (host (h_listen h)) \<circ>
      put_if (0 < h_conn_index h) ''conn_index'' (u64_text (h_conn_index h)) \<circ>
      omap_put ''role'' (role_name (h_role h)) \<circ>
      omap_put ''room'' (h_room h))
     (clear_protocol_fields kHelloFields (h_extension_fields h))"

definition encode_relay_hello :: "relay_hello \<Rightarrow> message result" where
  "encode_relay_hello h =
     (if h_room h = [] then Inl ''relay hello room is required''
      else andthen (validate_connection_count (h_conn_count h)) (\<lambda>_.
        Inr \<lparr>mtype = ''hello'', mfields = hello_fields h\<rparr>))"

definition decode_relay_hello :: "message \<Rightarrow> relay_hello result" where
  "decode_relay_hello m =
     (if mtype m \<noteq> ''hello'' then Inl ''expected hello''
      else if msg_get m ''room'' [] = [] then Inl ''relay hello room is required''
      else
        andthen (decode_role (msg_get m ''role'' [])) (\<lambda>rl.
        andthen (msg_get_u64 m ''conn_index'' 0) (\<lambda>ci.
        andthen (message_port_or m ''listen_port'' 0 True) (\<lambda>lp.
        andthen (message_port_or m ''punch_public_port'' 0 True) (\<lambda>pp.
        andthen (msg_get_u64 m ''file_count'' 0) (\<lambda>fc.
        andthen (msg_get_u64 m ''total_size'' 0) (\<lambda>ts.
        andthen (msg_get_u64 m ''conn_count'' 1) (\<lambda>cc.
        andthen (validate_connection_count cc) (\<lambda>_.
        Inr \<lparr>h_room = msg_get m ''room'' [], h_role = rl, h_conn_index = ci,
             h_listen = \<lparr>host = msg_get m ''listen_host'' [], port = lp\<rparr>,
             h_punch_public = \<lparr>host = msg_get m ''punch_public_host'' [], port = pp\<rparr>,
             h_file_count = fc, h_total_size = ts, h_conn_count = cc,
             h_auxiliary = (msg_get m ''aux'' [] = ''1'' \<or> 0 < ci),
             h_no_direct = (msg_get m ''no_direct'' [] = ''1''),
             h_local_candidates = split_csv (msg_get m ''local_candidates'' []),
             h_app = msg_get m ''app'' [], h_stun_nat = msg_get m ''stun_nat'' [],
             h_relay_pass = (let p = msg_get m ''relay_pass'' [] in if p = [] then None else Some p),
             h_extension_fields = clear_protocol_fields kHelloFields (mfields m)\<rparr>)))))))))"

text \<open>The hellos a peer of this version builds.\<close>

definition csv_ok :: "string list \<Rightarrow> bool" where
  "csv_ok vs \<longleftrightarrow> (\<forall>v \<in> set vs. v \<noteq> [] \<and> CHR '','' \<notin> set v)"

definition hello_ok :: "relay_hello \<Rightarrow> bool" where
  "hello_ok h \<longleftrightarrow> h_room h \<noteq> [] \<and> h_conn_count h \<noteq> 0 \<and> h_conn_count h \<le> kMaxRelayConnections \<and>
     (0 < h_conn_index h \<longrightarrow> h_auxiliary h) \<and> csv_ok (h_local_candidates h) \<and>
     h_relay_pass h \<noteq> Some [] \<and> omap_ok (h_extension_fields h) \<and>
     (\<forall>k \<in> set kHelloFields. map_of (h_extension_fields h) k = None)"

lemma split_join_csv_ok: "csv_ok vs \<Longrightarrow> split_csv (join_csv vs) = vs"
  using split_join_csv [of vs] by (simp add: csv_ok_def filter_id_conv)

lemma split_csv_Nil [simp]: "split_csv [] = []"
  by (subst split_csv.simps) simp

lemma join_csv_Nil_iff: "csv_ok vs \<Longrightarrow> join_csv vs = [] \<longleftrightarrow> vs = []"
  by (cases vs) (auto simp: csv_ok_def)

lemma clear_lookup: "map_of (clear_protocol_fields ks fs) k = (if k \<in> set ks then None else map_of fs k)"
  by (simp add: clear_protocol_fields_def omap.erase_all_lookup)

lemma clear_ok: "omap_ok fs \<Longrightarrow> omap_ok (clear_protocol_fields ks fs)"
  by (simp add: clear_protocol_fields_def omap.erase_all_ok)

lemma hello_fields_ok: "omap_ok (h_extension_fields h) \<Longrightarrow> omap_ok (hello_fields h)"
  by (simp add: hello_fields_def clear_ok)

lemma hello_extension_back:
  assumes "hello_ok h"
  shows "clear_protocol_fields kHelloFields (hello_fields h) = h_extension_fields h"
proof (rule omap_ext)
  show "omap_ok (clear_protocol_fields kHelloFields (hello_fields h))" "omap_ok (h_extension_fields h)"
    using assms by (simp_all add: hello_ok_def clear_ok hello_fields_ok)
  show "map_of (clear_protocol_fields kHelloFields (hello_fields h)) = map_of (h_extension_fields h)"
  proof
    fix k
    show "map_of (clear_protocol_fields kHelloFields (hello_fields h)) k = map_of (h_extension_fields h) k"
    proof (cases "k \<in> set kHelloFields")
      case True
      then show ?thesis using assms by (simp add: clear_lookup hello_ok_def)
    next
      case False
      then show ?thesis by (simp add: clear_lookup hello_fields_def kHelloFields_def)
    qed
  qed
qed

text \<open>A numeric field that is written only when it differs from the value read for an absent one.\<close>

lemma msg_get_u64_field:
  "map_of (mfields m) key = (if n \<noteq> d then Some (u64_text n) else None) \<Longrightarrow> msg_get_u64 m key d = Inr n"
  by (cases "n = d") (simp_all add: msg_get_u64_absent msg_get_u64_dec u64_text_def)

lemma message_port_or_field:
  "map_of (mfields m) key = (if p \<noteq> 0 then Some (u16_text p) else None) \<Longrightarrow> message_port_or m key 0 True = Inr p"
  by (cases "p = 0") (simp_all add: message_port_or_absent message_port_or_dec u16_text_def)

lemma hello_lookup:
  "map_of (hello_fields h) ''room'' = Some (h_room h)"
  "map_of (hello_fields h) ''role'' = Some (role_name (h_role h))"
  "map_of (hello_fields h) ''conn_index'' = (if h_conn_index h \<noteq> 0 then Some (u64_text (h_conn_index h)) else None)"
  "map_of (hello_fields h) ''listen_host'' = (if host (h_listen h) \<noteq> [] then Some (host (h_listen h)) else None)"
  "map_of (hello_fields h) ''listen_port'' = (if port (h_listen h) \<noteq> 0 then Some (u16_text (port (h_listen h))) else None)"
  "map_of (hello_fields h) ''punch_public_host'' =
     (if host (h_punch_public h) \<noteq> [] then Some (host (h_punch_public h)) else None)"
  "map_of (hello_fields h) ''punch_public_port'' =
     (if port (h_punch_public h) \<noteq> 0 then Some (u16_text (port (h_punch_public h))) else None)"
  "map_of (hello_fields h) ''file_count'' = (if h_file_count h \<noteq> 0 then Some (u64_text (h_file_count h)) else None)"
  "map_of (hello_fields h) ''total_size'' = (if h_total_size h \<noteq> 0 then Some (u64_text (h_total_size h)) else None)"
  "map_of (hello_fields h) ''conn_count'' = (if h_conn_count h \<noteq> 1 then Some (u64_text (h_conn_count h)) else None)"
  "map_of (hello_fields h) ''aux'' = (if h_auxiliary h then Some ''1'' else None)"
  "map_of (hello_fields h) ''no_direct'' = (if h_no_direct h then Some ''1'' else None)"
  "map_of (hello_fields h) ''local_candidates'' =
     (if h_local_candidates h \<noteq> [] then Some (join_csv (h_local_candidates h)) else None)"
  "map_of (hello_fields h) ''app'' = (if h_app h \<noteq> [] then Some (h_app h) else None)"
  "map_of (hello_fields h) ''stun_nat'' = (if h_stun_nat h \<noteq> [] then Some (h_stun_nat h) else None)"
  "map_of (hello_fields h) ''relay_pass'' = (if h_relay_pass h = Some [] then None else h_relay_pass h)"
  by (simp_all add: hello_fields_def clear_lookup kHelloFields_def word_gt_0 split: option.split)

lemma decode_role_name [simp]: "decode_role (role_name r) = Inr r"
  by (cases r) (simp_all add: decode_role_def role_name_def)

lemma hello_numbers:
  fixes h defines "m \<equiv> \<lparr>mtype = ''hello'', mfields = hello_fields h\<rparr>"
  shows "msg_get_u64 m ''conn_index'' 0 = Inr (h_conn_index h)"
    "msg_get_u64 m ''file_count'' 0 = Inr (h_file_count h)"
    "msg_get_u64 m ''total_size'' 0 = Inr (h_total_size h)"
    "msg_get_u64 m ''conn_count'' 1 = Inr (h_conn_count h)"
    "message_port_or m ''listen_port'' 0 True = Inr (port (h_listen h))"
    "message_port_or m ''punch_public_port'' 0 True = Inr (port (h_punch_public h))"
  by (auto simp: m_def hello_lookup intro!: msg_get_u64_field message_port_or_field)

lemma decode_hello_fields:
  assumes "hello_ok h"
  shows "decode_relay_hello \<lparr>mtype = ''hello'', mfields = hello_fields h\<rparr> = Inr h"
proof -
  let ?m = "\<lparr>mtype = ''hello'', mfields = hello_fields h\<rparr>"
  have texts: "msg_get ?m ''room'' [] = h_room h" "msg_get ?m ''role'' [] = role_name (h_role h)"
    "msg_get ?m ''listen_host'' [] = host (h_listen h)" "msg_get ?m ''app'' [] = h_app h"
    "msg_get ?m ''punch_public_host'' [] = host (h_punch_public h)" "msg_get ?m ''stun_nat'' [] = h_stun_nat h"
    "msg_get ?m ''aux'' [] = ''1'' \<longleftrightarrow> h_auxiliary h" "msg_get ?m ''no_direct'' [] = ''1'' \<longleftrightarrow> h_no_direct h"
    by (simp_all add: msg_get_def hello_lookup)
  have lists: "split_csv (msg_get ?m ''local_candidates'' []) = h_local_candidates h"
    using assms by (simp add: msg_get_def hello_lookup split_join_csv_ok hello_ok_def)
  have pass: "(let p = msg_get ?m ''relay_pass'' [] in if p = [] then None else Some p) = h_relay_pass h"
    using assms by (cases "h_relay_pass h") (auto simp: msg_get_def hello_lookup hello_ok_def)
  have count: "validate_connection_count (h_conn_count h) = Inr ()"
    using assms by (auto simp: validate_connection_count_def hello_ok_def)
  have aux: "(h_auxiliary h \<or> 0 < h_conn_index h) = h_auxiliary h"
    using assms by (auto simp: hello_ok_def)
  have ext: "clear_protocol_fields kHelloFields (mfields ?m) = h_extension_fields h"
    using hello_extension_back [OF assms] by simp
  have room: "h_room h \<noteq> []" using assms by (simp add: hello_ok_def)
  show ?thesis
    unfolding decode_relay_hello_def texts lists pass ext hello_numbers aux andthen_simps decode_role_name count
    by (simp add: room)
qed

interpretation hello_codec: codec encode_relay_hello decode_relay_hello hello_ok
  by unfold_locales (auto simp: encode_relay_hello_def hello_ok_def validate_connection_count_def fail_if_def
      decode_hello_fields [unfolded hello_ok_def] split: if_splits)

text \<open>
  every well-formed relay hello survives encoding into a control message and decoding by
  the relay, the extension fields of other components included.
\<close>

theorem relay_hello_roundtrip:
  assumes "hello_ok h"
  shows "andthen (encode_relay_hello h) decode_relay_hello = Inr h"
  using assms by (rule hello_codec.roundtrip)

theorem relay_hello_roundtrip_witness:
  "andthen (encode_relay_hello \<lparr>h_room = ''r'', h_role = Receiver, h_conn_index = 2,
       h_listen = \<lparr>host = ''10.0.0.2'', port = 9000\<rparr>, h_punch_public = \<lparr>host = [], port = 0\<rparr>,
       h_file_count = 3, h_total_size = 0, h_conn_count = 4, h_auxiliary = True, h_no_direct = False,
       h_local_candidates = [''10.0.0.2'', ''fe80::1''], h_app = [], h_stun_nat = [], h_relay_pass = Some ''pw'',
       h_extension_fields = [(''x'', ''y'')]\<rparr>) decode_relay_hello =
   Inr \<lparr>h_room = ''r'', h_role = Receiver, h_conn_index = 2,
       h_listen = \<lparr>host = ''10.0.0.2'', port = 9000\<rparr>, h_punch_public = \<lparr>host = [], port = 0\<rparr>,
       h_file_count = 3, h_total_size = 0, h_conn_count = 4, h_auxiliary = True, h_no_direct = False,
       h_local_candidates = [''10.0.0.2'', ''fe80::1''], h_app = [], h_stun_nat = [], h_relay_pass = Some ''pw'',
       h_extension_fields = [(''x'', ''y'')]\<rparr>"
  by (rule relay_hello_roundtrip)
    (simp add: hello_ok_def kMaxRelayConnections_def csv_ok_def kHelloFields_def omap_ok_def)

section \<open>The peer message\<close>

definition peer_info_fields :: "relay_peer_info \<Rightarrow> (string, string) omap" where
  "peer_info_fields p =
     (omap_put ''conn_count'' (u64_text (pi_conn_count p)) \<circ>
      omap_put ''total_size'' (u64_text (pi_total_size p)) \<circ>
      omap_put ''file_count'' (u64_text (pi_file_count p)) \<circ>
      put_if (pi_route_commit_v2 p) ''route_commit'' ''v2'' \<circ>
      omap_put ''punch_token'' (pi_punch_token p) \<circ>
      omap_put ''your_public_port'' (u16_text (port (pi_self_public p))) \<circ>
      omap_put ''your_public_host'' (host (pi_self_public p)) \<circ>
      omap_put ''peer_no_direct'' (if pi_no_direct p then ''1'' else ''0'') \<circ>
      omap_put ''peer_local_candidates'' (join_csv (pi_local_candidates p)) \<circ>
      omap_put ''peer_listen_port'' (u16_text (port (pi_peer_listen p))) \<circ>
      omap_put ''peer_listen_host'' (host (pi_peer_listen p)) \<circ>
      omap_put ''peer_public_port'' (u16_text (port (pi_peer_public p))) \<circ>
      omap_put ''peer_public_host'' (host (pi_peer_public p))) []"

definition encode_relay_peer_info :: "relay_peer_info \<Rightarrow> message result" where
  "encode_relay_peer_info p =
     andthen (validate_connection_count (pi_conn_count p)) (\<lambda>_.
       Inr \<lparr>mtype = ''peer'', mfields = peer_info_fields p\<rparr>)"

definition decode_relay_peer_info :: "message \<Rightarrow> relay_peer_info result" where
  "decode_relay_peer_info m =
     (if mtype m \<noteq> ''peer'' then Inl ''expected peer''
      else
        andthen (message_port_or m ''peer_public_port'' 0 True) (\<lambda>pp.
        andthen (message_port_or m ''peer_listen_port'' 0 True) (\<lambda>lp.
        andthen (message_port_or m ''your_public_port'' 0 True) (\<lambda>yp.
        andthen (msg_get_u64 m ''file_count'' 0) (\<lambda>fc.
        andthen (msg_get_u64 m ''total_size'' 0) (\<lambda>ts.
        andthen (msg_get_u64 m ''conn_count'' 1) (\<lambda>cc.
        andthen (validate_connection_count cc) (\<lambda>_.
        Inr \<lparr>pi_peer_public = \<lparr>host = msg_get m ''peer_public_host'' [], port = pp\<rparr>,
             pi_peer_listen = \<lparr>host = msg_get m ''peer_listen_host'' [], port = lp\<rparr>,
             pi_local_candidates = split_csv (msg_get m ''peer_local_candidates'' []),
             pi_no_direct = (msg_get m ''peer_no_direct'' [] = ''1''),
             pi_self_public = \<lparr>host = msg_get m ''your_public_host'' [], port = yp\<rparr>,
             pi_punch_token = msg_get m ''punch_token'' [],
             pi_route_commit_v2 = (msg_get m ''route_commit'' [] = ''v2''),
             pi_file_count = fc, pi_total_size = ts, pi_conn_count = cc\<rparr>))))))))"

definition peer_info_ok :: "relay_peer_info \<Rightarrow> bool" where
  "peer_info_ok p \<longleftrightarrow> pi_conn_count p \<noteq> 0 \<and> pi_conn_count p \<le> kMaxRelayConnections \<and> csv_ok (pi_local_candidates p)"

lemma decode_peer_fields:
  assumes "peer_info_ok p"
  shows "decode_relay_peer_info \<lparr>mtype = ''peer'', mfields = peer_info_fields p\<rparr> = Inr p"
proof -
  let ?m = "\<lparr>mtype = ''peer'', mfields = peer_info_fields p\<rparr>"
  have numbers: "msg_get_u64 ?m ''conn_count'' 1 = Inr (pi_conn_count p)"
    "msg_get_u64 ?m ''file_count'' 0 = Inr (pi_file_count p)"
    "msg_get_u64 ?m ''total_size'' 0 = Inr (pi_total_size p)"
    by (simp_all add: msg_get_u64_dec peer_info_fields_def u64_text_def)
  have ports: "message_port_or ?m ''peer_public_port'' 0 True = Inr (port (pi_peer_public p))"
    "message_port_or ?m ''peer_listen_port'' 0 True = Inr (port (pi_peer_listen p))"
    "message_port_or ?m ''your_public_port'' 0 True = Inr (port (pi_self_public p))"
    by (simp_all add: message_port_or_dec peer_info_fields_def u16_text_def)
  show ?thesis
    using assms
    unfolding decode_relay_peer_info_def numbers ports andthen_simps
    by (simp add: peer_info_ok_def not_less validate_connection_count_def fail_if_def msg_get_def peer_info_fields_def
        split_join_csv_ok)
qed

interpretation peer_codec: codec encode_relay_peer_info decode_relay_peer_info peer_info_ok
  by unfold_locales (auto simp: encode_relay_peer_info_def peer_info_ok_def validate_connection_count_def fail_if_def
      decode_peer_fields [unfolded peer_info_ok_def] split: if_splits)

end
