(* ===== verification/Relay_Route.thy ===== *)
theory Relay_Route
  imports Relay_Protocol
begin

text \<open>
  \<open>src/relay/relay_route_state.cpp\<close> and \<open>wait_route_decision\<close> of
  \<open>src/relay/relay_server.cpp\<close>: how the relay merges the route choices of the two peers of a
  room and decides between the direct path and the relayed one.
\<close>

datatype route_choice = Waiting | Standby | DirectOk | RelayReady | Invalid

datatype decision_kind = Pending | Direct | Relay | InvalidRoute

record route_decision =
  kind :: decision_kind
  relay_reason :: string

definition relay_route_has_presence :: "route_choice \<Rightarrow> bool" where
  "relay_route_has_presence choice \<longleftrightarrow> choice \<noteq> Waiting \<and> choice \<noteq> Invalid"

definition relay_route_choice_final :: "route_choice \<Rightarrow> bool" where
  "relay_route_choice_final choice \<longleftrightarrow> choice = DirectOk \<or> choice = RelayReady \<or> choice = Invalid"

definition relay_route_choice_from :: "message \<Rightarrow> route_choice" where
  "relay_route_choice_from m =
     (if mtype m = ''relay_standby'' then Standby
      else if mtype m = ''direct_ok'' then DirectOk
      else if mtype m = ''relay_ready'' then RelayReady
      else Invalid)"

definition merge_relay_route_choice :: "route_choice \<Rightarrow> route_choice \<Rightarrow> route_choice" where
  "merge_relay_route_choice state next =
     (if state = Invalid \<or> relay_route_choice_final state then state
      else if next = Invalid \<or> relay_route_choice_final next \<or> state = Waiting then next
      else state)"

definition relay_route_decision_for :: "route_choice \<Rightarrow> route_choice \<Rightarrow> bool \<Rightarrow> route_decision" where
  "relay_route_decision_for first second deadline_expired =
     (let first_relay = (first = RelayReady); second_relay = (second = RelayReady) in
      if first = Invalid \<or> second = Invalid then \<lparr>kind = InvalidRoute, relay_reason = []\<rparr>
      else if first = DirectOk \<and> second = DirectOk then \<lparr>kind = Direct, relay_reason = []\<rparr>
      else if first_relay \<and> relay_route_has_presence second \<or> second_relay \<and> relay_route_has_presence first then
        (if first_relay \<and> second_relay then \<lparr>kind = Relay, relay_reason = ''relay''\<rparr>
         else if first = DirectOk \<or> second = DirectOk then \<lparr>kind = Relay, relay_reason = ''mismatch''\<rparr>
         else \<lparr>kind = Relay, relay_reason = ''standby''\<rparr>)
      else if deadline_expired \<and> relay_route_has_presence first \<and> relay_route_has_presence second
        then \<lparr>kind = Relay, relay_reason = ''timeout''\<rparr>
      else \<lparr>kind = Pending, relay_reason = []\<rparr>)"

section \<open>The polling loop\<close>

text \<open>What one poll of a peer's socket gives.\<close>

datatype route_choice_read = ReadNone | ReadMessage message | ReadClosed

text \<open>
  What the operating system and the protocol give to one call: whether the socket is still
  valid, the result of \<open>net_poll\<close>, and what \<open>recv_message_timeout\<close> would then return (nothing
  when the peer is gone or too slow, a message) or throw (a frame that is too large or does not
  decode).
\<close>

record route_poll =
  rp_valid :: bool
  rp_poll :: int
  rp_received :: "message option result"

definition recv_route_choice_if_ready :: "route_poll \<Rightarrow> route_choice_read result" where
  "recv_route_choice_if_ready p =
     (if \<not> rp_valid p then Inr ReadClosed
      else if rp_poll p = 0 then Inr ReadNone
      else if rp_poll p < 0 then Inr ReadClosed
      else andthen (rp_received p) (\<lambda>received.
        case received of None \<Rightarrow> Inr ReadClosed | Some m \<Rightarrow> Inr (ReadMessage m)))"

definition merge_read :: "route_choice \<Rightarrow> route_choice_read \<Rightarrow> route_choice" where
  "merge_read choice r =
     (case r of
        ReadMessage m \<Rightarrow> merge_relay_route_choice choice (relay_route_choice_from m)
      | ReadClosed \<Rightarrow> merge_relay_route_choice choice Invalid
      | ReadNone \<Rightarrow> choice)"

text \<open>
  One list element per turn of the loop before the deadline: whether the server is being
  stopped, and what the two sockets give. The list ends when the deadline is reached. The
  exception of a read ends the loop; the second socket is not read after it.
\<close>

type_synonym route_turn = "bool \<times> route_poll \<times> route_poll"

fun wait_route_decision_loop ::
    "route_choice \<Rightarrow> route_choice \<Rightarrow> route_turn list \<Rightarrow> route_decision result" where
  "wait_route_decision_loop c1 c2 [] = Inr (relay_route_decision_for c1 c2 True)"
| "wait_route_decision_loop c1 c2 ((cancel, p1, p2) # turns) =
     (if cancel then Inr \<lparr>kind = InvalidRoute, relay_reason = []\<rparr>
      else case recv_route_choice_if_ready p1 of
        Inl e \<Rightarrow> Inl e
      | Inr r1 \<Rightarrow>
          (case recv_route_choice_if_ready p2 of
             Inl e \<Rightarrow> Inl e
           | Inr r2 \<Rightarrow>
               (let c1' = merge_read c1 r1; c2' = merge_read c2 r2;
                    decision = relay_route_decision_for c1' c2' False
                in if kind decision \<noteq> Pending then Inr decision else wait_route_decision_loop c1' c2' turns)))"

definition wait_route_decision :: "route_turn list \<Rightarrow> route_decision result" where
  "wait_route_decision turns = wait_route_decision_loop Waiting Waiting turns"

lemmas route_defs = relay_route_has_presence_def relay_route_choice_final_def merge_relay_route_choice_def
  relay_route_decision_for_def Let_def

lemma merge_final_stays: "relay_route_choice_final c \<Longrightarrow> merge_relay_route_choice c n = c"
  by (simp add: route_defs)

lemma merge_invalid: "c = Waiting \<or> c = Standby \<Longrightarrow> merge_relay_route_choice c Invalid = Invalid"
  by (auto simp: route_defs)

text \<open>Progress of a peer's choice: nothing leaves a final choice, nothing returns to waiting.\<close>

fun choice_rank :: "route_choice \<Rightarrow> nat" where
  "choice_rank Waiting = 0"
| "choice_rank Standby = 1"
| "choice_rank DirectOk = 2"
| "choice_rank RelayReady = 2"
| "choice_rank Invalid = 2"

lemma merge_rank: "choice_rank c \<le> choice_rank (merge_relay_route_choice c n)"
  by (cases c; cases n) (simp_all add: route_defs)

lemma decision_symmetric:
  "relay_route_decision_for a b d = relay_route_decision_for b a d"
  by (cases a; cases b) (simp_all add: route_defs)

lemma decision_direct_iff:
  "kind (relay_route_decision_for a b d) = Direct \<longleftrightarrow> a = DirectOk \<and> b = DirectOk"
  by (cases a; cases b) (simp_all add: route_defs)

lemma decision_relay_presence:
  "kind (relay_route_decision_for a b d) = Relay \<Longrightarrow> relay_route_has_presence a \<and> relay_route_has_presence b"
  by (cases a; cases b) (simp_all add: route_defs split: if_splits)

text \<open>The messages that the polls of one side give, by their type.\<close>

fun announced :: "route_poll list \<Rightarrow> string list" where
  "announced [] = []"
| "announced (p # ps) =
     (case recv_route_choice_if_ready p of
        Inr (ReadMessage m) \<Rightarrow> mtype m # announced ps
      | _ \<Rightarrow> announced ps)"

lemma merge_read_DirectOk:
  "merge_read c r = DirectOk \<Longrightarrow> c \<noteq> DirectOk \<Longrightarrow> recv_route_choice_if_ready p = Inr r \<Longrightarrow>
     ''direct_ok'' \<in> set (announced (p # ps))"
  by (cases c; cases r)
    (auto simp: merge_read_def relay_route_choice_from_def route_defs split: if_splits)

lemma announced_Cons: "x \<in> set (announced ps) \<Longrightarrow> x \<in> set (announced (p # ps))"
  by (auto split: sum.split route_choice_read.split)

lemma loop_direct:
  "wait_route_decision_loop c1 c2 turns = Inr d \<Longrightarrow> kind d = Direct \<Longrightarrow>
   (c1 = DirectOk \<or> ''direct_ok'' \<in> set (announced (map (fst \<circ> snd) turns))) \<and>
   (c2 = DirectOk \<or> ''direct_ok'' \<in> set (announced (map (snd \<circ> snd) turns)))"
proof (induction c1 c2 turns rule: wait_route_decision_loop.induct)
  case (1 c1 c2)
  then show ?case by (auto simp: decision_direct_iff)
next
  case (2 c1 c2 cancel p1 p2 turns)
  have c: "\<not> cancel" using 2(2,3) by auto
  obtain r1 where r1: "recv_route_choice_if_ready p1 = Inr r1" using 2(2) c by (auto split: sum.splits)
  obtain r2 where r2: "recv_route_choice_if_ready p2 = Inr r2" using 2(2) c r1 by (auto split: sum.splits)
  let ?a = "merge_read c1 r1" and ?b = "merge_read c2 r2"
  have "(?a = DirectOk \<or> ''direct_ok'' \<in> set (announced (map (fst \<circ> snd) turns))) \<and>
        (?b = DirectOk \<or> ''direct_ok'' \<in> set (announced (map (snd \<circ> snd) turns)))"
  proof (cases "kind (relay_route_decision_for ?a ?b False) = Pending")
    case True
    then show ?thesis using 2 c r1 r2 by (simp add: Let_def comp_def)
  next
    case False
    then show ?thesis
      using 2(2,3) c r1 r2 decision_direct_iff [of ?a ?b False] by (simp add: Let_def)
  qed
  then show ?case
    using merge_read_DirectOk [OF _ _ r1, of c1 "map (fst \<circ> snd) turns"]
      merge_read_DirectOk [OF _ _ r2, of c2 "map (snd \<circ> snd) turns"]
      announced_Cons [of "''direct_ok''" "map (fst \<circ> snd) turns" p1]
      announced_Cons [of "''direct_ok''" "map (snd \<circ> snd) turns" p2]
    unfolding list.map comp_apply fst_conv snd_conv by blast
qed

text \<open>
  C5: the relay steps aside for a direct connection only if both peers have reported that
  their direct connection works; otherwise the transfer stays on the relay or is ended.
\<close>

theorem direct_needs_both_peers:
  assumes "wait_route_decision turns = Inr decision" and "kind decision = Direct"
  shows "''direct_ok'' \<in> set (announced (map (fst \<circ> snd) turns)) \<and>
         ''direct_ok'' \<in> set (announced (map (snd \<circ> snd) turns))"
  using loop_direct [OF assms(1) [unfolded wait_route_decision_def] assms(2)] by simp

definition poll_message :: "string \<Rightarrow> route_poll" where
  "poll_message t = \<lparr>rp_valid = True, rp_poll = 1, rp_received = Inr (Some \<lparr>mtype = t, mfields = []\<rparr>)\<rparr>"

definition poll_nothing :: route_poll where
  "poll_nothing = \<lparr>rp_valid = True, rp_poll = 0, rp_received = Inr None\<rparr>"

definition sample_turns :: "route_turn list" where
  "sample_turns =
     [(False, poll_message ''relay_standby'', poll_nothing),
      (False, poll_message ''direct_ok'', poll_message ''direct_ok'')]"

lemma sample_turns_direct: "wait_route_decision sample_turns = Inr \<lparr>kind = Direct, relay_reason = []\<rparr>"
  by (simp add: wait_route_decision_def sample_turns_def poll_message_def poll_nothing_def
      recv_route_choice_if_ready_def merge_read_def relay_route_choice_from_def route_defs)

theorem direct_needs_both_peers_witness:
  "wait_route_decision sample_turns = Inr \<lparr>kind = Direct, relay_reason = []\<rparr> \<and>
   ''direct_ok'' \<in> set (announced (map (fst \<circ> snd) sample_turns))"
  using direct_needs_both_peers [OF sample_turns_direct] sample_turns_direct by simp

text \<open>
  a peer that has committed (direct or relay) and then disconnects does not turn the
  decision: whatever the polls of that side give afterwards, its choice stays.
\<close>

theorem committed_choice_stays:
  assumes "relay_route_choice_final c"
  shows "foldl merge_read c rs = c"
  using assms
proof (induction rs)
  case (Cons r rs)
  then show ?case by (simp add: merge_read_def merge_final_stays split: route_choice_read.split)
qed simp

theorem committed_choice_stays_witness:
  "foldl merge_read RelayReady [ReadNone, ReadClosed] = RelayReady"
  by (rule committed_choice_stays) (simp add: relay_route_choice_final_def)

end
