(* ===== verification/Relay_Room.thy ===== *)
theory Relay_Room
  imports Relay_Protocol "HOL-Library.Multiset"
begin

text \<open>
  \<open>src/relay/relay_room_state.hpp\<close>, \<open>src/relay/relay_room_state.cpp\<close>: the relay's table of
  waiting peers and active rooms. A socket is a number that stands for the connection; a
  \<open>std::move\<close> of a peer moves its socket, so the model accounts for every socket once.
\<close>

type_synonym sock = nat

record waiting_peer =
  wp_role :: role
  wp_socket :: sock
  wp_public_endpoint :: endpoint
  wp_listen_endpoint :: endpoint
  wp_file_count :: u64
  wp_total_size :: u64
  wp_conn_count :: u64
  wp_no_direct :: bool
  wp_local_candidates :: "string list"
  wp_registered_at :: int \<comment> \<open>milliseconds of the steady clock\<close>

datatype pairing_kind = PairWaiting | Matched | RoomFull | CapacityFull

record room_pairing =
  pr_kind :: pairing_kind
  pr_self :: "waiting_peer option"
  pr_peer :: "waiting_peer option"
  pr_claimed_active_room :: bool

record relay_config =
  rc_password :: string
  rc_room_ttl :: int \<comment> \<open>milliseconds\<close>
  rc_cleanup_interval :: int \<comment> \<open>milliseconds\<close>
  rc_max_client_workers :: nat
  rc_max_waiting_peers :: nat

record room_state =
  rs_waiting :: "(string, waiting_peer) omap"
  rs_active :: "string set"

definition relay_room_base :: "string \<Rightarrow> string" where
  "relay_room_base match_key = fst (cut (CHR ''#'') match_key)"

definition pair_or_wait ::
    "relay_config \<Rightarrow> string \<Rightarrow> string \<Rightarrow> waiting_peer \<Rightarrow> bool \<Rightarrow> room_state \<Rightarrow> room_pairing \<times> room_state" where
  "pair_or_wait config match_key active_room self auxiliary s =
     (if \<not> auxiliary \<and> active_room \<in> rs_active s then
        (\<lparr>pr_kind = RoomFull, pr_self = Some self, pr_peer = None, pr_claimed_active_room = False\<rparr>, s)
      else case map_of (rs_waiting s) match_key of
        None \<Rightarrow>
          (if rc_max_waiting_peers config \<le> length (rs_waiting s) then
             (\<lparr>pr_kind = CapacityFull, pr_self = Some self, pr_peer = None, pr_claimed_active_room = False\<rparr>, s)
           else
             (\<lparr>pr_kind = PairWaiting, pr_self = None, pr_peer = None, pr_claimed_active_room = False\<rparr>,
              s\<lparr>rs_waiting := omap_put match_key self (rs_waiting s)\<rparr>))
      | Some other \<Rightarrow>
          (if wp_role other = wp_role self then
             (\<lparr>pr_kind = RoomFull, pr_self = Some self, pr_peer = None, pr_claimed_active_room = False\<rparr>, s)
           else
             (\<lparr>pr_kind = Matched, pr_self = Some self, pr_peer = Some other,
               pr_claimed_active_room = \<not> auxiliary\<rparr>,
              s\<lparr>rs_waiting := omap_del match_key (rs_waiting s),
                rs_active := (if auxiliary then rs_active s else insert active_room (rs_active s))\<rparr>)))"

definition release_active_room :: "string \<Rightarrow> room_state \<Rightarrow> room_state" where
  "release_active_room room s = s\<lparr>rs_active := rs_active s - {room}\<rparr>"

text \<open>\<open>close_waiting\<close> returns the sockets it closes; \<open>valid\<close> is \<open>socket.valid()\<close>.\<close>

definition close_waiting :: "(sock \<Rightarrow> bool) \<Rightarrow> room_state \<Rightarrow> sock list \<times> room_state" where
  "close_waiting valid s =
     (filter valid (map (\<lambda>p. wp_socket (snd p)) (rs_waiting s)), s\<lparr>rs_waiting := []\<rparr>)"

text \<open>\<open>dead\<close> is \<open>socket_is_dead\<close>, a test of the operating system's socket state.\<close>

definition stale :: "relay_config \<Rightarrow> int \<Rightarrow> (sock \<Rightarrow> bool) \<Rightarrow> waiting_peer \<Rightarrow> bool" where
  "stale config now dead p \<longleftrightarrow>
     (0 < rc_room_ttl config \<and> rc_room_ttl config < now - wp_registered_at p) \<or> dead (wp_socket p)"

definition purge_stale_waiting ::
    "relay_config \<Rightarrow> int \<Rightarrow> (sock \<Rightarrow> bool) \<Rightarrow> (sock \<Rightarrow> bool) \<Rightarrow> room_state \<Rightarrow> sock list \<times> room_state" where
  "purge_stale_waiting config now dead valid s =
     (filter valid (map (\<lambda>p. wp_socket (snd p)) (filter (\<lambda>p. stale config now dead (snd p)) (rs_waiting s))),
      s\<lparr>rs_waiting := filter (\<lambda>p. \<not> stale config now dead (snd p)) (rs_waiting s)\<rparr>)"

section \<open>Invariant of the table\<close>

definition room_inv :: "relay_config \<Rightarrow> room_state \<Rightarrow> bool" where
  "room_inv config s \<longleftrightarrow> omap_ok (rs_waiting s) \<and> length (rs_waiting s) \<le> rc_max_waiting_peers config"

lemma pair_or_wait_inv:
  assumes "room_inv config s"
  shows "room_inv config (snd (pair_or_wait config key room self aux s))"
  using assms
  by (auto simp: room_inv_def pair_or_wait_def length_put omap_has_def length_del split: option.split)

lemma purge_inv: "room_inv config s \<Longrightarrow> room_inv config (snd (purge_stale_waiting config now dead valid s))"
  by (auto simp: room_inv_def purge_stale_waiting_def omap_ok_filter intro: order_trans [OF length_filter_le])

lemma release_inv: "room_inv config s \<Longrightarrow> room_inv config (release_active_room room s)"
  by (simp add: room_inv_def release_active_room_def)

lemma close_inv: "room_inv config s \<Longrightarrow> room_inv config (snd (close_waiting valid s))"
  by (simp add: room_inv_def close_waiting_def)

lemmas room_inv_intros [kiko_inv] = pair_or_wait_inv purge_inv release_inv close_inv

section \<open>Every socket is in one place\<close>

definition waiting_sockets :: "room_state \<Rightarrow> sock multiset" where
  "waiting_sockets s = mset (map (\<lambda>p. wp_socket (snd p)) (rs_waiting s))"

definition opt_socket :: "waiting_peer option \<Rightarrow> sock multiset" where
  "opt_socket p = (case p of None \<Rightarrow> {#} | Some q \<Rightarrow> {# wp_socket q #})"

lemma mset_put_absent:
  "map_of m k = None \<Longrightarrow> mset (map (\<lambda>p. f (snd p)) (omap_put k v m)) = add_mset (f v) (mset (map (\<lambda>p. f (snd p)) m))"
  by (induction m) (auto split: if_splits)

lemma mset_del_present:
  "omap_ok m \<Longrightarrow> map_of m k = Some v \<Longrightarrow>
     mset (map (\<lambda>p. f (snd p)) m) = add_mset (f v) (mset (map (\<lambda>p. f (snd p)) (omap_del k m)))"
proof (induction m)
  case (Cons p m)
  show ?case
  proof (cases "fst p = k")
    case True
    then have "map_of m k = None"
      using Cons.prems(1) by (auto simp: omap_ok_Cons map_of_eq_None_iff)
    then have "filter (\<lambda>p. fst p \<noteq> k) m = m"
      by (auto simp: filter_id_conv map_of_eq_None_iff)
    then show ?thesis using True Cons.prems(2) by (cases p) (simp add: omap_del_def)
  next
    case False
    then show ?thesis using Cons by (cases p) (simp add: omap_del_def omap_ok_Cons)
  qed
qed simp

text \<open>
  pairing neither loses nor duplicates a connection: the sockets that were waiting and
  the new one are, afterwards, the sockets still waiting and those handed to the caller.
\<close>

theorem pairing_conserves_sockets:
  assumes "room_inv config s" and "pair_or_wait config key room self aux s = (r, s')"
  shows "add_mset (wp_socket self) (waiting_sockets s) =
     waiting_sockets s' + opt_socket (pr_self r) + opt_socket (pr_peer r)"
proof (cases "map_of (rs_waiting s) key")
  case None
  then show ?thesis
    using assms mset_put_absent [OF None, of wp_socket self]
    by (auto simp: pair_or_wait_def waiting_sockets_def opt_socket_def split: if_splits)
next
  case (Some other)
  have "omap_ok (rs_waiting s)" using assms(1) by (simp add: room_inv_def)
  then show ?thesis
    using assms Some mset_del_present [of "rs_waiting s" key other wp_socket]
    by (auto simp: pair_or_wait_def waiting_sockets_def opt_socket_def split: if_splits)
qed

definition sample_endpoint :: endpoint where
  "sample_endpoint = \<lparr>host = ''10.0.0.1'', port = 9000\<rparr>"

definition sample_peer :: "role \<Rightarrow> sock \<Rightarrow> waiting_peer" where
  "sample_peer r n = \<lparr>wp_role = r, wp_socket = n, wp_public_endpoint = sample_endpoint,
     wp_listen_endpoint = sample_endpoint, wp_file_count = 1, wp_total_size = 10, wp_conn_count = 1,
     wp_no_direct = False, wp_local_candidates = [], wp_registered_at = 0\<rparr>"

definition sample_config :: relay_config where
  "sample_config = \<lparr>rc_password = [], rc_room_ttl = 1000, rc_cleanup_interval = 600000, rc_max_client_workers = 4, rc_max_waiting_peers = 2\<rparr>"

definition sample_rooms :: room_state where
  "sample_rooms = \<lparr>rs_waiting = [(''k#0'', sample_peer Sender 7)], rs_active = {}\<rparr>"

theorem pairing_conserves_sockets_witness:
  "pr_kind (fst (pair_or_wait sample_config ''k#0'' ''k'' (sample_peer Receiver 8) False sample_rooms)) = Matched \<and>
   add_mset 8 (waiting_sockets sample_rooms) = {#8, 7#}"
proof -
  let ?p = "pair_or_wait sample_config ''k#0'' ''k'' (sample_peer Receiver 8) False sample_rooms"
  have inv: "room_inv sample_config sample_rooms"
    by (simp add: room_inv_def sample_config_def sample_rooms_def omap_ok_def)
  show ?thesis
    using pairing_conserves_sockets [OF inv, of "''k#0''" "''k''" "sample_peer Receiver 8" False "fst ?p" "snd ?p"]
    by (simp add: pair_or_wait_def sample_rooms_def sample_peer_def waiting_sockets_def opt_socket_def omap_del_def)
qed

section \<open>Rooms are held by one pair at a time\<close>

text \<open>
  The table together with the rooms that running relay sessions have claimed (their
  \<open>ActiveRoomCleanup\<close> guards): a session that claims a room enters the list, and its guard
  releases the room once, when the session ends.
\<close>

record relay_world =
  rw_rooms :: room_state
  rw_claims :: "string list"

inductive relay_step :: "relay_config \<Rightarrow> relay_world \<Rightarrow> relay_world \<Rightarrow> bool" for config where
  register: "pair_or_wait config key room self aux (rw_rooms w) = (r, s') \<Longrightarrow>
     relay_step config w (w\<lparr>rw_rooms := s',
       rw_claims := (if pr_claimed_active_room r then room # rw_claims w else rw_claims w)\<rparr>)"
| session_end: "room \<in> set (rw_claims w) \<Longrightarrow>
     relay_step config w (w\<lparr>rw_rooms := release_active_room room (rw_rooms w), rw_claims := remove1 room (rw_claims w)\<rparr>)"
| purge: "relay_step config w (w\<lparr>rw_rooms := snd (purge_stale_waiting config now dead valid (rw_rooms w))\<rparr>)"
| stop: "relay_step config w (w\<lparr>rw_rooms := snd (close_waiting valid (rw_rooms w))\<rparr>)"

inductive_cases relay_stepE: "relay_step config w w'"

inductive relay_reachable :: "relay_config \<Rightarrow> relay_world \<Rightarrow> bool" for config where
  start: "relay_reachable config \<lparr>rw_rooms = \<lparr>rs_waiting = [], rs_active = {}\<rparr>, rw_claims = []\<rparr>"
| step: "relay_reachable config w \<Longrightarrow> relay_step config w w' \<Longrightarrow> relay_reachable config w'"

definition world_inv :: "relay_config \<Rightarrow> relay_world \<Rightarrow> bool" where
  "world_inv config w \<longleftrightarrow> room_inv config (rw_rooms w) \<and> distinct (rw_claims w) \<and>
     set (rw_claims w) = rs_active (rw_rooms w)"

lemma claimed_means_fresh:
  "pair_or_wait config key room self aux s = (r, s') \<Longrightarrow>
     (pr_claimed_active_room r \<longrightarrow> room \<notin> rs_active s \<and> rs_active s' = insert room (rs_active s)) \<and>
     (\<not> pr_claimed_active_room r \<longrightarrow> rs_active s' = rs_active s)"
  by (auto simp: pair_or_wait_def split: option.splits if_splits)

lemma relay_step_inv: "relay_step config w w' \<Longrightarrow> world_inv config w \<Longrightarrow> world_inv config w'"
proof (induction rule: relay_step.induct)
  case (register key room self aux w r s')
  then have "room_inv config s'"
    using pair_or_wait_inv [of config "rw_rooms w" key room self aux] by (simp add: world_inv_def)
  then show ?case
    using register claimed_means_fresh [OF register(1)] by (auto simp: world_inv_def)
next
  case (session_end room w)
  then show ?case
    using release_inv [of config "rw_rooms w" room]
    by (auto simp: world_inv_def release_active_room_def)
next
  case (purge w now dead valid)
  then show ?case
    using purge_inv [of config "rw_rooms w" now dead valid]
    by (simp add: world_inv_def) (simp add: purge_stale_waiting_def)
next
  case (stop w valid)
  then show ?case
    using close_inv [of config "rw_rooms w" valid]
    by (simp add: world_inv_def) (simp add: close_waiting_def)
qed

lemma relay_reachable_inv: "relay_reachable config w \<Longrightarrow> world_inv config w"
proof (induction rule: relay_reachable.induct)
  case start
  show ?case by (simp add: world_inv_def room_inv_def)
next
  case (step w w')
  from step.hyps(2) step.IH show ?case by (rule relay_step_inv)
qed

text \<open>
  C3: in every reachable state of the relay, no room is claimed by two sessions at once, the
  active rooms are exactly the claimed ones, and the waiting table stays within its limit.
\<close>

theorem one_session_per_room:
  assumes "relay_reachable config w"
  shows "distinct (rw_claims w) \<and> set (rw_claims w) = rs_active (rw_rooms w) \<and>
     length (rs_waiting (rw_rooms w)) \<le> rc_max_waiting_peers config"
  using relay_reachable_inv [OF assms] by (simp add: world_inv_def room_inv_def)

theorem one_session_per_room_witness:
  "\<exists>w. relay_reachable sample_config w \<and> length (rs_waiting (rw_rooms w)) = 1 \<and> distinct (rw_claims w)"
proof -
  let ?p = "pair_or_wait sample_config ''k#0'' ''k'' (sample_peer Sender 7) False \<lparr>rs_waiting = [], rs_active = {}\<rparr>"
  let ?w = "\<lparr>rw_rooms = snd ?p, rw_claims = []\<rparr>"
  have "relay_step sample_config \<lparr>rw_rooms = \<lparr>rs_waiting = [], rs_active = {}\<rparr>, rw_claims = []\<rparr> ?w"
    using relay_step.register [of sample_config "''k#0''" "''k''" "sample_peer Sender 7" False
        "\<lparr>rw_rooms = \<lparr>rs_waiting = [], rs_active = {}\<rparr>, rw_claims = []\<rparr>" "fst ?p" "snd ?p"]
    by (simp add: pair_or_wait_def sample_config_def)
  then have "relay_reachable sample_config ?w"
    using relay_reachable.start relay_reachable.step by blast
  moreover from one_session_per_room [OF this] have "distinct (rw_claims ?w)" by blast
  ultimately show ?thesis
    by (intro exI [of _ ?w]) (simp add: pair_or_wait_def sample_config_def)
qed

end
