(* ===== verification/Relay_Server.thy ===== *)
theory Relay_Server
  imports Relay_Room Relay_Route
begin

text \<open>
  \<open>src/relay/relay_server.cpp\<close>: one client of the relay, from its first message to the end of
  its session, the two byte pipes of a relayed session, and the bound on the workers. What
  the operating system gives (messages read, sends that fail, polls) is an argument.
\<close>

section \<open>Sending and receiving on native sockets\<close>

text \<open>The return value of one \<open>send\<close>, and the poll that follows a \<open>would block\<close>.\<close>

datatype send_event = Rc nat | SendInterrupted | SendWouldBlock bool | SendError

text \<open>\<open>None\<close>: the events are used up and the call has not returned yet.\<close>

fun native_send_all :: "send_event list \<Rightarrow> bytes \<Rightarrow> bytes \<Rightarrow> bool option \<times> bytes" where
  "native_send_all events [] sent = (Some True, sent)"
| "native_send_all [] (x # data) sent = (None, sent)"
| "native_send_all (ev # events) (x # data) sent =
     (case ev of
        Rc n \<Rightarrow> (if 0 < n then native_send_all events (drop n (x # data)) (sent @ take n (x # data)) else (Some False, sent))
      | SendInterrupted \<Rightarrow> native_send_all events (x # data) sent
      | SendWouldBlock writable \<Rightarrow> (if writable then native_send_all events (x # data) sent else (Some False, sent))
      | SendError \<Rightarrow> (Some False, sent))"

datatype recv_event = Got bytes | RecvEof | RecvInterrupted | RecvWouldBlock int | RecvError

fun native_recv_some :: "recv_event list \<Rightarrow> bytes option option" where
  "native_recv_some [] = None"
| "native_recv_some (ev # events) =
     (case ev of
        Got data \<Rightarrow> Some (Some data)
      | RecvEof \<Rightarrow> Some None
      | RecvInterrupted \<Rightarrow> native_recv_some events
      | RecvWouldBlock poll \<Rightarrow> (if poll < 0 then Some None else native_recv_some events)
      | RecvError \<Rightarrow> Some None)"

text \<open>
  One list element per turn of the loop: \<open>done\<close>, the events of the read and of the write.
  The result is what the pipe has read and what it has written.
\<close>

fun pipe_bytes_native :: "(bool \<times> recv_event list \<times> send_event list) list \<Rightarrow> bytes \<Rightarrow> bytes \<Rightarrow> bytes \<times> bytes" where
  "pipe_bytes_native [] taken given = (taken, given)"
| "pipe_bytes_native ((stopped, reads, writes) # turns) taken given =
     (if stopped then (taken, given)
      else case native_recv_some reads of
        Some (Some chunk) \<Rightarrow>
          (case native_send_all writes chunk given of
             (Some True, given') \<Rightarrow> pipe_bytes_native turns (taken @ chunk) given'
           | (_, given') \<Rightarrow> (taken @ chunk, given'))
      | _ \<Rightarrow> (taken, given))"

lemma native_send_all_prefix:
  "native_send_all events data sent = (r, out) \<Longrightarrow>
     \<exists>n \<le> length data. out = sent @ take n data \<and> (r = Some True \<longrightarrow> n = length data)"
proof (induction events data sent rule: native_send_all.induct)
  case (3 ev events x data sent)
  show ?case
  proof (cases ev)
    case (Rc k)
    show ?thesis
    proof (cases "0 < k")
      case True
      obtain n where n: "n \<le> length (drop k (x # data))"
        "out = (sent @ take k (x # data)) @ take n (drop k (x # data))"
        "r = Some True \<longrightarrow> n = length (drop k (x # data))"
        using 3 Rc True by auto
      have "take k (x # data) @ take n (drop k (x # data)) = take (min (k + n) (length (x # data))) (x # data)"
        by (simp add: take_add [symmetric] min_def)
      then show ?thesis
        using n by (intro exI [of _ "min (k + n) (length (x # data))"]) (auto simp: min_def)
    qed (use 3 Rc in auto)
  qed (use 3 in \<open>auto split: if_splits\<close>)
qed auto

lemma pipe_prefix:
  assumes "pipe_bytes_native turns (p @ q) p = (taken, given)" "q = []"
  shows "\<exists>rest. taken = given @ rest"
  using assms
proof (induction turns arbitrary: p)
  case (Cons t turns)
  obtain st rd wr where t: "t = (st, rd, wr)" by (cases t)
  show ?case
  proof (cases "st \<or> (\<forall>chunk. native_recv_some rd \<noteq> Some (Some chunk))")
    case True
    then show ?thesis using Cons.prems t by (auto split: option.splits)
  next
    case False
    then obtain chunk where c: "\<not> st" "native_recv_some rd = Some (Some chunk)" by blast
    obtain r out where s: "native_send_all wr chunk p = (r, out)" by fastforce
    obtain n where n: "out = p @ take n chunk" "r = Some True \<longrightarrow> n = length chunk"
      using native_send_all_prefix [OF s] by blast
    show ?thesis
    proof (cases "r = Some True")
      case True
      then show ?thesis
        using Cons.IH [of out] Cons.prems c s t n by simp
    next
      case False
      then have "taken = p @ chunk" "given = out"
        using Cons.prems c s t by (auto split: option.splits bool.splits)
      then show ?thesis using n by (intro exI [of _ "drop n chunk"]) simp
    qed
  qed
qed simp

text \<open>
  a relayed session never invents, drops in the middle or reorders bytes: at every moment
  what one side has been given is a prefix of what the other side has sent.
\<close>

theorem relay_pipe_is_prefix:
  "\<exists>rest. fst (pipe_bytes_native turns [] []) = snd (pipe_bytes_native turns [] []) @ rest"
  using pipe_prefix [of turns "[]" "[]"] by (metis append_Nil prod.collapse)
section \<open>One client\<close>

text \<open>
  What a client thread changes: the shared table, the messages it has sent and the relayed
  pairs it has run. \<open>io_faults\<close> gives the outcome of its next sends and starts of a pipe
  (the error that is thrown, or nothing); when it is used up, they succeed.
\<close>

record client_io =
  io_rooms :: room_state
  io_sent :: "(sock \<times> message) list"
  io_piped :: "(sock \<times> sock) list"
  io_faults :: "string option list"

type_synonym 'a client = "client_io \<Rightarrow> 'a result \<times> client_io"

definition ret :: "'a \<Rightarrow> 'a client" where
  "ret x io = (Inr x, io)"

definition bindc :: "'a client \<Rightarrow> ('a \<Rightarrow> 'b client) \<Rightarrow> 'b client" where
  "bindc c f io = (case c io of (Inl e, io1) \<Rightarrow> (Inl e, io1) | (Inr x, io1) \<Rightarrow> f x io1)"

definition lift :: "'a result \<Rightarrow> 'a client" where
  "lift r io = (r, io)"

definition send_to :: "sock \<Rightarrow> message \<Rightarrow> unit client" where
  "send_to k m io =
     (case io_faults io of
        Some e # faults \<Rightarrow> (Inl e, io\<lparr>io_faults := faults\<rparr>)
      | None # faults \<Rightarrow> (Inr (), io\<lparr>io_faults := faults, io_sent := io_sent io @ [(k, m)]\<rparr>)
      | [] \<Rightarrow> (Inr (), io\<lparr>io_sent := io_sent io @ [(k, m)]\<rparr>))"

text \<open>
  \<open>relay_stream_sync\<close>: the start of its first thread can throw, which is the next outcome of
  \<open>io_faults\<close>. Its pipes are \<open>pipe_bytes_native\<close>; they do not throw.
\<close>

definition relay_stream :: "sock \<Rightarrow> sock \<Rightarrow> unit client" where
  "relay_stream a b io =
     (case io_faults io of
        Some e # faults \<Rightarrow> (Inl e, io\<lparr>io_faults := faults\<rparr>)
      | None # faults \<Rightarrow> (Inr (), io\<lparr>io_faults := faults, io_piped := io_piped io @ [(a, b)]\<rparr>)
      | [] \<Rightarrow> (Inr (), io\<lparr>io_piped := io_piped io @ [(a, b)]\<rparr>))"

text \<open>\<open>send_message_best_effort\<close>; \<open>valid\<close> is \<open>socket.valid()\<close>.\<close>

definition send_message_best_effort :: "(sock \<Rightarrow> bool) \<Rightarrow> sock \<Rightarrow> message \<Rightarrow> unit client" where
  "send_message_best_effort valid k m io =
     (if valid k then (Inr (), snd (send_to k m io)) else (Inr (), io))"

definition plain_message :: "string \<Rightarrow> (string, string) omap \<Rightarrow> message" where
  "plain_message t fs = \<lparr>mtype = t, mfields = fs\<rparr>"

definition reject_client :: "sock \<Rightarrow> string \<Rightarrow> unit client" where
  "reject_client k code = send_to k (plain_message ''error'' [(''code'', code)])"

definition relay_password_ok :: "relay_config \<Rightarrow> message \<Rightarrow> bool" where
  "relay_password_ok config hello \<longleftrightarrow> rc_password config = [] \<or> msg_get hello ''relay_pass'' [] = rc_password config"

text \<open>The outside world of one client.\<close>

record client_env =
  ce_socket :: sock
  ce_peer_endpoint :: "endpoint result"
  ce_first :: "message option result" \<comment> \<open>the first \<open>recv_message_timeout\<close>\<close>
  ce_second :: "message option result" \<comment> \<open>the one after a ping\<close>
  ce_cancel_first :: bool
  ce_cancel_second :: bool
  ce_version :: string
  ce_now :: int
  ce_dead :: "sock \<Rightarrow> bool"
  ce_valid :: "sock \<Rightarrow> bool"
  ce_punch_token :: string
  ce_turns :: "route_turn list"

definition peer_message_for :: "waiting_peer \<Rightarrow> waiting_peer \<Rightarrow> string \<Rightarrow> message result" where
  "peer_message_for self peer punch_token =
     encode_relay_peer_info
       \<lparr>pi_peer_public = wp_public_endpoint peer, pi_peer_listen = wp_listen_endpoint peer,
        pi_local_candidates = wp_local_candidates peer, pi_no_direct = wp_no_direct peer,
        pi_self_public = wp_public_endpoint self, pi_punch_token = punch_token, pi_route_commit_v2 = True,
        pi_file_count = wp_file_count peer, pi_total_size = wp_total_size peer, pi_conn_count = wp_conn_count peer\<rparr>"

definition send_peer_messages :: "string \<Rightarrow> waiting_peer \<Rightarrow> waiting_peer \<Rightarrow> unit client" where
  "send_peer_messages punch_token a b =
     bindc (lift (peer_message_for a b punch_token)) (\<lambda>ma.
     bindc (send_to (wp_socket a) ma) (\<lambda>_.
     bindc (lift (peer_message_for b a punch_token)) (\<lambda>mb.
     send_to (wp_socket b) mb)))"

definition handle_punch_probe :: "relay_config \<Rightarrow> client_env \<Rightarrow> message \<Rightarrow> unit client" where
  "handle_punch_probe config env probe =
     (if \<not> relay_password_ok config probe
      then send_to (ce_socket env) (plain_message ''error'' [(''code'', ''bad_password'')])
      else bindc (lift (ce_peer_endpoint env)) (\<lambda>addr.
        send_to (ce_socket env) (plain_message ''punch_observed''
          [(''public_host'', host addr), (''public_port'', u16_text (port addr))])))"

text \<open>The peer that a hello registers.\<close>

definition waiting_peer_for :: "client_env \<Rightarrow> endpoint \<Rightarrow> relay_hello \<Rightarrow> waiting_peer" where
  "waiting_peer_for env addr h =
     \<lparr>wp_role = h_role h, wp_socket = ce_socket env,
      wp_public_endpoint =
        (if host (h_punch_public h) \<noteq> [] \<and> 0 < port (h_punch_public h) then h_punch_public h
         else \<lparr>host = host addr, port = (if port (h_listen h) = 0 then port addr else port (h_listen h))\<rparr>),
      wp_listen_endpoint =
        (if host (h_listen h) = [] then (h_listen h)\<lparr>host := host addr\<rparr> else h_listen h),
      wp_file_count = h_file_count h, wp_total_size = h_total_size h, wp_conn_count = h_conn_count h,
      wp_no_direct = h_no_direct h, wp_local_candidates = h_local_candidates h, wp_registered_at = ce_now env\<rparr>"

definition match_key_of :: "relay_hello \<Rightarrow> string" where
  "match_key_of h = h_room h @ ''#'' @ u64_text (h_conn_index h)"

definition purge_rooms :: "relay_config \<Rightarrow> client_env \<Rightarrow> unit client" where
  "purge_rooms config env io =
     (Inr (), io\<lparr>io_rooms := snd (purge_stale_waiting config (ce_now env) (ce_dead env) (ce_valid env) (io_rooms io))\<rparr>)"

definition pair_rooms :: "relay_config \<Rightarrow> string \<Rightarrow> string \<Rightarrow> waiting_peer \<Rightarrow> bool \<Rightarrow> room_pairing client" where
  "pair_rooms config match_key active_room self aux io =
     (let (r, rooms) = pair_or_wait config match_key active_room self aux (io_rooms io)
      in (Inr r, io\<lparr>io_rooms := rooms\<rparr>))"

text \<open>After the peers of a room have been told of each other.\<close>

definition route_session :: "client_env \<Rightarrow> waiting_peer \<Rightarrow> waiting_peer \<Rightarrow> unit client" where
  "route_session env other self =
     bindc (lift (wait_route_decision (ce_turns env))) (\<lambda>decision.
       case kind decision of
         Direct \<Rightarrow>
           bindc (send_to (wp_socket other) (plain_message ''direct_start'' [])) (\<lambda>_.
           send_to (wp_socket self) (plain_message ''direct_start'' []))
       | Relay \<Rightarrow>
           (let start = plain_message ''relay_start'' [(''reason'', relay_reason decision)] in
            bindc (send_to (wp_socket other) start) (\<lambda>_.
            bindc (send_to (wp_socket self) start) (\<lambda>_.
            relay_stream (wp_socket other) (wp_socket self))))
       | _ \<Rightarrow>
           bindc (send_message_best_effort (ce_valid env) (wp_socket other) (plain_message ''done'' [])) (\<lambda>_.
           send_message_best_effort (ce_valid env) (wp_socket self) (plain_message ''done'' [])))"

text \<open>
  \<open>ActiveRoomCleanup\<close>: its destructor releases the room after the body has returned or
  thrown. \<open>others\<close> is what other client threads do to the table while the body runs.
\<close>

definition with_room_cleanup ::
    "(room_state \<Rightarrow> room_state) \<Rightarrow> string \<Rightarrow> unit client \<Rightarrow> unit client" where
  "with_room_cleanup others room body io =
     (case body io of
        (r, io1) \<Rightarrow>
          let rooms = others (io_rooms io1) in
          (r, io1\<lparr>io_rooms := (if room \<noteq> [] then release_active_room room rooms else rooms)\<rparr>))"

definition run_pairing ::
    "(room_state \<Rightarrow> room_state) \<Rightarrow> client_env \<Rightarrow> string \<Rightarrow> bool \<Rightarrow> sock \<Rightarrow> room_pairing \<Rightarrow> unit client" where
  "run_pairing others env active_room auxiliary k pairing =
     (case (pr_kind pairing, pr_self pairing, pr_peer pairing) of
        (PairWaiting, _, _) \<Rightarrow> ret ()
      | (RoomFull, _, _) \<Rightarrow> reject_client k ''room_full''
      | (CapacityFull, _, _) \<Rightarrow> reject_client k ''server_busy''
      | (Matched, Some self, Some other) \<Rightarrow>
          (if auxiliary then relay_stream (wp_socket other) (wp_socket self)
           else with_room_cleanup others (if pr_claimed_active_room pairing then active_room else [])
             (bindc (send_peer_messages (ce_punch_token env) other self) (\<lambda>_. route_session env other self)))
      | _ \<Rightarrow> ret ())"

definition register_client ::
    "relay_config \<Rightarrow> (room_state \<Rightarrow> room_state) \<Rightarrow> client_env \<Rightarrow> relay_hello \<Rightarrow> unit client" where
  "register_client config others env h =
     bindc (lift (ce_peer_endpoint env)) (\<lambda>addr.
       let match_key = match_key_of h; active_room = relay_room_base match_key in
       bindc (purge_rooms config env) (\<lambda>_.
       bindc (pair_rooms config match_key active_room (waiting_peer_for env addr h) (h_auxiliary h)) (\<lambda>pairing.
       run_pairing others env active_room (h_auxiliary h) (ce_socket env) pairing)))"

definition serve_first ::
    "relay_config \<Rightarrow> (room_state \<Rightarrow> room_state) \<Rightarrow> client_env \<Rightarrow> message option \<Rightarrow> unit client" where
  "serve_first config others env first =
     (case first of
        None \<Rightarrow> lift (Inl ''expected hello'')
      | Some m \<Rightarrow>
          if mtype m = ''punch_probe'' then handle_punch_probe config env m
          else if mtype m \<noteq> ''hello'' then lift (Inl ''expected hello'')
          else if \<not> relay_password_ok config m then reject_client (ce_socket env) ''bad_password''
          else case decode_relay_hello m of
            Inl _ \<Rightarrow> reject_client (ce_socket env) ''invalid_hello''
          | Inr h \<Rightarrow> register_client config others env h)"

text \<open>\<open>handle_client\<close>; an error is what its outer \<open>catch\<close> logs.\<close>

definition handle_client :: "relay_config \<Rightarrow> (room_state \<Rightarrow> room_state) \<Rightarrow> client_env \<Rightarrow> unit client" where
  "handle_client config others env =
     bindc (lift (ce_first env)) (\<lambda>first.
       if ce_cancel_first env then ret ()
       else case first of
         Some m \<Rightarrow>
           (if mtype m = ''ping'' then
              bindc (send_to (ce_socket env) (plain_message ''pong'' [(''version'', ce_version env)])) (\<lambda>_.
              bindc (lift (ce_second env)) (\<lambda>second.
              if ce_cancel_second env then ret ()
              else case second of None \<Rightarrow> ret () | Some m2 \<Rightarrow> serve_first config others env (Some m2)))
            else serve_first config others env (Some m))
       | None \<Rightarrow> serve_first config others env None)"

section \<open>The table across one client\<close>

definition rooms_rel :: "(room_state \<Rightarrow> room_state \<Rightarrow> bool) \<Rightarrow> 'a client \<Rightarrow> bool" where
  "rooms_rel R c \<longleftrightarrow> (\<forall>io. R (io_rooms io) (io_rooms (snd (c io))))"

lemma rooms_rel_bindc:
  assumes "transp R" "rooms_rel R c" "\<And>x. rooms_rel R (f x)"
  shows "rooms_rel R (bindc c f)"
  unfolding rooms_rel_def
proof
  fix io
  obtain r io1 where c: "c io = (r, io1)" by fastforce
  then have 1: "R (io_rooms io) (io_rooms io1)" using assms(2) by (metis rooms_rel_def snd_conv)
  show "R (io_rooms io) (io_rooms (snd (bindc c f io)))"
  proof (cases r)
    case (Inr x)
    have "R (io_rooms io1) (io_rooms (snd (f x io1)))" using assms(3) by (simp add: rooms_rel_def)
    then have "R (io_rooms io) (io_rooms (snd (f x io1)))" using 1 transpD [OF assms(1)] by blast
    then show ?thesis using c Inr by (simp add: bindc_def)
  qed (use 1 c in \<open>simp add: bindc_def\<close>)
qed

lemma send_to_rooms [simp]: "io_rooms (snd (send_to k m io)) = io_rooms io"
  by (simp add: send_to_def split: list.split option.split)

lemma relay_stream_rooms [simp]: "io_rooms (snd (relay_stream a b io)) = io_rooms io"
  by (simp add: relay_stream_def split: list.split option.split)

lemma rooms_rel_simple:
  assumes "reflp R"
  shows "rooms_rel R (send_to k m)" "rooms_rel R (ret x)" "rooms_rel R (lift r)" "rooms_rel R (relay_stream a b)"
    "rooms_rel R (reject_client k e)" "rooms_rel R (send_message_best_effort valid k m)"
  using reflpD [OF assms]
  by (simp_all add: rooms_rel_def ret_def lift_def reject_client_def send_message_best_effort_def)

lemma send_peer_messages_rooms: "reflp R \<Longrightarrow> transp R \<Longrightarrow> rooms_rel R (send_peer_messages t a b)"
  unfolding send_peer_messages_def by (intro rooms_rel_bindc rooms_rel_simple)

lemma route_session_rooms: "reflp R \<Longrightarrow> transp R \<Longrightarrow> rooms_rel R (route_session env a b)"
  unfolding route_session_def Let_def
  by (intro rooms_rel_bindc rooms_rel_simple) (auto intro!: rooms_rel_bindc rooms_rel_simple split: decision_kind.split)

lemma handle_punch_probe_rooms: "reflp R \<Longrightarrow> transp R \<Longrightarrow> rooms_rel R (handle_punch_probe config env m)"
  unfolding handle_punch_probe_def by (auto intro!: rooms_rel_bindc rooms_rel_simple)

lemma bindc_lift [simp]: "bindc (lift (Inr y)) f = f y" "bindc (lift (Inl e)) f = lift (Inl e)"
  by (simp_all add: fun_eq_iff bindc_def lift_def)

text \<open>What holds across every registration that this client's hellos can make holds across the client.\<close>

definition hello_of :: "client_env \<Rightarrow> relay_hello \<Rightarrow> bool" where
  "hello_of env h \<longleftrightarrow>
     (\<exists>m. (ce_first env = Inr (Some m) \<or> ce_second env = Inr (Some m)) \<and> decode_relay_hello m = Inr h)"

lemma serve_first_rooms:
  assumes R: "reflp R" "transp R" and reg: "\<And>h. hello_of env h \<Longrightarrow> rooms_rel R (register_client config others env h)"
    and m: "\<And>m. first = Some m \<Longrightarrow> ce_first env = Inr (Some m) \<or> ce_second env = Inr (Some m)"
  shows "rooms_rel R (serve_first config others env first)"
proof (cases first)
  case None
  then show ?thesis using R by (simp add: serve_first_def rooms_rel_simple)
next
  case (Some x)
  have "decode_relay_hello x = Inr h \<Longrightarrow> rooms_rel R (register_client config others env h)" for h
    using reg m [OF Some] by (auto simp: hello_of_def)
  then show ?thesis
    using R Some by (auto simp: serve_first_def rooms_rel_simple handle_punch_probe_rooms split: sum.split)
qed

lemma handle_client_rooms:
  assumes R: "reflp R" "transp R" and reg: "\<And>h. hello_of env h \<Longrightarrow> rooms_rel R (register_client config others env h)"
  shows "rooms_rel R (handle_client config others env)"
proof (cases "ce_first env")
  case (Inl e)
  then show ?thesis using R by (simp add: handle_client_def rooms_rel_def bindc_def lift_def reflpD)
next
  case (Inr first)
  have s1: "rooms_rel R (serve_first config others env first)"
    using Inr by (intro serve_first_rooms [OF R reg]) auto
  have s2: "rooms_rel R (serve_first config others env (Some m))" if "ce_second env = Inr (Some m)" for m
    using that by (intro serve_first_rooms [OF R reg]) auto

  have p: "rooms_rel R (bindc (lift (ce_second env)) (\<lambda>second.
        if ce_cancel_second env then ret ()
        else case second of None \<Rightarrow> ret () | Some m2 \<Rightarrow> serve_first config others env (Some m2)))"
  proof (cases "ce_second env")
    case (Inl e)
    then show ?thesis using R by (simp add: rooms_rel_def bindc_def lift_def reflpD)
  next
    case (Inr y)
    then show ?thesis
      using R s2 by (simp add: rooms_rel_def bindc_def lift_def ret_def reflpD split: option.split)
  qed
  have "rooms_rel R (bindc (send_to k m) (\<lambda>_. bindc (lift (ce_second env)) (\<lambda>second.
        if ce_cancel_second env then ret ()
        else case second of None \<Rightarrow> ret () | Some m2 \<Rightarrow> serve_first config others env (Some m2))))" for k m
    by (rule rooms_rel_bindc [OF R(2) rooms_rel_simple(1) [OF R(1)] p])
  then show ?thesis
    using s1 rooms_rel_simple(2) [OF R(1), of "()"]
    by (auto simp: handle_client_def Inr split: option.split)
qed

text \<open>A pairing that claims the room is undone by the cleanup, if the room has a name.\<close>

lemma pair_or_wait_matched:
  assumes "pair_or_wait config key room self aux s = (r, s1)"
  shows "pr_claimed_active_room r \<longleftrightarrow> pr_kind r = Matched \<and> \<not> aux"
    and "pr_kind r = Matched \<Longrightarrow> \<exists>other. pr_self r = Some self \<and> pr_peer r = Some other"
    and "pr_kind r \<noteq> Matched \<Longrightarrow> rs_active s1 = rs_active s"
  using assms by (auto simp: pair_or_wait_def split: option.splits if_splits)

lemma run_pairing_rooms:
  assumes "pair_or_wait config key room self aux s = (r, s1)" and "io_rooms io = s1"
  shows "io_rooms (snd (run_pairing others env room aux k r io)) =
     (if pr_claimed_active_room r
      then (if room \<noteq> [] then release_active_room room (others s1) else others s1) else s1)"
proof -
  note m = pair_or_wait_matched [OF assms(1)]
  have body: "io_rooms (snd (bindc (send_peer_messages t a b) (\<lambda>_. route_session env a b) io)) = io_rooms io" for t a b
  proof -
    have "rooms_rel (\<lambda>x y. y = x) (bindc (send_peer_messages t a b) (\<lambda>_. route_session env a b))"
      by (intro rooms_rel_bindc send_peer_messages_rooms route_session_rooms)
        (auto simp: reflp_def transp_def)
    then show ?thesis by (simp add: rooms_rel_def)
  qed
  show ?thesis
  proof (cases "pr_kind r = Matched")
    case True
    then obtain other where o': "pr_self r = Some self" "pr_peer r = Some other" using m(2) by blast
    show ?thesis
      using True o' m(1) body [of "ce_punch_token env" other self] assms(2)
      by (auto simp: run_pairing_def with_room_cleanup_def Let_def case_prod_beta)
  next
    case False
    then show ?thesis
      using m(1) assms(2) by (cases "pr_kind r") (simp_all add: run_pairing_def ret_def reject_client_def)
  qed
qed

lemma register_client_rooms:
  assumes "reflp R" and "\<And>(io :: client_io) addr. ce_peer_endpoint env = Inr addr \<Longrightarrow>
     (let key = match_key_of h; room = relay_room_base key;
          s = snd (purge_stale_waiting config (ce_now env) (ce_dead env) (ce_valid env) (io_rooms io));
          (r, s1) = pair_or_wait config key room (waiting_peer_for env addr h) (h_auxiliary h) s
      in R (io_rooms io) (if pr_claimed_active_room r
           then (if room \<noteq> [] then release_active_room room (others s1) else others s1) else s1))"
  shows "rooms_rel R (register_client config others env h)"
proof (cases "ce_peer_endpoint env")
  case (Inl e)
  then show ?thesis using assms(1) by (simp add: register_client_def rooms_rel_simple)
next
  case (Inr addr)
  have "R (io_rooms io) (io_rooms (snd (register_client config others env h io)))" for io :: client_io
  proof -
    let ?key = "match_key_of h" let ?room = "relay_room_base ?key"
    let ?s = "snd (purge_stale_waiting config (ce_now env) (ce_dead env) (ce_valid env) (io_rooms io))"
    obtain r s1 where p: "pair_or_wait config ?key ?room (waiting_peer_for env addr h) (h_auxiliary h) ?s = (r, s1)"
      by fastforce
    show ?thesis
      using assms(2) [OF Inr, of io] run_pairing_rooms [OF p, of "io\<lparr>io_rooms := s1\<rparr>" others env "ce_socket env"] p
      by (simp add: register_client_def Inr bindc_def purge_rooms_def pair_rooms_def lift_def Let_def)
  qed
  then show ?thesis by (simp add: rooms_rel_def)
qed

lemma base_of_match_key: "relay_room_base (match_key_of h) = relay_room_base (h_room h)"
proof (cases rule: cut_cases [of "CHR ''#''" "h_room h"])
  case (found v r)
  then show ?thesis by (simp add: relay_room_base_def match_key_of_def)
qed (simp add: relay_room_base_def match_key_of_def)

text \<open>
  C2: however the client's thread ends, the rooms marked active are afterwards those that were
  active before: no room stays locked by a session that is over. The ends are the early
  returns (no hello, a punch probe, a wrong password, a malformed hello, a full room or server,
  a peer left waiting, a server that stops), the decision for the direct or the relayed path or
  for neither, and the exceptions of the model: a read that throws before the hello, a peer
  address that cannot be read, a message that cannot be encoded or sent, a route choice of
  either peer that is too large or does not decode while the room is claimed, a pipe that
  cannot be started. The name of the room that a hello asks for is neither empty nor begins
  with the separator \<open>#\<close>, and no other client changes the table during this client's session
  (with such changes the run is one of the step relation, see \<open>client_refines_room_steps\<close>).
\<close>

theorem client_releases_its_room:
  assumes "\<And>h. hello_of env h \<Longrightarrow> relay_room_base (h_room h) \<noteq> []"
  shows "rs_active (io_rooms (snd (handle_client config id env io))) = rs_active (io_rooms io)"
proof -
  have "rooms_rel (\<lambda>s s'. rs_active s' = rs_active s) (handle_client config id env)"
  proof (rule handle_client_rooms)
    fix h assume "hello_of env h"
    then have "relay_room_base (match_key_of h) \<noteq> []" using assms base_of_match_key by simp
    have purge: "rs_active (snd (purge_stale_waiting config now dead valid s)) = rs_active s" for now dead valid s
      by (simp add: purge_stale_waiting_def)
    show "rooms_rel (\<lambda>s s'. rs_active s' = rs_active s) (register_client config id env h)"
    proof (rule register_client_rooms)
      fix io :: client_io and addr
      let ?s = "snd (purge_stale_waiting config (ce_now env) (ce_dead env) (ce_valid env) (io_rooms io))"
      let ?key = "match_key_of h"
      obtain r s1 where p: "pair_or_wait config ?key (relay_room_base ?key) (waiting_peer_for env addr h)
          (h_auxiliary h) ?s = (r, s1)"
        by fastforce
      show "let key = match_key_of h; room = relay_room_base key; s = ?s;
              (r, s1) = pair_or_wait config key room (waiting_peer_for env addr h) (h_auxiliary h) s
            in rs_active (if pr_claimed_active_room r
                 then (if room \<noteq> [] then release_active_room room (id s1) else id s1) else s1)
               = rs_active (io_rooms io)"
        using \<open>relay_room_base ?key \<noteq> []\<close> claimed_means_fresh [OF p] p
        by (auto simp: Let_def release_active_room_def purge)
    qed (simp add: reflp_def)
  qed (auto simp: reflp_def transp_def)
  then show ?thesis by (simp add: rooms_rel_def)
qed

definition sample_hello :: "role \<Rightarrow> relay_hello" where
  "sample_hello r = \<lparr>h_room = ''k'', h_role = r, h_conn_index = 0, h_listen = sample_endpoint,
     h_punch_public = \<lparr>host = [], port = 0\<rparr>, h_file_count = 1, h_total_size = 10, h_conn_count = 1,
     h_auxiliary = False, h_no_direct = False, h_local_candidates = [], h_app = [], h_stun_nat = [],
     h_relay_pass = Some ''pw'', h_extension_fields = []\<rparr>"

definition sample_env :: "message \<Rightarrow> client_env" where
  "sample_env m = \<lparr>ce_socket = 8, ce_peer_endpoint = Inr sample_endpoint, ce_first = Inr (Some m),
     ce_second = Inr None, ce_cancel_first = False, ce_cancel_second = False, ce_version = ''1'', ce_now = 5,
     ce_dead = (\<lambda>_. False), ce_valid = (\<lambda>_. True), ce_punch_token = ''250'', ce_turns = sample_turns\<rparr>"

definition sample_message :: message where
  "sample_message = plain_message ''hello'' []"

definition sample_io :: client_io where
  "sample_io = \<lparr>io_rooms = sample_rooms, io_sent = [], io_piped = [], io_faults = []\<rparr>"

lemma sample_hello_ok: "hello_ok (sample_hello r)"
  by (simp add: hello_ok_def sample_hello_def kMaxRelayConnections_def csv_ok_def kHelloFields_def omap_ok_def)

lemma sample_hello_of:
  "hello_of (sample_env \<lparr>mtype = ''hello'', mfields = hello_fields (sample_hello r)\<rparr>) h \<longleftrightarrow> h = sample_hello r"
  using decode_hello_fields [OF sample_hello_ok] by (auto simp: hello_of_def sample_env_def)

text \<open>The same client, whose peer sends a frame that does not decode instead of its route choice.\<close>

definition garbled_env :: "message \<Rightarrow> client_env" where
  "garbled_env m = (sample_env m)\<lparr>ce_turns :=
     [(False, \<lparr>rp_valid = True, rp_poll = 1, rp_received = Inl ''invalid message''\<rparr>, poll_nothing)]\<rparr>"

lemma garbled_hello_of: "hello_of (garbled_env m) h \<longleftrightarrow> hello_of (sample_env m) h"
  by (simp add: hello_of_def garbled_env_def sample_env_def)

lemma garbled_choice_throws: "route_session (garbled_env m) a b io = (Inl ''invalid message'', io)"
  by (simp add: route_session_def garbled_env_def wait_route_decision_def recv_route_choice_if_ready_def lift_def)

theorem client_releases_its_room_witness:
  "rs_active (io_rooms (snd (handle_client sample_config id
     (sample_env \<lparr>mtype = ''hello'', mfields = hello_fields (sample_hello Receiver)\<rparr>) sample_io))) = {} \<and>
   rs_active (io_rooms (snd (handle_client sample_config id (garbled_env
     \<lparr>mtype = ''hello'', mfields = hello_fields (sample_hello Receiver)\<rparr>) sample_io))) = {}"
proof -
  have "rs_active (io_rooms (snd (handle_client sample_config id
     (sample_env \<lparr>mtype = ''hello'', mfields = hello_fields (sample_hello Receiver)\<rparr>) sample_io))) =
     rs_active (io_rooms sample_io)"
    by (rule client_releases_its_room)
      (simp only: sample_hello_of, simp add: sample_hello_def relay_room_base_def)
  moreover have "rs_active (io_rooms (snd (handle_client sample_config id (garbled_env
     \<lparr>mtype = ''hello'', mfields = hello_fields (sample_hello Receiver)\<rparr>) sample_io))) =
     rs_active (io_rooms sample_io)"
    by (rule client_releases_its_room)
      (simp only: garbled_hello_of sample_hello_of, simp add: sample_hello_def relay_room_base_def)
  ultimately show ?thesis by (simp add: sample_io_def sample_rooms_def)
qed

text \<open>
  A room whose name begins with \<open>#\<close> has the empty string as its base, which the cleanup
  takes for "nothing claimed": after the session the empty room is still marked active, and
  from then on every main connection of any such room is told that the room is full.
\<close>

theorem hash_room_stays_locked:
  assumes "pair_or_wait config key [] self False s = (r, s1)" and "pr_kind r = Matched" and "io_rooms io = s1"
  shows "[] \<in> rs_active (io_rooms (snd (run_pairing id env [] False k r io))) \<and>
    pr_kind (fst (pair_or_wait config key' [] peer False
      (io_rooms (snd (run_pairing id env [] False k r io))))) = RoomFull"
proof (rule conjI)
  have c: "pr_claimed_active_room r" using pair_or_wait_matched(1) [OF assms(1)] assms(2) by simp
  show active: "[] \<in> rs_active (io_rooms (snd (run_pairing id env [] False k r io)))"
    using run_pairing_rooms [OF assms(1,3), of id env k] c claimed_means_fresh [OF assms(1)] by simp
  show "pr_kind (fst (pair_or_wait config key' [] peer False
           (io_rooms (snd (run_pairing id env [] False k r io))))) = RoomFull"
    using active by (simp add: pair_or_wait_def)
qed

theorem hash_room_stays_locked_witness:
  "\<exists>r s1. pair_or_wait sample_config ''#k#0'' (relay_room_base ''#k#0'') (sample_peer Receiver 8) False
       \<lparr>rs_waiting = [(''#k#0'', sample_peer Sender 7)], rs_active = {}\<rparr> = (r, s1) \<and>
     pr_kind (fst (pair_or_wait sample_config ''#j#0'' [] (sample_peer Sender 9) False
       (io_rooms (snd (run_pairing id (sample_env sample_message) [] False 8 r (sample_io\<lparr>io_rooms := s1\<rparr>)))))) = RoomFull"
proof -
  let ?s = "\<lparr>rs_waiting = [(''#k#0'', sample_peer Sender 7)], rs_active = {}\<rparr>"
  obtain r s1 where p: "pair_or_wait sample_config ''#k#0'' [] (sample_peer Receiver 8) False ?s = (r, s1)"
    by fastforce
  have "pr_kind r = Matched"
    using p by (auto simp: pair_or_wait_def sample_peer_def)
  from hash_room_stays_locked [where io = "sample_io\<lparr>io_rooms := s1\<rparr>" and env = "sample_env sample_message" and k = 8
      and key' = "''#j#0''" and peer = "sample_peer Sender 9", OF p this] p
  show ?thesis by (simp add: relay_room_base_def)
qed

section \<open>Access and introduction of the peers\<close>

text \<open>
  a client whose hello does not carry the relay's password changes nothing: no peer is
  disturbed, no room is touched, and all that is sent goes to that client itself.
\<close>

theorem wrong_password_changes_nothing:
  assumes "ce_first env = Inr (Some m)" and "mtype m = ''hello''" and "\<not> relay_password_ok config m"
  shows "io_rooms (snd (handle_client config others env io)) = io_rooms io \<and>
    io_piped (snd (handle_client config others env io)) = io_piped io \<and>
    (\<exists>out. io_sent (snd (handle_client config others env io)) = io_sent io @ out \<and>
       set out \<subseteq> {(ce_socket env, plain_message ''error'' [(''code'', ''bad_password'')])})"
proof -
  have h: "handle_client config others env io =
      (if ce_cancel_first env then (Inr (), io) else reject_client (ce_socket env) ''bad_password'' io)"
    using assms by (simp add: handle_client_def serve_first_def ret_def)
  have 1: "io_rooms (snd (handle_client config others env io)) = io_rooms io"
    by (simp add: h reject_client_def)
  have 2: "io_piped (snd (handle_client config others env io)) = io_piped io"
    by (simp add: h reject_client_def send_to_def split: list.split option.split)
  have 3: "\<exists>out. io_sent (snd (handle_client config others env io)) = io_sent io @ out \<and>
           set out \<subseteq> {(ce_socket env, plain_message ''error'' [(''code'', ''bad_password'')])}"
    by (simp add: h reject_client_def send_to_def split: list.split option.split)
  show ?thesis using 1 2 3 by blast
qed

theorem wrong_password_changes_nothing_witness:
  "io_rooms (snd (handle_client (sample_config\<lparr>rc_password := ''secret''\<rparr>) id
     (sample_env \<lparr>mtype = ''hello'', mfields = hello_fields (sample_hello Receiver)\<rparr>) sample_io)) = sample_rooms"
proof -
  have "\<not> relay_password_ok (sample_config\<lparr>rc_password := ''secret''\<rparr>)
      \<lparr>mtype = ''hello'', mfields = hello_fields (sample_hello Receiver)\<rparr>"
    by (simp add: relay_password_ok_def msg_get_def hello_lookup) (simp add: sample_hello_def)
  from wrong_password_changes_nothing [OF _ _ this, of "sample_env \<lparr>mtype = ''hello'', mfields = hello_fields (sample_hello Receiver)\<rparr>"
      id sample_io]
  show ?thesis by (simp add: sample_env_def sample_io_def)
qed

lemma wp_for_simps [simp]:
  "wp_socket (waiting_peer_for env addr h) = ce_socket env"
  "wp_conn_count (waiting_peer_for env addr h) = h_conn_count h"
  "wp_local_candidates (waiting_peer_for env addr h) = h_local_candidates h"
  "wp_role (waiting_peer_for env addr h) = h_role h"
  by (simp_all add: waiting_peer_for_def)

text \<open>
  when two peers that sent well-formed hellos are introduced, each receives on its own
  connection a message that decodes to what the other one registered: its public and listen
  endpoints, its candidates, file count, size and number of connections, with the same token.
\<close>

theorem peers_learn_each_other:
  assumes "hello_ok ha" and "hello_ok hb"
    and "a = waiting_peer_for ea addra ha" and "b = waiting_peer_for eb addrb hb"
    and "send_peer_messages token a b io = (Inr (), io')"
  shows "\<exists>ma mb pa pb. io_sent io' = io_sent io @ [(ce_socket ea, ma), (ce_socket eb, mb)] \<and>
     decode_relay_peer_info ma = Inr pa \<and> decode_relay_peer_info mb = Inr pb \<and>
     pi_peer_public pa = wp_public_endpoint b \<and> pi_peer_public pb = wp_public_endpoint a \<and>
     pi_peer_listen pa = wp_listen_endpoint b \<and> pi_peer_listen pb = wp_listen_endpoint a \<and>
     pi_local_candidates pa = h_local_candidates hb \<and> pi_local_candidates pb = h_local_candidates ha \<and>
     pi_conn_count pa = h_conn_count hb \<and> pi_conn_count pb = h_conn_count ha \<and>
     pi_punch_token pa = token \<and> pi_punch_token pb = token"
proof -
  define pa where "pa = \<lparr>pi_peer_public = wp_public_endpoint b, pi_peer_listen = wp_listen_endpoint b,
        pi_local_candidates = wp_local_candidates b, pi_no_direct = wp_no_direct b,
        pi_self_public = wp_public_endpoint a, pi_punch_token = token, pi_route_commit_v2 = True,
        pi_file_count = wp_file_count b, pi_total_size = wp_total_size b, pi_conn_count = wp_conn_count b\<rparr>"
  define pb where "pb = \<lparr>pi_peer_public = wp_public_endpoint a, pi_peer_listen = wp_listen_endpoint a,
        pi_local_candidates = wp_local_candidates a, pi_no_direct = wp_no_direct a,
        pi_self_public = wp_public_endpoint b, pi_punch_token = token, pi_route_commit_v2 = True,
        pi_file_count = wp_file_count a, pi_total_size = wp_total_size a, pi_conn_count = wp_conn_count a\<rparr>"
  have ok: "peer_info_ok pa" "peer_info_ok pb"
    using assms by (simp_all add: pa_def pb_def peer_info_ok_def hello_ok_def)
  obtain ma mb where enc: "encode_relay_peer_info pa = Inr ma" "encode_relay_peer_info pb = Inr mb"
    using ok peer_codec.enc_total by (meson is_ok_def)
  have dec: "decode_relay_peer_info ma = Inr pa" "decode_relay_peer_info mb = Inr pb"
    using ok enc peer_codec.dec_enc by blast+
  have m: "peer_message_for a b token = Inr ma" "peer_message_for b a token = Inr mb"
    using enc by (simp_all add: peer_message_for_def pa_def pb_def)
  have socks: "wp_socket a = ce_socket ea" "wp_socket b = ce_socket eb"
    by (simp_all add: assms(3,4))
  have sent: "io_sent io' = io_sent io @ [(ce_socket ea, ma), (ce_socket eb, mb)]"
    using assms(5) by (auto simp: send_peer_messages_def m bindc_def lift_def send_to_def socks
        split: prod.splits sum.splits list.splits option.splits)
  show ?thesis
    by (rule exI [of _ ma], rule exI [of _ mb], rule exI [of _ pa], rule exI [of _ pb])
      (simp add: sent dec, simp add: pa_def pb_def assms(3,4))
qed

theorem peers_learn_each_other_witness:
  "\<exists>ma pa. io_sent (snd (send_peer_messages ''250'' (waiting_peer_for (sample_env sample_message) sample_endpoint (sample_hello Sender))
       (waiting_peer_for (sample_env sample_message) sample_endpoint (sample_hello Receiver)) sample_io)) ! 0 = (8, ma) \<and>
     decode_relay_peer_info ma = Inr pa \<and> pi_punch_token pa = ''250''"
proof -
  let ?a = "waiting_peer_for (sample_env sample_message) sample_endpoint (sample_hello Sender)"
  let ?b = "waiting_peer_for (sample_env sample_message) sample_endpoint (sample_hello Receiver)"
  have "validate_connection_count 1 = Inr ()"
    by (simp add: validate_connection_count_def kMaxRelayConnections_def)
  then have "send_peer_messages ''250'' ?a ?b sample_io = (Inr (), snd (send_peer_messages ''250'' ?a ?b sample_io))"
    by (simp add: send_peer_messages_def peer_message_for_def encode_relay_peer_info_def send_to_def sample_io_def
        bindc_def lift_def sample_hello_def)
  from peers_learn_each_other [OF sample_hello_ok sample_hello_ok refl refl this]
  show ?thesis by (auto simp: sample_io_def sample_env_def)
qed

section \<open>Refinement of the table's step relation\<close>

definition world_of :: "string list \<Rightarrow> room_state \<Rightarrow> relay_world" where
  "world_of claims s = \<lparr>rw_rooms = s, rw_claims = claims\<rparr>"

definition runs_steps :: "relay_config \<Rightarrow> room_state \<Rightarrow> room_state \<Rightarrow> bool" where
  "runs_steps config s s' \<longleftrightarrow> (\<forall>claims. (relay_step config)\<^sup>*\<^sup>* (world_of claims s) (world_of claims s'))"

lemma runs_steps_refl: "reflp (runs_steps config)" and runs_steps_trans: "transp (runs_steps config)"
  by (auto simp: reflp_def transp_def runs_steps_def intro: rtranclp_trans)

lemma runs_purge: "runs_steps config s (snd (purge_stale_waiting config now dead valid s))"
  unfolding runs_steps_def
proof
  fix claims
  show "(relay_step config)\<^sup>*\<^sup>* (world_of claims s) (world_of claims (snd (purge_stale_waiting config now dead valid s)))"
    using relay_step.purge [of config "world_of claims s" now dead valid] by (auto simp: world_of_def)
qed

lemma runs_pairing:
  assumes p: "pair_or_wait config key room self aux s = (r, s1)" and "room \<noteq> []"
    and others: "\<And>s. runs_steps config s (others s)"
  shows "runs_steps config s (if pr_claimed_active_room r then release_active_room room (others s1) else s1)"
  unfolding runs_steps_def
proof
  fix claims
  let ?claims = "if pr_claimed_active_room r then room # claims else claims"
  have reg: "relay_step config (world_of claims s) (world_of ?claims s1)"
    using relay_step.register [of config key room self aux "world_of claims s" r s1] p
    by (cases "pr_claimed_active_room r") (simp_all add: world_of_def)
  have oth: "(relay_step config)\<^sup>*\<^sup>* (world_of ?claims s1) (world_of ?claims (others s1))"
    using others by (simp add: runs_steps_def)
  have fin: "relay_step config (world_of (room # claims) (others s1)) (world_of claims (release_active_room room (others s1)))"
    using relay_step.session_end [of room "world_of (room # claims) (others s1)" config] by (simp add: world_of_def)
  show "(relay_step config)\<^sup>*\<^sup>* (world_of claims s)
      (world_of claims (if pr_claimed_active_room r then release_active_room room (others s1) else s1))"
    using reg oth fin by (cases "pr_claimed_active_room r") (auto intro: rtranclp_trans rtranclp.rtrancl_into_rtrancl)
qed

text \<open>
  C4: the whole life of a client, with any complete runs of other clients during its session
  and whether it returns or throws, is a run of the step relation of the room table: so the
  invariants of the table (one session per room, bounded waiting list) hold for the server that
  runs these clients. The name of the room that a hello of the client asks for is neither
  empty nor begins with \<open>#\<close>, so that the base of its room is a name; without this the room is
  claimed and never released (\<open>hash_room_stays_locked\<close>).
\<close>

theorem client_refines_room_steps:
  assumes "\<And>h. hello_of env h \<Longrightarrow> relay_room_base (h_room h) \<noteq> []"
    and others: "\<And>s. runs_steps config s (others s)"
  shows "runs_steps config (io_rooms io) (io_rooms (snd (handle_client config others env io)))"
proof -
  have "rooms_rel (runs_steps config) (handle_client config others env)"
  proof (rule handle_client_rooms [OF runs_steps_refl runs_steps_trans])
    fix h assume "hello_of env h"
    then have room: "relay_room_base (match_key_of h) \<noteq> []" using assms base_of_match_key by simp
    show "rooms_rel (runs_steps config) (register_client config others env h)"
    proof (rule register_client_rooms [OF runs_steps_refl])
      fix io :: client_io and addr
      let ?s = "snd (purge_stale_waiting config (ce_now env) (ce_dead env) (ce_valid env) (io_rooms io))"
      let ?key = "match_key_of h"
      obtain r s1 where p: "pair_or_wait config ?key (relay_room_base ?key) (waiting_peer_for env addr h)
          (h_auxiliary h) ?s = (r, s1)"
        by fastforce
      have "runs_steps config (io_rooms io)
          (if pr_claimed_active_room r then release_active_room (relay_room_base ?key) (others s1) else s1)"
        using transpD [OF runs_steps_trans runs_purge runs_pairing [OF p room others]] .
      then show "let key = match_key_of h; room = relay_room_base key; s = ?s;
              (r, s1) = pair_or_wait config key room (waiting_peer_for env addr h) (h_auxiliary h) s
            in runs_steps config (io_rooms io) (if pr_claimed_active_room r
                 then (if room \<noteq> [] then release_active_room room (others s1) else others s1) else s1)"
        using p room by (cases "pr_claimed_active_room r") (simp_all add: Let_def)
    qed
  qed
  then show ?thesis by (simp add: rooms_rel_def)
qed

theorem client_refines_room_steps_witness:
  "runs_steps sample_config sample_rooms (io_rooms (snd (handle_client sample_config id
     (sample_env \<lparr>mtype = ''hello'', mfields = hello_fields (sample_hello Receiver)\<rparr>) sample_io)))"
proof -
  have "runs_steps sample_config (io_rooms sample_io) (io_rooms (snd (handle_client sample_config id
     (sample_env \<lparr>mtype = ''hello'', mfields = hello_fields (sample_hello Receiver)\<rparr>) sample_io)))"
    by (rule client_refines_room_steps)
      ((simp only: sample_hello_of, simp add: sample_hello_def relay_room_base_def), simp add: runs_steps_def)
  then show ?thesis by (simp add: sample_io_def)
qed

section \<open>Client workers\<close>

record client_worker =
  wk_socket :: sock
  wk_done :: bool

text \<open>The workers, and the sockets that were turned away with \<open>server_busy\<close>.\<close>

record worker_pool =
  wpool :: "client_worker list"
  wrejected :: "sock list"

definition finish :: "sock list \<Rightarrow> client_worker list \<Rightarrow> client_worker list" where
  "finish ended ws = map (\<lambda>w. if wk_socket w \<in> set ended then w\<lparr>wk_done := True\<rparr> else w) ws"

definition reap_finished_workers :: "client_worker list \<Rightarrow> client_worker list" where
  "reap_finished_workers ws = filter (\<lambda>w. \<not> wk_done w) ws"

definition worker_limit :: "relay_config \<Rightarrow> nat" where
  "worker_limit config = (if rc_max_client_workers config = 0 then 1 else rc_max_client_workers config)"

text \<open>\<open>spawn_error\<close>: the exception of the \<open>std::thread\<close> constructor, after which the entry is removed.\<close>

definition start_client_worker ::
    "relay_config \<Rightarrow> string option \<Rightarrow> sock \<Rightarrow> client_worker list \<Rightarrow> bool result \<times> client_worker list" where
  "start_client_worker config spawn_error socket ws =
     (let ws1 = reap_finished_workers ws in
      if worker_limit config \<le> length ws1 then (Inr False, ws1)
      else case spawn_error of
        None \<Rightarrow> (Inr True, ws1 @ [\<lparr>wk_socket = socket, wk_done = False\<rparr>])
      | Some e \<Rightarrow> (Inl e, ws1))"

text \<open>
  One turn of \<open>accept_loop\<close>: the workers that have ended before it, what \<open>accept\<close> gave, and
  whether a thread could be started. An exception ends the loop, which is a last turn.
\<close>

definition accept_turn ::
    "relay_config \<Rightarrow> sock list \<times> sock option \<times> string option \<Rightarrow> worker_pool \<Rightarrow> worker_pool" where
  "accept_turn config turn p =
     (case turn of (ended, accepted, spawn_error) \<Rightarrow>
        let ws = reap_finished_workers (finish ended (wpool p)) in
        case accepted of
          None \<Rightarrow> p\<lparr>wpool := ws\<rparr>
        | Some socket \<Rightarrow>
            (case start_client_worker config spawn_error socket ws of
               (Inr False, ws1) \<Rightarrow> p\<lparr>wpool := ws1, wrejected := wrejected p @ [socket]\<rparr>
             | (_, ws1) \<Rightarrow> p\<lparr>wpool := ws1\<rparr>))"

definition accept_loop :: "relay_config \<Rightarrow> (sock list \<times> sock option \<times> string option) list \<Rightarrow> worker_pool \<Rightarrow> worker_pool" where
  "accept_loop config turns p = fold (accept_turn config) turns p"

definition pool_inv :: "relay_config \<Rightarrow> worker_pool \<Rightarrow> bool" where
  "pool_inv config p \<longleftrightarrow> length (wpool p) \<le> worker_limit config"

interpretation accepting: machine "accept_turn config" "pool_inv config" for config
proof
  fix p and turn :: "sock list \<times> sock option \<times> string option"
  assume inv: "pool_inv config p"
  obtain ended accepted err where t: "turn = (ended, accepted, err)" by (cases turn)
  have "length (reap_finished_workers (reap_finished_workers (finish ended (wpool p)))) \<le> length (wpool p)"
    by (simp add: reap_finished_workers_def finish_def order_trans [OF length_filter_le])
  moreover have "length (reap_finished_workers (finish ended (wpool p))) \<le> length (wpool p)"
    using length_filter_le [of "\<lambda>w. \<not> wk_done w" "finish ended (wpool p)"]
    by (simp add: reap_finished_workers_def finish_def)
  ultimately show "pool_inv config (accept_turn config turn p)"
    using inv by (auto simp: t accept_turn_def start_client_worker_def pool_inv_def Let_def
        split: option.splits)
qed

lemma start_client_worker_rejects:
  "start_client_worker config err socket ws = (Inr False, ws') \<longleftrightarrow>
     worker_limit config \<le> length (reap_finished_workers ws) \<and> ws' = reap_finished_workers ws"
  by (auto simp: start_client_worker_def Let_def split: option.split)

text \<open>
  the number of client threads of a relay never exceeds the configured limit, and never
  exceeds one if the limit is configured as zero, whatever clients come and go.
\<close>

theorem workers_bounded:
  "length (wpool (accept_loop config turns \<lparr>wpool = [], wrejected = []\<rparr>)) \<le>
     (if rc_max_client_workers config = 0 then 1 else rc_max_client_workers config)"
  using accepting.run_inv [of config "\<lparr>wpool = [], wrejected = []\<rparr>" turns]
  by (simp add: accept_loop_def pool_inv_def worker_limit_def)

section \<open>The error log\<close>

text \<open>Times in milliseconds; the result is the lines that are printed.\<close>

record error_log =
  el_window_started :: int
  el_logged :: nat

definition log_client_error :: "int \<Rightarrow> string \<Rightarrow> error_log \<Rightarrow> string list \<times> error_log" where
  "log_client_error now err l =
     (let l1 = (if 60000 \<le> now - el_window_started l then \<lparr>el_window_started = now, el_logged = 0\<rparr> else l);
          out = (if el_logged l1 < 10 then [''relay client error: '' @ err]
                 else if el_logged l1 = 10 then [''relay client errors suppressed for the remainder of this minute'']
                 else [])
      in (out, l1\<lparr>el_logged := el_logged l1 + 1\<rparr>))"

fun log_all :: "(int \<times> string) list \<Rightarrow> error_log \<Rightarrow> string list" where
  "log_all [] l = []"
| "log_all ((now, err) # es) l = (let (out, l1) = log_client_error now err l in out @ log_all es l1)"

lemma log_all_bound:
  assumes "\<forall>(now, err) \<in> set es. now - el_window_started l < 60000"
  shows "length (log_all es l) \<le> 11 - el_logged l"
  using assms
proof (induction es arbitrary: l)
  case (Cons e es)
  obtain now err where e: "e = (now, err)" by (cases e)
  then have "now - el_window_started l < 60000" using Cons.prems by simp
  then have s: "snd (log_client_error now err l) = l\<lparr>el_logged := el_logged l + 1\<rparr>"
    and o': "length (fst (log_client_error now err l)) = (if el_logged l \<le> 10 then 1 else 0)"
    by (simp_all add: log_client_error_def Let_def)
  have "length (log_all es (l\<lparr>el_logged := el_logged l + 1\<rparr>)) \<le> 11 - (el_logged l + 1)"
    using Cons.IH [of "l\<lparr>el_logged := el_logged l + 1\<rparr>"] Cons.prems by simp
  then show ?case using s o' by (cases "el_logged l \<le> 10") (simp_all add: e case_prod_beta)
qed simp

text \<open>however many clients fail within a minute, the relay prints at most eleven lines for it.\<close>

theorem error_log_bounded:
  assumes "\<forall>(now, err) \<in> set es. now - started < 60000"
  shows "length (log_all es \<lparr>el_window_started = started, el_logged = 0\<rparr>) \<le> 11"
  using log_all_bound [of es "\<lparr>el_window_started = started, el_logged = 0\<rparr>"] assms by simp

theorem error_log_bounded_witness:
  "length (log_all (replicate 40 (7, ''e'')) \<lparr>el_window_started = 0, el_logged = 0\<rparr>) \<le> 11"
  by (rule error_log_bounded) auto

end
