(* ===== verification/Transfer_Frames.thy ===== *)
theory Transfer_Frames
  imports Protocol
begin

text \<open>
  The encrypted frames of a transfer: \<open>src/transfer/transfer_stream.hpp\<close> (tags, limits) and
  the frame helpers at the head of \<open>src/transfer/transfer_stream.cpp\<close>. The stream cipher of a
  channel is a pair of parameters \<open>encrypt\<close> and \<open>decrypt\<close>.
\<close>

datatype stream_tag =
    FileHeader | Data | FileEnd | Done | Resume | ChunkEnd | Ack | ResumeAck | Manifest
  | OtherTag u8 \<comment> \<open>a value of the underlying type that names no enumerator\<close>

definition tag_code :: "stream_tag \<Rightarrow> u8" where
  "tag_code t = (case t of FileHeader \<Rightarrow> 1 | Data \<Rightarrow> 2 | FileEnd \<Rightarrow> 3 | Done \<Rightarrow> 4 | Resume \<Rightarrow> 5
     | ChunkEnd \<Rightarrow> 6 | Ack \<Rightarrow> 7 | ResumeAck \<Rightarrow> 8 | Manifest \<Rightarrow> 9 | OtherTag x \<Rightarrow> x)"

text \<open>\<open>static_cast<StreamTag>\<close>\<close>

definition tag_of_code :: "u8 \<Rightarrow> stream_tag" where
  "tag_of_code x =
     (if x = 1 then FileHeader else if x = 2 then Data else if x = 3 then FileEnd else if x = 4 then Done
      else if x = 5 then Resume else if x = 6 then ChunkEnd else if x = 7 then Ack
      else if x = 8 then ResumeAck else if x = 9 then Manifest else OtherTag x)"

record tagged_frame =
  tf_tag :: stream_tag
  tf_payload :: bytes

definition kPlainChunk :: nat where "kPlainChunk = 128 * 1024"
definition kMuxChunk :: nat where "kMuxChunk = 256 * 1024"
definition kMaxMuxConnections :: nat where "kMaxMuxConnections = 32"

definition ensure_declared_space :: "u64 \<Rightarrow> u64 \<Rightarrow> u64 \<Rightarrow> string \<Rightarrow> unit result" where
  "ensure_declared_space current_total declared_size next_size relative =
     fail_if (declared_size < current_total \<or> declared_size - current_total < next_size)
       (''received more data than declared for '' @ relative)"

text \<open>\<open>size_t\<close> is 64 bits wide on the supported targets, so the limit is never cut down.\<close>

definition declared_remaining_limit :: "u64 \<Rightarrow> u64 \<Rightarrow> string \<Rightarrow> nat result" where
  "declared_remaining_limit current_total declared_size relative =
     andthen (ensure_declared_space current_total declared_size 0 relative) (\<lambda>_.
       Inr (unat (declared_size - current_total)))"

definition send_tagged :: "(bytes \<Rightarrow> bytes result) \<Rightarrow> stream_tag \<Rightarrow> bytes \<Rightarrow> bytes result" where
  "send_tagged encrypt tag payload =
     andthen (encrypt (tag_code tag # payload)) send_frame"

definition send_tagged_text :: "(bytes \<Rightarrow> bytes result) \<Rightarrow> stream_tag \<Rightarrow> string \<Rightarrow> bytes result" where
  "send_tagged_text encrypt tag text = send_tagged encrypt tag (bytes_of text)"

definition recv_tagged :: "(bytes \<Rightarrow> bytes result) \<Rightarrow> wire \<Rightarrow> tagged_frame option result \<times> wire" where
  "recv_tagged decrypt w =
     (case recv_frame w of
        (Inl e, w1) \<Rightarrow> (Inl e, w1)
      | (Inr None, w1) \<Rightarrow> (Inr None, w1)
      | (Inr (Some encrypted), w1) \<Rightarrow>
          (case decrypt encrypted of
             Inl e \<Rightarrow> (Inl e, w1)
           | Inr [] \<Rightarrow> (Inl ''malformed transfer frame'', w1)
           | Inr (x # payload) \<Rightarrow> (Inr (Some \<lparr>tf_tag = tag_of_code x, tf_payload = payload\<rparr>), w1)))"

definition tag_ok :: "stream_tag \<Rightarrow> bool" where
  "tag_ok t \<longleftrightarrow> (\<forall>x. t = OtherTag x \<longrightarrow> x \<notin> {1, 2, 3, 4, 5, 6, 7, 8, 9})"

lemma tag_of_code_inverse [simp]: "tag_ok t \<Longrightarrow> tag_of_code (tag_code t) = t"
  by (cases t) (auto simp: tag_of_code_def tag_code_def tag_ok_def)

lemma declared_space_iff:
  "ensure_declared_space cur declared n rel = Inr u \<longleftrightarrow> unat cur + unat n \<le> unat declared"
proof -
  have "\<not> declared < cur \<Longrightarrow> unat (declared - cur) = unat declared - unat cur"
    by (simp add: unat_u64_sub not_less)
  then show ?thesis
    by (auto simp: ensure_declared_space_def word_less_nat_alt not_less)
qed

text \<open>What the channel's cipher promises: the peer's decryption undoes this side's encryption.\<close>

definition cipher_pair :: "(bytes \<Rightarrow> bytes result) \<Rightarrow> (bytes \<Rightarrow> bytes result) \<Rightarrow> bool" where
  "cipher_pair encrypt decrypt \<longleftrightarrow> (\<forall>p c. encrypt p = Inr c \<longrightarrow> decrypt c = Inr p)"

lemma recv_send_tagged:
  assumes "cipher_pair encrypt decrypt" "tag_ok t" "send_tagged encrypt t payload = Inr out"
  shows "recv_tagged decrypt \<lparr>arriving = out @ rest, ending = e, closed = False\<rparr> =
     (Inr (Some \<lparr>tf_tag = t, tf_payload = payload\<rparr>), \<lparr>arriving = rest, ending = e, closed = False\<rparr>)"
proof -
  obtain c where c: "encrypt (tag_code t # payload) = Inr c" "send_frame c = Inr out"
    using assms(3) by (auto simp: send_tagged_def andthen_Inr_iff)
  have "decrypt c = Inr (tag_code t # payload)"
    using assms(1) c(1) by (simp add: cipher_pair_def)
  then show ?thesis
    using recv_frame_sent [OF c(2)] assms(2) by (simp add: recv_tagged_def)
qed

end
