(* ===== verification/Mux_Receive.thy ===== *)
theory Mux_Receive
  imports Transfer_Frames
begin

text \<open>
  \<open>src/transfer/mux_receive_session.hpp\<close>, \<open>src/transfer/mux_receive_session.cpp\<close>: the readers
  of the parallel channels write chunks at their offsets, in any order, and keep the prefix
  of the file that is complete. Each frame is processed under the file lock, so a run of the
  session is a sequence of frames of any channels in any order.
\<close>

section \<open>The contiguous prefix\<close>

record range_state =
  contiguous_prefix :: u64
  pending_ranges :: "(u64, u64) omap"

text \<open>The \<open>while\<close> loop over the first pending range.\<close>

fun absorb_ranges :: "u64 \<Rightarrow> (u64, u64) omap \<Rightarrow> u64 \<times> (u64, u64) omap" where
  "absorb_ranges prefix [] = (prefix, [])"
| "absorb_ranges prefix ((start, stop) # ranges) =
     (if prefix < start then (prefix, (start, stop) # ranges)
      else absorb_ranges (max prefix stop) ranges)"

definition emplace_range :: "u64 \<Rightarrow> u64 \<Rightarrow> (u64, u64) omap \<Rightarrow> (u64, u64) omap" where
  "emplace_range offset stop ranges =
     (case map_of ranges offset of
        None \<Rightarrow> omap_put offset stop ranges
      | Some old \<Rightarrow> if old < stop then omap_put offset stop ranges else ranges)"

definition record_written_range :: "u64 \<Rightarrow> u64 \<Rightarrow> range_state \<Rightarrow> u64 \<times> range_state" where
  "record_written_range offset sz s =
     (let previous = contiguous_prefix s; stop = offset + sz in
      if sz = 0 then (0, s)
      else if stop \<le> previous then (0, s)
      else
        let (prefix0, ranges0) =
              (if offset \<le> previous then (max previous stop, pending_ranges s)
               else (previous, emplace_range offset stop (pending_ranges s)));
            (prefix1, ranges1) = absorb_ranges prefix0 ranges0
        in (prefix1 - previous, \<lparr>contiguous_prefix = prefix1, pending_ranges = ranges1\<rparr>))"

text \<open>The positions of the file that are known to be written.\<close>

definition interval :: "u64 \<Rightarrow> u64 \<Rightarrow> nat set" where
  "interval a b = {unat a ..< unat b}"

definition ranges_set :: "(u64, u64) omap \<Rightarrow> nat set" where
  "ranges_set rs = (\<Union>(a, b) \<in> set rs. interval a b)"

definition covered :: "range_state \<Rightarrow> nat set" where
  "covered s = {0 ..< unat (contiguous_prefix s)} \<union> ranges_set (pending_ranges s)"

definition range_inv :: "range_state \<Rightarrow> bool" where
  "range_inv s \<longleftrightarrow> omap_ok (pending_ranges s) \<and> (\<forall>(a, b) \<in> set (pending_ranges s). contiguous_prefix s < a)"

lemma ranges_set_simps [simp]:
  "ranges_set [] = {}"
  "ranges_set ((a, b) # rs) = interval a b \<union> ranges_set rs"
  by (simp_all add: ranges_set_def)

lemma extend_prefix: "a \<le> p \<Longrightarrow> {0 ..< unat p} \<union> interval a b = {0 ..< unat (max p b)}"
  by (auto simp: interval_def word_le_nat_alt max_def)

lemma absorb_covered:
  "{0 ..< unat (fst (absorb_ranges p rs))} \<union> ranges_set (snd (absorb_ranges p rs)) = {0 ..< unat p} \<union> ranges_set rs"
proof (induction p rs rule: absorb_ranges.induct)
  case (2 p start stop ranges)
  show ?case
  proof (cases "p < start")
    case False
    then show ?thesis using 2 extend_prefix [of start p stop] by (simp add: Un_assoc [symmetric])
  qed simp
qed simp

lemma absorb_inv:
  "omap_ok rs \<Longrightarrow> omap_ok (snd (absorb_ranges p rs)) \<and>
     (\<forall>(a, b) \<in> set (snd (absorb_ranges p rs)). fst (absorb_ranges p rs) < a)"
  by (induction p rs rule: absorb_ranges.induct) (auto simp: omap_ok_Cons)

lemma emplace_ok [simp]: "omap_ok rs \<Longrightarrow> omap_ok (emplace_range a b rs)"
  by (simp add: emplace_range_def split: option.split)

lemma set_omap: "omap_ok m \<Longrightarrow> (k, v) \<in> set m \<longleftrightarrow> map_of m k = Some v"
  by (simp add: omap_ok_def)

definition in_ranges :: "(u64, u64) omap \<Rightarrow> nat \<Rightarrow> bool" where
  "in_ranges rs x \<longleftrightarrow> (\<exists>a b. map_of rs a = Some b \<and> unat a \<le> x \<and> x < unat b)"

lemma in_ranges_iff: "omap_ok rs \<Longrightarrow> x \<in> ranges_set rs \<longleftrightarrow> in_ranges rs x"
  by (fastforce simp: ranges_set_def in_ranges_def interval_def set_omap)

lemma in_ranges_emplace:
  assumes "omap_ok rs"
  shows "in_ranges (emplace_range o' e rs) x \<longleftrightarrow> in_ranges rs x \<or> unat o' \<le> x \<and> x < unat e"
proof (cases "map_of rs o'")
  case None
  then show ?thesis
    by (auto simp: in_ranges_def emplace_range_def)
next
  case (Some old)
  show ?thesis
  proof (cases "old < e")
    case True
    then have "unat old \<le> unat e" by (simp add: word_less_nat_alt)
    then show ?thesis
      using Some True by (auto simp: in_ranges_def emplace_range_def)
  next
    case False
    then have "unat e \<le> unat old" by (simp add: word_le_nat_alt not_less)
    then have "unat o' \<le> x \<and> x < unat e \<Longrightarrow> in_ranges rs x"
      using Some unfolding in_ranges_def by (intro exI [of _ o'] exI [of _ old]) simp
    then show ?thesis
      using Some False by (auto simp: emplace_range_def)
  qed
qed

lemma emplace_covered: "omap_ok rs \<Longrightarrow> ranges_set (emplace_range a e rs) = ranges_set rs \<union> interval a e"
  by (rule set_eqI) (simp only: in_ranges_iff emplace_ok Un_iff in_ranges_emplace, simp add: interval_def)

text \<open>One recorded range adds exactly its positions, and keeps the pending ranges beyond the prefix.\<close>

lemma record_range_step:
  assumes inv: "range_inv s" and nov: "unat offset + unat sz < 2 ^ 64"
    and r: "record_written_range offset sz s = (delta, s')"
  shows "range_inv s'" and "covered s' = covered s \<union> {unat offset ..< unat offset + unat sz}"
    and "contiguous_prefix s' = contiguous_prefix s + delta" and "contiguous_prefix s \<le> contiguous_prefix s'"
proof -
  let ?p = "contiguous_prefix s" and ?stop = "offset + sz"
  have stop: "unat ?stop = unat offset + unat sz"
    by (rule unat_u64_add_noov [OF nov])
  have iv: "{unat offset ..< unat offset + unat sz} = interval offset ?stop"
    by (simp add: interval_def stop)
  have ok: "omap_ok (pending_ranges s)" using inv by (simp add: range_inv_def)
  define q where "q = (if offset \<le> ?p then (max ?p ?stop, pending_ranges s)
    else (?p, emplace_range offset ?stop (pending_ranges s)))"
  have q_ok: "omap_ok (snd q)" using ok by (simp add: q_def)
  have q_ge: "?p \<le> fst q" by (simp add: q_def)
  have q_cov: "{0 ..< unat (fst q)} \<union> ranges_set (snd q) = covered s \<union> interval offset ?stop"
    using extend_prefix [of offset ?p ?stop] emplace_covered [OF ok, of offset ?stop]
    by (cases "offset \<le> ?p") (auto simp: q_def covered_def)
  have a_ge: "p0 \<le> fst (absorb_ranges p0 rs)" for p0 rs
    by (induction p0 rs rule: absorb_ranges.induct) auto
  have res: "(delta, s') = (if sz = 0 \<or> ?stop \<le> ?p then (0, s) else
      (fst (absorb_ranges (fst q) (snd q)) - ?p,
       \<lparr>contiguous_prefix = fst (absorb_ranges (fst q) (snd q)),
        pending_ranges = snd (absorb_ranges (fst q) (snd q))\<rparr>))"
    using r by (simp add: record_written_range_def q_def Let_def case_prod_beta split: if_splits)
  have skip: "sz = 0 \<or> ?stop \<le> ?p \<Longrightarrow> interval offset ?stop \<subseteq> covered s"
    by (auto simp: covered_def interval_def word_le_nat_alt)
  have ge: "?p \<le> fst (absorb_ranges (fst q) (snd q))"
    using q_ge a_ge order_trans by blast
  show "range_inv s'"
    using res inv absorb_inv [OF q_ok, of "fst q"] by (auto simp: range_inv_def split: if_splits)
  show "covered s' = covered s \<union> {unat offset ..< unat offset + unat sz}"
    unfolding iv using res skip absorb_covered [of "fst q" "snd q"] q_cov
    by (cases "sz = 0 \<or> ?stop \<le> ?p") (simp_all add: covered_def Un_absorb2)
  show "contiguous_prefix s' = ?p + delta" "?p \<le> contiguous_prefix s'"
    using res ge by (auto split: if_splits)
qed

text \<open>The prefix is the first position that is not covered.\<close>

lemma prefix_least:
  assumes "range_inv s"
  shows "unat (contiguous_prefix s) \<notin> covered s" and "{0 ..< unat (contiguous_prefix s)} \<subseteq> covered s"
  using assms by (auto simp: covered_def ranges_set_def interval_def range_inv_def word_less_nat_alt)

lemma prefix_is_Least:
  assumes "range_inv s"
  shows "unat (contiguous_prefix s) = (LEAST n. n \<notin> covered s)"
proof (rule Least_equality [symmetric])
  show "unat (contiguous_prefix s) \<notin> covered s" by (rule prefix_least [OF assms])
  fix n assume "n \<notin> covered s"
  then show "unat (contiguous_prefix s) \<le> n"
    using prefix_least(2) [OF assms] by (force simp: not_less [symmetric])
qed

section \<open>The session\<close>

record mux_config =
  mc_current_relative :: string
  mc_declared_size :: u64
  mc_resume_offset :: u64
  mc_use_zstd :: bool

record mux_session =
  ms_file :: bytes
  ms_ranges :: range_state
  ms_written :: u64
  ms_reported :: u64 \<comment> \<open>what \<open>reporter_.file_advance\<close> has been given in total\<close>
  ms_ended :: "nat set" \<comment> \<open>channels whose reader has returned\<close>
  ms_failed :: bool
  ms_interrupted :: bool
  ms_error_text :: string

definition mux_start :: "mux_config \<Rightarrow> bytes \<Rightarrow> mux_session" where
  "mux_start c part_file =
     \<lparr>ms_file = part_file,
      ms_ranges = \<lparr>contiguous_prefix = mc_resume_offset c, pending_ranges = []\<rparr>,
      ms_written = mc_resume_offset c, ms_reported = 0, ms_ended = {}, ms_failed = False,
      ms_interrupted = False, ms_error_text = []\<rparr>"

text \<open>\<open>seekp\<close> and \<open>write\<close> on a file: a gap before the offset reads as zeros.\<close>

definition write_at :: "nat \<Rightarrow> bytes \<Rightarrow> bytes \<Rightarrow> bytes" where
  "write_at offset data f =
     (if data = [] then f
      else take offset f @ replicate (offset - length f) 0 @ data @ drop (offset + length data) f)"

text \<open>
  The checks of one frame: \<open>None\<close> ends the reader, \<open>Some (offset, plain)\<close> is a chunk to write.
  \<open>decompress\<close> is \<open>zstd_decompress_block\<close>.
\<close>

definition decode_mux_frame ::
    "(bytes \<Rightarrow> nat \<Rightarrow> bytes result) \<Rightarrow> mux_config \<Rightarrow> tagged_frame option \<Rightarrow> (u64 \<times> bytes) option result" where
  "decode_mux_frame decompress c frame =
     (case frame of
        None \<Rightarrow> Inl ''data channel closed early''
      | Some f \<Rightarrow>
          if tf_tag f = ChunkEnd then Inr None
          else if tf_tag f \<noteq> Data then Inl ''unexpected frame on data channel''
          else if length (tf_payload f) < 12 then Inl ''short data frame''
          else
            let offset = read_u64 (take 8 (tf_payload f));
                raw_len = read_u32 (take 4 (drop 8 (tf_payload f)));
                compressed = drop 12 (tf_payload f)
            in if kMuxChunk < unat raw_len
                 then Inl (''mux data chunk too large for '' @ mc_current_relative c)
               else if offset < mc_resume_offset c
                 then Inl (''mux data before resume offset for '' @ mc_current_relative c)
               else andthen (ensure_declared_space offset (mc_declared_size c) (ucast raw_len) (mc_current_relative c)) (\<lambda>_.
                 andthen
                   (if mc_use_zstd c then decompress compressed (unat raw_len)
                    else if length compressed \<noteq> unat raw_len then Inl ''uncompressed chunk size mismatch''
                    else Inr compressed) (\<lambda>plain.
                 if length plain \<noteq> unat raw_len then Inl ''mux decoded chunk size mismatch''
                 else andthen (ensure_declared_space offset (mc_declared_size c) (of_nat (length plain))
                        (mc_current_relative c)) (\<lambda>_. Inr (Some (offset, plain))))))"

definition record_failure :: "string \<Rightarrow> mux_session \<Rightarrow> mux_session" where
  "record_failure e s =
     s\<lparr>ms_failed := True, ms_interrupted := True,
       ms_error_text := (if ms_error_text s = [] then e else ms_error_text s)\<rparr>"

text \<open>
  The locked section: \<open>wrote\<close> is the number of bytes of the chunk that the stream accepted;
  fewer than the chunk has leaves the stream in a failed state.
\<close>

definition commit_chunk :: "u64 \<Rightarrow> bytes \<Rightarrow> nat \<Rightarrow> mux_session \<Rightarrow> unit result \<times> mux_session" where
  "commit_chunk offset plain wrote s =
     (let s1 = s\<lparr>ms_file := write_at (unat offset) (take wrote plain) (ms_file s)\<rparr> in
      if wrote < length plain then (Inl ''write failed during mux receive'', s1)
      else
        let (delta, ranges) = record_written_range offset (of_nat (length plain)) (ms_ranges s1)
        in (Inr (), s1\<lparr>ms_ranges := ranges, ms_written := ms_written s1 + of_nat (length plain),
                       ms_reported := ms_reported s1 + delta\<rparr>))"

text \<open>One turn of the loop of the reader of channel \<open>k\<close>: the frame (or error) it receives.\<close>

definition reader_turn ::
    "(bytes \<Rightarrow> nat \<Rightarrow> bytes result) \<Rightarrow> mux_config \<Rightarrow> nat \<times> tagged_frame option result \<times> nat \<Rightarrow> mux_session \<Rightarrow> mux_session" where
  "reader_turn decompress c event s =
     (case event of (k, received, wrote) \<Rightarrow>
        if k \<in> ms_ended s then s
        else case andthen received (decode_mux_frame decompress c) of
          Inl e \<Rightarrow> (record_failure e s)\<lparr>ms_ended := insert k (ms_ended s)\<rparr>
        | Inr None \<Rightarrow> s\<lparr>ms_ended := insert k (ms_ended s)\<rparr>
        | Inr (Some (offset, plain)) \<Rightarrow>
            (case commit_chunk offset plain wrote s of
               (Inl e, s1) \<Rightarrow> (record_failure e s1)\<lparr>ms_ended := insert k (ms_ended s)\<rparr>
             | (Inr _, s1) \<Rightarrow> s1))"

definition run_readers ::
    "(bytes \<Rightarrow> nat \<Rightarrow> bytes result) \<Rightarrow> mux_config \<Rightarrow> (nat \<times> tagged_frame option result \<times> nat) list \<Rightarrow>
     mux_session \<Rightarrow> mux_session" where
  "run_readers decompress c events s = fold (reader_turn decompress c) events s"

definition resize_file :: "nat \<Rightarrow> bytes \<Rightarrow> bytes" where
  "resize_file n f = take n f @ replicate (n - length f) 0"

text \<open>\<open>trim_error\<close>: the message of the error code of \<open>resize_file\<close>, if it fails.\<close>

definition truncate_partial :: "string option \<Rightarrow> mux_session \<Rightarrow> mux_session" where
  "truncate_partial trim_error s =
     (case trim_error of
        None \<Rightarrow> s\<lparr>ms_file := resize_file (unat (contiguous_prefix (ms_ranges s))) (ms_file s)\<rparr>
      | Some e \<Rightarrow> s\<lparr>ms_error_text := (if ms_error_text s = [] then [] else ms_error_text s @ ''; '')
                    @ ''failed to trim mux partial to resumable prefix: '' @ e\<rparr>)"

text \<open>\<open>receive()\<close>, after all readers have returned.\<close>

definition mux_receive_result :: "string option \<Rightarrow> mux_session \<Rightarrow> u64 result \<times> mux_session" where
  "mux_receive_result trim_error s =
     (if ms_failed s
      then let s1 = truncate_partial trim_error s in (Inl (''mux receive failed: '' @ ms_error_text s1), s1)
      else (Inr (ms_written s), s))"

section \<open>Correctness of the partial file\<close>

text \<open>Chunks that are parts of the file being sent.\<close>

definition honest :: "(bytes \<Rightarrow> nat \<Rightarrow> bytes result) \<Rightarrow> mux_config \<Rightarrow> bytes \<Rightarrow> nat \<times> tagged_frame option result \<times> nat \<Rightarrow> bool" where
  "honest decompress c src event \<longleftrightarrow>
     (\<forall>offset plain. andthen (fst (snd event)) (decode_mux_frame decompress c) = Inr (Some (offset, plain)) \<longrightarrow>
        plain = take (length plain) (drop (unat offset) src))"

definition session_inv :: "mux_config \<Rightarrow> bytes \<Rightarrow> mux_session \<Rightarrow> bool" where
  "session_inv c src s \<longleftrightarrow> range_inv (ms_ranges s) \<and> length (ms_file s) \<le> unat (mc_declared_size c) \<and>
     mc_resume_offset c \<le> contiguous_prefix (ms_ranges s) \<and>
     contiguous_prefix (ms_ranges s) = mc_resume_offset c + ms_reported s \<and>
     (\<forall>i \<in> covered (ms_ranges s). i < length (ms_file s) \<and> ms_file s ! i = src ! i)"

lemma write_at_length: "length (write_at off d f) = (if d = [] then length f else max (length f) (off + length d))"
  by (auto simp: write_at_def)

lemma write_at_nth:
  assumes "i < length (write_at off d f)"
  shows "write_at off d f ! i =
     (if off \<le> i \<and> i < off + length d then d ! (i - off) else if i < length f then f ! i else 0)"
  using assms by (auto simp: write_at_def nth_append min_def)

lemma decode_mux_SomeD:
  assumes "decode_mux_frame decompress c frame = Inr (Some (offset, plain))"
  shows "unat offset + length plain \<le> unat (mc_declared_size c)" "mc_resume_offset c \<le> offset"
proof -
  have 1: "ensure_declared_space offset (mc_declared_size c) (of_nat (length plain)) (mc_current_relative c) = Inr ()"
    and 2: "mc_resume_offset c \<le> offset" and 3: "length plain \<le> kMuxChunk"
    using assms by (auto simp: decode_mux_frame_def Let_def andthen_Inr_iff not_less split: option.splits if_splits)
  have "unat (of_nat (length plain) :: u64) = length plain"
    using 3 by (simp add: kMuxChunk_def)
  then show "unat offset + length plain \<le> unat (mc_declared_size c)"
    using 1 by (simp add: declared_space_iff)
  show "mc_resume_offset c \<le> offset" by (rule 2)
qed

lemma write_honest:
  fixes f f' src plain :: bytes and off n i :: nat
  assumes honest: "plain = take (length plain) (drop off src)"
    and f': "f' = write_at off (take n plain) f"
  shows "i < length f \<Longrightarrow> f ! i = src ! i \<Longrightarrow> i < length f' \<and> f' ! i = src ! i"
    and "length plain \<le> n \<Longrightarrow> off \<le> i \<Longrightarrow> i < off + length plain \<Longrightarrow> i < length f' \<and> f' ! i = src ! i"
proof -
  have nth: "plain ! j = src ! (off + j)" if "j < length plain" for j
  proof -
    have "length plain \<le> length src - off"
      using arg_cong [OF honest, of length] by simp
    then have "take (length plain) (drop off src) ! j = src ! (off + j)"
      using that by simp
    then show ?thesis using honest by simp
  qed
  show "i < length f \<Longrightarrow> f ! i = src ! i \<Longrightarrow> i < length f' \<and> f' ! i = src ! i"
    unfolding f' by (auto simp: write_at_nth write_at_length nth)
  show "length plain \<le> n \<Longrightarrow> off \<le> i \<Longrightarrow> i < off + length plain \<Longrightarrow> i < length f' \<and> f' ! i = src ! i"
    unfolding f' by (auto simp: write_at_nth write_at_length nth)
qed

lemma session_inv_failure:
  "session_inv c src s \<Longrightarrow> session_inv c src (record_failure e s\<lparr>ms_ended := k\<rparr>)"
  "session_inv c src s \<Longrightarrow> session_inv c src (s\<lparr>ms_ended := k\<rparr>)"
  by (auto simp: session_inv_def record_failure_def)

lemma commit_chunk_inv:
  assumes inv: "session_inv c src s" and honest: "plain = take (length plain) (drop (unat offset) src)"
    and bound: "unat offset + length plain \<le> unat (mc_declared_size c)"
    and r: "commit_chunk offset plain wrote s = (res, s')"
  shows "session_inv c src s'"
proof -
  let ?f = "write_at (unat offset) (take wrote plain) (ms_file s)"
  have nov: "unat offset + length plain < 2 ^ 64"
    using bound u64_less_bound [of "mc_declared_size c"] by simp
  then have n: "unat (of_nat (length plain) :: u64) = length plain" by simp
  have len: "length ?f \<le> unat (mc_declared_size c)"
    using inv bound by (auto simp: session_inv_def write_at_length)
  have keep: "\<forall>i \<in> covered (ms_ranges s). i < length ?f \<and> ?f ! i = src ! i"
    using inv write_honest(1) [OF honest refl] by (simp add: session_inv_def)
  show ?thesis
  proof (cases "wrote < length plain")
    case True
    then have "s' = s\<lparr>ms_file := ?f\<rparr>" using r by (simp add: commit_chunk_def Let_def)
    then show ?thesis using inv len keep by (auto simp: session_inv_def)
  next
    case False
    obtain delta rg where rr: "record_written_range offset (of_nat (length plain)) (ms_ranges s) = (delta, rg)"
      by (cases "record_written_range offset (of_nat (length plain)) (ms_ranges s)")
    have s': "s' = s\<lparr>ms_file := ?f, ms_ranges := rg, ms_written := ms_written s + of_nat (length plain),
        ms_reported := ms_reported s + delta\<rparr>"
      using r False rr by (simp add: commit_chunk_def Let_def)
    have ri: "range_inv (ms_ranges s)" using inv by (simp add: session_inv_def)
    have nov': "unat offset + unat (of_nat (length plain) :: u64) < 2 ^ 64" using nov n by simp
    note step = record_range_step [OF ri nov' rr]
    have "\<forall>i \<in> covered rg. i < length ?f \<and> ?f ! i = src ! i"
      unfolding step(2) n using keep write_honest(2) [OF honest refl, of wrote] False
      by (auto simp del: take_all)
    then show ?thesis
      using inv len step s' by (auto simp: session_inv_def add.assoc)
  qed
qed

lemma reader_turn_inv:
  assumes "session_inv c src s" and "honest decompress c src event"
  shows "session_inv c src (reader_turn decompress c event s)"
proof -
  obtain k rcv wrote where ev: "event = (k, rcv, wrote)" by (cases event)
  show ?thesis
  proof (cases "k \<in> ms_ended s")
    case True
    then show ?thesis using assms ev by (simp add: reader_turn_def)
  next
    case False
    show ?thesis
    proof (cases "andthen rcv (decode_mux_frame decompress c)")
      case (Inl e)
      then show ?thesis using assms ev False by (simp add: reader_turn_def session_inv_failure)
    next
      case (Inr r)
      show ?thesis
      proof (cases r)
        case None
        then show ?thesis using assms ev False Inr by (simp add: reader_turn_def session_inv_failure)
      next
        case (Some q)
        obtain offset plain where q: "q = (offset, plain)" by (cases q)
        obtain res s1 where c: "commit_chunk offset plain wrote s = (res, s1)"
          by (cases "commit_chunk offset plain wrote s")
        have "unat offset + length plain \<le> unat (mc_declared_size c)"
          using Inr Some q decode_mux_SomeD(1) by (auto simp: andthen_Inr_iff)
        moreover have "plain = take (length plain) (drop (unat offset) src)"
          using assms(2) Inr Some q ev by (simp add: honest_def)
        ultimately have "session_inv c src s1"
          using commit_chunk_inv [OF assms(1) _ _ c] by blast
        then show ?thesis
          using ev False Inr Some q c by (cases res) (simp_all add: reader_turn_def session_inv_failure)
      qed
    qed
  qed
qed

lemma run_readers_inv:
  assumes "session_inv c src s" and "\<forall>e \<in> set events. honest decompress c src e"
  shows "session_inv c src (run_readers decompress c events s)"
  unfolding run_readers_def
  using fold_invariant_list [of "session_inv c src" s events "reader_turn decompress c"] assms reader_turn_inv
  by blast

lemma mux_start_inv:
  assumes "mc_resume_offset c \<le> mc_declared_size c" and "length src = unat (mc_declared_size c)"
    and "part = take (unat (mc_resume_offset c)) src"
  shows "session_inv c src (mux_start c part)"
  using assms
  by (auto simp: session_inv_def mux_start_def range_inv_def covered_def ranges_set_def word_le_nat_alt)

lemma resize_to_prefix:
  assumes "session_inv c src s" "length src = unat (mc_declared_size c)"
  defines "p \<equiv> unat (contiguous_prefix (ms_ranges s))"
  shows "resize_file p (ms_file s) = take p src" and "p \<le> length src"
proof -
  have cov: "\<forall>i < p. i < length (ms_file s) \<and> ms_file s ! i = src ! i"
    using assms(1) by (simp add: session_inv_def covered_def p_def)
  then have "p \<le> length (ms_file s)"
    by (meson linorder_not_less order_less_irrefl)
  moreover show "p \<le> length src"
    using assms calculation by (auto simp: session_inv_def)
  ultimately show "resize_file p (ms_file s) = take p src"
    using cov by (intro nth_equalityI) (simp_all add: resize_file_def)
qed

text \<open>
  C1: when a parallel receive fails, for whatever reason and in whatever interleaving of the
  channels, the partial file left on disk is cut to a prefix of the source file, no shorter
  than what a previous attempt had left: resuming from it never keeps a wrong byte or a hole.
\<close>

theorem failed_receive_leaves_prefix:
  assumes "mc_resume_offset c \<le> mc_declared_size c" and "length src = unat (mc_declared_size c)"
    and "\<forall>e \<in> set events. honest decompress c src e"
    and "mux_receive_result None
      (run_readers decompress c events (mux_start c (take (unat (mc_resume_offset c)) src))) = (Inl err, s)"
  shows "\<exists>p. ms_file s = take p src \<and> unat (mc_resume_offset c) \<le> p \<and> p \<le> length src"
proof -
  let ?s = "run_readers decompress c events (mux_start c (take (unat (mc_resume_offset c)) src))"
  have inv: "session_inv c src ?s"
    using run_readers_inv [OF mux_start_inv [OF assms(1,2) refl] assms(3)] .
  let ?p = "unat (contiguous_prefix (ms_ranges ?s))"
  have "ms_file s = resize_file ?p (ms_file ?s)"
    using assms(4) by (auto simp: mux_receive_result_def truncate_partial_def Let_def split: if_splits)
  then have "ms_file s = take ?p src" "?p \<le> length src"
    using resize_to_prefix [OF inv assms(2)] by simp_all
  moreover have "unat (mc_resume_offset c) \<le> ?p"
    using inv unfolding session_inv_def word_le_nat_alt by blast
  ultimately show ?thesis by blast
qed

lemma reader_turn_error:
  "k \<notin> ms_ended s \<Longrightarrow> reader_turn decompress c (k, Inl e, w) s = (record_failure e s)\<lparr>ms_ended := insert k (ms_ended s)\<rparr>"
  by (simp add: reader_turn_def)

lemma commit_chunk_ended: "ms_ended (snd (commit_chunk offset plain w s)) = ms_ended s"
  by (simp add: commit_chunk_def Let_def case_prod_beta)

lemma reader_turn_chunk:
  assumes "k \<notin> ms_ended s" and "andthen rcv (decode_mux_frame decompress c) = Inr (Some (offset, plain))"
    and "length plain \<le> w"
  shows "reader_turn decompress c (k, rcv, w) s = snd (commit_chunk offset plain w s)"
  using assms by (auto simp: reader_turn_def commit_chunk_def Let_def case_prod_beta)

definition mux_example :: mux_config where
  "mux_example = \<lparr>mc_current_relative = ''a.bin'', mc_declared_size = 4, mc_resume_offset = 1, mc_use_zstd = False\<rparr>"

definition mux_example_frame :: "u64 \<Rightarrow> bytes \<Rightarrow> tagged_frame option result" where
  "mux_example_frame offset plain =
     Inr (Some \<lparr>tf_tag = Data, tf_payload = put_u64 offset @ put_u32 (of_nat (length plain)) @ plain\<rparr>)"

lemma mux_example_simps:
  "mc_resume_offset mux_example = 1" "mc_declared_size mux_example = 4"
  by (simp_all add: mux_example_def)

lemma mux_example_frame_decoded:
  assumes "length plain < 5" "mc_resume_offset c \<le> offset" "\<not> mc_use_zstd c"
    and "unat offset + length plain \<le> unat (mc_declared_size c)"
  shows "andthen (mux_example_frame offset plain) (decode_mux_frame decompress c) = Inr (Some (offset, plain))"
proof -
  have "unat (of_nat (length plain) :: u32) = length plain" "unat (of_nat (length plain) :: u64) = length plain"
    using assms(1) by (simp_all add: unat_of_nat)
  then have "ucast (of_nat (length plain) :: u32) = (of_nat (length plain) :: u64)"
    using assms(1) by (simp only: word_unat_eq_iff unsigned_ucast_eq) (simp add: take_bit_nat_eq_self)
  note len = \<open>unat (of_nat (length plain) :: u32) = length plain\<close> \<open>unat (of_nat (length plain) :: u64) = length plain\<close> this
  have "ucast (of_nat (length plain) :: u32) = (of_nat (length plain) :: u64)" by (rule len(3))
  moreover have "ensure_declared_space offset (mc_declared_size c) (of_nat (length plain)) (mc_current_relative c) = Inr ()"
    using assms(4) len by (simp add: declared_space_iff)
  ultimately show ?thesis
    using assms len by (simp add: mux_example_frame_def decode_mux_frame_def kMuxChunk_def Let_def not_less)
qed

theorem failed_receive_leaves_prefix_witness:
  "\<exists>p. ms_file (snd (mux_receive_result None
       (run_readers (\<lambda>b n. Inr b) mux_example
         [(0, mux_example_frame 3 [40], 1), (1, mux_example_frame 1 [20], 1), (0, Inl ''recv failed: reset'', 0)]
         (mux_start mux_example (take 1 [10, 20, 30, 40]))))) = take p [10, 20, 30, 40] \<and> 1 \<le> p"
proof -
  let ?ev = "[(0, mux_example_frame 3 [40], 1), (1, mux_example_frame 1 [20], 1), (0, Inl ''recv failed: reset'', 0)]"
  let ?s = "run_readers (\<lambda>b n. Inr b) mux_example ?ev (mux_start mux_example (take 1 [10, 20, 30, 40]))"
  have d: "andthen (mux_example_frame 3 [40]) (decode_mux_frame (\<lambda>b n. Inr b) mux_example) = Inr (Some (3, [40]))"
    "andthen (mux_example_frame 1 [20]) (decode_mux_frame (\<lambda>b n. Inr b) mux_example) = Inr (Some (1, [20]))"
    by (rule mux_example_frame_decoded; simp add: mux_example_def)+
  have "ms_failed ?s"
    unfolding run_readers_def
    by (simp add: reader_turn_chunk [OF _ d(1)] reader_turn_chunk [OF _ d(2)] reader_turn_error commit_chunk_ended
        record_failure_def mux_start_def)
  then have r: "mux_receive_result None ?s =
      (Inl (''mux receive failed: '' @ ms_error_text (truncate_partial None ?s)), truncate_partial None ?s)"
    by (simp add: mux_receive_result_def Let_def)
  have "\<exists>p. ms_file (truncate_partial None ?s) = take p [10, 20, 30, 40] \<and>
      unat (mc_resume_offset mux_example) \<le> p \<and> p \<le> length [10, 20, 30, 40 :: u8]"
    by (rule failed_receive_leaves_prefix [where events = ?ev and c = mux_example and decompress = "\<lambda>b n. Inr b",
          OF _ _ _ ]) (use r d in \<open>simp_all add: mux_example_def honest_def\<close>)
  then show ?thesis unfolding r by (auto simp: mux_example_def)
qed

definition written_positions :: "(u64 \<times> u64) list \<Rightarrow> nat set" where
  "written_positions chunks = (\<Union>(o', n) \<in> set chunks. {unat o' ..< unat o' + unat n})"

lemma record_all_covered:
  assumes "range_inv s" and "\<forall>(o', n) \<in> set chunks. unat o' + unat n < 2 ^ 64"
  shows "range_inv (fold (\<lambda>(o', n) s. snd (record_written_range o' n s)) chunks s) \<and>
    covered (fold (\<lambda>(o', n) s. snd (record_written_range o' n s)) chunks s) = covered s \<union> written_positions chunks"
  using assms
proof (induction chunks arbitrary: s)
  case (Cons c chunks)
  obtain o' n where c: "c = (o', n)" by (cases c)
  obtain d s1 where r: "record_written_range o' n s = (d, s1)" by fastforce
  have "unat o' + unat n < 2 ^ 64" using Cons.prems c by simp
  note st = record_range_step [OF Cons.prems(1) this r]
  show ?case
    using Cons.IH [OF st(1)] Cons.prems(2) st(2) r c by (auto simp: written_positions_def)
qed (simp add: written_positions_def)

definition record_all :: "(u64 \<times> u64) list \<Rightarrow> range_state \<Rightarrow> range_state" where
  "record_all chunks s = fold (\<lambda>(o', n) s. snd (record_written_range o' n s)) chunks s"

text \<open>
  whatever the order, overlap or duplication of the chunks that have been written, the
  recorded prefix is exactly the first position of the file that is still missing.
\<close>

theorem prefix_is_first_hole:
  assumes "\<forall>(o', n) \<in> set chunks. unat o' + unat n < 2 ^ 64"
  shows "unat (contiguous_prefix (record_all chunks \<lparr>contiguous_prefix = resumed, pending_ranges = []\<rparr>)) =
     (LEAST i. i \<notin> {0 ..< unat resumed} \<union> written_positions chunks)"
proof -
  let ?s = "\<lparr>contiguous_prefix = resumed, pending_ranges = []\<rparr>"
  have "range_inv ?s" "covered ?s = {0 ..< unat resumed}"
    by (simp_all add: range_inv_def covered_def)
  then show ?thesis
    using record_all_covered [of ?s chunks] assms prefix_is_Least by (simp add: record_all_def)
qed

theorem prefix_is_first_hole_witness:
  "unat (contiguous_prefix (record_all [(5, 2), (2, 3), (5, 1)] \<lparr>contiguous_prefix = 2, pending_ranges = []\<rparr>)) =
     (LEAST i. i \<notin> {0 ..< unat (2 :: u64)} \<union> written_positions [(5, 2), (2, 3), (5, 1)])"
  by (rule prefix_is_first_hole) simp

lemma session_inv_complete:
  assumes "session_inv c src s" "length src = unat (mc_declared_size c)"
    and "contiguous_prefix (ms_ranges s) = mc_declared_size c"
  shows "ms_file s = src \<and> ms_reported s = mc_declared_size c - mc_resume_offset c"
proof
  show "ms_reported s = mc_declared_size c - mc_resume_offset c"
    using assms(1,3) by (auto simp: session_inv_def)
  have "\<forall>i < length src. i < length (ms_file s) \<and> ms_file s ! i = src ! i"
    and "length (ms_file s) \<le> length src"
    using assms by (auto simp: session_inv_def covered_def)
  then show "ms_file s = src"
    by (metis le_antisym linorder_not_le nth_equalityI order_less_irrefl)
qed

text \<open>
  when a parallel receive ends without an error and no hole is left, the file on disk is
  the source file; and the progress reported is then exactly what was not resumed.
\<close>

theorem complete_receive_is_source:
  assumes "mc_resume_offset c \<le> mc_declared_size c" and "length src = unat (mc_declared_size c)"
    and "\<forall>e \<in> set events. honest decompress c src e"
    and "mux_receive_result trim_err
      (run_readers decompress c events (mux_start c (take (unat (mc_resume_offset c)) src))) = (Inr n, s)"
    and "contiguous_prefix (ms_ranges s) = mc_declared_size c"
  shows "ms_file s = src \<and> ms_reported s = mc_declared_size c - mc_resume_offset c"
proof -
  have "session_inv c src s"
    using run_readers_inv [OF mux_start_inv [OF assms(1,2) refl] assms(3)] assms(4)
    by (auto simp: mux_receive_result_def Let_def split: if_splits)
  then show ?thesis using session_inv_complete [OF _ assms(2,5)] by blast
qed

theorem complete_receive_is_source_witness:
  "ms_file (run_readers (\<lambda>b n. Inr b) mux_example
       [(0, mux_example_frame 3 [40], 1), (1, mux_example_frame 1 [20, 30], 2)]
       (mux_start mux_example [10])) = [10, 20, 30, 40]"
proof -
  let ?ev = "[(0, mux_example_frame 3 [40], 1), (1, mux_example_frame 1 [20, 30], 2)]"
  let ?s = "run_readers (\<lambda>b n. Inr b) mux_example ?ev
    (mux_start mux_example (take (unat (mc_resume_offset mux_example)) [10, 20, 30, 40]))"
  have d: "andthen (mux_example_frame 3 [40]) (decode_mux_frame (\<lambda>b n. Inr b) mux_example) = Inr (Some (3, [40]))"
    "andthen (mux_example_frame 1 [20, 30]) (decode_mux_frame (\<lambda>b n. Inr b) mux_example) = Inr (Some (1, [20, 30]))"
    by (rule mux_example_frame_decoded; simp add: mux_example_def)+
  have s: "mux_receive_result None ?s = (Inr (ms_written ?s), ?s)" "contiguous_prefix (ms_ranges ?s) = mc_declared_size mux_example"
    unfolding run_readers_def
    by (simp_all add: reader_turn_chunk [OF _ d(1)] reader_turn_chunk [OF _ d(2)] commit_chunk_def mux_start_def
        mux_receive_result_def record_written_range_def emplace_range_def mux_example_simps Let_def
        word_le_nat_alt word_less_nat_alt)
  have "ms_file ?s = [10, 20, 30, 40] \<and> ms_reported ?s = mc_declared_size mux_example - mc_resume_offset mux_example"
    by (rule complete_receive_is_source [where events = ?ev and c = mux_example, OF _ _ _ s(1) s(2)])
      (use d in \<open>simp_all add: mux_example_def honest_def\<close>)
  then show ?thesis by (simp add: mux_example_def)
qed

end
