(* ===== verification/Progress.thy ===== *)
theory Progress
  imports Text_Util
begin

text \<open>
  \<open>src/core/progress.hpp\<close>, \<open>src/core/progress.cpp\<close>: the events that the transfer core
  emits, their one-line texts and the command-line reporter, whose output is the text it
  prints. A C++ \<open>int\<close> that is only compared and printed is an \<open>int\<close>.
\<close>

section \<open>Events\<close>

datatype route_phase = Rendezvous | RelayStandby | DirectProbing | RelayCommitted | Securing

record route_phase_detail =
  rd_message :: string
  rd_reason :: string
  rd_relay_fallback_ready :: bool

record route_outcome =
  ro_control_path :: string
  ro_data_path :: string
  ro_reason :: string
  ro_direct_attempted :: bool
  ro_lan_upgrade :: bool
  ro_direct_candidate_kind :: string
  ro_direct_candidate_endpoint :: string
  ro_direct_candidate_family :: string
  ro_direct_candidate_scope :: string
  ro_direct_candidate_priority :: int
  ro_direct_elapsed_ms :: int
  ro_direct_failure_summary :: string

record route_timing =
  rt_rendezvous_ms :: int
  rt_direct_probe_ms :: int
  rt_relay_commit_ms :: int
  rt_securing_ms :: int

record transfer_timing =
  tt_mode :: string
  tt_payload_bytes :: u64
  tt_frame_count :: u64
  tt_send_frame_ms :: int
  tt_max_send_frame_ms :: int
  tt_disk_read_ms :: int
  tt_disk_write_ms :: int
  tt_compress_ms :: int
  tt_decompress_ms :: int
  tt_hash_ms :: int
  tt_mux_max_pending_bytes :: u64
  tt_mux_backpressure_wait_ms :: int
  tt_mux_backpressure_wait_count :: u64
  tt_mux_channels :: nat

record receive_plan_summary =
  ps_item_count :: nat
  ps_total_bytes :: u64
  ps_resume_bytes :: u64
  ps_skip_bytes :: u64
  ps_skip_count :: nat
  ps_rename_count :: nat
  ps_overwrite_count :: nat
  ps_resume_count :: nat

datatype progress_event =
    Status string
  | ConnectivityReport string
  | RoutePhaseEvent route_phase route_phase_detail
  | RouteOutcomeEvent route_outcome
  | RouteTimingEvent route_timing
  | TransferTimingEvent transfer_timing
  | HandshakeOk
  | CodeReady string bool
  | TransferOverview nat u64
  | ReceivePlanEvent receive_plan_summary
  | FileStart string u64
  | FileAdvance u64
  | FileResume string u64 u64
  | FileComplete string u64 bool
  | TransferComplete nat u64
  | TransferRetry int int string
  | TransferRetryDelay int int int

section \<open>Texts\<close>

text \<open>\<open>std::to_string\<close>\<close>

definition int_text :: "int \<Rightarrow> string" where
  "int_text i = (if i < 0 then CHR ''-'' # to_dec (nat (- i)) else to_dec (nat i))"

definition word_text :: "u64 \<Rightarrow> string" where
  "word_text w = to_dec (unat w)"

text \<open>\<open>if (cond) line += text\<close>\<close>

definition add_if :: "bool \<Rightarrow> string \<Rightarrow> string \<Rightarrow> string" where
  "add_if b t line = (if b then line @ t else line)"

definition route_phase_name :: "route_phase \<Rightarrow> string" where
  "route_phase_name p = (case p of Rendezvous \<Rightarrow> ''rendezvous'' | RelayStandby \<Rightarrow> ''relay_standby''
     | DirectProbing \<Rightarrow> ''direct_probing'' | RelayCommitted \<Rightarrow> ''relay_committed'' | Securing \<Rightarrow> ''securing'')"

definition route_phase_summary :: "route_phase \<Rightarrow> route_phase_detail \<Rightarrow> string" where
  "route_phase_summary p d =
     (let line = ''route phase: '' @ route_phase_name p;
          line = add_if (rd_reason d \<noteq> []) ('' reason='' @ rd_reason d) line;
          line = add_if (rd_relay_fallback_ready d) '' relay_fallback=ready'' line
      in add_if (rd_message d \<noteq> []) ('' message='' @ rd_message d) line)"

definition true_false :: "bool \<Rightarrow> string" where
  "true_false b = (if b then ''true'' else ''false'')"

definition route_outcome_summary :: "route_outcome \<Rightarrow> string" where
  "route_outcome_summary o' =
     (let line = ''route summary: control='' @ ro_control_path o' @ '' data='' @ ro_data_path o';
          line = add_if (ro_reason o' \<noteq> []) ('' reason='' @ ro_reason o') line;
          line = line @ '' direct_attempted='' @ true_false (ro_direct_attempted o');
          line = (if ro_data_path o' = ''direct'' \<and> ro_direct_candidate_kind o' \<noteq> [] then
              (let l = line @ '' candidate='' @ ro_direct_candidate_kind o';
                   l = add_if (0 \<le> ro_direct_candidate_priority o') (''#'' @ int_text (ro_direct_candidate_priority o')) l;
                   l = add_if (ro_direct_candidate_endpoint o' \<noteq> []) ('' endpoint='' @ ro_direct_candidate_endpoint o') l;
                   l = add_if (ro_direct_candidate_family o' \<noteq> []) ('' family='' @ ro_direct_candidate_family o') l;
                   l = add_if (ro_direct_candidate_scope o' \<noteq> []) ('' scope='' @ ro_direct_candidate_scope o') l
               in add_if (0 \<le> ro_direct_elapsed_ms o') ('' elapsed='' @ int_text (ro_direct_elapsed_ms o') @ ''ms'') l)
            else line);
          line = (if ro_data_path o' = ''relay'' \<and> \<not> ro_direct_attempted o' then line @ '' direct=not_attempted''
            else if ro_data_path o' = ''relay'' \<and> ro_direct_failure_summary o' \<noteq> []
              then line @ '' direct_failure='' @ ro_direct_failure_summary o'
            else line)
      in add_if (ro_data_path o' = ''relay'') ('' lan_upgrade='' @ true_false (ro_lan_upgrade o')) line)"

definition append_timing_field :: "string \<Rightarrow> int \<Rightarrow> string \<Rightarrow> string" where
  "append_timing_field name ms line = add_if (0 \<le> ms) ('' '' @ name @ ''_ms='' @ int_text ms) line"

definition route_timing_summary :: "route_timing \<Rightarrow> string" where
  "route_timing_summary t =
     (append_timing_field ''securing'' (rt_securing_ms t) \<circ>
      append_timing_field ''relay_commit'' (rt_relay_commit_ms t) \<circ>
      append_timing_field ''direct_probe'' (rt_direct_probe_ms t) \<circ>
      append_timing_field ''rendezvous'' (rt_rendezvous_ms t)) ''route timing:''"

definition append_counter_field :: "string \<Rightarrow> u64 \<Rightarrow> string \<Rightarrow> string" where
  "append_counter_field name v line = add_if (0 < v) ('' '' @ name @ ''='' @ word_text v) line"

definition append_duration_field :: "string \<Rightarrow> int \<Rightarrow> string \<Rightarrow> string" where
  "append_duration_field name ms line = add_if (0 < ms) ('' '' @ name @ ''_ms='' @ int_text ms) line"

definition transfer_timing_summary :: "transfer_timing \<Rightarrow> string" where
  "transfer_timing_summary t =
     (add_if (0 < tt_mux_channels t) ('' mux_channels='' @ to_dec (tt_mux_channels t)) \<circ>
      append_counter_field ''mux_backpressure_waits'' (tt_mux_backpressure_wait_count t) \<circ>
      append_duration_field ''mux_backpressure_wait'' (tt_mux_backpressure_wait_ms t) \<circ>
      append_counter_field ''mux_max_pending_bytes'' (tt_mux_max_pending_bytes t) \<circ>
      append_duration_field ''hash'' (tt_hash_ms t) \<circ>
      append_duration_field ''decompress'' (tt_decompress_ms t) \<circ>
      append_duration_field ''compress'' (tt_compress_ms t) \<circ>
      append_duration_field ''disk_write'' (tt_disk_write_ms t) \<circ>
      append_duration_field ''disk_read'' (tt_disk_read_ms t) \<circ>
      add_if (0 < tt_max_send_frame_ms t) ('' max_send_frame_ms='' @ int_text (tt_max_send_frame_ms t)) \<circ>
      append_duration_field ''send_frame'' (tt_send_frame_ms t) \<circ>
      append_counter_field ''frames'' (tt_frame_count t) \<circ>
      append_counter_field ''bytes'' (tt_payload_bytes t) \<circ>
      add_if (tt_mode t \<noteq> []) ('' mode='' @ tt_mode t)) ''transfer timing:''"

definition format_receive_plan_summary :: "receive_plan_summary \<Rightarrow> string" where
  "format_receive_plan_summary s =
     (add_if (0 < ps_skip_bytes s) ('', skipped-bytes='' @ word_text (ps_skip_bytes s)) \<circ>
      add_if (0 < ps_resume_count s)
        ('', resume='' @ to_dec (ps_resume_count s) @ '' ('' @ word_text (ps_resume_bytes s) @ '' bytes)'') \<circ>
      add_if (0 < ps_overwrite_count s) ('', overwrite='' @ to_dec (ps_overwrite_count s)) \<circ>
      add_if (0 < ps_rename_count s) ('', rename='' @ to_dec (ps_rename_count s)) \<circ>
      add_if (0 < ps_skip_count s) ('', skip='' @ to_dec (ps_skip_count s)))
     (''receive plan: '' @ to_dec (ps_item_count s) @ '' item(s), '' @ word_text (ps_total_bytes s) @ '' bytes'')"

definition format_transfer_retry_summary :: "int \<Rightarrow> int \<Rightarrow> string \<Rightarrow> string" where
  "format_transfer_retry_summary next_attempt max_attempts reason =
     ''connection lost, retrying '' @ int_text next_attempt @ ''/'' @ int_text max_attempts @
     ''; resume will continue verified partial files; reason: '' @ reason"

definition format_transfer_retry_delay_summary :: "int \<Rightarrow> int \<Rightarrow> int \<Rightarrow> string" where
  "format_transfer_retry_delay_summary next_attempt max_attempts delay =
     ''reconnect in '' @ int_text delay @ ''ms before attempt '' @ int_text next_attempt @ ''/'' @ int_text max_attempts"

section \<open>The command-line reporter\<close>

text \<open>
  \<open>CliReporter\<close> with the defaults it inherits: the text printed by one event, and the route
  it remembers. \<open>qrcode\<close> is what \<open>print_qrcode\<close> prints; \<open>tty\<close> is \<open>stdin_is_tty()\<close>.
\<close>

definition nl :: string where "nl = [CHR 0x0A]"

fun cli_report :: "(string \<Rightarrow> string) \<Rightarrow> bool \<Rightarrow> progress_event \<Rightarrow> route_outcome option \<Rightarrow> string \<times> route_outcome option" where
  "cli_report qrcode tty (Status m) shown = (m @ nl, shown)"
| "cli_report qrcode tty (ConnectivityReport r) shown = (''punch report:'' @ nl @ r, shown)"
| "cli_report qrcode tty (RoutePhaseEvent p d) shown = (route_phase_summary p d @ nl, shown)"
| "cli_report qrcode tty (RouteOutcomeEvent r) shown = (route_outcome_summary r @ nl, Some r)"
| "cli_report qrcode tty (RouteTimingEvent t) shown = (route_timing_summary t @ nl, shown)"
| "cli_report qrcode tty (TransferTimingEvent t) shown = (transfer_timing_summary t @ nl, shown)"
| "cli_report qrcode tty HandshakeOk shown = (''pake handshake ok'' @ nl, shown)"
| "cli_report qrcode tty (CodeReady c show_qrcode) shown =
     (''code: '' @ c @ nl @ (if show_qrcode \<and> tty then qrcode c else []), shown)"
| "cli_report qrcode tty (TransferOverview n b) shown =
     (''incoming '' @ to_dec n @ '' file(s), '' @ word_text b @ '' bytes'' @ nl, shown)"
| "cli_report qrcode tty (ReceivePlanEvent s) shown = (format_receive_plan_summary s @ nl, shown)"
| "cli_report qrcode tty (FileStart p b) shown = (''-> '' @ p @ '' ('' @ word_text b @ '' bytes)'' @ nl, shown)"
| "cli_report qrcode tty (FileAdvance d) shown = ([], shown)"
| "cli_report qrcode tty (FileResume p o' b) shown =
     (''resuming '' @ p @ '' from '' @ word_text o' @ ''/'' @ word_text b @ '' bytes'' @ nl, shown)"
| "cli_report qrcode tty (FileComplete p b verified) shown =
     ((if verified then ''received '' @ p @ '' ('' @ word_text b @ '' bytes, sha256 ok)''
       else ''sent '' @ p @ '' ('' @ word_text b @ '' bytes)'') @ nl, shown)"
| "cli_report qrcode tty (TransferComplete n b) shown =
     (''transfer complete: '' @ to_dec n @ '' file(s), '' @ word_text b @ '' bytes'' @ nl @
      (case shown of None \<Rightarrow> [] | Some r \<Rightarrow> route_outcome_summary r @ nl), shown)"
| "cli_report qrcode tty (TransferRetry k n reason) shown = (format_transfer_retry_summary k n reason @ nl, shown)"
| "cli_report qrcode tty (TransferRetryDelay k n delay) shown =
     ((if delay \<le> 0 then [] else format_transfer_retry_delay_summary k n delay @ nl), shown)"

end
