(* ===== verification/Progress_State.thy ===== *)
theory Progress_State
  imports Progress
begin

text \<open>
  \<open>src/core/progress_state.hpp\<close>, \<open>src/core/progress_state.cpp\<close>: the state that the terminal
  and web front-ends show, one operation per event, and the reporter that applies the events.
  \<open>now\<close> is what the steady clock gives; byte counters wrap as \<open>uint64_t\<close> does.
\<close>

record transfer_progress =
  tp_activity :: string
  tp_code :: string
  tp_current_file :: string
  tp_current_done :: u64
  tp_current_size :: u64
  tp_overall_done :: u64
  tp_overall_total :: u64
  tp_files_done :: nat
  tp_files_total :: nat
  tp_route_phase :: string
  tp_route_summary :: string
  tp_route_timing :: string
  tp_receive_plan :: receive_plan_summary
  tp_has_receive_plan :: bool
  tp_handshake :: bool
  tp_finished :: bool
  tp_failed :: bool
  tp_canceled :: bool
  tp_error :: string
  tp_logs :: "string list"
  tp_started :: int
  tp_ended :: "int option"

definition empty_plan_summary :: receive_plan_summary where
  "empty_plan_summary = \<lparr>ps_item_count = 0, ps_total_bytes = 0, ps_resume_bytes = 0, ps_skip_bytes = 0,
     ps_skip_count = 0, ps_rename_count = 0, ps_overwrite_count = 0, ps_resume_count = 0\<rparr>"

section \<open>Labels\<close>

definition format_route_phase_label :: "route_phase \<Rightarrow> route_phase_detail \<Rightarrow> string" where
  "format_route_phase_label p d =
     (case p of
        Rendezvous \<Rightarrow> ''rendezvous''
      | RelayStandby \<Rightarrow> ''relay fallback ready''
      | DirectProbing \<Rightarrow> (if rd_relay_fallback_ready d then ''direct connect (relay ready)'' else ''direct connect'')
      | RelayCommitted \<Rightarrow> ''relay selected''
      | Securing \<Rightarrow> ''securing'')"

definition format_route_outcome_label :: "route_outcome \<Rightarrow> string" where
  "format_route_outcome_label r =
     (let label = ''control='' @ ro_control_path r @ '' data='' @ ro_data_path r;
          label = add_if (ro_reason r \<noteq> []) ('' ('' @ ro_reason r @ '')'') label
      in if ro_data_path r = ''direct'' \<and> ro_direct_candidate_kind r \<noteq> [] then
           (let l = label @ '' via '' @ ro_direct_candidate_kind r;
                l = add_if (ro_direct_candidate_endpoint r \<noteq> []) ('' '' @ ro_direct_candidate_endpoint r) l;
                l = add_if (ro_direct_candidate_family r \<noteq> [] \<and> ro_direct_candidate_scope r \<noteq> [])
                      ('' '' @ ro_direct_candidate_family r @ ''/'' @ ro_direct_candidate_scope r) l
            in add_if (0 \<le> ro_direct_elapsed_ms r) ('' '' @ int_text (ro_direct_elapsed_ms r) @ ''ms'') l)
         else if ro_data_path r = ''relay'' \<and> \<not> ro_direct_attempted r then label @ '' direct=not_attempted''
         else if ro_data_path r = ''relay'' \<and> ro_direct_failure_summary r \<noteq> []
           then label @ '' direct='' @ ro_direct_failure_summary r
         else label)"

definition append_timing_label :: "string \<Rightarrow> int \<Rightarrow> string \<Rightarrow> string" where
  "append_timing_label name ms line =
     (if ms < 0 then line else add_if (line \<noteq> []) '' '' line @ name @ ''='' @ int_text ms @ ''ms'')"

definition format_route_timing_label :: "route_timing \<Rightarrow> string" where
  "format_route_timing_label t =
     (append_timing_label ''securing'' (rt_securing_ms t) \<circ>
      append_timing_label ''relay_commit'' (rt_relay_commit_ms t) \<circ>
      append_timing_label ''direct_probe'' (rt_direct_probe_ms t) \<circ>
      append_timing_label ''rendezvous'' (rt_rendezvous_ms t)) []"

section \<open>The log\<close>

text \<open>\<open>std::getline\<close> until the end of the text.\<close>

function getlines :: "string \<Rightarrow> string list" where
  "getlines s =
     (if s = [] then []
      else case cut (CHR 0x0A) s of
        (l, None) \<Rightarrow> [l]
      | (l, Some r) \<Rightarrow> l # getlines r)"
  by pat_completeness auto
termination
  by (relation "measure length") (auto dest: cut_shorter)

declare getlines.simps [simp del]

text \<open>\<open>max_log_lines\<close> is fixed when the state is made; zero is no limit.\<close>

definition append_log :: "nat \<Rightarrow> string \<Rightarrow> transfer_progress \<Rightarrow> transfer_progress" where
  "append_log max_log_lines text s =
     (let logs = tp_logs s @ filter (\<lambda>l. l \<noteq> []) (getlines text) in
      s\<lparr>tp_logs := (if 0 < max_log_lines \<and> max_log_lines < length logs
                     then drop (length logs - max_log_lines) logs else logs)\<rparr>)"

definition joined_logs :: "transfer_progress \<Rightarrow> string" where
  "joined_logs s = foldl (\<lambda>out line. (if out \<noteq> [] then out @ nl else out) @ line) [] (tp_logs s)"

section \<open>Operations\<close>

definition set_terminal_state :: "bool \<Rightarrow> bool \<Rightarrow> string \<Rightarrow> string \<Rightarrow> int \<Rightarrow> transfer_progress \<Rightarrow> transfer_progress" where
  "set_terminal_state failed canceled err activity now s =
     s\<lparr>tp_finished := True, tp_failed := failed, tp_canceled := canceled, tp_error := err,
       tp_activity := activity, tp_ended := Some now\<rparr>"

definition reset_transfer_attempt :: "transfer_progress \<Rightarrow> transfer_progress" where
  "reset_transfer_attempt s =
     s\<lparr>tp_current_file := [], tp_current_done := 0, tp_current_size := 0, tp_overall_done := 0,
       tp_files_done := 0, tp_handshake := False, tp_finished := False, tp_failed := False,
       tp_canceled := False, tp_error := [], tp_ended := None\<rparr>"

definition reset_state :: "int \<Rightarrow> transfer_progress \<Rightarrow> transfer_progress" where
  "reset_state now s =
     (reset_transfer_attempt (s\<lparr>tp_activity := ''starting...'', tp_code := []\<rparr>))
       \<lparr>tp_overall_total := 0, tp_files_total := 0, tp_route_phase := [], tp_route_summary := [],
        tp_route_timing := [], tp_receive_plan := empty_plan_summary, tp_has_receive_plan := False,
        tp_logs := [], tp_started := now\<rparr>"

definition on_status :: "nat \<Rightarrow> string \<Rightarrow> transfer_progress \<Rightarrow> transfer_progress" where
  "on_status mx message s = (append_log mx message s)\<lparr>tp_activity := message\<rparr>"

definition on_connectivity_report :: "nat \<Rightarrow> string \<Rightarrow> transfer_progress \<Rightarrow> transfer_progress" where
  "on_connectivity_report mx report s = (append_log mx report s)\<lparr>tp_activity := ''connectivity probe finished''\<rparr>"

definition route_phase_changed :: "nat \<Rightarrow> route_phase \<Rightarrow> route_phase_detail \<Rightarrow> transfer_progress \<Rightarrow> transfer_progress" where
  "route_phase_changed mx p d s =
     (let label = format_route_phase_label p d;
          line = ''route phase: '' @ label;
          line = add_if (rd_reason d \<noteq> []) ('' ('' @ rd_reason d @ '')'') line;
          line = add_if (rd_relay_fallback_ready d) '' relay-ready'' line
      in append_log mx line
           (s\<lparr>tp_route_phase := label, tp_activity := (if rd_message d = [] then label else rd_message d)\<rparr>))"

definition route_selected :: "nat \<Rightarrow> route_outcome \<Rightarrow> transfer_progress \<Rightarrow> transfer_progress" where
  "route_selected mx r s =
     (let summary = format_route_outcome_label r;
          act = (if ro_data_path r = ''direct'' then ''direct TCP selected'' else ''relay TCP selected'')
      in append_log mx (''route outcome: '' @ summary)
           (s\<lparr>tp_route_summary := summary, tp_activity := act, tp_route_phase := act\<rparr>))"

definition route_timing_recorded :: "nat \<Rightarrow> route_timing \<Rightarrow> transfer_progress \<Rightarrow> transfer_progress" where
  "route_timing_recorded mx t s =
     (let summary = format_route_timing_label t in
      if summary = [] then s
      else append_log mx (''route timing: '' @ summary) (s\<lparr>tp_route_timing := summary\<rparr>))"

definition handshake_completed :: "nat \<Rightarrow> transfer_progress \<Rightarrow> transfer_progress" where
  "handshake_completed mx s =
     append_log mx ''handshake ok (PAKE + XChaCha20-Poly1305)''
       (s\<lparr>tp_handshake := True, tp_activity := ''encrypted channel ready''\<rparr>)"

definition transfer_overview_received :: "nat \<Rightarrow> u64 \<Rightarrow> transfer_progress \<Rightarrow> transfer_progress" where
  "transfer_overview_received file_count total_bytes s =
     s\<lparr>tp_files_total := file_count, tp_overall_total := total_bytes,
       tp_activity := ''transferring '' @ to_dec file_count @ '' file(s)''\<rparr>"

definition receive_plan_ready :: "nat \<Rightarrow> receive_plan_summary \<Rightarrow> transfer_progress \<Rightarrow> transfer_progress" where
  "receive_plan_ready mx summary s =
     append_log mx (format_receive_plan_summary summary)
       (s\<lparr>tp_receive_plan := summary, tp_has_receive_plan := True, tp_overall_total := ps_total_bytes summary,
          tp_activity := format_receive_plan_summary summary\<rparr>)"

definition file_started :: "string \<Rightarrow> u64 \<Rightarrow> transfer_progress \<Rightarrow> transfer_progress" where
  "file_started path sz s = s\<lparr>tp_current_file := path, tp_current_size := sz, tp_current_done := 0\<rparr>"

definition file_advanced :: "u64 \<Rightarrow> transfer_progress \<Rightarrow> bool \<times> transfer_progress" where
  "file_advanced delta s =
     (if tp_finished s \<or> tp_failed s \<or> tp_canceled s then (False, s)
      else (True, s\<lparr>tp_current_done := tp_current_done s + delta, tp_overall_done := tp_overall_done s + delta\<rparr>))"

definition file_resumed :: "nat \<Rightarrow> string \<Rightarrow> u64 \<Rightarrow> u64 \<Rightarrow> transfer_progress \<Rightarrow> transfer_progress" where
  "file_resumed mx path offset sz s =
     append_log mx (''resume: '' @ path @ '' from '' @ word_text offset @ ''/'' @ word_text sz @ '' bytes'')
       (s\<lparr>tp_activity := ''resuming '' @ path\<rparr>)"

definition file_completed :: "transfer_progress \<Rightarrow> transfer_progress" where
  "file_completed s = s\<lparr>tp_files_done := tp_files_done s + 1\<rparr>"

definition transfer_completed :: "nat \<Rightarrow> u64 \<Rightarrow> int \<Rightarrow> transfer_progress \<Rightarrow> transfer_progress" where
  "transfer_completed file_count total_bytes now s =
     s\<lparr>tp_files_total := file_count, tp_files_done := file_count, tp_overall_done := total_bytes,
       tp_overall_total := (if tp_overall_total s = 0 then total_bytes else tp_overall_total s),
       tp_finished := True, tp_failed := False, tp_canceled := False,
       tp_activity := ''transfer complete'', tp_ended := Some now\<rparr>"

definition transfer_retrying :: "nat \<Rightarrow> int \<Rightarrow> int \<Rightarrow> string \<Rightarrow> transfer_progress \<Rightarrow> transfer_progress" where
  "transfer_retrying mx next_attempt max_attempts reason s =
     append_log mx (format_transfer_retry_summary next_attempt max_attempts reason)
       ((reset_transfer_attempt s)\<lparr>tp_route_phase := ''reconnecting'',
          tp_activity := ''reconnecting '' @ int_text next_attempt @ ''/'' @ int_text max_attempts\<rparr>)"

definition transfer_retry_waiting :: "nat \<Rightarrow> int \<Rightarrow> int \<Rightarrow> int \<Rightarrow> transfer_progress \<Rightarrow> transfer_progress" where
  "transfer_retry_waiting mx next_attempt max_attempts delay s =
     (if delay \<le> 0 then s
      else append_log mx (format_transfer_retry_delay_summary next_attempt max_attempts delay)
        (s\<lparr>tp_activity := ''waiting to reconnect '' @ int_text next_attempt @ ''/'' @ int_text max_attempts\<rparr>))"

definition finish_success :: "string \<Rightarrow> int \<Rightarrow> transfer_progress \<Rightarrow> transfer_progress" where
  "finish_success final_activity now s = set_terminal_state False False [] final_activity now s"

definition finish_failed :: "nat \<Rightarrow> string \<Rightarrow> int \<Rightarrow> transfer_progress \<Rightarrow> transfer_progress" where
  "finish_failed mx message now s =
     set_terminal_state True False message ''failed'' now (append_log mx (''error: '' @ message) s)"

definition finish_canceled :: "nat \<Rightarrow> int \<Rightarrow> transfer_progress \<Rightarrow> transfer_progress" where
  "finish_canceled mx now s = set_terminal_state False True [] ''canceled'' now (append_log mx ''canceled'' s)"

section \<open>The reporter\<close>

text \<open>
  \<open>ProgressStateReporter\<close>: the state after an event, and whether the front-end is to publish
  it. \<open>transfer_timing\<close> has the default that ignores it.
\<close>

fun report_event :: "nat \<Rightarrow> int \<Rightarrow> progress_event \<Rightarrow> transfer_progress \<Rightarrow> bool \<times> transfer_progress" where
  "report_event mx now (Status m) s = (True, on_status mx m s)"
| "report_event mx now (ConnectivityReport r) s = (True, on_connectivity_report mx r s)"
| "report_event mx now (RoutePhaseEvent p d) s = (True, route_phase_changed mx p d s)"
| "report_event mx now (RouteOutcomeEvent r) s = (True, route_selected mx r s)"
| "report_event mx now (RouteTimingEvent t) s = (True, route_timing_recorded mx t s)"
| "report_event mx now (TransferTimingEvent t) s = (False, s)"
| "report_event mx now HandshakeOk s = (True, handshake_completed mx s)"
| "report_event mx now (CodeReady c q) s = (True, s\<lparr>tp_code := c\<rparr>)"
| "report_event mx now (TransferOverview n b) s = (True, transfer_overview_received n b s)"
| "report_event mx now (ReceivePlanEvent p) s = (True, receive_plan_ready mx p s)"
| "report_event mx now (FileStart p b) s = (True, file_started p b s)"
| "report_event mx now (FileAdvance d) s = file_advanced d s"
| "report_event mx now (FileResume p o' b) s = (True, file_resumed mx p o' b s)"
| "report_event mx now (FileComplete p b v) s = (True, file_completed s)"
| "report_event mx now (TransferComplete n b) s = (True, transfer_completed n b now s)"
| "report_event mx now (TransferRetry k n reason) s = (True, transfer_retrying mx k n reason s)"
| "report_event mx now (TransferRetryDelay k n delay) s =
     (if delay \<le> 0 then (False, s) else (True, transfer_retry_waiting mx k n delay s))"

text \<open>What a front-end does to the state: an event, or one of the ends of a job.\<close>

datatype progress_op = Event progress_event | FinishSuccess string | FinishFailed string | FinishCanceled | ResetState

definition progress_step :: "nat \<Rightarrow> progress_op \<times> int \<Rightarrow> transfer_progress \<Rightarrow> transfer_progress" where
  "progress_step mx op s =
     (case op of
        (Event e, now) \<Rightarrow> snd (report_event mx now e s)
      | (FinishSuccess a, now) \<Rightarrow> finish_success a now s
      | (FinishFailed m, now) \<Rightarrow> finish_failed mx m now s
      | (FinishCanceled, now) \<Rightarrow> finish_canceled mx now s
      | (ResetState, now) \<Rightarrow> reset_state now s)"

section \<open>Invariant\<close>

definition log_lines_ok :: "nat \<Rightarrow> string list \<Rightarrow> bool" where
  "log_lines_ok mx logs \<longleftrightarrow> (\<forall>l \<in> set logs. l \<noteq> [] \<and> CHR 0x0A \<notin> set l) \<and> (0 < mx \<longrightarrow> length logs \<le> mx)"

definition progress_inv :: "nat \<Rightarrow> transfer_progress \<Rightarrow> bool" where
  "progress_inv mx s \<longleftrightarrow> log_lines_ok mx (tp_logs s) \<and> (tp_failed s \<or> tp_canceled s \<longrightarrow> tp_finished s) \<and>
     \<not> (tp_failed s \<and> tp_canceled s) \<and> (tp_finished s \<longleftrightarrow> tp_ended s \<noteq> None)"

lemma getlines_no_newline: "l \<in> set (getlines s) \<Longrightarrow> CHR 0x0A \<notin> set l"
proof (induction s rule: getlines.induct)
  case (1 s)
  show ?case
  proof (cases rule: cut_cases [of "CHR 0x0A" s])
    case absent
    then show ?thesis using "1.prems" by (simp add: getlines.simps [of s] split: if_splits)
  next
    case (found v r)
    have "getlines (v @ CHR 0x0A # r) = v # getlines r"
      by (subst getlines.simps) (simp add: found(2))
    then have "getlines s = v # getlines r" using found(1) by simp
    then show ?thesis using 1 found by auto
  qed
qed

lemma append_log_simps [simp]:
  "tp_failed (append_log mx t s) = tp_failed s" "tp_canceled (append_log mx t s) = tp_canceled s"
  "tp_finished (append_log mx t s) = tp_finished s" "tp_ended (append_log mx t s) = tp_ended s"
  "tp_overall_done (append_log mx t s) = tp_overall_done s" "tp_files_done (append_log mx t s) = tp_files_done s"
  "tp_current_done (append_log mx t s) = tp_current_done s"
  by (simp_all add: append_log_def Let_def)

lemma log_lines_tail:
  assumes "\<forall>l \<in> set logs. l \<noteq> [] \<and> CHR 0x0A \<notin> set l"
  shows "log_lines_ok mx (if 0 < mx \<and> mx < length logs then drop (length logs - mx) logs else logs)"
  using assms set_drop_subset [of "length logs - mx" logs] by (auto simp: log_lines_ok_def)

lemma append_log_ok [simp]:
  assumes "log_lines_ok mx (tp_logs s)"
  shows "log_lines_ok mx (tp_logs (append_log mx t s))"
proof -
  have "\<forall>l \<in> set (tp_logs s @ filter (\<lambda>l. l \<noteq> []) (getlines t)). l \<noteq> [] \<and> CHR 0x0A \<notin> set l"
    using assms by (auto simp: log_lines_ok_def dest: getlines_no_newline)
  from log_lines_tail [OF this, of mx] show ?thesis
    unfolding append_log_def Let_def by (simp del: set_append length_append drop_append)
qed

lemma append_log_inv [simp]: "progress_inv mx s \<Longrightarrow> progress_inv mx (append_log mx t s)"
  unfolding progress_inv_def append_log_simps by auto

lemma progress_inv_updates [simp]:
  "progress_inv mx (s\<lparr>tp_activity := x\<rparr>) = progress_inv mx s"
  "progress_inv mx (s\<lparr>tp_code := x\<rparr>) = progress_inv mx s"
  "progress_inv mx (s\<lparr>tp_current_file := x\<rparr>) = progress_inv mx s"
  "progress_inv mx (s\<lparr>tp_current_done := d\<rparr>) = progress_inv mx s"
  "progress_inv mx (s\<lparr>tp_current_size := d\<rparr>) = progress_inv mx s"
  "progress_inv mx (s\<lparr>tp_overall_done := d\<rparr>) = progress_inv mx s"
  "progress_inv mx (s\<lparr>tp_overall_total := d\<rparr>) = progress_inv mx s"
  "progress_inv mx (s\<lparr>tp_files_done := n\<rparr>) = progress_inv mx s"
  "progress_inv mx (s\<lparr>tp_files_total := n\<rparr>) = progress_inv mx s"
  "progress_inv mx (s\<lparr>tp_route_phase := x\<rparr>) = progress_inv mx s"
  "progress_inv mx (s\<lparr>tp_route_summary := x\<rparr>) = progress_inv mx s"
  "progress_inv mx (s\<lparr>tp_route_timing := x\<rparr>) = progress_inv mx s"
  "progress_inv mx (s\<lparr>tp_receive_plan := p\<rparr>) = progress_inv mx s"
  "progress_inv mx (s\<lparr>tp_has_receive_plan := b\<rparr>) = progress_inv mx s"
  "progress_inv mx (s\<lparr>tp_handshake := b\<rparr>) = progress_inv mx s"
  by (simp_all add: progress_inv_def)

lemma terminal_inv [simp]:
  "progress_inv mx s \<Longrightarrow> \<not> (f \<and> c) \<Longrightarrow> progress_inv mx (set_terminal_state f c e a now s)"
  "progress_inv mx s \<Longrightarrow> progress_inv mx (reset_transfer_attempt s)"
  "progress_inv mx s \<Longrightarrow> progress_inv mx (transfer_completed n b now s)"
  by (auto simp: progress_inv_def set_terminal_state_def reset_transfer_attempt_def transfer_completed_def)

lemma reset_inv [simp]: "progress_inv mx (reset_state now s)"
  by (simp add: progress_inv_def log_lines_ok_def reset_state_def reset_transfer_attempt_def)

lemmas event_op_defs = on_status_def on_connectivity_report_def route_phase_changed_def route_selected_def
  route_timing_recorded_def handshake_completed_def transfer_overview_received_def receive_plan_ready_def
  file_started_def file_advanced_def file_resumed_def file_completed_def
  transfer_retrying_def transfer_retry_waiting_def finish_success_def finish_failed_def finish_canceled_def

lemmas progress_op_defs = event_op_defs transfer_completed_def set_terminal_state_def reset_transfer_attempt_def
  reset_state_def Let_def

lemma progress_step_inv: "progress_inv mx s \<Longrightarrow> progress_inv mx (progress_step mx op s)"
proof -
  assume inv: "progress_inv mx s"
  obtain what now where op: "op = (what, now)" by (cases op)
  have "progress_inv mx (snd (report_event mx now e s))" for e
    using inv
    by (cases e) (simp_all add: event_op_defs Let_def)
  then show ?thesis
    using inv by (cases what) (simp_all add: op progress_step_def finish_success_def finish_failed_def finish_canceled_def)
qed

interpretation progress: machine "progress_step mx" "progress_inv mx" for mx
  by unfold_locales (rule progress_step_inv)

text \<open>
  whatever events and ends reach the state, in whatever order: the log holds at most the
  configured number of lines, none empty or broken; a failed or canceled transfer is finished,
  never both; and an end time is there exactly when the transfer is finished.
\<close>

theorem progress_state_consistent:
  assumes "s = fold (progress_step mx) ops (reset_state now s0)"
  shows "(0 < mx \<longrightarrow> length (tp_logs s) \<le> mx) \<and> (\<forall>l \<in> set (tp_logs s). l \<noteq> [] \<and> CHR 0x0A \<notin> set l) \<and>
    (tp_failed s \<or> tp_canceled s \<longrightarrow> tp_finished s) \<and> \<not> (tp_failed s \<and> tp_canceled s) \<and>
    (tp_finished s \<longleftrightarrow> tp_ended s \<noteq> None)"
proof -
  have "progress_inv mx s"
    using progress.run_inv [of mx "reset_state now s0" ops] assms by simp
  then show ?thesis unfolding progress_inv_def log_lines_ok_def by blast
qed

definition blank_progress :: transfer_progress where
  "blank_progress = \<lparr>tp_activity = [], tp_code = [], tp_current_file = [], tp_current_done = 0, tp_current_size = 0,
     tp_overall_done = 0, tp_overall_total = 0, tp_files_done = 0, tp_files_total = 0, tp_route_phase = [],
     tp_route_summary = [], tp_route_timing = [], tp_receive_plan = empty_plan_summary, tp_has_receive_plan = False,
     tp_handshake = False, tp_finished = False, tp_failed = False, tp_canceled = False, tp_error = [], tp_logs = [],
     tp_started = 0, tp_ended = None\<rparr>"

theorem progress_state_consistent_witness:
  "length (tp_logs (fold (progress_step 2) [(Event (Status ''a''), 1), (FinishFailed ''b'', 2)]
     (reset_state 0 blank_progress))) \<le> 2"
  using progress_state_consistent [of _ 2 "[(Event (Status ''a''), 1), (FinishFailed ''b'', 2)]" 0 blank_progress]
  by simp

section \<open>The joined log\<close>

lemma joined_foldl:
  assumes "out \<noteq> []"
  shows "foldl (\<lambda>out line. (if out \<noteq> [] then out @ nl else out) @ line) out ls = out @ concat (map (\<lambda>l. nl @ l) ls)"
  using assms by (induction ls arbitrary: out) simp_all

lemma getlines_concat:
  assumes "\<forall>l \<in> set (x # ls). l \<noteq> [] \<and> CHR 0x0A \<notin> set l"
  shows "getlines (x @ concat (map (\<lambda>l. nl @ l) ls)) = x # ls"
  using assms
proof (induction ls arbitrary: x)
  case Nil
  then show ?case by (simp add: getlines.simps [of x])
next
  case (Cons l ls)
  have "getlines (x @ CHR 0x0A # (l @ concat (map (\<lambda>l. nl @ l) ls))) = x # getlines (l @ concat (map (\<lambda>l. nl @ l) ls))"
    using Cons.prems by (simp add: getlines.simps [of "x @ CHR 0x0A # _"])
  then show ?case using Cons by (simp add: nl_def)
qed

text \<open>
  The text that the front-ends show for the log splits back into exactly the recorded
  lines, for every state that the events can produce.
\<close>

theorem joined_logs_split_back:
  assumes "s = fold (progress_step mx) ops (reset_state now s0)"
  shows "getlines (joined_logs s) = tp_logs s"
proof -
  have "progress_inv mx s"
    using progress.run_inv [of mx "reset_state now s0" ops] assms by simp
  then have ok: "\<forall>l \<in> set (tp_logs s). l \<noteq> [] \<and> CHR 0x0A \<notin> set l"
    unfolding progress_inv_def log_lines_ok_def by blast
  show ?thesis
  proof (cases "tp_logs s")
    case Nil
    then show ?thesis by (simp add: joined_logs_def getlines.simps)
  next
    case (Cons x ls)
    then show ?thesis
      using ok getlines_concat [of x ls] joined_foldl [of x ls] by (simp add: joined_logs_def)
  qed
qed

theorem joined_logs_split_back_witness:
  "getlines (joined_logs (fold (progress_step 2) [(Event (Status ''a''), 1), (FinishFailed ''b'', 2)]
     (reset_state 0 blank_progress))) = [''a'', ''error: b'']"
proof -
  let ?s = "fold (progress_step 2) [(Event (Status ''a''), 1), (FinishFailed ''b'', 2)] (reset_state 0 blank_progress)"
  have "tp_logs ?s = [''a'', ''error: b'']"
    by (simp add: progress_step_def progress_op_defs append_log_def getlines.simps)
  with joined_logs_split_back [of ?s 2 "[(Event (Status ''a''), 1), (FinishFailed ''b'', 2)]" 0 blank_progress]
  show ?thesis by simp
qed

section \<open>Progress counts what was transferred\<close>

fun is_file_event :: "progress_event \<Rightarrow> bool" where
  "is_file_event (FileStart p b) = True"
| "is_file_event (FileAdvance d) = True"
| "is_file_event (FileResume p o' b) = True"
| "is_file_event (FileComplete p b v) = True"
| "is_file_event _ = False"

fun advance_of :: "progress_event \<Rightarrow> u64" where
  "advance_of (FileAdvance d) = d"
| "advance_of _ = 0"

fun completes :: "progress_event \<Rightarrow> nat" where
  "completes (FileComplete p b v) = 1"
| "completes _ = 0"

definition running :: "transfer_progress \<Rightarrow> bool" where
  "running s \<longleftrightarrow> \<not> tp_finished s \<and> \<not> tp_failed s \<and> \<not> tp_canceled s"

lemma file_event_step:
  assumes "running s" "is_file_event e"
  shows "running (snd (report_event mx now e s))"
    "tp_overall_done (snd (report_event mx now e s)) = tp_overall_done s + advance_of e"
    "tp_files_done (snd (report_event mx now e s)) = tp_files_done s + completes e"
  using assms by (cases e; simp add: progress_op_defs running_def)+

lemma file_events_sum:
  assumes "running s" "\<forall>e \<in> set es. is_file_event e"
  shows "tp_overall_done (fold (\<lambda>e s. snd (report_event mx now e s)) es s) = tp_overall_done s + sum_list (map advance_of es) \<and>
    tp_files_done (fold (\<lambda>e s. snd (report_event mx now e s)) es s) = tp_files_done s + sum_list (map completes es)"
  using assms
proof (induction es arbitrary: s)
  case (Cons e es)
  then show ?case
    using file_event_step [of s e mx now] Cons.IH [of "snd (report_event mx now e s)"] by (simp add: add.assoc)
qed simp

text \<open>
  after a reconnect, whatever an earlier attempt had counted, the overall progress is the
  number of bytes reported since, and the number of files is that of the files completed since.
\<close>

theorem retry_counts_afresh:
  assumes "\<forall>e \<in> set es. is_file_event e"
  shows "tp_overall_done (fold (\<lambda>e s. snd (report_event mx now e s)) (TransferRetry k n reason # es) s) =
      sum_list (map advance_of es) \<and>
    tp_files_done (fold (\<lambda>e s. snd (report_event mx now e s)) (TransferRetry k n reason # es) s) =
      sum_list (map completes es)"
  using file_events_sum [of "transfer_retrying mx k n reason s" es mx now] assms
  by (simp add: running_def progress_op_defs)

theorem retry_counts_afresh_witness:
  "tp_overall_done (fold (\<lambda>e s. snd (report_event 5 0 e s))
     (TransferRetry 2 5 ''x'' # [FileStart ''f'' 9, FileAdvance 4, FileAdvance 5, FileComplete ''f'' 9 True])
     (blank_progress\<lparr>tp_overall_done := 77\<rparr>)) = 9"
  using retry_counts_afresh [of "[FileStart ''f'' 9, FileAdvance 4, FileAdvance 5, FileComplete ''f'' 9 True]" 5 0 2 5
      "''x''" "blank_progress\<lparr>tp_overall_done := 77\<rparr>"]
  by simp

end
