(* ===== verification/Paths.thy ===== *)
theory Paths
  imports Text_Util
begin

text \<open>
  \<open>std::filesystem::path\<close> on POSIX systems, as far as the program uses it. A path is the list
  of the elements that iterating over it gives: the root directory \<open>/\<close> first if the path is
  absolute, then the names, then an empty name if the text ends with a separator.
\<close>

type_synonym path = "string list"

definition slash :: char where "slash = CHR ''/''"

text \<open>The names in a text without a leading separator; runs of separators count as one.\<close>

function split_names :: "string \<Rightarrow> string list" where
  "split_names s =
     (case cut slash s of
        (name, None) \<Rightarrow> [name]
      | (name, Some r) \<Rightarrow> name # split_names (dropWhile ((=) slash) r))"
  by pat_completeness auto
termination
  by (relation "measure length") (auto dest!: cut_shorter intro: le_less_trans [OF length_dropWhile_le])

declare split_names.simps [simp del]

definition parse_path :: "string \<Rightarrow> path" where
  "parse_path s =
     (if s = [] then []
      else if hd s = slash
        then (let rest = dropWhile ((=) slash) s in [slash] # (if rest = [] then [] else split_names rest))
      else split_names s)"

definition is_absolute :: "path \<Rightarrow> bool" where
  "is_absolute p \<longleftrightarrow> (p \<noteq> [] \<and> hd p = [slash])"

definition filename :: "path \<Rightarrow> string" where
  "filename p = (if p = [] \<or> last p = [slash] then [] else last p)"

definition parent_path :: "path \<Rightarrow> path" where
  "parent_path p = (if p = [[slash]] then p else butlast p)"

text \<open>\<open>operator/\<close>\<close>

definition append_path :: "path \<Rightarrow> path \<Rightarrow> path" where
  "append_path a b =
     (if is_absolute b then b
      else if b = [] then (if filename a \<noteq> [] then a @ [[]] else a)
      else if a \<noteq> [] \<and> last a = [] then butlast a @ b
      else a @ b)"

text \<open>\<open>operator+=\<close> with a text without separators.\<close>

definition concat_name :: "path \<Rightarrow> string \<Rightarrow> path" where
  "concat_name p x =
     (if p = [] \<or> last p = [slash] then p @ [x] else butlast p @ [last p @ x])"

text \<open>\<open>stem()\<close> and \<open>extension()\<close>: the last dot of the name, unless it comes first or the name is a dot name.\<close>

definition split_extension :: "string \<Rightarrow> string \<times> string" where
  "split_extension name =
     (if name = ''.'' \<or> name = ''..'' then (name, [])
      else case cut (CHR ''.'') (rev name) of
        (_, None) \<Rightarrow> (name, [])
      | (r, Some s) \<Rightarrow> (if s = [] then (name, []) else (rev s, CHR ''.'' # rev r)))"

definition stem :: "path \<Rightarrow> string" where "stem p = fst (split_extension (filename p))"
definition extension :: "path \<Rightarrow> string" where "extension p = snd (split_extension (filename p))"

text \<open>
  \<open>lexically_normal\<close>: the names seen so far in reverse, and whether the text so far ends with
  a separator.
\<close>

fun normal_names :: "bool \<Rightarrow> string list \<Rightarrow> bool \<Rightarrow> string list \<Rightarrow> string list \<times> bool" where
  "normal_names absol acc trailing [] = (acc, trailing)"
| "normal_names absol acc trailing (n # ns) =
     (if n = [] \<or> n = ''.'' then normal_names absol acc True ns
      else if n = ''..'' then
        (case acc of
           [] \<Rightarrow> if absol then normal_names absol [] True ns else normal_names absol [''..''] False ns
         | x # acc' \<Rightarrow> if x = ''..'' then normal_names absol (''..'' # acc) False ns
                      else normal_names absol acc' True ns)
      else normal_names absol (n # acc) False ns)"

definition lexically_normal :: "path \<Rightarrow> path" where
  "lexically_normal p =
     (if p = [] then []
      else
        let absol = is_absolute p; (acc, trailing) = normal_names absol [] False (if absol then tl p else p)
        in if acc = [] then (if absol then [[slash]] else [''.''])
           else (if absol then [[slash]] else []) @ rev acc @ (if trailing \<and> hd acc \<noteq> ''..'' then [[]] else []))"

text \<open>\<open>generic_string()\<close> of a normal path: the elements joined by single separators.\<close>

fun join_names :: "string list \<Rightarrow> string" where
  "join_names [] = []"
| "join_names [n] = n"
| "join_names (n # ns) = n @ slash # join_names ns"

definition path_string :: "path \<Rightarrow> string" where
  "path_string p = (if is_absolute p then slash # join_names (tl p) else join_names p)"

section \<open>Names\<close>

definition plain_name :: "string \<Rightarrow> bool" where
  "plain_name n \<longleftrightarrow> n \<noteq> [] \<and> n \<noteq> ''.'' \<and> n \<noteq> ''..'' \<and> slash \<notin> set n"

lemma plain_name_not_root [simp]: "plain_name n \<Longrightarrow> n \<noteq> [slash]"
  by (auto simp: plain_name_def)

lemma split_names_no_slash: "n \<in> set (split_names s) \<Longrightarrow> slash \<notin> set n"
proof (induction s rule: split_names.induct)
  case (1 s)
  show ?case
  proof (cases rule: cut_cases [of slash s])
    case absent
    then show ?thesis using "1.prems" by (simp add: split_names.simps [of s])
  next
    case (found v r)
    then have "split_names s = v # split_names (dropWhile ((=) slash) r)"
      by (subst split_names.simps) simp
    then show ?thesis using 1 found by auto
  qed
qed

lemma parse_path_names: "n \<in> set (parse_path s) \<Longrightarrow> n = [slash] \<or> slash \<notin> set n"
  using split_names_no_slash by (auto simp: parse_path_def Let_def split: if_splits)

lemma not_absolute_no_slash:
  assumes "\<not> is_absolute (parse_path s)" "n \<in> set (parse_path s)"
  shows "slash \<notin> set n"
proof -
  have "s = [] \<or> hd s \<noteq> slash"
    using assms(1) by (auto simp: is_absolute_def parse_path_def Let_def split: if_splits)
  then show ?thesis
    using assms(2) split_names_no_slash by (auto simp: parse_path_def split: if_splits)
qed

lemma normal_plain:
  assumes "\<forall>n \<in> set ns. plain_name n"
  shows "normal_names absol acc trailing ns = (rev ns @ acc, if ns = [] then trailing else False)"
  using assms by (induction ns arbitrary: acc trailing) (simp_all add: plain_name_def)

text \<open>Whatever the names, normalising an absolute path leaves plain names only.\<close>

lemma normal_names_step:
  "n = [] \<or> n = ''.'' \<Longrightarrow> normal_names absol acc trailing (n # ns) = normal_names absol acc True ns"
  "n = ''..'' \<Longrightarrow> normal_names True [] trailing (n # ns) = normal_names True [] True ns"
  "n = ''..'' \<Longrightarrow> x \<noteq> ''..'' \<Longrightarrow> normal_names absol (x # acc') trailing (n # ns) = normal_names absol acc' True ns"
  "n \<noteq> [] \<Longrightarrow> n \<noteq> ''.'' \<Longrightarrow> n \<noteq> ''..'' \<Longrightarrow> normal_names absol acc trailing (n # ns) = normal_names absol (n # acc) False ns"
  by auto

lemma normal_names_plain:
  assumes "\<forall>n \<in> set acc. plain_name n" "\<forall>n \<in> set ns. slash \<notin> set n"
  shows "\<forall>n \<in> set (fst (normal_names True acc trailing ns)). plain_name n"
  using assms
proof (induction ns arbitrary: acc trailing)
  case Nil
  then show ?case by simp
next
  case (Cons n ns)
  have ns: "\<forall>n \<in> set ns. slash \<notin> set n" using Cons.prems(2) by simp
  have n: "slash \<notin> set n" using Cons.prems(2) by simp
  note IH = Cons.IH [OF _ ns]
  consider "n = [] \<or> n = ''.''" | "n = ''..''" "acc = []" | x acc' where "n = ''..''" "acc = x # acc'"
    | "n \<noteq> []" "n \<noteq> ''.''" "n \<noteq> ''..''"
    by (cases acc) blast+
  then show ?case
  proof cases
    case 1
    show ?thesis unfolding normal_names_step(1) [OF 1] by (rule IH [OF Cons.prems(1)])
  next
    case 2
    show ?thesis unfolding 2(2) normal_names_step(2) [OF 2(1)] by (rule IH) simp
  next
    case 3
    have x: "x \<noteq> ''..''" "\<forall>n \<in> set acc'. plain_name n"
      using Cons.prems(1) 3(2) by (simp_all add: plain_name_def)
    show ?thesis unfolding 3(2) normal_names_step(3) [OF 3(1) x(1)] by (rule IH [OF x(2)])
  next
    case 4
    have "\<forall>m \<in> set (n # acc). plain_name m"
      using Cons.prems(1) n 4 by (simp add: plain_name_def)
    then show ?thesis unfolding normal_names_step(4) [OF 4] by (rule IH)
  qed
qed

lemma normal_names_append:
  assumes "\<forall>n \<in> set ns. n = [] \<or> n = ''.'' \<or> plain_name n"
  shows "fst (normal_names absol acc trailing (ms @ ns)) =
     rev (filter plain_name ns) @ fst (normal_names absol acc trailing ms)"
  using assms
proof (induction absol acc trailing ms rule: normal_names.induct)
  case (1 absol acc trailing)
  have "fst (normal_names absol acc trailing ns) = rev (filter plain_name ns) @ acc"
    using 1 by (induction ns arbitrary: acc trailing) (auto simp: plain_name_def)
  then show ?case by simp
qed (auto split: list.splits)

end
