(* ===== verification/File_System.thy ===== *)
theory File_System
  imports Paths
begin

text \<open>
  The file system as \<open>std::filesystem\<close> shows it on POSIX systems: a map from locations (the
  names from the root, without links) to nodes, the resolution of a path along symbolic links
  with the system's limit of 40, and the queries the program makes. Nothing here is special to
  the program; permissions and I/O errors are left out.
\<close>

datatype node = RegularFile bytes | Directory | Symlink string | OtherNode

type_synonym location = "string list"

record file_system =
  nodes :: "location \<Rightarrow> node option"
  cwd :: location

datatype os_error = NotFound | NotDirectory | TooManyLinks | IsDirectory | FileExists

text \<open>What \<open>std::error_code::message()\<close> says.\<close>

definition os_message :: "os_error \<Rightarrow> string" where
  "os_message e = (case e of NotFound \<Rightarrow> ''No such file or directory'' | NotDirectory \<Rightarrow> ''Not a directory''
     | TooManyLinks \<Rightarrow> ''Too many levels of symbolic links'' | IsDirectory \<Rightarrow> ''Is a directory''
     | FileExists \<Rightarrow> ''File exists'')"

text \<open>
  From the directory \<open>at\<close> along the names; a link in the last place is followed only if asked.
  The result is a location whose parent is a directory; the location itself may be free.
\<close>

function resolve :: "nat \<Rightarrow> (location \<Rightarrow> node option) \<Rightarrow> location \<Rightarrow> string list \<Rightarrow> bool \<Rightarrow> os_error + location" where
  "resolve fuel fs at [] follow = Inr at"
| "resolve fuel fs at (n # ns) follow =
     (if n = [] \<or> n = ''.'' then resolve fuel fs at ns follow
      else if n = ''..'' then resolve fuel fs (butlast at) ns follow
      else case fs (at @ [n]) of
        None \<Rightarrow> (if ns = [] then Inr (at @ [n]) else Inl NotFound)
      | Some Directory \<Rightarrow> resolve fuel fs (at @ [n]) ns follow
      | Some (Symlink target) \<Rightarrow>
          (if ns = [] \<and> \<not> follow then Inr (at @ [n])
           else case fuel of
             0 \<Rightarrow> Inl TooManyLinks
           | Suc fuel' \<Rightarrow>
               let p = parse_path target in
               if p = [] then Inl NotFound
               else if is_absolute p then resolve fuel' fs [] (tl p @ ns) follow
               else resolve fuel' fs at (p @ ns) follow)
      | Some _ \<Rightarrow> (if ns = [] then Inr (at @ [n]) else Inl NotDirectory))"
  by pat_completeness auto
termination
  by (relation "measures [\<lambda>(fuel, fs, at, ns, follow). fuel, \<lambda>(fuel, fs, at, ns, follow). length ns]") auto

definition max_links :: nat where "max_links = 40"

definition locate :: "file_system \<Rightarrow> path \<Rightarrow> bool \<Rightarrow> os_error + location" where
  "locate fs p follow =
     (if p = [] then Inl NotFound
      else if is_absolute p then resolve max_links (nodes fs) [] (tl p) follow
      else resolve max_links (nodes fs) (cwd fs) p follow)"

definition node_at :: "file_system \<Rightarrow> path \<Rightarrow> bool \<Rightarrow> os_error + node" where
  "node_at fs p follow =
     (case locate fs p follow of
        Inl e \<Rightarrow> Inl e
      | Inr loc \<Rightarrow>
          if loc = [] then Inr Directory
          else case nodes fs loc of None \<Rightarrow> Inl NotFound | Some n \<Rightarrow> Inr n)"

definition symlink_status :: "file_system \<Rightarrow> path \<Rightarrow> os_error + node" where
  "symlink_status fs p = node_at fs p False"

definition status :: "file_system \<Rightarrow> path \<Rightarrow> os_error + node" where
  "status fs p = node_at fs p True"

definition file_size :: "file_system \<Rightarrow> path \<Rightarrow> os_error + nat" where
  "file_size fs p =
     (case status fs p of
        Inl e \<Rightarrow> Inl e
      | Inr (RegularFile b) \<Rightarrow> Inr (length b)
      | Inr _ \<Rightarrow> Inl NotFound)"

definition absolute :: "file_system \<Rightarrow> path \<Rightarrow> path" where
  "absolute fs p = (if is_absolute p then p else append_path ([slash] # cwd fs) p)"

definition path_of_location :: "location \<Rightarrow> path" where
  "path_of_location loc = [slash] # loc"

text \<open>\<open>weakly_canonical\<close> of an absolute path: the longest part that exists is resolved, the rest is kept.\<close>

fun existing_prefix :: "file_system \<Rightarrow> path \<Rightarrow> string list \<Rightarrow> (os_error option \<times> path) \<times> string list" where
  "existing_prefix fs p [] = ((None, p), [])"
| "existing_prefix fs p (n # ns) =
     (case status fs (append_path p [n]) of
        Inr _ \<Rightarrow> existing_prefix fs (append_path p [n]) ns
      | Inl e \<Rightarrow> ((if e = NotFound \<or> e = NotDirectory then None else Some e, p), n # ns))"

definition weakly_canonical :: "file_system \<Rightarrow> path \<Rightarrow> os_error + path" where
  "weakly_canonical fs p =
     (case existing_prefix fs [[slash]] (tl p) of
        ((Some e, _), _) \<Rightarrow> Inl e
      | ((None, known), rest) \<Rightarrow>
          (case locate fs known True of
             Inl e \<Rightarrow> Inl e
           | Inr loc \<Rightarrow> Inr (lexically_normal (foldl (\<lambda>q n. append_path q [n]) (path_of_location loc) rest))))"

section \<open>Changes\<close>

definition put_node :: "location \<Rightarrow> node option \<Rightarrow> file_system \<Rightarrow> file_system" where
  "put_node loc n fs = fs\<lparr>nodes := (nodes fs)(loc := n)\<rparr>"

text \<open>\<open>std::filesystem::remove\<close> of what is not a directory; a missing file is no error.\<close>

definition remove_path :: "path \<Rightarrow> file_system \<Rightarrow> file_system" where
  "remove_path p fs =
     (case locate fs p False of
        Inr loc \<Rightarrow> (if nodes fs loc \<noteq> Some Directory \<and> loc \<noteq> [] then put_node loc None fs else fs)
      | Inl _ \<Rightarrow> fs)"

text \<open>\<open>rename\<close> of what is not a directory, which is all the program renames.\<close>

definition rename_path :: "path \<Rightarrow> path \<Rightarrow> file_system \<Rightarrow> os_error option \<times> file_system" where
  "rename_path src dst fs =
     (case (locate fs src False, locate fs dst False) of
        (Inl e, _) \<Rightarrow> (Some e, fs)
      | (_, Inl e) \<Rightarrow> (Some e, fs)
      | (Inr a, Inr b) \<Rightarrow>
          if a = [] \<or> b = [] \<or> nodes fs a = Some Directory \<or> nodes fs b = Some Directory then (Some IsDirectory, fs)
          else if nodes fs a = None then (Some NotFound, fs)
          else if a = b then (None, fs)
          else (None, put_node b (nodes fs a) (put_node a None fs)))"

definition create_symlink :: "string \<Rightarrow> path \<Rightarrow> file_system \<Rightarrow> os_error option \<times> file_system" where
  "create_symlink target p fs =
     (case locate fs p False of
        Inl e \<Rightarrow> (Some e, fs)
      | Inr loc \<Rightarrow>
          if loc = [] \<or> nodes fs loc \<noteq> None then (Some FileExists, fs)
          else (None, put_node loc (Some (Symlink target)) fs))"

fun make_directories :: "path \<Rightarrow> string list \<Rightarrow> file_system \<Rightarrow> os_error option \<times> file_system" where
  "make_directories p [] fs = (None, fs)"
| "make_directories p (n # ns) fs =
     (case status fs (append_path p [n]) of
        Inr Directory \<Rightarrow> make_directories (append_path p [n]) ns fs
      | Inr _ \<Rightarrow> (Some NotDirectory, fs)
      | Inl NotFound \<Rightarrow>
          (case locate fs (append_path p [n]) False of
             Inl e \<Rightarrow> (Some e, fs)
           | Inr loc \<Rightarrow>
               if nodes fs loc \<noteq> None then (Some FileExists, fs)
               else make_directories (append_path p [n]) ns (put_node loc (Some Directory) fs))
      | Inl e \<Rightarrow> (Some e, fs))"

definition create_directories :: "path \<Rightarrow> file_system \<Rightarrow> os_error option \<times> file_system" where
  "create_directories p fs =
     (if is_absolute p then make_directories [[slash]] (tl p) fs else make_directories [] p fs)"

text \<open>Writing a whole file: \<open>ofstream\<close> with truncation; it follows a link in the last place.\<close>

definition write_file :: "path \<Rightarrow> bytes \<Rightarrow> file_system \<Rightarrow> os_error option \<times> file_system" where
  "write_file p content fs =
     (case locate fs p True of
        Inl e \<Rightarrow> (Some e, fs)
      | Inr loc \<Rightarrow>
          if loc = [] \<or> nodes fs loc = Some Directory then (Some IsDirectory, fs)
          else (None, put_node loc (Some (RegularFile content)) fs))"

section \<open>Lemmas\<close>

lemma resolve_dots [simp]: "resolve fuel fs at ([] # ns) follow = resolve fuel fs at ns follow"
  by simp

declare resolve.simps(2) [simp del]

lemma resolve_plain:
  "plain_name n \<Longrightarrow> resolve fuel fs at (n # ns) follow =
     (case fs (at @ [n]) of
        None \<Rightarrow> (if ns = [] then Inr (at @ [n]) else Inl NotFound)
      | Some Directory \<Rightarrow> resolve fuel fs (at @ [n]) ns follow
      | Some (Symlink target) \<Rightarrow>
          (if ns = [] \<and> \<not> follow then Inr (at @ [n])
           else case fuel of
             0 \<Rightarrow> Inl TooManyLinks
           | Suc fuel' \<Rightarrow>
               let p = parse_path target in
               if p = [] then Inl NotFound
               else if is_absolute p then resolve fuel' fs [] (tl p @ ns) follow
               else resolve fuel' fs at (p @ ns) follow)
      | Some _ \<Rightarrow> (if ns = [] then Inr (at @ [n]) else Inl NotDirectory))"
  by (simp add: resolve.simps(2) plain_name_def)

definition is_dir :: "(location \<Rightarrow> node option) \<Rightarrow> location \<Rightarrow> bool" where
  "is_dir fs loc \<longleftrightarrow> loc = [] \<or> fs loc = Some Directory"

text \<open>A path through an existing directory continues from where that directory is.\<close>

lemma resolve_append:
  "resolve fuel fs at xs True = Inr loc \<Longrightarrow> is_dir fs loc \<Longrightarrow>
     \<exists>fuel'. \<forall>ys follow. ys \<noteq> [] \<longrightarrow> resolve fuel fs at (xs @ ys) follow = resolve fuel' fs loc ys follow"
proof (induction fuel fs at xs "True" arbitrary: loc rule: resolve.induct)
  case (1 fuel fs at)
  then show ?case by auto
next
  case (2 fuel fs at n ns)
  show ?case
  proof (cases "n = [] \<or> n = ''.'' \<or> n = ''..''")
    case True
    then show ?thesis
      using 2 by (auto simp: resolve.simps(2)) blast+
  next
    case False
    then have step: "resolve fuel fs at (n # ms) fl =
       (case fs (at @ [n]) of
        None \<Rightarrow> (if ms = [] then Inr (at @ [n]) else Inl NotFound)
      | Some Directory \<Rightarrow> resolve fuel fs (at @ [n]) ms fl
      | Some (Symlink target) \<Rightarrow>
          (if ms = [] \<and> \<not> fl then Inr (at @ [n])
           else case fuel of
             0 \<Rightarrow> Inl TooManyLinks
           | Suc fuel' \<Rightarrow>
               let p = parse_path target in
               if p = [] then Inl NotFound
               else if is_absolute p then resolve fuel' fs [] (tl p @ ms) fl
               else resolve fuel' fs at (p @ ms) fl)
      | Some _ \<Rightarrow> (if ms = [] then Inr (at @ [n]) else Inl NotDirectory))" for ms fl
      by (simp add: resolve.simps(2))
    show ?thesis
    proof (cases "fs (at @ [n])")
      case None
      then show ?thesis using 2(6,7) step [of ns True] by (auto simp: is_dir_def split: if_splits)
    next
      case (Some x)
      show ?thesis
      proof (cases x)
        case Directory
        then show ?thesis using 2(3) [OF _ _ Some] 2(6,7) False Some step by auto
      next
        case (Symlink target)
        obtain fuel' where f: "fuel = Suc fuel'" "parse_path target \<noteq> []"
          using 2(6) step [of ns True] Some Symlink by (auto simp: Let_def split: nat.splits if_splits)
        show ?thesis
          using 2(4,5) [OF _ _ Some _ _ f(1)] 2(6,7) step f False Some Symlink by (auto simp: Let_def split: if_splits)
      qed (use 2(6,7) step [of ns True] Some in \<open>auto simp: is_dir_def split: if_splits\<close>)
    qed
  qed
qed

end
