(* ===== verification/Receive_Paths.thy ===== *)
theory Receive_Paths
  imports File_System Protocol Progress
begin

text \<open>
  \<open>src/transfer/transfer_receive_paths.cpp\<close> and the replacement of files in
  \<open>src/platform/atomic_file.cpp\<close>: where a received entry may be written, and the checks
  before a partial file becomes the file. Checks read the file system; operations that change
  it return it.
\<close>

type_synonym 'a fs_op = "file_system \<Rightarrow> 'a result \<times> file_system"

section \<open>Lexical checks\<close>

definition is_safe_relative_symlink_target :: "path \<Rightarrow> bool" where
  "is_safe_relative_symlink_target target \<longleftrightarrow> target \<noteq> [] \<and> \<not> is_absolute target \<and> ''..'' \<notin> set target"

fun path_has_prefix :: "path \<Rightarrow> path \<Rightarrow> bool" where
  "path_has_prefix [] p = True"
| "path_has_prefix (b # bs) [] = False"
| "path_has_prefix (b # bs) (x # xs) = (b = x \<and> path_has_prefix bs xs)"

definition absolute_normalized :: "file_system \<Rightarrow> path \<Rightarrow> string \<Rightarrow> path result" where
  "absolute_normalized fs p relative =
     (if p = [] then Inl (''failed to resolve receive path for '' @ relative @ '': Invalid argument'')
      else Inr (lexically_normal (absolute fs p)))"

definition is_dir_header :: "string \<Rightarrow> u64 \<Rightarrow> bool" where
  "is_dir_header p sz \<longleftrightarrow> sz = 0 \<and> p \<noteq> [] \<and> last p = slash"

definition is_symlink_header :: "message \<Rightarrow> bool" where
  "is_symlink_header header \<longleftrightarrow> mtype header = ''symlink'' \<or> msg_get header ''kind'' [] = ''symlink''"

definition path_exists_no_follow :: "file_system \<Rightarrow> path \<Rightarrow> bool" where
  "path_exists_no_follow fs p = (case symlink_status fs p of Inl _ \<Rightarrow> False | Inr _ \<Rightarrow> True)"

definition validate_safe_symlink_target :: "string \<Rightarrow> string \<Rightarrow> unit result" where
  "validate_safe_symlink_target relative target =
     (if relative = [] \<or> last relative = slash then Inl (''refusing invalid symlink path: '' @ relative)
      else if CHR 0x00 \<in> set target then Inl (''refusing null byte in symlink target for '' @ relative)
      else if \<not> is_safe_relative_symlink_target (parse_path target)
        then Inl (''refusing unsafe symlink target for '' @ relative @ '': '' @ target)
      else Inr ())"

definition safe_join :: "path \<Rightarrow> string \<Rightarrow> path result" where
  "safe_join base relative =
     (if CHR 0x00 \<in> set relative then Inl ''refusing null byte in transfer path''
      else
        let rel = parse_path relative in
        if is_absolute rel then Inl (''refusing absolute path in transfer: '' @ relative)
        else if ''..'' \<in> set rel then Inl (''refusing path traversal in transfer: '' @ relative)
        else Inr (append_path base rel))"

section \<open>Names that do not conflict\<close>

definition part_path_for :: "path \<Rightarrow> path" where
  "part_path_for p = concat_name p ''.kikopart''"

text \<open>The loop from \<open>i\<close>, with so many turns left.\<close>

fun conflict_loop :: "file_system \<Rightarrow> (path \<Rightarrow> bool) \<Rightarrow> path \<Rightarrow> string \<Rightarrow> string \<Rightarrow> nat \<Rightarrow> nat \<Rightarrow> path option" where
  "conflict_loop fs reserved parent st ext i 0 = None"
| "conflict_loop fs reserved parent st ext i (Suc turns) =
     (let candidate = append_path parent [st @ '' ('' @ to_dec i @ '')'' @ ext] in
      if \<not> reserved candidate \<and> \<not> path_exists_no_follow fs candidate \<and>
         \<not> path_exists_no_follow fs (part_path_for candidate)
      then Some candidate
      else conflict_loop fs reserved parent st ext (i + 1) turns)"

definition unique_conflict_path :: "file_system \<Rightarrow> (path \<Rightarrow> bool) \<Rightarrow> path \<Rightarrow> path result" where
  "unique_conflict_path fs reserved p =
     (let st = stem p;
          st = (if st = [] then filename p else st);
          st = (if st = [] then ''received'' else st)
      in case conflict_loop fs reserved (parent_path p) st (extension p) 1 9999 of
           Some c \<Rightarrow> Inr c
         | None \<Rightarrow> Inl (''could not choose a non-conflicting filename for '' @ path_string p))"

definition report_renamed_conflict :: "string \<Rightarrow> path \<Rightarrow> progress_event" where
  "report_renamed_conflict relative renamed = Status (''renamed conflict '' @ relative @ '' -> '' @ filename renamed)"

section \<open>The parent of a target\<close>

definition refuse :: "string \<Rightarrow> string \<Rightarrow> 'a result" where
  "refuse reason relative = Inl (reason @ relative)"

text \<open>The loop over the parent's names below the root.\<close>

fun check_parents :: "file_system \<Rightarrow> string \<Rightarrow> path \<Rightarrow> string list \<Rightarrow> unit result" where
  "check_parents fs relative current [] = Inr ()"
| "check_parents fs relative current (part # parts) =
     (if part = ''.'' then check_parents fs relative current parts
      else if part = ''..'' then refuse ''refusing receive parent traversal: '' relative
      else
        let current' = append_path current [part] in
        case symlink_status fs current' of
          Inl e \<Rightarrow>
            if e = NotFound then check_parents fs relative current' parts
            else Inl (''failed to inspect receive parent for '' @ relative @ '': '' @ os_message e)
        | Inr (Symlink _) \<Rightarrow> refuse ''refusing symbolic link in receive parent path: '' relative
        | Inr Directory \<Rightarrow> check_parents fs relative current' parts
        | Inr _ \<Rightarrow> Inl (''receive parent is not a directory for '' @ relative @ '': '' @ path_string current'))"

text \<open>
  \<open>lexically_relative\<close> of two absolute paths: the common elements are dropped, each name left
  of the base becomes \<open>..\<close>.
\<close>

fun drop_common :: "path \<Rightarrow> path \<Rightarrow> path \<times> path" where
  "drop_common (b # bs) (x # xs) = (if b = x then drop_common bs xs else (b # bs, x # xs))"
| "drop_common bs xs = (bs, xs)"

definition lexically_relative :: "path \<Rightarrow> path \<Rightarrow> path" where
  "lexically_relative p base =
     (let (b, x) = drop_common base p;
          ups = int (length (filter (\<lambda>n. n \<noteq> [] \<and> n \<noteq> ''.'' \<and> n \<noteq> ''..'') b)) - int (length (filter (\<lambda>n. n = ''..'') b))
      in if b = [] \<and> x = [] then [''.'']
         else if ups < 0 then []
         else if ups = 0 \<and> (x = [] \<or> hd x = []) then [''.'']
         else replicate (nat ups) ''..'' @ x)"

definition validate_receive_target_parent :: "file_system \<Rightarrow> path \<Rightarrow> path \<Rightarrow> string \<Rightarrow> unit result" where
  "validate_receive_target_parent fs output_dir target_path relative =
     andthen (absolute_normalized fs output_dir relative) (\<lambda>root.
     andthen (absolute_normalized fs target_path relative) (\<lambda>target.
       if \<not> path_has_prefix root target then refuse ''refusing receive target outside output directory: '' relative
       else
         let parent = parent_path target in
         case weakly_canonical fs root of
           Inl e \<Rightarrow> Inl (''failed to resolve receive root for '' @ relative @ '': '' @ os_message e)
         | Inr resolved_root \<Rightarrow>
             (if (case weakly_canonical fs parent of
                    Inl _ \<Rightarrow> True | Inr resolved_parent \<Rightarrow> \<not> path_has_prefix resolved_root resolved_parent)
              then refuse ''refusing receive path through a symbolic link outside output directory: '' relative
              else check_parents fs relative root (lexically_relative parent root))))"

definition validate_receive_part_path :: "file_system \<Rightarrow> path \<Rightarrow> string \<Rightarrow> unit result" where
  "validate_receive_part_path fs part_path relative =
     (case symlink_status fs part_path of
        Inl e \<Rightarrow>
          if e = NotFound then Inr ()
          else Inl (''failed to inspect partial file for '' @ relative @ '': '' @ os_message e)
      | Inr (RegularFile _) \<Rightarrow> Inr ()
      | Inr _ \<Rightarrow> Inl (''refusing unsafe partial file for '' @ relative @ '': '' @ path_string part_path))"

section \<open>Verification and completion\<close>

definition verify_received_digest ::
    "path \<Rightarrow> string \<Rightarrow> u64 \<Rightarrow> u64 \<Rightarrow> string \<Rightarrow> string \<Rightarrow> unit fs_op" where
  "verify_received_digest part_path relative received_size declared_size expected_sha256 actual_sha256 fs =
     (if received_size \<noteq> declared_size then
        (Inl (''received '' @ word_text received_size @ '' bytes for '' @ relative @ '', expected '' @ word_text declared_size),
         remove_path part_path fs)
      else case file_size fs part_path of
        Inl e \<Rightarrow>
          (Inl (''received file size mismatch for '' @ relative @ '' (stored unknown, expected '' @
             word_text declared_size @ '')''), remove_path part_path fs)
      | Inr stored \<Rightarrow>
          (if stored \<noteq> unat declared_size then
             (Inl (''received file size mismatch for '' @ relative @ '' (stored '' @ to_dec stored @ '', expected '' @
                word_text declared_size @ '')''), remove_path part_path fs)
           else if actual_sha256 \<noteq> expected_sha256 then
             (Inl (''integrity check failed for '' @ relative @ '' (expected '' @ expected_sha256 @ '', got '' @
                actual_sha256 @ '')''), remove_path part_path fs)
           else (Inr (), fs)))"

text \<open>\<open>sha256\<close> is the digest of the cryptographic library; reading in chunks digests the whole file.\<close>

definition sha256_file_hex :: "(bytes \<Rightarrow> bytes) \<Rightarrow> path \<Rightarrow> file_system \<Rightarrow> string result" where
  "sha256_file_hex sha256 p fs =
     (case status fs p of
        Inr (RegularFile content) \<Rightarrow> Inr (hex_encode (sha256 content))
      | _ \<Rightarrow> Inl (''failed to open received file for verification: '' @ path_string p))"

definition verify_part_file_digest ::
    "(bytes \<Rightarrow> bytes) \<Rightarrow> path \<Rightarrow> string \<Rightarrow> u64 \<Rightarrow> string \<Rightarrow> unit fs_op" where
  "verify_part_file_digest sha256 part_path relative declared_size expected_sha256 fs =
     (case file_size fs part_path of
        Inl e \<Rightarrow>
          (Inl (''received 0 bytes for '' @ relative @ '', expected '' @ word_text declared_size), remove_path part_path fs)
      | Inr received_size \<Rightarrow>
          (case sha256_file_hex sha256 part_path fs of
             Inl e \<Rightarrow> (Inl e, fs)
           | Inr actual \<Rightarrow>
               verify_received_digest part_path relative (of_nat received_size) declared_size expected_sha256 actual fs))"

definition replace_file_impl :: "path \<Rightarrow> path \<Rightarrow> file_system \<Rightarrow> string option \<times> file_system" where
  "replace_file_impl source destination fs =
     (case rename_path source destination fs of
        (None, fs1) \<Rightarrow> (None, fs1)
      | (Some e, fs1) \<Rightarrow> (Some (''failed to replace '' @ path_string destination @ '': '' @ os_message e), fs1))"

definition atomic_replace_file :: "path \<Rightarrow> path \<Rightarrow> file_system \<Rightarrow> string option \<times> file_system" where
  "atomic_replace_file source destination fs =
     (if source = [] \<or> destination = [] then (Some ''replacement path is empty'', fs)
      else replace_file_impl source destination fs)"

definition finalize_part_file :: "path \<Rightarrow> path \<Rightarrow> unit fs_op" where
  "finalize_part_file part_path current_path fs =
     (case atomic_replace_file part_path current_path fs of
        (None, fs1) \<Rightarrow> (Inr (), fs1)
      | (Some e, fs1) \<Rightarrow> (Inl (''failed to finalize file '' @ path_string current_path @ '': '' @ e), fs1))"

text \<open>\<open>code\<close> is the random suffix; the temporary link is removed again if it could not be moved.\<close>

definition create_safe_symlink :: "string \<Rightarrow> path \<Rightarrow> string \<Rightarrow> string \<Rightarrow> unit fs_op" where
  "create_safe_symlink code current_path relative target fs =
     (case validate_safe_symlink_target relative target of
        Inl e \<Rightarrow> (Inl e, fs)
      | Inr _ \<Rightarrow>
          (case (if parent_path current_path \<noteq> [] then create_directories (parent_path current_path) fs else (None, fs)) of
             (Some e, fs1) \<Rightarrow> (Inl (os_message e), fs1)
           | (None, fs1) \<Rightarrow>
               let temporary = concat_name current_path (''.linktmp-'' @ code) in
               (case create_symlink target temporary fs1 of
                  (Some e, fs2) \<Rightarrow>
                    (Inl (''failed to create temporary symlink for '' @ path_string current_path @ '': '' @ os_message e),
                     remove_path temporary fs2)
                | (None, fs2) \<Rightarrow>
                    (case atomic_replace_file temporary current_path fs2 of
                       (Some e, fs3) \<Rightarrow>
                         (Inl (''failed to finalize symlink '' @ path_string current_path @ '': '' @ e),
                          remove_path temporary fs3)
                     | (None, fs3) \<Rightarrow> (Inr (), fs3)))))"

section \<open>Where an entry is written\<close>

lemma resolve_skip_dot:
  "d = [] \<or> d = ''.'' \<Longrightarrow> ys \<noteq> [] \<Longrightarrow> resolve fuel fs at (xs @ d # ys) follow = resolve fuel fs at (xs @ ys) follow"
proof (induction fuel arbitrary: at xs)
  case 0
  then show ?case
    by (induction xs arbitrary: at) (auto simp: resolve.simps(2) split: option.split node.split)
next
  case (Suc fuel)
  have IH: "resolve fuel fs at (xs @ d # ys) follow = resolve fuel fs at (xs @ ys) follow" for at xs
    by (rule Suc.IH [OF Suc.prems])
  note abs = IH [of _ "_ @ _", unfolded append_assoc]
  show ?case
  proof (induction xs arbitrary: at)
    case Nil
    then show ?case using Suc.prems by (auto simp: resolve.simps(2))
  next
    case (Cons n xs)
    show ?case
      unfolding append_Cons resolve.simps(2) [of "Suc fuel"] Cons.IH
      using Suc.prems(2) by (auto simp: Let_def abs split: option.split node.split)
  qed
qed

lemma resolve_filter:
  assumes "''..'' \<notin> set ms" "\<forall>n \<in> set ms. slash \<notin> set n" "ys \<noteq> []"
  shows "resolve fuel fs at (xs @ ms @ ys) follow = resolve fuel fs at (xs @ filter plain_name ms @ ys) follow"
  using assms
proof (induction ms arbitrary: xs)
  case (Cons m ms)
  show ?case
  proof (cases "plain_name m")
    case True
    then show ?thesis using Cons.IH [of "xs @ [m]"] Cons.prems by simp
  next
    case False
    then have "m = [] \<or> m = ''.''" using Cons.prems by (auto simp: plain_name_def)
    then have "resolve fuel fs at (xs @ m # (ms @ ys)) follow = resolve fuel fs at (xs @ ms @ ys) follow"
      using resolve_skip_dot [of m "ms @ ys"] Cons.prems(3) by simp
    then show ?thesis using Cons.IH [of xs] Cons.prems False by simp
  qed
qed simp

lemma resolve_dirs:
  assumes "\<forall>n \<in> set ds. plain_name n" "\<forall>k \<le> length ds. is_dir fs (at @ take k ds)"
  shows "resolve fuel fs at (ds @ ys) follow = resolve fuel fs (at @ ds) ys follow"
  using assms
proof (induction ds arbitrary: at)
  case (Cons d ds)
  have "is_dir fs (at @ [d])" using Cons.prems(2) [rule_format, of 1] by simp
  then have "fs (at @ [d]) = Some Directory" by (simp add: is_dir_def)
  moreover have "\<forall>k \<le> length ds. is_dir fs ((at @ [d]) @ take k ds)"
    using Cons.prems(2) [rule_format, of "Suc _"] by simp
  ultimately show ?case
    using Cons.IH [of "at @ [d]"] Cons.prems(1) by (simp add: resolve_plain)
qed simp

definition cwd_ok :: "file_system \<Rightarrow> bool" where
  "cwd_ok fs \<longleftrightarrow> (\<forall>n \<in> set (cwd fs). plain_name n) \<and> (\<forall>k \<le> length (cwd fs). is_dir (nodes fs) (take k (cwd fs)))"

text \<open>What the loop over the parents establishes.\<close>

lemma check_parents_contained:
  assumes "check_parents fs relative cur parts = Inr ()" and "\<forall>n \<in> set parts. plain_name n"
    and "is_absolute cur" "last cur \<noteq> []"
    and "\<And>ys follow. ys \<noteq> [] \<Longrightarrow>
      resolve max_links (nodes fs) [] (tl cur @ ys) follow = resolve fuel (nodes fs) at ys follow"
    and "resolve fuel (nodes fs) at (parts @ [n]) False = Inr loc" and "n = [] \<or> n = ''.'' \<or> plain_name n"
  shows "loc = at @ parts @ filter plain_name [n]"
  using assms
proof (induction parts arbitrary: cur fuel at)
  case Nil
  show ?case
  proof (cases "plain_name n")
    case True
    then show ?thesis
      using Nil(6) by (auto simp: resolve_plain split: option.splits node.splits)
  next
    case False
    then show ?thesis using Nil(6,7) by (auto simp: resolve.simps(2))
  qed
next
  case (Cons part parts)
  have plain: "plain_name part" "part \<noteq> ''.''" "part \<noteq> ''..''" "part \<noteq> []"
    using Cons.prems(2) by (auto simp: plain_name_def)
  let ?cur = "append_path cur [part]"
  have cur: "?cur = cur @ [part]" "is_absolute ?cur" "tl ?cur = tl cur @ [part]" "last ?cur \<noteq> []"
    using Cons.prems(3,4) plain by (auto simp: append_path_def is_absolute_def)

  have rest: "parts @ [n] \<noteq> []" by simp
  show ?case
  proof (cases "nodes fs (at @ [part])")
    case None
    then show ?thesis using Cons.prems(6) rest plain by (auto simp: resolve_plain split: if_splits)
  next
    case (Some x)
    have loc: "locate fs ?cur False = Inr (at @ [part])"
      using Cons.prems(5) [of "[part]" False] Some plain cur
      by (auto simp: locate_def resolve_plain split: node.split)
    have st: "symlink_status fs ?cur = Inr x"
      using loc Some by (simp add: symlink_status_def node_at_def)
    have x: "x = Directory" and ok: "check_parents fs relative ?cur parts = Inr ()"
      using Cons.prems(1) st plain by (auto simp: refuse_def Let_def split: node.splits)
    have "loc = (at @ [part]) @ parts @ filter plain_name [n]"
    proof (rule Cons.IH [OF ok _ cur(2,4)])
      show "resolve max_links (nodes fs) [] (tl ?cur @ ys) follow = resolve fuel (nodes fs) (at @ [part]) ys follow"
        if "ys \<noteq> []" for ys follow
        using Cons.prems(5) [of "part # ys" follow] that plain Some x cur by (simp add: resolve_plain)
      show "resolve fuel (nodes fs) (at @ [part]) (parts @ [n]) False = Inr loc"
        using Cons.prems(6) plain Some x by (simp add: resolve_plain)
    qed (use Cons.prems in auto)
    then show ?thesis by simp
  qed
qed

lemma path_has_prefix_append: "path_has_prefix b p \<longleftrightarrow> (\<exists>r. p = b @ r)"
  by (induction b p rule: path_has_prefix.induct) auto

lemma drop_common_append: "drop_common b (b @ x) = ([], x)"
  by (induction b) (simp, cases x, simp_all)

lemma lexically_relative_below:
  "x \<noteq> [] \<Longrightarrow> hd x \<noteq> [] \<Longrightarrow> lexically_relative (b @ x) b = x"
  "lexically_relative b b = [''.'']"
  using drop_common_append [of b "[]"] by (simp_all add: lexically_relative_def drop_common_append)

text \<open>The names of a directory path without \<open>..\<close>, from the root.\<close>

definition dir_names :: "file_system \<Rightarrow> path \<Rightarrow> string list" where
  "dir_names fs p = filter plain_name (if is_absolute p then tl p else cwd fs @ p)"

definition path_ok :: "path \<Rightarrow> bool" where
  "path_ok p \<longleftrightarrow> p \<noteq> [] \<and> hd p \<noteq> [] \<and> ''..'' \<notin> set p \<and> (\<forall>n \<in> set (if is_absolute p then tl p else p). slash \<notin> set n)"

lemma normal_filter:
  assumes "''..'' \<notin> set ns" "\<forall>n \<in> set ns. slash \<notin> set n"
  shows "fst (normal_names absol acc trailing ns) = rev (filter plain_name ns) @ acc"
    and "ns \<noteq> [] \<Longrightarrow> snd (normal_names absol acc trailing ns) \<longleftrightarrow> \<not> plain_name (last ns)"
  using assms by (induction ns arbitrary: acc trailing) (auto simp: plain_name_def)

lemma lexically_normal_absolute:
  assumes "''..'' \<notin> set ns" "\<forall>n \<in> set ns. slash \<notin> set n"
  shows "lexically_normal ([slash] # ns) =
     [slash] # filter plain_name ns @ (if ns \<noteq> [] \<and> \<not> plain_name (last ns) \<and> filter plain_name ns \<noteq> [] then [[]] else [])"
proof -
  obtain acc trailing where n: "normal_names True [] False ns = (acc, trailing)" by fastforce
  have acc: "acc = rev (filter plain_name ns)" using normal_filter(1) [OF assms, of True "[]" False] n by simp
  have tr: "trailing \<longleftrightarrow> ns \<noteq> [] \<and> \<not> plain_name (last ns)"
    using normal_filter(2) [OF assms, of True "[]" False] n by (cases "ns = []") auto
  have hd: "acc \<noteq> [] \<Longrightarrow> hd acc \<noteq> ''..''"
  proof -
    assume "acc \<noteq> []"
    then have "hd acc \<in> set acc" by simp
    then show "hd acc \<noteq> ''..''" using acc assms(1) by auto
  qed
  show ?thesis
    using n acc tr hd by (auto simp: lexically_normal_def is_absolute_def Let_def)
qed

lemma set_tl: "set (tl p) \<subseteq> set p"
  by (cases p) auto

lemma absolute_names:
  assumes "cwd_ok fs" "path_ok p"
  shows "absolute fs p = [slash] # (if is_absolute p then tl p else cwd fs @ p)"
    "''..'' \<notin> set (if is_absolute p then tl p else cwd fs @ p)"
    "\<forall>n \<in> set (if is_absolute p then tl p else cwd fs @ p). slash \<notin> set n"
proof -
  have c: "\<forall>n \<in> set (cwd fs). plain_name n" using assms(1) by (simp add: cwd_ok_def)
  show "absolute fs p = [slash] # (if is_absolute p then tl p else cwd fs @ p)"
  proof (cases "is_absolute p")
    case True
    then show ?thesis by (cases p) (auto simp: absolute_def is_absolute_def)
  next
    case False
    have "last ([slash] # cwd fs) \<noteq> []" using c by (auto simp: plain_name_def)
    then show ?thesis
      using False assms(2) by (auto simp: absolute_def append_path_def path_ok_def)
  qed
  show "''..'' \<notin> set (if is_absolute p then tl p else cwd fs @ p)"
    "\<forall>n \<in> set (if is_absolute p then tl p else cwd fs @ p). slash \<notin> set n"
    using c assms(2) set_tl [of p] by (auto simp: path_ok_def plain_name_def split: if_splits)
qed

lemma locate_names:
  assumes "cwd_ok fs" "path_ok p" "ys \<noteq> []"
  shows "resolve max_links (nodes fs) (if is_absolute p then [] else cwd fs) ((if is_absolute p then tl p else p) @ ys) follow =
     resolve max_links (nodes fs) [] (dir_names fs p @ ys) follow"
proof -
  note a = absolute_names [OF assms(1,2)]
  have c: "\<forall>n \<in> set (cwd fs). plain_name n" "\<forall>k \<le> length (cwd fs). is_dir (nodes fs) ([] @ take k (cwd fs))"
    using assms(1) by (simp_all add: cwd_ok_def)
  have "resolve max_links (nodes fs) (if is_absolute p then [] else cwd fs) ((if is_absolute p then tl p else p) @ ys) follow =
     resolve max_links (nodes fs) [] ((if is_absolute p then tl p else cwd fs @ p) @ ys) follow"
    using resolve_dirs [OF c, of max_links "p @ ys" follow] by simp
  also have "\<dots> = resolve max_links (nodes fs) [] (dir_names fs p @ ys) follow"
    using resolve_filter [OF a(2,3) assms(3), of max_links "nodes fs" "[]" "[]" follow] by (simp add: dir_names_def)
  finally show ?thesis .
qed

lemma dir_names_plain: "n \<in> set (dir_names fs p) \<Longrightarrow> plain_name n"
  by (simp add: dir_names_def)

lemma root_path_simps [simp]: "parent_path ([slash] # ns @ [x]) = [slash] # ns" "ns \<noteq> [] \<Longrightarrow> parent_path ([slash] # ns) = [slash] # butlast ns"
  by (simp_all add: parent_path_def)

text \<open>The directory path without a trailing separator.\<close>

definition strip_trailing :: "path \<Rightarrow> path" where
  "strip_trailing p = (if p \<noteq> [] \<and> last p = [] then butlast p else p)"

lemma strip_trailing_ok:
  assumes "path_ok p"
  shows "path_ok (strip_trailing p)" "dir_names fs (strip_trailing p) = dir_names fs p"
    "is_absolute (strip_trailing p) = is_absolute p" "strip_trailing p \<noteq> []"
proof -
  obtain x xs where p: "p = x # xs" "x \<noteq> []" using assms by (cases p) (auto simp: path_ok_def)
  show "is_absolute (strip_trailing p) = is_absolute p" "strip_trailing p \<noteq> []"
    using p by (auto simp: strip_trailing_def is_absolute_def)
  show "path_ok (strip_trailing p)"
    using assms p by (auto simp: strip_trailing_def path_ok_def is_absolute_def dest: in_set_butlastD split: if_splits)
  have "xs \<noteq> [] \<Longrightarrow> last xs = [] \<Longrightarrow> filter plain_name xs = filter plain_name (butlast xs)"
    using append_butlast_last_id [of xs] by (metis append.right_neutral filter.simps filter_append plain_name_def)
  then show "dir_names fs (strip_trailing p) = dir_names fs p"
    using p by (auto simp: strip_trailing_def dir_names_def is_absolute_def split: if_splits)
qed

lemma append_path_relative:
  assumes "path_ok p" "\<not> is_absolute rel" "rel \<noteq> []"
  shows "append_path p rel = strip_trailing p @ rel"
  using assms by (auto simp: append_path_def strip_trailing_def path_ok_def)

lemma safe_join_InrD:
  assumes "safe_join base relative = Inr target"
  shows "target = append_path base (parse_path relative)" "\<not> is_absolute (parse_path relative)"
    "''..'' \<notin> set (parse_path relative)" "\<forall>n \<in> set (parse_path relative). slash \<notin> set n"
  using assms not_absolute_no_slash by (auto simp: safe_join_def Let_def split: if_splits)

lemma normalized_names:
  assumes "cwd_ok fs" "path_ok p"
  shows "absolute_normalized fs p relative =
    Inr ([slash] # dir_names fs p @ (if \<not> plain_name (last (absolute fs p)) \<and> dir_names fs p \<noteq> [] then [[]] else []))"
  using absolute_names [OF assms] lexically_normal_absolute [OF absolute_names(2,3) [OF assms]] assms(2)
  by (auto simp: absolute_normalized_def dir_names_def path_ok_def)

lemma joined_target:
  assumes "path_ok out" "safe_join out relative = Inr target" "parse_path relative \<noteq> []"
  shows "target = strip_trailing out @ parse_path relative" "path_ok target" "is_absolute target = is_absolute out"
    "dir_names fs target = dir_names fs out @ filter plain_name (parse_path relative)"
proof -
  note rel = safe_join_InrD [OF assms(2)] and strip = strip_trailing_ok [OF assms(1)]
  show target: "target = strip_trailing out @ parse_path relative"
    using append_path_relative [OF assms(1) rel(2) assms(3)] rel(1) by simp
  obtain x xs where so: "strip_trailing out = x # xs" using strip(4) by (cases "strip_trailing out") auto
  then have t: "target = x # xs @ parse_path relative" using target by simp
  show abs: "is_absolute target = is_absolute out"
    using strip(3) so t by (simp add: is_absolute_def)
  show "path_ok target"
    using strip(1) so t rel(3,4) by (cases "x = [slash]") (auto simp: path_ok_def is_absolute_def)
  have "dir_names fs target = dir_names fs (strip_trailing out) @ filter plain_name (parse_path relative)"
    using so t by (simp add: dir_names_def is_absolute_def)
  then show "dir_names fs target = dir_names fs out @ filter plain_name (parse_path relative)" using strip(2) by simp
qed

lemma filter_plain_first:
  assumes "filter plain_name ns \<noteq> []"
  obtains x xs where "filter plain_name ns = x # xs" "x \<noteq> []"
proof -
  obtain x xs where x: "filter plain_name ns = x # xs" using assms by (cases "filter plain_name ns") simp_all
  then have "x \<in> set (filter plain_name ns)" by simp
  then have "x \<noteq> []" by (simp add: plain_name_def)
  with x show thesis by (rule that)
qed

text \<open>The target of an entry, taken apart.\<close>

lemma validated_target:
  assumes wf: "cwd_ok fs" "path_ok out" and j: "safe_join out relative = Inr target"
    and v: "validate_receive_target_parent fs out target relative = Inr ()"
    and names: "filter plain_name (parse_path relative) \<noteq> []"
  shows "check_parents fs relative ([slash] # dir_names fs out)
      (if plain_name (last (parse_path relative)) then butlast (filter plain_name (parse_path relative))
       else filter plain_name (parse_path relative)) = Inr ()"
proof -
  let ?rel = "parse_path relative" let ?rn = "filter plain_name ?rel" let ?dn = "dir_names fs out"
  note rel = safe_join_InrD [OF j]
  have ne: "?rel \<noteq> []" using names by auto
  note target = joined_target(1) [OF wf(2) j ne] and ok = joined_target(2,3,4) [OF wf(2) j ne]
  note norm = normalized_names [OF wf(1), of _ relative]
  obtain tr where root: "absolute_normalized fs out relative = Inr ([slash] # ?dn @ tr)" "tr = [] \<or> tr = [[]]"
    using norm [OF wf(2)] by (auto split: if_splits)
  have last: "last (absolute fs target) = last ?rel"
    using absolute_names(1) [OF wf(1) ok(1)] target ne strip_trailing_ok(4) [OF wf(2)] by (cases target) auto
  have tgt: "absolute_normalized fs target relative =
      Inr ([slash] # ?dn @ ?rn @ (if plain_name (last ?rel) then [] else [[]]))"
    using norm [OF ok(1)] last ok(3) names by simp
  let ?target = "[slash] # ?dn @ ?rn @ (if plain_name (last ?rel) then [] else [[]])"
  have "path_has_prefix ([slash] # ?dn @ tr) ?target"
    using v root tgt by (auto simp: validate_receive_target_parent_def refuse_def split: if_splits)
  moreover obtain x xs where "?rn = x # xs" "x \<noteq> []" by (rule filter_plain_first [OF names])
  ultimately have tr: "tr = []"
    using root(2) by (auto simp: path_has_prefix_append)
  define parts where "parts = (if plain_name (last ?rel) then butlast ?rn else ?rn)"
  have parent: "parent_path ?target = ([slash] # ?dn) @ parts"
    using names by (auto simp: parts_def butlast_append parent_path_def)
  have "check_parents fs relative ([slash] # ?dn) (lexically_relative (([slash] # ?dn) @ parts) ([slash] # ?dn)) = Inr ()"
    using v root(1) tgt tr parent
    by (auto simp: validate_receive_target_parent_def refuse_def Let_def split: if_splits sum.splits)
  then have "check_parents fs relative ([slash] # ?dn) parts = Inr ()"
  proof (cases parts)
    case Nil
    then show ?thesis by simp
  next
    case (Cons x xs)
    have "\<forall>n \<in> set parts. plain_name n" by (auto simp: parts_def dest: in_set_butlastD)
    then have "hd parts \<noteq> []" using Cons by (simp add: plain_name_def)
    then show ?thesis
      using \<open>check_parents _ _ _ (lexically_relative _ _) = _\<close> lexically_relative_below(1) [of parts "[slash] # ?dn"] Cons
      by simp
  qed
  then show ?thesis by (simp add: parts_def)
qed

text \<open>
  C7: when the checks accept an entry, the place on disk that its path leads to is the output
  directory followed by exactly the names of the entry's relative path: no symbolic link below
  the output directory is followed on the way, whatever the sender chose as path and whatever
  links are there. The path of the output directory must be given without \<open>..\<close> (after a link,
  \<open>..\<close> leads elsewhere than its removal), it must lead to an existing directory, the names of
  the working directory must be directories, and the entry's path must have at least one
  ordinary name (not only \<open>.\<close> or separators).
\<close>

theorem receive_target_contained:
  assumes "cwd_ok fs" and "path_ok out" and j: "safe_join out relative = Inr target"
    and v: "validate_receive_target_parent fs out target relative = Inr ()"
    and names: "filter plain_name (parse_path relative) \<noteq> []"
    and base: "resolve max_links (nodes fs) [] (dir_names fs out) True = Inr base" "is_dir (nodes fs) base"
    and loc: "locate fs target False = Inr loc"
  shows "loc = base @ filter plain_name (parse_path relative)"
proof -
  let ?rel = "parse_path relative" let ?dn = "dir_names fs out"
  note rel = safe_join_InrD [OF j]
  have ne: "?rel \<noteq> []" using names by auto
  define ms where "ms = butlast ?rel"
  define d where "d = last ?rel"
  have relms: "?rel = ms @ [d]" using ne by (simp add: ms_def d_def)
  have d: "d = [] \<or> d = ''.'' \<or> plain_name d"
    using rel relms by (auto simp: plain_name_def)
  have dots: "''..'' \<notin> set ms" "\<forall>n \<in> set ms. slash \<notin> set n" using rel(3,4) relms by auto
  have target: "target = strip_trailing out @ ?rel"
    using append_path_relative [OF assms(2) rel(2) ne] rel(1) by simp
  note strip = strip_trailing_ok [OF assms(2)]
  obtain fuel where fuel: "\<And>ys follow. ys \<noteq> [] \<Longrightarrow>
      resolve max_links (nodes fs) [] (?dn @ ys) follow = resolve fuel (nodes fs) base ys follow"
    using resolve_append [OF base] by blast
  have "locate fs target False = resolve max_links (nodes fs) (if is_absolute (strip_trailing out) then [] else cwd fs)
      ((if is_absolute (strip_trailing out) then tl (strip_trailing out) else strip_trailing out) @ ?rel) False"
    using target strip(4) by (cases "strip_trailing out") (auto simp: locate_def is_absolute_def)
  also have "\<dots> = resolve max_links (nodes fs) [] (?dn @ ?rel) False"
    using locate_names [OF assms(1) strip(1) ne] strip(2) by simp
  also have "\<dots> = resolve fuel (nodes fs) base (filter plain_name ms @ [d]) False"
    using fuel [OF ne] resolve_filter [OF dots, of "[d]" fuel "nodes fs" base "[]"] relms by simp
  finally have res: "resolve fuel (nodes fs) base (filter plain_name ms @ [d]) False = Inr loc"
    using loc by simp
  have parts: "(if plain_name (last ?rel) then butlast (filter plain_name ?rel) else filter plain_name ?rel) = filter plain_name ms"
    using relms by (auto simp: butlast_append)
  have "loc = base @ filter plain_name ms @ filter plain_name [d]"
  proof (rule check_parents_contained [OF validated_target [OF assms(1-5), unfolded parts] _ _ _ _ res d])
    show "is_absolute ([slash] # ?dn)" by (simp add: is_absolute_def)
    show "last ([slash] # ?dn) \<noteq> []" using dir_names_plain [of _ fs out] by (auto simp: plain_name_def)
  qed (use fuel in auto)
  then show ?thesis using relms by simp
qed

text \<open>A small file system: a working directory with an output directory that holds a link.\<close>

definition sample_nodes :: "location \<Rightarrow> node option" where
  "sample_nodes loc =
     (if loc = [''home''] \<or> loc = [''home'', ''out''] \<or> loc = [''home'', ''out'', ''d''] then Some Directory
      else if loc = [''home'', ''out'', ''l''] then Some (Symlink ''/etc'')
      else if loc = [''home'', ''out'', ''p.kikopart''] then Some (RegularFile [1, 2])
      else None)"

definition sample_fs :: file_system where
  "sample_fs = \<lparr>nodes = sample_nodes, cwd = [''home'']\<rparr>"

lemma sample_cwd_ok: "cwd_ok sample_fs"
proof -
  have "is_dir sample_nodes (take k [''home''])" for k
    by (cases k) (simp_all add: is_dir_def sample_nodes_def)
  then show ?thesis by (simp add: cwd_ok_def sample_fs_def plain_name_def slash_def)
qed

lemma sample_lookup [simp]: "nodes sample_fs = sample_nodes" "cwd sample_fs = [''home'']"
  by (simp_all add: sample_fs_def)

lemma sample_parse: "parse_path ''d/x'' = [''d'', ''x'']" "parse_path ''out'' = [''out'']" "parse_path ''.'' = [''.'']"
  "parse_path ''x'' = [''x'']"
  by code_simp+

lemma sample_join: "safe_join [''out''] ''d/x'' = Inr [''out'', ''d'', ''x'']"
  by (simp add: safe_join_def sample_parse is_absolute_def append_path_def filename_def slash_def Let_def)

lemma plain_samples [simp]: "plain_name ''home''" "plain_name ''out''" "plain_name ''d''" "plain_name ''x''" "\<not> plain_name []"
  "\<not> plain_name ''.''"
  by (simp_all add: plain_name_def slash_def)

lemma sample_normal:
  "absolute_normalized sample_fs [''out''] r = Inr [[slash], ''home'', ''out'']"
  "absolute_normalized sample_fs [''out'', ''d'', ''x''] r = Inr [[slash], ''home'', ''out'', ''d'', ''x'']"
  by (simp_all add: absolute_normalized_def absolute_def is_absolute_def append_path_def filename_def
      lexically_normal_def Let_def slash_def)

lemma sample_resolve:
  "resolve fuel sample_nodes [] [''home'', ''out'', ''d'', ''x''] f = Inr [''home'', ''out'', ''d'', ''x'']"
  "resolve fuel sample_nodes [] [''home'', ''out'', ''d''] f = Inr [''home'', ''out'', ''d'']"
  "resolve fuel sample_nodes [] [''home'', ''out''] f = Inr [''home'', ''out'']"
  "resolve fuel sample_nodes [] [''home''] f = Inr [''home'']"
  "resolve fuel sample_nodes [''home''] [''out'', ''d'', ''x''] f = Inr [''home'', ''out'', ''d'', ''x'']"
  by (simp_all add: resolve_plain sample_nodes_def)

lemma sample_canonical:
  "weakly_canonical sample_fs [[slash], ''home'', ''out''] = Inr [[slash], ''home'', ''out'']"
  "weakly_canonical sample_fs [[slash], ''home'', ''out'', ''d''] = Inr [[slash], ''home'', ''out'', ''d'']"
  by (simp_all add: weakly_canonical_def status_def node_at_def locate_def max_links_def is_absolute_def
      append_path_def filename_def sample_resolve path_of_location_def lexically_normal_def Let_def
      sample_nodes_def slash_def)

theorem receive_target_contained_witness:
  "locate sample_fs [''out'', ''d'', ''x''] False = Inr ([''home'', ''out''] @ filter plain_name (parse_path ''d/x''))"
proof -
  have v: "validate_receive_target_parent sample_fs [''out''] [''out'', ''d'', ''x''] ''d/x'' = Inr ()"
    by (simp add: validate_receive_target_parent_def sample_normal sample_canonical parent_path_def
        lexically_relative_def symlink_status_def node_at_def locate_def is_absolute_def append_path_def filename_def
        sample_resolve Let_def)
      (simp add: sample_nodes_def slash_def)
  have l: "locate sample_fs [''out'', ''d'', ''x''] False = Inr [''home'', ''out'', ''d'', ''x'']"
    by (simp add: locate_def is_absolute_def slash_def sample_resolve)
  have "[''home'', ''out'', ''d'', ''x''] = [''home'', ''out''] @ filter plain_name (parse_path ''d/x'')"
    by (rule receive_target_contained [OF sample_cwd_ok _ sample_join v _ _ _ l])
      (simp_all add: path_ok_def is_absolute_def slash_def dir_names_def sample_resolve sample_parse is_dir_def sample_nodes_def)
  with l show ?thesis by simp
qed

text \<open>
  An output directory that is given as \<open>.\<close> or with a trailing separator accepts nothing:
  the normal form of such a path ends with an empty element, which no target has in that place,
  so that every entry is refused as lying outside the directory. The default directory of the
  receiving programs is \<open>.\<close>.
\<close>

theorem dot_output_refuses_everything:
  assumes "cwd_ok fs" and "path_ok out" and "\<not> plain_name (last out)"
    and "dir_names fs out \<noteq> []" and j: "safe_join out relative = Inr target"
    and names: "filter plain_name (parse_path relative) \<noteq> []"
  shows "validate_receive_target_parent fs out target relative =
    Inl (''refusing receive target outside output directory: '' @ relative)"
proof -
  let ?rn = "filter plain_name (parse_path relative)" let ?dn = "dir_names fs out"
  have ne: "parse_path relative \<noteq> []" using names by auto
  note ok = joined_target(2) [OF assms(2) j ne] and dn = joined_target(4) [OF assms(2) j ne]
  obtain x xs where x: "?rn = x # xs" "x \<noteq> []" by (rule filter_plain_first [OF names])
  have "last (absolute fs out) = last out"
  proof (cases "is_absolute out")
    case True
    then show ?thesis by (simp add: absolute_def)
  next
    case False
    then show ?thesis using absolute_names(1) [OF assms(1,2)] assms(2) by (simp add: path_ok_def)
  qed
  then have root: "absolute_normalized fs out relative = Inr ([slash] # ?dn @ [[]])"
    using normalized_names [OF assms(1,2)] assms(3,4) by simp
  obtain tr where "absolute_normalized fs target relative = Inr ([slash] # (?dn @ ?rn) @ tr)"
    using normalized_names [OF assms(1) ok] dn by auto
  moreover have "\<not> path_has_prefix ([slash] # ?dn @ [[]]) ([slash] # (?dn @ ?rn) @ tr)"
    using x by (auto simp: path_has_prefix_append)
  ultimately show ?thesis
    using root by (simp add: validate_receive_target_parent_def refuse_def)
qed

lemma sample_join_dot: "safe_join [''.''] ''x'' = Inr [''.'', ''x'']"
  by (simp add: safe_join_def sample_parse is_absolute_def append_path_def filename_def slash_def Let_def)

theorem dot_output_refuses_everything_witness:
  "validate_receive_target_parent sample_fs [''.''] [''.'', ''x''] ''x'' =
    Inl ''refusing receive target outside output directory: x''"
proof -
  have "validate_receive_target_parent sample_fs [''.''] [''.'', ''x''] ''x'' =
    Inl (''refusing receive target outside output directory: '' @ ''x'')"
    by (rule dot_output_refuses_everything [OF sample_cwd_ok _ _ _ sample_join_dot])
      (simp_all add: path_ok_def is_absolute_def slash_def dir_names_def sample_parse)
  then show ?thesis by simp
qed

section \<open>What verification promises\<close>

lemma resolve_nofollow_same:
  "resolve fuel fs at ns False = Inr loc \<Longrightarrow> (\<nexists>t. fs loc = Some (Symlink t)) \<Longrightarrow> resolve fuel fs at ns True = Inr loc"
proof (induction fuel fs at ns False arbitrary: loc rule: resolve.induct)
  case (2 fuel fs at n ns)
  show ?case
    using 2 by (auto simp: resolve.simps(2) [of fuel fs at n ns] Let_def split: option.splits node.splits nat.splits if_splits)
qed simp

lemma status_of_regular:
  assumes "locate fs p False = Inr loc" "loc \<noteq> []" "nodes fs loc = Some (RegularFile c)"
  shows "status fs p = Inr (RegularFile c)"
proof -
  have "locate fs p True = Inr loc"
    using assms resolve_nofollow_same by (auto simp: locate_def split: if_splits)
  then show ?thesis using assms by (simp add: status_def node_at_def)
qed

lemma verify_received_InrD:
  assumes "verify_received_digest p relative received declared expected actual fs = (Inr (), fs')"
  shows "fs' = fs \<and> received = declared \<and> file_size fs p = Inr (unat declared) \<and> actual = expected"
  using assms by (auto simp: verify_received_digest_def split: sum.splits if_splits)

lemma verify_part_InrD:
  assumes "verify_part_file_digest sha256 p relative declared expected fs = (Inr (), fs')"
  shows "fs' = fs" and "\<exists>content. status fs p = Inr (RegularFile content) \<and> length content = unat declared \<and>
    hex_encode (sha256 content) = expected"
proof -
  obtain n where n: "file_size fs p = Inr n"
    using assms by (auto simp: verify_part_file_digest_def split: sum.splits)
  obtain actual where a: "sha256_file_hex sha256 p fs = Inr actual"
    using assms n by (auto simp: verify_part_file_digest_def split: sum.splits)
  note v = verify_received_InrD [of p relative "of_nat n" declared expected actual fs fs']
  show "fs' = fs" using assms n a v by (simp add: verify_part_file_digest_def)
  show "\<exists>content. status fs p = Inr (RegularFile content) \<and> length content = unat declared \<and>
    hex_encode (sha256 content) = expected"
    using assms n a v
    by (auto simp: verify_part_file_digest_def sha256_file_hex_def file_size_def split: sum.splits node.splits)
qed

text \<open>
  a file appears under its final name only with the declared size and digest: when the
  verification of the partial file and the replacement both succeed, the place of the final
  name holds exactly the verified bytes, the partial file is gone, and nothing else changed.
\<close>

theorem installed_file_is_verified:
  assumes "verify_part_file_digest sha256 part relative declared expected fs = (Inr (), fs1)"
    and "finalize_part_file part final fs1 = (Inr (), fs2)"
    and "locate fs part False = Inr a" "nodes fs a = Some (RegularFile c)" "locate fs final False = Inr b" "a \<noteq> b"
  shows "nodes fs2 b = Some (RegularFile c) \<and> length c = unat declared \<and> hex_encode (sha256 c) = expected \<and>
    nodes fs2 a = None \<and> (\<forall>loc. loc \<noteq> a \<and> loc \<noteq> b \<longrightarrow> nodes fs2 loc = nodes fs loc)"
proof -
  note v = verify_part_InrD [OF assms(1)]
  have r: "rename_path part final fs = (None, fs2)" "part \<noteq> []" "final \<noteq> []"
    using assms(2) v(1)
    by (auto simp: finalize_part_file_def atomic_replace_file_def replace_file_impl_def
        split: prod.splits option.splits if_splits)
  have a: "a \<noteq> []" using r(1) assms(3,5) by (auto simp: rename_path_def)
  have "length c = unat declared" "hex_encode (sha256 c) = expected"
    using v(2) status_of_regular [OF assms(3) a assms(4)] by auto
  moreover have "fs2 = put_node b (nodes fs a) (put_node a None fs)"
    using r(1) assms(3-6) by (auto simp: rename_path_def split: if_splits)
  ultimately show ?thesis using assms(4,6) by (simp add: put_node_def)
qed

theorem installed_file_is_verified_witness:
  "nodes (snd (finalize_part_file [''out'', ''p.kikopart''] [''out'', ''p''] sample_fs)) [''home'', ''out'', ''p''] =
     Some (RegularFile [1, 2])"
proof -
  let ?f = "finalize_part_file [''out'', ''p.kikopart''] [''out'', ''p''] sample_fs"
  have plain: "plain_name ''p''" "plain_name ''p.kikopart''" by (simp_all add: plain_name_def slash_def)
  have loc: "locate sample_fs [''out'', ''p.kikopart''] f = Inr [''home'', ''out'', ''p.kikopart'']"
    "locate sample_fs [''out'', ''p''] f = Inr [''home'', ''out'', ''p'']" for f
    using plain by (simp_all add: locate_def is_absolute_def slash_def resolve_plain sample_nodes_def)
  have v: "verify_part_file_digest (\<lambda>c. c) [''out'', ''p.kikopart''] ''p'' 2 ''0102'' sample_fs = (Inr (), sample_fs)"
    by (simp add: verify_part_file_digest_def file_size_def status_def node_at_def loc sha256_file_hex_def
        verify_received_digest_def sample_nodes_def)
      code_simp
  have "?f = (Inr (), snd ?f)"
    by (simp add: finalize_part_file_def atomic_replace_file_def replace_file_impl_def rename_path_def loc)
      (simp add: sample_nodes_def)
  from installed_file_is_verified [OF v this loc(1) _ loc(2), of "[1, 2]"]
  show ?thesis by (simp add: sample_nodes_def)
qed

text \<open>
  a received file whose size or digest is wrong does not stay behind as a partial file: it
  is removed, and nothing else is touched, so that the next attempt starts from the beginning.
\<close>

theorem failed_verification_removes_part:
  assumes "verify_received_digest part relative received declared expected actual fs = (Inl e, fs')"
    and "locate fs part False = Inr loc" "nodes fs loc = Some (RegularFile c)" "loc \<noteq> []"
  shows "nodes fs' loc = None \<and> (\<forall>l. l \<noteq> loc \<longrightarrow> nodes fs' l = nodes fs l)"
  using assms
  by (auto simp: verify_received_digest_def remove_path_def put_node_def split: sum.splits if_splits)

theorem failed_verification_removes_part_witness:
  "nodes (snd (verify_received_digest [''out'', ''p.kikopart''] ''p'' 2 2 ''00'' ''0102'' sample_fs))
     [''home'', ''out'', ''p.kikopart''] = None"
proof -
  have loc: "locate sample_fs [''out'', ''p.kikopart''] f = Inr [''home'', ''out'', ''p.kikopart'']" for f
    by (simp add: locate_def is_absolute_def slash_def resolve_plain sample_nodes_def plain_name_def)
  obtain e fs' where v: "verify_received_digest [''out'', ''p.kikopart''] ''p'' 2 2 ''00'' ''0102'' sample_fs = (Inl e, fs')"
    by (simp add: verify_received_digest_def file_size_def status_def node_at_def loc sample_nodes_def)
  show ?thesis
    using failed_verification_removes_part [OF v loc] v by (simp add: sample_nodes_def)
qed

end
