(* ===== verification/Transfer_Manifest.thy ===== *)
theory Transfer_Manifest
  imports Protocol Paths
begin

text \<open>
  \<open>src/transfer/transfer_manifest.hpp\<close>, \<open>src/transfer/transfer_manifest.cpp\<close> and the file
  entries of \<open>src/transfer/transfer.hpp\<close>: the list of entries that opens a transfer. The JSON
  text is the library's, as in \<open>Protocol\<close>; object fields are in the order of their keys.
\<close>

section \<open>File entries\<close>

datatype entry_kind = FileKind | DirectoryKind | SymlinkKind

record file_entry =
  fe_absolute :: path
  fe_relative :: string
  fe_size :: u64
  fe_imohash :: string
  fe_mtime_ms :: u64
  fe_mode :: u32
  fe_symlink :: bool
  fe_link_target :: string

definition transfer_entry_kind :: "file_entry \<Rightarrow> entry_kind" where
  "transfer_entry_kind e =
     (if fe_symlink e then SymlinkKind
      else if fe_size e = 0 \<and> fe_relative e \<noteq> [] \<and> last (fe_relative e) = slash then DirectoryKind
      else FileKind)"

definition transfer_entry_kind_name :: "entry_kind \<Rightarrow> string" where
  "transfer_entry_kind_name k = (case k of FileKind \<Rightarrow> ''file'' | DirectoryKind \<Rightarrow> ''dir'' | SymlinkKind \<Rightarrow> ''symlink'')"

record manifest_entry =
  me_path :: string
  me_size :: u64
  me_kind :: string
  me_target :: string
  me_imohash :: string
  me_mtime_ms :: u64
  me_mode :: u32

record transfer_manifest =
  tm_entries :: "manifest_entry list"
  tm_total_size :: u64

definition kMaxTransferManifestBytes :: nat where "kMaxTransferManifestBytes = 16 * 1024 * 1024"
definition kMaxTransferManifestEntries :: nat where "kMaxTransferManifestEntries = 65536"
definition kMaxTransferPathBytes :: nat where "kMaxTransferPathBytes = 4096"
definition kMaxTransferMetadataBytes :: nat where "kMaxTransferMetadataBytes = 4096"

section \<open>Fields\<close>

definition manifest_string_field :: "(string, json) omap \<Rightarrow> string \<Rightarrow> string \<Rightarrow> string result" where
  "manifest_string_field obj key fallback =
     (case map_of obj key of
        None \<Rightarrow> Inr fallback
      | Some (JString s) \<Rightarrow> Inr s
      | Some _ \<Rightarrow> Inl (''manifest field must be a string: '' @ key))"

definition manifest_u64_field :: "(string, json) omap \<Rightarrow> string \<Rightarrow> u64 \<Rightarrow> u64 result" where
  "manifest_u64_field obj key fallback =
     (case map_of obj key of
        None \<Rightarrow> Inr fallback
      | Some (JUnsigned n) \<Rightarrow> Inr n
      | Some (JInteger n) \<Rightarrow>
          (if sint n < 0 then Inl (''manifest field must be unsigned: '' @ key) else Inr n)
      | Some (JString s) \<Rightarrow>
          (case parse_u64_strict s of
             Some n \<Rightarrow> Inr n
           | None \<Rightarrow> Inl (''manifest field must be an unsigned integer: '' @ key))
      | Some _ \<Rightarrow> Inl (''manifest field must be an unsigned integer: '' @ key))"

definition manifest_u32_field :: "(string, json) omap \<Rightarrow> string \<Rightarrow> u32 \<Rightarrow> u32 result" where
  "manifest_u32_field obj key fallback =
     andthen (manifest_u64_field obj key (ucast fallback)) (\<lambda>v.
       if 4294967295 < v then Inl (''manifest field is too large: '' @ key) else Inr (ucast v))"

definition validate_manifest_entry_fields :: "string \<Rightarrow> string \<Rightarrow> string \<Rightarrow> string \<Rightarrow> unit result" where
  "validate_manifest_entry_fields p k target imohash =
     (if p = [] then Inl ''transfer manifest entry missing path''
      else if CHR 0x00 \<in> set p then Inl ''transfer manifest path contains a null byte''
      else if kMaxTransferPathBytes < length p then Inl ''transfer manifest path is too long''
      else if 16 < length k then Inl ''transfer manifest kind is too long''
      else if kMaxTransferMetadataBytes < length target then Inl ''transfer manifest symlink target is too long''
      else if CHR 0x00 \<in> set target then Inl ''transfer manifest symlink target contains a null byte''
      else if 128 < length imohash then Inl ''transfer manifest imohash is too long''
      else Inr ())"

definition add_manifest_size :: "u64 \<Rightarrow> u64 \<Rightarrow> string \<Rightarrow> u64 result" where
  "add_manifest_size total_size sz relative =
     (if max_u64 - total_size < sz then Inl (''manifest total size overflow near '' @ relative)
      else Inr (total_size + sz))"

section \<open>Encoding\<close>

definition kind_name_of :: "file_entry \<Rightarrow> string" where
  "kind_name_of e = transfer_entry_kind_name (transfer_entry_kind e)"

definition json_put_if :: "bool \<Rightarrow> string \<Rightarrow> json \<Rightarrow> (string, json) omap \<Rightarrow> (string, json) omap" where
  "json_put_if b k v obj = (if b then omap_put k v obj else obj)"

definition entry_item :: "file_entry \<Rightarrow> json" where
  "entry_item e =
     JObject
       ((json_put_if (0 < fe_mode e) ''mode'' (JUnsigned (ucast (fe_mode e))) \<circ>
         json_put_if (0 < fe_mtime_ms e) ''mtime_ms'' (JUnsigned (fe_mtime_ms e)) \<circ>
         json_put_if (fe_link_target e \<noteq> []) ''target'' (JString (fe_link_target e)) \<circ>
         json_put_if (fe_imohash e \<noteq> []) ''imohash'' (JString (fe_imohash e)) \<circ>
         omap_put ''size'' (JUnsigned (fe_size e)) \<circ>
         omap_put ''kind'' (JString (kind_name_of e)) \<circ>
         omap_put ''path'' (JString (fe_relative e))) [])"

text \<open>The loop over the files: the items so far, the total size, the estimated length of the text.\<close>

fun encode_entries :: "file_entry list \<Rightarrow> json list \<Rightarrow> u64 \<Rightarrow> nat \<Rightarrow> (json list \<times> u64) result" where
  "encode_entries [] items total_size estimated = Inr (items, total_size)"
| "encode_entries (e # es) items total_size estimated =
     andthen (validate_manifest_entry_fields (fe_relative e) (kind_name_of e) (fe_link_target e) (fe_imohash e)) (\<lambda>_.
       let entry_size = length (fe_relative e) + length (fe_link_target e) + length (fe_imohash e) + 256 in
       if kMaxTransferManifestBytes - estimated < entry_size then Inl ''transfer manifest is too large''
       else andthen
         (if transfer_entry_kind e = FileKind then add_manifest_size total_size (fe_size e) (fe_relative e) else Inr total_size)
         (\<lambda>total_size'. encode_entries es (items @ [entry_item e]) total_size' (estimated + entry_size)))"

definition manifest_root :: "nat \<Rightarrow> json list \<Rightarrow> u64 \<Rightarrow> json" where
  "manifest_root n items total_size =
     JObject
       ((omap_put ''total_size'' (JUnsigned total_size) \<circ>
         omap_put ''count'' (JUnsigned (of_nat n)) \<circ>
         omap_put ''entries'' (JArray items) \<circ>
         omap_put ''version'' (JUnsigned 1)) [])"

definition encode_transfer_manifest :: "(json \<Rightarrow> string result) \<Rightarrow> file_entry list \<Rightarrow> string result" where
  "encode_transfer_manifest dump files =
     (if kMaxTransferManifestEntries < length files then Inl ''transfer manifest has too many entries''
      else andthen (encode_entries files [] 0 128) (\<lambda>(items, total_size).
        andthen (dump (manifest_root (length files) items total_size)) (\<lambda>encoded.
          if kMaxTransferManifestBytes < length encoded then Inl ''transfer manifest is too large'' else Inr encoded)))"

section \<open>Decoding\<close>

definition decode_entry :: "json \<Rightarrow> manifest_entry result" where
  "decode_entry item =
     (case item of
        JObject obj \<Rightarrow>
          andthen (manifest_string_field obj ''path'' []) (\<lambda>p.
          andthen (manifest_string_field obj ''kind'' ''file'') (\<lambda>k.
          andthen (manifest_u64_field obj ''size'' 0) (\<lambda>sz.
          andthen (manifest_string_field obj ''target'' []) (\<lambda>target.
          andthen (manifest_string_field obj ''imohash'' []) (\<lambda>imohash.
          andthen (manifest_u64_field obj ''mtime_ms'' 0) (\<lambda>mtime.
          andthen (manifest_u32_field obj ''mode'' 0) (\<lambda>mode.
          andthen (validate_manifest_entry_fields p k target imohash) (\<lambda>_.
            Inr \<lparr>me_path = p, me_size = sz, me_kind = k, me_target = target, me_imohash = imohash,
                 me_mtime_ms = mtime, me_mode = mode\<rparr>))))))))
      | _ \<Rightarrow> Inl ''transfer manifest entry must be a json object'')"

fun decode_entries :: "json list \<Rightarrow> manifest_entry list \<Rightarrow> u64 \<Rightarrow> (manifest_entry list \<times> u64) result" where
  "decode_entries [] entries computed = Inr (entries, computed)"
| "decode_entries (item # items) entries computed =
     andthen (decode_entry item) (\<lambda>e.
     andthen (if me_kind e = ''file'' then add_manifest_size computed (me_size e) (me_path e) else Inr computed) (\<lambda>computed'.
       decode_entries items (entries @ [e]) computed'))"

definition decode_transfer_manifest :: "(string \<Rightarrow> json result) \<Rightarrow> string \<Rightarrow> transfer_manifest result" where
  "decode_transfer_manifest parse text =
     (if kMaxTransferManifestBytes < length text then Inl ''transfer manifest is too large''
      else case parse text of
        Inl e \<Rightarrow> Inl (''invalid transfer manifest json: '' @ e)
      | Inr (JObject root) \<Rightarrow>
          andthen (manifest_u64_field root ''version'' 1) (\<lambda>version.
          if version \<noteq> 1 then Inl (''unsupported transfer manifest version: '' @ to_dec (unat version))
          else case map_of root ''entries'' of
            Some (JArray items) \<Rightarrow>
              (if kMaxTransferManifestEntries < length items then Inl ''transfer manifest has too many entries''
               else
                 andthen (decode_entries items [] 0) (\<lambda>(entries, computed).
                 andthen (manifest_u64_field root ''count'' (of_nat (length entries))) (\<lambda>declared_count.
                 if declared_count \<noteq> of_nat (length entries) then Inl ''transfer manifest count mismatch''
                 else andthen (manifest_u64_field root ''total_size'' computed) (\<lambda>declared_total.
                   if declared_total \<noteq> computed then Inl ''transfer manifest total_size mismatch''
                   else Inr \<lparr>tm_entries = entries, tm_total_size = computed\<rparr>))))
          | _ \<Rightarrow> Inl ''transfer manifest missing entries'')
      | Inr _ \<Rightarrow> Inl ''transfer manifest must be a json object'')"

section \<open>Sizes add up without wrap-around\<close>

lemma unat_minus_one_word_u64: "unat (- 1 :: u64) = 18446744073709551615"
  by (simp add: unsigned_minus_1_eq_mask mask_eq_exp_minus_1)

lemma add_manifest_size_iff:
  "add_manifest_size t n r = Inr t' \<longleftrightarrow> unat t + unat n < 2 ^ 64 \<and> t' = t + n"
proof -
  have "unat (max_u64 - t) = 2 ^ 64 - 1 - unat t"
    using unat_sub [of t max_u64] by (simp add: max_u64_def unat_minus_one_word_u64)
  then show ?thesis
    using u64_less_bound [of t] by (auto simp: add_manifest_size_def word_less_nat_alt)
qed

lemma add_manifest_size_unat: "add_manifest_size t n r = Inr t' \<Longrightarrow> unat t' = unat t + unat n"
  by (auto simp: add_manifest_size_iff unat_u64_add_noov)

definition file_bytes :: "manifest_entry list \<Rightarrow> nat" where
  "file_bytes es = sum_list (map (\<lambda>e. if me_kind e = ''file'' then unat (me_size e) else 0) es)"

lemma decode_entries_props:
  "decode_entries items entries computed = Inr (entries', computed') \<Longrightarrow>
     \<exists>new. entries' = entries @ new \<and> length new = length items \<and> unat computed' = unat computed + file_bytes new \<and>
       (\<forall>e \<in> set new. validate_manifest_entry_fields (me_path e) (me_kind e) (me_target e) (me_imohash e) = Inr ())"
proof (induction items entries computed rule: decode_entries.induct)
  case (1 entries computed)
  then show ?case by (simp add: file_bytes_def)
next
  case (2 item items entries computed)
  obtain e where e: "decode_entry item = Inr e" using 2(2) by (auto simp: andthen_Inr_iff)
  obtain c where c: "(if me_kind e = ''file'' then add_manifest_size computed (me_size e) (me_path e) else Inr computed) = Inr c"
    and rest: "decode_entries items (entries @ [e]) c = Inr (entries', computed')"
    using 2(2) e by (auto simp: andthen_Inr_iff)
  have valid: "validate_manifest_entry_fields (me_path e) (me_kind e) (me_target e) (me_imohash e) = Inr ()"
    using e by (auto simp: decode_entry_def andthen_Inr_iff split: json.splits)
  have "unat c = unat computed + (if me_kind e = ''file'' then unat (me_size e) else 0)"
    using c add_manifest_size_unat by (auto split: if_splits)
  moreover obtain new where "entries' = (entries @ [e]) @ new" "length new = length items"
    "unat computed' = unat c + file_bytes new"
    "\<forall>e \<in> set new. validate_manifest_entry_fields (me_path e) (me_kind e) (me_target e) (me_imohash e) = Inr ()"
    using 2(1) [OF e c rest] by blast
  ultimately show ?case
    using valid by (intro exI [of _ "e # new"]) (simp add: file_bytes_def)
qed

lemma decode_manifest_entries:
  assumes "decode_transfer_manifest parse text = Inr m"
  obtains items where "length items \<le> kMaxTransferManifestEntries"
    "decode_entries items [] 0 = Inr (tm_entries m, tm_total_size m)"
  using assms
  by (auto simp: decode_transfer_manifest_def andthen_Inr_iff not_less split: if_splits sum.splits json.splits option.splits)

text \<open>
  C9: whatever text a peer sends as its manifest, an accepted manifest has at most 65536
  entries, each with a nonempty path without null bytes of at most 4096 bytes, and its total
  size is the true sum of the sizes of its files, with no wrap-around.
\<close>

theorem accepted_manifest_is_bounded:
  assumes "decode_transfer_manifest parse text = Inr m"
  shows "length (tm_entries m) \<le> 65536 \<and> unat (tm_total_size m) = file_bytes (tm_entries m) \<and>
    (\<forall>e \<in> set (tm_entries m). me_path e \<noteq> [] \<and> CHR 0x00 \<notin> set (me_path e) \<and> length (me_path e) \<le> 4096)"
proof -
  obtain items where i: "length items \<le> kMaxTransferManifestEntries"
    "decode_entries items [] 0 = Inr (tm_entries m, tm_total_size m)"
    using decode_manifest_entries [OF assms] .
  then show ?thesis
    using decode_entries_props [OF i(2)]
    by (auto simp: kMaxTransferManifestEntries_def validate_manifest_entry_fields_def kMaxTransferPathBytes_def
        split: if_splits)
qed

theorem accepted_manifest_is_bounded_witness:
  "unat (tm_total_size \<lparr>tm_entries = [\<lparr>me_path = ''a'', me_size = 7, me_kind = ''file'', me_target = [], me_imohash = [],
     me_mtime_ms = 0, me_mode = 0\<rparr>], tm_total_size = 7\<rparr>) = 7"
proof -
  let ?root = "JObject [(''entries'', JArray [JObject [(''path'', JString ''a''), (''size'', JUnsigned 7)]])]"
  let ?m = "\<lparr>tm_entries = [\<lparr>me_path = ''a'', me_size = 7, me_kind = ''file'', me_target = [], me_imohash = [],
     me_mtime_ms = 0, me_mode = 0\<rparr>], tm_total_size = 7\<rparr>"
  have "decode_transfer_manifest (\<lambda>_. Inr ?root) ''{}'' = Inr ?m"
    by (simp add: decode_transfer_manifest_def kMaxTransferManifestBytes_def kMaxTransferManifestEntries_def
        manifest_u64_field_def manifest_string_field_def manifest_u32_field_def decode_entry_def
        validate_manifest_entry_fields_def kMaxTransferPathBytes_def kMaxTransferMetadataBytes_def
        add_manifest_size_def max_u64_def)
  from accepted_manifest_is_bounded [OF this] show ?thesis by (simp add: file_bytes_def)
qed

section \<open>Round trip\<close>

definition entry_of :: "file_entry \<Rightarrow> manifest_entry" where
  "entry_of e = \<lparr>me_path = fe_relative e, me_size = fe_size e, me_kind = kind_name_of e, me_target = fe_link_target e,
     me_imohash = fe_imohash e, me_mtime_ms = fe_mtime_ms e, me_mode = fe_mode e\<rparr>"

lemma map_of_json_put_if [simp]: "map_of (json_put_if b k v obj) j = (if b \<and> j = k then Some v else map_of obj j)"
  by (simp add: json_put_if_def)

lemma ucast_u32_small: "\<not> 4294967295 < (ucast (m :: u32) :: u64)"
proof -
  have "unat (ucast m :: u64) = unat m" by (rule unsigned_ucast_eq [THEN trans]) (use u32_less_bound [of m] in \<open>simp add: take_bit_nat_eq_self\<close>)
  then show ?thesis using u32_less_bound [of m] by (simp add: word_less_nat_alt)
qed

lemma ucast_u32_u64_u32 [simp]: "ucast (ucast (m :: u32) :: u64) = m"
  by (rule ucast_up_ucast_id) (simp add: is_up)

lemma decode_entry_item:
  assumes "validate_manifest_entry_fields (fe_relative e) (kind_name_of e) (fe_link_target e) (fe_imohash e) = Inr ()"
  shows "decode_entry (entry_item e) = Inr (entry_of e)"
proof -
  have pos: "0 < fe_mode e \<longleftrightarrow> fe_mode e \<noteq> 0" "0 < fe_mtime_ms e \<longleftrightarrow> fe_mtime_ms e \<noteq> 0"
    by (simp_all add: word_gt_0)
  show ?thesis
    using assms
    by (auto simp: entry_item_def decode_entry_def manifest_string_field_def manifest_u64_field_def
        manifest_u32_field_def entry_of_def ucast_u32_small pos Let_def)
qed

lemma kind_is_file: "kind_name_of e = ''file'' \<longleftrightarrow> transfer_entry_kind e = FileKind"
  by (cases "transfer_entry_kind e") (simp_all add: kind_name_of_def transfer_entry_kind_name_def)

lemma encode_entries_back:
  "encode_entries es items t est = Inr (items', t') \<Longrightarrow>
     items' = items @ map entry_item es \<and> (\<forall>done. decode_entries (map entry_item es) done t = Inr (done @ map entry_of es, t'))"
proof (induction es items t est rule: encode_entries.induct)
  case (2 e es items t est)
  let ?size = "length (fe_relative e) + length (fe_link_target e) + length (fe_imohash e) + 256"
  let ?add = "if transfer_entry_kind e = FileKind then add_manifest_size t (fe_size e) (fe_relative e) else Inr t"
  have v: "validate_manifest_entry_fields (fe_relative e) (kind_name_of e) (fe_link_target e) (fe_imohash e) = Inr ()"
    and s: "\<not> kMaxTransferManifestBytes - est < ?size"
    using 2(2) by (auto simp: andthen_Inr_iff Let_def split: if_splits)
  obtain u where u: "?add = Inr u" and r: "encode_entries es (items @ [entry_item e]) u (est + ?size) = Inr (items', t')"
    using 2(2) v s by (auto simp: andthen_Inr_iff Let_def split: if_splits)
  have add: "(if me_kind (entry_of e) = ''file'' then add_manifest_size t (me_size (entry_of e)) (me_path (entry_of e))
      else Inr t) = Inr u"
    using u by (auto simp: entry_of_def kind_is_file split: if_splits)
  have "items' = (items @ [entry_item e]) @ map entry_item es \<and>
      (\<forall>done. decode_entries (map entry_item es) done u = Inr (done @ map entry_of es, t'))"
    using 2(1) [OF v refl s u r] .
  then show ?case using add by (simp add: decode_entry_item [OF v])
qed simp

text \<open>
  C8: the receiver reads from the manifest exactly the entries that the sender listed, in the
  same order, with their kinds, sizes, targets and metadata; every manifest the sender can
  encode is accepted.
\<close>

theorem manifest_roundtrip:
  assumes "json_inverse dump parse" and "encode_transfer_manifest dump files = Inr text"
  shows "\<exists>m. decode_transfer_manifest parse text = Inr m \<and> tm_entries m = map entry_of files \<and>
    unat (tm_total_size m) = file_bytes (map entry_of files)"
proof -
  obtain items t where e: "encode_entries files [] 0 128 = Inr (items, t)"
    and d: "dump (manifest_root (length files) items t) = Inr text"
    and sz: "\<not> kMaxTransferManifestEntries < length files" "\<not> kMaxTransferManifestBytes < length text"
    using assms(2) by (auto simp: encode_transfer_manifest_def andthen_Inr_iff split: if_splits)
  have p: "parse text = Inr (manifest_root (length files) items t)"
    using assms(1) d by (simp add: json_inverse_def)
  have b: "items = map entry_item files" "decode_entries items [] 0 = Inr (map entry_of files, t)"
    using encode_entries_back [OF e] by auto
  have "decode_transfer_manifest parse text = Inr \<lparr>tm_entries = map entry_of files, tm_total_size = t\<rparr>"
    using sz b by (simp add: decode_transfer_manifest_def p manifest_root_def manifest_u64_field_def)
  moreover have "unat t = file_bytes (map entry_of files)"
    using decode_entries_props [OF b(2)] by auto
  ultimately show ?thesis by auto
qed

definition sample_entry :: "string \<Rightarrow> u64 \<Rightarrow> file_entry" where
  "sample_entry rel n = \<lparr>fe_absolute = [[slash], rel], fe_relative = rel, fe_size = n, fe_imohash = ''ab'', fe_mtime_ms = 5,
     fe_mode = 64, fe_symlink = False, fe_link_target = []\<rparr>"

text \<open>A printer that knows one document, and the reader of it.\<close>

definition one_dump :: "json \<Rightarrow> json \<Rightarrow> string result" where
  "one_dump j k = (if k = j then Inr ''doc'' else Inl ''unknown'')"

definition one_parse :: "json \<Rightarrow> string \<Rightarrow> json result" where
  "one_parse j s = (if s = ''doc'' then Inr j else Inl ''unknown'')"

lemma one_inverse: "json_inverse (one_dump j) (one_parse j)"
  by (simp add: json_inverse_def one_dump_def one_parse_def)

theorem manifest_roundtrip_witness:
  "\<exists>m. decode_transfer_manifest
      (one_parse (manifest_root 2 [entry_item (sample_entry ''a'' 7), entry_item (sample_entry ''b'' 5)] 12)) ''doc'' = Inr m \<and>
    length (tm_entries m) = 2"
proof -
  let ?files = "[sample_entry ''a'' 7, sample_entry ''b'' 5]"
  let ?root = "manifest_root 2 (map entry_item ?files) 12"
  have k: "transfer_entry_kind (sample_entry ''a'' 7) = FileKind" "transfer_entry_kind (sample_entry ''b'' 5) = FileKind"
    by (simp_all add: transfer_entry_kind_def sample_entry_def)
  have "encode_entries ?files [] 0 128 = Inr (map entry_item ?files, 12)"
    by (simp add: k kind_name_of_def transfer_entry_kind_name_def validate_manifest_entry_fields_def add_manifest_size_def
        max_u64_def kMaxTransferPathBytes_def kMaxTransferMetadataBytes_def kMaxTransferManifestBytes_def Let_def)
      (simp add: sample_entry_def)
  then have "encode_transfer_manifest (one_dump ?root) ?files = Inr ''doc''"
    unfolding encode_transfer_manifest_def
    by (simp del: encode_entries.simps add: kMaxTransferManifestEntries_def kMaxTransferManifestBytes_def one_dump_def
        numeral_2_eq_2)
  from manifest_roundtrip [OF one_inverse this] show ?thesis by auto
qed

end
