(* ===== verification/Transfer_IO.thy ===== *)
theory Transfer_IO
  imports Transfer_Frames Receive_Paths
begin

text \<open>
  What the transfer sessions act on: the file system, the frames that arrive on the control
  channel, the frames that have been sent, the progress events and the metadata applied to
  files. An operation is a function on this state with a result; an error is an exception.
  Also here: \<open>apply_file_metadata\<close> of \<open>src/transfer/file_metadata.cpp\<close>.
\<close>

record transfer_io =
  xi_fs :: file_system
  xi_arriving :: "tagged_frame option result list" \<comment> \<open>what the next calls of \<open>recv_tagged\<close> give\<close>
  xi_sent :: "tagged_frame list"
  xi_send_faults :: "string option list" \<comment> \<open>the outcomes of the next sends; then they succeed\<close>
  xi_events :: "progress_event list"
  xi_metadata :: "(path \<times> u32 \<times> u64) list" \<comment> \<open>execute bits and times given to files\<close>

type_synonym 'a xfer = "transfer_io \<Rightarrow> 'a result \<times> transfer_io"

definition xret :: "'a \<Rightarrow> 'a xfer" where "xret x io = (Inr x, io)"

definition xfail :: "string \<Rightarrow> 'a xfer" where "xfail e io = (Inl e, io)"

definition xbind :: "'a xfer \<Rightarrow> ('a \<Rightarrow> 'b xfer) \<Rightarrow> 'b xfer" where
  "xbind m f io = (case m io of (Inl e, io1) \<Rightarrow> (Inl e, io1) | (Inr x, io1) \<Rightarrow> f x io1)"

definition xthen :: "unit xfer \<Rightarrow> 'b xfer \<Rightarrow> 'b xfer" where
  "xthen m k = xbind m (\<lambda>_. k)"

definition xlift :: "'a result \<Rightarrow> 'a xfer" where "xlift r io = (r, io)"

definition xget :: "(transfer_io \<Rightarrow> 'a) \<Rightarrow> 'a xfer" where "xget f io = (Inr (f io), io)"

definition xguard :: "bool \<Rightarrow> string \<Rightarrow> unit xfer" where
  "xguard b e = (if b then xret () else xfail e)"

definition emit :: "progress_event \<Rightarrow> unit xfer" where
  "emit e io = (Inr (), io\<lparr>xi_events := xi_events io @ [e]\<rparr>)"

text \<open>A check of the file system, and an operation on it.\<close>

definition xcheck :: "(file_system \<Rightarrow> 'a result) \<Rightarrow> 'a xfer" where
  "xcheck f io = (f (xi_fs io), io)"

definition xfs :: "'a fs_op \<Rightarrow> 'a xfer" where
  "xfs f io = (let (r, fs) = f (xi_fs io) in (r, io\<lparr>xi_fs := fs\<rparr>))"

text \<open>\<open>create_directories\<close> throws what the error code says.\<close>

definition xmkdirs :: "path \<Rightarrow> unit xfer" where
  "xmkdirs p = xfs (\<lambda>fs. case create_directories p fs of
     (None, fs1) \<Rightarrow> (Inr (), fs1) | (Some e, fs1) \<Rightarrow> (Inl (os_message e), fs1))"

text \<open>\<open>recv_tagged\<close>: no more frames is the end of the stream.\<close>

definition xrecv :: "tagged_frame option xfer" where
  "xrecv io =
     (case xi_arriving io of
        [] \<Rightarrow> (Inr None, io)
      | f # fs \<Rightarrow> (f, io\<lparr>xi_arriving := fs\<rparr>))"

definition xsend :: "stream_tag \<Rightarrow> bytes \<Rightarrow> unit xfer" where
  "xsend tag payload io =
     (let io1 = io\<lparr>xi_send_faults := tl (xi_send_faults io)\<rparr> in
      case xi_send_faults io of
        Some e # _ \<Rightarrow> (Inl e, io1)
      | _ \<Rightarrow> (Inr (), io1\<lparr>xi_sent := xi_sent io @ [\<lparr>tf_tag = tag, tf_payload = payload\<rparr>]\<rparr>))"

definition xsend_message :: "(json \<Rightarrow> string result) \<Rightarrow> stream_tag \<Rightarrow> message \<Rightarrow> unit xfer" where
  "xsend_message dump tag m = xbind (xlift (encode_message dump m)) (\<lambda>text. xsend tag (bytes_of text))"

section \<open>Metadata\<close>

definition kExecMask :: u32 where "kExecMask = 0x49"

text \<open>\<open>apply_file_mode_bits\<close> and \<open>apply_mtime_ms\<close> ignore errors; zero means nothing to apply.\<close>

definition apply_metadata :: "path \<Rightarrow> u32 \<Rightarrow> u64 \<Rightarrow> unit xfer" where
  "apply_metadata p mode mtime io =
     (Inr (), io\<lparr>xi_metadata := xi_metadata io @
        (if mode AND kExecMask \<noteq> 0 \<or> mtime \<noteq> 0 then [(p, mode AND kExecMask, mtime)] else [])\<rparr>)"

definition apply_file_metadata :: "path \<Rightarrow> message \<Rightarrow> unit xfer" where
  "apply_file_metadata p header =
     xbind (xlift (msg_get_u64 header ''mode'' 0)) (\<lambda>mode.
     xthen (apply_metadata p (ucast mode) 0)
     (xbind (xlift (msg_get_u64 header ''mtime_ms'' 0)) (\<lambda>mtime.
      apply_metadata p 0 mtime)))"

section \<open>Laws\<close>

lemma xbind_simps [simp]:
  "xbind (xret x) f = f x" "xbind (xfail e) f = xfail e" "xbind (xlift (Inr x)) f = f x" "xbind (xlift (Inl e)) f = xfail e"
  by (simp_all add: fun_eq_iff xbind_def xret_def xfail_def xlift_def)

lemma xbind_Inr:
  "xbind m f io = (Inr y, io') \<longleftrightarrow> (\<exists>x io1. m io = (Inr x, io1) \<and> f x io1 = (Inr y, io'))"
  by (auto simp: xbind_def split: prod.split sum.split)

lemma xthen_Inr:
  "xthen m k io = (Inr y, io') \<longleftrightarrow> (\<exists>io1. m io = (Inr (), io1) \<and> k io1 = (Inr y, io'))"
  by (auto simp: xthen_def xbind_Inr)

lemma xprim_Inr:
  "xret x io = (Inr y, io') \<longleftrightarrow> y = x \<and> io' = io"
  "xfail e io = (Inr z, io') \<longleftrightarrow> False"
  "xlift r io = (Inr x, io') \<longleftrightarrow> r = Inr x \<and> io' = io"
  "xget g io = (Inr v, io') \<longleftrightarrow> v = g io \<and> io' = io"
  "xguard b e io = (Inr (), io') \<longleftrightarrow> b \<and> io' = io"
  "emit ev io = (Inr (), io') \<longleftrightarrow> io' = io\<lparr>xi_events := xi_events io @ [ev]\<rparr>"
  "xcheck f io = (Inr w, io') \<longleftrightarrow> f (xi_fs io) = Inr w \<and> io' = io"
  by (auto simp: xret_def xfail_def xlift_def xget_def xguard_def emit_def xcheck_def)

lemmas xfer_Inr = xbind_Inr xthen_Inr xprim_Inr

text \<open>The same, for the steps that leave the state alone.\<close>

lemma xrun_Inr:
  "xthen (xguard b e) k io = (Inr y, io') \<longleftrightarrow> b \<and> k io = (Inr y, io')"
  "xbind (xlift r) f io = (Inr y, io') \<longleftrightarrow> (\<exists>x. r = Inr x \<and> f x io = (Inr y, io'))"
  "xthen (xlift q) k io = (Inr y, io') \<longleftrightarrow> q = Inr () \<and> k io = (Inr y, io')"
  "xbind (xget g) h io = (Inr y, io') \<longleftrightarrow> h (g io) io = (Inr y, io')"
  "xbind (xcheck c) m io = (Inr y, io') \<longleftrightarrow> (\<exists>x. c (xi_fs io) = Inr x \<and> m x io = (Inr y, io'))"
  "xthen (xcheck d) k io = (Inr y, io') \<longleftrightarrow> d (xi_fs io) = Inr () \<and> k io = (Inr y, io')"
  "xthen (emit ev) k io = (Inr y, io') \<longleftrightarrow> k (io\<lparr>xi_events := xi_events io @ [ev]\<rparr>) = (Inr y, io')"
  by (auto simp: xfer_Inr)

text \<open>What every operation keeps, error or not.\<close>

definition xkeeps :: "(transfer_io \<Rightarrow> transfer_io \<Rightarrow> bool) \<Rightarrow> 'a xfer \<Rightarrow> bool" where
  "xkeeps R m \<longleftrightarrow> (\<forall>io. R io (snd (m io)))"

lemma xkeeps_bind:
  assumes "transp R" "xkeeps R m" "\<And>x. xkeeps R (f x)"
  shows "xkeeps R (xbind m f)"
  unfolding xkeeps_def
proof
  fix io
  obtain r io1 where m: "m io = (r, io1)" by fastforce
  then have 1: "R io io1" using assms(2) by (metis xkeeps_def snd_conv)
  show "R io (snd (xbind m f io))"
  proof (cases r)
    case (Inr x)
    have "R io1 (snd (f x io1))" using assms(3) by (simp add: xkeeps_def)
    then have "R io (snd (f x io1))" using 1 transpD [OF assms(1)] by blast
    then show ?thesis using m Inr by (simp add: xbind_def)
  qed (use 1 m in \<open>simp add: xbind_def\<close>)
qed

lemma xkeeps_then: "transp R \<Longrightarrow> xkeeps R m \<Longrightarrow> xkeeps R k \<Longrightarrow> xkeeps R (xthen m k)"
  unfolding xthen_def by (rule xkeeps_bind)

lemma xkeeps_pure:
  assumes "reflp R"
  shows "xkeeps R (xret x)" "xkeeps R (xfail e)" "xkeeps R (xlift r)" "xkeeps R (xget g)" "xkeeps R (xguard b e)"
    "xkeeps R (xcheck f)"
  using reflpD [OF assms]
  by (simp_all add: xkeeps_def xret_def xfail_def xlift_def xget_def xguard_def xcheck_def)

text \<open>Operations that leave the file system alone.\<close>

definition same_fs :: "transfer_io \<Rightarrow> transfer_io \<Rightarrow> bool" where
  "same_fs a b \<longleftrightarrow> xi_fs b = xi_fs a"

lemma same_fs_order [simp]: "reflp same_fs" "transp same_fs"
  by (auto simp: reflp_def transp_def same_fs_def)

lemma same_fs_prims:
  "xkeeps same_fs (emit e)" "xkeeps same_fs xrecv" "xkeeps same_fs (xsend t p)" "xkeeps same_fs (xsend_message dump t m)"
  "xkeeps same_fs (apply_metadata q a b)" "xkeeps same_fs (apply_file_metadata q h)"
proof -
  have s: "xkeeps same_fs (xsend t p)" for t p
    by (auto simp: xkeeps_def same_fs_def xsend_def Let_def split: list.split option.split)
  have a: "xkeeps same_fs (apply_metadata q a b)" for q a b
    by (simp add: xkeeps_def same_fs_def apply_metadata_def)
  show "xkeeps same_fs (emit e)" "xkeeps same_fs xrecv"
    by (auto simp: xkeeps_def same_fs_def emit_def xrecv_def split: list.split)
  show "xkeeps same_fs (xsend t p)" "xkeeps same_fs (apply_metadata q a b)" by (rule s, rule a)
  show "xkeeps same_fs (xsend_message dump t m)"
    unfolding xsend_message_def by (intro xkeeps_bind xkeeps_pure s same_fs_order)
  show "xkeeps same_fs (apply_file_metadata q h)"
    unfolding apply_file_metadata_def by (intro xkeeps_bind xkeeps_then xkeeps_pure a same_fs_order)
qed

lemmas same_fs_intros = xkeeps_bind xkeeps_then xkeeps_pure same_fs_prims same_fs_order

end
