(* ===== verification/Transfer_Resume.thy ===== *)
theory Transfer_Resume
  imports Transfer_IO Transfer_Manifest
begin

text \<open>
  \<open>src/transfer/transfer_resume.hpp\<close>, \<open>src/transfer/transfer_resume.cpp\<close>: how the two sides
  agree on the part of a file that need not be sent again. A SHA-256 hasher is the bytes it
  has been given; \<open>sha256\<close> and \<open>imohash\<close> are parameters.
\<close>

record resume_request =
  rq_offset :: u64
  rq_prefix_sha256 :: string
  rq_complete_skip :: bool

section \<open>Hashing a prefix\<close>

text \<open>The loop: what is left of the stream, the bytes read, the length asked for, the hasher.\<close>

function hash_prefix_loop :: "nat \<Rightarrow> bytes \<Rightarrow> nat \<Rightarrow> nat \<Rightarrow> bytes \<Rightarrow> nat \<times> bytes \<times> bytes" where
  "hash_prefix_loop buffer_size input got len hasher =
     (if got < len then
        let chunk = take (min buffer_size (len - got)) input in
        if chunk = [] then (got, hasher, input)
        else hash_prefix_loop buffer_size (drop (length chunk) input) (got + length chunk) len (hasher @ chunk)
      else (got, hasher, input))"
  by pat_completeness auto
termination
  by (relation "measure (\<lambda>(b, input, got, len, h). len - got)") (auto simp: min_def neq_Nil_conv)

declare hash_prefix_loop.simps [simp del]

text \<open>The bytes read, the hasher after them, and the digest of the prefix if it was all there.\<close>

definition hash_prefix_bytes ::
    "(bytes \<Rightarrow> bytes) \<Rightarrow> nat \<Rightarrow> bytes \<Rightarrow> u64 \<Rightarrow> bytes \<Rightarrow> nat \<times> bytes \<times> bytes \<times> string option" where
  "hash_prefix_bytes sha256 buffer_size input len hasher =
     (let (n, h, rest) = hash_prefix_loop buffer_size input 0 (unat len) hasher
      in (n, h, rest, if n = unat len then Some (hex_encode (sha256 (drop (length hasher) h))) else None))"

lemma hash_prefix_loop_eq:
  assumes "0 < buffer_size" "got \<le> len"
  shows "hash_prefix_loop buffer_size input got len hasher =
     (got + min (len - got) (length input), hasher @ take (len - got) input, drop (len - got) input)"
  using assms
proof (induction buffer_size input got len hasher rule: hash_prefix_loop.induct)
  case (1 buffer_size input got len hasher)
  let ?chunk = "take (min buffer_size (len - got)) input"
  show ?case
  proof (cases "got < len \<and> ?chunk \<noteq> []")
    case True
    let ?n = "length ?chunk"
    have n: "?n = min (min buffer_size (len - got)) (length input)" by simp
    have le: "got + ?n \<le> len" using True by auto
    have "hash_prefix_loop buffer_size input got len hasher =
        hash_prefix_loop buffer_size (drop ?n input) (got + ?n) len (hasher @ ?chunk)"
      using True "1.prems" by (subst hash_prefix_loop.simps) (auto simp: Let_def)
    also have "\<dots> = (got + ?n + min (len - (got + ?n)) (length (drop ?n input)),
        (hasher @ ?chunk) @ take (len - (got + ?n)) (drop ?n input), drop (len - (got + ?n)) (drop ?n input))"
      using True 1 le by blast
    also have "\<dots> = (got + min (len - got) (length input), hasher @ take (len - got) input, drop (len - got) input)"
    proof -
      have t: "?chunk = take ?n input" by (auto simp: min_def)
      have "?n + (len - (got + ?n)) = len - got" using le by simp
      moreover have "?chunk @ take (len - (got + ?n)) (drop ?n input) = take (?n + (len - (got + ?n))) input"
        unfolding take_add by (subst t) simp
      ultimately show ?thesis using le by (auto simp: min_def)
    qed
    finally show ?thesis .
  next
    case False
    then show ?thesis
      using "1.prems" by (subst hash_prefix_loop.simps) (auto simp: Let_def)
  qed
qed

lemma hash_prefix_bytes_eq:
  assumes "0 < buffer_size"
  shows "hash_prefix_bytes sha256 buffer_size input len hasher =
     (min (unat len) (length input), hasher @ take (unat len) input, drop (unat len) input,
      if unat len \<le> length input then Some (hex_encode (sha256 (take (unat len) input))) else None)"
  using hash_prefix_loop_eq [OF assms, of 0 "unat len" input hasher]
  by (auto simp: hash_prefix_bytes_def)

section \<open>Messages\<close>

definition resume_message :: "u64 \<Rightarrow> string \<Rightarrow> bool \<Rightarrow> message" where
  "resume_message offset prefix_sha256 complete_skip =
     \<lparr>mtype = ''resume'',
      mfields = put_if complete_skip ''complete_skip'' ''1''
        (put_if (prefix_sha256 \<noteq> []) ''prefix_sha256'' prefix_sha256 [(''offset'', word_text offset)])\<rparr>"

definition send_resume :: "(json \<Rightarrow> string result) \<Rightarrow> u64 \<Rightarrow> string \<Rightarrow> bool \<Rightarrow> unit xfer" where
  "send_resume dump offset prefix_sha256 complete_skip =
     xsend_message dump Resume (resume_message offset prefix_sha256 complete_skip)"

definition frame_message :: "(string \<Rightarrow> json result) \<Rightarrow> tagged_frame \<Rightarrow> message result" where
  "frame_message parse f = decode_message parse (string_of (tf_payload f))"

definition request_of :: "(string \<Rightarrow> json result) \<Rightarrow> u64 \<Rightarrow> tagged_frame option \<Rightarrow> resume_request result" where
  "request_of parse entry_size frame =
     (case frame of
        None \<Rightarrow> Inl ''expected resume frame''
      | Some f \<Rightarrow>
          if tf_tag f \<noteq> Resume then Inl ''expected resume frame''
          else andthen (frame_message parse f) (\<lambda>m.
            andthen (msg_get_u64 m ''offset'' 0) (\<lambda>o'.
              let offset = (if entry_size < o' then 0 else o') in
              Inr \<lparr>rq_offset = offset, rq_prefix_sha256 = msg_get m ''prefix_sha256'' [],
                   rq_complete_skip = (offset = entry_size \<and> msg_get m ''complete_skip'' [] = ''1'')\<rparr>)))"

definition recv_resume_request :: "(string \<Rightarrow> json result) \<Rightarrow> u64 \<Rightarrow> resume_request xfer" where
  "recv_resume_request parse entry_size = xbind xrecv (\<lambda>f. xlift (request_of parse entry_size f))"

definition ack_message :: "u64 \<Rightarrow> message" where
  "ack_message accepted_offset = \<lparr>mtype = ''resume_ack'', mfields = [(''offset'', word_text accepted_offset)]\<rparr>"

definition send_resume_ack :: "(json \<Rightarrow> string result) \<Rightarrow> u64 \<Rightarrow> unit xfer" where
  "send_resume_ack dump accepted_offset = xsend_message dump ResumeAck (ack_message accepted_offset)"

definition ack_of :: "(string \<Rightarrow> json result) \<Rightarrow> u64 \<Rightarrow> u64 \<Rightarrow> string \<Rightarrow> tagged_frame option \<Rightarrow> u64 result" where
  "ack_of parse requested_offset declared_size relative frame =
     (case frame of
        None \<Rightarrow> Inl ''expected resume ack''
      | Some f \<Rightarrow>
          if tf_tag f \<noteq> ResumeAck then Inl ''expected resume ack''
          else andthen (frame_message parse f) (\<lambda>m.
            andthen (msg_get_u64 m ''offset'' 0) (\<lambda>accepted.
              if declared_size < accepted \<or> requested_offset < accepted
              then Inl (''invalid resume ack for '' @ relative) else Inr accepted)))"

definition recv_resume_ack :: "(string \<Rightarrow> json result) \<Rightarrow> u64 \<Rightarrow> u64 \<Rightarrow> string \<Rightarrow> u64 xfer" where
  "recv_resume_ack parse requested_offset declared_size relative =
     xbind xrecv (\<lambda>f. xlift (ack_of parse requested_offset declared_size relative f))"

definition hash_stream_prefix ::
    "(bytes \<Rightarrow> bytes) \<Rightarrow> nat \<Rightarrow> bytes \<Rightarrow> u64 \<Rightarrow> string \<Rightarrow> (bytes \<times> bytes \<times> string option) result" where
  "hash_stream_prefix sha256 buffer_size input offset relative =
     (let (n, h, rest, digest) = hash_prefix_bytes sha256 buffer_size input offset [] in
      if n \<noteq> unat offset then Inl (''source shorter than resume offset: '' @ relative)
      else Inr (h, rest, digest))"

section \<open>Files that are there already\<close>

definition try_skip_existing_duplicate ::
    "(json \<Rightarrow> string result) \<Rightarrow> (string \<Rightarrow> json result) \<Rightarrow> (bytes \<Rightarrow> string result) \<Rightarrow>
     message \<Rightarrow> path \<Rightarrow> string \<Rightarrow> u64 \<Rightarrow> bool xfer" where
  "try_skip_existing_duplicate dump parse imohash header current_path current_relative declared_size =
     (let declared_imohash = msg_get header ''imohash'' [] in
      if declared_imohash = [] then xret False
      else xbind (xget (\<lambda>io. symlink_status (xi_fs io) current_path)) (\<lambda>st.
        case st of
          Inr (RegularFile content) \<Rightarrow>
            (if imohash content \<noteq> Inr declared_imohash then xret False
             else
               xthen (send_resume dump declared_size [] True)
               (xbind (recv_resume_ack parse declared_size declared_size current_relative) (\<lambda>accepted.
                  if accepted \<noteq> declared_size then xret False
                  else
                    xthen (apply_file_metadata current_path header)
                    (xthen (emit (Status (''skipped duplicate '' @ current_relative)))
                    (xthen (emit (FileStart current_relative declared_size))
                    (xthen (emit (FileAdvance declared_size)) (xret True)))))))
        | _ \<Rightarrow> xret False))"

definition resumable_part_size :: "file_system \<Rightarrow> path \<Rightarrow> u64 \<Rightarrow> u64 result" where
  "resumable_part_size fs part_path declared_size =
     (case symlink_status fs part_path of
        Inl _ \<Rightarrow> Inr 0
      | Inr (RegularFile content) \<Rightarrow>
          Inr (if unat declared_size < length content then 0 else of_nat (length content))
      | Inr _ \<Rightarrow> Inl (''refusing unsafe partial file: '' @ path_string part_path))"

text \<open>\<open>None\<close>: the prefix could not be read; otherwise the hasher and the digest.\<close>

definition hash_existing_part_prefix ::
    "(bytes \<Rightarrow> bytes) \<Rightarrow> nat \<Rightarrow> file_system \<Rightarrow> path \<Rightarrow> u64 \<Rightarrow> (bytes \<times> string option) option" where
  "hash_existing_part_prefix sha256 buffer_size fs part_path have' =
     (case symlink_status fs part_path of
        Inr (RegularFile content) \<Rightarrow>
          (let (n, h, _, digest) = hash_prefix_bytes sha256 buffer_size content have' []
           in if n = unat have' then Some (h, digest) else None)
      | _ \<Rightarrow> None)"

section \<open>The negotiation\<close>

lemma resume_message_ok: "message_ok (resume_message o' p c)"
  by (auto simp: message_ok_def resume_message_def put_if_def omap_ok_def omap_has_def)

lemma ack_message_ok: "message_ok (ack_message n)"
  by (simp add: message_ok_def ack_message_def omap_ok_def omap_has_def)

text \<open>
  what the receiver asks for is what the sender reads: the offset (unless it lies beyond
  the sender's file), the digest of the prefix, and the wish to skip the file.
\<close>

theorem resume_request_roundtrip:
  assumes "json_inverse dump parse" and "send_resume dump offset prefix skip io = (Inr (), io')"
    and "offset \<le> entry_size"
  shows "\<exists>f. xi_sent io' = xi_sent io @ [f] \<and>
    request_of parse entry_size (Some f) =
      Inr \<lparr>rq_offset = offset, rq_prefix_sha256 = prefix, rq_complete_skip = (offset = entry_size \<and> skip)\<rparr>"
proof -
  let ?m = "resume_message offset prefix skip"
  obtain doc where t: "encode_message dump ?m = Inr doc"
    and s: "xsend Resume (bytes_of doc) io = (Inr (), io')"
    using assms(2) by (auto simp: send_resume_def xsend_message_def xfer_Inr)
  let ?f = "\<lparr>tf_tag = Resume, tf_payload = bytes_of doc\<rparr>"
  have "xi_sent io' = xi_sent io @ [?f]"
    using s by (auto simp: xsend_def Let_def split: list.splits option.splits)
  moreover have d: "frame_message parse ?f = Inr ?m"
    using decode_encode_message [OF assms(1) resume_message_ok t] by (simp add: frame_message_def)
  have "msg_get_u64 ?m ''offset'' 0 = Inr offset"
    by (rule msg_get_u64_dec) (simp add: resume_message_def word_text_def)
  then have "request_of parse entry_size (Some ?f) =
      Inr \<lparr>rq_offset = offset, rq_prefix_sha256 = prefix, rq_complete_skip = (offset = entry_size \<and> skip)\<rparr>"
    using d assms(3) by (auto simp: request_of_def msg_get_def resume_message_def)
  ultimately show ?thesis by blast
qed

definition empty_io :: transfer_io where
  "empty_io = \<lparr>xi_fs = \<lparr>nodes = Map.empty, cwd = []\<rparr>, xi_arriving = [], xi_sent = [], xi_send_faults = [],
     xi_events = [], xi_metadata = []\<rparr>"

theorem resume_request_roundtrip_witness:
  "\<exists>f. request_of (one_parse (message_object (resume_message 5 ''ab'' True))) 5 (Some f) =
      Inr \<lparr>rq_offset = 5, rq_prefix_sha256 = ''ab'', rq_complete_skip = True\<rparr>"
proof -
  let ?j = "message_object (resume_message 5 ''ab'' True)"
  have "encode_message (one_dump ?j) (resume_message 5 ''ab'' True) = Inr ''doc''"
    by (simp add: encode_message_def one_dump_def)
  then have "\<exists>io'. send_resume (one_dump ?j) 5 ''ab'' True empty_io = (Inr (), io')"
    by (simp add: send_resume_def xsend_message_def xsend_def Let_def empty_io_def)
  then obtain io' where "send_resume (one_dump ?j) 5 ''ab'' True empty_io = (Inr (), io')" by blast
  from resume_request_roundtrip [OF one_inverse this, of 5] show ?thesis by auto
qed

end
