(* ===== verification/Receive_Plan.thy ===== *)
theory Receive_Plan
  imports Transfer_Resume "HOL-Library.Sublist"
begin

text \<open>
  \<open>src/transfer/receive_plan.hpp\<close>, \<open>src/transfer/receive_plan.cpp\<close>: the check of a whole
  manifest before anything is written, which decides where every entry goes, and the account of
  the entries that have arrived. A \<open>std::set\<close> is the sorted list of its elements. What the
  volume answers (does a name exist there, how much space is free) and the random part of probe
  names are parameters.
\<close>

section \<open>Sorted sets\<close>

definition oset_insert :: "'a::linorder \<Rightarrow> 'a list \<Rightarrow> 'a list" where
  "oset_insert x s = insort_insert x s"

definition lower_bound :: "'a::linorder \<Rightarrow> 'a list \<Rightarrow> 'a option" where
  "lower_bound k s = List.find (\<lambda>x. \<not> x < k) s"

section \<open>Keys and collisions\<close>

function pop_slashes :: "string \<Rightarrow> string" where
  "pop_slashes key = (if 1 < length key \<and> last key = slash then pop_slashes (butlast key) else key)"
  by pat_completeness auto
termination by (relation "measure length") auto

declare pop_slashes.simps [simp del]

definition target_key :: "path \<Rightarrow> bool \<Rightarrow> string" where
  "target_key p fold_ascii_case =
     (let key = pop_slashes (path_string (lexically_normal p))
      in if fold_ascii_case then lowercase_ascii key else key)"

definition key_is_parent_of :: "string \<Rightarrow> string \<Rightarrow> bool" where
  "key_is_parent_of parent child \<longleftrightarrow>
     length parent < length child \<and> take (length parent) child = parent \<and> child ! length parent = slash"

text \<open>The walk up the parents of a target.\<close>

function parent_reserved :: "string list \<Rightarrow> bool \<Rightarrow> path \<Rightarrow> bool" where
  "parent_reserved reserved_files fold_case parent =
     (if parent = [] then False
      else if target_key parent fold_case \<in> set reserved_files then True
      else if parent_path parent = parent then False
      else parent_reserved reserved_files fold_case (parent_path parent))"
  by pat_completeness auto
termination by (relation "measure (\<lambda>(s, f, p). length p)") (auto simp: parent_path_def split: if_splits)

declare parent_reserved.simps [simp del]

definition plan_collision_error :: "path \<Rightarrow> bool \<Rightarrow> string list \<Rightarrow> string list \<Rightarrow> bool \<Rightarrow> string option" where
  "plan_collision_error target directory reserved_targets reserved_files fold_case =
     (let key = target_key target fold_case in
      if key \<in> set reserved_targets then Some ''target collision''
      else if parent_reserved reserved_files fold_case (parent_path target) then Some ''parent is already a file''
      else if \<not> directory \<and>
          (case lower_bound (key @ [slash]) reserved_targets of None \<Rightarrow> False | Some child \<Rightarrow> key_is_parent_of key child)
        then Some ''target would replace a planned directory''
      else None)"

section \<open>The volume\<close>

record volume =
  v_exists :: "file_system \<Rightarrow> path \<Rightarrow> os_error + bool" \<comment> \<open>\<open>std::filesystem::exists\<close>: a volume may fold case\<close>
  v_space :: "file_system \<Rightarrow> path \<Rightarrow> os_error + u64" \<comment> \<open>\<open>std::filesystem::space(...).available\<close>\<close>
  v_random :: "nat \<Rightarrow> string" \<comment> \<open>\<open>random_code(8)\<close> of each attempt\<close>

definition root_path :: "path \<Rightarrow> path" where
  "root_path p = (if is_absolute p then [[slash]] else [])"

text \<open>The nearest parent that is a directory.\<close>

function existing_directory :: "file_system \<Rightarrow> path \<Rightarrow> path option" where
  "existing_directory fs p =
     (if status fs p = Inr Directory then Some p
      else if p = root_path p then None
      else existing_directory fs (parent_path p))"
  by pat_completeness auto
termination
  by (relation "measure (\<lambda>(fs, p). length p)") (auto simp: parent_path_def root_path_def is_absolute_def split: if_splits)

declare existing_directory.simps [simp del]

text \<open>
  \<open>create_directory\<close> (false: it is there already) and \<open>remove\<close> of the directory that has just
  been made.
\<close>

definition create_directory :: "path \<Rightarrow> file_system \<Rightarrow> (os_error + bool) \<times> file_system" where
  "create_directory p fs =
     (case locate fs p False of
        Inl e \<Rightarrow> (Inl e, fs)
      | Inr loc \<Rightarrow>
          if is_dir (nodes fs) loc then (Inr False, fs)
          else if nodes fs loc \<noteq> None then (if status fs p = Inr Directory then Inr False else Inl FileExists, fs)
          else (Inr True, put_node loc (Some Directory) fs))"

definition remove_directory :: "path \<Rightarrow> file_system \<Rightarrow> os_error option \<times> file_system" where
  "remove_directory p fs =
     (case locate fs p False of
        Inl e \<Rightarrow> (if e = NotFound then None else Some e, fs)
      | Inr loc \<Rightarrow> (None, if loc = [] then fs else put_node loc None fs))"

fun case_probe :: "volume \<Rightarrow> path \<Rightarrow> nat list \<Rightarrow> bool fs_op" where
  "case_probe vol parent [] fs = (Inl ''could not allocate receive filesystem case-sensitivity probe'', fs)"
| "case_probe vol parent (attempt # attempts) fs =
     (let st = ''.kiko-case-probe-'' @ v_random vol attempt;
          lower = append_path parent (parse_path (st @ ''a''));
          upper = append_path parent (parse_path (st @ ''A''))
      in case create_directory lower fs of
           (Inr False, fs1) \<Rightarrow> case_probe vol parent attempts fs1
         | (Inl FileExists, fs1) \<Rightarrow> case_probe vol parent attempts fs1
         | (Inl e, fs1) \<Rightarrow> (Inl (''failed to probe receive filesystem case sensitivity: '' @ os_message e), fs1)
         | (Inr True, fs1) \<Rightarrow>
             (let insensitive = v_exists vol fs1 upper; (removed, fs2) = remove_directory lower fs1 in
              case insensitive of
                Inl e \<Rightarrow> (Inl (''failed to inspect receive filesystem case sensitivity: '' @ os_message e), fs2)
              | Inr b \<Rightarrow>
                  (case removed of
                     Some e \<Rightarrow> (Inl (''failed to clean receive filesystem case-sensitivity probe: '' @ os_message e), fs2)
                   | None \<Rightarrow> (Inr b, fs2))))"

definition receive_filesystem_is_case_insensitive :: "volume \<Rightarrow> path \<Rightarrow> bool fs_op" where
  "receive_filesystem_is_case_insensitive vol output_dir fs =
     (if output_dir = [] then
        (Inl ''failed to resolve receive directory for case-sensitivity check: Invalid argument'', fs)
      else case existing_directory fs (absolute fs output_dir) of
          None \<Rightarrow> (Inl ''could not find receive filesystem for case-sensitivity check'', fs)
        | Some parent \<Rightarrow> case_probe vol parent [0..<8] fs)"

section \<open>Space\<close>

definition kReceiveFreeSpaceReserveBytes :: u64 where
  "kReceiveFreeSpaceReserveBytes = 64 * 1024 * 1024"

definition add_saturating :: "u64 \<Rightarrow> u64 \<Rightarrow> u64" where
  "add_saturating total' value = (if max_u64 - total' \<le> value then max_u64 else total' + value)"

definition reclaimable_target_size :: "file_system \<Rightarrow> path \<Rightarrow> u64" where
  "reclaimable_target_size fs target =
     (case symlink_status fs target of
        Inr (RegularFile content) \<Rightarrow> of_nat (length content)
      | _ \<Rightarrow> 0)"

function space_above :: "volume \<Rightarrow> file_system \<Rightarrow> path \<Rightarrow> os_error + u64" where
  "space_above vol fs probe =
     (case v_space vol fs probe of
        Inr available \<Rightarrow> Inr available
      | Inl e \<Rightarrow>
          if e \<noteq> NotFound \<or> probe = root_path probe then Inl e
          else space_above vol fs (parent_path probe))"
  by pat_completeness auto
termination
  by (relation "measure (\<lambda>(v, fs, p). length p)") (auto simp: parent_path_def root_path_def is_absolute_def split: if_splits)

declare space_above.simps [simp del]

definition ensure_receive_space :: "volume \<Rightarrow> file_system \<Rightarrow> path \<Rightarrow> u64 \<Rightarrow> unit result" where
  "ensure_receive_space vol fs output_dir peak =
     (if peak = 0 then Inr ()
      else if output_dir = [] then Inl ''failed to inspect free space for receive directory: Invalid argument''
      else case space_above vol fs (absolute fs output_dir) of
          Inl e \<Rightarrow> Inl (''failed to inspect free space for receive directory: '' @ os_message e)
        | Inr available \<Rightarrow>
            let usable = (if kReceiveFreeSpaceReserveBytes < available then available - kReceiveFreeSpaceReserveBytes else 0) in
            if usable < peak
            then Inl (''not enough free space to receive files (need '' @ word_text peak @
                      '' bytes plus reserve, available '' @ word_text available @ '')'')
            else Inr ())"


section \<open>The plan\<close>

datatype conflict_policy = Overwrite | SkipExisting | RenameNew

datatype plan_action = PlanWrite | PlanSkip | PlanRename

record plan_entry =
  pe_manifest :: manifest_entry
  pe_target :: path
  pe_action :: plan_action

record receive_plan =
  rp_entries :: "(string, plan_entry) omap"
  rp_received :: "string list"

text \<open>The variables of \<open>preflight_transfer_manifest\<close>.\<close>

record preflight =
  pf_seen :: "string list"
  pf_targets :: "string list"
  pf_files :: "string list"
  pf_folded_targets :: "string list"
  pf_folded_files :: "string list"
  pf_insensitive :: "bool option"
  pf_total :: u64
  pf_write :: u64
  pf_reclaimed :: u64
  pf_peak :: u64
  pf_entries :: "(string, plan_entry) omap"
  pf_summary :: receive_plan_summary

definition preflight_start :: "transfer_manifest \<Rightarrow> preflight" where
  "preflight_start manifest =
     \<lparr>pf_seen = [], pf_targets = [], pf_files = [], pf_folded_targets = [], pf_folded_files = [],
      pf_insensitive = None, pf_total = 0, pf_write = 0, pf_reclaimed = 0, pf_peak = 0, pf_entries = [],
      pf_summary = \<lparr>ps_item_count = length (tm_entries manifest), ps_total_bytes = tm_total_size manifest,
        ps_resume_bytes = 0, ps_skip_bytes = 0, ps_skip_count = 0, ps_rename_count = 0, ps_overwrite_count = 0,
        ps_resume_count = 0\<rparr>\<rparr>"

text \<open>The checks of one entry by its kind; the new total of the file sizes.\<close>

definition check_entry_kind :: "manifest_entry \<Rightarrow> u64 \<Rightarrow> u64 result" where
  "check_entry_kind entry computed =
     (if me_kind entry = ''symlink'' then
        (if me_size entry \<noteq> 0 then Inl (''transfer manifest symlink must have size 0: '' @ me_path entry)
         else andthen (validate_safe_symlink_target (me_path entry) (me_target entry)) (\<lambda>_. Inr computed))
      else if me_kind entry = ''dir'' then
        (if last (me_path entry) \<noteq> slash then Inl (''transfer manifest directory path must end with /: '' @ me_path entry)
         else if me_size entry \<noteq> 0 then Inl (''transfer manifest directory must have size 0: '' @ me_path entry)
         else Inr computed)
      else if me_kind entry = ''file'' then
        (if last (me_path entry) = slash then Inl (''transfer manifest file path must not end with /: '' @ me_path entry)
         else add_manifest_size computed (me_size entry) (me_path entry))
      else Inl (''transfer manifest contains unknown entry kind: '' @ me_kind entry))"

text \<open>What to do with an entry, where it goes, and whether it replaces something.\<close>

definition choose_action ::
    "file_system \<Rightarrow> conflict_policy \<Rightarrow> string list \<Rightarrow> manifest_entry \<Rightarrow> path \<Rightarrow> (plan_action \<times> path \<times> bool) result" where
  "choose_action fs policy reserved_targets entry current =
     (let existing_target = path_exists_no_follow fs current in
      if me_kind entry = ''dir'' then
        (case symlink_status fs current of
           Inl _ \<Rightarrow> Inr (PlanWrite, current, False)
         | Inr Directory \<Rightarrow> Inr (PlanWrite, current, False)
         | Inr _ \<Rightarrow> Inl (''receive plan directory target is not a directory: '' @ me_path entry))
      else if existing_target \<and> policy = SkipExisting then Inr (PlanSkip, current, False)
      else if existing_target \<and> policy = RenameNew then
        andthen (unique_conflict_path fs (\<lambda>c. target_key c False \<in> set reserved_targets) current)
          (\<lambda>target. Inr (PlanRename, target, False))
      else if existing_target then
        (case symlink_status fs current of
           Inr Directory \<Rightarrow> Inl (''receive plan file target is a directory: '' @ me_path entry)
         | _ \<Rightarrow> Inr (PlanWrite, current, True))
      else Inr (PlanWrite, current, False))"

definition planned_resume_of :: "file_system \<Rightarrow> manifest_entry \<Rightarrow> plan_action \<Rightarrow> path \<Rightarrow> u64 result" where
  "planned_resume_of fs entry action target =
     (if action = PlanWrite \<and> me_kind entry = ''file'' then
        andthen (validate_receive_part_path fs (part_path_for target) (me_path entry)) (\<lambda>_.
          resumable_part_size fs (part_path_for target) (me_size entry))
      else Inr 0)"

text \<open>Is the volume known to ignore case, or found to? The probe is made once.\<close>

definition folded_collision :: "volume \<Rightarrow> path \<Rightarrow> manifest_entry \<Rightarrow> path \<Rightarrow> preflight \<Rightarrow> bool option fs_op" where
  "folded_collision vol output_dir entry target st fs =
     (if pf_insensitive st = Some False then (Inr (pf_insensitive st), fs)
      else case plan_collision_error target (me_kind entry = ''dir'') (pf_folded_targets st) (pf_folded_files st) True of
          None \<Rightarrow> (Inr (pf_insensitive st), fs)
        | Some collision \<Rightarrow>
            (case (case pf_insensitive st of
                     Some b \<Rightarrow> (Inr b, fs)
                   | None \<Rightarrow> receive_filesystem_is_case_insensitive vol output_dir fs) of
               (Inl e, fs1) \<Rightarrow> (Inl e, fs1)
             | (Inr b, fs1) \<Rightarrow>
                 (if b then Inl (''receive plan case-insensitive '' @ collision @ '' for '' @ me_path entry)
                  else Inr (Some b), fs1)))"

definition reserve_target :: "volume \<Rightarrow> path \<Rightarrow> manifest_entry \<Rightarrow> path \<Rightarrow> preflight \<Rightarrow> preflight fs_op" where
  "reserve_target vol output_dir entry target st fs =
     (let directory = (me_kind entry = ''dir''); key = target_key target False; folded = target_key target True in
      case plan_collision_error target directory (pf_targets st) (pf_files st) False of
        Some collision \<Rightarrow> (Inl (''receive plan '' @ collision @ '' for '' @ me_path entry), fs)
      | None \<Rightarrow>
          (case folded_collision vol output_dir entry target st fs of
             (Inl e, fs1) \<Rightarrow> (Inl e, fs1)
           | (Inr insensitive, fs1) \<Rightarrow>
               (Inr (st\<lparr>pf_insensitive := insensitive,
                  pf_targets := oset_insert key (pf_targets st),
                  pf_folded_targets := oset_insert folded (pf_folded_targets st),
                  pf_files := (if directory then pf_files st else oset_insert key (pf_files st)),
                  pf_folded_files := (if directory then pf_folded_files st else oset_insert folded (pf_folded_files st))\<rparr>), fs1)))"

text \<open>The bytes to write, less the bytes of replaced files, and the largest such difference.\<close>

definition account_space :: "file_system \<Rightarrow> manifest_entry \<Rightarrow> plan_action \<Rightarrow> bool \<Rightarrow> path \<Rightarrow> u64 \<Rightarrow> preflight \<Rightarrow> preflight result" where
  "account_space fs entry action existing_target target planned_resume st =
     (if me_kind entry = ''file'' \<and> action \<noteq> PlanSkip then
        andthen (add_manifest_size (pf_write st) (me_size entry - planned_resume) (me_path entry)) (\<lambda>write.
          let live_required = (if pf_reclaimed st < write then write - pf_reclaimed st else 0) in
          Inr (st\<lparr>pf_write := write, pf_peak := max (pf_peak st) live_required,
             pf_reclaimed := (if existing_target \<and> action = PlanWrite
               then add_saturating (pf_reclaimed st) (reclaimable_target_size fs target) else pf_reclaimed st)\<rparr>))
      else Inr st)"

definition count_action :: "manifest_entry \<Rightarrow> plan_action \<Rightarrow> bool \<Rightarrow> u64 \<Rightarrow> receive_plan_summary \<Rightarrow> receive_plan_summary" where
  "count_action entry action overwrites planned_resume s =
     s\<lparr>ps_overwrite_count := ps_overwrite_count s + (if overwrites then 1 else 0),
       ps_resume_count := ps_resume_count s + (if 0 < planned_resume then 1 else 0),
       ps_resume_bytes := ps_resume_bytes s + planned_resume,
       ps_skip_count := ps_skip_count s + (if action = PlanSkip then 1 else 0),
       ps_skip_bytes := ps_skip_bytes s + (if action = PlanSkip \<and> me_kind entry = ''file'' then me_size entry else 0),
       ps_rename_count := ps_rename_count s + (if action = PlanRename then 1 else 0)\<rparr>"

definition preflight_entry :: "volume \<Rightarrow> path \<Rightarrow> conflict_policy \<Rightarrow> manifest_entry \<Rightarrow> preflight \<Rightarrow> preflight xfer" where
  "preflight_entry vol output_dir policy entry st =
     xthen (xguard (me_path entry \<noteq> []) ''transfer manifest entry missing path'')
     (xthen (xguard (me_path entry \<notin> set (pf_seen st)) (''transfer manifest contains duplicate path: '' @ me_path entry))
     (xbind (xlift (safe_join output_dir (me_path entry))) (\<lambda>current.
      xbind (xget (\<lambda>io. path_exists_no_follow (xi_fs io) current)) (\<lambda>existing_target.
      xbind (xlift (check_entry_kind entry (pf_total st))) (\<lambda>computed.
      xbind (xcheck (\<lambda>fs. choose_action fs policy (pf_targets st) entry current)) (\<lambda>(action, target, overwrites).
      xthen (xcheck (\<lambda>fs. validate_receive_target_parent fs output_dir target (me_path entry)))
      (xbind (xcheck (\<lambda>fs. planned_resume_of fs entry action target)) (\<lambda>planned_resume.
      xbind (if action = PlanSkip then xret st else xfs (reserve_target vol output_dir entry target st)) (\<lambda>st1.
      xbind (xcheck (\<lambda>fs. account_space fs entry action existing_target target planned_resume st1)) (\<lambda>st2.
      xret (st2\<lparr>pf_seen := oset_insert (me_path entry) (pf_seen st2), pf_total := computed,
        pf_entries := omap_put (me_path entry) \<lparr>pe_manifest = entry, pe_target = target, pe_action = action\<rparr> (pf_entries st2),
        pf_summary := count_action entry action overwrites planned_resume (pf_summary st2)\<rparr>)))))))))))"

fun preflight_entries :: "volume \<Rightarrow> path \<Rightarrow> conflict_policy \<Rightarrow> manifest_entry list \<Rightarrow> preflight \<Rightarrow> preflight xfer" where
  "preflight_entries vol output_dir policy [] st = xret st"
| "preflight_entries vol output_dir policy (entry # entries) st =
     xbind (preflight_entry vol output_dir policy entry st) (preflight_entries vol output_dir policy entries)"

definition preflight_transfer_manifest ::
    "volume \<Rightarrow> transfer_manifest \<Rightarrow> path \<Rightarrow> conflict_policy \<Rightarrow> receive_plan xfer" where
  "preflight_transfer_manifest vol manifest output_dir policy =
     xbind (preflight_entries vol output_dir policy (tm_entries manifest) (preflight_start manifest)) (\<lambda>st.
     xthen (xguard (pf_total st = tm_total_size manifest) ''transfer manifest total size changed during preflight'')
     (xthen (xcheck (\<lambda>fs. ensure_receive_space vol fs output_dir (pf_peak st)))
     (xthen (emit (Status (''manifest: '' @ to_dec (length (tm_entries manifest)) @ '' item(s), '' @
                      word_text (tm_total_size manifest) @ '' bytes'')))
     (xthen (emit (ReceivePlanEvent (pf_summary st)))
      (xret \<lparr>rp_entries = pf_entries st, rp_received = []\<rparr>)))))"

section \<open>The headers that arrive\<close>

text \<open>The plan is a pointer: \<open>None\<close> is the null pointer.\<close>

definition find_receive_plan_entry :: "receive_plan option \<Rightarrow> string \<Rightarrow> plan_entry option" where
  "find_receive_plan_entry plan relative =
     (case plan of None \<Rightarrow> None | Some p \<Rightarrow> map_of (rp_entries p) relative)"

definition record_receive_plan_header :: "string \<Rightarrow> receive_plan option \<Rightarrow> receive_plan option result" where
  "record_receive_plan_header relative plan =
     (case plan of
        None \<Rightarrow> Inr None
      | Some p \<Rightarrow>
          if \<not> omap_has (rp_entries p) relative then Inl (''file header was not listed in manifest: '' @ relative)
          else if relative \<in> set (rp_received p) then Inl (''duplicate file header for manifest entry: '' @ relative)
          else Inr (Some (p\<lparr>rp_received := oset_insert relative (rp_received p)\<rparr>)))"

definition validate_receive_plan_complete :: "receive_plan option \<Rightarrow> unit result" where
  "validate_receive_plan_complete plan =
     (case plan of
        None \<Rightarrow> Inr ()
      | Some p \<Rightarrow>
          if length (rp_received p) = length (rp_entries p) then Inr ()
          else case List.find (\<lambda>(relative, _). relative \<notin> set (rp_received p)) (rp_entries p) of
              Some (relative, _) \<Rightarrow> Inl (''transfer ended before manifest entry: '' @ relative)
            | None \<Rightarrow> Inl ''transfer manifest completion mismatch'')"

definition validate_receive_plan_header :: "plan_entry \<Rightarrow> message \<Rightarrow> string \<Rightarrow> u64 \<Rightarrow> unit result" where
  "validate_receive_plan_header planned header relative declared_size =
     (let header_kind =
        (if is_symlink_header header then ''symlink''
         else if is_dir_header relative declared_size then ''dir'' else ''file'')
      in if me_kind (pe_manifest planned) \<noteq> header_kind
         then Inl (''file header kind does not match manifest for '' @ relative)
         else if me_size (pe_manifest planned) \<noteq> declared_size
         then Inl (''file header size does not match manifest for '' @ relative)
         else if header_kind = ''symlink'' \<and> me_target (pe_manifest planned) \<noteq> msg_get header ''target'' []
         then Inl (''file header symlink target does not match manifest for '' @ relative)
         else Inr ())"


section \<open>The check changes nothing\<close>

lemma resolve_fresh_aux:
  assumes "resolve fuel fs at ns follow = Inr loc" "fs loc = None" and "\<And>l. l \<noteq> loc \<Longrightarrow> g l = fs l"
    and "g loc = Some new" "\<And>t. new \<noteq> Symlink t"
  shows "resolve fuel g at ns follow = Inr loc"
  using assms
proof (induction fuel fs at ns follow rule: resolve.induct)
  case (2 fuel fs at n ns follow)
  consider "n = [] \<or> n = ''.''" | "n \<noteq> []" "n \<noteq> ''.''" "n = ''..''" | "n \<noteq> []" "n \<noteq> ''.''" "n \<noteq> ''..''" by blast
  then show ?case
  proof cases
    case 1
    with "2.IH"(1) "2.prems" show ?thesis by (subst resolve.simps(2)) (auto simp: resolve.simps(2))
  next
    case 2
    with "2.IH"(2) "2.prems" show ?thesis by (subst resolve.simps(2)) (auto simp: resolve.simps(2))
  next
    case 3
    show ?thesis
    proof (cases "at @ [n] = loc")
      case True
      with 3 "2.prems" show ?thesis
        by (subst resolve.simps(2)) (auto simp: resolve.simps(2) split: if_splits node.splits)
    next
      case False
      then have same: "g (at @ [n]) = fs (at @ [n])" using "2.prems"(3) by blast
      show ?thesis
      proof (cases "fs (at @ [n])")
        case None
        with 3 same "2.prems" show ?thesis by (subst resolve.simps(2)) (auto simp: resolve.simps(2) split: if_splits)
      next
        case (Some node)
        then show ?thesis
          using 3 same "2.prems" "2.IH"(3-5)
          by (subst resolve.simps(2), subst (asm) resolve.simps(2))
            (cases node; auto simp: Let_def split: if_splits nat.splits)
      qed
    qed
  qed
qed simp

lemma resolve_fresh:
  "resolve fuel fs at ns follow = Inr loc \<Longrightarrow> fs loc = None \<Longrightarrow> resolve fuel (fs(loc \<mapsto> Directory)) at ns follow = Inr loc"
  by (rule resolve_fresh_aux [of fuel fs at ns follow loc _ Directory]) simp_all

lemma create_remove_directory:
  assumes "create_directory p fs = (Inr True, fs1)"
  shows "remove_directory p fs1 = (None, fs)"
proof -
  obtain loc where loc: "locate fs p False = Inr loc" "loc \<noteq> []" "nodes fs loc = None"
    "fs1 = put_node loc (Some Directory) fs"
    using assms by (auto simp: create_directory_def is_dir_def split: sum.splits if_splits)
  have "locate fs1 p False = Inr loc"
    using loc resolve_fresh by (auto simp: locate_def put_node_def split: if_splits)
  then show ?thesis
    using loc by (simp add: remove_directory_def put_node_def fun_upd_idem)
qed

lemma create_directory_other: "create_directory p fs = (r, fs1) \<Longrightarrow> r \<noteq> Inr True \<Longrightarrow> fs1 = fs"
  by (auto simp: create_directory_def split: sum.splits if_splits)

lemma case_probe_keeps: "snd (case_probe vol parent attempts fs) = fs"
proof (induction attempts)
  case (Cons attempt attempts)
  let ?lower = "append_path parent (parse_path ((''.kiko-case-probe-'' @ v_random vol attempt) @ ''a''))"
  obtain r fs1 where c: "create_directory ?lower fs = (r, fs1)" by fastforce
  show ?case
  proof (cases "r = Inr True")
    case True
    then have "remove_directory ?lower fs1 = (None, fs)" using create_remove_directory c by blast
    then show ?thesis using c True by (simp add: Let_def split: sum.split)
  next
    case False
    then have "fs1 = fs" using create_directory_other c by blast
    then show ?thesis using c Cons False by (auto simp: Let_def split: sum.split os_error.split bool.split)
  qed
qed simp

lemma reserve_target_keeps: "snd (reserve_target vol output_dir entry target st fs) = fs"
proof -
  have p: "snd (receive_filesystem_is_case_insensitive vol output_dir fs) = fs"
    by (simp add: receive_filesystem_is_case_insensitive_def case_probe_keeps split: option.split)
  have "snd (folded_collision vol output_dir entry target st fs) = fs"
    using p by (auto simp: folded_collision_def split: option.split prod.split sum.split)
  then show ?thesis
    by (auto simp: reserve_target_def Let_def split: option.split prod.split sum.split)
qed

lemma xfs_same: "(\<And>fs. snd (f fs) = fs) \<Longrightarrow> xkeeps same_fs (xfs f)"
  by (auto simp: xkeeps_def same_fs_def xfs_def split: prod.split) (metis snd_conv)

lemma preflight_entry_keeps: "xkeeps same_fs (preflight_entry vol output_dir policy entry st)"
  unfolding preflight_entry_def
  by (intro same_fs_intros xfs_same | simp add: reserve_target_keeps split: prod.split | auto intro!: same_fs_intros xfs_same)+

lemma preflight_entries_keeps: "xkeeps same_fs (preflight_entries vol output_dir policy entries st)"
  by (induction entries arbitrary: st) (auto intro!: same_fs_intros preflight_entry_keeps)

lemma preflight_keeps: "xkeeps same_fs (preflight_transfer_manifest vol manifest output_dir policy)"
  unfolding preflight_transfer_manifest_def by (intro same_fs_intros preflight_entries_keeps)


section \<open>Sorted sets\<close>

definition oset_ok :: "'a::linorder list \<Rightarrow> bool" where
  "oset_ok s \<longleftrightarrow> sorted s \<and> distinct s"

lemma oset_insert_simps [simp]:
  "set (oset_insert x s) = insert x (set s)"
  "oset_ok s \<Longrightarrow> oset_ok (oset_insert x s)"
  "oset_ok s \<Longrightarrow> length (oset_insert x s) = (if x \<in> set s then length s else Suc (length s))"
  by (simp_all add: oset_insert_def oset_ok_def set_insort_insert sorted_insort_insert distinct_insort_insert)
     (simp add: insort_insert_key_def)

lemma oset_ok_Nil [simp]: "oset_ok []"
  by (simp add: oset_ok_def)

text \<open>The texts that begin with \<open>p\<close> follow each other in the order, the first at \<open>lower_bound p\<close>.\<close>

lemma prefix_between:
  fixes p x y :: string
  assumes "p \<le> x" "x \<le> p @ y"
  shows "prefix p x"
  using assms
proof (induction p arbitrary: x)
  case (Cons c p)
  then obtain d x' where x: "x = d # x'" by (cases x) auto
  then have "d = c" using Cons.prems by auto
  then have "prefix p x'" using Cons x by auto
  then show ?case using x \<open>d = c\<close> by simp
qed simp

lemma lower_bound_prefix:
  fixes s :: "string list"
  assumes "sorted s"
  shows "(case lower_bound p s of None \<Rightarrow> False | Some x \<Rightarrow> prefix p x) \<longleftrightarrow> (\<exists>x \<in> set s. prefix p x)"
proof
  assume "case lower_bound p s of None \<Rightarrow> False | Some x \<Rightarrow> prefix p x"
  then show "\<exists>x \<in> set s. prefix p x"
    by (auto simp: lower_bound_def find_Some_iff split: option.splits)
next
  assume "\<exists>x \<in> set s. prefix p x"
  then obtain y where y: "p @ y \<in> set s" by (auto elim: prefixE)
  have le: "p \<le> p @ y" by (induction p) auto
  obtain x where x: "lower_bound p s = Some x"
    using y le by (cases "lower_bound p s") (auto simp: lower_bound_def find_None_iff)
  then obtain i where i: "i < length s" "x = s ! i" "\<not> x < p" "\<forall>j < i. s ! j < p"
    by (auto simp: lower_bound_def find_Some_iff)
  obtain j where j: "j < length s" "p @ y = s ! j" using y by (metis in_set_conv_nth)
  have "i \<le> j" using i(4) j le by (metis leD not_le_imp_less)
  then have "x \<le> p @ y" using assms i j by (simp add: sorted_nth_mono)
  then have "prefix p x" using prefix_between i(3) by (metis not_le_imp_less)
  then show "case lower_bound p s of None \<Rightarrow> False | Some x \<Rightarrow> prefix p x" using x by simp
qed

lemma key_parent_prefix: "key_is_parent_of a b \<longleftrightarrow> prefix (a @ [slash]) b"
proof
  assume "key_is_parent_of a b"
  then have k: "length a < length b" "take (length a) b = a" "b ! length a = slash"
    by (simp_all add: key_is_parent_of_def)
  have "b = take (length a) b @ b ! length a # drop (Suc (length a)) b" by (rule id_take_nth_drop [OF k(1)])
  then have "b = (a @ [slash]) @ drop (Suc (length a)) b" unfolding k(2,3) by simp
  then show "prefix (a @ [slash]) b" by (metis prefixI)
next
  assume "prefix (a @ [slash]) b"
  then show "key_is_parent_of a b" by (auto simp: key_is_parent_of_def elim!: prefixE)
qed

text \<open>What a target without collision is free of.\<close>

lemma plan_collision_None:
  assumes "sorted targets"
  shows "plan_collision_error t directory targets files fold_case = None \<longleftrightarrow>
    target_key t fold_case \<notin> set targets \<and> \<not> parent_reserved files fold_case (parent_path t) \<and>
    (directory \<or> (\<forall>x \<in> set targets. \<not> key_is_parent_of (target_key t fold_case) x))"
  using lower_bound_prefix [OF assms, of "target_key t fold_case @ [slash]"]
  by (auto simp: plan_collision_error_def Let_def key_parent_prefix split: option.splits)

section \<open>What the keys say\<close>

definition name_ok :: "string \<Rightarrow> bool" where
  "name_ok n \<longleftrightarrow> n \<noteq> [] \<and> slash \<notin> set n"

definition path_names :: "path \<Rightarrow> string list" where
  "path_names p = (if is_absolute p then tl p else p)"

definition slashless :: "path \<Rightarrow> bool" where
  "slashless p \<longleftrightarrow> (\<forall>n \<in> set (path_names p). slash \<notin> set n)"

text \<open>The names left of a path after normalising.\<close>

definition normal_stack :: "bool \<Rightarrow> string list \<Rightarrow> string list" where
  "normal_stack absol ns = rev (fst (normal_names absol [] False ns))"

definition render_key :: "bool \<Rightarrow> string list \<Rightarrow> string" where
  "render_key absol xs =
     (if xs = [] then (if absol then [slash] else ''.'') else (if absol then [slash] else []) @ join_names xs)"

fun norm_step :: "bool \<Rightarrow> string \<Rightarrow> string list \<times> bool \<Rightarrow> string list \<times> bool" where
  "norm_step absol n (acc, trailing) =
     (if n = [] \<or> n = ''.'' then (acc, True)
      else if n = ''..'' then
        (case acc of
           [] \<Rightarrow> if absol then ([], True) else ([''..''], False)
         | x # acc' \<Rightarrow> if x = ''..'' then (''..'' # acc, False) else (acc', True))
      else (n # acc, False))"

lemma normal_names_fold: "normal_names absol acc trailing ns = fold (norm_step absol) ns (acc, trailing)"
  by (induction absol acc trailing ns rule: normal_names.induct) (auto split: list.splits)

lemma norm_step_ok: "\<forall>n \<in> set (fst st). name_ok n \<Longrightarrow> slash \<notin> set n \<Longrightarrow> \<forall>n \<in> set (fst (norm_step absol n st)). name_ok n"
  by (cases st) (auto simp: name_ok_def slash_def split: list.split)

lemma normal_names_ok:
  assumes "\<forall>n \<in> set acc. name_ok n" "\<forall>n \<in> set ns. slash \<notin> set n"
  shows "\<forall>n \<in> set (fst (normal_names absol acc trailing ns)). name_ok n"
  unfolding normal_names_fold
  by (rule fold_invariant_list [where P = "\<lambda>st. \<forall>n \<in> set (fst st). name_ok n"])
    (use assms norm_step_ok in auto)

lemma normal_stack_no_dot: "''.'' \<notin> set (normal_stack absol ns)"
proof -
  have "''.'' \<notin> set (fst (fold (norm_step absol) ns ([], False)))"
    by (rule fold_invariant_list) (auto split: list.splits if_splits)
  then show ?thesis by (simp add: normal_stack_def normal_names_fold)
qed

lemma normal_stack_ok: "\<forall>n \<in> set ns. slash \<notin> set n \<Longrightarrow> n \<in> set (normal_stack absol ns) \<Longrightarrow> name_ok n"
  using normal_names_ok [of "[]" ns absol False] by (auto simp: normal_stack_def)

lemma join_names_Cons: "ns \<noteq> [] \<Longrightarrow> join_names (n # ns) = n @ slash # join_names ns"
  by (cases ns) simp_all

lemma join_names_append: "ns \<noteq> [] \<Longrightarrow> ms \<noteq> [] \<Longrightarrow> join_names (ns @ ms) = join_names ns @ slash # join_names ms"
  by (induction ns rule: join_names.induct) (simp_all add: join_names_Cons)

lemma join_names_last: "xs \<noteq> [] \<Longrightarrow> \<forall>n \<in> set xs. name_ok n \<Longrightarrow> join_names xs \<noteq> [] \<and> last (join_names xs) \<noteq> slash"
proof (induction xs rule: join_names.induct)
  case (2 n)
  then have "n \<noteq> []" "slash \<notin> set n" by (simp_all add: name_ok_def)
  then show ?case by (metis join_names.simps(2) last_in_set)
qed (auto simp: name_ok_def)

lemma pop_slashes_id: "last key \<noteq> slash \<Longrightarrow> pop_slashes key = key"
  by (subst pop_slashes.simps) simp

lemma pop_slashes_snoc: "key \<noteq> [] \<Longrightarrow> last key \<noteq> slash \<Longrightarrow> pop_slashes (key @ [slash]) = key"
  by (subst pop_slashes.simps) (simp add: pop_slashes_id Suc_le_eq)

lemma pop_slashes_root: "pop_slashes [slash] = [slash]"
  by (subst pop_slashes.simps) simp

lemma target_key_plain:
  assumes "p \<noteq> []" "slashless p"
  shows "target_key p False = render_key (is_absolute p) (normal_stack (is_absolute p) (path_names p))"
proof -
  obtain acc trailing where nn: "normal_names (is_absolute p) [] False (path_names p) = (acc, trailing)" by fastforce
  let ?xs = "rev acc"
  have xs: "normal_stack (is_absolute p) (path_names p) = ?xs" by (simp add: normal_stack_def nn)
  have ok: "\<forall>n \<in> set ?xs. name_ok n" using normal_stack_ok assms(2) xs unfolding slashless_def by metis
  have norm: "lexically_normal p =
      (if acc = [] then (if is_absolute p then [[slash]] else [''.''])
       else (if is_absolute p then [[slash]] else []) @ ?xs @ (if trailing \<and> hd acc \<noteq> ''..'' then [[]] else []))"
    using assms(1) nn by (simp add: lexically_normal_def path_names_def)
  show ?thesis
  proof (cases "acc = []")
    case True
    have "last ''.'' \<noteq> slash" "''.'' \<noteq> [slash]" by (simp_all add: slash_def)
    then show ?thesis
      using True xs by (simp add: target_key_def norm render_key_def path_string_def is_absolute_def
          pop_slashes_root pop_slashes_id)
  next
    case False
    then have ne: "?xs \<noteq> []" by simp
    note last_ok = join_names_last [OF ne ok]
    have hd: "hd (?xs @ ys) \<noteq> [slash]" for ys
      using ok ne by (cases ?xs) (auto simp: name_ok_def)
    let ?tail = "if trailing \<and> hd acc \<noteq> ''..'' then [[]] else [] :: string list"
    have str: "path_string (lexically_normal p) =
        (if is_absolute p then [slash] else []) @ join_names (?xs @ ?tail)"
      using False hd [of ?tail] ne by (auto simp: norm path_string_def is_absolute_def)
    have "join_names (?xs @ [[]]) = join_names ?xs @ [slash]"
      using join_names_append [OF ne, of "[[]]"] by simp
    then have "pop_slashes (path_string (lexically_normal p)) = (if is_absolute p then [slash] else []) @ join_names ?xs"
      using last_ok str
      by (auto simp: pop_slashes_id pop_slashes_snoc [of "slash # join_names ?xs", simplified] pop_slashes_snoc)
    then show ?thesis using ne xs by (simp add: target_key_def render_key_def)
  qed
qed

section \<open>Parents\<close>

lemma norm_step_cases:
  "fst (norm_step absol n (acc, t)) = acc \<or> (\<exists>x. acc = x # fst (norm_step absol n (acc, t))) \<or>
   (\<exists>x. fst (norm_step absol n (acc, t)) = x # acc)"
  by (cases acc) auto

text \<open>Every proper initial part of the names left was what was left of an initial part of the path.\<close>

lemma stack_prefix_seen:
  assumes "k < length (normal_stack absol ns)"
  shows "\<exists>m < length ns. normal_stack absol (take m ns) = take k (normal_stack absol ns)"
  using assms
proof (induction ns arbitrary: k rule: rev_induct)
  case (snoc n ns)
  obtain acc t where st: "normal_names absol [] False ns = (acc, t)" by fastforce
  have old: "normal_stack absol ns = rev acc" by (simp add: normal_stack_def st)
  have new: "normal_stack absol (ns @ [n]) = rev (fst (norm_step absol n (acc, t)))"
    using st by (simp add: normal_stack_def normal_names_fold)
  have seen: "\<exists>m < length (ns @ [n]). normal_stack absol (take m (ns @ [n])) = take k (rev acc)" if le: "k \<le> length acc"
  proof (cases "k = length acc")
    case True
    then show ?thesis using old by (intro exI [of _ "length ns"]) simp
  next
    case False
    then obtain m where "m < length ns" "normal_stack absol (take m ns) = take k (rev acc)"
      using snoc.IH [of k] le old by auto
    then show ?thesis by (intro exI [of _ m]) simp
  qed
  consider "fst (norm_step absol n (acc, t)) = acc" | x where "acc = x # fst (norm_step absol n (acc, t))"
    | x where "fst (norm_step absol n (acc, t)) = x # acc"
    using norm_step_cases by blast
  then show ?case
  proof cases
    case 1
    then show ?thesis using seen snoc.prems new by simp
  next
    case (2 x)
    let ?b = "fst (norm_step absol n (acc, t))"
    have "k < length ?b" using snoc.prems new by simp
    moreover have "rev acc = rev ?b @ [x]" by (subst 2) simp
    moreover have "length acc = Suc (length ?b)" by (subst 2) simp
    ultimately show ?thesis using seen new by simp
  next
    case (3 x)
    then have "k \<le> length acc" using snoc.prems new by simp
    then show ?thesis using seen new 3 by simp
  qed
qed (simp add: normal_stack_def)

lemma parent_reserved_take:
  assumes "0 < m" "m \<le> length (path_names p)"
    and "target_key ((if is_absolute p then [[slash]] else []) @ take m (path_names p)) fold_case \<in> set files"
  shows "parent_reserved files fold_case p"
  using assms
proof (induction p rule: rev_induct)
  case (snoc x p)
  show ?case
  proof (cases "m = length (path_names (p @ [x]))")
    case True
    have "(if is_absolute (p @ [x]) then [[slash]] else []) @ path_names (p @ [x]) = p @ [x]"
      by (cases p) (auto simp: path_names_def is_absolute_def)
    then show ?thesis using snoc.prems True by (subst parent_reserved.simps) simp
  next
    case False
    then have pn: "path_names (p @ [x]) = path_names p @ [x]" "p \<noteq> []" "is_absolute (p @ [x]) = is_absolute p"
      using snoc.prems by (auto simp: path_names_def is_absolute_def hd_append split: if_splits)
    then have "parent_reserved files fold_case p" using snoc False by auto
    moreover have "parent_path (p @ [x]) = p" using pn(2) by (simp add: parent_path_def)
    ultimately show ?thesis by (subst parent_reserved.simps) simp
  qed
qed (simp add: path_names_def is_absolute_def)

lemma join_names_prefix:
  assumes "\<forall>n \<in> set xs. name_ok n" "\<forall>n \<in> set ys. name_ok n" "xs \<noteq> []" "prefix (join_names xs @ [slash]) (join_names ys)"
  shows "\<exists>zs. ys = xs @ zs \<and> zs \<noteq> []"
  using assms
proof (induction xs arbitrary: ys rule: join_names.induct)
  case (2 n)
  obtain y ys' where ys: "ys = y # ys'" using 2 by (cases ys) auto
  obtain r where r: "join_names ys = n @ slash # r" using 2(4) by (auto elim: prefixE)
  have no: "slash \<notin> set n" "slash \<notin> set y" using 2 ys by (auto simp: name_ok_def)
  show ?case
  proof (cases "ys' = []")
    case True
    then have "slash \<in> set y" using r ys by simp
    then show ?thesis using no by blast
  next
    case False
    then have "y @ slash # join_names ys' = n @ slash # r" using r ys by (simp add: join_names_Cons)
    then have "cut slash (y @ slash # join_names ys') = cut slash (n @ slash # r)" by simp
    then show ?thesis unfolding cut_append [OF no(1)] cut_append [OF no(2)] using False ys by simp
  qed
next
  case (3 n m ms)
  obtain y ys' where ys: "ys = y # ys'" using 3 by (cases ys) auto
  obtain r where r: "join_names ys = n @ slash # r" using 3(5) by (auto elim: prefixE)
  have no: "slash \<notin> set n" "slash \<notin> set y" using 3 ys by (auto simp: name_ok_def)
  have "ys' \<noteq> []"
  proof
    assume "ys' = []"
    then have "slash \<in> set y" using r ys by simp
    then show False using no by blast
  qed
  then have j: "join_names ys = y @ slash # join_names ys'" using ys by (simp add: join_names_Cons)
  then have "cut slash (y @ slash # join_names ys') = cut slash (n @ slash # r)" using r by simp
  then have "y = n \<and> r = join_names ys'"
    unfolding cut_append [OF no(1)] cut_append [OF no(2)] by simp
  then have "y = n" "r = join_names ys'" by simp_all
  then have "prefix (join_names (m # ms) @ [slash]) (join_names ys')" using 3(5) j by simp
  then show ?case using "3.IH" [of ys'] 3 ys \<open>y = n\<close> by simp
qed simp

lemma tolower_dot: "tolower c = CHR ''.'' \<longleftrightarrow> c = CHR ''.''"
proof
  assume t: "tolower c = CHR ''.''"
  show "c = CHR ''.''"
  proof (rule ccontr)
    assume "c \<noteq> CHR ''.''"
    then have c: "65 \<le> (of_char c :: nat)" "(of_char c :: nat) \<le> 90" "char_of (of_char c + 32 :: nat) = CHR ''.''"
      using t by (auto simp: tolower_def split: if_splits)
    then have "of_char (char_of (of_char c + 32 :: nat)) = (46 :: nat)" by simp
    then show False using c(1,2) by simp
  qed
qed (simp add: tolower_def)

lemma tolower_slash [simp]: "tolower c = slash \<longleftrightarrow> c = slash"
proof
  assume t: "tolower c = slash"
  show "c = slash"
  proof (rule ccontr)
    assume "c \<noteq> slash"
    then have c: "65 \<le> (of_char c :: nat)" "(of_char c :: nat) \<le> 90" "char_of (of_char c + 32 :: nat) = slash"
      using t by (auto simp: tolower_def split: if_splits)
    then have "of_char (char_of (of_char c + 32 :: nat)) = (47 :: nat)" by (simp add: slash_def)
    then show False using c(1,2) by simp
  qed
qed (simp add: tolower_def slash_def)

lemma lower_simps [simp]:
  "lowercase_ascii (a @ b) = lowercase_ascii a @ lowercase_ascii b"
  "lowercase_ascii (slash # b) = slash # lowercase_ascii b"
  "lowercase_ascii [] = []"
  by (simp_all add: lowercase_ascii_def)

lemma lower_name_ok [simp]: "name_ok (lowercase_ascii n) = name_ok n"
  by (auto simp: name_ok_def lowercase_ascii_def image_iff eq_commute [of slash])

lemma lower_join: "lowercase_ascii (join_names ns) = join_names (map lowercase_ascii ns)"
  by (induction ns rule: join_names.induct) simp_all

definition fold_name :: "bool \<Rightarrow> string \<Rightarrow> string" where
  "fold_name fold_case n = (if fold_case then lowercase_ascii n else n)"

lemma fold_name_ok [simp]: "name_ok (fold_name c n) = name_ok n"
  by (simp add: fold_name_def)

lemma target_key_render:
  assumes "p \<noteq> []" "slashless p"
  shows "target_key p c = render_key (is_absolute p) (map (fold_name c) (normal_stack (is_absolute p) (path_names p)))"
proof -
  have "lowercase_ascii ''.'' = ''.''" by (simp add: lowercase_ascii_def tolower_def)
  then have "lowercase_ascii (render_key ab xs) = render_key ab (map lowercase_ascii xs)" for ab xs
    by (simp add: render_key_def lower_join)
  moreover have "target_key p c = (if c then lowercase_ascii (target_key p False) else target_key p False)"
    by (simp add: target_key_def)
  ultimately show ?thesis
    using target_key_plain [OF assms] by (simp add: fold_name_def [abs_def])
qed

lemma fold_name_dot: "fold_name c n = ''.'' \<longleftrightarrow> n = ''.''"
  by (auto simp: fold_name_def lowercase_ascii_def map_eq_Cons_conv tolower_dot)

text \<open>A key is a parent of another one only if a parent of that path has the key.\<close>

lemma parent_key_found:
  assumes "t \<noteq> []" "slashless t" "f \<noteq> []" "slashless f" "is_absolute f = is_absolute t"
    and "key_is_parent_of (target_key f c) (target_key t c)" and "target_key f c \<in> set files"
  shows "parent_reserved files c (parent_path t)"
proof -
  let ?ab = "is_absolute t" and ?ys = "normal_stack (is_absolute t) (path_names t)"
  let ?xs = "normal_stack ?ab (path_names f)"
  let ?fy = "map (fold_name c) ?ys" and ?fx = "map (fold_name c) ?xs"
  have ok: "\<forall>n \<in> set ?ys. name_ok n" "\<forall>n \<in> set ?xs. name_ok n"
    using assms(2,4,5) normal_stack_ok by (auto simp: slashless_def)
  then have fok: "\<forall>n \<in> set ?fy. name_ok n" "\<forall>n \<in> set ?fx. name_ok n" by auto
  have pre: "prefix (render_key ?ab ?fx @ [slash]) (render_key ?ab ?fy)"
    using assms(6) target_key_render [OF assms(1,2)] target_key_render [OF assms(3,4)] assms(5)
    by (simp add: key_parent_prefix)
  have first: "hd (join_names (n # ns)) \<noteq> slash" if "name_ok n" for n ns
    using that by (cases ns; cases n) (auto simp: name_ok_def)
  have ys: "?ys \<noteq> []"
  proof
    assume "?ys = []"
    then have "length (render_key ?ab ?fy) = 1" by (simp add: render_key_def)
    moreover have "render_key ?ab ?fx \<noteq> []" using join_names_last [of ?fx] fok(2) by (auto simp: render_key_def)
    ultimately show False using pre by (auto simp: prefix_def neq_Nil_conv)
  qed
  have xs: "?xs \<noteq> []"
  proof
    assume x: "?xs = []"
    obtain n ns where n: "?fy = n # ns" using ys by (cases ?fy) auto
    show False
    proof (cases ?ab)
      case True
      then have "hd (join_names (n # ns)) = slash"
        using pre x n by (auto simp: render_key_def prefix_def)
      then show False using first fok(1) n by auto
    next
      case False
      then have "prefix (join_names [''.''] @ [slash]) (join_names ?fy)"
        using pre x ys by (simp add: render_key_def)
      then obtain zs where "?fy = [''.''] @ zs"
        using join_names_prefix [of "[''.'']" ?fy] fok(1) by (auto simp: name_ok_def slash_def)
      then have "''.'' \<in> set ?fy" by simp
      then obtain m where "m \<in> set ?ys" "fold_name c m = ''.''" by auto
      then show False using normal_stack_no_dot fold_name_dot by metis
    qed
  qed
  have "prefix (join_names ?fx @ [slash]) (join_names ?fy)"
    using pre xs ys by (simp add: render_key_def split: if_splits)
  then obtain zs where zs: "?fy = ?fx @ zs" "zs \<noteq> []"
    using join_names_prefix [OF fok(2,1)] xs by auto
  let ?k = "length ?xs"
  have k: "?k < length ?ys" "take ?k ?fy = ?fx"
    using zs by (metis length_append length_greater_0_conv length_map less_add_same_cancel1) (simp add: zs(1))
  obtain m where m: "m < length (path_names t)" "normal_stack ?ab (take m (path_names t)) = take ?k ?ys"
    using stack_prefix_seen [OF k(1)] by blast
  have m0: "0 < m" using m(2) xs k(1) by (cases m) (auto simp: normal_stack_def)
  let ?q = "(if ?ab then [[slash]] else []) @ take m (path_names t)"
  have abq: "is_absolute ?q = ?ab" "path_names ?q = take m (path_names t)"
    using m m0 by (auto simp: is_absolute_def path_names_def hd_take split: if_splits)
  have "slashless ?q" using assms(2) abq by (auto simp: slashless_def dest: in_set_takeD)
  moreover have "?q \<noteq> []" using m m0 by auto
  ultimately have "target_key ?q c = render_key ?ab (map (fold_name c) (take ?k ?ys))"
    using target_key_render [of ?q c] abq m(2) by simp
  also have "\<dots> = target_key f c"
    using target_key_render [OF assms(3,4)] assms(5) k(2) by (simp add: take_map)
  finally have key: "target_key ?q c \<in> set files" using assms(7) by simp
  have pt: "path_names (parent_path t) = butlast (path_names t)" "is_absolute (parent_path t) = ?ab"
    using m m0 by (cases t; cases "tl t"; simp add: parent_path_def path_names_def is_absolute_def split: if_splits)+
  have "take m (butlast (path_names t)) = take m (path_names t)"
    using m(1) by (rule take_butlast)
  then show ?thesis
    using parent_reserved_take [of m "parent_path t" c files] key m m0 pt by (simp only: pt) simp
qed

end
