(* ===== verification/Plan_Checks.thy ===== *)
theory Plan_Checks
  imports Receive_Plan "HOL-Library.Multiset"
begin

text \<open>
  What an accepted receive plan guarantees: nothing was changed while it was made, every entry
  of the manifest has a checked target, no two targets meet, and the account of arriving headers
  closes exactly if every entry arrived once.
\<close>

section \<open>Targets\<close>

definition target_shape :: "path \<Rightarrow> path \<Rightarrow> bool" where
  "target_shape output_dir t \<longleftrightarrow> t \<noteq> [] \<and> slashless t \<and> is_absolute t = is_absolute output_dir"

lemma split_extension_chars: "set (fst (split_extension n)) \<union> set (snd (split_extension n)) \<subseteq> set n"
proof (cases "n = ''.'' \<or> n = ''..''")
  case True
  then show ?thesis by (auto simp: split_extension_def)
next
  case False
  show ?thesis
  proof (cases rule: cut_cases [of "CHR ''.''" "rev n"])
    case (found v r)
    have "n = rev r @ CHR ''.'' # rev v" using arg_cong [OF found(1), of rev] by simp
    then show ?thesis using False found by (auto simp: split_extension_def)
  qed (use False in \<open>auto simp: split_extension_def\<close>)
qed

lemma to_dec_slash [simp]: "slash \<notin> set (to_dec n)"
  using to_dec_char_not [of slash n] by (simp add: slash_def isdigit_def)

lemma conflict_loop_name:
  "conflict_loop fs reserved parent st ext i turns = Some c \<Longrightarrow> \<exists>j. c = append_path parent [st @ '' ('' @ to_dec j @ '')'' @ ext]"
  by (induction fs reserved parent st ext i turns rule: conflict_loop.induct) (auto simp: Let_def split: if_splits)

lemma append_shape:
  assumes "slashless q" "rel \<noteq> []" "\<forall>n \<in> set rel. slash \<notin> set n"
  shows "target_shape q (append_path q rel)"
proof -
  have rel: "\<not> is_absolute rel" using assms(2,3) by (cases rel) (auto simp: is_absolute_def)
  define q' where "q' = (if q \<noteq> [] \<and> last q = [] then butlast q else q)"
  have a: "append_path q rel = q' @ rel" using rel assms(2) by (simp add: append_path_def q'_def)
  have q': "slashless q'" "is_absolute q' = is_absolute q"
    using assms(1) by (cases q; cases "tl q"; auto simp: q'_def slashless_def path_names_def is_absolute_def dest: in_set_butlastD)+
  have "is_absolute (q' @ rel) = is_absolute q'" "path_names (q' @ rel) = path_names q' @ rel"
    using rel assms(2) by (cases q'; auto simp: is_absolute_def path_names_def)+
  then show ?thesis using a q' assms by (auto simp: target_shape_def slashless_def)
qed

lemma butlast_shape:
  assumes "slashless p" "p \<noteq> [[slash]]" "p \<noteq> []"
  shows "slashless (butlast p)" "is_absolute (butlast p) = is_absolute p" "slash \<notin> set (filename p)"
proof -
  obtain q x where p: "p = q @ [x]" using assms(3) by (metis append_butlast_last_id)
  show "slashless (butlast p)" "is_absolute (butlast p) = is_absolute p" "slash \<notin> set (filename p)"
    using assms(1,2) unfolding p by (cases q; auto simp: slashless_def path_names_def is_absolute_def filename_def split: if_splits)+
qed

lemma unique_conflict_shape:
  assumes "unique_conflict_path fs reserved p = Inr c" "target_shape out p" "p \<noteq> [[slash]]"
  shows "target_shape out c"
proof -
  define st where "st = (if (if stem p = [] then filename p else stem p) = [] then ''received''
    else (if stem p = [] then filename p else stem p))"
  obtain j where c: "c = append_path (parent_path p) [st @ '' ('' @ to_dec j @ '')'' @ extension p]"
    using assms(1) conflict_loop_name unfolding st_def
    by (fastforce simp: unique_conflict_path_def Let_def split: option.splits)
  have p: "slashless p" "p \<noteq> []" using assms(2) by (simp_all add: target_shape_def)
  note b = butlast_shape [OF p(1) assms(3) p(2)]
  have "slash \<notin> set (stem p)" "slash \<notin> set (extension p)"
    using split_extension_chars [of "filename p"] b(3) by (auto simp: stem_def extension_def)
  moreover have "slash \<notin> set ''received''" "slash \<notin> set '' (''" "slash \<notin> set '')''" by (simp_all add: slash_def)
  ultimately have "slash \<notin> set (st @ '' ('' @ to_dec j @ '')'' @ extension p)"
    using b(3) by (simp add: st_def)
  then have "target_shape (butlast p) c"
    using append_shape [OF b(1)] assms(3) unfolding c by (simp add: parent_path_def)
  then show ?thesis using assms(2) b(2) by (simp add: target_shape_def)
qed

lemma safe_join_shape:
  assumes "safe_join out relative = Inr t" "relative \<noteq> []" "slashless out"
  shows "target_shape out t \<and> t \<noteq> [[slash]]"
proof -
  note j = safe_join_InrD [OF assms(1)]
  have rel: "parse_path relative \<noteq> []"
    using assms(2) by (auto simp: parse_path_def Let_def split_names.simps [of relative] split: prod.splits option.splits)
  have shape: "target_shape out t" unfolding j(1) by (rule append_shape [OF assms(3) rel j(4)])
  have "t \<noteq> []" "last t \<in> set (parse_path relative)"
    using rel j(2) by (auto simp: j(1) append_path_def)
  then have "slash \<notin> set (last t)" using j(4) by blast
  then show ?thesis using shape by auto
qed

lemma choose_action_shape:
  assumes "choose_action fs policy reserved entry current = Inr (action, target, overwrites)"
    and "target_shape out current" "current \<noteq> [[slash]]"
  shows "target_shape out target"
  using assms unique_conflict_shape
  by (auto simp: choose_action_def Let_def andthen_Inr_iff split: if_splits sum.splits node.splits)

section \<open>Reserved keys\<close>

abbreviation taken :: "plan_entry \<Rightarrow> bool" where "taken e \<equiv> pe_action e \<noteq> PlanSkip"
abbreviation is_directory :: "plan_entry \<Rightarrow> bool" where "is_directory e \<equiv> me_kind (pe_manifest e) = ''dir''"

definition keys_of :: "bool \<Rightarrow> (string, plan_entry) omap \<Rightarrow> string set" where
  "keys_of c entries = {target_key (pe_target e) c | e. e \<in> ran (map_of entries) \<and> taken e}"

definition file_keys_of :: "bool \<Rightarrow> (string, plan_entry) omap \<Rightarrow> string set" where
  "file_keys_of c entries = {target_key (pe_target e) c | e. e \<in> ran (map_of entries) \<and> taken e \<and> \<not> is_directory e}"

text \<open>No two entries that are written have the same target, and no file is above another target.\<close>

definition targets_apart :: "bool \<Rightarrow> (string, plan_entry) omap \<Rightarrow> bool" where
  "targets_apart c entries \<longleftrightarrow>
     (\<forall>p q d e. map_of entries p = Some d \<longrightarrow> map_of entries q = Some e \<longrightarrow> p \<noteq> q \<longrightarrow> taken d \<longrightarrow> taken e \<longrightarrow>
        target_key (pe_target d) c \<noteq> target_key (pe_target e) c \<and>
        (\<not> is_directory d \<longrightarrow> \<not> key_is_parent_of (target_key (pe_target d) c) (target_key (pe_target e) c)))"

lemma ran_put: "map_of entries p = None \<Longrightarrow> ran (map_of (omap_put p e entries)) = insert e (ran (map_of entries))"
  by (simp add: ran_map_upd)

lemma keys_of_put:
  assumes "map_of entries p = None"
  shows "keys_of c (omap_put p e entries) = (if taken e then insert (target_key (pe_target e) c) (keys_of c entries) else keys_of c entries)"
    and "file_keys_of c (omap_put p e entries) =
      (if taken e \<and> \<not> is_directory e then insert (target_key (pe_target e) c) (file_keys_of c entries) else file_keys_of c entries)"
  unfolding keys_of_def file_keys_of_def ran_put [OF assms] by auto

lemma targets_apart_put:
  assumes "targets_apart c entries" "map_of entries p = None"
    and "taken e \<Longrightarrow> plan_collision_error (pe_target e) (is_directory e) targets files c = None"
    and "taken e \<Longrightarrow> sorted targets \<and> set targets = keys_of c entries \<and> set files = file_keys_of c entries"
    and "\<forall>d \<in> ran (map_of entries). target_shape out (pe_target d)" "target_shape out (pe_target e)"
  shows "targets_apart c (omap_put p e entries)"
proof (cases "taken e")
  case False
  then show ?thesis using assms(1) unfolding targets_apart_def map_of_put by (metis fun_upd_apply option.inject)
next
  case True
  have sets: "set targets = keys_of c entries" "set files = file_keys_of c entries" "sorted targets"
    using assms(4) [OF True] by simp_all
  have free: "target_key (pe_target e) c \<notin> keys_of c entries" "\<not> parent_reserved files c (parent_path (pe_target e))"
    "is_directory e \<or> (\<forall>x \<in> keys_of c entries. \<not> key_is_parent_of (target_key (pe_target e) c) x)"
    using assms(3) [OF True] unfolding plan_collision_None [OF sets(3)] sets(1) by blast+
  have above: "\<not> key_is_parent_of (target_key (pe_target d) c) (target_key (pe_target e) c)"
    if "d \<in> ran (map_of entries)" "taken d" "\<not> is_directory d" for d
  proof
    assume "key_is_parent_of (target_key (pe_target d) c) (target_key (pe_target e) c)"
    moreover have "target_key (pe_target d) c \<in> set files"
      unfolding sets(2) file_keys_of_def using that by blast
    ultimately show False
      using parent_key_found [of "pe_target e" "pe_target d" c files] free(2) bspec [OF assms(5) that(1)] assms(6)
      unfolding target_shape_def by blast
  qed
  have in_keys: "target_key (pe_target d) c \<in> keys_of c entries" if "map_of entries q = Some d" "taken d" for q d
    using that unfolding keys_of_def ran_def by blast
  have ran: "d \<in> ran (map_of entries)" if "map_of entries q = Some d" for q d using that by (auto simp: ran_def)
  show ?thesis
    unfolding targets_apart_def map_of_put
  proof (intro allI impI)
    fix q r d f
    assume a: "((map_of entries)(p \<mapsto> e)) q = Some d" "((map_of entries)(p \<mapsto> e)) r = Some f" "q \<noteq> r" "taken d" "taken f"
    consider "q = p" "d = e" "map_of entries r = Some f" | "r = p" "f = e" "map_of entries q = Some d"
      | "map_of entries q = Some d" "map_of entries r = Some f"
      using a(1,2,3) by (cases "q = p"; cases "r = p") simp_all
    then show "target_key (pe_target d) c \<noteq> target_key (pe_target f) c \<and>
        (\<not> is_directory d \<longrightarrow> \<not> key_is_parent_of (target_key (pe_target d) c) (target_key (pe_target f) c))"
    proof cases
      case 1
      then have "target_key (pe_target f) c \<in> keys_of c entries" using in_keys a(5) by blast
      then show ?thesis using free(1,3) 1(2) by metis
    next
      case 2
      then have "target_key (pe_target d) c \<in> keys_of c entries" "d \<in> ran (map_of entries)" using in_keys ran a(4) by blast+
      then show ?thesis using free(1) above a(4) 2(2) by metis
    next
      case 3
      then show ?thesis using assms(1) a unfolding targets_apart_def by blast
    qed
  qed
qed

section \<open>The loop\<close>

lemma xfs_Inr: "xfs f io = (Inr x, io') \<longleftrightarrow> (\<exists>fs. f (xi_fs io) = (Inr x, fs) \<and> io' = io\<lparr>xi_fs := fs\<rparr>)"
  by (auto simp: xfs_def split: prod.split)

text \<open>What a target that was reserved had been checked against, and what was reserved.\<close>

lemma reserve_target_Inr:
  assumes "reserve_target vol out entry target st fs = (Inr st', fs')"
  shows "plan_collision_error target (me_kind entry = ''dir'') (pf_targets st) (pf_files st) False = None \<and>
    (pf_insensitive st' \<noteq> Some False \<longrightarrow> pf_insensitive st \<noteq> Some False \<and>
       plan_collision_error target (me_kind entry = ''dir'') (pf_folded_targets st) (pf_folded_files st) True = None) \<and>
    ((\<forall>f p. v_exists vol f p = Inr True) \<longrightarrow> pf_insensitive st \<noteq> Some False \<longrightarrow> pf_insensitive st' \<noteq> Some False) \<and>
    st' = st\<lparr>pf_insensitive := pf_insensitive st',
      pf_targets := oset_insert (target_key target False) (pf_targets st),
      pf_folded_targets := oset_insert (target_key target True) (pf_folded_targets st),
      pf_files := (if me_kind entry = ''dir'' then pf_files st else oset_insert (target_key target False) (pf_files st)),
      pf_folded_files := (if me_kind entry = ''dir'' then pf_folded_files st else oset_insert (target_key target True) (pf_folded_files st))\<rparr>"
proof -
  have probe: "b" if "\<forall>f p. v_exists vol f p = Inr True" "case_probe vol parent l f = (Inr b, f')" for parent l f f' b
    using that(2)
  proof (induction l arbitrary: f)
    case (Cons attempt l)
    obtain r f1 where c: "create_directory (append_path parent (parse_path ((''.kiko-case-probe-'' @ v_random vol attempt) @ ''a''))) f = (r, f1)"
      by fastforce
    then show ?case
      using Cons that(1) by (cases r) (auto simp: Let_def split: os_error.splits bool.splits prod.splits option.splits)
  qed simp
  have insens: "(\<forall>f p. v_exists vol f p = Inr True) \<Longrightarrow> receive_filesystem_is_case_insensitive vol out f = (Inr b, f') \<Longrightarrow> b" for f f' b
    using probe by (simp add: receive_filesystem_is_case_insensitive_def split: if_splits option.splits)
  obtain i where i: "plan_collision_error target (me_kind entry = ''dir'') (pf_targets st) (pf_files st) False = None"
    "folded_collision vol out entry target st fs = (Inr i, fs')" "pf_insensitive st' = i"
    "st' = st\<lparr>pf_insensitive := i,
      pf_targets := oset_insert (target_key target False) (pf_targets st),
      pf_folded_targets := oset_insert (target_key target True) (pf_folded_targets st),
      pf_files := (if me_kind entry = ''dir'' then pf_files st else oset_insert (target_key target False) (pf_files st)),
      pf_folded_files := (if me_kind entry = ''dir'' then pf_folded_files st else oset_insert (target_key target True) (pf_folded_files st))\<rparr>"
    using assms by (auto simp: reserve_target_def Let_def split: option.splits prod.splits sum.splits)
  have f: "i \<noteq> Some False \<Longrightarrow> pf_insensitive st \<noteq> Some False \<and>
      plan_collision_error target (me_kind entry = ''dir'') (pf_folded_targets st) (pf_folded_files st) True = None"
    using i(2) by (auto simp: folded_collision_def split: option.splits prod.splits sum.splits if_splits)
  have g: "(\<forall>f p. v_exists vol f p = Inr True) \<Longrightarrow> pf_insensitive st \<noteq> Some False \<Longrightarrow> i \<noteq> Some False"
    using i(2) insens by (auto simp: folded_collision_def split: option.splits prod.splits sum.splits if_splits)
  show ?thesis
    unfolding i(3) by (intro conjI impI i(1) i(4)) (use f g in blast)+
qed

lemma account_space_Inr:
  "account_space fs entry action existing target resume st = Inr st' \<Longrightarrow>
   pf_targets st' = pf_targets st \<and> pf_files st' = pf_files st \<and> pf_folded_targets st' = pf_folded_targets st \<and>
   pf_folded_files st' = pf_folded_files st \<and> pf_insensitive st' = pf_insensitive st \<and> pf_seen st' = pf_seen st \<and>
   pf_entries st' = pf_entries st"
  by (cases "me_kind entry = ''file'' \<and> action \<noteq> PlanSkip";
      cases "add_manifest_size (pf_write st) (me_size entry - resume) (me_path entry)")
    (simp_all only: account_space_def Let_def andthen_simps if_True if_False simp_thms sum.inject sum.distinct; (elim FalseE)?; erule subst; simp)+

text \<open>What one turn of the loop has done when it does not throw.\<close>

lemma preflight_entry_Inr:
  assumes "preflight_entry vol out policy entry st io = (Inr st', io')"
  obtains current action target overwrites st1 io1 where
    "me_path entry \<noteq> []" "me_path entry \<notin> set (pf_seen st)" "safe_join out (me_path entry) = Inr current"
    "choose_action (xi_fs io) policy (pf_targets st) entry current = Inr (action, target, overwrites)"
    "validate_receive_target_parent (xi_fs io) out target (me_path entry) = Inr ()"
    "if action = PlanSkip then st1 = st else xfs (reserve_target vol out entry target st) io = (Inr st1, io1)"
    "pf_targets st' = pf_targets st1" "pf_files st' = pf_files st1" "pf_folded_targets st' = pf_folded_targets st1"
    "pf_folded_files st' = pf_folded_files st1" "pf_insensitive st' = pf_insensitive st1"
    "pf_seen st' = oset_insert (me_path entry) (pf_seen st1)"
    "pf_entries st' = omap_put (me_path entry) \<lparr>pe_manifest = entry, pe_target = target, pe_action = action\<rparr> (pf_entries st1)"
proof -
  have step: "\<exists>current computed action target overwrites resume.
      me_path entry \<noteq> [] \<and> me_path entry \<notin> set (pf_seen st) \<and> safe_join out (me_path entry) = Inr current \<and>
      choose_action (xi_fs io) policy (pf_targets st) entry current = Inr (action, target, overwrites) \<and>
      validate_receive_target_parent (xi_fs io) out target (me_path entry) = Inr () \<and>
      xbind (if action = PlanSkip then xret st else xfs (reserve_target vol out entry target st)) (\<lambda>st1.
        xbind (xcheck (\<lambda>fs. account_space fs entry action (path_exists_no_follow (xi_fs io) current) target resume st1)) (\<lambda>st2.
        xret (st2\<lparr>pf_seen := oset_insert (me_path entry) (pf_seen st2), pf_total := computed,
          pf_entries := omap_put (me_path entry) \<lparr>pe_manifest = entry, pe_target = target, pe_action = action\<rparr> (pf_entries st2),
          pf_summary := count_action entry action overwrites resume (pf_summary st2)\<rparr>))) io = (Inr st', io')"
    using assms unfolding preflight_entry_def xrun_Inr split_paired_Ex prod.case by blast
  then obtain current computed action target overwrites resume where s0:
    "me_path entry \<noteq> []" "me_path entry \<notin> set (pf_seen st)" "safe_join out (me_path entry) = Inr current"
    "choose_action (xi_fs io) policy (pf_targets st) entry current = Inr (action, target, overwrites)"
    "validate_receive_target_parent (xi_fs io) out target (me_path entry) = Inr ()"
    and rest: "xbind (if action = PlanSkip then xret st else xfs (reserve_target vol out entry target st)) (\<lambda>st1.
        xbind (xcheck (\<lambda>fs. account_space fs entry action (path_exists_no_follow (xi_fs io) current) target resume st1)) (\<lambda>st2.
        xret (st2\<lparr>pf_seen := oset_insert (me_path entry) (pf_seen st2), pf_total := computed,
          pf_entries := omap_put (me_path entry) \<lparr>pe_manifest = entry, pe_target = target, pe_action = action\<rparr> (pf_entries st2),
          pf_summary := count_action entry action overwrites resume (pf_summary st2)\<rparr>))) io = (Inr st', io')"
    by (elim exE conjE) (rule that)
  obtain st1 io1 st2 where s:
    "(if action = PlanSkip then xret st else xfs (reserve_target vol out entry target st)) io = (Inr st1, io1)"
    "account_space (xi_fs io1) entry action (path_exists_no_follow (xi_fs io) current) target resume st1 = Inr st2"
    "st' = st2\<lparr>pf_seen := oset_insert (me_path entry) (pf_seen st2), pf_total := computed,
        pf_entries := omap_put (me_path entry) \<lparr>pe_manifest = entry, pe_target = target, pe_action = action\<rparr> (pf_entries st2),
        pf_summary := count_action entry action overwrites resume (pf_summary st2)\<rparr>"
    using rest unfolding xbind_Inr [of "if action = PlanSkip then xret st else xfs (reserve_target vol out entry target st)"] xrun_Inr xprim_Inr
    by blast
  note a = account_space_Inr [OF s(2)]
  show ?thesis
  proof (rule that [OF s0, of st1 io1])
    show "if action = PlanSkip then st1 = st else xfs (reserve_target vol out entry target st) io = (Inr st1, io1)"
      using s(1) by (cases "action = PlanSkip") (simp_all add: xprim_Inr)
  qed (simp_all add: a s(3))
qed

definition plan_inv :: "path \<Rightarrow> preflight \<Rightarrow> bool" where
  "plan_inv out st \<longleftrightarrow>
     oset_ok (pf_targets st) \<and> oset_ok (pf_folded_targets st) \<and>
     set (pf_targets st) = keys_of False (pf_entries st) \<and> set (pf_files st) = file_keys_of False (pf_entries st) \<and>
     set (pf_folded_targets st) = keys_of True (pf_entries st) \<and> set (pf_folded_files st) = file_keys_of True (pf_entries st) \<and>
     set (pf_seen st) = fst ` set (pf_entries st) \<and> omap_ok (pf_entries st) \<and>
     (\<forall>e \<in> ran (map_of (pf_entries st)). target_shape out (pe_target e)) \<and>
     targets_apart False (pf_entries st) \<and> (pf_insensitive st \<noteq> Some False \<longrightarrow> targets_apart True (pf_entries st))"

lemma preflight_entry_inv:
  assumes "preflight_entry vol out policy entry st io = (Inr st', io')" "plan_inv out st" "slashless out"
  shows "plan_inv out st'"
    and "(\<forall>f p. v_exists vol f p = Inr True) \<Longrightarrow> pf_insensitive st \<noteq> Some False \<Longrightarrow> pf_insensitive st' \<noteq> Some False"
proof -
  obtain current action target overwrites st1 io1 where e:
    "me_path entry \<noteq> []" "me_path entry \<notin> set (pf_seen st)" "safe_join out (me_path entry) = Inr current"
    "choose_action (xi_fs io) policy (pf_targets st) entry current = Inr (action, target, overwrites)"
    "if action = PlanSkip then st1 = st else xfs (reserve_target vol out entry target st) io = (Inr st1, io1)"
    "pf_targets st' = pf_targets st1" "pf_files st' = pf_files st1" "pf_folded_targets st' = pf_folded_targets st1"
    "pf_folded_files st' = pf_folded_files st1" "pf_insensitive st' = pf_insensitive st1"
    "pf_seen st' = oset_insert (me_path entry) (pf_seen st1)"
    "pf_entries st' = omap_put (me_path entry) \<lparr>pe_manifest = entry, pe_target = target, pe_action = action\<rparr> (pf_entries st1)"
    by (rule preflight_entry_Inr [OF assms(1)])
  let ?e = "\<lparr>pe_manifest = entry, pe_target = target, pe_action = action\<rparr>"
  note inv = assms(2) [unfolded plan_inv_def]
  have new: "map_of (pf_entries st) (me_path entry) = None"
    using e(2) inv by (simp add: map_of_eq_None_iff)
  have shape: "target_shape out target"
    using choose_action_shape [OF e(4)] safe_join_shape [OF e(3,1) assms(3)] by blast
  have shapes: "\<forall>d \<in> ran (map_of (pf_entries st)). target_shape out (pe_target d)" using inv by blast
  have "plan_inv out st' \<and> ((\<forall>f p. v_exists vol f p = Inr True) \<longrightarrow> pf_insensitive st \<noteq> Some False \<longrightarrow> pf_insensitive st' \<noteq> Some False)"
  proof (cases "action = PlanSkip")
    case True
    then have st1: "st1 = st" using e(5) by simp
    have apart: "targets_apart c (pf_entries st) \<Longrightarrow> targets_apart c (omap_put (me_path entry) ?e (pf_entries st))" for c
      using targets_apart_put [of c "pf_entries st" "me_path entry" ?e "[]" "[]" out] new shapes shape True by simp
    show ?thesis
      using inv apart True shape ran_put [OF new, of ?e] unfolding plan_inv_def e(6-12) st1 keys_of_put [OF new]
      by (simp del: map_of_put)
  next
    case False
    then obtain fs where "reserve_target vol out entry target st (xi_fs io) = (Inr st1, fs)"
      using e(5) by (auto simp: xfs_Inr)
    note r = reserve_target_Inr [OF this]
    have same: "pf_entries st1 = pf_entries st" "pf_seen st1 = pf_seen st"
      "pf_targets st1 = oset_insert (target_key target False) (pf_targets st)"
      "pf_folded_targets st1 = oset_insert (target_key target True) (pf_folded_targets st)"
      "pf_files st1 = (if me_kind entry = ''dir'' then pf_files st else oset_insert (target_key target False) (pf_files st))"
      "pf_folded_files st1 = (if me_kind entry = ''dir'' then pf_folded_files st else oset_insert (target_key target True) (pf_folded_files st))"
      by (subst r [THEN conjunct2, THEN conjunct2, THEN conjunct2], simp)+
    have a: "targets_apart False (omap_put (me_path entry) ?e (pf_entries st))"
      using targets_apart_put [of False "pf_entries st" "me_path entry" ?e "pf_targets st" "pf_files st" out] new shapes shape inv r
      by (simp add: oset_ok_def)
    have b: "pf_insensitive st1 \<noteq> Some False \<Longrightarrow> targets_apart True (omap_put (me_path entry) ?e (pf_entries st))"
      using targets_apart_put [of True "pf_entries st" "me_path entry" ?e "pf_folded_targets st" "pf_folded_files st" out]
        new shapes shape inv r
      by (simp add: oset_ok_def)
    have c: "(\<forall>f p. v_exists vol f p = Inr True) \<longrightarrow> pf_insensitive st \<noteq> Some False \<longrightarrow> pf_insensitive st1 \<noteq> Some False"
      using r by blast
    show ?thesis
      using inv a b c False shape ran_put [OF new, of ?e] unfolding plan_inv_def e(6-12) same keys_of_put [OF new]
      by (simp del: map_of_put)
  qed
  then show "plan_inv out st'"
    and "(\<forall>f p. v_exists vol f p = Inr True) \<Longrightarrow> pf_insensitive st \<noteq> Some False \<Longrightarrow> pf_insensitive st' \<noteq> Some False"
    by blast+
qed

lemma plan_inv_start: "plan_inv out (preflight_start manifest)"
  by (simp add: plan_inv_def preflight_start_def keys_of_def file_keys_of_def targets_apart_def)

lemma preflight_entries_inv:
  assumes "preflight_entries vol out policy entries st io = (Inr st', io')" "plan_inv out st" "slashless out"
  shows "plan_inv out st'"
    and "(\<forall>f p. v_exists vol f p = Inr True) \<Longrightarrow> pf_insensitive st \<noteq> Some False \<Longrightarrow> pf_insensitive st' \<noteq> Some False"
  using assms(1,2)
proof (induction entries arbitrary: st io)
  case (Cons e es)
  {
    case 1
    then obtain st1 io1 where s: "preflight_entry vol out policy e st io = (Inr st1, io1)"
      "preflight_entries vol out policy es st1 io1 = (Inr st', io')"
      by (auto simp: xbind_Inr)
    show ?case using Cons.IH(1) [OF s(2)] preflight_entry_inv(1) [OF s(1) 1(2) assms(3)] by blast
  next
    case 2
    then obtain st1 io1 where s: "preflight_entry vol out policy e st io = (Inr st1, io1)"
      "preflight_entries vol out policy es st1 io1 = (Inr st', io')"
      by (auto simp: xbind_Inr)
    show ?case
      using Cons.IH(2) [OF 2(1) _ s(2)] preflight_entry_inv [OF s(1) 2(4) assms(3)] 2(1,2) by blast
  }
qed (simp_all add: xret_def)

lemma preflight_Inr:
  assumes "preflight_transfer_manifest vol manifest out policy io = (Inr plan, io')"
  obtains st io1 where "preflight_entries vol out policy (tm_entries manifest) (preflight_start manifest) io = (Inr st, io1)"
    "pf_total st = tm_total_size manifest" "ensure_receive_space vol (xi_fs io1) out (pf_peak st) = Inr ()"
    "plan = \<lparr>rp_entries = pf_entries st, rp_received = []\<rparr>"
  using assms by (auto simp: preflight_transfer_manifest_def xbind_Inr xrun_Inr xprim_Inr)

section \<open>Properties of accepted plans\<close>

text \<open>
  C10: In an accepted plan no two entries that will be written have the same target, and no
  planned file or link lies above another target, so no entry can destroy another one. Keys are
  the normalised paths; on a volume that ignores the case of names the same holds for the keys
  in lower case.
\<close>

theorem plan_targets_apart:
  assumes "preflight_transfer_manifest vol manifest output_dir policy io = (Inr plan, io')"
    and "slashless output_dir" and "fold_case \<longrightarrow> (\<forall>fs p. v_exists vol fs p = Inr True)"
    and "map_of (rp_entries plan) p = Some d" "map_of (rp_entries plan) q = Some e" "p \<noteq> q"
    and "pe_action d \<noteq> PlanSkip" "pe_action e \<noteq> PlanSkip"
  shows "target_key (pe_target d) fold_case \<noteq> target_key (pe_target e) fold_case \<and>
    (me_kind (pe_manifest d) \<noteq> ''dir'' \<longrightarrow>
      \<not> key_is_parent_of (target_key (pe_target d) fold_case) (target_key (pe_target e) fold_case))"
proof -
  obtain st io1 where s: "preflight_entries vol output_dir policy (tm_entries manifest) (preflight_start manifest) io = (Inr st, io1)"
    "plan = \<lparr>rp_entries = pf_entries st, rp_received = []\<rparr>"
    by (rule preflight_Inr [OF assms(1)])
  note i = preflight_entries_inv [OF s(1) plan_inv_start assms(2)]
  have "fold_case \<longrightarrow> pf_insensitive st \<noteq> Some False"
    using i(2) assms(3) by (simp add: preflight_start_def)
  then have "targets_apart fold_case (pf_entries st)"
    using i(1) by (cases fold_case) (simp_all add: plan_inv_def)
  then show ?thesis using assms(4-) s(2) unfolding targets_apart_def by simp
qed

text \<open>What one turn adds.\<close>

lemma preflight_entry_adds:
  assumes "preflight_entry vol out policy entry st io = (Inr st', io')"
  shows "me_path entry \<notin> set (pf_seen st)" "set (pf_seen st') = insert (me_path entry) (set (pf_seen st))" "xi_fs io' = xi_fs io"
    and "\<exists>e. pf_entries st' = omap_put (me_path entry) e (pf_entries st) \<and> pe_manifest e = entry \<and>
      validate_receive_target_parent (xi_fs io) out (pe_target e) (me_path entry) = Inr ()"
proof -
  obtain current action target overwrites st1 io1 where e:
    "me_path entry \<noteq> []" "me_path entry \<notin> set (pf_seen st)" "safe_join out (me_path entry) = Inr current"
    "choose_action (xi_fs io) policy (pf_targets st) entry current = Inr (action, target, overwrites)"
    "validate_receive_target_parent (xi_fs io) out target (me_path entry) = Inr ()"
    "if action = PlanSkip then st1 = st else xfs (reserve_target vol out entry target st) io = (Inr st1, io1)"
    "pf_targets st' = pf_targets st1" "pf_files st' = pf_files st1" "pf_folded_targets st' = pf_folded_targets st1"
    "pf_folded_files st' = pf_folded_files st1" "pf_insensitive st' = pf_insensitive st1"
    "pf_seen st' = oset_insert (me_path entry) (pf_seen st1)"
    "pf_entries st' = omap_put (me_path entry) \<lparr>pe_manifest = entry, pe_target = target, pe_action = action\<rparr> (pf_entries st1)"
    by (rule preflight_entry_Inr [OF assms])
  have same: "pf_seen st1 = pf_seen st \<and> pf_entries st1 = pf_entries st"
  proof (cases "action = PlanSkip")
    case False
    then obtain fs where "reserve_target vol out entry target st (xi_fs io) = (Inr st1, fs)"
      using e(6) by (auto simp: xfs_Inr)
    note r = reserve_target_Inr [OF this, THEN conjunct2, THEN conjunct2, THEN conjunct2]
    have "pf_seen st1 = pf_seen st" "pf_entries st1 = pf_entries st" by (subst r, simp)+
    then show ?thesis ..
  qed (use e(6) in simp)
  show "me_path entry \<notin> set (pf_seen st)" by (rule e(2))
  show "set (pf_seen st') = insert (me_path entry) (set (pf_seen st))" using e(12) same by simp
  show "xi_fs io' = xi_fs io"
    using preflight_entry_keeps [of vol out policy entry st] assms by (metis same_fs_def snd_conv xkeeps_def)
  show "\<exists>e. pf_entries st' = omap_put (me_path entry) e (pf_entries st) \<and> pe_manifest e = entry \<and>
      validate_receive_target_parent (xi_fs io) out (pe_target e) (me_path entry) = Inr ()"
    using e(5,13) same by auto
qed

lemma preflight_entries_adds:
  assumes "preflight_entries vol out policy entries st io = (Inr st', io')"
  shows "distinct (map me_path entries) \<and> me_path ` set entries \<inter> set (pf_seen st) = {} \<and> xi_fs io' = xi_fs io \<and>
    (\<forall>p. p \<notin> me_path ` set entries \<longrightarrow> map_of (pf_entries st') p = map_of (pf_entries st) p) \<and>
    (\<forall>entry \<in> set entries. \<exists>e. map_of (pf_entries st') (me_path entry) = Some e \<and> pe_manifest e = entry \<and>
      validate_receive_target_parent (xi_fs io) out (pe_target e) (me_path entry) = Inr ())"
  using assms
proof (induction entries arbitrary: st io)
  case (Cons e es)
  obtain st1 io1 where s: "preflight_entry vol out policy e st io = (Inr st1, io1)"
    "preflight_entries vol out policy es st1 io1 = (Inr st', io')"
    using Cons.prems by (auto simp: xbind_Inr)
  note a = preflight_entry_adds [OF s(1)] and b = Cons.IH [OF s(2)]
  obtain x where x: "pf_entries st1 = omap_put (me_path e) x (pf_entries st)" "pe_manifest x = e"
    "validate_receive_target_parent (xi_fs io) out (pe_target x) (me_path e) = Inr ()"
    using a(4) by blast
  have new: "me_path e \<notin> me_path ` set es" using b a(2) by blast
  then have "map_of (pf_entries st') (me_path e) = Some x" using b x(1) by simp
  moreover have "\<forall>p. p \<notin> me_path ` set (e # es) \<longrightarrow> map_of (pf_entries st') p = map_of (pf_entries st) p"
    using b x(1) by simp
  ultimately show ?case using a(1,2,3) b new x(2,3) by auto
qed (simp add: xret_def)

lemma preflight_entries_ok:
  "preflight_entries vol out policy entries st io = (Inr st', io') \<Longrightarrow> omap_ok (pf_entries st) \<Longrightarrow> omap_ok (pf_entries st')"
proof (induction entries arbitrary: st io)
  case (Cons e es)
  then obtain st1 io1 where s: "preflight_entry vol out policy e st io = (Inr st1, io1)"
    "preflight_entries vol out policy es st1 io1 = (Inr st', io')"
    by (auto simp: xbind_Inr)
  show ?case using Cons.IH [OF s(2)] preflight_entry_adds(4) [OF s(1)] Cons.prems(2) by auto
qed (simp add: xret_def)

lemma preflight_result:
  assumes "preflight_transfer_manifest vol manifest output_dir policy io = (r, io')"
  shows "xi_fs io' = xi_fs io \<and>
    (case r of
       Inl _ \<Rightarrow> True
     | Inr plan \<Rightarrow>
         distinct (map me_path (tm_entries manifest)) \<and> map fst (rp_entries plan) = sort (map me_path (tm_entries manifest)) \<and>
         (\<forall>entry \<in> set (tm_entries manifest). \<exists>e. map_of (rp_entries plan) (me_path entry) = Some e \<and> pe_manifest e = entry \<and>
            validate_receive_target_parent (xi_fs io) output_dir (pe_target e) (me_path entry) = Inr ()))"
proof -
  have keep: "xi_fs io' = xi_fs io"
    using preflight_keeps [of vol manifest output_dir policy] assms by (metis same_fs_def snd_conv xkeeps_def)
  show ?thesis
  proof (cases r)
    case (Inr plan)
    then obtain st io1 where s: "preflight_entries vol output_dir policy (tm_entries manifest) (preflight_start manifest) io = (Inr st, io1)"
      "plan = \<lparr>rp_entries = pf_entries st, rp_received = []\<rparr>"
      using preflight_Inr assms by metis
    note a = preflight_entries_adds [OF s(1)]
    have ok: "omap_ok (pf_entries st)" using preflight_entries_ok [OF s(1)] by (simp add: preflight_start_def)
    have "fst ` set (pf_entries st) = me_path ` set (tm_entries manifest)"
    proof (intro set_eqI)
      fix p
      have "p \<in> fst ` set (pf_entries st) \<longleftrightarrow> map_of (pf_entries st) p \<noteq> None" by (simp add: map_of_eq_None_iff)
      also have "\<dots> \<longleftrightarrow> p \<in> me_path ` set (tm_entries manifest)"
      proof (cases "p \<in> me_path ` set (tm_entries manifest)")
        case False
        then have "map_of (pf_entries st) p = map_of (pf_entries (preflight_start manifest)) p" using a by blast
        then show ?thesis using False by (simp add: preflight_start_def)
      qed (use a in force)
      finally show "p \<in> fst ` set (pf_entries st) \<longleftrightarrow> p \<in> me_path ` set (tm_entries manifest)" .
    qed
    then have "map fst (pf_entries st) = sort (map me_path (tm_entries manifest))"
      using a ok by (intro sorted_distinct_set_unique) (simp_all add: omap_ok_def)
    then show ?thesis using a s(2) Inr keep by (simp del: map_of_eq_Some_iff Some_eq_map_of_iff)
  qed (simp add: keep)
qed

lemma preflight_facts:
  assumes "preflight_transfer_manifest vol manifest output_dir policy io = (Inr plan, io')"
  shows "distinct (map me_path (tm_entries manifest))" "map fst (rp_entries plan) = sort (map me_path (tm_entries manifest))"
  using preflight_result [OF assms] by simp_all

text \<open>
  Checking a manifest changes no file, whatever the outcome: the probe directory, too, is
  gone. If the plan is accepted, the paths of the manifest are distinct, the plan has exactly
  one entry for each of them, and the target of each has passed the check of its parents.
\<close>

theorem preflight_checks_every_entry:
  assumes "preflight_transfer_manifest vol manifest output_dir policy io = (r, io')"
  shows "xi_fs io' = xi_fs io \<and>
    (case r of
       Inl _ \<Rightarrow> True
     | Inr plan \<Rightarrow>
         distinct (map me_path (tm_entries manifest)) \<and> map fst (rp_entries plan) = sort (map me_path (tm_entries manifest)) \<and>
         (\<forall>entry \<in> set (tm_entries manifest). \<exists>e. map_of (rp_entries plan) (me_path entry) = Some e \<and> pe_manifest e = entry \<and>
            validate_receive_target_parent (xi_fs io) output_dir (pe_target e) (me_path entry) = Inr ()))"
  by (rule preflight_result [OF assms])

section \<open>The headers that arrive\<close>

fun record_headers :: "string list \<Rightarrow> receive_plan option \<Rightarrow> receive_plan option result" where
  "record_headers [] plan = Inr plan"
| "record_headers (h # hs) plan = andthen (record_receive_plan_header h plan) (record_headers hs)"

lemma record_headers_spec:
  assumes "omap_ok (rp_entries p)" "oset_ok (rp_received p)"
  shows "(\<exists>q. record_headers hs (Some p) = Inr q) \<longleftrightarrow>
      distinct hs \<and> set hs \<inter> set (rp_received p) = {} \<and> set hs \<subseteq> fst ` set (rp_entries p)"
    and "record_headers hs (Some p) = Inr q \<Longrightarrow>
      \<exists>r. q = Some (p\<lparr>rp_received := r\<rparr>) \<and> oset_ok r \<and> set r = set hs \<union> set (rp_received p)"
  using assms
proof (induction hs arbitrary: p)
  case (Cons h hs)
  {
    case 1
    let ?p = "p\<lparr>rp_received := oset_insert h (rp_received p)\<rparr>"
    have "(\<exists>q. record_headers hs (Some ?p) = Inr q) \<longleftrightarrow>
        distinct hs \<and> set hs \<inter> set (rp_received ?p) = {} \<and> set hs \<subseteq> fst ` set (rp_entries ?p)"
      by (rule Cons.IH(1)) (use 1 in simp_all)
    then show ?case
      by (auto simp: record_receive_plan_header_def andthen_Inr_iff omap_has_iff)
  next
    case 2
    let ?p = "p\<lparr>rp_received := oset_insert h (rp_received p)\<rparr>"
    have "record_headers hs (Some ?p) = Inr q"
      using 2(1) by (auto simp: record_receive_plan_header_def andthen_Inr_iff split: if_splits)
    then have "\<exists>r. q = Some (?p\<lparr>rp_received := r\<rparr>) \<and> oset_ok r \<and> set r = set hs \<union> set (rp_received ?p)"
      by (rule Cons.IH(2)) (use 2 in simp_all)
    then show ?case by fastforce
  }
next
  case Nil
  {
    case 2
    then show ?case by (intro exI [of _ "rp_received p"]) simp
  }
qed simp_all

lemma complete_iff:
  assumes "omap_ok (rp_entries p)" "oset_ok (rp_received p)" "set (rp_received p) \<subseteq> fst ` set (rp_entries p)"
  shows "validate_receive_plan_complete (Some p) = Inr () \<longleftrightarrow> set (rp_received p) = fst ` set (rp_entries p)"
proof -
  have "length (rp_received p) = card (set (rp_received p))"
    using assms(2) by (simp add: oset_ok_def distinct_card)
  moreover have "length (rp_entries p) = card (fst ` set (rp_entries p))"
    using assms(1) by (metis distinct_card length_map list.set_map omap_ok_def)
  ultimately have "length (rp_received p) = length (rp_entries p) \<longleftrightarrow> set (rp_received p) = fst ` set (rp_entries p)"
    using assms(3) by (metis List.finite_set card_subset_eq finite_imageI)
  then show ?thesis
    by (auto simp: validate_receive_plan_complete_def split: option.splits prod.splits)
qed

text \<open>
  C11: After an accepted manifest the headers of a transfer pass, and the transfer may end
  without error, exactly if every entry of the manifest arrives once, in any order.
\<close>

theorem every_entry_arrives_once:
  assumes "preflight_transfer_manifest vol manifest output_dir policy io = (Inr plan, io')"
  shows "(\<exists>done_plan. record_headers hs (Some plan) = Inr done_plan \<and> validate_receive_plan_complete done_plan = Inr ())
    \<longleftrightarrow> mset hs = mset (map me_path (tm_entries manifest))"
proof -
  have d: "distinct (map me_path (tm_entries manifest))"
    and keys: "map fst (rp_entries plan) = sort (map me_path (tm_entries manifest))"
    using preflight_facts [OF assms] by simp_all
  have ok: "omap_ok (rp_entries plan)" using d keys by (simp add: omap_ok_def)
  have rec: "rp_received plan = []" using preflight_Inr [OF assms] by fastforce
  have dom: "fst ` set (rp_entries plan) = me_path ` set (tm_entries manifest)"
    by (metis keys list.set_map set_sort)
  note spec = record_headers_spec [OF ok, of hs, unfolded rec, OF oset_ok_Nil]
  have "(\<exists>q. record_headers hs (Some plan) = Inr q \<and> validate_receive_plan_complete q = Inr ()) \<longleftrightarrow>
      distinct hs \<and> set hs = me_path ` set (tm_entries manifest)"
  proof
    assume "\<exists>q. record_headers hs (Some plan) = Inr q \<and> validate_receive_plan_complete q = Inr ()"
    then obtain q where q: "record_headers hs (Some plan) = Inr q" "validate_receive_plan_complete q = Inr ()" by blast
    obtain r where r: "q = Some (plan\<lparr>rp_received := r\<rparr>)" "oset_ok r" "set r = set hs" using spec(2) [OF q(1)] by auto
    have h: "distinct hs" "set hs \<subseteq> fst ` set (rp_entries plan)" using spec(1) q(1) by auto
    then show "distinct hs \<and> set hs = me_path ` set (tm_entries manifest)"
      using complete_iff [of "plan\<lparr>rp_received := r\<rparr>"] ok r q(2) dom by simp
  next
    assume h: "distinct hs \<and> set hs = me_path ` set (tm_entries manifest)"
    then obtain q where q: "record_headers hs (Some plan) = Inr q" using spec(1) dom by auto
    obtain r where r: "q = Some (plan\<lparr>rp_received := r\<rparr>)" "oset_ok r" "set r = set hs" using spec(2) [OF q] by auto
    then have "validate_receive_plan_complete q = Inr ()"
      using complete_iff [of "plan\<lparr>rp_received := r\<rparr>"] ok h dom by simp
    then show "\<exists>q. record_headers hs (Some plan) = Inr q \<and> validate_receive_plan_complete q = Inr ()" using q by blast
  qed
  also have "\<dots> \<longleftrightarrow> mset hs = mset (map me_path (tm_entries manifest))"
    using d by (metis distinct_count_atmost_1 list.set_map mset_eq_imp_distinct_iff set_eq_iff_mset_eq_distinct mset_eq_setD)
  finally show ?thesis .
qed

definition sample_volume :: volume where
  "sample_volume = \<lparr>v_exists = \<lambda>_ _. Inr True, v_space = \<lambda>_ _. Inr 100000000, v_random = \<lambda>_. ''r''\<rparr>"

definition sample_item :: "string \<Rightarrow> string \<Rightarrow> u64 \<Rightarrow> manifest_entry" where
  "sample_item p k n = \<lparr>me_path = p, me_size = n, me_kind = k, me_target = [], me_imohash = [], me_mtime_ms = 0, me_mode = 0\<rparr>"

definition sample_manifest :: transfer_manifest where
  "sample_manifest = \<lparr>tm_entries = [sample_item ''x'' ''file'' 7, sample_item ''d/y'' ''file'' 5], tm_total_size = 12\<rparr>"

definition sample_io :: transfer_io where
  "sample_io = empty_io\<lparr>xi_fs := sample_fs\<rparr>"

definition sample_plan :: receive_plan where
  "sample_plan = \<lparr>rp_entries =
     [(''d/y'', \<lparr>pe_manifest = sample_item ''d/y'' ''file'' 5, pe_target = [''out'', ''d'', ''y''], pe_action = PlanWrite\<rparr>),
      (''x'', \<lparr>pe_manifest = sample_item ''x'' ''file'' 7, pe_target = [''out'', ''x''], pe_action = PlanWrite\<rparr>)], rp_received = []\<rparr>"

lemma sample_accepted: "fst (preflight_transfer_manifest sample_volume sample_manifest [''out''] Overwrite sample_io) = Inr sample_plan"
  by code_simp

lemma sample_accepted_run:
  "\<exists>io'. preflight_transfer_manifest sample_volume sample_manifest [''out''] Overwrite sample_io = (Inr sample_plan, io')"
  using sample_accepted by (metis prod.collapse)

theorem plan_targets_apart_witness:
  "target_key [''out'', ''d'', ''y''] True \<noteq> target_key [''out'', ''x''] True"
proof -
  obtain io' where r: "preflight_transfer_manifest sample_volume sample_manifest [''out''] Overwrite sample_io = (Inr sample_plan, io')"
    using sample_accepted_run by blast
  have l: "map_of (rp_entries sample_plan) ''d/y'' =
      Some \<lparr>pe_manifest = sample_item ''d/y'' ''file'' 5, pe_target = [''out'', ''d'', ''y''], pe_action = PlanWrite\<rparr>"
    "map_of (rp_entries sample_plan) ''x'' =
      Some \<lparr>pe_manifest = sample_item ''x'' ''file'' 7, pe_target = [''out'', ''x''], pe_action = PlanWrite\<rparr>"
    by (simp_all add: sample_plan_def)
  show ?thesis
    using plan_targets_apart [OF r _ _ l, of True]
    by (simp add: slashless_def path_names_def is_absolute_def slash_def sample_volume_def)
qed

theorem preflight_checks_every_entry_witness:
  "xi_fs (snd (preflight_transfer_manifest sample_volume sample_manifest [''out''] Overwrite sample_io)) = sample_fs \<and>
   validate_receive_target_parent sample_fs [''out''] [''out'', ''x''] ''x'' = Inr ()"
proof -
  obtain io' where r: "preflight_transfer_manifest sample_volume sample_manifest [''out''] Overwrite sample_io = (Inr sample_plan, io')"
    using sample_accepted_run by blast
  from preflight_checks_every_entry [OF r]
  have "xi_fs io' = sample_fs \<and> validate_receive_target_parent sample_fs [''out''] [''out'', ''x''] ''x'' = Inr ()"
    by (simp add: sample_io_def sample_plan_def sample_manifest_def sample_item_def)
  then show ?thesis using r by simp
qed

theorem every_entry_arrives_once_witness:
  "\<exists>done_plan. record_headers [''d/y'', ''x''] (Some sample_plan) = Inr done_plan \<and>
     validate_receive_plan_complete done_plan = Inr ()"
proof -
  obtain io' where r: "preflight_transfer_manifest sample_volume sample_manifest [''out''] Overwrite sample_io = (Inr sample_plan, io')"
    using sample_accepted_run by blast
  show ?thesis
    unfolding every_entry_arrives_once [OF r] by (simp add: sample_manifest_def sample_item_def)
qed

end
