(* ===== verification/File_Session.thy ===== *)
theory File_Session
  imports Plan_Checks
begin

text \<open>
  \<open>src/transfer/transfer_file_session.hpp\<close>, \<open>src/transfer/transfer_file_session.cpp\<close>,
  \<open>src/transfer/transfer_heuristics.cpp\<close>: the dialogue of the two sides about one file. A
  session object is a record; its constructor and its methods act on the state of
  the transfer. A hasher is the bytes it has been given.
\<close>

text \<open>What the program does not define itself: JSON text, SHA-256, the sampled hash of a file's
  content, the volume, the suffix of temporary links and the size of the read buffer.\<close>

record transfer_env =
  env_dump :: "json \<Rightarrow> string result"
  env_parse :: "string \<Rightarrow> json result"
  env_sha256 :: "bytes \<Rightarrow> bytes"
  env_imohash :: "bytes \<Rightarrow> string result"
  env_volume :: volume
  env_code :: string
  env_buffer :: nat

definition kEmptySha256 :: string where
  "kEmptySha256 = ''e3b0c44298fc1c149afbf4c8996fb92427ae41e4649b934ca495991b7852b855''"

section \<open>Which files are compressed\<close>

definition kPrecompressed :: "string list" where
  "kPrecompressed = [''7z'', ''avi'', ''br'', ''bz2'', ''flac'', ''gif'', ''gz'', ''jpeg'', ''jpg'', ''lz4'',
     ''mkv'', ''mov'', ''mp3'', ''mp4'', ''ogg'', ''opus'', ''png'', ''rar'', ''webp'', ''xz'',
     ''zip'', ''zst'', ''tgz'', ''tbz2'', ''txz'', ''wasm'', ''pdf'', ''heic'', ''heif'', ''avif'', ''jxl'']"

definition lower_ext :: "path \<Rightarrow> string" where
  "lower_ext p =
     (let ext = extension p in lowercase_ascii (if ext \<noteq> [] \<and> hd ext = CHR ''.'' then tl ext else ext))"

definition should_compress_path :: "path \<Rightarrow> bool" where
  "should_compress_path p \<longleftrightarrow> lower_ext p \<notin> set kPrecompressed"

definition recommend_connections :: "int \<Rightarrow> u64 \<Rightarrow> int" where
  "recommend_connections relay_rtt_ms total_bytes =
     (if total_bytes < 4 * 1024 * 1024 then 1
      else if relay_rtt_ms < 0 then 4
      else if 150 < relay_rtt_ms then (if 100 * 1024 * 1024 < total_bytes then 4 else 2)
      else if 500 * 1024 * 1024 < total_bytes then 8
      else if 50 * 1024 * 1024 < total_bytes then 6
      else 4)"

section \<open>The sending side\<close>

datatype send_action = MarkerComplete | SendSkip | SendPayload

record send_session =
  ss_entry :: file_entry
  ss_input :: bytes \<comment> \<open>what is left of the opened file\<close>
  ss_hasher :: "bytes option"
  ss_action :: send_action
  ss_total :: u64
  ss_zstd :: bool

definition should_compress_entry :: "file_entry \<Rightarrow> bool" where
  "should_compress_entry e \<longleftrightarrow> transfer_entry_kind e = FileKind \<and> should_compress_path (fe_absolute e)"

definition append_metadata_fields :: "file_entry \<Rightarrow> (string, string) omap \<Rightarrow> (string, string) omap" where
  "append_metadata_fields e fs =
     put_if (0 < fe_mode e) ''mode'' (to_dec (unat (fe_mode e)))
       (put_if (0 < fe_mtime_ms e) ''mtime_ms'' (word_text (fe_mtime_ms e)) fs)"

text \<open>The fields are written in the order of their keys, as the map holds them.\<close>

definition make_file_header :: "file_entry \<Rightarrow> message" where
  "make_file_header e =
     \<lparr>mtype = ''file'', mfields =
       (case transfer_entry_kind e of
          SymlinkKind \<Rightarrow> [(''compress'', ''none''), (''kind'', ''symlink''), (''path'', fe_relative e), (''size'', ''0''),
                          (''target'', fe_link_target e)]
        | DirectoryKind \<Rightarrow>
            append_metadata_fields e [(''compress'', ''none''), (''path'', fe_relative e), (''size'', ''0'')]
        | FileKind \<Rightarrow>
            append_metadata_fields e
              [(''compress'', if should_compress_entry e then ''zstd'' else ''none''), (''imohash'', fe_imohash e),
               (''path'', fe_relative e), (''size'', word_text (fe_size e))])\<rparr>"

definition source_changed :: "file_entry \<Rightarrow> string" where
  "source_changed e = ''source file changed since manifest: '' @ fe_relative e"

definition validate_complete_skip_source :: "transfer_env \<Rightarrow> file_entry \<Rightarrow> file_system \<Rightarrow> unit result" where
  "validate_complete_skip_source env e fs =
     (case file_size fs (fe_absolute e) of
        Inl _ \<Rightarrow> Inl (source_changed e)
      | Inr current_size \<Rightarrow>
          if current_size \<noteq> unat (fe_size e) then Inl (source_changed e)
          else case (case status fs (fe_absolute e) of Inr (RegularFile c) \<Rightarrow> env_imohash env c | _ \<Rightarrow> Inl []) of
              Inl _ \<Rightarrow> Inl (source_changed e)
            | Inr current_imohash \<Rightarrow>
                fail_if (fe_imohash e = [] \<or> current_imohash \<noteq> fe_imohash e) (source_changed e))"

text \<open>An \<open>ifstream\<close> opens a directory, too, and reads nothing from it.\<close>

definition open_input :: "file_system \<Rightarrow> path \<Rightarrow> bytes option" where
  "open_input fs p =
     (case status fs p of Inr (RegularFile c) \<Rightarrow> Some c | Inr Directory \<Rightarrow> Some [] | _ \<Rightarrow> None)"

definition end_message :: "string \<Rightarrow> message" where
  "end_message sha256 = \<lparr>mtype = ''end'', mfields = [(''sha256'', sha256)]\<rparr>"

definition send_finish :: "transfer_env \<Rightarrow> send_session \<Rightarrow> string \<Rightarrow> u64 \<Rightarrow> u64 xfer" where
  "send_finish env s sha256 total' =
     xthen (xsend_message (env_dump env) FileEnd (end_message sha256))
     (xthen (emit (FileComplete (fe_relative (ss_entry s)) total' False)) (xret total'))"

text \<open>The end of the constructor: the prefix is read, compared, and the offset is acknowledged.\<close>

definition send_from_offset :: "transfer_env \<Rightarrow> file_entry \<Rightarrow> bytes \<Rightarrow> resume_request \<Rightarrow> send_session xfer" where
  "send_from_offset env e content rq =
     xbind (xlift (hash_stream_prefix (env_sha256 env) (env_buffer env) content (rq_offset rq) (fe_relative e)))
       (\<lambda>(hasher, rest, digest).
        let mismatch = (0 < rq_offset rq \<and> rq_prefix_sha256 rq \<noteq> [] \<and> Some (rq_prefix_sha256 rq) \<noteq> digest);
            offset = (if mismatch then 0 else rq_offset rq)
        in xthen (if mismatch then emit (Status (''resume prefix mismatch, restarting '' @ fe_relative e)) else xret ())
           (xthen (send_resume_ack (env_dump env) offset)
           (xthen (if 0 < offset then xthen (emit (FileResume (fe_relative e) offset (fe_size e))) (emit (FileAdvance offset))
                   else xret ())
            (xret \<lparr>ss_entry = e, ss_input = (if mismatch then content else rest),
                   ss_hasher = Some (if mismatch then [] else hasher), ss_action = SendPayload,
                   ss_total = offset, ss_zstd = should_compress_entry e\<rparr>))))"

definition open_send_session :: "transfer_env \<Rightarrow> file_entry \<Rightarrow> send_session xfer" where
  "open_send_session env e =
     (let marker = (transfer_entry_kind e \<noteq> FileKind);
          session = \<lparr>ss_entry = e, ss_input = [], ss_hasher = None, ss_action = SendPayload, ss_total = 0, ss_zstd = False\<rparr>
      in xbind (if marker then xret []
                else xcheck (\<lambda>fs. case open_input fs (fe_absolute e) of
                    None \<Rightarrow> Inl (''failed to open input file: '' @ path_string (fe_absolute e)) | Some c \<Rightarrow> Inr c)) (\<lambda>content.
         xthen (xsend_message (env_dump env) FileHeader (make_file_header e))
         (xthen (emit (FileStart (fe_relative e) (if marker then 0 else fe_size e)))
         (xbind (recv_resume_request (env_parse env) (fe_size e)) (\<lambda>rq.
           if marker then
             xthen (send_resume_ack (env_dump env) (rq_offset rq))
             (xbind (send_finish env session kEmptySha256 0) (\<lambda>_. xret (session\<lparr>ss_action := MarkerComplete\<rparr>)))
           else if rq_complete_skip rq \<and> rq_offset rq = fe_size e then
             xthen (xcheck (validate_complete_skip_source env e))
             (xthen (send_resume_ack (env_dump env) (fe_size e))
             (xthen (emit (Status (''skipped already-complete '' @ fe_relative e)))
             (xthen (emit (FileResume (fe_relative e) (fe_size e) (fe_size e)))
             (xthen (emit (FileAdvance (fe_size e)))
              (xret (session\<lparr>ss_action := SendSkip, ss_total := fe_size e\<rparr>))))))
           else send_from_offset env e content rq)))))"

text \<open>The next piece of the file: its offset and its bytes; \<open>None\<close> at the end.\<close>

definition read_next :: "transfer_env \<Rightarrow> send_session \<Rightarrow> (u64 \<times> bytes) option \<times> send_session" where
  "read_next env s =
     (let chunk = take (env_buffer env) (ss_input s) in
      if chunk = [] then (None, s)
      else (Some (ss_total s, chunk),
            s\<lparr>ss_input := drop (length chunk) (ss_input s), ss_hasher := map_option (\<lambda>h. h @ chunk) (ss_hasher s),
              ss_total := ss_total s + of_nat (length chunk)\<rparr>))"

definition send_complete :: "transfer_env \<Rightarrow> send_session \<Rightarrow> u64 xfer" where
  "send_complete env s =
     send_finish env s (hex_encode (env_sha256 env (case ss_hasher s of Some h \<Rightarrow> h | None \<Rightarrow> []))) (ss_total s)"

definition send_complete_skipped :: "transfer_env \<Rightarrow> send_session \<Rightarrow> u64 xfer" where
  "send_complete_skipped env s = send_finish env s kEmptySha256 (fe_size (ss_entry s))"

section \<open>The receiving side\<close>

datatype receive_action = Marker | ReceiveSkip | ReceivePayload

record receive_session =
  rs_header :: message
  rs_output_dir :: path
  rs_current :: path
  rs_part :: path
  rs_relative :: string
  rs_symlink_target :: string
  rs_hasher :: "bytes option"
  rs_declared :: u64
  rs_resume :: u64
  rs_action :: receive_action
  rs_zstd :: bool
  rs_symlink_marker :: bool
  rs_skip_symlink :: bool

text \<open>\<open>resize_file\<close>\<close>

definition resize_on_disk :: "path \<Rightarrow> nat \<Rightarrow> file_system \<Rightarrow> os_error option \<times> file_system" where
  "resize_on_disk p n fs =
     (case locate fs p True of
        Inl e \<Rightarrow> (Some e, fs)
      | Inr loc \<Rightarrow>
          (case nodes fs loc of
             Some (RegularFile c) \<Rightarrow> (None, put_node loc (Some (RegularFile (take n c @ replicate (n - length c) 0))) fs)
           | None \<Rightarrow> (Some NotFound, fs)
           | Some _ \<Rightarrow> (Some IsDirectory, fs)))"

text \<open>Is an existing file kept, and under which name is the entry written?\<close>

definition keeps_existing :: "plan_entry option \<Rightarrow> conflict_policy \<Rightarrow> path \<Rightarrow> file_system \<Rightarrow> bool" where
  "keeps_existing planned policy current fs =
     (case planned of
        Some p \<Rightarrow> pe_action p = PlanSkip
      | None \<Rightarrow> policy = SkipExisting \<and> path_exists_no_follow fs current)"

definition rename_conflict :: "plan_entry option \<Rightarrow> conflict_policy \<Rightarrow> string \<Rightarrow> path \<Rightarrow> path xfer" where
  "rename_conflict planned policy relative current =
     (case planned of
        Some p \<Rightarrow>
          if pe_action p = PlanRename then xthen (emit (report_renamed_conflict relative current)) (xret current)
          else xret current
      | None \<Rightarrow>
          xbind (xget (\<lambda>io. path_exists_no_follow (xi_fs io) current)) (\<lambda>exists.
            if policy = RenameNew \<and> exists then
              xbind (xcheck (\<lambda>fs. unique_conflict_path fs (\<lambda>_. False) current)) (\<lambda>renamed.
              xthen (emit (report_renamed_conflict relative renamed)) (xret renamed))
            else xret current))"

definition check_target :: "receive_session \<Rightarrow> unit xfer" where
  "check_target s = xcheck (\<lambda>fs. validate_receive_target_parent fs (rs_output_dir s) (rs_current s) (rs_relative s))"

definition receive_symlink :: "transfer_env \<Rightarrow> plan_entry option \<Rightarrow> conflict_policy \<Rightarrow> receive_session \<Rightarrow> receive_session xfer" where
  "receive_symlink env planned policy s =
     (let target = msg_get (rs_header s) ''target'' [] in
      xthen (xlift (validate_safe_symlink_target (rs_relative s) target))
      (xbind (xget (\<lambda>io. keeps_existing planned policy (rs_current s) (xi_fs io))) (\<lambda>skip.
       xbind (if skip then xthen (emit (Status (''skipped existing '' @ rs_relative s))) (xret (rs_current s))
              else rename_conflict planned policy (rs_relative s) (rs_current s)) (\<lambda>current.
       let s1 = s\<lparr>rs_symlink_target := target, rs_skip_symlink := skip, rs_current := current\<rparr> in
       xthen (check_target s1)
       (xthen (send_resume (env_dump env) 0 [] False)
       (xbind (recv_resume_ack (env_parse env) 0 0 (rs_relative s)) (\<lambda>_.
        xthen (emit (FileStart (rs_relative s) 0))
        (xret (s1\<lparr>rs_action := Marker, rs_symlink_marker := True\<rparr>)))))))))"

definition receive_directory :: "transfer_env \<Rightarrow> receive_session \<Rightarrow> receive_session xfer" where
  "receive_directory env s =
     xthen (check_target s)
     (xthen (xmkdirs (rs_current s))
     (xthen (apply_file_metadata (rs_current s) (rs_header s))
     (xthen (send_resume (env_dump env) 0 [] False)
     (xbind (recv_resume_ack (env_parse env) 0 0 (rs_relative s)) (\<lambda>_.
      xthen (emit (FileStart (rs_relative s) 0)) (xret (s\<lparr>rs_action := Marker\<rparr>)))))))"

definition receive_kept :: "transfer_env \<Rightarrow> receive_session \<Rightarrow> receive_session xfer" where
  "receive_kept env s =
     xthen (emit (Status (''skipped existing '' @ rs_relative s)))
     (xthen (send_resume (env_dump env) (rs_declared s) [] True)
     (xbind (recv_resume_ack (env_parse env) (rs_declared s) (rs_declared s) (rs_relative s)) (\<lambda>accepted.
      xthen (xguard (accepted = rs_declared s) (''sender rejected conflict skip for '' @ rs_relative s))
      (xthen (emit (FileStart (rs_relative s) (rs_declared s)))
      (xthen (emit (FileAdvance (rs_declared s)))
       (xret (s\<lparr>rs_action := ReceiveSkip\<rparr>)))))))"

text \<open>The sender has accepted less than was offered: the hasher starts again and the rest is cut off.\<close>

definition rehash_part :: "transfer_env \<Rightarrow> receive_session \<Rightarrow> u64 \<Rightarrow> file_system \<Rightarrow> bytes result" where
  "rehash_part env s accepted fs =
     (if 0 < accepted then
        (case hash_existing_part_prefix (env_sha256 env) (env_buffer env) fs (rs_part s) accepted of
           None \<Rightarrow> Inl (''partial file changed during resume setup: '' @ rs_relative s)
         | Some (h, _) \<Rightarrow> Inr h)
      else Inr [])"

definition truncate_part :: "receive_session \<Rightarrow> u64 \<Rightarrow> unit fs_op" where
  "truncate_part s accepted fs =
     (case resize_on_disk (rs_part s) (unat accepted) fs of
        (None, fs1) \<Rightarrow> (Inr (), fs1)
      | (Some _, fs1) \<Rightarrow> (Inl (''failed to truncate partial file for '' @ rs_relative s), fs1))"

definition restart_part :: "transfer_env \<Rightarrow> receive_session \<Rightarrow> u64 \<Rightarrow> bytes xfer" where
  "restart_part env s accepted =
     xthen (emit (Status (''resume rejected, restarting '' @ rs_relative s)))
     (xbind (xcheck (rehash_part env s accepted)) (\<lambda>hasher.
      xthen (xfs (truncate_part s accepted)) (xret hasher)))"

text \<open>What is offered: the length of the partial file, the hasher after it, and its digest.\<close>

definition part_offer :: "transfer_env \<Rightarrow> receive_session \<Rightarrow> file_system \<Rightarrow> (u64 \<times> bytes \<times> string) result" where
  "part_offer env s fs =
     andthen (resumable_part_size fs (rs_part s) (rs_declared s)) (\<lambda>have'.
       if have' = 0 then Inr (0, [], [])
       else case hash_existing_part_prefix (env_sha256 env) (env_buffer env) fs (rs_part s) have' of
           None \<Rightarrow> Inr (0, [], [])
         | Some (hasher, digest) \<Rightarrow> Inr (have', hasher, case digest of None \<Rightarrow> [] | Some d \<Rightarrow> d))"

definition negotiate_resume :: "transfer_env \<Rightarrow> receive_session \<Rightarrow> receive_session xfer" where
  "negotiate_resume env s =
     xbind (xcheck (part_offer env s)) (\<lambda>(have', hasher, prefix_sha256).
     xthen (send_resume (env_dump env) have' prefix_sha256 False)
     (xbind (recv_resume_ack (env_parse env) have' (rs_declared s) (rs_relative s)) (\<lambda>accepted.
      xbind (if accepted \<noteq> have' then restart_part env s accepted else xret hasher) (\<lambda>hasher1.
      xthen (emit (FileStart (rs_relative s) (rs_declared s)))
      (xthen (if 0 < accepted
              then xthen (emit (FileResume (rs_relative s) accepted (rs_declared s))) (emit (FileAdvance accepted))
              else xret ())
       (xret (s\<lparr>rs_hasher := Some hasher1, rs_resume := accepted, rs_action := ReceivePayload\<rparr>)))))))"

definition receive_payload_setup :: "transfer_env \<Rightarrow> plan_entry option \<Rightarrow> conflict_policy \<Rightarrow> receive_session \<Rightarrow> receive_session xfer" where
  "receive_payload_setup env planned policy s =
     xbind (rename_conflict planned policy (rs_relative s) (rs_current s)) (\<lambda>current.
     let s1 = s\<lparr>rs_current := current, rs_part := part_path_for current\<rparr> in
     xthen (check_target s1)
     (xthen (if parent_path current \<noteq> [] then xmkdirs (parent_path current) else xret ())
     (xthen (xcheck (\<lambda>fs. validate_receive_part_path fs (rs_part s1) (rs_relative s)))
      (negotiate_resume env s1))))"

definition open_receive_session ::
    "transfer_env \<Rightarrow> message \<Rightarrow> path \<Rightarrow> conflict_policy \<Rightarrow> receive_plan option \<Rightarrow> receive_session xfer" where
  "open_receive_session env header output_dir policy plan =
     (let relative = msg_get header ''path'' [] in
      xthen (xguard (relative \<noteq> []) ''file header missing path'')
      (xbind (xlift (msg_get_u64 header ''size'' 0)) (\<lambda>declared.
       let planned = find_receive_plan_entry plan relative in
       xthen (xguard (\<not> (plan \<noteq> None \<and> planned = None)) (''file header was not listed in manifest: '' @ relative))
       (xthen (case planned of None \<Rightarrow> xret ()
                | Some p \<Rightarrow> xlift (validate_receive_plan_header p header relative declared))
       (xbind (case planned of Some p \<Rightarrow> xret (pe_target p) | None \<Rightarrow> xlift (safe_join output_dir relative)) (\<lambda>current.
        let s = \<lparr>rs_header = header, rs_output_dir = output_dir, rs_current = current, rs_part = [],
                 rs_relative = relative, rs_symlink_target = [], rs_hasher = None, rs_declared = declared,
                 rs_resume = 0, rs_action = ReceivePayload,
                 rs_zstd = (msg_get header ''compress'' ''zstd'' \<noteq> ''none''), rs_symlink_marker = False,
                 rs_skip_symlink = False\<rparr>
        in xthen (check_target s)
           (if is_symlink_header header then receive_symlink env planned policy s
            else if is_dir_header relative declared then receive_directory env s
            else xbind (xget (\<lambda>io. keeps_existing planned policy current (xi_fs io))) (\<lambda>keep.
              if keep then receive_kept env s
              else xbind (try_skip_existing_duplicate (env_dump env) (env_parse env) (env_imohash env) header current
                            relative declared) (\<lambda>skipped.
                if skipped then xret (s\<lparr>rs_action := ReceiveSkip\<rparr>)
                else receive_payload_setup env planned policy s)))))))))"

definition complete_marker :: "transfer_env \<Rightarrow> receive_session \<Rightarrow> unit xfer" where
  "complete_marker env s =
     xthen (if rs_symlink_marker s \<and> \<not> rs_skip_symlink s then
              xthen (check_target s) (xfs (create_safe_symlink (env_code env) (rs_current s) (rs_relative s) (rs_symlink_target s)))
            else xret ())
       (emit (FileComplete (rs_relative s) 0 False))"

definition complete_skipped :: "receive_session \<Rightarrow> u64 xfer" where
  "complete_skipped s = xthen (emit (FileComplete (rs_relative s) (rs_declared s) True)) (xret (rs_declared s))"

definition complete_received :: "transfer_env \<Rightarrow> receive_session \<Rightarrow> string \<Rightarrow> u64 \<Rightarrow> string \<Rightarrow> u64 xfer" where
  "complete_received env s expected_sha256 received_size actual_sha256 =
     xthen (check_target s)
     (xthen (xcheck (\<lambda>fs. validate_receive_part_path fs (rs_part s) (rs_relative s)))
     (xthen (xfs (if actual_sha256 = []
                  then verify_part_file_digest (env_sha256 env) (rs_part s) (rs_relative s) (rs_declared s) expected_sha256
                  else verify_received_digest (rs_part s) (rs_relative s) received_size (rs_declared s) expected_sha256 actual_sha256))
     (xthen (xfs (finalize_part_file (rs_part s) (rs_current s)))
     (xthen (apply_file_metadata (rs_current s) (rs_header s))
     (xthen (emit (FileComplete (rs_relative s) (rs_declared s) True)) (xret (rs_declared s)))))))"

end
