(* ===== verification/Transfer_Stream.thy ===== *)
theory Transfer_Stream
  imports File_Session
begin

text \<open>
  The plain transfer of \<open>src/transfer/transfer_stream.cpp\<close>: the sender's run over its files and
  the receiver's loop over the frames. The stream compressor and decompressor are parameters: what
  they give for a piece after the pieces before it. Times are not modelled; the timing report
  is a parameter.
\<close>

record stream_env = transfer_env +
  env_compress :: "bytes list \<Rightarrow> bytes \<Rightarrow> bool \<Rightarrow> bytes result"
  env_decompress :: "bytes list \<Rightarrow> bytes \<Rightarrow> nat \<Rightarrow> bytes result"
  env_timing :: transfer_timing

abbreviation base_env :: "stream_env \<Rightarrow> transfer_env" where
  "base_env \<equiv> transfer_env.truncate"

section \<open>Sending\<close>

text \<open>The pieces of the file that are left; \<open>fed\<close> are those the compressor has had.\<close>

function send_pieces :: "stream_env \<Rightarrow> bytes list \<Rightarrow> send_session \<Rightarrow> (send_session \<times> bytes list) xfer" where
  "send_pieces env fed s io =
     (case read_next (base_env env) s of
        (None, s1) \<Rightarrow> (Inr (s1, fed), io)
      | (Some (_, chunk), s1) \<Rightarrow>
          (case (if ss_zstd s then
                   xbind (xlift (env_compress env fed chunk False)) (\<lambda>compressed.
                     if compressed \<noteq> [] then xsend Data compressed else xret ())
                 else xsend Data chunk) io of
             (Inl e, io1) \<Rightarrow> (Inl e, io1)
           | (Inr _, io1) \<Rightarrow>
               send_pieces env (fed @ [chunk]) s1 (snd (emit (FileAdvance (of_nat (length chunk))) io1))))"
  by pat_completeness auto
termination
  by (relation "measure (\<lambda>(env, fed, s, io). length (ss_input s))")
    (auto simp: read_next_def Let_def neq_Nil_conv split: if_splits)

declare send_pieces.simps [simp del]

definition send_payload :: "stream_env \<Rightarrow> send_session \<Rightarrow> send_session xfer" where
  "send_payload env s =
     (if ss_action s = SendSkip then xret s
      else xbind (send_pieces env [] s) (\<lambda>(s1, fed).
        if ss_zstd s then
          xbind (xlift (env_compress env fed [] True)) (\<lambda>trailer.
          xthen (if trailer \<noteq> [] then xsend Data trailer else xret ()) (xret s1))
        else xret s1))"

fun send_each_file :: "stream_env \<Rightarrow> file_entry list \<Rightarrow> u64 \<Rightarrow> u64 xfer" where
  "send_each_file env [] grand_total = xret grand_total"
| "send_each_file env (e # es) grand_total =
     xbind (open_send_session (base_env env) e) (\<lambda>s.
       if ss_action s = MarkerComplete then send_each_file env es grand_total
       else xbind (send_payload env s) (\<lambda>s1.
         xbind (if ss_action s1 = SendSkip then send_complete_skipped (base_env env) s1 else send_complete (base_env env) s1)
           (\<lambda>n. send_each_file env es (grand_total + n))))"

definition send_transfer_manifest :: "stream_env \<Rightarrow> file_entry list \<Rightarrow> unit xfer" where
  "send_transfer_manifest env files =
     xbind (xlift (encode_transfer_manifest (env_dump env) files)) (\<lambda>doc. xsend Manifest (bytes_of doc))"

definition await_ack :: "unit xfer" where
  "await_ack = xbind xrecv (\<lambda>f.
     xguard (case f of Some a \<Rightarrow> tf_tag a = Ack | None \<Rightarrow> False) ''expected transfer ack'')"

definition send_files :: "stream_env \<Rightarrow> file_entry list \<Rightarrow> unit xfer" where
  "send_files env files =
     xthen (send_transfer_manifest env files)
     (xbind (send_each_file env files 0) (\<lambda>grand_total.
      xthen (xsend Done [])
      (xthen await_ack
      (xthen (emit (TransferTimingEvent (env_timing env)))
       (emit (TransferComplete (length files) grand_total))))))"

section \<open>Receiving\<close>

text \<open>
  An open \<open>ofstream\<close> is the place it writes to. What is neither a file nor free cannot be
  opened here; the check of the partial file's path has excluded it before.
\<close>

definition open_output :: "path \<Rightarrow> bool \<Rightarrow> file_system \<Rightarrow> location option \<times> file_system" where
  "open_output p appending fs =
     (case locate fs p True of
        Inl _ \<Rightarrow> (None, fs)
      | Inr loc \<Rightarrow>
          if loc = [] then (None, fs)
          else case nodes fs loc of
              None \<Rightarrow> (Some loc, put_node loc (Some (RegularFile [])) fs)
            | Some (RegularFile c) \<Rightarrow>
                (Some loc, if appending then fs else put_node loc (Some (RegularFile [])) fs)
            | Some _ \<Rightarrow> (None, fs))"

definition write_output :: "location \<Rightarrow> bytes \<Rightarrow> file_system \<Rightarrow> file_system" where
  "write_output loc payload fs =
     (case nodes fs loc of
        Some (RegularFile c) \<Rightarrow> put_node loc (Some (RegularFile (c @ payload))) fs
      | _ \<Rightarrow> fs)"

record stream_state =
  st_out :: location
  st_fed :: "bytes list option" \<comment> \<open>the decompressor: what it has been given\<close>
  st_file :: "receive_session option"
  st_total :: u64
  st_count :: nat
  st_grand :: u64
  st_saw_manifest :: bool
  st_saw_header :: bool
  st_plan :: "receive_plan option"

definition stream_start :: stream_state where
  "stream_start = \<lparr>st_out = [], st_fed = None, st_file = None, st_total = 0, st_count = 0, st_grand = 0,
     st_saw_manifest = False, st_saw_header = False, st_plan = None\<rparr>"

definition payload_text :: "tagged_frame \<Rightarrow> string" where
  "payload_text f = string_of (tf_payload f)"

definition on_manifest :: "stream_env \<Rightarrow> path \<Rightarrow> conflict_policy \<Rightarrow> tagged_frame \<Rightarrow> stream_state \<Rightarrow> stream_state xfer" where
  "on_manifest env output_dir policy f st =
     xthen (xguard (\<not> st_saw_header st) ''transfer manifest arrived after file headers'')
     (xthen (xguard (\<not> st_saw_manifest st) ''duplicate transfer manifest'')
     (xbind (xlift (decode_transfer_manifest (env_parse env) (payload_text f))) (\<lambda>manifest.
      xbind (preflight_transfer_manifest (env_volume env) manifest output_dir policy) (\<lambda>plan.
      xret (st\<lparr>st_plan := Some plan, st_saw_manifest := True\<rparr>)))))"

definition on_file_header :: "stream_env \<Rightarrow> path \<Rightarrow> conflict_policy \<Rightarrow> tagged_frame \<Rightarrow> stream_state \<Rightarrow> stream_state xfer" where
  "on_file_header env output_dir policy f st =
     xthen (xguard (st_file st = None) ''file header before previous file end'')
     (xbind (xlift (decode_message (env_parse env) (payload_text f))) (\<lambda>header.
      let relative = msg_get header ''path'' [] in
      xthen (xguard (relative \<noteq> []) ''file header missing path'')
      (xbind (xlift (record_receive_plan_header relative (st_plan st))) (\<lambda>plan.
       xbind (open_receive_session (base_env env) header output_dir policy plan) (\<lambda>s.
       let st1 = st\<lparr>st_saw_header := True, st_plan := plan,
             st_total := (if rs_action s = ReceivePayload then rs_resume s else rs_declared s),
             st_fed := None, st_file := Some s\<rparr>
       in if rs_action s = ReceivePayload then
            xbind (xfs (\<lambda>fs. case open_output (rs_part s) (0 < rs_resume s) fs of
                 (None, fs1) \<Rightarrow> (Inl (''failed to open output file: '' @ path_string (rs_part s)), fs1)
               | (Some loc, fs1) \<Rightarrow> (Inr loc, fs1))) (\<lambda>loc.
              xret (st1\<lparr>st_out := loc, st_fed := (if rs_zstd s then Some [] else None)\<rparr>))
          else xret st1)))))"

definition commit_received_payload :: "receive_session \<Rightarrow> bytes \<Rightarrow> stream_state \<Rightarrow> stream_state xfer" where
  "commit_received_payload s payload st =
     (if payload = [] then xret st
      else
        xthen (xfs (\<lambda>fs. (Inr (), write_output (st_out st) payload fs)))
        (xbind (xlift (case rs_hasher s of None \<Rightarrow> Inl ''receive file session has no payload hasher'' | Some h \<Rightarrow> Inr h)) (\<lambda>h.
         xthen (emit (FileAdvance (of_nat (length payload))))
         (xret (st\<lparr>st_file := Some (s\<lparr>rs_hasher := Some (h @ payload)\<rparr>),
            st_total := st_total st + of_nat (length payload)\<rparr>)))))"

definition on_data :: "stream_env \<Rightarrow> tagged_frame \<Rightarrow> stream_state \<Rightarrow> stream_state xfer" where
  "on_data env f st =
     (case st_file st of
        None \<Rightarrow> xfail ''data frame before file header''
      | Some s \<Rightarrow>
          if rs_action s = ReceiveSkip then xret st
          else if rs_action s \<noteq> ReceivePayload then xfail ''data frame for non-file entry''
          else if rs_zstd s then
            (case st_fed st of
               None \<Rightarrow> xfail ''data frame before decompressor ready''
             | Some fed \<Rightarrow>
                 xbind (xlift (declared_remaining_limit (st_total st) (rs_declared s) (rs_relative s))) (\<lambda>limit.
                 xbind (xlift (env_decompress env fed (tf_payload f) limit)) (\<lambda>payload.
                 commit_received_payload s payload (st\<lparr>st_fed := Some (fed @ [tf_payload f])\<rparr>))))
          else
            xthen (if tf_payload f \<noteq> [] then
                     xlift (ensure_declared_space (st_total st) (rs_declared s) (of_nat (length (tf_payload f))) (rs_relative s))
                   else xret ())
              (commit_received_payload s (tf_payload f) st))"

definition on_file_end :: "stream_env \<Rightarrow> tagged_frame \<Rightarrow> stream_state \<Rightarrow> stream_state xfer" where
  "on_file_end env f st =
     (case st_file st of
        None \<Rightarrow> xfail ''file end before file header''
      | Some s \<Rightarrow>
          xbind (case rs_action s of
              Marker \<Rightarrow> xthen (complete_marker (base_env env) s) (xret 0)
            | ReceiveSkip \<Rightarrow> complete_skipped s
            | ReceivePayload \<Rightarrow>
                xbind (xlift (decode_message (env_parse env) (payload_text f))) (\<lambda>trailer.
                xbind (xlift (case rs_hasher s of None \<Rightarrow> Inl ''receive file session has no payload hasher'' | Some h \<Rightarrow> Inr h)) (\<lambda>h.
                complete_received (base_env env) s (msg_get trailer ''sha256'' []) (st_total st) (hex_encode (env_sha256 env h)))))
            (\<lambda>n. xret (st\<lparr>st_file := None, st_total := 0, st_fed := None, st_count := st_count st + 1,
                       st_grand := st_grand st + n\<rparr>)))"

definition on_done :: "stream_env \<Rightarrow> stream_state \<Rightarrow> unit xfer" where
  "on_done env st =
     xthen (xguard (st_file st = None) ''transfer done before file end'')
     (xthen (xlift (validate_receive_plan_complete (st_plan st)))
     (xthen (xsend Ack [])
     (xthen (emit (TransferTimingEvent (env_timing env)))
      (emit (TransferComplete (st_count st) (st_grand st))))))"

text \<open>One turn of the receiver's loop; \<open>None\<close>: the transfer is over.\<close>

definition receive_turn :: "stream_env \<Rightarrow> path \<Rightarrow> conflict_policy \<Rightarrow> stream_state \<Rightarrow> stream_state option xfer" where
  "receive_turn env output_dir policy st =
     xbind xrecv (\<lambda>frame.
       case frame of
         None \<Rightarrow> xfail ''transfer stream ended unexpectedly''
       | Some f \<Rightarrow>
           (case tf_tag f of
              Manifest \<Rightarrow> xbind (on_manifest env output_dir policy f st) (\<lambda>s. xret (Some s))
            | FileHeader \<Rightarrow> xbind (on_file_header env output_dir policy f st) (\<lambda>s. xret (Some s))
            | Data \<Rightarrow> xbind (on_data env f st) (\<lambda>s. xret (Some s))
            | FileEnd \<Rightarrow> xbind (on_file_end env f st) (\<lambda>s. xret (Some s))
            | Done \<Rightarrow> xthen (on_done env st) (xret None)
            | _ \<Rightarrow> xfail ''unknown transfer frame tag''))"

section \<open>The loop ends\<close>

text \<open>No operation puts frames back: the frames still to come are the end of those before.\<close>

definition no_more_frames :: "transfer_io \<Rightarrow> transfer_io \<Rightarrow> bool" where
  "no_more_frames a b \<longleftrightarrow> suffix (xi_arriving b) (xi_arriving a)"

lemma no_more_order [simp]: "reflp no_more_frames" "transp no_more_frames"
  by (auto simp: reflp_def transp_def no_more_frames_def intro: suffix_order.trans)

lemma no_more_prims:
  "xkeeps no_more_frames (emit e)" "xkeeps no_more_frames xrecv" "xkeeps no_more_frames (xsend t p)"
  "xkeeps no_more_frames (xsend_message dump t m)" "xkeeps no_more_frames (xfs g)" "xkeeps no_more_frames (xmkdirs q)"
  "xkeeps no_more_frames (apply_metadata q a b)" "xkeeps no_more_frames (apply_file_metadata q h)"
proof -
  have s: "xkeeps no_more_frames (xsend t p)" for t p
    by (auto simp: xkeeps_def no_more_frames_def xsend_def Let_def split: list.split option.split)
  have a: "xkeeps no_more_frames (apply_metadata q a b)" for q a b
    by (simp add: xkeeps_def no_more_frames_def apply_metadata_def)
  have f: "xkeeps no_more_frames (xfs g)" for g :: "'z fs_op"
    by (auto simp: xkeeps_def no_more_frames_def xfs_def split: prod.split)
  have f': "xkeeps no_more_frames (xfs g)" for g :: "unit fs_op"
    by (auto simp: xkeeps_def no_more_frames_def xfs_def split: prod.split)
  show "xkeeps no_more_frames (emit e)" "xkeeps no_more_frames xrecv"
    by (auto simp: xkeeps_def no_more_frames_def emit_def xrecv_def suffix_ConsI split: list.split)
  show "xkeeps no_more_frames (xsend t p)" "xkeeps no_more_frames (apply_metadata q a b)" by (rule s, rule a)
  show "xkeeps no_more_frames (xfs g)"
    by (auto simp: xkeeps_def no_more_frames_def xfs_def split: prod.split)
  show "xkeeps no_more_frames (xmkdirs q)" unfolding xmkdirs_def by (rule f')
  show "xkeeps no_more_frames (xsend_message dump t m)"
    unfolding xsend_message_def by (intro xkeeps_bind xkeeps_pure s no_more_order)
  show "xkeeps no_more_frames (apply_file_metadata q h)"
    unfolding apply_file_metadata_def by (intro xkeeps_bind xkeeps_then xkeeps_pure a no_more_order)
qed

lemma xkeeps_if: "xkeeps R m \<Longrightarrow> xkeeps R k \<Longrightarrow> xkeeps R (if b then m else k)"
  by simp

lemmas no_more_intros = xkeeps_bind xkeeps_then xkeeps_pure no_more_prims no_more_order xkeeps_if

lemma no_more_messages:
  "xkeeps no_more_frames (send_resume dump o' p b)" "xkeeps no_more_frames (recv_resume_ack parse o' d r)"
  unfolding send_resume_def recv_resume_ack_def by (intro no_more_intros)+

lemma no_more_duplicate: "xkeeps no_more_frames (try_skip_existing_duplicate dump parse imohash header cur rel n)"
  unfolding try_skip_existing_duplicate_def Let_def
  by (auto intro!: no_more_intros no_more_messages split: sum.split node.split)

lemma no_more_rename: "xkeeps no_more_frames (rename_conflict planned policy rel cur)"
  unfolding rename_conflict_def by (auto intro!: no_more_intros split: option.split)

lemma no_more_session: "xkeeps no_more_frames (open_receive_session env header out policy plan)"
  unfolding open_receive_session_def receive_symlink_def receive_directory_def receive_kept_def
    receive_payload_setup_def negotiate_resume_def restart_part_def check_target_def Let_def
  by (auto intro!: no_more_intros no_more_messages no_more_duplicate no_more_rename split: option.split prod.split)

lemma no_more_preflight: "xkeeps no_more_frames (preflight_transfer_manifest vol m out policy)"
proof -
  have e: "xkeeps no_more_frames (preflight_entry vol out policy entry st)" for entry st
    unfolding preflight_entry_def by (auto intro!: no_more_intros split: prod.split)
  have "xkeeps no_more_frames (preflight_entries vol out policy es st)" for es st
    by (induction es arbitrary: st) (auto intro!: no_more_intros e)
  then show ?thesis unfolding preflight_transfer_manifest_def by (intro no_more_intros)
qed

lemma no_more_commit: "xkeeps no_more_frames (commit_received_payload s payload st)"
  unfolding commit_received_payload_def by (intro no_more_intros)

lemma no_more_complete:
  "xkeeps no_more_frames (complete_marker env s)" "xkeeps no_more_frames (complete_skipped s)"
  "xkeeps no_more_frames (complete_received env s a n b)"
  unfolding complete_marker_def complete_skipped_def complete_received_def check_target_def by (intro no_more_intros)+

lemma no_more_handlers:
  "xkeeps no_more_frames (on_manifest env out policy f st)" "xkeeps no_more_frames (on_file_header env out policy f st)"
  "xkeeps no_more_frames (on_data env f st)" "xkeeps no_more_frames (on_file_end env f st)" "xkeeps no_more_frames (on_done env st)"
proof -
  show "xkeeps no_more_frames (on_manifest env out policy f st)"
    unfolding on_manifest_def by (intro no_more_intros no_more_preflight)
  show "xkeeps no_more_frames (on_file_header env out policy f st)"
    unfolding on_file_header_def Let_def by (intro no_more_intros no_more_session)
  show "xkeeps no_more_frames (on_data env f st)"
    unfolding on_data_def by (cases "st_file st"; cases "st_fed st") (simp_all add: no_more_intros no_more_commit)
  show "xkeeps no_more_frames (on_file_end env f st)"
    unfolding on_file_end_def
    by (cases "st_file st"; cases "rs_action (the (st_file st))") (simp_all add: no_more_intros no_more_complete)
  show "xkeeps no_more_frames (on_done env st)"
    unfolding on_done_def by (intro no_more_intros)
qed

lemma receive_turn_keeps: "xkeeps no_more_frames (receive_turn env out policy st)"
  unfolding receive_turn_def
proof (rule xkeeps_bind)
  show "xkeeps no_more_frames (case frame of
         None \<Rightarrow> xfail ''transfer stream ended unexpectedly''
       | Some f \<Rightarrow>
           (case tf_tag f of
              Manifest \<Rightarrow> xbind (on_manifest env out policy f st) (\<lambda>s. xret (Some s))
            | FileHeader \<Rightarrow> xbind (on_file_header env out policy f st) (\<lambda>s. xret (Some s))
            | Data \<Rightarrow> xbind (on_data env f st) (\<lambda>s. xret (Some s))
            | FileEnd \<Rightarrow> xbind (on_file_end env f st) (\<lambda>s. xret (Some s))
            | Done \<Rightarrow> xthen (on_done env st) (xret None)
            | _ \<Rightarrow> xfail ''unknown transfer frame tag''))" for frame
  proof (cases frame)
    case (Some f)
    then show ?thesis
      by (cases "tf_tag f") (simp_all add: no_more_intros no_more_handlers)
  qed (simp add: no_more_intros)
qed (simp_all add: no_more_intros)

lemma receive_turn_fewer:
  assumes "receive_turn env out policy st io = (Inr (Some st1), io1)"
  shows "length (xi_arriving io1) < length (xi_arriving io)"
proof -
  define body where "body frame = (case frame of
         None \<Rightarrow> xfail ''transfer stream ended unexpectedly''
       | Some f \<Rightarrow>
           (case tf_tag f of
              Manifest \<Rightarrow> xbind (on_manifest env out policy f st) (\<lambda>s. xret (Some s))
            | FileHeader \<Rightarrow> xbind (on_file_header env out policy f st) (\<lambda>s. xret (Some s))
            | Data \<Rightarrow> xbind (on_data env f st) (\<lambda>s. xret (Some s))
            | FileEnd \<Rightarrow> xbind (on_file_end env f st) (\<lambda>s. xret (Some s))
            | Done \<Rightarrow> xthen (on_done env st) (xret None)
            | _ \<Rightarrow> xfail ''unknown transfer frame tag''))" for frame
  obtain frame io2 where r: "xrecv io = (Inr frame, io2)" "body frame io2 = (Inr (Some st1), io1)"
    using assms unfolding receive_turn_def body_def xbind_Inr by blast
  have b: "xkeeps no_more_frames (body frame)"
  proof (cases frame)
    case (Some f)
    then show ?thesis
      unfolding body_def by (cases "tf_tag f") (simp_all add: no_more_intros no_more_handlers)
  qed (simp add: body_def no_more_intros)
  have "frame \<noteq> None" using r(2) by (cases frame) (simp_all add: body_def xfail_def)
  then have "length (xi_arriving io2) < length (xi_arriving io)"
    using r(1) by (auto simp: xrecv_def split: list.splits)
  moreover have "length (xi_arriving io1) \<le> length (xi_arriving io2)"
    using b r(2) by (metis no_more_frames_def snd_conv suffix_length_le xkeeps_def)
  ultimately show ?thesis by simp
qed

function receive_loop :: "stream_env \<Rightarrow> path \<Rightarrow> conflict_policy \<Rightarrow> stream_state \<Rightarrow> unit xfer" where
  "receive_loop env out policy st io =
     (case receive_turn env out policy st io of
        (Inl e, io1) \<Rightarrow> (Inl e, io1)
      | (Inr None, io1) \<Rightarrow> (Inr (), io1)
      | (Inr (Some st1), io1) \<Rightarrow> receive_loop env out policy st1 io1)"
  by pat_completeness auto
termination
  by (relation "measure (\<lambda>(env, out, policy, st, io). length (xi_arriving io))") (auto intro: receive_turn_fewer [OF sym])

declare receive_loop.simps [simp del]

definition receive_files :: "stream_env \<Rightarrow> path \<Rightarrow> conflict_policy \<Rightarrow> unit xfer" where
  "receive_files env output_dir policy = receive_loop env output_dir policy stream_start"

end
