(* ===== verification/Stream_Safety.thy ===== *)
theory Stream_Safety
  imports Transfer_Stream Plan_Checks
begin

text \<open>
  What the receiver's loop guarantees for every file: while a file arrives, the hasher has seen
  exactly the bytes that stand in the partial file, resumed or not, so the digest that is compared
  with the sender's is the digest of what is stored; a file that ends without error is under its
  final name, with the declared size and the sender's digest.
\<close>

section \<open>Where a path leads\<close>

text \<open>Contents of files do not matter.\<close>

lemma resolve_contents:
  assumes "\<And>l. l \<noteq> loc \<Longrightarrow> g l = fs l" "fs loc = Some (RegularFile c)" "g loc = Some (RegularFile d)"
  shows "resolve fuel g at ns follow = resolve fuel fs at ns follow"
  using assms
proof (induction fuel fs at ns follow rule: resolve.induct)
  case (2 fuel fs at n ns follow)
  show ?case
  proof (cases "at @ [n] = loc")
    case True
    then show ?thesis
      using 2 by (subst (1 2) resolve.simps(2)) (auto simp: Let_def)
  next
    case False
    then have same: "g (at @ [n]) = fs (at @ [n])" using "2.prems"(1) by blast
    show ?thesis
      using 2 same by (subst (1 2) resolve.simps(2)) (auto simp: Let_def split: option.split node.split nat.split)
  qed
qed simp

lemma locate_contents:
  assumes "nodes fs loc = Some (RegularFile c)"
  shows "locate (put_node loc (Some (RegularFile d)) fs) p follow = locate fs p follow"
proof -
  have "resolve max_links ((nodes fs)(loc \<mapsto> RegularFile d)) at ns follow = resolve max_links (nodes fs) at ns follow" for at ns
    by (rule resolve_contents [of loc _ _ c d]) (simp_all add: assms)
  then show ?thesis by (simp add: locate_def put_node_def)
qed

lemma locate_fresh:
  assumes "locate fs p follow = Inr loc" "nodes fs loc = None"
  shows "locate (put_node loc (Some (RegularFile d)) fs) p follow = Inr loc"
proof -
  have "resolve max_links ((nodes fs)(loc \<mapsto> RegularFile d)) at ns follow = Inr loc"
    if "resolve max_links (nodes fs) at ns follow = Inr loc" for at ns
    by (rule resolve_fresh_aux [OF that assms(2), of _ "RegularFile d"]) simp_all
  then show ?thesis using assms(1) by (auto simp: locate_def put_node_def split: if_splits)
qed

lemma symlink_status_regular:
  "symlink_status fs p = Inr (RegularFile c) \<longleftrightarrow> (\<exists>loc. loc \<noteq> [] \<and> locate fs p False = Inr loc \<and> nodes fs loc = Some (RegularFile c))"
  by (auto simp: symlink_status_def node_at_def split: sum.splits option.splits)

lemma locate_follow_regular:
  assumes "locate fs p False = Inr loc" "nodes fs loc = Some (RegularFile c)"
  shows "locate fs p True = Inr loc"
  using assms resolve_nofollow_same by (auto simp: locate_def split: if_splits)

section \<open>A session that expects a payload\<close>

lemma resumable_small:
  assumes "resumable_part_size fs p declared = Inr n" "0 < n"
  shows "\<exists>c. symlink_status fs p = Inr (RegularFile c) \<and> unat n = length c \<and> length c \<le> unat declared"
proof -
  obtain c where c: "symlink_status fs p = Inr (RegularFile c)" "\<not> unat declared < length c" "n = of_nat (length c)"
    using assms by (auto simp: resumable_part_size_def split: sum.splits node.splits if_splits)
  then have "length c < 2 ^ 64" using u64_less_bound [of declared] by simp
  then show ?thesis using c by auto
qed

lemma hash_existing_prefix:
  assumes "hash_existing_part_prefix sha buffer fs p n = Some (h, d)" "0 < buffer"
  shows "\<exists>c. symlink_status fs p = Inr (RegularFile c) \<and> unat n \<le> length c \<and> h = take (unat n) c"
  using assms hash_prefix_bytes_eq [OF assms(2)]
  by (auto simp: hash_existing_part_prefix_def split: sum.splits node.splits if_splits)

lemma recv_ack_le:
  assumes "recv_resume_ack parse requested declared rel io = (Inr accepted, io')"
  shows "accepted \<le> requested" "accepted \<le> declared"
  using assms
  by (auto simp: recv_resume_ack_def xbind_Inr xprim_Inr ack_of_def andthen_Inr_iff split: option.splits if_splits)

lemma same_fs_run: "xkeeps same_fs m \<Longrightarrow> m io = (r, io') \<Longrightarrow> xi_fs io' = xi_fs io"
  by (metis same_fs_def snd_conv xkeeps_def)

lemma same_fs_messages:
  "xkeeps same_fs (send_resume dump o' p b)" "xkeeps same_fs (recv_resume_ack parse q d r)"
  unfolding send_resume_def recv_resume_ack_def by (intro same_fs_intros)+

lemma restart_part_result:
  assumes "restart_part env s accepted io = (Inr h, io')" "0 < env_buffer env"
    and "accepted \<noteq> 0 \<longrightarrow> symlink_status (xi_fs io) (rs_part s) = Inr (RegularFile c)"
  shows "h = (if accepted = 0 then [] else take (unat accepted) c) \<and> length h = unat accepted \<and>
    (accepted \<noteq> 0 \<longrightarrow> symlink_status (xi_fs io') (rs_part s) = Inr (RegularFile h))"
proof -
  obtain fs where s: "rehash_part env s accepted (xi_fs io) = Inr h" "truncate_part s accepted (xi_fs io) = (Inr (), fs)"
    "xi_fs io' = fs"
    using assms(1) by (auto simp: restart_part_def xrun_Inr xfer_Inr xfs_Inr)
  show ?thesis
  proof (cases "accepted = 0")
    case False
    then have c: "symlink_status (xi_fs io) (rs_part s) = Inr (RegularFile c)" using assms(3) by simp
    have h: "h = take (unat accepted) c" "unat accepted \<le> length c"
      using s(1) False hash_existing_prefix [OF _ assms(2)] c
      by (auto simp: rehash_part_def word_gt_0 split: option.splits prod.splits) fastforce+
    obtain loc where loc: "loc \<noteq> []" "locate (xi_fs io) (rs_part s) False = Inr loc" "nodes (xi_fs io) loc = Some (RegularFile c)"
      using c symlink_status_regular by blast
    have "locate (xi_fs io) (rs_part s) True = Inr loc" by (rule locate_follow_regular [OF loc(2,3)])
    then have "fs = put_node loc (Some (RegularFile h)) (xi_fs io)"
      using s(2) loc h by (simp add: truncate_part_def resize_on_disk_def)
    then have "symlink_status fs (rs_part s) = Inr (RegularFile h)"
      using loc locate_contents [OF loc(3)] by (auto simp: symlink_status_regular put_node_def)
    then show ?thesis using False h s(3) by simp
  qed (use s in \<open>simp add: rehash_part_def\<close>)
qed

text \<open>What the hasher has seen when a payload is expected.\<close>

definition payload_ready :: "file_system \<Rightarrow> receive_session \<Rightarrow> bool" where
  "payload_ready fs s \<longleftrightarrow>
     (\<exists>h. rs_hasher s = Some h \<and> length h = unat (rs_resume s) \<and> rs_resume s \<le> rs_declared s \<and>
        (rs_resume s \<noteq> 0 \<longrightarrow> symlink_status fs (rs_part s) = Inr (RegularFile h)))"

lemma part_offer_ready:
  assumes "part_offer env s fs = Inr (n, h, d)" "0 < env_buffer env"
  shows "length h = unat n \<and> n \<le> rs_declared s \<and> (n \<noteq> 0 \<longrightarrow> symlink_status fs (rs_part s) = Inr (RegularFile h))"
proof (cases "n = 0")
  case True
  then show ?thesis using assms(1)
    by (auto simp: part_offer_def andthen_Inr_iff split: if_splits option.splits)
next
  case False
  then obtain dg where r: "resumable_part_size fs (rs_part s) (rs_declared s) = Inr n"
    "hash_existing_part_prefix (env_sha256 env) (env_buffer env) fs (rs_part s) n = Some (h, dg)"
    using assms(1) by (auto simp: part_offer_def andthen_Inr_iff split: if_splits option.splits)
  obtain c where c: "symlink_status fs (rs_part s) = Inr (RegularFile c)" "unat n = length c" "length c \<le> unat (rs_declared s)"
    using resumable_small [OF r(1)] False by (auto simp: word_gt_0)
  then have "h = c" using hash_existing_prefix [OF r(2) assms(2)] by auto
  then show ?thesis using c by (simp add: word_le_nat_alt)
qed

lemma negotiate_ready:
  assumes "negotiate_resume env s io = (Inr s', io')" "0 < env_buffer env"
  shows "payload_ready (xi_fs io') s' \<and> (\<exists>h r. s' = s\<lparr>rs_hasher := Some h, rs_resume := r, rs_action := ReceivePayload\<rparr>)"
proof -
  obtain n h d where o: "part_offer env s (xi_fs io) = Inr (n, h, d)" and
    rest: "xthen (send_resume (env_dump env) n d False)
     (xbind (recv_resume_ack (env_parse env) n (rs_declared s) (rs_relative s)) (\<lambda>accepted.
      xbind (if accepted \<noteq> n then restart_part env s accepted else xret h) (\<lambda>hasher1.
      xthen (emit (FileStart (rs_relative s) (rs_declared s)))
      (xthen (if 0 < accepted
              then xthen (emit (FileResume (rs_relative s) accepted (rs_declared s))) (emit (FileAdvance accepted))
              else xret ())
       (xret (s\<lparr>rs_hasher := Some hasher1, rs_resume := accepted, rs_action := ReceivePayload\<rparr>)))))) io = (Inr s', io')"
    using assms(1) unfolding negotiate_resume_def by (auto simp: xrun_Inr)
  obtain io1 io2 io3 io4 accepted hasher1 where m: "send_resume (env_dump env) n d False io = (Inr (), io1)"
    "recv_resume_ack (env_parse env) n (rs_declared s) (rs_relative s) io1 = (Inr accepted, io2)"
    "(if accepted \<noteq> n then restart_part env s accepted else xret h) io2 = (Inr hasher1, io3)"
    "s' = s\<lparr>rs_hasher := Some hasher1, rs_resume := accepted, rs_action := ReceivePayload\<rparr>" "xi_fs io' = xi_fs io3"
    using rest unfolding xthen_Inr xbind_Inr by (auto simp: xprim_Inr xthen_Inr split: if_splits)
  have fs: "xi_fs io2 = xi_fs io"
    using same_fs_run [OF same_fs_messages(1) m(1)] same_fs_run [OF same_fs_messages(2) m(2)] by simp
  note ready = part_offer_ready [OF o assms(2)]
  note le = recv_ack_le [OF m(2)]
  have "payload_ready (xi_fs io') s'"
  proof (cases "accepted = n")
    case True
    then have "hasher1 = h" "xi_fs io3 = xi_fs io" using m(3) fs by (auto simp: xprim_Inr)
    then show ?thesis using ready m(4,5) True by (simp add: payload_ready_def)
  next
    case False
    then have n: "n \<noteq> 0" using le(1) by auto
    have r: "restart_part env s accepted io2 = (Inr hasher1, io3)" using m(3) False by simp
    show ?thesis
      using restart_part_result [OF r assms(2), of h] ready n fs m(4,5) le(2) by (auto simp: payload_ready_def)
  qed
  then show ?thesis using m(4) by blast
qed

lemma payload_setup_ready:
  assumes "receive_payload_setup env planned policy s io = (Inr s', io')" "0 < env_buffer env"
  shows "payload_ready (xi_fs io') s' \<and> rs_relative s' = rs_relative s \<and> rs_declared s' = rs_declared s"
proof -
  obtain current io1 where n: "negotiate_resume env (s\<lparr>rs_current := current, rs_part := part_path_for current\<rparr>) io1 = (Inr s', io')"
    using assms(1) by (auto simp: receive_payload_setup_def xfer_Inr Let_def)
  from negotiate_ready [OF n assms(2)] show ?thesis by auto
qed

lemma open_session_ready:
  assumes "open_receive_session env header out policy plan io = (Inr s, io')" "0 < env_buffer env" "rs_action s = ReceivePayload"
  shows "payload_ready (xi_fs io') s"
proof -
  have other: "receive_symlink env planned policy s0 io1 \<noteq> (Inr s, io')" "receive_directory env s0 io1 \<noteq> (Inr s, io')"
    "receive_kept env s0 io1 \<noteq> (Inr s, io')" for planned s0 io1
    using assms(3) by (auto simp: receive_symlink_def receive_directory_def receive_kept_def xfer_Inr Let_def)
  show ?thesis
    using assms(1,3) other payload_setup_ready [OF _ assms(2)]
    unfolding open_receive_session_def Let_def xrun_Inr
    by (auto simp: xfer_Inr split: if_splits)
qed

section \<open>The run\<close>

text \<open>The states that the loop goes through, from its start.\<close>

inductive receiving :: "stream_env \<Rightarrow> path \<Rightarrow> conflict_policy \<Rightarrow> transfer_io \<Rightarrow> stream_state \<Rightarrow> transfer_io \<Rightarrow> bool"
  for env out policy io0 where
  start: "receiving env out policy io0 stream_start io0"
| turn: "receiving env out policy io0 st io \<Longrightarrow> receive_turn env out policy st io = (Inr (Some st1), io1) \<Longrightarrow>
    receiving env out policy io0 st1 io1"

text \<open>Every turn of \<open>receive_loop\<close> is such a step.\<close>

lemma receive_loop_runs:
  assumes "receive_loop env out policy st io = (r, io')" "receiving env out policy io0 st io"
  shows "\<exists>st1 io1. receiving env out policy io0 st1 io1 \<and>
    receive_turn env out policy st1 io1 = (case r of Inl e \<Rightarrow> Inl e | Inr _ \<Rightarrow> Inr None, io')"
  using assms
proof (induction env out policy st io rule: receive_loop.induct)
  case (1 env out policy st io)
  obtain q io1 where t: "receive_turn env out policy st io = (q, io1)" by fastforce
  consider e where "q = Inl e" | "q = Inr None" | st1 where "q = Inr (Some st1)"
    by (cases q; cases "projr q") auto
  then show ?case
  proof cases
    case 1
    then have "r = Inl e" "io' = io1" using "1.prems"(1) t by (simp_all add: receive_loop.simps [of env])
    then show ?thesis using "1.prems"(2) t 1 by (intro exI [of _ st] exI [of _ io]) simp
  next
    case 2
    then have "r = Inr ()" "io' = io1" using "1.prems"(1) t by (simp_all add: receive_loop.simps [of env])
    then show ?thesis using "1.prems"(2) t 2 by (intro exI [of _ st] exI [of _ io]) simp
  next
    case 3
    then show ?thesis
      using "1.IH" [OF t [symmetric] 3 refl] "1.prems" t receiving.turn by (simp add: receive_loop.simps [of env])
  qed
qed

text \<open>Payloads have a 64-bit length; the decompressor keeps within its limit.\<close>

definition frames_fit :: "transfer_io \<Rightarrow> bool" where
  "frames_fit io \<longleftrightarrow> (\<forall>f. Inr (Some f) \<in> set (xi_arriving io) \<longrightarrow> length (tf_payload f) < 2 ^ 64)"

definition decompress_bounded :: "stream_env \<Rightarrow> bool" where
  "decompress_bounded env \<longleftrightarrow> (\<forall>fed piece limit out. env_decompress env fed piece limit = Inr out \<longrightarrow> length out \<le> limit)"

definition payload_stored :: "file_system \<Rightarrow> stream_state \<Rightarrow> receive_session \<Rightarrow> bool" where
  "payload_stored fs st s \<longleftrightarrow>
     (\<exists>h. rs_hasher s = Some h \<and> locate fs (rs_part s) True = Inr (st_out st) \<and> nodes fs (st_out st) = Some (RegularFile h) \<and>
        unat (st_total st) = length h \<and> length h \<le> unat (rs_declared s))"

definition stream_inv :: "stream_state \<Rightarrow> transfer_io \<Rightarrow> bool" where
  "stream_inv st io \<longleftrightarrow>
     (st_file st \<noteq> None \<longrightarrow> st_saw_header st) \<and>
     (\<forall>s. st_file st = Some s \<longrightarrow> rs_action s = ReceivePayload \<longrightarrow> payload_stored (xi_fs io) st s)"

lemma open_output_ready:
  assumes "payload_ready fs s" "open_output (rs_part s) (0 < rs_resume s) fs = (Some loc, fs1)"
  shows "\<exists>h. rs_hasher s = Some h \<and> locate fs1 (rs_part s) True = Inr loc \<and> nodes fs1 loc = Some (RegularFile h) \<and>
    length h = unat (rs_resume s) \<and> length h \<le> unat (rs_declared s)"
proof -
  obtain h where h: "rs_hasher s = Some h" "length h = unat (rs_resume s)" "rs_resume s \<le> rs_declared s"
    "rs_resume s \<noteq> 0 \<longrightarrow> symlink_status fs (rs_part s) = Inr (RegularFile h)"
    using assms(1) by (auto simp: payload_ready_def)
  have loc: "locate fs (rs_part s) True = Inr loc"
    using assms(2) by (auto simp: open_output_def split: sum.splits option.splits node.splits if_splits)
  consider (there) c where "nodes fs loc = Some (RegularFile c)"
      "fs1 = (if 0 < rs_resume s then fs else put_node loc (Some (RegularFile [])) fs)"
    | (free) "nodes fs loc = None" "fs1 = put_node loc (Some (RegularFile [])) fs"
    using assms(2) loc by (auto simp: open_output_def split: option.splits node.splits if_splits)
  then have "locate fs1 (rs_part s) True = Inr loc \<and> nodes fs1 loc = Some (RegularFile h)"
  proof cases
    case there
    show ?thesis
    proof (cases "rs_resume s = 0")
      case True
      then show ?thesis using locate_contents [OF there(1)] loc there(2) h(2) by (simp add: put_node_def)
    next
      case False
      then obtain l where l: "locate fs (rs_part s) False = Inr l" "nodes fs l = Some (RegularFile h)"
        using h(4) symlink_status_regular by blast
      then have "l = loc" using locate_follow_regular [OF l] loc by simp
      then show ?thesis using False l loc there(2) by (simp add: word_gt_0)
    qed
  next
    case free
    have "rs_resume s = 0"
    proof (rule ccontr)
      assume "rs_resume s \<noteq> 0"
      then obtain l where l: "locate fs (rs_part s) False = Inr l" "nodes fs l = Some (RegularFile h)"
        using h(4) symlink_status_regular by blast
      then show False using locate_follow_regular [OF l] loc free(1) by simp
    qed
    then show ?thesis using locate_fresh [OF loc free(1)] free(2) h(2) by (simp add: put_node_def)
  qed
  then show ?thesis using h by (simp add: word_le_nat_alt)
qed


lemma commit_keeps_inv:
  assumes "commit_received_payload s payload st io = (Inr st1, io1)" "payload_stored (xi_fs io) st s"
    and "st_saw_header st" "rs_action s = ReceivePayload" "st_file st = Some s"
    and "unat (st_total st) + length payload \<le> unat (rs_declared s)"
  shows "stream_inv st1 io1"
proof (cases "payload = []")
  case True
  then show ?thesis using assms by (auto simp: commit_received_payload_def xprim_Inr stream_inv_def)
next
  case False
  obtain h where h: "rs_hasher s = Some h" "locate (xi_fs io) (rs_part s) True = Inr (st_out st)"
    "nodes (xi_fs io) (st_out st) = Some (RegularFile h)" "unat (st_total st) = length h" "length h \<le> unat (rs_declared s)"
    using assms(2) by (auto simp: payload_stored_def)
  have st1: "st1 = st\<lparr>st_file := Some (s\<lparr>rs_hasher := Some (h @ payload)\<rparr>), st_total := st_total st + of_nat (length payload)\<rparr>"
    and fs: "xi_fs io1 = put_node (st_out st) (Some (RegularFile (h @ payload))) (xi_fs io)"
    using assms(1) h(1,3) False
    by (auto simp: commit_received_payload_def xfer_Inr xrun_Inr xfs_Inr write_output_def)
  have small: "length h + length payload < 2 ^ 64" using assms(6) h(4) u64_less_bound [of "rs_declared s"] by simp
  then have "unat (st_total st + of_nat (length payload)) = length h + length payload"
    using h(4) by (simp add: unat_word_ariths unat_of_nat)
  then have "payload_stored (xi_fs io1) st1 (s\<lparr>rs_hasher := Some (h @ payload)\<rparr>)"
    using h locate_contents [OF h(3)] fs assms(6) unfolding st1 by (simp add: payload_stored_def put_node_def)
  then show ?thesis unfolding st1 using assms(3) by (simp add: stream_inv_def)
qed

lemma on_data_inv:
  assumes "on_data env f st io = (Inr st1, io1)" "stream_inv st io" "decompress_bounded env" "length (tf_payload f) < 2 ^ 64"
  shows "stream_inv st1 io1"
proof -
  obtain s where s: "st_file st = Some s" using assms(1) by (cases "st_file st") (simp_all add: on_data_def xfail_def)
  then have saw: "st_saw_header st" using assms(2) by (simp add: stream_inv_def)
  show ?thesis
  proof (cases "rs_action s")
    case ReceivePayload
    then have stored: "payload_stored (xi_fs io) st s" using assms(2) s by (simp add: stream_inv_def)
    show ?thesis
    proof (cases "rs_zstd s")
      case True
      obtain fed limit payload where r: "declared_remaining_limit (st_total st) (rs_declared s) (rs_relative s) = Inr limit"
        "env_decompress env fed (tf_payload f) limit = Inr payload"
        "commit_received_payload s payload (st\<lparr>st_fed := Some (fed @ [tf_payload f])\<rparr>) io = (Inr st1, io1)"
        using assms(1) s ReceivePayload True
        by (cases "st_fed st") (auto simp: on_data_def xrun_Inr xfail_def)
      have le: "st_total st \<le> rs_declared s" "limit = unat (rs_declared s - st_total st)"
        using r(1) by (auto simp: declared_remaining_limit_def andthen_Inr_iff declared_space_iff word_le_nat_alt)
      have "length payload \<le> limit" using assms(3) r(2) by (simp add: decompress_bounded_def)
      then have fit: "unat (st_total st) + length payload \<le> unat (rs_declared s)"
        using le by (simp add: unat_u64_sub word_le_nat_alt)
      have "payload_stored (xi_fs io) (st\<lparr>st_fed := Some (fed @ [tf_payload f])\<rparr>) s"
        using stored by (simp add: payload_stored_def)
      then show ?thesis using commit_keeps_inv [OF r(3)] saw ReceivePayload s fit by simp
    next
      case False
      have r: "tf_payload f = [] \<or> ensure_declared_space (st_total st) (rs_declared s) (of_nat (length (tf_payload f))) (rs_relative s) = Inr ()"
        "commit_received_payload s (tf_payload f) st io = (Inr st1, io1)"
        using assms(1) s ReceivePayload False
        by (auto simp: on_data_def xthen_Inr xprim_Inr split: if_splits)
      have "unat (st_total st) + length (tf_payload f) \<le> unat (rs_declared s)"
        using r(1) stored assms(4) by (auto simp: declared_space_iff payload_stored_def)
      then show ?thesis using commit_keeps_inv [OF r(2) stored saw ReceivePayload s] by blast
    qed
  qed (use assms s in \<open>auto simp: on_data_def xprim_Inr xfail_def\<close>)
qed

lemma on_file_header_inv:
  assumes "on_file_header env out policy f st io = (Inr st1, io1)" "0 < env_buffer env"
  shows "stream_inv st1 io1"
proof -
  obtain header plan s io2 where r: "open_receive_session (base_env env) header out policy plan io = (Inr s, io2)"
    and t: "(let st1 = st\<lparr>st_saw_header := True, st_plan := plan,
             st_total := (if rs_action s = ReceivePayload then rs_resume s else rs_declared s),
             st_fed := None, st_file := Some s\<rparr>
       in if rs_action s = ReceivePayload then
            xbind (xfs (\<lambda>fs. case open_output (rs_part s) (0 < rs_resume s) fs of
                 (None, fs1) \<Rightarrow> (Inl (''failed to open output file: '' @ path_string (rs_part s)), fs1)
               | (Some loc, fs1) \<Rightarrow> (Inr loc, fs1))) (\<lambda>loc.
              xret (st1\<lparr>st_out := loc, st_fed := (if rs_zstd s then Some [] else None)\<rparr>))
          else xret st1) io2 = (Inr st1, io1)"
    using assms(1) unfolding on_file_header_def by (auto simp: xrun_Inr xbind_Inr [of "open_receive_session _ _ _ _ _"] Let_def)
  show ?thesis
  proof (cases "rs_action s = ReceivePayload")
    case True
    obtain loc fs1 where o: "open_output (rs_part s) (0 < rs_resume s) (xi_fs io2) = (Some loc, fs1)" "xi_fs io1 = fs1"
      "st1 = st\<lparr>st_saw_header := True, st_plan := plan, st_total := rs_resume s, st_file := Some s,
         st_out := loc, st_fed := (if rs_zstd s then Some [] else None)\<rparr>"
      using t True by (auto simp: Let_def xfer_Inr xfs_Inr split: prod.splits option.splits)
    have "payload_ready (xi_fs io2) s" using open_session_ready [OF r _ True] assms(2) by (simp add: transfer_env.truncate_def)
    from open_output_ready [OF this o(1)] have "payload_stored (xi_fs io1) st1 s"
      unfolding o(3) o(2) by (auto simp: payload_stored_def)
    then show ?thesis using o(3) by (simp add: stream_inv_def)
  next
    case False
    then show ?thesis using t by (auto simp: Let_def xprim_Inr stream_inv_def)
  qed
qed

lemma xbind_Some_Inr: "xbind m (\<lambda>s. xret (Some s)) io = (Inr (Some st1), io1) \<longleftrightarrow> m io = (Inr st1, io1)"
  by (auto simp: xbind_Inr xprim_Inr)

lemma receive_turn_frame:
  assumes "receive_turn env out policy st io = (Inr r, io1)"
  shows "\<exists>f rest. xi_arriving io = Inr (Some f) # rest"
  using assms
  by (auto simp: receive_turn_def xbind_Inr xrecv_def xfail_def split: list.splits option.splits sum.splits)

lemma receive_turn_on:
  assumes "xi_arriving io = Inr (Some f) # rest"
  shows "receive_turn env out policy st io =
    (case tf_tag f of
       Manifest \<Rightarrow> xbind (on_manifest env out policy f st) (\<lambda>s. xret (Some s))
     | FileHeader \<Rightarrow> xbind (on_file_header env out policy f st) (\<lambda>s. xret (Some s))
     | Data \<Rightarrow> xbind (on_data env f st) (\<lambda>s. xret (Some s))
     | FileEnd \<Rightarrow> xbind (on_file_end env f st) (\<lambda>s. xret (Some s))
     | Done \<Rightarrow> xthen (on_done env st) (xret None)
     | _ \<Rightarrow> xfail ''unknown transfer frame tag'') (io\<lparr>xi_arriving := rest\<rparr>)"
  using assms by (simp add: receive_turn_def xbind_def [of xrecv] xrecv_def)

lemma receive_turn_step:
  assumes "xi_arriving io = Inr (Some f) # rest" "receive_turn env out policy st io = (Inr (Some st1), io1)"
  shows "tf_tag f = Manifest \<and> on_manifest env out policy f st (io\<lparr>xi_arriving := rest\<rparr>) = (Inr st1, io1) \<or>
     tf_tag f = FileHeader \<and> on_file_header env out policy f st (io\<lparr>xi_arriving := rest\<rparr>) = (Inr st1, io1) \<or>
     tf_tag f = Data \<and> on_data env f st (io\<lparr>xi_arriving := rest\<rparr>) = (Inr st1, io1) \<or>
     tf_tag f = FileEnd \<and> on_file_end env f st (io\<lparr>xi_arriving := rest\<rparr>) = (Inr st1, io1)"
  using assms(2) unfolding receive_turn_on [OF assms(1)]
  by (cases "tf_tag f") (simp_all only: stream_tag.case stream_tag.distinct simp_thms xbind_Some_Inr, simp_all add: xthen_Inr xprim_Inr)

lemma receive_turn_inv:
  assumes "receive_turn env out policy st io = (Inr (Some st1), io1)" "stream_inv st io"
    and "decompress_bounded env" "0 < env_buffer env" "frames_fit io"
  shows "stream_inv st1 io1"
proof -
  obtain f rest where f: "xi_arriving io = Inr (Some f) # rest" using receive_turn_frame [OF assms(1)] by blast
  let ?io = "io\<lparr>xi_arriving := rest\<rparr>"
  note h = receive_turn_step [OF f assms(1)]
  have inv: "stream_inv st ?io" using assms(2) by (simp add: stream_inv_def)
  from h show ?thesis
  proof (elim disjE conjE)
    assume "on_manifest env out policy f st ?io = (Inr st1, io1)"
    then obtain plan where "\<not> st_saw_header st" "st1 = st\<lparr>st_plan := Some plan, st_saw_manifest := True\<rparr>"
      by (auto simp: on_manifest_def xrun_Inr xfer_Inr)
    then show ?thesis using inv by (auto simp: stream_inv_def)
  next
    assume "on_file_header env out policy f st ?io = (Inr st1, io1)"
    then show ?thesis using on_file_header_inv assms(4) by blast
  next
    assume d: "on_data env f st ?io = (Inr st1, io1)"
    have "length (tf_payload f) < 2 ^ 64" using assms(5) f unfolding frames_fit_def by (metis list.set_intros(1))
    then show ?thesis using on_data_inv [OF d inv assms(3)] by blast
  next
    assume "on_file_end env f st ?io = (Inr st1, io1)"
    then have "st_file st1 = None"
      by (cases "st_file st") (auto simp: on_file_end_def xfer_Inr xfail_def)
    then show ?thesis by (simp add: stream_inv_def)
  qed
qed

lemma receive_turn_suffix: "suffix (xi_arriving (snd (receive_turn env out policy st io))) (xi_arriving io)"
  using receive_turn_keeps by (simp add: xkeeps_def no_more_frames_def)

lemma receive_turn_fit: "receive_turn env out policy st io = (r, io1) \<Longrightarrow> frames_fit io \<Longrightarrow> frames_fit io1"
  using receive_turn_suffix [of env out policy st io]
  by (auto simp: frames_fit_def dest: set_mono_suffix)

lemma receiving_inv:
  assumes "receiving env out policy io0 st io" "decompress_bounded env" "0 < env_buffer env" "frames_fit io0"
  shows "stream_inv st io \<and> frames_fit io"
  using assms(1)
proof (induction rule: receiving.induct)
  case start
  then show ?case using assms(4) by (simp add: stream_inv_def stream_start_def)
next
  case (turn st io st1 io1)
  then show ?case using receive_turn_inv assms(2,3) receive_turn_fit by blast
qed

lemma rename_path_None:
  assumes "rename_path p q fs = (None, fs2)"
  shows "\<exists>a b. locate fs p False = Inr a \<and> locate fs q False = Inr b \<and> a \<noteq> [] \<and> nodes fs a \<noteq> None \<and>
    fs2 = (if a = b then fs else put_node b (nodes fs a) (put_node a None fs))"
  using assms unfolding rename_path_def
  by (cases "locate fs p False"; cases "locate fs q False") (simp_all split: if_splits)

text \<open>The end of a file whose bytes are stored.\<close>

lemma complete_received_installs:
  assumes "complete_received env s expected received actual io = (Inr n, io1)"
    and "locate (xi_fs io) (rs_part s) True = Inr loc" "nodes (xi_fs io) loc = Some (RegularFile h)"
    and "actual = hex_encode (env_sha256 env h)"
  shows "\<exists>place. locate (xi_fs io) (rs_current s) False = Inr place \<and> nodes (xi_fs io1) place = Some (RegularFile h) \<and>
    length h = unat (rs_declared s) \<and> actual = expected"
proof -
  obtain fs1 fs2 where r: "validate_receive_part_path (xi_fs io) (rs_part s) (rs_relative s) = Inr ()"
    "(if actual = [] then verify_part_file_digest (env_sha256 env) (rs_part s) (rs_relative s) (rs_declared s) expected
      else verify_received_digest (rs_part s) (rs_relative s) received (rs_declared s) expected actual) (xi_fs io) = (Inr (), fs1)"
    "finalize_part_file (rs_part s) (rs_current s) fs1 = (Inr (), fs2)" "xi_fs io1 = fs2"
    using assms(1) unfolding complete_received_def check_target_def xrun_Inr
    by (auto simp: xfer_Inr xfs_Inr dest!: same_fs_run [OF same_fs_prims(6)])
  have ren: "rename_path (rs_part s) (rs_current s) fs1 = (None, fs2)"
    using r(3) by (auto simp: finalize_part_file_def atomic_replace_file_def replace_file_impl_def split: prod.splits option.splits if_splits)
  have st: "status (xi_fs io) (rs_part s) = Inr (RegularFile h)" if "loc \<noteq> []"
    using that assms(2,3) by (simp add: status_def node_at_def)
  have v: "fs1 = xi_fs io \<and> (loc \<noteq> [] \<longrightarrow> length h = unat (rs_declared s) \<and> actual = expected)"
  proof (cases "actual = []")
    case True
    then have "verify_part_file_digest (env_sha256 env) (rs_part s) (rs_relative s) (rs_declared s) expected (xi_fs io) = (Inr (), fs1)"
      using r(2) by simp
    from verify_part_InrD [OF this] show ?thesis using st assms(4) by auto
  next
    case False
    then have "verify_received_digest (rs_part s) (rs_relative s) received (rs_declared s) expected actual (xi_fs io) = (Inr (), fs1)"
      using r(2) by simp
    from verify_received_InrD [OF this] show ?thesis using st by (auto simp: file_size_def)
  qed
  obtain a b where ab: "locate fs1 (rs_part s) False = Inr a" "locate fs1 (rs_current s) False = Inr b" "a \<noteq> []"
    "nodes fs1 a \<noteq> None" "fs2 = (if a = b then fs1 else put_node b (nodes fs1 a) (put_node a None fs1))"
    using rename_path_None [OF ren] by blast
  have reg: "\<exists>c. nodes fs1 a = Some (RegularFile c)"
    using r(1) ab v by (auto simp: validate_receive_part_path_def symlink_status_def node_at_def split: node.splits option.splits sum.splits if_splits)
  then have a: "a = loc" using locate_follow_regular ab(1) assms(2) v by fastforce
  then show ?thesis using ab v assms(3) r(4) by (intro exI [of _ b]) (auto simp: put_node_def)
qed

text \<open>
  C12: In every run of the receiver, whatever frames arrive and in whatever order: when the end of a file
  is accepted, the file under its final name holds exactly the bytes that were hashed, resumed part
  included; their number is the declared size and their digest is the one in the sender's trailer.
\<close>

theorem accepted_file_is_intact:
  assumes "receiving env out policy io0 st io" "frames_fit io0" "decompress_bounded env" "0 < env_buffer env"
    and "xi_arriving io = Inr (Some f) # rest" "tf_tag f = FileEnd" "st_file st = Some s" "rs_action s = ReceivePayload"
    and "receive_turn env out policy st io = (Inr r, io1)"
  shows "\<exists>content place trailer. rs_hasher s = Some content \<and>
    locate (xi_fs io) (rs_current s) False = Inr place \<and> nodes (xi_fs io1) place = Some (RegularFile content) \<and>
    length content = unat (rs_declared s) \<and>
    decode_message (env_parse env) (payload_text f) = Inr trailer \<and>
    hex_encode (env_sha256 env content) = msg_get trailer ''sha256'' []"
proof -
  have inv: "payload_stored (xi_fs io) st s"
    using receiving_inv [OF assms(1,3,4,2)] assms(7,8) by (simp add: stream_inv_def)
  let ?io = "io\<lparr>xi_arriving := rest\<rparr>"
  obtain h where h: "rs_hasher s = Some h" "locate (xi_fs io) (rs_part s) True = Inr (st_out st)"
    "nodes (xi_fs io) (st_out st) = Some (RegularFile h)" "unat (st_total st) = length h"
    using inv by (auto simp: payload_stored_def)
  have turn: "xbind (on_file_end env f st) (\<lambda>s. xret (Some s)) ?io = (Inr r, io1)"
    using receive_turn_on [OF assms(5), of env out policy st] assms(6,9) by simp
  then obtain st1 where "on_file_end env f st ?io = (Inr st1, io1)" by (auto simp: xbind_Inr xprim_Inr)
  then obtain trailer n where t: "decode_message (env_parse env) (payload_text f) = Inr trailer"
    "complete_received (base_env env) s (msg_get trailer ''sha256'' []) (st_total st) (hex_encode (env_sha256 env h)) ?io = (Inr n, io1)"
    using assms(7,8) h(1) unfolding on_file_end_def by (auto simp: xbind_Inr [of "xbind _ _"] xbind_Inr [of "xlift _"] xprim_Inr)
  note c = complete_received_installs [OF t(2)]
  show ?thesis
    using c h t by (auto simp: transfer_env.truncate_def)
qed


section \<open>A run\<close>

text \<open>The partial file holds two of the three bytes.\<close>

definition sample_parse_text :: "string \<Rightarrow> json result" where
  "sample_parse_text text =
     Inr (JObject (if text = ''h'' then [(''type'', JString ''file''), (''path'', JString ''p''), (''size'', JString ''3''), (''compress'', JString ''none'')]
       else if text = ''a'' then [(''type'', JString ''resume_ack''), (''offset'', JString ''2'')]
       else [(''type'', JString ''file_end''), (''sha256'', JString ''010203'')]))"

definition sample_timing :: transfer_timing where
  "sample_timing = \<lparr>tt_mode = [], tt_payload_bytes = 0, tt_frame_count = 0, tt_send_frame_ms = 0, tt_max_send_frame_ms = 0,
     tt_disk_read_ms = 0, tt_disk_write_ms = 0, tt_compress_ms = 0, tt_decompress_ms = 0, tt_hash_ms = 0,
     tt_mux_max_pending_bytes = 0, tt_mux_backpressure_wait_ms = 0,
     tt_mux_backpressure_wait_count = 0, tt_mux_channels = 1\<rparr>"

definition sample_env :: stream_env where
  "sample_env = \<lparr>env_dump = (\<lambda>_. Inr ''r''), env_parse = sample_parse_text, env_sha256 = (\<lambda>b. b), env_imohash = (\<lambda>_. Inr []),
     env_volume = sample_volume, env_code = [], env_buffer = 1, env_compress = (\<lambda>_ b _. Inr b),
     env_decompress = (\<lambda>_ _ _. Inr []), env_timing = sample_timing\<rparr>"

definition sample_frame :: "stream_tag \<Rightarrow> bytes \<Rightarrow> string + tagged_frame option" where
  "sample_frame t p = Inr (Some \<lparr>tf_tag = t, tf_payload = p\<rparr>)"

definition sample_arriving :: transfer_io where
  "sample_arriving = sample_io\<lparr>xi_arriving := [sample_frame FileHeader (bytes_of ''h''), sample_frame ResumeAck (bytes_of ''a''),
     sample_frame Data [3], sample_frame FileEnd (bytes_of ''e'')]\<rparr>"

fun sample_turns :: "nat \<Rightarrow> stream_state \<Rightarrow> transfer_io \<Rightarrow> (stream_state \<times> transfer_io) option" where
  "sample_turns 0 st io = Some (st, io)"
| "sample_turns (Suc n) st io =
     (case receive_turn sample_env [''out''] Overwrite st io of
        (Inr (Some st1), io1) \<Rightarrow> sample_turns n st1 io1
      | _ \<Rightarrow> None)"

lemma sample_turns_receiving:
  "sample_turns n st io = Some (st1, io1) \<Longrightarrow> receiving sample_env [''out''] Overwrite io0 st io \<Longrightarrow>
    receiving sample_env [''out''] Overwrite io0 st1 io1"
  by (induction n st io rule: sample_turns.induct) (auto split: prod.splits sum.splits option.splits intro: receiving.turn)

definition sample_at_end :: "stream_state \<times> transfer_io" where
  "sample_at_end = the (sample_turns 2 stream_start sample_arriving)"

definition good_end :: "stream_state \<times> transfer_io \<Rightarrow> bool" where
  "good_end r \<longleftrightarrow> xi_arriving (snd r) = [sample_frame FileEnd (bytes_of ''e'')] \<and>
     (case st_file (fst r) of None \<Rightarrow> False | Some s \<Rightarrow> rs_action s = ReceivePayload \<and> rs_current s = [''out'', ''p''] \<and> rs_hasher s = Some [1, 2, 3]) \<and>
     (case receive_turn sample_env [''out''] Overwrite (fst r) (snd r) of (Inr (Some _), _) \<Rightarrow> True | _ \<Rightarrow> False)"

lemma sample_runs: "sample_turns 2 stream_start sample_arriving \<noteq> None \<and> good_end sample_at_end"
  by code_simp

theorem accepted_file_is_intact_witness:
  "\<exists>r io1 place. receive_turn sample_env [''out''] Overwrite (fst sample_at_end) (snd sample_at_end) = (Inr r, io1) \<and>
     locate (xi_fs (snd sample_at_end)) [''out'', ''p''] False = Inr place \<and> nodes (xi_fs io1) place = Some (RegularFile [1, 2, 3])"
proof -
  obtain st io where e: "sample_at_end = (st, io)" by fastforce
  then have t: "sample_turns 2 stream_start sample_arriving = Some (st, io)"
    using sample_runs by (auto simp: sample_at_end_def)
  obtain s r io1 where g: "xi_arriving io = [sample_frame FileEnd (bytes_of ''e'')]" "st_file st = Some s"
    "rs_action s = ReceivePayload" "rs_current s = [''out'', ''p'']" "rs_hasher s = Some [1, 2, 3]"
    "receive_turn sample_env [''out''] Overwrite st io = (Inr (Some r), io1)"
    using sample_runs [unfolded e] by (auto simp: good_end_def split: option.splits prod.splits sum.splits)
  have fit: "frames_fit sample_arriving"
    by (auto simp: frames_fit_def sample_arriving_def sample_frame_def bytes_of_def)
  have ok: "decompress_bounded sample_env" "0 < env_buffer sample_env"
    by (simp_all add: decompress_bounded_def sample_env_def)
  obtain place where "locate (xi_fs io) (rs_current s) False = Inr place" "nodes (xi_fs io1) place = map_option RegularFile (rs_hasher s)"
    using accepted_file_is_intact [OF sample_turns_receiving [OF t receiving.start] fit ok
        g(1) [unfolded sample_frame_def] _ g(2,3,6)] by auto
  then show ?thesis using g(4-6) unfolding e by (intro exI [of _ "Some r"] exI [of _ io1] exI [of _ place]) simp
qed

end
