(* ===== verification/Transfer_Cancel.thy ===== *)
theory Transfer_Cancel
  imports Kiko_Prelude
begin

text \<open>
  \<open>src/core/cancellation.cpp\<close>: the cancellation of a transfer. A request raises a flag and then
  interrupts the tracked sockets; threads track their sockets at the same time. The atomic steps of
  both are interleaved in every order. The wait that polls the flag is a function of a state in
  which time passes.
\<close>

section \<open>Request and track\<close>

text \<open>
  A thread runs one call. \<open>request\<close>: store the flag; under the mutex, swap the list out; interrupt
  what was in it. \<open>track\<close> of a valid socket: take the mutex, load the flag, then interrupt the
  socket or append its handle, and let the mutex go.
\<close>

datatype 'sock call_pc =
    RequestStart
  | RequestStored
  | RequestInterrupts "'sock list"
  | TrackStart "'sock" bool \<comment> \<open>the socket, and whether it is valid\<close>
  | TrackLocked "'sock"
  | TrackUnseen "'sock" \<comment> \<open>the flag was not set when it was loaded\<close>
  | Tracked "'sock"
  | NotTracked

record ('tid, 'sock) cancellation =
  cn_requested :: bool
  cn_mutex :: "'tid option"
  cn_sockets :: "'sock list"
  cn_interrupted :: "'sock set"
  cn_pc :: "'tid \<Rightarrow> 'sock call_pc"

definition at_pc :: "'tid \<Rightarrow> 'sock call_pc \<Rightarrow> ('tid, 'sock) cancellation \<Rightarrow> ('tid, 'sock) cancellation" where
  "at_pc t pc s = s\<lparr>cn_pc := (cn_pc s)(t := pc)\<rparr>"

text \<open>One atomic step of thread \<open>t\<close>; \<open>None\<close>: it waits for the mutex or has returned.\<close>

definition cancellation_step :: "'tid \<Rightarrow> ('tid, 'sock) cancellation \<Rightarrow> ('tid, 'sock) cancellation option" where
  "cancellation_step t s =
     (case cn_pc s t of
        RequestStart \<Rightarrow> Some (at_pc t RequestStored (s\<lparr>cn_requested := True\<rparr>))
      | RequestStored \<Rightarrow>
          if cn_mutex s = None then Some (at_pc t (RequestInterrupts (cn_sockets s)) (s\<lparr>cn_sockets := []\<rparr>)) else None
      | RequestInterrupts [] \<Rightarrow> None
      | RequestInterrupts (x # xs) \<Rightarrow>
          Some (at_pc t (RequestInterrupts xs) (s\<lparr>cn_interrupted := insert x (cn_interrupted s)\<rparr>))
      | TrackStart x valid \<Rightarrow>
          if \<not> valid then Some (at_pc t NotTracked s)
          else if cn_mutex s = None then Some (at_pc t (TrackLocked x) (s\<lparr>cn_mutex := Some t\<rparr>)) else None
      | TrackLocked x \<Rightarrow>
          if cn_requested s
          then Some (at_pc t (Tracked x) (s\<lparr>cn_interrupted := insert x (cn_interrupted s), cn_mutex := None\<rparr>))
          else Some (at_pc t (TrackUnseen x) s)
      | TrackUnseen x \<Rightarrow> Some (at_pc t (Tracked x) (s\<lparr>cn_sockets := cn_sockets s @ [x], cn_mutex := None\<rparr>))
      | Tracked x \<Rightarrow> None
      | NotTracked \<Rightarrow> None)"

definition cancellation_start :: "('tid \<Rightarrow> 'sock call_pc) \<Rightarrow> ('tid, 'sock) cancellation" where
  "cancellation_start calls = \<lparr>cn_requested = False, cn_mutex = None, cn_sockets = [], cn_interrupted = {}, cn_pc = calls\<rparr>"

definition fresh_call :: "'sock call_pc \<Rightarrow> bool" where
  "fresh_call pc \<longleftrightarrow> (case pc of RequestStart \<Rightarrow> True | TrackStart _ _ \<Rightarrow> True | NotTracked \<Rightarrow> True | _ \<Rightarrow> False)"

inductive cancelling :: "('tid \<Rightarrow> 'sock call_pc) \<Rightarrow> ('tid, 'sock) cancellation \<Rightarrow> bool"
  for calls where
  start: "cancelling calls (cancellation_start calls)"
| step: "cancelling calls s \<Longrightarrow> cancellation_step t s = Some s1 \<Longrightarrow> cancelling calls s1"

text \<open>A handle is held: interrupted already, in the list, or taken by a request.\<close>

definition held :: "('tid, 'sock) cancellation \<Rightarrow> 'sock \<Rightarrow> bool" where
  "held s x \<longleftrightarrow> x \<in> cn_interrupted s \<or> x \<in> set (cn_sockets s) \<or>
     (\<exists>u xs. cn_pc s u = RequestInterrupts xs \<and> x \<in> set xs)"

text \<open>
  Who is between the lock and the unlock of \<open>track\<close> holds the mutex; when the flag is up, a list that
  is not empty, or about to grow, has a request before its swap.
\<close>

definition mutex_inv :: "('tid, 'sock) cancellation \<Rightarrow> bool" where
  "mutex_inv s \<longleftrightarrow> (\<forall>t x. cn_pc s t = TrackLocked x \<or> cn_pc s t = TrackUnseen x \<longrightarrow> cn_mutex s = Some t)"

definition pending_inv :: "('tid, 'sock) cancellation \<Rightarrow> bool" where
  "pending_inv s \<longleftrightarrow>
     (cn_requested s \<longrightarrow> (cn_sockets s \<noteq> [] \<or> (\<exists>t x. cn_pc s t = TrackUnseen x)) \<longrightarrow> (\<exists>u. cn_pc s u = RequestStored))"

definition tracked_inv :: "('tid, 'sock) cancellation \<Rightarrow> bool" where
  "tracked_inv s \<longleftrightarrow> (\<forall>t x. cn_pc s t = Tracked x \<longrightarrow> held s x)"

lemma step_other: "cancellation_step t s = Some s1 \<Longrightarrow> u \<noteq> t \<Longrightarrow> cn_pc s1 u = cn_pc s u"
  by (auto simp: cancellation_step_def at_pc_def split: call_pc.splits list.splits if_splits)

lemma step_mutex:
  "cancellation_step t s = Some s1 \<Longrightarrow> cn_mutex s1 \<noteq> cn_mutex s \<Longrightarrow>
    cn_mutex s = None \<or> (\<exists>x. cn_pc s t = TrackLocked x \<or> cn_pc s t = TrackUnseen x)"
  by (auto simp: cancellation_step_def at_pc_def split: call_pc.splits list.splits if_splits)

lemma step_locked:
  "cancellation_step t s = Some s1 \<Longrightarrow> cn_pc s1 t = TrackLocked x \<Longrightarrow> cn_mutex s1 = Some t"
  "cancellation_step t s = Some s1 \<Longrightarrow> cn_pc s1 t = TrackUnseen x \<Longrightarrow> cn_pc s t = TrackLocked x \<and> cn_mutex s1 = cn_mutex s"
  by (auto simp: cancellation_step_def at_pc_def split: call_pc.splits list.splits if_splits)

lemma mutex_inv_step:
  assumes "mutex_inv s" "cancellation_step t s = Some s1"
  shows "mutex_inv s1"
  unfolding mutex_inv_def
proof (intro allI impI)
  fix u x
  assume u: "cn_pc s1 u = TrackLocked x \<or> cn_pc s1 u = TrackUnseen x"
  show "cn_mutex s1 = Some u"
  proof (cases "u = t")
    case True
    then show ?thesis using u step_locked [OF assms(2)] assms(1) by (metis mutex_inv_def)
  next
    case False
    then have "cn_mutex s = Some u" using u step_other [OF assms(2)] assms(1) by (metis mutex_inv_def)
    then show ?thesis using step_mutex [OF assms(2)] assms(1) False by (metis mutex_inv_def option.inject option.discI)
  qed
qed

lemma held_step:
  assumes "cancellation_step t s = Some s1" "held s x"
  shows "held s1 x"
proof -
  consider "x \<in> cn_interrupted s" | "x \<in> set (cn_sockets s)" | u xs where "cn_pc s u = RequestInterrupts xs" "x \<in> set xs"
    using assms(2) by (auto simp: held_def)
  then show ?thesis
  proof cases
    case 1
    then show ?thesis using assms(1)
      by (auto simp: cancellation_step_def at_pc_def held_def split: call_pc.splits list.splits if_splits)
  next
    case 2
    then show ?thesis using assms(1)
      by (fastforce simp: cancellation_step_def at_pc_def held_def split: call_pc.splits list.splits if_splits)
  next
    case 3
    show ?thesis
    proof (cases "u = t")
      case True
      then show ?thesis using assms(1) 3
        by (cases xs) (auto simp: cancellation_step_def at_pc_def held_def)
    next
      case False
      then have "cn_pc s1 u = RequestInterrupts xs" using assms(1) 3
        by (auto simp: cancellation_step_def at_pc_def split: call_pc.splits list.splits if_splits)
      then show ?thesis using 3 by (auto simp: held_def)
    qed
  qed
qed

lemma step_tracked: "cancellation_step t s = Some s1 \<Longrightarrow> cn_pc s1 t = Tracked x \<Longrightarrow> held s1 x"
  by (auto simp: cancellation_step_def at_pc_def held_def split: call_pc.splits list.splits if_splits)

lemma tracked_inv_step: "tracked_inv s \<Longrightarrow> cancellation_step t s = Some s1 \<Longrightarrow> tracked_inv s1"
  unfolding tracked_inv_def by (metis held_step step_other step_tracked)

lemma pending_inv_step:
  assumes "pending_inv s" "mutex_inv s" "cancellation_step t s = Some s1"
  shows "pending_inv s1"
proof (cases "cn_pc s t = RequestStart \<or> (\<exists>u. u \<noteq> t \<and> cn_pc s u = RequestStored)")
  case True
  then have "\<exists>u. cn_pc s1 u = RequestStored"
  proof (elim disjE exE conjE)
    assume "cn_pc s t = RequestStart"
    then have "cn_pc s1 t = RequestStored" using assms(3) by (auto simp: cancellation_step_def at_pc_def)
    then show ?thesis by blast
  qed (use step_other [OF assms(3)] in metis)
  then show ?thesis by (auto simp: pending_inv_def)
next
  case False
  show ?thesis
  proof (cases "cn_pc s t = RequestStored")
    case True
    then have e: "cn_mutex s = None" "s1 = at_pc t (RequestInterrupts (cn_sockets s)) (s\<lparr>cn_sockets := []\<rparr>)"
      using assms(3) by (auto simp: cancellation_step_def split: if_splits)
    then have "cn_pc s1 u \<noteq> TrackUnseen x" for u x
      using assms(2) by (auto simp: mutex_inv_def at_pc_def)
    then show ?thesis using e by (auto simp: pending_inv_def at_pc_def)
  next
    case other: False
    then have idle: "\<not> cn_requested s \<or> cn_sockets s = [] \<and> (\<forall>u x. cn_pc s u \<noteq> TrackUnseen x)"
      using assms(1) False by (metis pending_inv_def)
    have req: "cn_requested s1 = cn_requested s"
      using assms(3) False by (auto simp: cancellation_step_def at_pc_def split: call_pc.splits list.splits if_splits)
    show ?thesis
    proof (cases "cn_requested s")
      case True
      then have "cn_sockets s1 = []" "cn_pc s1 t \<noteq> TrackUnseen x" for x
        using idle assms(3) other by (auto simp: cancellation_step_def at_pc_def split: call_pc.splits list.splits if_splits)
      then show ?thesis using True idle step_other [OF assms(3)] by (metis pending_inv_def)
    qed (simp add: pending_inv_def req)
  qed
qed

lemma cancelling_inv:
  assumes "cancelling calls s" "\<forall>t. fresh_call (calls t)"
  shows "mutex_inv s \<and> pending_inv s \<and> tracked_inv s"
  using assms(1)
proof (induction rule: cancelling.induct)
  case start
  have "calls t \<noteq> TrackLocked x" "calls t \<noteq> TrackUnseen x" "calls t \<noteq> Tracked x" for t x
    using assms(2) [rule_format, of t] by (auto simp: fresh_call_def)
  then show ?case by (simp add: mutex_inv_def pending_inv_def tracked_inv_def cancellation_start_def)
next
  case (step s t s1)
  then show ?case
    using mutex_inv_step [OF _ step.hyps(2)] pending_inv_step [OF _ _ step.hyps(2)] tracked_inv_step [OF _ step.hyps(2)]
    by simp
qed

text \<open>
  C13: No socket escapes a cancellation. Whatever the interleaving of any number of requests and
  of threads that track their sockets: once the flag is raised, a socket whose tracking has
  returned is interrupted, or a request that is still under way will interrupt it (it has the
  socket in the list it took, or is still to take the list). So when no request is under way any
  more, every tracked socket is interrupted.
\<close>

theorem cancellation_reaches_every_socket:
  assumes "cancelling calls s" "\<forall>t. fresh_call (calls t)" "cn_requested s" "cn_pc s t = Tracked x"
  shows "x \<in> cn_interrupted s \<or>
    (\<exists>u. cn_pc s u = RequestStored \<and> x \<in> set (cn_sockets s) \<or>
         (\<exists>xs. cn_pc s u = RequestInterrupts xs \<and> x \<in> set xs))"
proof -
  have inv: "pending_inv s" "tracked_inv s" using cancelling_inv [OF assms(1,2)] by blast+
  have "held s x" using inv(2) assms(4) by (simp add: tracked_inv_def)
  moreover have "x \<in> set (cn_sockets s) \<Longrightarrow> \<exists>u. cn_pc s u = RequestStored"
    using inv(1) assms(3) by (auto simp: pending_inv_def)
  ultimately show ?thesis by (auto simp: held_def)
qed

text \<open>A request stores the flag between the load and the append of a thread that tracks socket 7.\<close>

definition sample_calls :: "nat \<Rightarrow> nat call_pc" where
  "sample_calls t = (if t = 0 then RequestStart else if t = 1 then TrackStart 7 True else NotTracked)"

fun cancellation_run :: "'tid list \<Rightarrow> ('tid, 'sock) cancellation \<Rightarrow> ('tid, 'sock) cancellation option" where
  "cancellation_run [] s = Some s"
| "cancellation_run (t # ts) s = (case cancellation_step t s of None \<Rightarrow> None | Some s1 \<Rightarrow> cancellation_run ts s1)"

lemma cancellation_run_cancelling: "cancelling calls s \<Longrightarrow> cancellation_run ts s = Some s1 \<Longrightarrow> cancelling calls s1"
  by (induction ts s rule: cancellation_run.induct) (auto split: option.splits intro: cancelling.step)

theorem cancellation_reaches_every_socket_witness:
  "\<exists>s. cancellation_run [1, 1, 0, 1, 0, 0] (cancellation_start sample_calls) = Some s \<and> 7 \<in> cn_interrupted s"
proof -
  obtain s where s: "cancellation_run [1, 1, 0, 1, 0, 0] (cancellation_start sample_calls) = Some s"
    and f: "cn_requested s" "cn_pc s = sample_calls(0 := RequestInterrupts [], 1 := Tracked 7)"
    by (simp add: cancellation_step_def cancellation_start_def at_pc_def sample_calls_def fun_eq_iff)
  have "cancelling sample_calls s" by (rule cancellation_run_cancelling [OF cancelling.start s])
  moreover have "\<forall>t. fresh_call (sample_calls t)" by (simp add: sample_calls_def fresh_call_def)
  moreover have "cn_pc s 1 = Tracked 7" using f(2) by simp
  ultimately have "7 \<in> cn_interrupted s \<or> (\<exists>u. cn_pc s u = RequestStored \<and> 7 \<in> set (cn_sockets s) \<or>
      (\<exists>xs. cn_pc s u = RequestInterrupts xs \<and> 7 \<in> set xs))"
    using f(1) cancellation_reaches_every_socket [of sample_calls s 1 7] by blast
  then have "7 \<in> cn_interrupted s" by (auto simp: f(2) sample_calls_def split: if_splits)
  then show ?thesis using s by blast
qed

section \<open>The wait\<close>

text \<open>
  \<open>wait_with_cancellation\<close>, in milliseconds. \<open>cancelled\<close> loads the flag and \<open>sleep\<close> lets time
  pass in the state; the poll interval is positive when the loop is entered.
\<close>

function wait_loop :: "('s \<Rightarrow> bool) \<Rightarrow> (int \<Rightarrow> 's \<Rightarrow> 's) \<Rightarrow> int \<Rightarrow> int \<Rightarrow> 's \<Rightarrow> bool \<times> 's" where
  "wait_loop cancelled sleep poll remaining s =
     (if 0 < remaining \<and> 0 < poll then
        (if cancelled s then (False, s)
         else let slice = min remaining poll in wait_loop cancelled sleep poll (remaining - slice) (sleep slice s))
      else (\<not> cancelled s, s))"
  by pat_completeness auto
termination
  by (relation "measure (\<lambda>(c, sl, poll, remaining, s). nat remaining)") auto

declare wait_loop.simps [simp del]

definition wait_with_cancellation ::
    "('s \<Rightarrow> bool) \<Rightarrow> (int \<Rightarrow> 's \<Rightarrow> 's) \<Rightarrow> int \<Rightarrow> int \<Rightarrow> 's \<Rightarrow> bool \<times> 's" where
  "wait_with_cancellation cancelled sleep delay poll_interval s =
     (if delay \<le> 0 then (\<not> cancelled s, s)
      else wait_loop cancelled sleep (if poll_interval \<le> 0 then 1 else poll_interval) delay s)"

definition throw_if_cancelled :: "('s \<Rightarrow> bool) \<Rightarrow> string \<Rightarrow> 's \<Rightarrow> unit result" where
  "throw_if_cancelled cancelled msg s = (if cancelled s then Inl msg else Inr ())"

text \<open>The state is the time; the flag is up from \<open>c\<close> on.\<close>

lemma wait_loop_time:
  assumes "wait_loop (\<lambda>t. c \<le> t) (\<lambda>d t. t + d) poll remaining t0 = (r, t1)" "0 \<le> remaining" "0 < poll"
  shows "r = (t0 + remaining < c) \<and> (r \<longrightarrow> t1 = t0 + remaining) \<and> t0 \<le> t1 \<and> t1 \<le> t0 + remaining \<and>
    (t0 < t1 \<longrightarrow> t1 < c + poll)"
  using assms
proof (induction "nat remaining" arbitrary: remaining t0 rule: less_induct)
  case less
  show ?case
  proof (cases "0 < remaining \<and> t0 < c")
    case True
    let ?s = "min remaining poll"
    have "wait_loop (\<lambda>t. c \<le> t) (\<lambda>d t. t + d) poll (remaining - ?s) (t0 + ?s) = (r, t1)"
      using less.prems True by (simp add: wait_loop.simps [of _ _ _ remaining] Let_def)
    from less.hyps [OF _ this] have ih: "r = (t0 + remaining < c) \<and> (r \<longrightarrow> t1 = t0 + remaining) \<and>
        t0 + ?s \<le> t1 \<and> t1 \<le> t0 + remaining \<and> (t0 + ?s < t1 \<longrightarrow> t1 < c + poll)"
      using less.prems True by (auto simp: min_def)
    moreover have "?s \<le> poll" by simp
    ultimately show ?thesis using less.prems True by (auto simp: not_less)
  next
    case False
    then show ?thesis using less.prems by (auto simp: wait_loop.simps [of _ _ _ remaining] split: if_splits)
  qed
qed

text \<open>
  The wait before a new attempt. It returns after the whole delay if the flag is not raised by
  then; otherwise it reports the cancellation, and within one poll interval.
\<close>

theorem wait_reacts_within_one_poll:
  assumes "wait_with_cancellation (\<lambda>t. c \<le> t) (\<lambda>d t. t + d) delay poll 0 = (uncancelled, elapsed)" "0 < poll"
  shows "uncancelled = (max 0 delay < c) \<and> (uncancelled \<longrightarrow> elapsed = max 0 delay) \<and>
    0 \<le> elapsed \<and> elapsed \<le> max 0 delay \<and> (0 < elapsed \<longrightarrow> elapsed < c + poll)"
proof (cases "0 < delay")
  case True
  then show ?thesis using assms wait_loop_time [of c poll delay 0 uncancelled elapsed]
    by (simp add: wait_with_cancellation_def)
next
  case False
  then show ?thesis using assms by (auto simp: wait_with_cancellation_def)
qed

theorem wait_reacts_within_one_poll_witness:
  "wait_with_cancellation (\<lambda>t. 60 \<le> t) (\<lambda>d t. t + d) 1000 50 0 = (False, 100) \<and> (100::int) < 60 + 50"
proof -
  have w: "wait_with_cancellation (\<lambda>t. 60 \<le> t) (\<lambda>d t. t + d) 1000 50 (0::int) = (False, 100)" by code_simp
  from wait_reacts_within_one_poll [OF w] show ?thesis using w by simp
qed

end
