(* ===== verification/Retry.thy ===== *)
theory Retry
  imports Transfer_Cancel Receive_Paths Text_Util Progress Transfer_Frames "HOL-Library.Sublist"
begin

text \<open>
  Transfers that are tried again: \<open>src/transfer/transfer_retry.cpp\<close> says which errors are worth it,
  \<open>run_with_auto_reconnect\<close> of \<open>src/transfer/transfer.cpp\<close> is the loop over the attempts. One
  attempt, the flag, the passing of time and the reporter are parameters over a state.
\<close>

section \<open>Which errors are retried\<close>

definition contains_any :: "string \<Rightarrow> string list \<Rightarrow> bool" where
  "contains_any txt needles \<longleftrightarrow> list_ex (\<lambda>needle. sublist needle txt) needles"

definition final_error_texts :: "string list" where
  "final_error_texts =
     [''bad_password'', ''bad password'', ''invalid_hello'', ''invalid hello'', ''rendezvous peer'', ''pairing code'',
      ''control message field'', ''invalid relay'', ''connection count exceeds maximum'', ''not a file or directory'',
      ''permission denied'', ''failed to open input file'', ''failed to open output file'',
      ''failed to open received file'', ''failed to write received file'', ''failed to flush received file'',
      ''failed to close received file'', ''failed to create symlink'', ''failed to finalize file'',
      ''write failed during mux receive'', ''integrity check failed'', ''sha256 mismatch'', ''hash mismatch'',
      ''invalid resume ack'', ''received more data than declared'', ''received file size mismatch'',
      ''failed to inspect free space for receive directory'', ''not enough free space to receive files'',
      ''path traversal'', ''unsafe symlink'', ''transfer manifest'', ''receive plan'', ''file header'']"

definition retryable_error_texts :: "string list" where
  "retryable_error_texts =
     [''connection reset'', ''connection refused'', ''connection timed'', ''connection timeout'',
      ''connection aborted'', ''connection closed'', ''connection lost'', ''connection interrupted'',
      ''connection attempt failed'', ''connection was aborted'', ''forcibly closed'', ''actively refused'',
      ''operation aborted'', ''operation has been aborted'', ''network name is no longer available'',
      ''broken pipe'', ''timed out'', ''timeout'', ''ended unexpectedly'', ''closed early'',
      ''failed to connect'', ''connect failed'', ''relay did not'', ''relay route error'', ''recv failed'',
      ''send failed'', ''data channel closed'', ''mux receive failed: data channel closed early'',
      ''expected mux chunk end'', ''transfer stream ended unexpectedly'', ''expected transfer ack'', ''interrupted'']"

definition is_retryable_transfer_error_message :: "string \<Rightarrow> bool" where
  "is_retryable_transfer_error_message message =
     (let txt = lowercase_ascii message in
      if contains_any txt final_error_texts then False else contains_any txt retryable_error_texts)"

section \<open>The attempts\<close>

definition normalize_connection_count :: "int \<Rightarrow> int result" where
  "normalize_connection_count connections =
     (if connections < 1 then Inr 1
      else if int kMaxMuxConnections < connections
        then Inl (''connection count exceeds maximum '' @ int_text (int kMaxMuxConnections))
      else Inr connections)"

record reconnect_config =
  rc_code :: string
  rc_auto_reconnect :: bool
  rc_reconnect_attempts :: int
  rc_reconnect_delay :: int

record 's attempt_env =
  at_run :: "string \<Rightarrow> 's \<Rightarrow> int result \<times> 's"
  at_cancelled :: "'s \<Rightarrow> bool"
  at_sleep :: "int \<Rightarrow> 's \<Rightarrow> 's"
  at_report :: "progress_event \<Rightarrow> 's \<Rightarrow> 's"

definition canceled_text :: string where "canceled_text = ''transfer canceled''"

text \<open>The \<open>try\<close> block.\<close>

definition one_attempt :: "'s attempt_env \<Rightarrow> string \<Rightarrow> 's \<Rightarrow> int result \<times> 's" where
  "one_attempt env code s =
     (case throw_if_cancelled (at_cancelled env) canceled_text s of
        Inl e \<Rightarrow> (Inl e, s)
      | Inr _ \<Rightarrow> at_run env code s)"

text \<open>From the reports of a retry to the end of the pause before it.\<close>

definition before_retry :: "'s attempt_env \<Rightarrow> int \<Rightarrow> int \<Rightarrow> int \<Rightarrow> string \<Rightarrow> 's \<Rightarrow> bool \<times> 's" where
  "before_retry env max_attempts delay attempt e s =
     wait_with_cancellation (at_cancelled env) (at_sleep env) delay 50
       (at_report env (TransferRetryDelay (attempt + 1) max_attempts delay)
         (at_report env (TransferRetry (attempt + 1) max_attempts e) s))"

function attempts :: "'s attempt_env \<Rightarrow> string \<Rightarrow> int \<Rightarrow> int \<Rightarrow> int \<Rightarrow> 's \<Rightarrow> int result \<times> 's" where
  "attempts env code max_attempts delay attempt s =
     (case one_attempt env code s of
        (Inr v, s1) \<Rightarrow> (Inr v, s1)
      | (Inl e, s1) \<Rightarrow>
          if at_cancelled env s1 then (Inl canceled_text, s1)
          else if max_attempts \<le> attempt \<or> \<not> is_retryable_transfer_error_message e then (Inl e, s1)
          else (case before_retry env max_attempts delay attempt e s1 of
              (waited, s2) \<Rightarrow>
                if \<not> waited \<and> at_cancelled env s2 then (Inl canceled_text, s2)
                else attempts env code max_attempts delay (attempt + 1) s2))"
  by pat_completeness auto
termination
  by (relation "measure (\<lambda>(env, code, max_attempts, delay, attempt, s). nat (max_attempts - attempt))") auto

declare attempts.simps [simp del]

definition max_attempts_of :: "reconnect_config \<Rightarrow> int" where
  "max_attempts_of config = (if rc_auto_reconnect config then max 1 (rc_reconnect_attempts config) else 1)"

definition reconnect_code :: "string \<Rightarrow> reconnect_config \<Rightarrow> bool \<Rightarrow> string" where
  "reconnect_code random config generate_code =
     (if generate_code \<and> rc_code config = [] then random else normalize_pairing_code (rc_code config))"

text \<open>\<open>random\<close>: what \<open>random_code(3)\<close> would give.\<close>

definition run_with_auto_reconnect ::
    "'s attempt_env \<Rightarrow> string \<Rightarrow> reconnect_config \<Rightarrow> bool \<Rightarrow> 's \<Rightarrow> int result \<times> 's" where
  "run_with_auto_reconnect env random config generate_code s =
     (let code = reconnect_code random config generate_code in
      case validate_pairing_code_format code True of
        Some e \<Rightarrow> (Inl e, s)
      | None \<Rightarrow> attempts env code (max_attempts_of config) (rc_reconnect_delay config) 1 s)"

section \<open>Final errors\<close>

lemma lowercase_append: "lowercase_ascii (a @ b) = lowercase_ascii a @ lowercase_ascii b"
  by (simp add: lowercase_ascii_def)

lemma not_retryable:
  assumes "n \<in> set final_error_texts" "prefix n (lowercase_ascii start)"
  shows "\<not> is_retryable_transfer_error_message (start @ rest)"
proof -
  have "sublist n (lowercase_ascii (start @ rest))"
    using assms(2) by (auto simp: lowercase_append prefix_def intro: sublist_appendI [of "[]", simplified])
  then show ?thesis using assms(1)
    by (auto simp: is_retryable_transfer_error_message_def contains_any_def list_ex_iff Let_def)
qed

lemma sublist_hit: "sublist n (lowercase_ascii a) \<Longrightarrow> sublist n (lowercase_ascii (a @ b))"
  by (metis lowercase_append sublist_appendI append_Nil sublist_order.order_trans)

text \<open>The name of a file is part of some texts, and the search looks at it too.\<close>

lemma name_decides_retry:
  "is_retryable_transfer_error_message ''source file changed since manifest: timeout.log''"
  "\<not> is_retryable_transfer_error_message ''source file changed since manifest: notes.txt''"
  by code_simp+

section \<open>The attempts end\<close>

lemma wait_loop_keeps: "(\<And>d s. f (sleep d s) = f s) \<Longrightarrow> f (snd (wait_loop cancelled sleep poll remaining s)) = f s"
  by (induction cancelled sleep poll remaining s rule: wait_loop.induct)
    (subst wait_loop.simps, auto simp: Let_def simp del: min_def)

lemma before_retry_keeps:
  assumes "\<And>d s. f (at_sleep env d s) = f s" "\<And>e s. f (at_report env e s) = f s"
  shows "f (snd (before_retry env m d k e s)) = f s"
  using wait_loop_keeps [of f "at_sleep env"] assms by (simp add: before_retry_def wait_with_cancellation_def)

lemma attempts_bounded:
  assumes "\<And>code s. cnt (snd (at_run env code s)) \<le> Suc (cnt s)"
    and "\<And>d s. cnt (at_sleep env d s) = cnt s" "\<And>e s. cnt (at_report env e s) = cnt s"
  shows "cnt (snd (attempts env code m delay k s)) \<le> cnt s + Suc (nat (m - k))"
  using assms
proof (induction env code m delay k s rule: attempts.induct)
  case (1 env code m delay k s)
  obtain r s1 where o: "one_attempt env code s = (r, s1)" by fastforce
  then have c1: "cnt s1 \<le> Suc (cnt s)"
    using "1.prems"(1) [of code s] by (auto simp: one_attempt_def throw_if_cancelled_def split: if_splits)
  show ?case
  proof (cases "isl r \<and> \<not> at_cancelled env s1 \<and> \<not> (m \<le> k \<or> \<not> is_retryable_transfer_error_message (projl r))")
    case True
    then obtain e where e: "r = Inl e" by (auto simp: isl_def)
    obtain waited s2 where b: "before_retry env m delay k e s1 = (waited, s2)" by fastforce
    then have c2: "cnt s2 = cnt s1" using before_retry_keeps [of cnt, OF "1.prems"(2,3)] by (metis snd_conv)
    show ?thesis
    proof (cases "\<not> waited \<and> at_cancelled env s2")
      case False
      have "cnt (snd (attempts env code m delay (k + 1) s2)) \<le> cnt s2 + Suc (nat (m - (k + 1)))"
        using "1.IH" [OF o [symmetric] e _ _ b [symmetric] False] True e "1.prems" by simp
      moreover have "attempts env code m delay k s = attempts env code m delay (k + 1) s2"
        using o e True b False by (subst attempts.simps) auto
      ultimately show ?thesis using c1 c2 True by auto
    qed (use o e True b c1 c2 in \<open>simp add: attempts.simps [of _ _ _ _ k]\<close>)
  next
    case False
    then show ?thesis using o c1 by (cases r) (auto simp: attempts.simps [of _ _ _ _ k])
  qed
qed

text \<open>
  A transfer makes no more attempts than configured, one at least if reconnecting is on and exactly
  one otherwise: whatever counts the attempts grows by no more than that.
\<close>

theorem reconnect_attempts_bounded:
  assumes "\<And>code s. cnt (snd (at_run env code s)) \<le> Suc (cnt s)"
    and "\<And>d s. cnt (at_sleep env d s) = cnt s" "\<And>e s. cnt (at_report env e s) = cnt s"
  shows "cnt (snd (run_with_auto_reconnect env random config gen s)) \<le>
    cnt s + (if rc_auto_reconnect config then nat (max 1 (rc_reconnect_attempts config)) else 1)"
proof -
  have "Suc (nat (max 1 n - 1)) = nat (max 1 n)" for n :: int by auto
  then show ?thesis
    using attempts_bounded [of cnt env, OF assms, of "reconnect_code random config gen" "max_attempts_of config" _ 1 s]
    by (auto simp: run_with_auto_reconnect_def Let_def max_attempts_of_def simp flip: add_Suc_right split: option.split)
qed

lemma wait_not_cancelled: "(\<And>s. \<not> cancelled s) \<Longrightarrow> fst (wait_loop cancelled sleep poll remaining s)"
  by (induction cancelled sleep poll remaining s rule: wait_loop.induct) (subst wait_loop.simps, simp add: Let_def)

lemma before_retry_not_cancelled: "(\<And>s. \<not> at_cancelled env s) \<Longrightarrow> fst (before_retry env m d k e s)"
  using wait_not_cancelled [of "at_cancelled env"] by (simp add: before_retry_def wait_with_cancellation_def)

lemma attempts_succeed:
  assumes "\<And>s. \<not> at_cancelled env s"
    and "\<And>s. left s = 0 \<Longrightarrow> \<exists>v. fst (at_run env code s) = Inr v"
    and "\<And>s n. left s = Suc n \<Longrightarrow> left (snd (at_run env code s)) = n \<and>
        (\<exists>e. fst (at_run env code s) = Inl e \<and> is_retryable_transfer_error_message e)"
    and "\<And>d s. left (at_sleep env d s) = left s" "\<And>e s. left (at_report env e s) = left s"
    and "int (left s) \<le> m - k"
  shows "\<exists>v. fst (attempts env code m delay k s) = Inr v"
  using assms(6)
proof (induction "left s" arbitrary: s k)
  case 0
  then obtain v s1 where "at_run env code s = (Inr v, s1)" using assms(2) by (metis prod.collapse)
  then show ?case using assms(1) by (simp add: attempts.simps [of _ _ _ _ k] one_attempt_def throw_if_cancelled_def)
next
  case (Suc n)
  then obtain e s1 where e: "at_run env code s = (Inl e, s1)" "left s1 = n" "is_retryable_transfer_error_message e"
    using assms(3) [of s n] by (metis prod.collapse)
  obtain waited s2 where b: "before_retry env m delay k e s1 = (waited, s2)" by fastforce
  then have "waited" "left s2 = n"
    using before_retry_not_cancelled [of env, OF assms(1)] before_retry_keeps [of left env, OF assms(4,5)] e(2)
    by (metis fst_conv, metis snd_conv)
  moreover have "attempts env code m delay k s = attempts env code m delay (k + 1) s2"
    using e b assms(1) Suc.prems Suc.hyps(2) calculation(1)
    by (simp add: attempts.simps [of _ _ _ _ k] one_attempt_def throw_if_cancelled_def)
  ultimately show ?case using Suc.hyps(1) [of s2 "k + 1"] Suc.prems Suc.hyps(2) by simp
qed

text \<open>
  C14: Lost connections are overcome: when fewer attempts fail than are configured, each for a retryable
  reason, and nobody cancels, the transfer succeeds.
\<close>

theorem reconnect_overcomes_lost_connections:
  assumes "\<And>s. \<not> at_cancelled env s"
    and "\<And>s. left s = 0 \<Longrightarrow> \<exists>v. fst (at_run env (reconnect_code random config gen) s) = Inr v"
    and "\<And>s n. left s = Suc n \<Longrightarrow> left (snd (at_run env (reconnect_code random config gen) s)) = n \<and>
        (\<exists>e. fst (at_run env (reconnect_code random config gen) s) = Inl e \<and> is_retryable_transfer_error_message e)"
    and "\<And>d s. left (at_sleep env d s) = left s" "\<And>e s. left (at_report env e s) = left s"
    and "validate_pairing_code_format (reconnect_code random config gen) True = None"
    and "rc_auto_reconnect config" "int (left s) < max 1 (rc_reconnect_attempts config)"
  shows "\<exists>v. fst (run_with_auto_reconnect env random config gen s) = Inr v"
  using attempts_succeed [of env left _ s _ 1, OF assms(1-5)] assms(6-8)
  by (simp add: run_with_auto_reconnect_def Let_def max_attempts_of_def)

section \<open>A connection that is lost twice\<close>

definition flaky_env :: "nat attempt_env" where
  "flaky_env = \<lparr>at_run = (\<lambda>_ n. if n = 0 then (Inr 0, 0) else (Inl ''connection reset by peer'', n - 1)),
     at_cancelled = (\<lambda>_. False), at_sleep = (\<lambda>_ n. n), at_report = (\<lambda>_ n. n)\<rparr>"

definition three_attempts :: reconnect_config where
  "three_attempts = \<lparr>rc_code = ''7-apple'', rc_auto_reconnect = True, rc_reconnect_attempts = 3, rc_reconnect_delay = 0\<rparr>"

lemma three_attempts_code: "validate_pairing_code_format (reconnect_code [] three_attempts True) True = None"
  by code_simp

lemma flaky_retryable: "is_retryable_transfer_error_message ''connection reset by peer''"
  by code_simp

theorem reconnect_overcomes_lost_connections_witness:
  "\<exists>v. fst (run_with_auto_reconnect flaky_env [] three_attempts True 2) = Inr v"
  by (rule reconnect_overcomes_lost_connections [of _ "\<lambda>n. n"])
    (use three_attempts_code flaky_retryable in \<open>auto simp: flaky_env_def three_attempts_def\<close>)

text \<open>The attempts are counted, and every one fails.\<close>

definition counting_env :: "nat attempt_env" where
  "counting_env = \<lparr>at_run = (\<lambda>_ n. (Inl ''connection reset by peer'', n + 1)),
     at_cancelled = (\<lambda>_. False), at_sleep = (\<lambda>_ n. n), at_report = (\<lambda>_ n. n)\<rparr>"

theorem reconnect_attempts_bounded_witness:
  "run_with_auto_reconnect counting_env [] three_attempts True 0 = (Inl ''connection reset by peer'', 3) \<and>
   snd (run_with_auto_reconnect counting_env [] three_attempts True 0) \<le> 3"
proof -
  have "run_with_auto_reconnect counting_env [] three_attempts True 0 = (Inl ''connection reset by peer'', 3)" by code_simp
  moreover have "snd (run_with_auto_reconnect counting_env [] three_attempts True 0) \<le> 0 + 3"
    using reconnect_attempts_bounded [of "\<lambda>n. n" counting_env "[]" three_attempts True 0]
    by (simp add: counting_env_def three_attempts_def)
  ultimately show ?thesis by simp
qed

section \<open>Damaged files\<close>

text \<open>
  A file that arrived damaged is not transferred again by itself: no error of the verification of
  a received file, once the declared number of bytes came, is retryable, whatever the file's name.
\<close>

theorem damaged_file_is_final:
  assumes "verify_received_digest part relative received declared expected actual fs = (Inl e, fs')" "received = declared"
    and "at_run env (reconnect_code random config gen) s = (Inl e, s1)" "\<not> at_cancelled env s" "\<not> at_cancelled env s1"
    and "validate_pairing_code_format (reconnect_code random config gen) True = None"
  shows "run_with_auto_reconnect env random config gen s = (Inl e, s1)"
proof -
  have m: "\<not> is_retryable_transfer_error_message (''received file size mismatch for '' @ r)" for r
    by (rule not_retryable [of "''received file size mismatch''"]) (code_simp, code_simp)
  have i: "\<not> is_retryable_transfer_error_message (''integrity check failed for '' @ r)" for r
    by (rule not_retryable [of "''integrity check failed''"]) (code_simp, code_simp)
  have "\<not> is_retryable_transfer_error_message e"
    using assms(1,2) m i unfolding verify_received_digest_def
    by (simp split: sum.splits if_splits del: append_Cons append.simps) blast+
  then show ?thesis
    using assms(3-6) by (simp add: run_with_auto_reconnect_def Let_def attempts.simps one_attempt_def throw_if_cancelled_def)
qed


text \<open>Stored are two bytes, their digest is not the expected one.\<close>

definition damaged_env :: "nat attempt_env" where
  "damaged_env = counting_env\<lparr>at_run :=
     (\<lambda>_ n. (Inl (case fst (verify_received_digest [''out'', ''p.kikopart''] ''p'' 2 2 ''aa'' ''bb'' sample_fs) of Inl e \<Rightarrow> e | Inr _ \<Rightarrow> []), n + 1))\<rparr>"

theorem damaged_file_is_final_witness:
  "\<exists>e. run_with_auto_reconnect damaged_env [] three_attempts True 0 = (Inl e, 1)"
proof -
  obtain e where e: "fst (verify_received_digest [''out'', ''p.kikopart''] ''p'' 2 2 ''aa'' ''bb'' sample_fs) = Inl e"
    by (cases "fst (verify_received_digest [''out'', ''p.kikopart''] ''p'' 2 2 ''aa'' ''bb'' sample_fs)")
      (auto simp: verify_received_digest_def split: sum.splits if_splits)
  then obtain fs' where v: "verify_received_digest [''out'', ''p.kikopart''] ''p'' 2 2 ''aa'' ''bb'' sample_fs = (Inl e, fs')"
    by (metis prod.collapse)
  show ?thesis
    using damaged_file_is_final [OF v refl, of damaged_env "[]" three_attempts True 0 1] three_attempts_code v
    by (auto simp: damaged_env_def counting_env_def)
qed

end
