(* ===== verification/Sampled_Hash.thy ===== *)
theory Sampled_Hash
  imports Transfer_Resume
begin

text \<open>
  The sampled hash of \<open>src/core/imohash.cpp\<close>: MurmurHash3 (x64, 128 bits) over the head, the tail and
  a few windows of a file. \<open>imohash_content\<close> is the hash of a file's bytes, which the transfer takes
  as a parameter elsewhere.
\<close>

unbundle bit_operations_syntax

section \<open>MurmurHash3\<close>

definition rotl64 :: "u64 \<Rightarrow> nat \<Rightarrow> u64" where
  "rotl64 x r = push_bit r x OR drop_bit (64 - r) x"

definition c1 :: u64 where "c1 = 0x87c37b91114253d5"
definition c2 :: u64 where "c2 = 0x4cf5ad432745937f"

text \<open>Little-endian bytes: \<open>memcpy\<close> into a word, and the cases of the tail.\<close>

fun le_word :: "bytes \<Rightarrow> u64" where
  "le_word [] = 0"
| "le_word (b # bs) = ucast b XOR push_bit 8 (le_word bs)"

definition mix_k1 :: "u64 \<Rightarrow> u64" where "mix_k1 k = rotl64 (k * c1) 31 * c2"
definition mix_k2 :: "u64 \<Rightarrow> u64" where "mix_k2 k = rotl64 (k * c2) 33 * c1"

definition murmur_block :: "u64 \<times> u64 \<Rightarrow> bytes \<Rightarrow> u64 \<times> u64" where
  "murmur_block h block =
     (let (h1, h2) = h;
          h1 = (rotl64 (h1 XOR mix_k1 (le_word (take 8 block))) 27 + h2) * 5 + 0x52dce729;
          h2 = (rotl64 (h2 XOR mix_k2 (le_word (drop 8 block))) 31 + h1) * 5 + 0x38495ab5
      in (h1, h2))"

function murmur_blocks :: "u64 \<times> u64 \<Rightarrow> bytes \<Rightarrow> (u64 \<times> u64) \<times> bytes" where
  "murmur_blocks h data =
     (if length data < 16 then (h, data) else murmur_blocks (murmur_block h (take 16 data)) (drop 16 data))"
  by pat_completeness auto
termination
  by (relation "measure (\<lambda>(h, data). length data)") auto

declare murmur_blocks.simps [simp del]

definition murmur_tail :: "u64 \<times> u64 \<Rightarrow> bytes \<Rightarrow> u64 \<times> u64" where
  "murmur_tail h tail =
     (let (h1, h2) = h;
          h2 = (if 9 \<le> length tail then h2 XOR mix_k2 (le_word (drop 8 tail)) else h2);
          h1 = (if 1 \<le> length tail then h1 XOR mix_k1 (le_word (take 8 tail)) else h1)
      in (h1, h2))"

definition fmix64 :: "u64 \<Rightarrow> u64" where
  "fmix64 h =
     (let h = h XOR drop_bit 33 h; h = h * 0xff51afd7ed558ccd;
          h = h XOR drop_bit 33 h; h = h * 0xc4ceb9fe1a85ec53
      in h XOR drop_bit 33 h)"

definition murmur3_x64_128 :: "bytes \<Rightarrow> u32 \<Rightarrow> u64 \<times> u64" where
  "murmur3_x64_128 data seed =
     (let (h, tail) = murmur_blocks (ucast seed, ucast seed) data;
          (h1, h2) = murmur_tail h tail;
          h1 = h1 XOR of_nat (length data); h2 = h2 XOR of_nat (length data);
          h1 = h1 + h2; h2 = h2 + h1;
          h1 = fmix64 h1; h2 = fmix64 h2;
          h1 = h1 + h2; h2 = h2 + h1
      in (h1, h2))"

section \<open>Sampling\<close>

definition kChunk :: nat where "kChunk = 128 * 1024"
definition kSampleWindow :: nat where "kSampleWindow = 16 * 16 * 8 * 1024"

text \<open>\<open>None\<close>: fewer bytes than asked for.\<close>

definition read_at :: "bytes \<Rightarrow> nat \<Rightarrow> bytes option" where
  "read_at content offset =
     (let chunk = take kChunk (drop offset content) in if length chunk = kChunk then Some chunk else None)"

function sample_windows :: "bytes \<Rightarrow> nat \<Rightarrow> nat \<Rightarrow> bytes \<Rightarrow> bytes" where
  "sample_windows content windows w samples =
     (if w < windows \<and> length samples < kSampleWindow then
        (let off = w * kSampleWindow + kSampleWindow div 2 in
         if length content < off + kChunk then samples
         else case read_at content off of
             None \<Rightarrow> samples
           | Some chunk \<Rightarrow> sample_windows content windows (w + 1) (samples @ chunk))
      else samples)"
  by pat_completeness auto
termination
  by (relation "measure (\<lambda>(content, windows, w, samples). windows - w)") auto

declare sample_windows.simps [simp del]

definition imohash_samples :: "bytes \<Rightarrow> bytes result" where
  "imohash_samples content =
     (let size' = length content in
      if size' \<le> kChunk * 2 then Inr content
      else case read_at content 0 of
          None \<Rightarrow> Inl ''imohash: read head failed''
        | Some head \<Rightarrow>
            (case read_at content (size' - kChunk) of
               None \<Rightarrow> Inl ''imohash: read tail failed''
             | Some tail \<Rightarrow>
                 Inr (sample_windows content (max 1 ((size' - kChunk) div kSampleWindow)) 0 (head @ tail))))"

text \<open>Sixteen lower-case hexadecimal digits.\<close>

definition hex16 :: "u64 \<Rightarrow> string" where
  "hex16 w = map (\<lambda>i. hex_digit (unat (drop_bit (4 * (15 - i)) w AND 15))) [0..<16]"

definition imohash_content :: "bytes \<Rightarrow> string result" where
  "imohash_content content =
     andthen (imohash_samples content) (\<lambda>samples.
       let (h1, h2) = murmur3_x64_128 samples 0 in Inr (hex16 h1 @ hex16 h2))"

definition imohash_hex :: "file_system \<Rightarrow> path \<Rightarrow> string result" where
  "imohash_hex fs p =
     (case status fs p of
        Inr (RegularFile content) \<Rightarrow> imohash_content content
      | _ \<Rightarrow> Inl (''imohash: failed to open '' @ path_string p))"

section \<open>What the samples leave out\<close>

text \<open>A file that is sampled only at its two ends: too large to be read whole, too small for a window.\<close>

definition ends_only :: "bytes \<Rightarrow> bool" where
  "ends_only content \<longleftrightarrow> kChunk * 2 < length content \<and> length content < kSampleWindow div 2 + kChunk"

definition both_ends :: "bytes \<Rightarrow> bytes" where
  "both_ends content = take kChunk content @ drop (length content - kChunk) content"

lemma ends_only_samples:
  assumes "ends_only content"
  shows "imohash_samples content = Inr (both_ends content)"
proof -
  have n: "kChunk * 2 < length content" "length content < kSampleWindow div 2 + kChunk" "0 < kChunk" "kChunk \<le> kSampleWindow div 2"
    using assms by (simp_all add: ends_only_def kChunk_def kSampleWindow_def)
  have "(length content - kChunk) div kSampleWindow = 0" using n by (simp add: kSampleWindow_def)
  moreover have "sample_windows content 1 0 samples = samples" for samples
    using n by (subst sample_windows.simps) (simp add: Let_def)
  moreover have "read_at content 0 = Some (take kChunk content)"
    "read_at content (length content - kChunk) = Some (drop (length content - kChunk) content)"
    using n by (simp_all add: read_at_def Let_def)
  ultimately show ?thesis using n by (simp add: imohash_samples_def both_ends_def)
qed

lemma hex16_length [simp]: "length (hex16 w) = 16"
  by (simp add: hex16_def)

lemma imohash_length: "imohash_content content = Inr h \<Longrightarrow> length h = 32"
  by (cases "murmur3_x64_128 (projr (imohash_samples content)) 0") (auto simp: imohash_content_def andthen_Inr_iff Let_def)

text \<open>
  The sampled hash of a file between 256 KiB and 1152 KiB is decided by its first and last 128 KiB:
  neither its other bytes nor its length take part.
\<close>

lemma imohash_sees_the_ends_only:
  assumes "ends_only a" "ends_only b" "both_ends a = both_ends b"
  shows "imohash_content a = imohash_content b"
  using assms by (simp add: imohash_content_def ends_only_samples)

definition zero_file :: "nat \<Rightarrow> bytes" where
  "zero_file n = replicate n 0"

lemma zero_file_length [simp]: "length (zero_file n) = n"
  by (simp add: zero_file_def)

lemma zeros_ends: "kChunk \<le> n \<Longrightarrow> both_ends (zero_file n) = zero_file (2 * kChunk)"
  by (simp add: zero_file_def both_ends_def min_def mult_2 flip: replicate_add)

lemma zero_files_share_hash:
  "length (zero_file 300000) \<noteq> length (zero_file 400000) \<and>
   imohash_content (zero_file 300000) = imohash_content (zero_file 400000)"
proof -
  have "imohash_content (zero_file 300000) = imohash_content (zero_file 400000)"
    by (rule imohash_sees_the_ends_only) (simp_all add: ends_only_def kChunk_def kSampleWindow_def zeros_ends)
  then show ?thesis by simp
qed

section \<open>Duplicates\<close>

text \<open>
  C15: What this means for a receiver: a stored file of another length and with other bytes, whose two ends are those of the
  sent file, is taken for a duplicate when the sender agrees, and stays as it is.
\<close>

theorem other_file_kept_as_duplicate:
  assumes "ends_only stored" "ends_only sent" "both_ends stored = both_ends sent"
    and "imohash_content sent = Inr (msg_get header ''imohash'' [])"
    and "symlink_status (xi_fs io) current = Inr (RegularFile stored)"
    and "send_resume dump declared [] True io = (Inr (), io1)"
    and "recv_resume_ack parse declared declared relative io1 = (Inr declared, io2)"
    and "apply_file_metadata current header io2 = (Inr (), io3)"
  shows "\<exists>io'. try_skip_existing_duplicate dump parse imohash_content header current relative declared io = (Inr True, io') \<and>
    symlink_status (xi_fs io') current = Inr (RegularFile stored)"
proof -
  have "imohash_content stored = Inr (msg_get header ''imohash'' [])"
    using imohash_sees_the_ends_only [OF assms(1-3)] assms(4) by simp
  moreover from imohash_length [OF this] have "msg_get header ''imohash'' [] \<noteq> []" by auto
  moreover have keeps: "xkeeps same_fs (send_resume dump declared [] True)"
    "xkeeps same_fs (recv_resume_ack parse declared declared relative)" "xkeeps same_fs (apply_file_metadata current header)"
    unfolding send_resume_def recv_resume_ack_def by (intro same_fs_intros)+
  have "xi_fs io3 = xi_fs io"
    using assms(6-8) keeps unfolding xkeeps_def same_fs_def by (metis snd_conv)
  ultimately show ?thesis
    using assms(5-8)
    by (simp add: try_skip_existing_duplicate_def Let_def xbind_def xthen_def xget_def emit_def xret_def)
qed

definition zeros_header :: message where
  "zeros_header = \<lparr>mtype = ''file'',
     mfields = [(''imohash'', projr (imohash_content (zero_file 400000))), (''path'', ''x'')]\<rparr>"

definition zeros_io :: transfer_io where
  "zeros_io = empty_io\<lparr>
     xi_fs := \<lparr>nodes = [[''x''] \<mapsto> RegularFile (zero_file 300000)], cwd = []\<rparr>,
     xi_arriving := [Inr (Some \<lparr>tf_tag = ResumeAck, tf_payload = bytes_of ''doc''\<rparr>)]\<rparr>"

lemma zeros_status: "symlink_status (xi_fs zeros_io) [''x''] = Inr (RegularFile (zero_file 300000))"
  by (simp add: zeros_io_def symlink_status_def node_at_def locate_def resolve_plain is_absolute_def slash_def)

lemma zeros_ack:
  "ack_of (one_parse (message_object (ack_message 400000))) 400000 400000 ''x''
     (Some \<lparr>tf_tag = ResumeAck, tf_payload = bytes_of ''doc''\<rparr>) = Inr 400000"
proof -
  let ?m = "ack_message 400000"
  have "encode_message (one_dump (message_object ?m)) ?m = Inr ''doc''"
    by (simp add: encode_message_def one_dump_def)
  from decode_encode_message [OF one_inverse ack_message_ok this]
  have "decode_message (one_parse (message_object ?m)) ''doc'' = Inr ?m" .
  moreover have "msg_get_u64 ?m ''offset'' 0 = Inr 400000"
    by (rule msg_get_u64_dec) (simp add: ack_message_def word_text_def)
  ultimately show ?thesis by (simp add: ack_of_def frame_message_def andthen_def)
qed

lemma zeros_send:
  "\<exists>io1. send_resume (\<lambda>_. Inr ''doc'') n [] True zeros_io = (Inr (), io1) \<and> xi_arriving io1 = xi_arriving zeros_io"
  by (simp add: send_resume_def xsend_message_def xsend_def Let_def zeros_io_def empty_io_def encode_message_def xlift_def xbind_def)

lemma zeros_metadata: "\<exists>io3. apply_file_metadata [''x''] zeros_header io2 = (Inr (), io3)"
  by (simp add: apply_file_metadata_def apply_metadata_def zeros_header_def msg_get_u64_absent xthen_def xbind_def xlift_def)

lemma zeros_hash: "imohash_content (zero_file 400000) = Inr (msg_get zeros_header ''imohash'' [])"
proof -
  have "ends_only (zero_file 400000)" by (simp add: ends_only_def kChunk_def kSampleWindow_def)
  then show ?thesis
    using ends_only_samples [of "zero_file 400000"]
    by (simp add: zeros_header_def msg_get_def imohash_content_def split: prod.split)
qed

theorem other_file_kept_as_duplicate_witness:
  "\<exists>io'. try_skip_existing_duplicate (\<lambda>_. Inr ''doc'') (one_parse (message_object (ack_message 400000)))
      imohash_content zeros_header [''x''] ''x'' 400000 zeros_io = (Inr True, io') \<and>
    symlink_status (xi_fs io') [''x''] = Inr (RegularFile (zero_file 300000))"
proof -
  let ?parse = "one_parse (message_object (ack_message 400000))"
  have e: "ends_only (zero_file 300000)" "ends_only (zero_file 400000)"
    "both_ends (zero_file 300000) = both_ends (zero_file 400000)"
    by (simp_all add: ends_only_def kChunk_def kSampleWindow_def zeros_ends)
  obtain io1 where r: "send_resume (\<lambda>_. Inr ''doc'') 400000 [] True zeros_io = (Inr (), io1)"
    "xi_arriving io1 = xi_arriving zeros_io" using zeros_send by blast
  have "xi_arriving zeros_io = [Inr (Some \<lparr>tf_tag = ResumeAck, tf_payload = bytes_of ''doc''\<rparr>)]"
    by (simp add: zeros_io_def)
  then obtain io2 where a: "recv_resume_ack ?parse 400000 400000 ''x'' io1 = (Inr 400000, io2)"
    using r(2) zeros_ack by (simp add: recv_resume_ack_def xrecv_def xbind_def xlift_def)
  obtain io3 where m: "apply_file_metadata [''x''] zeros_header io2 = (Inr (), io3)"
    using zeros_metadata by blast
  show ?thesis by (rule other_file_kept_as_duplicate [OF e zeros_hash zeros_status r(1) a m])
qed

end
