(* ===== verification/Mux_Send.thy ===== *)
theory Mux_Send
  imports Complex_Main Mux_Receive "HOL-Library.Multiset"
begin

text \<open>
  The sending side of a parallel transfer: \<open>src/transfer/mux_send_scheduler.cpp\<close> and the payload
  loop of \<open>send_files_mux\<close> in \<open>src/transfer/mux_transfer.cpp\<close>. The producer and one worker per
  channel share the scheduler's state under one mutex; a step is a section between two locks, and
  the steps are interleaved in every order. Times are inputs of the steps; the moving average
  of \<open>double\<close>s is a rational number.
\<close>

section \<open>The scheduler\<close>

record send_item =
  si_payload :: bytes
  si_raw_size :: u64

text \<open>Where a worker is: at the wait, in \<open>send_tagged\<close>, before it takes the sent bytes off, in the last send, returned.\<close>

datatype worker_pc = WaitWork | Sending send_item | SentItem send_item int | SendingEnd | Returned

record mux_channel =
  ch_pending :: u64
  ch_ewma :: rat
  ch_queue :: "send_item list"
  ch_worker :: worker_pc
  ch_sent :: "tagged_frame list" \<comment> \<open>what has gone over the channel\<close>

record mux_scheduler =
  sc_channels :: "mux_channel list"
  sc_next :: nat
  sc_error :: "string option"
  sc_finishing :: bool
  sc_interrupted :: bool
  sc_advanced :: "u64 list" \<comment> \<open>the calls of \<open>file_advance\<close>\<close>

definition kMaxPendingPerChannel :: u64 where "kMaxPendingPerChannel = 4 * of_nat kMuxChunk"
definition kLatencyPenaltyBytesPerMs :: rat where "kLatencyPenaltyBytesPerMs = 16 * 1024"
definition kSendEwmaAlpha :: rat where "kSendEwmaAlpha = 1 / 5"

definition scheduler_start :: "nat \<Rightarrow> mux_scheduler" where
  "scheduler_start n =
     \<lparr>sc_channels = replicate n \<lparr>ch_pending = 0, ch_ewma = 0, ch_queue = [], ch_worker = WaitWork, ch_sent = []\<rparr>,
      sc_next = 0, sc_error = None, sc_finishing = False, sc_interrupted = False, sc_advanced = []\<rparr>"

definition per_channel_pending_limit :: "u64 \<Rightarrow> u64" where
  "per_channel_pending_limit payload_size = max kMaxPendingPerChannel payload_size"

definition global_pending_limit :: "mux_scheduler \<Rightarrow> u64 \<Rightarrow> u64" where
  "global_pending_limit s payload_size = max (of_nat (length (sc_channels s)) * kMaxPendingPerChannel) payload_size"

definition total_pending :: "mux_scheduler \<Rightarrow> u64" where
  "total_pending s = sum_list (map ch_pending (sc_channels s))"

definition channel_cost :: "mux_channel \<Rightarrow> rat" where
  "channel_cost c = of_nat (unat (ch_pending c)) + ch_ewma c * kLatencyPenaltyBytesPerMs"

text \<open>One round of the search for the cheapest channel that has room.\<close>

definition better_channel :: "mux_channel list \<Rightarrow> u64 \<Rightarrow> nat \<Rightarrow> nat option \<Rightarrow> nat option" where
  "better_channel channels room k best =
     (if room < ch_pending (channels ! k) then best
      else case best of
          None \<Rightarrow> Some k
        | Some b \<Rightarrow> if channel_cost (channels ! k) < channel_cost (channels ! b) then Some k else Some b)"

definition choose_ready_channel :: "u64 \<Rightarrow> mux_scheduler \<Rightarrow> nat option \<times> mux_scheduler" where
  "choose_ready_channel payload_size s =
     (let n = length (sc_channels s) in
      if n = 0 then (None, s)
      else if global_pending_limit s payload_size - payload_size < total_pending s then (None, s)
      else case fold (better_channel (sc_channels s) (per_channel_pending_limit payload_size - payload_size))
                  (map (\<lambda>step. (sc_next s + step) mod n) [0..<n]) None of
          None \<Rightarrow> (None, s)
        | Some best \<Rightarrow> (Some best, s\<lparr>sc_next := (best + 1) mod n\<rparr>))"

definition on_channel :: "nat \<Rightarrow> (mux_channel \<Rightarrow> mux_channel) \<Rightarrow> mux_scheduler \<Rightarrow> mux_scheduler" where
  "on_channel k f s = s\<lparr>sc_channels := (sc_channels s)[k := f (sc_channels s ! k)]\<rparr>"

text \<open>\<open>None\<close>: the producer waits until another step changes the state.\<close>

definition enqueue :: "bytes \<Rightarrow> u64 \<Rightarrow> mux_scheduler \<Rightarrow> (unit result \<times> mux_scheduler) option" where
  "enqueue payload raw_size s =
     (case choose_ready_channel (of_nat (length payload)) s of
        (channel, s1) \<Rightarrow>
          (case sc_error s of
             Some e \<Rightarrow> Some (Inl e, s1)
           | None \<Rightarrow>
               (case channel of
                  None \<Rightarrow> None
                | Some k \<Rightarrow>
                    Some (Inr (), on_channel k (\<lambda>c. c\<lparr>ch_pending := ch_pending c + of_nat (length payload),
                      ch_queue := ch_queue c @ [\<lparr>si_payload = payload, si_raw_size = raw_size\<rparr>]\<rparr>) s1))))"

definition record_channel_latency :: "int \<Rightarrow> mux_channel \<Rightarrow> mux_channel" where
  "record_channel_latency elapsed_ms c =
     (let sample = of_int (max 0 elapsed_ms) in
      c\<lparr>ch_ewma := (if ch_ewma c \<le> 0 then sample else ch_ewma c * (1 - kSendEwmaAlpha) + sample * kSendEwmaAlpha)\<rparr>)"

text \<open>The first error interrupts all channels.\<close>

definition set_error :: "string \<Rightarrow> mux_scheduler \<Rightarrow> mux_scheduler" where
  "set_error e s = (if sc_error s = None then s\<lparr>sc_error := Some e, sc_interrupted := True\<rparr> else s)"

text \<open>One step of the worker of channel \<open>k\<close>; \<open>failed\<close> and \<open>elapsed\<close> are the outcome of a send that the step ends.\<close>

definition worker_step :: "nat \<Rightarrow> string option \<Rightarrow> int \<Rightarrow> mux_scheduler \<Rightarrow> mux_scheduler option" where
  "worker_step k failed elapsed s =
     (let c = sc_channels s ! k in
      case ch_worker c of
        WaitWork \<Rightarrow>
          if sc_error s \<noteq> None then Some (on_channel k (\<lambda>c. c\<lparr>ch_worker := Returned\<rparr>) s)
          else (case ch_queue c of
              [] \<Rightarrow> if sc_finishing s then Some (on_channel k (\<lambda>c. c\<lparr>ch_worker := SendingEnd\<rparr>) s) else None
            | item # items \<Rightarrow> Some (on_channel k (\<lambda>c. c\<lparr>ch_queue := items, ch_worker := Sending item\<rparr>) s))
      | Sending item \<Rightarrow>
          (case failed of
             Some e \<Rightarrow> Some (set_error e (on_channel k (\<lambda>c. c\<lparr>ch_worker := Returned\<rparr>) s))
           | None \<Rightarrow> Some ((on_channel k (\<lambda>c. c\<lparr>ch_worker := SentItem item elapsed,
                 ch_sent := ch_sent c @ [\<lparr>tf_tag = Data, tf_payload = si_payload item\<rparr>]\<rparr>) s)
               \<lparr>sc_advanced := sc_advanced s @ [si_raw_size item]\<rparr>))
      | SentItem item ms \<Rightarrow>
          Some (on_channel k (\<lambda>c. record_channel_latency ms
            (c\<lparr>ch_pending := ch_pending c - min (ch_pending c) (of_nat (length (si_payload item))), ch_worker := WaitWork\<rparr>)) s)
      | SendingEnd \<Rightarrow>
          (case failed of
             Some e \<Rightarrow> Some (set_error e (on_channel k (\<lambda>c. c\<lparr>ch_worker := Returned\<rparr>) s))
           | None \<Rightarrow> Some (on_channel k (\<lambda>c. c\<lparr>ch_worker := Returned,
                 ch_sent := ch_sent c @ [\<lparr>tf_tag = ChunkEnd, tf_payload = []\<rparr>]\<rparr>) s))
      | Returned \<Rightarrow> None)"

section \<open>The producer\<close>

text \<open>The payload of a chunk: its offset, its length, and its bytes, compressed or not.\<close>

definition mux_payload :: "(bytes \<Rightarrow> bytes result) \<Rightarrow> bool \<Rightarrow> u64 \<times> bytes \<Rightarrow> (bytes \<times> u64) result" where
  "mux_payload compress use_zstd piece =
     (case piece of (offset, chunk) \<Rightarrow>
        andthen (if use_zstd then compress chunk else Inr chunk) (\<lambda>body.
          Inr (put_u64 offset @ put_u32 (of_nat (length chunk)) @ body, of_nat (length chunk))))"

text \<open>\<open>Joining (Some e)\<close>: the error \<open>e\<close> is thrown when the destructor has joined the workers.\<close>

datatype producer_pc = Feeding | Joining "string option" | Ended "unit result"

record mux_run =
  mr_scheduler :: mux_scheduler
  mr_todo :: "(bytes \<times> u64) result list" \<comment> \<open>the payloads to come; \<open>Inl\<close>: its compression fails\<close>
  mr_producer :: producer_pc

definition finish_workers :: "string option \<Rightarrow> mux_run \<Rightarrow> mux_run" where
  "finish_workers thrown r =
     r\<lparr>mr_scheduler := (mr_scheduler r)\<lparr>sc_finishing := True\<rparr>, mr_producer := Joining thrown\<rparr>"

definition all_returned :: "mux_scheduler \<Rightarrow> bool" where
  "all_returned s \<longleftrightarrow> list_all (\<lambda>c. ch_worker c = Returned) (sc_channels s)"

definition producer_step :: "mux_run \<Rightarrow> mux_run option" where
  "producer_step r =
     (case mr_producer r of
        Feeding \<Rightarrow>
          (case mr_todo r of
             [] \<Rightarrow> Some (finish_workers None r)
           | Inl e # _ \<Rightarrow> Some (finish_workers (Some e) r)
           | Inr (payload, raw_size) # rest \<Rightarrow>
               (case enqueue payload raw_size (mr_scheduler r) of
                  None \<Rightarrow> None
                | Some (Inl e, s1) \<Rightarrow> Some (finish_workers (Some e) (r\<lparr>mr_scheduler := s1\<rparr>))
                | Some (Inr _, s1) \<Rightarrow> Some (r\<lparr>mr_scheduler := s1, mr_todo := rest\<rparr>)))
      | Joining thrown \<Rightarrow>
          if all_returned (mr_scheduler r) then
            Some (r\<lparr>mr_producer := Ended (case thrown of Some e \<Rightarrow> Inl e
                | None \<Rightarrow> (case sc_error (mr_scheduler r) of Some e \<Rightarrow> Inl e | None \<Rightarrow> Inr ()))\<rparr>)
          else None
      | Ended _ \<Rightarrow> None)"

datatype mux_action = Produce | Work nat "string option" int

definition mux_step :: "mux_action \<Rightarrow> mux_run \<Rightarrow> mux_run option" where
  "mux_step a r =
     (case a of
        Produce \<Rightarrow> producer_step r
      | Work k failed elapsed \<Rightarrow>
          if k < length (sc_channels (mr_scheduler r))
          then map_option (\<lambda>s. r\<lparr>mr_scheduler := s\<rparr>) (worker_step k failed elapsed (mr_scheduler r)) else None)"

definition mux_run_start :: "nat \<Rightarrow> (bytes \<times> u64) result list \<Rightarrow> mux_run" where
  "mux_run_start n payloads = \<lparr>mr_scheduler = scheduler_start n, mr_todo = payloads, mr_producer = Feeding\<rparr>"

inductive mux_sending :: "nat \<Rightarrow> (bytes \<times> u64) result list \<Rightarrow> mux_run \<Rightarrow> bool"
  for n payloads where
  start: "mux_sending n payloads (mux_run_start n payloads)"
| step: "mux_sending n payloads r \<Longrightarrow> mux_step a r = Some r1 \<Longrightarrow> mux_sending n payloads r1"

section \<open>One channel changes\<close>

lemma sum_list_map_update:
  fixes f :: "'a \<Rightarrow> 'b :: comm_monoid_add"
  shows "k < length xs \<Longrightarrow> sum_list (map f (xs[k := y])) + f (xs ! k) = sum_list (map f xs) + f y"
proof (induction xs arbitrary: k)
  case (Cons x xs)
  show ?case
  proof (cases k)
    case (Suc j)
    then have "sum_list (map f (xs[j := y])) + f (xs ! j) = sum_list (map f xs) + f y" using Cons by simp
    then show ?thesis using Suc by (simp add: add.assoc)
  qed (simp add: ac_simps)
qed simp

lemma on_channel_simps [simp]:
  "sc_channels (on_channel k f s) = (sc_channels s)[k := f (sc_channels s ! k)]"
  "sc_error (on_channel k f s) = sc_error s" "sc_finishing (on_channel k f s) = sc_finishing s"
  "sc_advanced (on_channel k f s) = sc_advanced s"
  by (simp_all add: on_channel_def)

lemma set_error_simps [simp]:
  "sc_channels (set_error e s) = sc_channels s" "\<exists>y. sc_error (set_error e s) = Some y"
  "sc_finishing (set_error e s) = sc_finishing s"
  by (simp_all add: set_error_def)

lemma record_latency_simps [simp]:
  "ch_pending (record_channel_latency ms c) = ch_pending c" "ch_queue (record_channel_latency ms c) = ch_queue c"
  "ch_worker (record_channel_latency ms c) = ch_worker c" "ch_sent (record_channel_latency ms c) = ch_sent c"
  by (simp_all add: record_channel_latency_def Let_def)

text \<open>The step of a worker is a change of its channel, and of the error.\<close>

definition worker_effect :: "string option \<Rightarrow> int \<Rightarrow> mux_scheduler \<Rightarrow> mux_channel \<Rightarrow> (mux_channel \<times> string option) option" where
  "worker_effect failed elapsed s c =
     (case ch_worker c of
        WaitWork \<Rightarrow>
          if sc_error s \<noteq> None then Some (c\<lparr>ch_worker := Returned\<rparr>, None)
          else (case ch_queue c of
              [] \<Rightarrow> if sc_finishing s then Some (c\<lparr>ch_worker := SendingEnd\<rparr>, None) else None
            | item # items \<Rightarrow> Some (c\<lparr>ch_queue := items, ch_worker := Sending item\<rparr>, None))
      | Sending item \<Rightarrow>
          (case failed of
             Some e \<Rightarrow> Some (c\<lparr>ch_worker := Returned\<rparr>, Some e)
           | None \<Rightarrow> Some (c\<lparr>ch_worker := SentItem item elapsed,
                 ch_sent := ch_sent c @ [\<lparr>tf_tag = Data, tf_payload = si_payload item\<rparr>]\<rparr>, None))
      | SentItem item ms \<Rightarrow>
          Some (record_channel_latency ms
            (c\<lparr>ch_pending := ch_pending c - min (ch_pending c) (of_nat (length (si_payload item))), ch_worker := WaitWork\<rparr>), None)
      | SendingEnd \<Rightarrow>
          (case failed of
             Some e \<Rightarrow> Some (c\<lparr>ch_worker := Returned\<rparr>, Some e)
           | None \<Rightarrow> Some (c\<lparr>ch_worker := Returned, ch_sent := ch_sent c @ [\<lparr>tf_tag = ChunkEnd, tf_payload = []\<rparr>]\<rparr>, None))
      | Returned \<Rightarrow> None)"

lemma worker_step_effect:
  assumes "worker_step k failed elapsed s = Some s1"
  shows "\<exists>c err. worker_effect failed elapsed s (sc_channels s ! k) = Some (c, err) \<and>
    sc_channels s1 = (sc_channels s)[k := c] \<and> sc_finishing s1 = sc_finishing s \<and>
    (err = None \<longrightarrow> sc_error s1 = sc_error s) \<and> (err \<noteq> None \<longrightarrow> sc_error s1 \<noteq> None)"
  using assms unfolding worker_step_def worker_effect_def Let_def
  by (cases "ch_worker (sc_channels s ! k)") (auto split: option.splits list.splits if_splits)

lemma worker_step_enabled:
  "worker_step k failed elapsed s = None \<longleftrightarrow> worker_effect failed elapsed s (sc_channels s ! k) = None"
  unfolding worker_step_def worker_effect_def Let_def
  by (cases "ch_worker (sc_channels s ! k)") (auto split: option.splits list.splits if_splits)

section \<open>The choice of a channel\<close>

lemma better_step:
  "better_channel chs room k best = Some b \<Longrightarrow> best = Some b \<or> b = k \<and> \<not> room < ch_pending (chs ! k)"
  "better_channel chs room k best = None \<Longrightarrow> best = None \<and> room < ch_pending (chs ! k)"
  by (simp_all add: better_channel_def split: if_splits option.splits)

lemma better_Some:
  "fold (better_channel chs room) ks best = Some k \<Longrightarrow> best = Some k \<or> k \<in> set ks \<and> \<not> room < ch_pending (chs ! k)"
proof (induction ks arbitrary: best)
  case (Cons j ks)
  then have "better_channel chs room j best = Some k \<or> k \<in> set ks \<and> \<not> room < ch_pending (chs ! k)" by simp
  then show ?case using better_step(1) [of chs room j best k] by auto
qed simp

lemma better_None:
  "fold (better_channel chs room) ks best = None \<Longrightarrow> best = None \<and> (\<forall>k \<in> set ks. room < ch_pending (chs ! k))"
proof (induction ks arbitrary: best)
  case (Cons j ks)
  then have "better_channel chs room j best = None \<and> (\<forall>k \<in> set ks. room < ch_pending (chs ! k))" by simp
  then show ?case using better_step(2) [of chs room j best] by auto
qed simp

lemma choose_state: "\<exists>x. snd (choose_ready_channel size' s) = s\<lparr>sc_next := x\<rparr>"
proof -
  have same: "\<exists>x. s = s\<lparr>sc_next := x\<rparr>" by (rule exI [of _ "sc_next s"]) simp
  then show ?thesis unfolding choose_ready_channel_def Let_def by (auto split: option.split)
qed

lemma choose_Some:
  assumes "choose_ready_channel size' s = (Some k, s1)"
  shows "k < length (sc_channels s)" "total_pending s \<le> global_pending_limit s size' - size'"
proof -
  let ?n = "length (sc_channels s)"
  have n: "?n \<noteq> 0" "total_pending s \<le> global_pending_limit s size' - size'"
    and f: "fold (better_channel (sc_channels s) (per_channel_pending_limit size' - size'))
      (map (\<lambda>step. (sc_next s + step) mod ?n) [0..<?n]) None = Some k"
    using assms by (auto simp: choose_ready_channel_def Let_def not_less split: if_splits option.splits)
  have "k \<in> set (map (\<lambda>step. (sc_next s + step) mod ?n) [0..<?n])" using better_Some [OF f] by simp
  then show "k < ?n" using n(1) by auto
  show "total_pending s \<le> global_pending_limit s size' - size'" by (rule n(2))
qed

lemma sum_words_pos: "(x :: u64) < sum_list ws \<Longrightarrow> \<exists>w \<in> set ws. w \<noteq> 0"
proof (rule ccontr)
  assume x: "x < sum_list ws" and "\<not> (\<exists>w \<in> set ws. w \<noteq> 0)"
  then have "sum_list ws = 0" by (induction ws) auto
  with x show False by simp
qed

text \<open>When no channel is ready, some channel has bytes under way.\<close>

lemma choose_None:
  assumes "choose_ready_channel size' s = (None, s1)" "sc_channels s \<noteq> []"
  shows "\<exists>k < length (sc_channels s). ch_pending (sc_channels s ! k) \<noteq> 0"
proof -
  let ?n = "length (sc_channels s)"
  consider "global_pending_limit s size' - size' < total_pending s"
    | "fold (better_channel (sc_channels s) (per_channel_pending_limit size' - size'))
      (map (\<lambda>step. (sc_next s + step) mod ?n) [0..<?n]) None = None"
    using assms by (auto simp: choose_ready_channel_def Let_def split: if_splits option.splits)
  then show ?thesis
  proof cases
    case 1
    then show ?thesis using sum_words_pos unfolding total_pending_def by (fastforce simp: in_set_conv_nth)
  next
    case 2
    have "(sc_next s + 0) mod ?n \<in> set (map (\<lambda>step. (sc_next s + step) mod ?n) [0..<?n])"
      unfolding set_map using assms(2) by (intro imageI) simp
    then have "per_channel_pending_limit size' - size' < ch_pending (sc_channels s ! (sc_next s mod ?n))"
      using better_None [OF 2] by auto
    then show ?thesis using assms(2) by (intro exI [of _ "sc_next s mod ?n"]) auto
  qed
qed

section \<open>Nothing is lost\<close>

abbreviation data_frame :: "bytes \<Rightarrow> tagged_frame" where
  "data_frame p \<equiv> \<lparr>tf_tag = Data, tf_payload = p\<rparr>"

abbreviation end_frame :: tagged_frame where
  "end_frame \<equiv> \<lparr>tf_tag = ChunkEnd, tf_payload = []\<rparr>"

text \<open>What a channel has sent, by the place of its worker.\<close>

definition chan_ok :: "bool \<Rightarrow> string option \<Rightarrow> mux_channel \<Rightarrow> bool" where
  "chan_ok finishing err c \<longleftrightarrow>
     (case ch_worker c of
        Returned \<Rightarrow> err = None \<longrightarrow> finishing \<and> ch_queue c = [] \<and> (\<exists>ps. ch_sent c = map data_frame ps @ [end_frame])
      | SendingEnd \<Rightarrow> finishing \<and> ch_queue c = [] \<and> (\<exists>ps. ch_sent c = map data_frame ps)
      | _ \<Rightarrow> \<exists>ps. ch_sent c = map data_frame ps)"

text \<open>The payloads that a channel has sent or has still to send.\<close>

definition chan_load :: "mux_channel \<Rightarrow> bytes multiset" where
  "chan_load c = mset (map tf_payload (filter (\<lambda>f. tf_tag f = Data) (ch_sent c))) +
     (case ch_worker c of Sending item \<Rightarrow> {#si_payload item#} | _ \<Rightarrow> {#}) + mset (map si_payload (ch_queue c))"

lemma snoc_data_frame: "\<exists>qs. map data_frame ps @ [data_frame p] = map data_frame qs"
  by (intro exI [of _ "ps @ [p]"]) simp

lemma effect_ok:
  assumes "worker_effect failed elapsed s c = Some (c1, err)" "chan_ok (sc_finishing s) (sc_error s) c"
    and "err = None \<Longrightarrow> err1 = sc_error s" "err \<noteq> None \<Longrightarrow> err1 \<noteq> None"
  shows "chan_ok (sc_finishing s) err1 c1"
proof (cases "ch_worker c")
  case (Sending item)
  then show ?thesis using assms snoc_data_frame
    by (auto simp: worker_effect_def chan_ok_def split: option.splits)
qed (use assms in \<open>auto simp: worker_effect_def chan_ok_def split: option.splits list.splits if_splits\<close>)

lemma effect_load:
  assumes "worker_effect failed elapsed s c = Some (c1, None)" "sc_error s = None"
  shows "chan_load c1 = chan_load c"
  using assms by (cases "ch_worker c") (auto simp: worker_effect_def chan_load_def split: option.splits list.splits if_splits)

lemma chan_ok_error: "chan_ok fin err c \<Longrightarrow> err1 = err \<or> err1 \<noteq> None \<Longrightarrow> chan_ok fin err1 c"
  by (auto simp: chan_ok_def split: worker_pc.splits)

lemma chan_ok_finish: "chan_ok fin err c \<Longrightarrow> chan_ok True err c"
  by (auto simp: chan_ok_def split: worker_pc.splits)

definition mux_inv :: "nat \<Rightarrow> (bytes \<times> u64) result list \<Rightarrow> mux_run \<Rightarrow> bool" where
  "mux_inv n payloads r \<longleftrightarrow>
     length (sc_channels (mr_scheduler r)) = n \<and>
     (sc_finishing (mr_scheduler r) \<longleftrightarrow> mr_producer r \<noteq> Feeding) \<and>
     (\<forall>c \<in> set (sc_channels (mr_scheduler r)). chan_ok (sc_finishing (mr_scheduler r)) (sc_error (mr_scheduler r)) c) \<and>
     (\<exists>fed. payloads = map Inr fed @ mr_todo r \<and>
        (sc_error (mr_scheduler r) = None \<longrightarrow> sum_list (map chan_load (sc_channels (mr_scheduler r))) = mset (map fst fed))) \<and>
     (mr_producer r = Joining None \<or> mr_producer r = Ended (Inr ()) \<longrightarrow> mr_todo r = []) \<and>
     (mr_producer r = Ended (Inr ()) \<longrightarrow> sc_error (mr_scheduler r) = None \<and> all_returned (mr_scheduler r))"

lemma sum_replicate_empty [simp]: "sum_list (replicate n {#}) = {#}"
  by (induction n) simp_all

lemma mux_inv_start: "mux_inv n payloads (mux_run_start n payloads)"
  by (auto simp: mux_inv_def mux_run_start_def scheduler_start_def chan_ok_def chan_load_def sum_list_replicate
      map_replicate_const)

lemma enqueue_cases:
  assumes "enqueue payload raw s = Some (res, s1)"
  obtains (failed) e x where "sc_error s = Some e" "res = Inl e" "s1 = s\<lparr>sc_next := x\<rparr>"
  | (queued) k x where "sc_error s = None" "res = Inr ()" "k < length (sc_channels s)"
      "total_pending s \<le> global_pending_limit s (of_nat (length payload)) - of_nat (length payload)"
      "s1 = on_channel k (\<lambda>c. c\<lparr>ch_pending := ch_pending c + of_nat (length payload),
         ch_queue := ch_queue c @ [\<lparr>si_payload = payload, si_raw_size = raw\<rparr>]\<rparr>) (s\<lparr>sc_next := x\<rparr>)"
proof -
  obtain ci s2 where c: "choose_ready_channel (of_nat (length payload)) s = (ci, s2)" by fastforce
  obtain x where x: "s2 = s\<lparr>sc_next := x\<rparr>" using choose_state [of "of_nat (length payload)" s] c by auto
  show ?thesis
  proof (cases "sc_error s")
    case None
    then obtain k where k: "ci = Some k" using assms c by (cases ci) (auto simp: enqueue_def)
    show ?thesis
      by (rule queued [of k x]) (use assms c x k None choose_Some [of "of_nat (length payload)" s k s2] in \<open>auto simp: enqueue_def\<close>)
  next
    case (Some e)
    then show ?thesis using failed [of e x] assms c x by (simp add: enqueue_def)
  qed
qed

lemma chan_enqueue:
  assumes "chan_ok False None c"
  shows "chan_ok False None (c\<lparr>ch_pending := p, ch_queue := ch_queue c @ [item]\<rparr>)"
    and "chan_load (c\<lparr>ch_pending := p, ch_queue := ch_queue c @ [item]\<rparr>) = chan_load c + {#si_payload item#}"
  using assms by (auto simp: chan_ok_def chan_load_def split: worker_pc.splits)

lemma ball_set_update: "\<forall>c \<in> set xs. P c \<Longrightarrow> P y \<Longrightarrow> \<forall>c \<in> set (xs[k := y]). P c"
  using set_update_subset_insert [of xs k y] by blast

lemma mux_inv_work:
  assumes "mux_inv n payloads r" "k < n" "worker_step k failed elapsed (mr_scheduler r) = Some s1"
  shows "mux_inv n payloads (r\<lparr>mr_scheduler := s1\<rparr>)"
proof -
  let ?s = "mr_scheduler r"
  obtain c err where e: "worker_effect failed elapsed ?s (sc_channels ?s ! k) = Some (c, err)"
    "sc_channels s1 = (sc_channels ?s)[k := c]" "sc_finishing s1 = sc_finishing ?s"
    "err = None \<Longrightarrow> sc_error s1 = sc_error ?s" "err \<noteq> None \<Longrightarrow> sc_error s1 \<noteq> None"
    using worker_step_effect [OF assms(3)] by blast
  have k: "k < length (sc_channels ?s)" using assms(1,2) by (simp add: mux_inv_def)
  have old: "chan_ok (sc_finishing ?s) (sc_error ?s) d" if "d \<in> set (sc_channels ?s)" for d
    using assms(1) that unfolding mux_inv_def by blast
  have mono: "sc_error s1 = sc_error ?s \<or> sc_error s1 \<noteq> None" using e(4,5) by blast
  have "chan_ok (sc_finishing ?s) (sc_error s1) c"
    by (rule effect_ok [OF e(1) old [OF nth_mem [OF k]]]) (use e(4,5) in auto)
  then have chans: "\<forall>c \<in> set (sc_channels s1). chan_ok (sc_finishing s1) (sc_error s1) c"
    unfolding e(2,3) by (intro ball_set_update) (use old mono chan_ok_error in blast)+
  obtain fed where fed: "payloads = map Inr fed @ mr_todo r"
    "sc_error ?s = None \<longrightarrow> sum_list (map chan_load (sc_channels ?s)) = mset (map fst fed)"
    using assms(1) unfolding mux_inv_def by (elim conjE exE) (rule that)
  have load: "sum_list (map chan_load (sc_channels s1)) = mset (map fst fed)" if "sc_error s1 = None"
  proof -
    have none: "err = None" "sc_error ?s = None" using that e(4,5) by (cases err; simp)+
    then have "chan_load c = chan_load (sc_channels ?s ! k)" using effect_load e(1) by blast
    then show ?thesis using sum_list_map_update [OF k, of chan_load c] fed(2) none(2) e(2) by simp
  qed
  have ended: "mr_producer r \<noteq> Ended (Inr ())"
  proof
    assume "mr_producer r = Ended (Inr ())"
    then have "ch_worker (sc_channels ?s ! k) = Returned"
      using assms(1) k by (auto simp: mux_inv_def all_returned_def list_all_iff)
    then show False using e(1) by (simp add: worker_effect_def)
  qed
  have "length (sc_channels s1) = n" using assms(1) e(2) by (simp add: mux_inv_def)
  moreover have "sc_finishing s1 \<longleftrightarrow> mr_producer r \<noteq> Feeding" using assms(1) e(3) by (simp add: mux_inv_def)
  moreover have "mr_producer r = Joining None \<Longrightarrow> mr_todo r = []" using assms(1) by (simp add: mux_inv_def)
  ultimately show ?thesis
    using chans fed(1) load ended unfolding mux_inv_def by auto
qed

lemma mux_inv_finish:
  assumes "mux_inv n payloads r" "mr_producer r = Feeding" "thrown = None \<longrightarrow> mr_todo r = []"
    and "sc_channels s = sc_channels (mr_scheduler r)" "sc_error s = sc_error (mr_scheduler r)"
  shows "mux_inv n payloads (finish_workers thrown (r\<lparr>mr_scheduler := s\<rparr>))"
  using assms chan_ok_finish by (auto simp: mux_inv_def finish_workers_def)

lemma mux_inv_produce:
  assumes "mux_inv n payloads r" "producer_step r = Some r1"
  shows "mux_inv n payloads r1"
proof (cases "mr_producer r")
  case Feeding
  note inv = assms(1) [unfolded mux_inv_def]
  have same: "r = r\<lparr>mr_scheduler := mr_scheduler r\<rparr>" by simp
  show ?thesis
  proof (cases "mr_todo r")
    case Nil
    then have "r1 = finish_workers None r" using assms(2) Feeding by (simp add: producer_step_def)
    then show ?thesis using mux_inv_finish [OF assms(1) Feeding _ refl refl] Nil by simp
  next
    case (Cons p rest)
    show ?thesis
    proof (cases p)
      case (Inl e)
      then have "r1 = finish_workers (Some e) r" using assms(2) Feeding Cons by (simp add: producer_step_def)
      then show ?thesis using mux_inv_finish [OF assms(1) Feeding, of "Some e" "mr_scheduler r"] by simp
    next
      case (Inr pr)
      obtain payload raw where p: "p = Inr (payload, raw)" using Inr by (cases pr) simp
      obtain res s1 where q: "enqueue payload raw (mr_scheduler r) = Some (res, s1)"
        using assms(2) Feeding Cons p by (auto simp: producer_step_def split: option.splits)
      from q show ?thesis
      proof (cases rule: enqueue_cases)
        case (failed e x)
        then have "r1 = finish_workers (Some e) (r\<lparr>mr_scheduler := s1\<rparr>)"
          using assms(2) Feeding Cons p q by (simp add: producer_step_def)
        then show ?thesis using mux_inv_finish [OF assms(1) Feeding, of "Some e" s1] failed by simp
      next
        case (queued k x)
        have r1: "r1 = r\<lparr>mr_scheduler := s1, mr_todo := rest\<rparr>"
          using assms(2) Feeding Cons p q queued(2) by (simp add: producer_step_def)
        have nf: "\<not> sc_finishing (mr_scheduler r)" using inv Feeding by simp
        let ?c = "sc_channels (mr_scheduler r) ! k"
        let ?c1 = "?c\<lparr>ch_pending := ch_pending ?c + of_nat (length payload),
          ch_queue := ch_queue ?c @ [\<lparr>si_payload = payload, si_raw_size = raw\<rparr>]\<rparr>"
        have s1: "sc_channels s1 = (sc_channels (mr_scheduler r))[k := ?c1]" "sc_error s1 = None" "\<not> sc_finishing s1"
          using queued nf by simp_all
        have all: "\<forall>c \<in> set (sc_channels (mr_scheduler r)). chan_ok False None c" using inv nf queued(1) by simp
        then have "chan_ok False None ?c" using queued(3) by simp
        note new = chan_enqueue [OF this]
        obtain fed where fed: "payloads = map Inr fed @ mr_todo r"
          "sum_list (map chan_load (sc_channels (mr_scheduler r))) = mset (map fst fed)"
          using inv queued(1) by blast
        have "sum_list (map chan_load (sc_channels s1)) + chan_load ?c =
            sum_list (map chan_load (sc_channels (mr_scheduler r))) + chan_load ?c1"
          unfolding s1(1) by (rule sum_list_map_update [OF queued(3)])
        then have load: "sum_list (map chan_load (sc_channels s1)) = mset (map fst (fed @ [(payload, raw)]))"
          using fed(2) new(2) [where item = "\<lparr>si_payload = payload, si_raw_size = raw\<rparr>"]
          by simp
        have todo: "payloads = map Inr (fed @ [(payload, raw)]) @ rest" using fed(1) Cons p by simp
        have "\<forall>c \<in> set (sc_channels s1). chan_ok False None c"
          unfolding s1(1) by (rule ball_set_update [OF all]) (rule new(1))
        moreover have "\<exists>fed. payloads = map Inr fed @ rest \<and> sum_list (map chan_load (sc_channels s1)) = mset (map fst fed)"
          using load todo by blast
        ultimately show ?thesis using s1(2,3) inv Feeding s1(1) [THEN arg_cong, of length] unfolding r1 mux_inv_def by simp
      qed
    qed
  qed
next
  case (Joining thrown)
  then have "all_returned (mr_scheduler r)" and r1: "r1 = r\<lparr>mr_producer := Ended (case thrown of Some e \<Rightarrow> Inl e
      | None \<Rightarrow> (case sc_error (mr_scheduler r) of Some e \<Rightarrow> Inl e | None \<Rightarrow> Inr ()))\<rparr>"
    using assms(2) by (simp_all add: producer_step_def split: if_splits)
  then show ?thesis using assms(1) Joining by (cases thrown; cases "sc_error (mr_scheduler r)") (auto simp: mux_inv_def)
qed (use assms(2) in \<open>simp add: producer_step_def\<close>)

lemma mux_sending_inv: "mux_sending n payloads r \<Longrightarrow> mux_inv n payloads r"
proof (induction rule: mux_sending.induct)
  case (step r a r1)
  show ?case
  proof (cases a)
    case Produce
    then show ?thesis using step mux_inv_produce by (simp add: mux_step_def)
  next
    case (Work k failed elapsed)
    then obtain s1 where "k < length (sc_channels (mr_scheduler r))" "worker_step k failed elapsed (mr_scheduler r) = Some s1"
      "r1 = r\<lparr>mr_scheduler := s1\<rparr>" using step.hyps(2) by (auto simp: mux_step_def split: if_splits)
    moreover have "length (sc_channels (mr_scheduler r)) = n" using step.IH by (simp add: mux_inv_def)
    ultimately show ?thesis using mux_inv_work [OF step.IH] by simp
  qed
qed (rule mux_inv_start)

text \<open>
  When a parallel send returns without an error, whatever the schedule of producer and workers was,
  every payload has gone over exactly one channel, none was made up or repeated, and each channel
  carries its payloads followed by exactly one end mark.
\<close>

lemma parallel_send_delivers:
  assumes "mux_sending n payloads r" "mr_producer r = Ended (Inr ())"
  shows "\<exists>fed pss. payloads = map Inr fed \<and>
    map ch_sent (sc_channels (mr_scheduler r)) = map (\<lambda>ps. map data_frame ps @ [end_frame]) pss \<and> length pss = n \<and>
    mset (concat pss) = mset (map fst fed)"
proof -
  note inv = mux_sending_inv [OF assms(1), unfolded mux_inv_def]
  let ?cs = "sc_channels (mr_scheduler r)"
  have end_ok: "sc_error (mr_scheduler r) = None" "all_returned (mr_scheduler r)" "mr_todo r = []" using inv assms(2) by auto
  then have ret: "\<forall>c \<in> set ?cs. \<exists>ps. ch_worker c = Returned \<and> ch_queue c = [] \<and> ch_sent c = map data_frame ps @ [end_frame]"
    using inv by (auto simp: all_returned_def list_all_iff chan_ok_def)
  then obtain f where f: "\<forall>c \<in> set ?cs. ch_worker c = Returned \<and> ch_queue c = [] \<and> ch_sent c = map data_frame (f c) @ [end_frame]"
    by metis
  obtain fed where fed: "payloads = map Inr fed" "sum_list (map chan_load ?cs) = mset (map fst fed)" using inv end_ok by auto
  have "chan_load c = mset (f c)" if "c \<in> set ?cs" for c
    using f that by (simp add: chan_load_def filter_map o_def)
  then have "sum_list (map chan_load ?cs) = sum_list (map (mset \<circ> f) ?cs)" by (intro arg_cong [of _ _ sum_list]) simp
  also have "\<dots> = mset (concat (map f ?cs))" by (simp add: mset_concat)
  finally have "mset (concat (map f ?cs)) = mset (map fst fed)" using fed(2) by simp
  then show ?thesis using f fed(1) inv by (intro exI [of _ fed] exI [of _ "map f ?cs"]) simp
qed

section \<open>Bounds and progress\<close>

text \<open>The bytes that a channel holds back: queued, or in the hands of its worker.\<close>

definition chan_bytes :: "mux_channel \<Rightarrow> nat" where
  "chan_bytes c =
     (case ch_worker c of Sending item \<Rightarrow> length (si_payload item) | SentItem item _ \<Rightarrow> length (si_payload item) | _ \<Rightarrow> 0) +
     sum_list (map (\<lambda>i. length (si_payload i)) (ch_queue c))"

definition pending_ok :: "mux_channel \<Rightarrow> bool" where
  "pending_ok c \<longleftrightarrow> unat (ch_pending c) = chan_bytes c"

definition pending_total :: "mux_scheduler \<Rightarrow> nat" where
  "pending_total s = sum_list (map (\<lambda>c. unat (ch_pending c)) (sc_channels s))"

definition pending_inv :: "nat \<Rightarrow> nat \<Rightarrow> mux_run \<Rightarrow> bool" where
  "pending_inv n largest r \<longleftrightarrow>
     length (sc_channels (mr_scheduler r)) = n \<and>
     (\<forall>p raw. Inr (p, raw) \<in> set (mr_todo r) \<longrightarrow> length p \<le> largest) \<and>
     (sc_error (mr_scheduler r) = None \<longrightarrow> (\<forall>c \<in> set (sc_channels (mr_scheduler r)). pending_ok c)) \<and>
     pending_total (mr_scheduler r) \<le> max (n * (4 * kMuxChunk)) largest"

lemma effect_pending_le:
  "worker_effect failed elapsed s c = Some (c1, err) \<Longrightarrow> unat (ch_pending c1) \<le> unat (ch_pending c)"
  by (cases "ch_worker c")
    (auto simp: worker_effect_def unat_u64_sub min_def word_le_nat_alt split: option.splits list.splits if_splits)

lemma effect_pending_ok:
  assumes "worker_effect failed elapsed s c = Some (c1, None)" "sc_error s = None" "pending_ok c"
  shows "pending_ok c1"
proof (cases "ch_worker c")
  case (SentItem item ms)
  let ?n = "length (si_payload item)"
  have le: "?n \<le> unat (ch_pending c)" using assms(3) SentItem by (simp add: pending_ok_def chan_bytes_def)
  then have n: "unat (of_nat ?n :: u64) = ?n" using u64_less_bound [of "ch_pending c"] by (simp add: unat_of_nat)
  then have "(of_nat ?n :: u64) \<le> ch_pending c" using le by (simp add: word_le_nat_alt)
  then show ?thesis using assms SentItem n
    by (auto simp: worker_effect_def pending_ok_def chan_bytes_def min_absorb2 unat_u64_sub)
qed (use assms in \<open>auto simp: worker_effect_def pending_ok_def chan_bytes_def split: option.splits list.splits if_splits\<close>)

lemma sum_words_unat: "sum_list (map unat ws) < 2 ^ 64 \<Longrightarrow> unat (sum_list (ws :: u64 list)) = sum_list (map unat ws)"
proof (induction ws)
  case (Cons w ws)
  then have "unat (sum_list ws) = sum_list (map unat ws)" by simp
  then show ?case using Cons.prems by (simp add: unat_word_ariths)
qed simp

lemma pending_inv_work:
  assumes "pending_inv n largest r" "k < n" "worker_step k failed elapsed (mr_scheduler r) = Some s1"
  shows "pending_inv n largest (r\<lparr>mr_scheduler := s1\<rparr>)"
proof -
  let ?s = "mr_scheduler r"
  obtain c err where e: "worker_effect failed elapsed ?s (sc_channels ?s ! k) = Some (c, err)"
    "sc_channels s1 = (sc_channels ?s)[k := c]"
    "err = None \<longrightarrow> sc_error s1 = sc_error ?s" "err \<noteq> None \<longrightarrow> sc_error s1 \<noteq> None"
    using worker_step_effect [OF assms(3)] by blast
  have k: "k < length (sc_channels ?s)" using assms(1,2) by (simp add: pending_inv_def)
  have ok: "\<forall>d \<in> set (sc_channels s1). pending_ok d" if "sc_error s1 = None"
  proof -
    have none: "err = None" "sc_error ?s = None" using that e(3,4) by (cases err; simp)+
    have all: "\<forall>d \<in> set (sc_channels ?s). pending_ok d" using assms(1) none(2) by (simp add: pending_inv_def)
    then have "pending_ok c" using effect_pending_ok e(1) none k by simp
    then show ?thesis unfolding e(2) using all by (intro ball_set_update)
  qed
  have "pending_total s1 + unat (ch_pending (sc_channels ?s ! k)) = pending_total ?s + unat (ch_pending c)"
    unfolding pending_total_def e(2) by (rule sum_list_map_update [OF k])
  then have "pending_total s1 \<le> pending_total ?s" using effect_pending_le [OF e(1)] by simp
  moreover have "length (sc_channels s1) = n" using assms(1) e(2) by (simp add: pending_inv_def)
  ultimately show ?thesis using assms(1) ok by (auto simp: pending_inv_def)
qed

lemma unat_of_nat_small: "m < 2 ^ 64 \<Longrightarrow> unat (of_nat m :: u64) = m"
  by (simp add: unat_of_nat)

lemma unat_max: "unat (max a b :: u64) = max (unat a) (unat b)"
  by (simp add: max_def word_le_nat_alt)

lemma enqueue_fits:
  assumes "total_pending s \<le> global_pending_limit s (of_nat m) - of_nat m" "m \<le> largest"
    and "pending_total s \<le> max (length (sc_channels s) * (4 * kMuxChunk)) largest"
    and "max (length (sc_channels s) * (4 * kMuxChunk)) largest < 2 ^ 64"
  shows "pending_total s + m \<le> max (length (sc_channels s) * (4 * kMuxChunk)) largest"
proof -
  let ?n = "length (sc_channels s)"
  have t: "unat (total_pending s) = pending_total s"
    using sum_words_unat [of "map ch_pending (sc_channels s)"] le_less_trans [OF assms(3,4)]
    by (simp add: total_pending_def pending_total_def o_def)
  have m: "unat (of_nat m :: u64) = m" by (rule unat_of_nat_small) (use assms(2,4) in simp)
  have "?n * (4 * kMuxChunk) < 2 ^ 64" using assms(4) by simp
  then have "unat (of_nat (?n * (4 * kMuxChunk)) :: u64) = ?n * (4 * kMuxChunk)" by (rule unat_of_nat_small)
  moreover have "of_nat ?n * kMaxPendingPerChannel = (of_nat (?n * (4 * kMuxChunk)) :: u64)"
    by (simp add: kMaxPendingPerChannel_def)
  ultimately have l: "unat (of_nat ?n * kMaxPendingPerChannel) = ?n * (4 * kMuxChunk)" by simp
  let ?g = "global_pending_limit s (of_nat m)"
  have g: "unat ?g = max (?n * (4 * kMuxChunk)) m"
    unfolding global_pending_limit_def unat_max l m by (rule refl)
  have "of_nat m \<le> ?g" unfolding global_pending_limit_def by simp
  then have "unat (?g - of_nat m) = max (?n * (4 * kMuxChunk)) m - m" using m g by (simp only: unat_u64_sub)
  then have "pending_total s \<le> max (?n * (4 * kMuxChunk)) m - m" using assms(1) t by (simp only: word_le_nat_alt)
  then show ?thesis using assms(2) by linarith
qed

lemma pending_inv_enqueue:
  assumes "pending_inv n largest r" "max (n * (4 * kMuxChunk)) largest < 2 ^ 64" "mr_todo r = Inr (payload, raw) # rest"
    and "enqueue payload raw (mr_scheduler r) = Some (res, s1)"
  shows "pending_inv n largest (r\<lparr>mr_scheduler := s1, mr_todo := rest\<rparr>)"
  using assms(4)
proof (cases rule: enqueue_cases)
  case (failed e x)
  then show ?thesis using assms(1,3) by (auto simp: pending_inv_def pending_total_def)
next
  case (queued k x)
  let ?s = "mr_scheduler r"
  let ?c = "sc_channels ?s ! k"
  let ?m = "length payload"
  let ?c1 = "?c\<lparr>ch_pending := ch_pending ?c + of_nat ?m, ch_queue := ch_queue ?c @ [\<lparr>si_payload = payload, si_raw_size = raw\<rparr>]\<rparr>"
  have s1: "sc_channels s1 = (sc_channels ?s)[k := ?c1]" "sc_error s1 = None" using queued by simp_all
  have n: "length (sc_channels ?s) = n" and le: "?m \<le> largest" using assms(1,3) by (auto simp: pending_inv_def)
  have fits: "pending_total ?s + ?m \<le> max (n * (4 * kMuxChunk)) largest"
    using enqueue_fits [OF queued(4) le] assms(1,2) n by (simp add: pending_inv_def)
  have "unat (ch_pending ?c) \<le> pending_total ?s"
    unfolding pending_total_def using queued(3) by (intro member_le_sum_list) simp_all
  then have p: "unat (ch_pending ?c + of_nat ?m) = unat (ch_pending ?c) + ?m"
    using le_less_trans [OF fits assms(2)] by (simp add: unat_word_ariths unat_of_nat)
  have "pending_total s1 + unat (ch_pending ?c) = pending_total ?s + unat (ch_pending ?c1)"
    unfolding pending_total_def s1(1) by (rule sum_list_map_update [OF queued(3)])
  then have total: "pending_total s1 = pending_total ?s + ?m" using p by simp
  have all: "\<forall>d \<in> set (sc_channels ?s). pending_ok d" using assms(1) queued(1) by (simp add: pending_inv_def)
  then have "pending_ok ?c" using queued(3) by simp
  then have "pending_ok ?c1" using p by (simp add: pending_ok_def chan_bytes_def)
  then have "\<forall>d \<in> set (sc_channels s1). pending_ok d" unfolding s1(1) using all by (intro ball_set_update)
  then show ?thesis using assms(1,3) total fits n s1(1) by (auto simp: pending_inv_def)
qed

lemma pending_inv_same:
  "pending_inv n largest r \<Longrightarrow> sc_channels s = sc_channels (mr_scheduler r) \<Longrightarrow> sc_error s = sc_error (mr_scheduler r) \<Longrightarrow>
    pending_inv n largest (r\<lparr>mr_scheduler := s, mr_producer := pc\<rparr>)"
  by (simp add: pending_inv_def pending_total_def)

lemma pending_inv_produce:
  assumes "pending_inv n largest r" "max (n * (4 * kMuxChunk)) largest < 2 ^ 64" "producer_step r = Some r1"
  shows "pending_inv n largest r1"
proof (cases "mr_producer r")
  case Feeding
  show ?thesis
  proof (cases "mr_todo r")
    case Nil
    then show ?thesis using assms Feeding pending_inv_same by (auto simp: producer_step_def finish_workers_def)
  next
    case (Cons p rest)
    show ?thesis
    proof (cases p)
      case (Inl e)
      then show ?thesis using assms Feeding Cons pending_inv_same by (auto simp: producer_step_def finish_workers_def)
    next
      case (Inr pr)
      obtain payload raw where p: "p = Inr (payload, raw)" using Inr by (cases pr) simp
      obtain res s1 where q: "enqueue payload raw (mr_scheduler r) = Some (res, s1)"
        using assms(3) Feeding Cons p by (auto simp: producer_step_def split: option.splits)
      from q show ?thesis
      proof (cases rule: enqueue_cases)
        case (failed e x)
        then have "r1 = finish_workers (Some e) (r\<lparr>mr_scheduler := s1\<rparr>)"
          using assms(3) Feeding Cons p q by (simp add: producer_step_def)
        then show ?thesis
          using pending_inv_same [OF assms(1), of "s1\<lparr>sc_finishing := True\<rparr>"] failed by (simp add: finish_workers_def)
      next
        case (queued k x)
        then have "r1 = r\<lparr>mr_scheduler := s1, mr_todo := rest\<rparr>" using assms(3) Feeding Cons p q by (simp add: producer_step_def)
        then show ?thesis using pending_inv_enqueue [OF assms(1,2) _ q] Cons p by simp
      qed
    qed
  qed
next
  case (Joining thrown)
  then show ?thesis using assms pending_inv_same [OF assms(1) refl refl]
    by (auto simp: producer_step_def split: if_splits)
qed (use assms(3) in \<open>simp add: producer_step_def\<close>)

lemma mux_sending_pending:
  assumes "mux_sending n payloads r" "\<forall>p raw. Inr (p, raw) \<in> set payloads \<longrightarrow> length p \<le> largest"
    and "max (n * (4 * kMuxChunk)) largest < 2 ^ 64"
  shows "pending_inv n largest r"
  using assms(1)
proof (induction rule: mux_sending.induct)
  case start
  then show ?case using assms(2)
    by (auto simp: pending_inv_def mux_run_start_def scheduler_start_def pending_ok_def chan_bytes_def
        pending_total_def map_replicate_const sum_list_replicate)
next
  case (step r a r1)
  show ?case
  proof (cases a)
    case Produce
    then show ?thesis using step pending_inv_produce [OF _ assms(3)] by (simp add: mux_step_def)
  next
    case (Work k failed elapsed)
    then obtain s1 where "k < length (sc_channels (mr_scheduler r))" "worker_step k failed elapsed (mr_scheduler r) = Some s1"
      "r1 = r\<lparr>mr_scheduler := s1\<rparr>" using step.hyps(2) by (auto simp: mux_step_def split: if_splits)
    moreover have "length (sc_channels (mr_scheduler r)) = n" using step.IH by (simp add: pending_inv_def)
    ultimately show ?thesis using pending_inv_work [OF step.IH] by simp
  qed
qed

text \<open>
  While no send has failed, the bytes that the channels of a parallel send hold back never exceed four chunks for
  each channel, or the largest payload.
\<close>

theorem parallel_send_bounded:
  assumes "mux_sending n payloads r" "\<forall>p raw. Inr (p, raw) \<in> set payloads \<longrightarrow> length p \<le> largest"
    and "max (n * (4 * kMuxChunk)) largest < 2 ^ 64" "sc_error (mr_scheduler r) = None"
  shows "sum_list (map chan_bytes (sc_channels (mr_scheduler r))) \<le> max (n * (4 * kMuxChunk)) largest"
proof -
  have inv: "pending_inv n largest r" by (rule mux_sending_pending [OF assms(1-3)])
  then have e: "map chan_bytes (sc_channels (mr_scheduler r)) = map (\<lambda>c. unat (ch_pending c)) (sc_channels (mr_scheduler r))"
    using assms(4) by (simp add: pending_inv_def pending_ok_def)
  show ?thesis unfolding e using inv by (simp add: pending_inv_def pending_total_def)
qed

text \<open>What is left to do, counted.\<close>

definition chan_weight :: "mux_channel \<Rightarrow> nat" where
  "chan_weight c = 3 * length (ch_queue c) +
     (case ch_worker c of Returned \<Rightarrow> 0 | SendingEnd \<Rightarrow> 1 | WaitWork \<Rightarrow> 2 | SentItem _ _ \<Rightarrow> 3 | Sending _ \<Rightarrow> 4)"

definition mux_weight :: "mux_run \<Rightarrow> nat" where
  "mux_weight r = 4 * length (mr_todo r) + sum_list (map chan_weight (sc_channels (mr_scheduler r))) +
     (case mr_producer r of Feeding \<Rightarrow> 2 | Joining _ \<Rightarrow> 1 | Ended _ \<Rightarrow> 0)"

lemma effect_weight: "worker_effect failed elapsed s c = Some (c1, err) \<Longrightarrow> chan_weight c1 < chan_weight c"
  by (cases "ch_worker c")
    (auto simp: worker_effect_def chan_weight_def split: option.splits list.splits if_splits)

lemma produce_weight:
  assumes "producer_step r = Some r1"
  shows "mux_weight r1 < mux_weight r"
proof (cases "mr_producer r")
  case Feeding
  show ?thesis
  proof (cases "mr_todo r")
    case Nil
    then show ?thesis using assms Feeding by (auto simp: producer_step_def finish_workers_def mux_weight_def)
  next
    case (Cons p rest)
    show ?thesis
    proof (cases p)
      case (Inl e)
      then show ?thesis using assms Feeding Cons by (auto simp: producer_step_def finish_workers_def mux_weight_def)
    next
      case (Inr pr)
      obtain payload raw where p: "p = Inr (payload, raw)" using Inr by (cases pr) simp
      obtain res s1 where q: "enqueue payload raw (mr_scheduler r) = Some (res, s1)"
        using assms Feeding Cons p by (auto simp: producer_step_def split: option.splits)
      from q show ?thesis
      proof (cases rule: enqueue_cases)
        case (failed e x)
        then have "r1 = finish_workers (Some e) (r\<lparr>mr_scheduler := s1\<rparr>)"
          using assms Feeding Cons p q by (simp add: producer_step_def)
        then show ?thesis using failed Feeding by (simp add: finish_workers_def mux_weight_def)
      next
        case (queued k x)
        let ?c = "sc_channels (mr_scheduler r) ! k"
        have r1: "r1 = r\<lparr>mr_scheduler := s1, mr_todo := rest\<rparr>"
          using assms Feeding Cons p q queued(2) by (simp add: producer_step_def)
        obtain d where d: "sc_channels s1 = (sc_channels (mr_scheduler r))[k := d]" "chan_weight d = chan_weight ?c + 3"
          using queued(5) by (simp add: chan_weight_def)
        have "sum_list (map chan_weight (sc_channels s1)) + chan_weight ?c =
            sum_list (map chan_weight (sc_channels (mr_scheduler r))) + chan_weight d"
          unfolding d(1) by (rule sum_list_map_update [OF queued(3)])
        then show ?thesis using Cons d(2) by (simp add: r1 mux_weight_def)
      qed
    qed
  qed
next
  case (Joining thrown)
  then show ?thesis using assms by (auto simp: producer_step_def mux_weight_def split: if_splits)
qed (use assms in \<open>simp add: producer_step_def\<close>)

lemma mux_step_weight:
  assumes "mux_step a r = Some r1"
  shows "mux_weight r1 < mux_weight r"
proof (cases a)
  case Produce
  then show ?thesis using assms produce_weight by (simp add: mux_step_def)
next
  case (Work k failed elapsed)
  then obtain s1 where k: "k < length (sc_channels (mr_scheduler r))"
    and w: "worker_step k failed elapsed (mr_scheduler r) = Some s1" and r1: "r1 = r\<lparr>mr_scheduler := s1\<rparr>"
    using assms by (auto simp: mux_step_def split: if_splits)
  obtain c err where e: "worker_effect failed elapsed (mr_scheduler r) (sc_channels (mr_scheduler r) ! k) = Some (c, err)"
    "sc_channels s1 = (sc_channels (mr_scheduler r))[k := c]"
    using worker_step_effect [OF w] by blast
  have "sum_list (map chan_weight (sc_channels s1)) + chan_weight (sc_channels (mr_scheduler r) ! k) =
      sum_list (map chan_weight (sc_channels (mr_scheduler r))) + chan_weight c"
    unfolding e(2) by (rule sum_list_map_update [OF k])
  then show ?thesis using effect_weight [OF e(1)] r1 by (simp add: mux_weight_def)
qed

text \<open>A worker that waits has nothing to do; every other one has a step.\<close>

lemma effect_None:
  "worker_effect failed elapsed s c = None \<longleftrightarrow>
    ch_worker c = Returned \<or> ch_worker c = WaitWork \<and> sc_error s = None \<and> ch_queue c = [] \<and> \<not> sc_finishing s"
  by (cases "ch_worker c") (auto simp: worker_effect_def split: option.splits list.splits)

lemma mux_not_stuck:
  assumes "mux_sending n payloads r" "pending_inv n largest r" "0 < n" "\<forall>a. mux_step a r = None"
  shows "\<exists>res. mr_producer r = Ended res"
proof -
  let ?s = "mr_scheduler r"
  note inv = mux_sending_inv [OF assms(1)]
  have len: "length (sc_channels ?s) = n" using inv by (simp add: mux_inv_def)
  have still: "worker_effect None 0 ?s (sc_channels ?s ! k) = None" if "k < n" for k
    using assms(4) [rule_format, of "Work k None 0"] that len by (simp add: mux_step_def worker_step_enabled)
  have prod: "producer_step r = None" using assms(4) [rule_format, of Produce] by (simp add: mux_step_def)
  show ?thesis
  proof (cases "mr_producer r")
    case Feeding
    then obtain payload raw rest where todo: "mr_todo r = Inr (payload, raw) # rest" "enqueue payload raw ?s = None"
      using prod by (auto simp: producer_step_def split: list.splits sum.splits option.splits)
    then have e: "sc_error ?s = None" "fst (choose_ready_channel (of_nat (length payload)) ?s) = None"
      by (auto simp: enqueue_def split: prod.splits option.splits)
    obtain k where k: "k < n" "ch_pending (sc_channels ?s ! k) \<noteq> 0"
      using choose_None [of "of_nat (length payload)" ?s] e(2) assms(3) len
      by (metis length_greater_0_conv prod.collapse)
    have "pending_ok (sc_channels ?s ! k)" using assms(2) e(1) k(1) len by (simp add: pending_inv_def)
    then have "chan_bytes (sc_channels ?s ! k) \<noteq> 0" using k(2) by (metis pending_ok_def unat_eq_zero)
    moreover have "ch_worker (sc_channels ?s ! k) \<noteq> Returned"
    proof
      assume "ch_worker (sc_channels ?s ! k) = Returned"
      moreover have "chan_ok (sc_finishing ?s) None (sc_channels ?s ! k)"
        using inv e(1) k(1) len by (metis mux_inv_def nth_mem)
      ultimately have "sc_finishing ?s" by (simp add: chan_ok_def)
      then show False using inv Feeding by (simp add: mux_inv_def)
    qed
    ultimately show ?thesis using still [OF k(1)] by (auto simp: effect_None chan_bytes_def)
  next
    case (Joining thrown)
    then have "\<not> all_returned ?s" using prod by (simp add: producer_step_def split: if_splits)
    then obtain k where "k < n" "ch_worker (sc_channels ?s ! k) \<noteq> Returned"
      using len by (auto simp: all_returned_def list_all_iff in_set_conv_nth)
    moreover have "sc_finishing ?s" using inv Joining by (simp add: mux_inv_def)
    ultimately show ?thesis using still by (auto simp: effect_None)
  qed simp
qed

fun mux_steps :: "mux_action list \<Rightarrow> mux_run \<Rightarrow> mux_run option" where
  "mux_steps [] r = Some r"
| "mux_steps (a # as) r = (case mux_step a r of None \<Rightarrow> None | Some r1 \<Rightarrow> mux_steps as r1)"

lemma mux_steps_sending: "mux_steps as r = Some r1 \<Longrightarrow> mux_sending n payloads r \<Longrightarrow> mux_sending n payloads r1"
  by (induction as r rule: mux_steps.induct) (auto split: option.splits intro: mux_sending.step)

lemma mux_steps_weight: "mux_steps as r = Some r1 \<Longrightarrow> length as + mux_weight r1 \<le> mux_weight r"
proof (induction as r rule: mux_steps.induct)
  case (2 a as r)
  then show ?case using mux_step_weight [of a r] by (fastforce split: option.splits)
qed simp

text \<open>
  C17: A parallel send always ends: no schedule has more steps than four for each payload and two for
  each channel and the producer, and as long as it has not returned, some step can be taken,
  whatever the outcomes of the sends are.
\<close>

theorem parallel_send_ends:
  assumes "mux_steps actions (mux_run_start n payloads) = Some r" "0 < n"
    and "\<forall>p raw. Inr (p, raw) \<in> set payloads \<longrightarrow> length p \<le> largest" "max (n * (4 * kMuxChunk)) largest < 2 ^ 64"
  shows "length actions \<le> 4 * length payloads + 2 * n + 2 \<and>
    ((\<forall>a. mux_step a r = None) \<longrightarrow> (\<exists>res. mr_producer r = Ended res))"
proof -
  have s: "mux_sending n payloads r" by (rule mux_steps_sending [OF assms(1) mux_sending.start])
  have "mux_weight (mux_run_start n payloads) = 4 * length payloads + 2 * n + 2"
    by (simp add: mux_weight_def mux_run_start_def scheduler_start_def chan_weight_def sum_list_replicate map_replicate_const)
  then have "length actions \<le> 4 * length payloads + 2 * n + 2" using mux_steps_weight [OF assms(1)] by simp
  then show ?thesis using mux_not_stuck [OF s mux_sending_pending [OF s assms(3,4)] assms(2)] by blast
qed

section \<open>A run over two channels\<close>

definition sample_payloads :: "(bytes \<times> u64) result list" where
  "sample_payloads = [Inr ([1, 2], 2), Inr ([3], 1)]"

definition sample_schedule :: "mux_action list" where
  "sample_schedule = [Produce, Work 0 None 0, Produce, Work 1 None 0, Work 1 None 3, Produce, Work 0 None 5, Work 1 None 0,
     Work 1 None 0, Work 0 None 0, Work 0 None 0, Work 1 None 0, Work 0 None 0, Produce]"

definition sample_sent :: "mux_run option \<Rightarrow> (producer_pc \<times> tagged_frame list list) option" where
  "sample_sent r = map_option (\<lambda>r. (mr_producer r, map ch_sent (sc_channels (mr_scheduler r)))) r"

lemma pending_limit_code [code]: "kMaxPendingPerChannel = 1048576"
  by (simp add: kMaxPendingPerChannel_def kMuxChunk_def)

lemma sample_schedule_ends:
  "sample_sent (mux_steps sample_schedule (mux_run_start 2 sample_payloads)) =
     Some (Ended (Inr ()), [[data_frame [1, 2], end_frame], [data_frame [3], end_frame]])"
  by code_simp

lemma sample_run:
  obtains r where "mux_steps sample_schedule (mux_run_start 2 sample_payloads) = Some r"
    "mux_sending 2 sample_payloads r" "mr_producer r = Ended (Inr ())"
    "map ch_sent (sc_channels (mr_scheduler r)) = [[data_frame [1, 2], end_frame], [data_frame [3], end_frame]]"
  using sample_schedule_ends mux_steps_sending mux_sending.start by (auto simp: sample_sent_def)

lemma parallel_send_delivers_example:
  "\<exists>r fed pss. mux_steps sample_schedule (mux_run_start 2 sample_payloads) = Some r \<and> sample_payloads = map Inr fed \<and>
     map ch_sent (sc_channels (mr_scheduler r)) = map (\<lambda>ps. map data_frame ps @ [end_frame]) pss \<and>
     mset (concat pss) = mset (map fst fed)"
proof (rule sample_run)
  fix r
  assume r: "mux_steps sample_schedule (mux_run_start 2 sample_payloads) = Some r"
    "mux_sending 2 sample_payloads r" "mr_producer r = Ended (Inr ())"
  show ?thesis using parallel_send_delivers [OF r(2,3)] r(1) by blast
qed

lemma sample_small: "\<forall>p raw. Inr (p, raw) \<in> set sample_payloads \<longrightarrow> length p \<le> 2"
  by (simp add: sample_payloads_def)

theorem parallel_send_ends_witness:
  "length sample_schedule \<le> 4 * length sample_payloads + 2 * 2 + 2"
proof (rule sample_run)
  fix r
  assume r: "mux_steps sample_schedule (mux_run_start 2 sample_payloads) = Some r"
  show ?thesis using parallel_send_ends [OF r _ sample_small] by (simp add: kMuxChunk_def)
qed

theorem parallel_send_bounded_witness:
  "\<exists>r. mux_steps [Produce, Produce, Work 0 None 0] (mux_run_start 2 sample_payloads) = Some r \<and>
     sum_list (map chan_bytes (sc_channels (mr_scheduler r))) \<le> 2 * (4 * kMuxChunk)"
proof -
  have "map_option (\<lambda>r. sc_error (mr_scheduler r)) (mux_steps [Produce, Produce, Work 0 None 0] (mux_run_start 2 sample_payloads)) = Some None"
    by code_simp
  then obtain r where r: "mux_steps [Produce, Produce, Work 0 None 0] (mux_run_start 2 sample_payloads) = Some r"
    "sc_error (mr_scheduler r) = None" by auto
  have "mux_sending 2 sample_payloads r" by (rule mux_steps_sending [OF r(1) mux_sending.start])
  from parallel_send_bounded [OF this sample_small _ r(2)] show ?thesis
    using r(1) by (auto simp: kMuxChunk_def)
qed

end
