(* ===== verification/Mux_Transfer.thy ===== *)
theory Mux_Transfer
  imports Mux_Send Transfer_Stream
begin

text \<open>
  A parallel transfer from end to end: the pieces that the sender reads, the scheduler that spreads them over
  the channels in any order, the channels' frames that the readers of the receiver take in any
  interleaving, and the file that is there afterwards. Then \<open>send_files_mux\<close> and \<open>receive_files_mux\<close>
  of \<open>src/transfer/mux_transfer.cpp\<close>.
\<close>

section \<open>The pieces of a file\<close>

function pieces_of :: "transfer_env \<Rightarrow> send_session \<Rightarrow> (u64 \<times> bytes) list" where
  "pieces_of env s = (case read_next env s of (None, _) \<Rightarrow> [] | (Some p, s1) \<Rightarrow> p # pieces_of env s1)"
  by pat_completeness auto
termination
  by (relation "measure (\<lambda>(env, s). length (ss_input s))") (auto simp: read_next_def Let_def neq_Nil_conv split: if_splits)

declare pieces_of.simps [simp del]

text \<open>Each piece is a part of the file where its offset says, and no position is left out.\<close>

definition piece_ok :: "nat \<Rightarrow> bytes \<Rightarrow> nat \<Rightarrow> u64 \<times> bytes \<Rightarrow> bool" where
  "piece_ok from src largest p \<longleftrightarrow>
     (case p of (offset, chunk) \<Rightarrow> from \<le> unat offset \<and> unat offset + length chunk \<le> length src \<and>
        chunk = take (length chunk) (drop (unat offset) src) \<and> length chunk \<le> largest)"

definition piece_positions :: "(u64 \<times> bytes) list \<Rightarrow> nat set" where
  "piece_positions ps = (\<Union>(offset, chunk) \<in> set ps. {unat offset ..< unat offset + length chunk})"

lemma pieces_correct:
  assumes "ss_input s = drop from src" "ss_total s = of_nat from" "from \<le> length src" "length src < 2 ^ 64" "0 < env_buffer env"
  shows "(\<forall>p \<in> set (pieces_of env s). piece_ok from src (env_buffer env) p) \<and>
    piece_positions (pieces_of env s) = {from ..< length src} \<and>
    sum_list (map (\<lambda>p. length (snd p)) (pieces_of env s)) = length src - from"
  using assms
proof (induction env s arbitrary: "from" rule: pieces_of.induct)
  case (1 env s)
  let ?chunk = "take (env_buffer env) (ss_input s)"
  show ?case
  proof (cases "?chunk = []")
    case True
    then have "from = length src" using "1.prems" by simp
    moreover have "pieces_of env s = []" using True by (simp add: pieces_of.simps [of env s] read_next_def)
    ultimately show ?thesis by (simp add: piece_positions_def)
  next
    case False
    let ?s1 = "s\<lparr>ss_input := drop (length ?chunk) (ss_input s), ss_hasher := map_option (\<lambda>h. h @ ?chunk) (ss_hasher s),
              ss_total := ss_total s + of_nat (length ?chunk)\<rparr>"
    have r: "read_next env s = (Some (ss_total s, ?chunk), ?s1)" using False by (simp add: read_next_def Let_def)
    have e: "pieces_of env s = (ss_total s, ?chunk) # pieces_of env ?s1" by (simp add: pieces_of.simps [of env s] r)
    have from64: "unat (ss_total s) = from" using "1.prems" by (simp add: unat_of_nat)
    have len: "0 < length ?chunk" "from + length ?chunk \<le> length src" "length ?chunk \<le> env_buffer env"
      using False "1.prems"(1,3) by auto
    have chunk: "?chunk = take (length ?chunk) (drop from src)" using "1.prems"(1) by (simp add: min_def)
    have ih: "(\<forall>p \<in> set (pieces_of env ?s1). piece_ok (from + length ?chunk) src (env_buffer env) p) \<and>
      piece_positions (pieces_of env ?s1) = {from + length ?chunk ..< length src} \<and>
      sum_list (map (\<lambda>p. length (snd p)) (pieces_of env ?s1)) = length src - (from + length ?chunk)"
      by (rule "1.IH" [OF r [symmetric] refl]) (use "1.prems" len in \<open>simp_all add: add.commute\<close>)
    have "piece_ok from src (env_buffer env) (ss_total s, ?chunk)"
      unfolding piece_ok_def using from64 len chunk by simp
    moreover have "piece_ok from src (env_buffer env) p" if "piece_ok (from + length ?chunk) src (env_buffer env) p" for p
      using that by (auto simp: piece_ok_def)
    moreover have "{from ..< from + length ?chunk} \<union> {from + length ?chunk ..< length src} = {from ..< length src}"
      using len(2) by auto
    ultimately show ?thesis unfolding e using ih from64 len(2) by (simp add: piece_positions_def)
  qed
qed

section \<open>The frames of a piece\<close>

definition undoes :: "(bytes \<Rightarrow> nat \<Rightarrow> bytes result) \<Rightarrow> (bytes \<Rightarrow> bytes result) \<Rightarrow> bool" where
  "undoes decompress compress \<longleftrightarrow> (\<forall>chunk body. compress chunk = Inr body \<longrightarrow> decompress body (length chunk) = Inr chunk)"

lemma piece_decoded:
  assumes "mux_payload compress (mc_use_zstd c) (offset, chunk) = Inr (payload, raw)" "undoes decompress compress"
    and "piece_ok (unat (mc_resume_offset c)) src kMuxChunk (offset, chunk)" "length src = unat (mc_declared_size c)"
  shows "andthen (Inr (Some (data_frame payload))) (decode_mux_frame decompress c) = Inr (Some (offset, chunk))"
proof -
  obtain body where body: "(if mc_use_zstd c then compress chunk else Inr chunk) = Inr body"
    "payload = put_u64 offset @ put_u32 (of_nat (length chunk)) @ body"
    using assms(1) by (auto simp: mux_payload_def andthen_Inr_iff)
  have ok: "unat (mc_resume_offset c) \<le> unat offset" "unat offset + length chunk \<le> unat (mc_declared_size c)" "length chunk \<le> kMuxChunk"
    using assms(3,4) by (simp_all add: piece_ok_def)
  have n32: "unat (of_nat (length chunk) :: u32) = length chunk" and n64: "unat (of_nat (length chunk) :: u64) = length chunk"
    using ok(3) by (simp_all add: unat_of_nat kMuxChunk_def)
  have uc: "ucast (of_nat (length chunk) :: u32) = (of_nat (length chunk) :: u64)"
    using n32 n64 ok(3) by (simp only: word_unat_eq_iff unsigned_ucast_eq) (simp add: kMuxChunk_def take_bit_nat_eq_self)
  have sp: "ensure_declared_space offset (mc_declared_size c) (of_nat (length chunk)) (mc_current_relative c) = Inr ()"
    using ok(2) n64 by (simp add: declared_space_iff)
  have le: "mc_resume_offset c \<le> offset" using ok(1) by (simp add: word_le_nat_alt)
  have dec: "(if mc_use_zstd c then decompress body (length chunk)
       else if length body \<noteq> length chunk then Inl ''uncompressed chunk size mismatch'' else Inr body) = Inr chunk"
    using body(1) assms(2) by (auto simp: undoes_def split: if_splits)
  show ?thesis
    using ok(3) le sp dec uc n32 by (simp add: decode_mux_frame_def body(2) Let_def andthen_def not_less split: if_splits)
qed

section \<open>The readers\<close>

text \<open>
  The turns of the readers take the frames of every channel in its order; the channels are interleaved
  in any way. \<open>w\<close>: what the output stream takes, all of a chunk here.
\<close>

inductive fed_by :: "(nat \<Rightarrow> tagged_frame list) \<Rightarrow> (nat \<times> tagged_frame option result \<times> nat) list \<Rightarrow> bool" where
  all_taken: "\<forall>k. feeds k = [] \<Longrightarrow> fed_by feeds []"
| takes: "feeds k = f # fs \<Longrightarrow> kMuxChunk \<le> w \<Longrightarrow> fed_by (feeds(k := fs)) events \<Longrightarrow>
    fed_by feeds ((k, Inr (Some f), w) # events)"

text \<open>What is left on a channel: data frames that decode to pieces of the file, then the end mark.\<close>

definition good_data :: "(bytes \<Rightarrow> nat \<Rightarrow> bytes result) \<Rightarrow> mux_config \<Rightarrow> bytes \<Rightarrow> bytes \<Rightarrow> bool" where
  "good_data decompress c src payload \<longleftrightarrow>
     (\<exists>offset chunk. andthen (Inr (Some (data_frame payload))) (decode_mux_frame decompress c) = Inr (Some (offset, chunk)) \<and>
        piece_ok (unat (mc_resume_offset c)) src kMuxChunk (offset, chunk))"

definition good_feed :: "(bytes \<Rightarrow> nat \<Rightarrow> bytes result) \<Rightarrow> mux_config \<Rightarrow> bytes \<Rightarrow> tagged_frame list \<Rightarrow> bool" where
  "good_feed decompress c src fs \<longleftrightarrow>
     fs = [] \<or> (\<exists>ps. fs = map data_frame ps @ [end_frame] \<and> (\<forall>p \<in> set ps. good_data decompress c src p))"

definition decoded_piece :: "(bytes \<Rightarrow> nat \<Rightarrow> bytes result) \<Rightarrow> mux_config \<Rightarrow> tagged_frame \<Rightarrow> (u64 \<times> bytes) option" where
  "decoded_piece decompress c f =
     (case andthen (Inr (Some f)) (decode_mux_frame decompress c) of Inr (Some p) \<Rightarrow> Some p | _ \<Rightarrow> None)"

definition event_pieces ::
    "(bytes \<Rightarrow> nat \<Rightarrow> bytes result) \<Rightarrow> mux_config \<Rightarrow> (nat \<times> tagged_frame option result \<times> nat) list \<Rightarrow> (u64 \<times> bytes) list" where
  "event_pieces decompress c events =
     List.map_filter (\<lambda>(k, r, w). case r of Inr (Some f) \<Rightarrow> decoded_piece decompress c f | _ \<Rightarrow> None) events"

lemma end_decoded [simp]: "decode_mux_frame decompress c (Some end_frame) = Inr None"
  by (simp add: decode_mux_frame_def)

lemma data_honest:
  assumes "andthen (Inr (Some f)) (decode_mux_frame decompress c) = Inr (Some (offset, chunk))"
    and "piece_ok from src largest (offset, chunk)"
  shows "honest decompress c src (k, Inr (Some f), w)"
  using assms by (simp add: honest_def piece_ok_def)

lemma run_fed:
  assumes "fed_by feeds events" "\<forall>k. good_feed decompress c src (feeds k)" "length src = unat (mc_declared_size c)"
    and "session_inv c src s" "\<not> ms_failed s" "\<forall>k \<in> ms_ended s. feeds k = []"
  shows "let t = run_readers decompress c events s in
    session_inv c src t \<and> \<not> ms_failed t \<and>
    covered (ms_ranges t) = covered (ms_ranges s) \<union> piece_positions (event_pieces decompress c events) \<and>
    ms_written t = ms_written s + of_nat (sum_list (map (\<lambda>p. length (snd p)) (event_pieces decompress c events)))"
  using assms(1,2,4-6)
proof (induction arbitrary: s rule: fed_by.induct)
  case (all_taken feeds)
  then show ?case by (simp add: run_readers_def event_pieces_def piece_positions_def map_filter_simps)
next
  case (takes feeds k f fs w events)
  have k: "k \<notin> ms_ended s" using takes.prems(4) takes.hyps(1) by auto
  obtain ps where ps: "f # fs = map data_frame ps @ [end_frame]" "\<forall>p \<in> set ps. good_data decompress c src p"
    using takes.prems(1) takes.hyps(1) by (metis good_feed_def list.discI)
  show ?case
  proof (cases ps)
    case Nil
    then have f: "f = end_frame" "fs = []" using ps(1) by simp_all
    let ?s1 = "s\<lparr>ms_ended := insert k (ms_ended s)\<rparr>"
    have t: "reader_turn decompress c (k, Inr (Some f), w) s = ?s1"
      using k f(1) by (simp add: reader_turn_def andthen_def)
    have "decoded_piece decompress c f = None" using f(1) by (simp add: decoded_piece_def andthen_def)
    then have e: "event_pieces decompress c ((k, Inr (Some f), w) # events) = event_pieces decompress c events"
      by (simp add: event_pieces_def map_filter_simps)
    have "let t = run_readers decompress c events ?s1 in
      session_inv c src t \<and> \<not> ms_failed t \<and>
      covered (ms_ranges t) = covered (ms_ranges ?s1) \<union> piece_positions (event_pieces decompress c events) \<and>
      ms_written t = ms_written ?s1 + of_nat (sum_list (map (\<lambda>p. length (snd p)) (event_pieces decompress c events)))"
      by (rule takes.IH) (use takes.prems f(2) session_inv_failure(2) in \<open>auto simp: good_feed_def\<close>)
    then show ?thesis unfolding e by (simp add: run_readers_def t)
  next
    case (Cons p qs)
    then have f: "f = data_frame p" "fs = map data_frame qs @ [end_frame]" using ps(1) by simp_all
    obtain offset chunk where d: "andthen (Inr (Some f)) (decode_mux_frame decompress c) = Inr (Some (offset, chunk))"
      "piece_ok (unat (mc_resume_offset c)) src kMuxChunk (offset, chunk)"
      using ps(2) Cons f(1) unfolding good_data_def by auto
    have len: "length chunk \<le> w" "unat offset + length chunk \<le> length src" "chunk = take (length chunk) (drop (unat offset) src)"
      using d(2) takes.hyps(2) by (auto simp: piece_ok_def)
    have small: "unat offset + length chunk < 2 ^ 64" using len(2) assms(3) u64_less_bound [of "mc_declared_size c"] by simp
    then have n64: "unat (of_nat (length chunk) :: u64) = length chunk" by (simp add: unat_of_nat)
    obtain delta rg where rg: "record_written_range offset (of_nat (length chunk)) (ms_ranges s) = (delta, rg)" by fastforce
    let ?s1 = "s\<lparr>ms_file := write_at (unat offset) chunk (ms_file s), ms_ranges := rg,
      ms_written := ms_written s + of_nat (length chunk), ms_reported := ms_reported s + delta\<rparr>"
    have c: "commit_chunk offset chunk w s = (Inr (), ?s1)"
      using len(1) rg by (simp add: commit_chunk_def Let_def)
    have t: "reader_turn decompress c (k, Inr (Some f), w) s = ?s1"
      using k d(1) c by (simp add: reader_turn_def)
    have inv: "session_inv c src ?s1"
      by (rule commit_chunk_inv [OF takes.prems(2) len(3) _ c]) (use len(2) assms(3) in simp)
    have ri: "range_inv (ms_ranges s)" using takes.prems(2) by (simp add: session_inv_def)
    have cov: "covered rg = covered (ms_ranges s) \<union> {unat offset ..< unat offset + length chunk}"
      using record_range_step(2) [OF ri _ rg] small n64 by simp
    have "decoded_piece decompress c f = Some (offset, chunk)" using d(1) by (simp add: decoded_piece_def)
    then have e: "event_pieces decompress c ((k, Inr (Some f), w) # events) = (offset, chunk) # event_pieces decompress c events"
      by (simp add: event_pieces_def map_filter_simps)
    have "let t = run_readers decompress c events ?s1 in
      session_inv c src t \<and> \<not> ms_failed t \<and>
      covered (ms_ranges t) = covered (ms_ranges ?s1) \<union> piece_positions (event_pieces decompress c events) \<and>
      ms_written t = ms_written ?s1 + of_nat (sum_list (map (\<lambda>p. length (snd p)) (event_pieces decompress c events)))"
    proof (rule takes.IH)
      show "\<forall>j. good_feed decompress c src ((feeds(k := fs)) j)"
        using takes.prems(1) f(2) ps(2) Cons by (auto simp: good_feed_def)
      show "session_inv c src ?s1" by (rule inv)
    qed (use takes.prems k in auto)
    then show ?thesis unfolding e using cov by (simp add: run_readers_def t piece_positions_def Let_def ac_simps)
  qed
qed

lemma mset_map_filter: "mset xs = mset ys \<Longrightarrow> mset (List.map_filter f xs) = mset (List.map_filter f ys)"
  by (simp add: List.map_filter_def mset_filter)

text \<open>Every frame that is sent arrives: the pieces are those of the feeds, in some order.\<close>

lemma fed_pieces:
  assumes "fed_by feeds events" "\<forall>k \<ge> n. feeds k = []"
  shows "mset (event_pieces decompress c events) =
    mset (List.map_filter (decoded_piece decompress c) (concat (map feeds [0..<n])))"
  using assms
proof (induction rule: fed_by.induct)
  case (all_taken feeds)
  then have "concat (map feeds [0..<n]) = []" by simp
  then show ?case by (simp add: event_pieces_def del: concat_eq_Nil_conv)
next
  case (takes feeds k f fs w events)
  have k: "k < n" using takes.hyps(1) takes.prems by (metis list.discI not_le)
  have "mset (concat (map feeds [0..<n])) = add_mset f (mset (concat (map (feeds(k := fs)) [0..<n])))"
  proof -
    have "[0..<n] = [0..<k] @ k # [Suc k..<n]"
      using upt_add_eq_append [of 0 k "n - k"] upt_conv_Cons [OF k] k by simp
    then show ?thesis using takes.hyps(1) by simp
  qed
  then have "mset (List.map_filter (decoded_piece decompress c) (concat (map feeds [0..<n]))) =
      mset (List.map_filter (decoded_piece decompress c) (f # concat (map (feeds(k := fs)) [0..<n])))"
    by (intro mset_map_filter) simp
  moreover have "mset (event_pieces decompress c events) =
      mset (List.map_filter (decoded_piece decompress c) (concat (map (feeds(k := fs)) [0..<n])))"
    by (rule takes.IH) (use takes.prems k in auto)
  ultimately show ?case
    by (cases "decoded_piece decompress c f") (simp_all add: event_pieces_def map_filter_simps)
qed

section \<open>From end to end\<close>

lemma payloads_good:
  assumes "map (mux_payload compress (mc_use_zstd c)) pieces = map Inr fed" "undoes decompress compress"
    and "\<forall>p \<in> set pieces. piece_ok (unat (mc_resume_offset c)) src kMuxChunk p" "length src = unat (mc_declared_size c)"
  shows "(\<forall>p \<in> set (map fst fed). good_data decompress c src p) \<and>
    List.map_filter (decoded_piece decompress c) (map data_frame (map fst fed)) = pieces"
  using assms(1,3)
proof (induction pieces arbitrary: fed)
  case (Cons p ps)
  obtain payload raw rest where fed: "fed = (payload, raw) # rest" using Cons.prems(1) by (cases fed) auto
  obtain offset chunk where p: "p = (offset, chunk)" by (cases p)
  have "mux_payload compress (mc_use_zstd c) (offset, chunk) = Inr (payload, raw)" using Cons.prems(1) fed p by simp
  note d = piece_decoded [OF this assms(2) _ assms(4)]
  have "(\<forall>p \<in> set (map fst rest). good_data decompress c src p) \<and>
    List.map_filter (decoded_piece decompress c) (map data_frame (map fst rest)) = ps"
    by (rule Cons.IH) (use Cons.prems fed in auto)
  moreover have "decoded_piece decompress c (data_frame payload) = Some p"
    using d Cons.prems(2) p by (simp add: decoded_piece_def)
  moreover have "good_data decompress c src payload" using d Cons.prems(2) p by (auto simp: good_data_def)
  ultimately show ?case using fed by simp
qed simp

lemma map_filter_ends:
  "List.map_filter (decoded_piece decompress c) (concat (map (\<lambda>ps. map data_frame ps @ [end_frame]) pss)) =
   List.map_filter (decoded_piece decompress c) (map data_frame (concat pss))"
proof -
  have "decoded_piece decompress c end_frame = None" by (simp add: decoded_piece_def andthen_def)
  then show ?thesis by (induction pss) (simp_all add: List.map_filter_def)
qed

text \<open>
  C16: A parallel transfer delivers the file. Whenever the sender of a file's pieces has returned without an
  error, however producer and workers were scheduled, and the readers of the receiver take what the channels carry, in any
  interleaving, the receive succeeds and the partial file is the source file, from whatever offset it
  was resumed, compressed or not.
\<close>

theorem parallel_transfer_delivers_source:
  assumes "mux_sending n (map (mux_payload compress (mc_use_zstd c)) (pieces_of env session)) r" "mr_producer r = Ended (Inr ())"
    and "ss_input session = drop (unat (mc_resume_offset c)) src" "ss_total session = mc_resume_offset c" "env_buffer env = kMuxChunk"
    and "length src = unat (mc_declared_size c)" "mc_resume_offset c \<le> mc_declared_size c"
    and "undoes decompress compress"
    and "fed_by (\<lambda>k. if k < n then ch_sent (sc_channels (mr_scheduler r) ! k) else []) events"
  shows "\<exists>s. mux_receive_result trim_error
      (run_readers decompress c events (mux_start c (take (unat (mc_resume_offset c)) src))) = (Inr (mc_declared_size c), s) \<and>
    ms_file s = src"
proof -
  let ?from = "unat (mc_resume_offset c)"
  let ?pieces = "pieces_of env session"
  let ?feeds = "\<lambda>k. if k < n then ch_sent (sc_channels (mr_scheduler r) ! k) else []"
  have le: "?from \<le> length src" using assms(6,7) by (simp add: word_le_nat_alt)
  have src64: "length src < 2 ^ 64" using assms(6) u64_less_bound [of "mc_declared_size c"] by simp
  have pieces: "\<forall>p \<in> set ?pieces. piece_ok ?from src kMuxChunk p" "piece_positions ?pieces = {?from ..< length src}"
    "sum_list (map (\<lambda>p. length (snd p)) ?pieces) = length src - ?from"
    using pieces_correct [OF assms(3) _ le src64, of env] assms(4,5) by (simp_all add: kMuxChunk_def)
  obtain fed pss where sent: "map (mux_payload compress (mc_use_zstd c)) ?pieces = map Inr fed"
    "map ch_sent (sc_channels (mr_scheduler r)) = map (\<lambda>ps. map data_frame ps @ [end_frame]) pss" "length pss = n"
    "mset (concat pss) = mset (map fst fed)"
    using parallel_send_delivers [OF assms(1,2)] by blast
  note good = payloads_good [OF sent(1) assms(8) pieces(1) assms(6)]
  have len: "length (sc_channels (mr_scheduler r)) = n" using arg_cong [OF sent(2), of length] sent(3) by simp
  have feed: "?feeds k = map data_frame (pss ! k) @ [end_frame]" if "k < n" for k
    using that len sent(3) arg_cong [OF sent(2), of "\<lambda>xs. xs ! k"] by simp
  have "good_feed decompress c src (?feeds k)" for k
  proof (cases "k < n")
    case True
    then have "pss ! k \<in> set pss" using sent(3) by simp
    then have "set (pss ! k) \<subseteq> set (map fst fed)"
      unfolding mset_eq_setD [OF sent(4), symmetric] by auto
    then show ?thesis unfolding feed [OF True] using good by (auto simp: good_feed_def)
  qed (simp add: good_feed_def)
  then have feeds: "\<forall>k. good_feed decompress c src (?feeds k)" by blast
  have start: "session_inv c src (mux_start c (take ?from src))" by (rule mux_start_inv [OF assms(7,6) refl])
  let ?t = "run_readers decompress c events (mux_start c (take ?from src))"
  have t: "session_inv c src ?t" "\<not> ms_failed ?t"
    "covered (ms_ranges ?t) = {0 ..< ?from} \<union> piece_positions (event_pieces decompress c events)"
    "ms_written ?t = mc_resume_offset c + of_nat (sum_list (map (\<lambda>p. length (snd p)) (event_pieces decompress c events)))"
    using run_fed [OF assms(9) feeds assms(6) start] by (simp_all add: mux_start_def covered_def Let_def)
  have "concat (map ?feeds [0..<n]) = concat (map (\<lambda>ps. map data_frame ps @ [end_frame]) pss)"
  proof -
    have "map ?feeds [0..<n] = map (\<lambda>ps. map data_frame ps @ [end_frame]) pss"
      using feed sent(3) by (intro nth_equalityI) simp_all
    then show ?thesis by (rule arg_cong)
  qed
  then have "mset (event_pieces decompress c events) =
      mset (List.map_filter (decoded_piece decompress c) (map data_frame (concat pss)))"
    using fed_pieces [OF assms(9), of n decompress c] by (simp add: map_filter_ends)
  also have "\<dots> = mset (List.map_filter (decoded_piece decompress c) (map data_frame (map fst fed)))"
    by (rule mset_map_filter) (simp only: mset_map sent(4))
  also have "\<dots> = mset ?pieces" using good by simp
  finally have m: "mset (event_pieces decompress c events) = mset ?pieces" .
  then have "set (event_pieces decompress c events) = set ?pieces" by (metis set_mset_mset)
  then have pos: "piece_positions (event_pieces decompress c events) = {?from ..< length src}"
    using pieces(2) by (simp add: piece_positions_def)
  have sum: "sum_list (map (\<lambda>p. length (snd p)) (event_pieces decompress c events)) = length src - ?from"
    using pieces(3) arg_cong [OF m, of "\<lambda>M. sum_mset (image_mset (\<lambda>p. length (snd p)) M)"]
    by (simp flip: sum_mset_sum_list mset_map)
  have all: "covered (ms_ranges ?t) = {0 ..< length src}" using t(3) pos le by auto
  have "contiguous_prefix (ms_ranges ?t) = mc_declared_size c"
  proof -
    have ri: "range_inv (ms_ranges ?t)" using t(1) by (simp add: session_inv_def)
    have "unat (contiguous_prefix (ms_ranges ?t)) = (LEAST i. i \<notin> {0 ..< length src})"
      using prefix_is_Least [OF ri] all by simp
    also have "\<dots> = length src" by (rule Least_equality) auto
    finally show ?thesis using assms(6) by (simp add: word_unat_eq_iff)
  qed
  then have "ms_file ?t = src" using session_inv_complete [OF t(1) assms(6)] by blast
  moreover have "ms_written ?t = mc_declared_size c"
  proof -
    have "ms_written ?t = of_nat (?from + (length src - ?from))" using t(4) sum by (simp only: of_nat_add) simp
    then show ?thesis using le assms(6) by simp
  qed
  ultimately show ?thesis using t(2) by (simp add: mux_receive_result_def)
qed

text \<open>A file of three bytes, one of which is there already, over two channels.\<close>

definition three_config :: mux_config where
  "three_config = mux_example\<lparr>mc_declared_size := 3, mc_resume_offset := 1, mc_use_zstd := False\<rparr>"

definition three_env :: transfer_env where
  "three_env = \<lparr>env_dump = (\<lambda>_. Inr []), env_parse = (\<lambda>_. Inl []), env_sha256 = (\<lambda>b. b), env_imohash = (\<lambda>_. Inr []),
     env_volume = \<lparr>v_exists = \<lambda>_ _. Inr True, v_space = \<lambda>_ _. Inr 0, v_random = \<lambda>_. []\<rparr>, env_code = [], env_buffer = kMuxChunk\<rparr>"

definition three_session :: send_session where
  "three_session = \<lparr>ss_entry = sample_entry ''p'' 3, ss_input = [2, 3], ss_hasher = Some [1], ss_action = SendPayload, ss_total = 1, ss_zstd = False\<rparr>"

definition three_payload :: bytes where
  "three_payload = [0, 0, 0, 0, 0, 0, 0, 1, 0, 0, 0, 2, 2, 3]"

lemma pieces_end: "ss_input s = [] \<Longrightarrow> pieces_of env s = []"
  by (simp add: pieces_of.simps [of env s] read_next_def)

lemma three_pieces: "pieces_of three_env three_session = [(1, [2, 3])]"
proof -
  have "take kMuxChunk [2, 3 :: u8] = [2, 3]" by (simp add: kMuxChunk_def)
  then show ?thesis
    unfolding pieces_of.simps [of three_env three_session]
    by (simp add: read_next_def three_env_def three_session_def pieces_end Let_def)
qed

lemma three_payloads: "mux_payload Inr False (1, [2, 3]) = Inr (three_payload, 2)"
  by code_simp

definition three_schedule :: "mux_action list" where
  "three_schedule = [Produce, Work 0 None 0, Produce, Work 0 None 0, Work 1 None 0, Work 0 None 0, Work 1 None 0,
      Work 0 None 0, Work 0 None 0, Produce]"

lemma three_run:
  "sample_sent (mux_steps three_schedule (mux_run_start 2 [Inr (three_payload, 2)])) =
     Some (Ended (Inr ()), [[data_frame three_payload, end_frame], [end_frame]])"
  by code_simp

theorem parallel_transfer_delivers_source_witness:
  "\<exists>s. mux_receive_result None (run_readers (\<lambda>b n. Inr b) three_config
      [(1, Inr (Some end_frame), kMuxChunk), (0, Inr (Some (data_frame three_payload)), kMuxChunk),
       (0, Inr (Some end_frame), kMuxChunk)] (mux_start three_config [1])) = (Inr 3, s) \<and> ms_file s = [1, 2, 3]"
proof -
  obtain r where r: "mux_sending 2 [Inr (three_payload, 2)] r" "mr_producer r = Ended (Inr ())"
    "map ch_sent (sc_channels (mr_scheduler r)) = [[data_frame three_payload, end_frame], [end_frame]]"
    using three_run mux_steps_sending [of three_schedule "mux_run_start 2 [Inr (three_payload, 2)]", OF _ mux_sending.start]
    by (cases "mux_steps three_schedule (mux_run_start 2 [Inr (three_payload, 2)])") (simp_all add: sample_sent_def)
  have p: "map (mux_payload Inr (mc_use_zstd three_config)) (pieces_of three_env three_session) = [Inr (three_payload, 2)]"
    by (simp add: three_pieces three_payloads three_config_def)
  have sent: "ch_sent (sc_channels (mr_scheduler r) ! 0) = [data_frame three_payload, end_frame]"
    "ch_sent (sc_channels (mr_scheduler r) ! 1) = [end_frame]"
    using r(3) by (auto simp: map_eq_Cons_conv)
  have feeds: "(\<lambda>k. if k < 2 then ch_sent (sc_channels (mr_scheduler r) ! k) else []) =
      (\<lambda>k. [])(0 := [data_frame three_payload, end_frame], 1 := [end_frame])"
    using sent by (auto simp: fun_eq_iff less_2_cases_iff)
  have "fed_by ((\<lambda>k. [])(0 := [data_frame three_payload, end_frame], 1 := [end_frame]))
      [(1, Inr (Some end_frame), kMuxChunk), (0, Inr (Some (data_frame three_payload)), kMuxChunk), (0, Inr (Some end_frame), kMuxChunk)]"
    by (rule fed_by.takes [where fs = "[]"], simp_all, rule fed_by.takes [where fs = "[end_frame]"], simp_all,
        rule fed_by.takes [where fs = "[]"], simp_all, rule fed_by.all_taken, simp)
  then have fed: "fed_by (\<lambda>k. if k < 2 then ch_sent (sc_channels (mr_scheduler r) ! k) else [])
      [(1, Inr (Some end_frame), kMuxChunk), (0, Inr (Some (data_frame three_payload)), kMuxChunk), (0, Inr (Some end_frame), kMuxChunk)]"
    unfolding feeds .
  show ?thesis
    using parallel_transfer_delivers_source [of 2 Inr three_config three_env three_session r "[1, 2, 3]" "\<lambda>b n. Inr b" _ None,
        OF _ r(2) _ _ _ _ _ _ fed] r(1) p
    by (simp add: three_config_def three_session_def three_env_def undoes_def)
qed

end
