(* ===== verification/Mux_Loop.thy ===== *)
theory Mux_Loop
  imports Mux_Transfer
begin

text \<open>
  \<open>receive_files_mux\<close> of \<open>src/transfer/mux_transfer.cpp\<close>. The control connection is channel 0 and also
  carries data; the frames that arrive on the others are kept beside the state of the control connection.
  How the threads of one parallel receive interleave is a schedule that is given for each file:
  whose turn it is and how many bytes the output stream takes; what it leaves is taken channel by channel.
\<close>

text \<open>\<open>env_block\<close> is \<open>zstd_decompress_block\<close>.\<close>

record mux_env = stream_env +
  env_block :: "bytes \<Rightarrow> nat \<Rightarrow> bytes result"

abbreviation plain_env :: "mux_env \<Rightarrow> transfer_env" where
  "plain_env \<equiv> transfer_env.truncate"

section \<open>Several channels\<close>

record mux_ends =
  me_channels :: nat
  me_feeds :: "nat \<Rightarrow> tagged_frame option result list"
  me_schedules :: "(nat \<times> nat) list list"

type_synonym mux_state = "transfer_io \<times> mux_ends"
type_synonym 'a mxfer = "mux_state \<Rightarrow> 'a result \<times> mux_state"

definition mret :: "'a \<Rightarrow> 'a mxfer" where "mret x st = (Inr x, st)"

definition on_control :: "'a xfer \<Rightarrow> 'a mxfer" where
  "on_control m st = (case m (fst st) of (r, io) \<Rightarrow> (r, (io, snd st)))"

definition mbind :: "'a mxfer \<Rightarrow> ('a \<Rightarrow> 'b mxfer) \<Rightarrow> 'b mxfer" where
  "mbind m f st = (case m st of (Inl e, st1) \<Rightarrow> (Inl e, st1) | (Inr x, st1) \<Rightarrow> f x st1)"

definition mthen :: "'a mxfer \<Rightarrow> 'b mxfer \<Rightarrow> 'b mxfer" where
  "mthen m k = mbind m (\<lambda>_. k)"

text \<open>\<open>recv_tagged(channels[k], ciphers[k])\<close>\<close>

definition mux_recv :: "nat \<Rightarrow> tagged_frame option mxfer" where
  "mux_recv k st =
     (if k = 0 then on_control xrecv st
      else case me_feeds (snd st) k of
          [] \<Rightarrow> (Inr None, st)
        | f # fs \<Rightarrow> (f, (fst st, (snd st)\<lparr>me_feeds := (me_feeds (snd st))(k := fs)\<rparr>)))"

definition mux_expect :: "stream_tag \<Rightarrow> string \<Rightarrow> nat \<Rightarrow> tagged_frame mxfer" where
  "mux_expect tag message k =
     mbind (mux_recv k) (\<lambda>f. on_control (xlift
       (case f of Some a \<Rightarrow> (if tf_tag a = tag then Inr a else Inl message) | None \<Rightarrow> Inl message)))"

fun mux_chunk_ends :: "nat list \<Rightarrow> unit mxfer" where
  "mux_chunk_ends [] = mret ()"
| "mux_chunk_ends (k # ks) = mthen (mux_expect ChunkEnd ''expected mux chunk end'' k) (mux_chunk_ends ks)"

section \<open>One parallel receive\<close>

definition mux_turn ::
    "mux_env \<Rightarrow> mux_config \<Rightarrow> nat \<Rightarrow> nat \<Rightarrow> mux_session \<times> mux_state \<Rightarrow> mux_session \<times> mux_state" where
  "mux_turn env c k wrote run =
     (case run of (s, st) \<Rightarrow>
        if k \<in> ms_ended s \<or> me_channels (snd st) \<le> k then (s, st)
        else case mux_recv k st of (r, st1) \<Rightarrow> (reader_turn (env_block env) c (k, r, wrote) s, st1))"

text \<open>What arrives on a channel.\<close>

definition feed_of :: "nat \<Rightarrow> mux_state \<Rightarrow> tagged_frame option result list" where
  "feed_of k st = (if k = 0 then xi_arriving (fst st) else me_feeds (snd st) k)"

lemma mux_recv_feed:
  "mux_recv k st = (r, st1) \<Longrightarrow>
    (case feed_of k st of [] \<Rightarrow> r = Inr None \<and> st1 = st | f # fs \<Rightarrow> r = f \<and> feed_of k st1 = fs) \<and>
    (j \<noteq> k \<longrightarrow> feed_of j st1 = feed_of j st) \<and> me_channels (snd st1) = me_channels (snd st)"
  by (cases st) (auto simp: mux_recv_def feed_of_def on_control_def xrecv_def split: list.splits if_splits prod.splits)

lemma ended_keeps: "j \<in> ms_ended s \<Longrightarrow> j \<in> ms_ended (reader_turn d c e s)"
  by (auto simp: reader_turn_def record_failure_def commit_chunk_def Let_def split: prod.splits sum.splits option.splits if_splits)

lemma closed_ends: "k \<notin> ms_ended s \<Longrightarrow> k \<in> ms_ended (reader_turn d c (k, Inr None, w) s)"
  by (simp add: reader_turn_def andthen_def decode_mux_frame_def)

lemma mux_turn_less:
  assumes "k \<notin> ms_ended s" "k < me_channels (snd st)" "mux_turn env c k w (s, st) = (s1, st1)"
  shows "(if k \<in> ms_ended s1 then 0 else Suc (length (feed_of k st1))) < Suc (length (feed_of k st))"
proof -
  obtain r where r: "mux_recv k st = (r, st1)" "s1 = reader_turn (env_block env) c (k, r, w) s"
    using assms by (auto simp: mux_turn_def split: prod.splits)
  show ?thesis
  proof (cases "feed_of k st")
    case Nil
    then have "r = Inr None" using mux_recv_feed [OF r(1)] by simp
    then show ?thesis using closed_ends [OF assms(1)] r(2) by simp
  next
    case (Cons f fs)
    then show ?thesis using mux_recv_feed [OF r(1)] by simp
  qed
qed

function mux_drain :: "mux_env \<Rightarrow> mux_config \<Rightarrow> nat \<Rightarrow> mux_session \<times> mux_state \<Rightarrow> mux_session \<times> mux_state" where
  "mux_drain env c k (s, st) =
     (if k \<in> ms_ended s \<or> me_channels (snd st) \<le> k then (s, st) else mux_drain env c k (mux_turn env c k kMuxChunk (s, st)))"
  by pat_completeness auto
termination
proof (relation "measure (\<lambda>(env, c, k, s, st). if k \<in> ms_ended s then 0 else Suc (length (feed_of k st)))", goal_cases)
  case (2 env c k s st)
  obtain s1 st1 where t: "mux_turn env c k kMuxChunk (s, st) = (s1, st1)" by (meson surj_pair)
  show ?case using mux_turn_less [OF _ _ t] 2 by (simp add: t)
qed simp

declare mux_drain.simps [simp del]

definition mux_readers :: "mux_env \<Rightarrow> mux_config \<Rightarrow> (nat \<times> nat) list \<Rightarrow> mux_session \<times> mux_state \<Rightarrow> mux_session \<times> mux_state" where
  "mux_readers env c schedule run =
     (case fold (\<lambda>(k, wrote). mux_turn env c k wrote) schedule run of
        (s, st) \<Rightarrow> fold (mux_drain env c) [0..<me_channels (snd st)] (s, st))"

text \<open>The partial file: created anew unless it is resumed, then opened for reading and writing.\<close>

definition open_part :: "receive_session \<Rightarrow> (location \<times> bytes) fs_op" where
  "open_part s fs =
     (let fs1 = (if rs_resume s = 0 then snd (open_output (rs_part s) False fs) else fs) in
      case locate fs1 (rs_part s) True of
        Inr loc \<Rightarrow>
          (case nodes fs1 loc of
             Some (RegularFile content) \<Rightarrow> (Inr (loc, content), fs1)
           | _ \<Rightarrow> (Inl (''failed to open output file: '' @ path_string (rs_part s)), fs1))
      | Inl _ \<Rightarrow> (Inl (''failed to open output file: '' @ path_string (rs_part s)), fs1))"

definition mux_config_of :: "receive_session \<Rightarrow> mux_config" where
  "mux_config_of s = \<lparr>mc_current_relative = rs_relative s, mc_declared_size = rs_declared s,
     mc_resume_offset = rs_resume s, mc_use_zstd = rs_zstd s\<rparr>"

text \<open>The session's bytes are in the file when it returns; \<open>file_advance\<close> is reported as one sum.\<close>

definition run_mux_session :: "mux_env \<Rightarrow> receive_session \<Rightarrow> location \<Rightarrow> bytes \<Rightarrow> u64 mxfer" where
  "run_mux_session env s loc content st =
     (case mux_readers env (mux_config_of s) (case me_schedules (snd st) of [] \<Rightarrow> [] | t # _ \<Rightarrow> t)
             (mux_start (mux_config_of s) content, st) of
        (m, (io, ends)) \<Rightarrow>
          (case mux_receive_result None m of
             (r, m1) \<Rightarrow>
               (r, (snd (emit (FileAdvance (ms_reported m1)) (io\<lparr>xi_fs := put_node loc (Some (RegularFile (ms_file m1))) (xi_fs io)\<rparr>)),
                    ends\<lparr>me_schedules := tl (me_schedules ends)\<rparr>))))"

section \<open>The loop\<close>

record mux_progress =
  mp_count :: nat
  mp_grand :: u64
  mp_saw_manifest :: bool
  mp_saw_header :: bool
  mp_plan :: "receive_plan option"

definition mux_on_manifest :: "mux_env \<Rightarrow> path \<Rightarrow> conflict_policy \<Rightarrow> tagged_frame \<Rightarrow> mux_progress \<Rightarrow> mux_progress mxfer" where
  "mux_on_manifest env output_dir policy f p = on_control
     (xthen (xguard (\<not> mp_saw_header p) ''transfer manifest arrived after file headers'')
     (xthen (xguard (\<not> mp_saw_manifest p) ''duplicate transfer manifest'')
     (xbind (xlift (decode_transfer_manifest (env_parse env) (payload_text f))) (\<lambda>manifest.
      xbind (preflight_transfer_manifest (env_volume env) manifest output_dir policy) (\<lambda>plan.
      xret (p\<lparr>mp_plan := Some plan, mp_saw_manifest := True\<rparr>))))))"

definition mux_on_done :: "mux_env \<Rightarrow> mux_progress \<Rightarrow> unit mxfer" where
  "mux_on_done env p = on_control
     (xthen (xlift (validate_receive_plan_complete (mp_plan p)))
     (xthen (xsend Ack [])
     (xthen (emit (TransferTimingEvent (env_timing env)))
      (emit (TransferComplete (mp_count p) (mp_grand p))))))"

definition mux_receive_payload :: "mux_env \<Rightarrow> receive_session \<Rightarrow> u64 mxfer" where
  "mux_receive_payload env s =
     mbind (on_control (xfs (open_part s))) (\<lambda>(loc, content).
     mbind (run_mux_session env s loc content) (\<lambda>written.
     mbind (mux_expect FileEnd ''expected file end'' 0) (\<lambda>endframe. on_control
       (xbind (xlift (decode_message (env_parse env) (payload_text endframe))) (\<lambda>trailer.
        xthen (xguard (\<not> rs_declared s < written) (''received more data than declared for '' @ rs_relative s))
         (complete_received (plain_env env) s (msg_get trailer ''sha256'' []) written []))))))"

definition mux_on_header :: "mux_env \<Rightarrow> path \<Rightarrow> conflict_policy \<Rightarrow> tagged_frame \<Rightarrow> mux_progress \<Rightarrow> mux_progress mxfer" where
  "mux_on_header env output_dir policy f p =
     mbind (on_control
       (xbind (xlift (decode_message (env_parse env) (payload_text f))) (\<lambda>header.
        let relative = msg_get header ''path'' [] in
        xthen (xguard (relative \<noteq> []) ''file header missing path'')
        (xbind (xlift (record_receive_plan_header relative (mp_plan p))) (\<lambda>plan.
         xbind (open_receive_session (plain_env env) header output_dir policy plan) (\<lambda>s. xret (s, plan))))))) (\<lambda>(s, plan).
     let p1 = p\<lparr>mp_saw_header := True, mp_plan := plan, mp_count := mp_count p + 1\<rparr> in
     case rs_action s of
       Marker \<Rightarrow>
         mthen (mux_expect FileEnd ''expected file end'' 0) (mthen (on_control (complete_marker (plain_env env) s)) (mret p1))
     | ReceiveSkip \<Rightarrow>
         mbind (\<lambda>st. (Inr (me_channels (snd st)), st)) (\<lambda>n.
         mthen (mux_chunk_ends [0..<n])
         (mthen (mux_expect FileEnd ''expected file end'' 0)
         (mbind (on_control (complete_skipped s)) (\<lambda>m. mret (p1\<lparr>mp_grand := mp_grand p + m\<rparr>)))))
     | ReceivePayload \<Rightarrow>
         mbind (mux_receive_payload env s) (\<lambda>m. mret (p1\<lparr>mp_grand := mp_grand p + m\<rparr>)))"

text \<open>\<open>None\<close>: the transfer is over.\<close>

definition mux_receive_turn :: "mux_env \<Rightarrow> path \<Rightarrow> conflict_policy \<Rightarrow> mux_progress \<Rightarrow> mux_progress option mxfer" where
  "mux_receive_turn env output_dir policy p =
     mbind (mux_recv 0) (\<lambda>frame.
       case frame of
         None \<Rightarrow> on_control (xfail ''transfer stream ended unexpectedly'')
       | Some f \<Rightarrow>
           if tf_tag f = Manifest then mbind (mux_on_manifest env output_dir policy f p) (\<lambda>q. mret (Some q))
           else if tf_tag f = Done then mthen (mux_on_done env p) (mret None)
           else if tf_tag f \<noteq> FileHeader then on_control (xfail ''expected file header on control channel'')
           else mbind (mux_on_header env output_dir policy f p) (\<lambda>q. mret (Some q)))"

section \<open>The loop ends\<close>

text \<open>Nothing is put back on the control connection.\<close>

definition control_shrinks :: "'a mxfer \<Rightarrow> bool" where
  "control_shrinks m \<longleftrightarrow> (\<forall>st. length (feed_of 0 (snd (m st))) \<le> length (feed_of 0 st))"

lemma shrinks_control:
  assumes "xkeeps no_more_frames m"
  shows "control_shrinks (on_control m)"
  unfolding control_shrinks_def
proof
  fix st :: mux_state
  obtain r io where m: "m (fst st) = (r, io)" by fastforce
  then have "suffix (xi_arriving io) (xi_arriving (fst st))"
    using assms by (metis no_more_frames_def snd_conv xkeeps_def)
  then show "length (feed_of 0 (snd (on_control m st))) \<le> length (feed_of 0 st)"
    using m by (simp add: on_control_def feed_of_def suffix_length_le)
qed

lemma shrinks_bind:
  assumes "control_shrinks m" "\<And>x. control_shrinks (f x)"
  shows "control_shrinks (mbind m f)"
  unfolding control_shrinks_def
proof
  fix st :: mux_state
  obtain r st1 where m: "m st = (r, st1)" by (meson surj_pair)
  then have 1: "length (feed_of 0 st1) \<le> length (feed_of 0 st)" using assms(1) by (metis control_shrinks_def snd_conv)
  show "length (feed_of 0 (snd (mbind m f st))) \<le> length (feed_of 0 st)"
  proof (cases r)
    case (Inr x)
    have "length (feed_of 0 (snd (f x st1))) \<le> length (feed_of 0 st1)"
      using assms(2) [of x] unfolding control_shrinks_def by blast
    then show ?thesis using 1 m Inr by (simp add: mbind_def)
  qed (use 1 m in \<open>simp add: mbind_def\<close>)
qed

lemma shrinks_then: "control_shrinks m \<Longrightarrow> control_shrinks k \<Longrightarrow> control_shrinks (mthen m k)"
  unfolding mthen_def by (rule shrinks_bind)

lemma shrinks_ret: "control_shrinks (mret x)" "control_shrinks (\<lambda>st. (Inr (g st), st))"
  by (simp_all add: control_shrinks_def mret_def)

lemma mux_recv_shrinks: "control_shrinks (mux_recv k)"
  unfolding control_shrinks_def
proof
  fix st :: mux_state
  obtain r st1 where r: "mux_recv k st = (r, st1)" by (meson surj_pair)
  show "length (feed_of 0 (snd (mux_recv k st))) \<le> length (feed_of 0 st)"
    using mux_recv_feed [OF r] r by (cases "k = 0"; cases "feed_of k st") auto
qed

lemma expect_shrinks: "control_shrinks (mux_expect t e k)"
  unfolding mux_expect_def by (intro shrinks_bind mux_recv_shrinks shrinks_control no_more_intros)

lemma chunk_ends_shrinks: "control_shrinks (mux_chunk_ends ks)"
  by (induction ks) (simp_all add: shrinks_ret shrinks_then expect_shrinks)

lemma turn_shrinks: "length (feed_of 0 (snd (mux_turn env c k w (s, st)))) \<le> length (feed_of 0 st)"
proof -
  obtain r st1 where r: "mux_recv k st = (r, st1)" by (meson surj_pair)
  have "length (feed_of 0 st1) \<le> length (feed_of 0 st)"
    using mux_recv_shrinks [of k] r by (metis control_shrinks_def snd_conv)
  then show ?thesis by (simp add: mux_turn_def r)
qed

lemma drain_shrinks: "length (feed_of 0 (snd (mux_drain env c k (s, st)))) \<le> length (feed_of 0 st)"
proof (induction env c k "(s, st)" arbitrary: s st rule: mux_drain.induct)
  case (1 env c k s st)
  obtain s1 st1 where t: "mux_turn env c k kMuxChunk (s, st) = (s1, st1)" by (meson surj_pair)
  then have "length (feed_of 0 st1) \<le> length (feed_of 0 st)" using turn_shrinks [of env c k kMuxChunk s st] by simp
  then show ?case using 1 t by (subst mux_drain.simps) (auto intro: le_trans)
qed

lemma readers_shrink: "length (feed_of 0 (snd (mux_readers env c schedule (s, st)))) \<le> length (feed_of 0 st)"
proof -
  have turns: "length (feed_of 0 (snd (fold (\<lambda>(k, w). mux_turn env c k w) schedule (s, st)))) \<le> length (feed_of 0 st)" for s st
  proof (induction schedule arbitrary: s st)
    case (Cons e es)
    obtain s1 st1 where t: "mux_turn env c (fst e) (snd e) (s, st) = (s1, st1)" by (meson surj_pair)
    then have "length (feed_of 0 st1) \<le> length (feed_of 0 st)" using turn_shrinks [of env c "fst e" "snd e" s st] by simp
    then show ?case using Cons [of s1 st1] t by (simp add: case_prod_beta)
  qed simp
  have drains: "length (feed_of 0 (snd (fold (mux_drain env c) ks (s, st)))) \<le> length (feed_of 0 st)" for ks s st
  proof (induction ks arbitrary: s st)
    case (Cons k ks)
    obtain s1 st1 where t: "mux_drain env c k (s, st) = (s1, st1)" by (meson surj_pair)
    then have "length (feed_of 0 st1) \<le> length (feed_of 0 st)" using drain_shrinks [of env c k s st] by simp
    then show ?case using Cons [of s1 st1] t by simp
  qed simp
  obtain s1 st1 where t: "fold (\<lambda>(k, w). mux_turn env c k w) schedule (s, st) = (s1, st1)" by (meson surj_pair)
  then show ?thesis using turns [of s st] drains [of "[0..<me_channels (snd st1)]" s1 st1] by (simp add: mux_readers_def)
qed

lemma session_shrinks: "control_shrinks (run_mux_session env s loc content)"
  unfolding control_shrinks_def
proof
  fix st :: mux_state
  let ?t = "case me_schedules (snd st) of [] \<Rightarrow> [] | t # _ \<Rightarrow> t"
  obtain m io ends where r: "mux_readers env (mux_config_of s) ?t (mux_start (mux_config_of s) content, st) = (m, io, ends)"
    by (metis surj_pair)
  have "length (xi_arriving io) \<le> length (feed_of 0 st)"
    using readers_shrink [of env "mux_config_of s" ?t "mux_start (mux_config_of s) content" st] r by (simp add: feed_of_def)
  then show "length (feed_of 0 (snd (run_mux_session env s loc content st))) \<le> length (feed_of 0 st)"
    using r by (simp add: run_mux_session_def feed_of_def emit_def split: prod.split)
qed

lemma mux_handlers_shrink:
  "control_shrinks (mux_on_manifest env out policy f p)" "control_shrinks (mux_on_done env p)"
  "control_shrinks (mux_on_header env out policy f p)"
proof -
  show "control_shrinks (mux_on_manifest env out policy f p)"
    unfolding mux_on_manifest_def by (intro shrinks_control no_more_intros no_more_preflight)
  show "control_shrinks (mux_on_done env p)"
    unfolding mux_on_done_def by (intro shrinks_control no_more_intros)
  have payload: "control_shrinks (mux_receive_payload env s)" for s
    unfolding mux_receive_payload_def
    by (intro shrinks_bind shrinks_control no_more_intros session_shrinks expect_shrinks no_more_complete case_prodI2 | split prod.split, intro allI impI)+
  show "control_shrinks (mux_on_header env out policy f p)"
    unfolding mux_on_header_def Let_def
    by (intro shrinks_bind shrinks_control no_more_intros no_more_session)
      (auto split: receive_action.split prod.split intro!: shrinks_bind shrinks_then shrinks_control no_more_intros
        no_more_complete expect_shrinks chunk_ends_shrinks shrinks_ret payload)
qed

lemma mux_turn_fewer:
  assumes "mux_receive_turn env out policy p st = (Inr (Some q), st1)"
  shows "length (feed_of 0 st1) < length (feed_of 0 st)"
proof -
  obtain frame st2 where f: "mux_recv 0 st = (Inr frame, st2)"
    using assms by (cases "mux_recv 0 st"; cases "fst (mux_recv 0 st)") (auto simp: mux_receive_turn_def mbind_def)
  obtain a where a: "frame = Some a"
    using assms f by (cases frame) (simp_all add: mux_receive_turn_def mbind_def on_control_def xfail_def)
  then have less: "length (feed_of 0 st2) < length (feed_of 0 st)"
    using mux_recv_feed [OF f] by (cases "feed_of 0 st") auto
  have "control_shrinks (if tf_tag a = Manifest then mbind (mux_on_manifest env out policy a p) (\<lambda>q. mret (Some q))
           else if tf_tag a = Done then mthen (mux_on_done env p) (mret None)
           else if tf_tag a \<noteq> FileHeader then on_control (xfail ''expected file header on control channel'')
           else mbind (mux_on_header env out policy a p) (\<lambda>q. mret (Some q)))" (is "control_shrinks ?k")
    by (simp add: shrinks_bind shrinks_then shrinks_ret mux_handlers_shrink shrinks_control no_more_intros)
  moreover have "?k st2 = (Inr (Some q), st1)" using assms f a by (simp add: mux_receive_turn_def mbind_def)
  ultimately have "length (feed_of 0 st1) \<le> length (feed_of 0 st2)" unfolding control_shrinks_def by (metis snd_conv)
  then show ?thesis using less by simp
qed

function mux_receive_loop :: "mux_env \<Rightarrow> path \<Rightarrow> conflict_policy \<Rightarrow> mux_progress \<Rightarrow> unit mxfer" where
  "mux_receive_loop env out policy p st =
     (case mux_receive_turn env out policy p st of
        (Inl e, st1) \<Rightarrow> (Inl e, st1)
      | (Inr None, st1) \<Rightarrow> (Inr (), st1)
      | (Inr (Some q), st1) \<Rightarrow> mux_receive_loop env out policy q st1)"
  by pat_completeness auto
termination
  by (relation "measure (\<lambda>(env, out, policy, p, st). length (feed_of 0 st))") (auto intro: mux_turn_fewer [OF sym])

declare mux_receive_loop.simps [simp del]

definition receive_files_mux :: "mux_env \<Rightarrow> path \<Rightarrow> conflict_policy \<Rightarrow> unit mxfer" where
  "receive_files_mux env output_dir policy st =
     (if me_channels (snd st) = 0 then (Inl ''mux receive requires at least one channel'', st)
      else mux_receive_loop env output_dir policy
        \<lparr>mp_count = 0, mp_grand = 0, mp_saw_manifest = False, mp_saw_header = False, mp_plan = None\<rparr> st)"

end
