(* ===== verification/Wildmatch.thy ===== *)
theory Wildmatch
  imports Paths
begin

text \<open>
  The pattern matcher of transfer/gitignore.cpp. The code searches with a table of the results
  known so far; the search is modelled with that table, and shown to decide a declarative reading of
  the patterns: a list of tokens and an inductive matching relation.
\<close>

section \<open>Character classes\<close>

text \<open>\<open>char\<close> is signed on the systems the program is built for.\<close>

definition char_code :: "char \<Rightarrow> int" where
  "char_code c = (let n = of_char c in if n < 128 then n else n - 256)"

definition backslash :: char where "backslash = CHR 0x5C"

text \<open>\<open>first = pattern[i++]; if (first == '\\' && i < end) first = pattern[i++]\<close>\<close>

definition class_char :: "string \<Rightarrow> nat \<Rightarrow> nat \<Rightarrow> char \<times> nat" where
  "class_char pattern stop i =
     (if pattern ! i = backslash \<and> i + 1 < stop then (pattern ! (i + 1), i + 2) else (pattern ! i, i + 1))"

lemma class_char_later: "i < snd (class_char pattern stop i)"
  by (simp add: class_char_def)

function class_loop :: "string \<Rightarrow> nat \<Rightarrow> char \<Rightarrow> nat \<Rightarrow> bool \<Rightarrow> bool" where
  "class_loop pattern stop v i matched =
     (if i < stop then
        let (first, j) = class_char pattern stop i in
        if j + 1 < stop \<and> pattern ! j = CHR ''-'' then
          let (final, k) = class_char pattern stop (j + 1) in
          class_loop pattern stop v k (matched \<or> char_code first \<le> char_code v \<and> char_code v \<le> char_code final)
        else class_loop pattern stop v j (matched \<or> first = v)
      else matched)"
  by pat_completeness auto
termination
  by (relation "measure (\<lambda>(pattern, stop, v, i, matched). stop - i)")
    (auto simp: class_char_def split: if_splits)

declare class_loop.simps [simp del]

definition character_class_matches :: "string \<Rightarrow> nat \<Rightarrow> nat \<Rightarrow> char \<Rightarrow> bool" where
  "character_class_matches pattern start stop v =
     (let negated = start < stop \<and> (pattern ! start = CHR ''!'' \<or> pattern ! start = CHR ''^'');
          matched = class_loop pattern stop v (if negated then start + 1 else start) False
      in if negated then \<not> matched else matched)"

section \<open>The search\<close>

text \<open>The table: \<open>-1\<close> is not known yet; the entry of pattern position \<open>pi\<close> and text position \<open>ti\<close> is number \<open>pi * columns + ti\<close>.\<close>

type_synonym memo = "int list"
type_synonym lookup = "memo \<Rightarrow> bool \<times> memo"

definition yields :: "bool \<Rightarrow> lookup" where "yields b memo = (b, memo)"

definition either :: "lookup \<Rightarrow> lookup \<Rightarrow> lookup" where
  "either a b memo = (case a memo of (r, memo) \<Rightarrow> if r then (True, memo) else b memo)"

definition remember :: "nat \<Rightarrow> lookup \<Rightarrow> lookup" where
  "remember k m memo =
     (if memo ! k \<noteq> -1 then (memo ! k \<noteq> 0, memo)
      else case m memo of (r, memo) \<Rightarrow> (r, memo[k := if r then 1 else 0]))"

definition skip_stars :: "string \<Rightarrow> nat \<Rightarrow> nat" where
  "skip_stars pattern pi = pi + length (takeWhile (\<lambda>c. c = CHR ''*'') (drop pi pattern))"

definition is_globstar :: "string \<Rightarrow> nat \<Rightarrow> nat \<Rightarrow> bool" where
  "is_globstar pattern pi stop \<longleftrightarrow>
     2 \<le> stop - pi \<and> (pi = 0 \<or> pattern ! (pi - 1) = slash) \<and> (stop = length pattern \<or> pattern ! stop = slash)"

definition find_from :: "char \<Rightarrow> string \<Rightarrow> nat \<Rightarrow> nat option" where
  "find_from c s i = (case cut c (drop i s) of (v, Some _) \<Rightarrow> Some (i + length v) | (_, None) \<Rightarrow> None)"

definition escaped_char :: "string \<Rightarrow> nat \<Rightarrow> char \<times> nat" where
  "escaped_char pattern pi =
     (if pattern ! pi = backslash \<and> pi + 1 < length pattern then (pattern ! (pi + 1), pi + 2) else (pattern ! pi, pi + 1))"

lemma skip_stars_bound: "pi \<le> length pattern \<Longrightarrow> skip_stars pattern pi \<le> length pattern"
  using length_takeWhile_le [of "\<lambda>c. c = CHR ''*''" "drop pi pattern"] by (simp add: skip_stars_def)

lemma skip_stars_later: "pi < length pattern \<Longrightarrow> pattern ! pi = CHR ''*'' \<Longrightarrow> pi < skip_stars pattern pi"
  by (cases "drop pi pattern") (auto simp: skip_stars_def Cons_nth_drop_Suc [symmetric])

lemma skip_stars_range:
  "\<not> length p \<le> pi \<Longrightarrow> p ! pi = CHR ''*'' \<Longrightarrow> pi < length p \<and> pi < skip_stars p pi \<and> skip_stars p pi \<le> length p"
  using skip_stars_later [of pi p] skip_stars_bound [of pi p] by simp

lemma find_from_later: "find_from c s i = Some e \<Longrightarrow> i \<le> e \<and> e < length s"
  by (cases rule: cut_cases [of c "drop i s"]) (auto simp: find_from_def dest: arg_cong [of _ _ length])

lemma escaped_char_later: "(c, n) = escaped_char p pi \<Longrightarrow> \<not> length p \<le> pi \<Longrightarrow> pi < length p \<and> pi < n \<and> n \<le> length p"
  by (auto simp: escaped_char_def split: if_splits)

text \<open>The search never leaves the pattern, so \<open>length p \<le> pi\<close> is \<open>pi == pattern.size()\<close>.\<close>

function wild_at :: "string \<Rightarrow> string \<Rightarrow> nat \<Rightarrow> nat \<Rightarrow> lookup" where
  "wild_at p t pi ti =
     remember (pi * (length t + 1) + ti)
       (if length p \<le> pi then yields (ti = length t)
        else if p ! pi = CHR ''*'' then
          let nxt = skip_stars p pi in
          if is_globstar p pi nxt then
            either (if nxt < length p \<and> p ! nxt = slash then wild_at p t (nxt + 1) ti else yields False)
              (either (wild_at p t nxt ti) (if ti < length t then wild_at p t pi (ti + 1) else yields False))
          else either (wild_at p t nxt ti) (if ti < length t \<and> t ! ti \<noteq> slash then wild_at p t pi (ti + 1) else yields False)
        else if ti < length t \<and> p ! pi = CHR ''?'' then
          (if t ! ti \<noteq> slash then wild_at p t (pi + 1) (ti + 1) else yields False)
        else if ti < length t \<and> p ! pi = CHR ''['' then
          (case find_from CHR '']'' p (pi + 1) of
             None \<Rightarrow> if t ! ti = CHR ''['' then wild_at p t (pi + 1) (ti + 1) else yields False
           | Some e \<Rightarrow>
               if t ! ti \<noteq> slash \<and> character_class_matches p (pi + 1) e (t ! ti) then wild_at p t (e + 1) (ti + 1)
               else yields False)
        else
          let (expected, nxt) = escaped_char p pi in
          if ti < length t \<and> expected = t ! ti then wild_at p t nxt (ti + 1) else yields False)"
  by pat_completeness auto
termination
  by (relation "measure (\<lambda>(p, t, pi, ti). (length p - pi) + (length t - ti))")
    (auto dest: find_from_later skip_stars_range escaped_char_later)

declare wild_at.simps [simp del]

definition wildmatch :: "string \<Rightarrow> string \<Rightarrow> bool" where
  "wildmatch pattern text = fst (wild_at pattern text 0 0 (replicate ((length pattern + 1) * (length text + 1)) (-1)))"

section \<open>The patterns read declaratively\<close>

datatype glob = Literal char | AnyOne | OneOf bool "(char \<times> char) list" | Star | GlobStar

definition unescape :: "string \<Rightarrow> char \<times> string" where
  "unescape s = (if hd s = backslash \<and> tl s \<noteq> [] then (hd (tl s), tl (tl s)) else (hd s, tl s))"

lemma unescape_shorter: "unescape (c # s) = (d, r) \<Longrightarrow> length r \<le> length s"
  by (auto simp: unescape_def split: if_splits)

text \<open>The ranges of a class; a single character is a range of its own.\<close>

function class_items :: "string \<Rightarrow> (char \<times> char) list" where
  "class_items [] = []"
| "class_items (c # s) =
     (case unescape (c # s) of (first, r) \<Rightarrow>
        if 2 \<le> length r \<and> hd r = CHR ''-'' then
          (case unescape (tl r) of (final, r) \<Rightarrow> (first, final) # class_items r)
        else (first, first) # class_items r)"
  by pat_completeness auto
termination
proof (relation "measure length")
  fix c s first r final r'
  assume u: "(first, r) = unescape (c # s)" "2 \<le> length r \<and> hd r = CHR ''-''" "(final, r') = unescape (tl r)"
  obtain a b where "tl r = a # b" using u(2) by (cases r; cases "tl r") auto
  then have "length r' \<le> length b" "length b < length r"
    using unescape_shorter [of a b final r'] u(3) by (auto dest: arg_cong [of _ _ length])
  then show "(r', c # s) \<in> measure length" using unescape_shorter [of c s first r] u(1) by simp
qed (auto dest: unescape_shorter [OF sym])

declare class_items.simps(2) [simp del]

definition in_items :: "char \<Rightarrow> (char \<times> char) list \<Rightarrow> bool" where
  "in_items v items \<longleftrightarrow> (\<exists>(a, b) \<in> set items. char_code a \<le> char_code v \<and> char_code v \<le> char_code b)"

definition class_token :: "string \<Rightarrow> glob" where
  "class_token body =
     (if body \<noteq> [] \<and> (hd body = CHR ''!'' \<or> hd body = CHR ''^'') then OneOf True (class_items (tl body))
      else OneOf False (class_items body))"

text \<open>The tokens of a pattern; \<open>start\<close>: at the start of a name.\<close>

function parse_glob :: "bool \<Rightarrow> string \<Rightarrow> glob list" where
  "parse_glob start [] = []"
| "parse_glob start (c # p) =
     (if c = CHR ''*'' then
        let rest = dropWhile (\<lambda>c. c = CHR ''*'') p in
        (if p \<noteq> [] \<and> hd p = CHR ''*'' \<and> start \<and> (rest = [] \<or> hd rest = slash) then GlobStar else Star) #
          parse_glob False rest
      else if c = CHR ''?'' then AnyOne # parse_glob False p
      else if c = CHR ''['' then
        (case cut (CHR '']'') p of
           (_, None) \<Rightarrow> Literal c # parse_glob False p
         | (body, Some rest) \<Rightarrow> class_token body # parse_glob False rest)
      else if c = backslash \<and> p \<noteq> [] then Literal (hd p) # parse_glob (hd p = slash) (tl p)
      else Literal c # parse_glob (c = slash) p)"
  by pat_completeness auto
termination
  by (relation "measure (length \<circ> snd)")
    (auto dest: cut_shorter intro: le_less_trans [OF length_dropWhile_le])

declare parse_glob.simps(2) [simp del]

inductive globs :: "glob list \<Rightarrow> string \<Rightarrow> bool" where
  empty: "globs [] []"
| literal: "globs gs t \<Longrightarrow> globs (Literal c # gs) (c # t)"
| any_one: "c \<noteq> slash \<Longrightarrow> globs gs t \<Longrightarrow> globs (AnyOne # gs) (c # t)"
| one_of: "c \<noteq> slash \<Longrightarrow> in_items c items \<noteq> negated \<Longrightarrow> globs gs t \<Longrightarrow> globs (OneOf negated items # gs) (c # t)"
| star: "slash \<notin> set u \<Longrightarrow> globs gs v \<Longrightarrow> globs (Star # gs) (u @ v)"
| globstar: "globs gs v \<Longrightarrow> globs (GlobStar # gs) (u @ v)"
| globstar_slash: "globs gs v \<Longrightarrow> globs (GlobStar # Literal slash # gs) (u @ v)"

inductive_simps globs_simps: "globs [] t" "globs (Literal c # gs) t" "globs (AnyOne # gs) t" "globs (OneOf n is # gs) t"
inductive_cases globs_starE: "globs (Star # gs) t"
inductive_cases globs_globstarE: "globs (GlobStar # gs) t"

lemma globs_star:
  "globs (Star # gs) t \<longleftrightarrow> globs gs t \<or> (\<exists>c r. t = c # r \<and> c \<noteq> slash \<and> globs (Star # gs) r)"
proof
  assume "globs (Star # gs) t"
  then obtain u v where t: "t = u @ v" "slash \<notin> set u" "globs gs v" by (rule globs_starE)
  then show "globs gs t \<or> (\<exists>c r. t = c # r \<and> c \<noteq> slash \<and> globs (Star # gs) r)"
    by (cases u) (auto intro: globs.star)
next
  assume "globs gs t \<or> (\<exists>c r. t = c # r \<and> c \<noteq> slash \<and> globs (Star # gs) r)"
  then show "globs (Star # gs) t"
  proof (elim disjE exE conjE)
    assume "globs gs t"
    then show ?thesis using globs.star [of "[]" gs t] by simp
  next
    fix c r assume t: "t = c # r" "c \<noteq> slash" "globs (Star # gs) r"
    from t(3) obtain u v where "r = u @ v" "slash \<notin> set u" "globs gs v" by (rule globs_starE)
    then show ?thesis using globs.star [of "c # u" gs v] t by simp
  qed
qed

lemma globs_globstar:
  "globs (GlobStar # gs) t \<longleftrightarrow>
     (\<exists>gs'. gs = Literal slash # gs' \<and> globs gs' t) \<or> globs gs t \<or> (\<exists>c r. t = c # r \<and> globs (GlobStar # gs) r)"
proof
  assume "globs (GlobStar # gs) t"
  then show "(\<exists>gs'. gs = Literal slash # gs' \<and> globs gs' t) \<or> globs gs t \<or> (\<exists>c r. t = c # r \<and> globs (GlobStar # gs) r)"
  proof (rule globs_globstarE)
    fix u v assume "t = u @ v" "globs gs v"
    then show ?thesis by (cases u) (auto intro: globs.globstar)
  next
    fix gs' u v assume "gs = Literal slash # gs'" "t = u @ v" "globs gs' v"
    then show ?thesis by (cases u) (auto intro: globs.globstar_slash)
  qed
next
  assume "(\<exists>gs'. gs = Literal slash # gs' \<and> globs gs' t) \<or> globs gs t \<or> (\<exists>c r. t = c # r \<and> globs (GlobStar # gs) r)"
  then show "globs (GlobStar # gs) t"
  proof (elim disjE exE conjE)
    fix gs' assume "gs = Literal slash # gs'" "globs gs' t"
    then show ?thesis using globs.globstar_slash [of gs' t "[]"] by simp
  next
    assume "globs gs t"
    then show ?thesis using globs.globstar [of gs t "[]"] by simp
  next
    fix c r assume t: "t = c # r" "globs (GlobStar # gs) r"
    from t(2) show ?thesis
    proof (rule globs_globstarE)
      fix u v assume "r = u @ v" "globs gs v"
      then show ?thesis using globs.globstar [of gs v "c # u"] t by simp
    next
      fix gs' u v assume "gs = Literal slash # gs'" "r = u @ v" "globs gs' v"
      then show ?thesis using globs.globstar_slash [of gs' v "c # u"] t by simp
    qed
  qed
qed

section \<open>The search decides the matching relation\<close>

text \<open>Characters of a class.\<close>

lemma char_code_inj: "char_code a = char_code b \<longleftrightarrow> a = b"
proof -
  have "(of_char a :: int) < 256" "(of_char b :: int) < 256" "(0 :: int) \<le> of_char a" "(0 :: int) \<le> of_char b"
    using pos_mod_bound [of 256 "of_char a :: int"] pos_mod_bound [of 256 "of_char b :: int"]
      pos_mod_sign [of 256 "of_char a :: int"] pos_mod_sign [of 256 "of_char b :: int"] by simp_all
  then have "char_code a = char_code b \<longleftrightarrow> (of_char a :: int) = of_char b"
    by (auto simp: char_code_def Let_def)
  then show ?thesis by simp
qed

lemma in_items_simps:
  "in_items v [] \<longleftrightarrow> False"
  "in_items v ((a, b) # items) \<longleftrightarrow> char_code a \<le> char_code v \<and> char_code v \<le> char_code b \<or> in_items v items"
  "in_items v ((a, a) # items) \<longleftrightarrow> a = v \<or> in_items v items"
  by (auto simp: in_items_def simp flip: char_code_inj)

lemma class_char_unescape:
  assumes "i < stop" "stop \<le> length p"
  shows "unescape (drop i (take stop p)) = (fst (class_char p stop i), drop (snd (class_char p stop i)) (take stop p))"
proof -
  have "drop i (take stop p) = p ! i # drop (Suc i) (take stop p)"
    using assms by (simp add: Cons_nth_drop_Suc [symmetric])
  moreover have "i + 1 < stop \<Longrightarrow> drop (Suc i) (take stop p) = p ! (i + 1) # drop (i + 2) (take stop p)"
    using assms by (simp add: Cons_nth_drop_Suc [symmetric])
  moreover have "\<not> i + 1 < stop \<Longrightarrow> drop (Suc i) (take stop p) = []" by simp
  ultimately show ?thesis by (auto simp: unescape_def class_char_def)
qed

lemma class_loop_items:
  "stop \<le> length p \<Longrightarrow> class_loop p stop v i matched \<longleftrightarrow> matched \<or> in_items v (class_items (drop i (take stop p)))"
proof (induction p stop v i matched rule: class_loop.induct)
  case (1 p stop v i matched)
  show ?case
  proof (cases "i < stop")
    case False
    then show ?thesis by (simp add: class_loop.simps [of p stop] in_items_simps)
  next
    case True
    obtain first j where f: "class_char p stop i = (first, j)" by fastforce
    have d: "drop i (take stop p) = p ! i # drop (Suc i) (take stop p)"
      using True "1.prems" by (simp add: Cons_nth_drop_Suc [symmetric])
    have u: "unescape (p ! i # drop (Suc i) (take stop p)) = (first, drop j (take stop p))"
      using class_char_unescape [OF True "1.prems"] f d by simp
    show ?thesis
    proof (cases "j + 1 < stop \<and> p ! j = CHR ''-''")
      case range: True
      obtain final k where k: "class_char p stop (j + 1) = (final, k)" by fastforce
      have u2: "unescape (drop (j + 1) (take stop p)) = (final, drop k (take stop p))"
        using class_char_unescape [of "j + 1" stop p] range "1.prems" k by simp
      have h: "2 \<le> length (drop j (take stop p)) \<and> hd (drop j (take stop p)) = CHR ''-''"
        using range "1.prems" by (auto simp: hd_drop_conv_nth)
      have items: "class_items (drop i (take stop p)) = (first, final) # class_items (drop k (take stop p))"
        using h u u2 unfolding d by (simp add: class_items.simps(2) tl_drop drop_Suc)
      have "class_loop p stop v i matched =
          class_loop p stop v k (matched \<or> char_code first \<le> char_code v \<and> char_code v \<le> char_code final)"
        using True f range k by (simp add: class_loop.simps [of p stop v i])
      then show ?thesis
        using "1.IH"(1) [OF True f [symmetric] _ range k [symmetric]] "1.prems" items by (auto simp: in_items_simps)
    next
      case single: False
      have "\<not> (2 \<le> length (drop j (take stop p)) \<and> hd (drop j (take stop p)) = CHR ''-'')"
        using single "1.prems" by (auto simp: hd_drop_conv_nth)
      then have items: "class_items (drop i (take stop p)) = (first, first) # class_items (drop j (take stop p))"
        using u unfolding d by (simp only: class_items.simps(2) prod.case if_False)
      have "class_loop p stop v i matched = class_loop p stop v j (matched \<or> first = v)"
        unfolding class_loop.simps [of p stop v i] f Let_def prod.case using True single by (simp only: if_True if_False)
      then show ?thesis
        using "1.IH"(2) [OF True f [symmetric] _ single] "1.prems" items by (auto simp only: in_items_simps(3))
    qed
  qed
qed

lemma class_token_matches:
  assumes "start \<le> stop" "stop \<le> length p"
  obtains items negated where "class_token (drop start (take stop p)) = OneOf negated items"
    "character_class_matches p start stop v \<longleftrightarrow> in_items v items \<noteq> negated"
proof (cases "start < stop \<and> (p ! start = CHR ''!'' \<or> p ! start = CHR ''^'')")
  case True
  then have "class_token (drop start (take stop p)) = OneOf True (class_items (drop (start + 1) (take stop p)))"
    using assms by (auto simp: class_token_def hd_drop_conv_nth drop_Suc tl_drop)
  moreover have "character_class_matches p start stop v \<longleftrightarrow> in_items v (class_items (drop (start + 1) (take stop p))) \<noteq> True"
    using True assms by (simp add: character_class_matches_def class_loop_items)
  ultimately show thesis by (rule that)
next
  case False
  then have "class_token (drop start (take stop p)) = OneOf False (class_items (drop start (take stop p)))"
    using assms by (auto simp: class_token_def hd_drop_conv_nth)
  moreover have "character_class_matches p start stop v \<longleftrightarrow> in_items v (class_items (drop start (take stop p))) \<noteq> False"
    using False assms by (auto simp: character_class_matches_def class_loop_items Let_def)
  ultimately show thesis by (rule that)
qed

text \<open>What the table holds.\<close>

definition at_start :: "string \<Rightarrow> nat \<Rightarrow> bool" where
  "at_start p pi \<longleftrightarrow> pi = 0 \<or> p ! (pi - 1) = slash"

definition accepts :: "string \<Rightarrow> string \<Rightarrow> nat \<Rightarrow> nat \<Rightarrow> bool" where
  "accepts p t pi ti \<longleftrightarrow> globs (parse_glob (at_start p pi) (drop pi p)) (drop ti t)"

definition memo_ok :: "string \<Rightarrow> string \<Rightarrow> memo \<Rightarrow> bool" where
  "memo_ok p t memo \<longleftrightarrow>
     length memo = (length p + 1) * (length t + 1) \<and>
     (\<forall>pi \<le> length p. \<forall>ti \<le> length t.
        memo ! (pi * (length t + 1) + ti) \<in> {-1, if accepts p t pi ti then 1 else 0})"

definition decides :: "string \<Rightarrow> string \<Rightarrow> lookup \<Rightarrow> bool \<Rightarrow> bool" where
  "decides p t m v \<longleftrightarrow> (\<forall>memo. memo_ok p t memo \<longrightarrow> fst (m memo) = v \<and> memo_ok p t (snd (m memo)))"

lemma decides_yields: "decides p t (yields b) b"
  by (simp add: decides_def yields_def)

lemma decides_either: "decides p t a v \<Longrightarrow> decides p t b w \<Longrightarrow> decides p t (either a b) (v \<or> w)"
  by (auto simp: decides_def either_def split: prod.splits)

lemma decides_if: "(c \<Longrightarrow> decides p t a v) \<Longrightarrow> decides p t (if c then a else yields False) (c \<and> v)"
  by (simp add: decides_yields)

lemma cell_inj:
  fixes n :: nat
  assumes "i * n + j = i' * n + j'" "j < n" "j' < n"
  shows "i = i' \<and> j = j'"
proof -
  have "(i * n + j) div n = i" "(i' * n + j') div n = i'" "(i * n + j) mod n = j" "(i' * n + j') mod n = j'"
    using assms(2,3) by simp_all
  then show ?thesis using assms(1) by metis
qed

lemma cell_bound:
  assumes "pi \<le> a" "ti \<le> (b :: nat)" shows "pi * (b + 1) + ti < (a + 1) * (b + 1)"
proof -
  have "pi * (b + 1) \<le> a * (b + 1)" using assms(1) by (rule mult_le_mono1)
  then show ?thesis using assms(2) by simp
qed

lemma memo_ok_cell:
  assumes "memo_ok p t memo" "pi \<le> length p" "ti \<le> length t"
  shows "memo ! (pi * (length t + 1) + ti) = -1 \<or> memo ! (pi * (length t + 1) + ti) = (if accepts p t pi ti then 1 else 0)"
  using assms unfolding memo_ok_def by blast

lemma memo_ok_update:
  assumes ok: "memo_ok p t memo" and le: "pi \<le> length p" "ti \<le> length t"
  shows "memo_ok p t (memo[pi * (length t + 1) + ti := if accepts p t pi ti then 1 else 0])"
  unfolding memo_ok_def length_list_update
proof (intro conjI allI impI)
  let ?k = "pi * (length t + 1) + ti"
  let ?memo = "memo[?k := if accepts p t pi ti then 1 else 0]"
  show len: "length memo = (length p + 1) * (length t + 1)" using ok unfolding memo_ok_def by (rule conjunct1)
  fix pi' ti' assume le': "pi' \<le> length p" "ti' \<le> length t"
  show "?memo ! (pi' * (length t + 1) + ti') \<in> {-1, if accepts p t pi' ti' then 1 else 0}"
  proof (cases "pi' * (length t + 1) + ti' = ?k")
    case True
    have "pi' = pi \<and> ti' = ti" by (rule cell_inj [OF True]) (use le le' in linarith)+
    moreover have "?k < length memo" unfolding len by (rule cell_bound [OF le])
    ultimately show ?thesis by (simp only: nth_list_update_eq insert_iff simp_thms)
  next
    case False
    have "?memo ! (pi' * (length t + 1) + ti') = memo ! (pi' * (length t + 1) + ti')"
      by (rule nth_list_update_neq [OF not_sym [OF False]])
    then show ?thesis using memo_ok_cell [OF ok le'] by (simp only: insert_iff empty_iff simp_thms)
  qed
qed

lemma decides_remember:
  assumes "decides p t m (accepts p t pi ti)" "pi \<le> length p" "ti \<le> length t"
  shows "decides p t (remember (pi * (length t + 1) + ti) m) (accepts p t pi ti)"
  unfolding decides_def
proof (intro allI impI)
  fix memo
  assume ok: "memo_ok p t memo"
  let ?k = "pi * (length t + 1) + ti"
  obtain r memo' where m: "m memo = (r, memo')" by (meson surj_pair)
  have m': "r = accepts p t pi ti" "memo_ok p t memo'"
    using assms(1) [unfolded decides_def, rule_format, OF ok] m by simp_all
  show "fst (remember ?k m memo) = accepts p t pi ti \<and> memo_ok p t (snd (remember ?k m memo))"
  proof (cases "memo ! ?k = -1")
    case True
    then have "remember ?k m memo = (r, memo'[?k := if r then 1 else 0])"
      unfolding remember_def m by (simp only: if_False prod.case simp_thms)
    then show ?thesis using memo_ok_update [OF m'(2) assms(2,3)] m'(1) by (simp only: fst_conv snd_conv simp_thms)
  next
    case False
    then have "memo ! ?k = (if accepts p t pi ti then 1 else 0)" using memo_ok_cell [OF ok assms(2,3)] by blast
    moreover have "remember ?k m memo = (memo ! ?k \<noteq> 0, memo)" using False by (simp only: remember_def if_True simp_thms)
    ultimately show ?thesis using ok by (cases "accepts p t pi ti") simp_all
  qed
qed

text \<open>One step of the relation, as the search takes it.\<close>

lemma drop_here: "pi < length p \<Longrightarrow> drop pi p = p ! pi # drop (Suc pi) p"
  by (simp add: Cons_nth_drop_Suc)

lemma drop_stars: "drop (skip_stars p pi) p = dropWhile (\<lambda>c. c = CHR ''*'') (drop pi p)"
proof -
  have "drop (length (takeWhile (\<lambda>c. c = CHR ''*'') (drop pi p))) (drop pi p) = dropWhile (\<lambda>c. c = CHR ''*'') (drop pi p)"
    by (simp only: dropWhile_eq_drop)
  then show ?thesis by (simp only: skip_stars_def drop_drop add.commute)
qed

lemma skip_stars_Suc: "\<not> length p \<le> pi \<Longrightarrow> p ! pi = CHR ''*'' \<Longrightarrow> skip_stars p (Suc pi) = skip_stars p pi"
  by (simp add: skip_stars_def drop_here)

lemma before_stars_end:
  assumes "\<not> length p \<le> pi" "p ! pi = CHR ''*''"
  shows "p ! (skip_stars p pi - 1) = CHR ''*''"
proof -
  let ?n = "length (takeWhile (\<lambda>c. c = CHR ''*'') (drop pi p))"
  have n: "0 < ?n" using skip_stars_range [OF assms] by (simp add: skip_stars_def)
  then have "takeWhile (\<lambda>c. c = CHR ''*'') (drop pi p) ! (?n - 1) = CHR ''*''"
    using set_takeWhileD [OF nth_mem, of "?n - 1" "\<lambda>c. c = CHR ''*''" "drop pi p"] by simp
  moreover have "takeWhile (\<lambda>c. c = CHR ''*'') (drop pi p) ! (?n - 1) = drop pi p ! (?n - 1)"
    using n by (simp add: takeWhile_nth)
  ultimately show ?thesis using n assms(1) by (simp add: skip_stars_def)
qed

lemma parse_stars:
  assumes "\<not> length p \<le> pi" "p ! pi = CHR ''*''"
  shows "parse_glob (at_start p pi) (drop pi p) =
    (if is_globstar p pi (skip_stars p pi) then GlobStar else Star) #
      parse_glob (at_start p (skip_stars p pi)) (drop (skip_stars p pi) p)"
proof -
  let ?nxt = "skip_stars p pi"
  have r: "pi < ?nxt" "?nxt \<le> length p" using skip_stars_range [OF assms] by simp_all
  have rest: "dropWhile (\<lambda>c. c = CHR ''*'') (drop (Suc pi) p) = drop ?nxt p"
    using drop_stars [of p "Suc pi"] skip_stars_Suc [OF assms] by simp
  have more: "drop (Suc pi) p \<noteq> [] \<and> hd (drop (Suc pi) p) = CHR ''*'' \<longleftrightarrow> 2 \<le> ?nxt - pi"
  proof -
    have "?nxt - pi = Suc (length (takeWhile (\<lambda>c. c = CHR ''*'') (drop (Suc pi) p)))"
      using assms by (simp add: skip_stars_def drop_here)
    then show ?thesis by (cases "drop (Suc pi) p") auto
  qed
  have last: "at_start p ?nxt = False" using before_stars_end [OF assms] r(1) by (simp add: at_start_def slash_def)
  have "drop ?nxt p = [] \<or> hd (drop ?nxt p) = slash \<longleftrightarrow> ?nxt = length p \<or> p ! ?nxt = slash"
    using r(2) by (cases "?nxt < length p") (auto simp: hd_drop_conv_nth)
  then have "is_globstar p pi ?nxt \<longleftrightarrow> drop (Suc pi) p \<noteq> [] \<and> hd (drop (Suc pi) p) = CHR ''*'' \<and> at_start p pi \<and>
      (drop ?nxt p = [] \<or> hd (drop ?nxt p) = slash)"
    using more by (auto simp: is_globstar_def at_start_def)
  then show ?thesis
    using assms by (simp add: drop_here parse_glob.simps(2) rest last Let_def)
qed

lemma accepts_globstar:
  assumes "\<not> length p \<le> pi" "p ! pi = CHR ''*''" "is_globstar p pi (skip_stars p pi)" "ti \<le> length t"
  shows "accepts p t pi ti \<longleftrightarrow>
    (skip_stars p pi < length p \<and> p ! skip_stars p pi = slash) \<and> accepts p t (skip_stars p pi + 1) ti \<or>
    accepts p t (skip_stars p pi) ti \<or> ti < length t \<and> accepts p t pi (ti + 1)"
proof -
  let ?nxt = "skip_stars p pi"
  let ?gs = "parse_glob (at_start p ?nxt) (drop ?nxt p)"
  have nxt: "?nxt = length p \<or> p ! ?nxt = slash" using assms(3) by (simp add: is_globstar_def)
  have lit: "?gs = (if ?nxt < length p then Literal slash # parse_glob (at_start p (?nxt + 1)) (drop (?nxt + 1) p) else [])"
    using nxt skip_stars_range [OF assms(1,2)]
    by (auto simp: drop_here parse_glob.simps(2) at_start_def slash_def backslash_def)
  have more: "(\<exists>c r. drop ti t = c # r \<and> P r) \<longleftrightarrow> ti < length t \<and> P (drop (ti + 1) t)" for P
    by (cases "ti < length t") (auto simp: drop_here)
  have skip: "(\<exists>gs'. ?gs = Literal slash # gs' \<and> globs gs' (drop ti t)) \<longleftrightarrow>
      (?nxt < length p \<and> p ! ?nxt = slash) \<and> accepts p t (?nxt + 1) ti"
    unfolding lit accepts_def using nxt by (cases "?nxt < length p") simp_all
  have here: "accepts p t pi ti' \<longleftrightarrow> globs (GlobStar # ?gs) (drop ti' t)" for ti'
    unfolding accepts_def parse_stars [OF assms(1,2)] using assms(3) by (simp only: if_True)
  show ?thesis
    unfolding here globs_globstar [of ?gs "drop ti t"] more skip unfolding accepts_def [of p t ?nxt ti] ..
qed

lemma accepts_star:
  assumes "\<not> length p \<le> pi" "p ! pi = CHR ''*''" "\<not> is_globstar p pi (skip_stars p pi)" "ti \<le> length t"
  shows "accepts p t pi ti \<longleftrightarrow>
    accepts p t (skip_stars p pi) ti \<or> (ti < length t \<and> t ! ti \<noteq> slash) \<and> accepts p t pi (ti + 1)"
proof -
  have more: "(\<exists>c r. drop ti t = c # r \<and> c \<noteq> slash \<and> P r) \<longleftrightarrow> (ti < length t \<and> t ! ti \<noteq> slash) \<and> P (drop (ti + 1) t)" for P
    by (cases "ti < length t") (auto simp: drop_here)
  let ?gs = "parse_glob (at_start p (skip_stars p pi)) (drop (skip_stars p pi) p)"
  have here: "accepts p t pi ti' \<longleftrightarrow> globs (Star # ?gs) (drop ti' t)" for ti'
    unfolding accepts_def parse_stars [OF assms(1,2)] using assms(3) by (simp only: if_False)
  show ?thesis
    unfolding here globs_star [of ?gs "drop ti t"] more unfolding accepts_def [of p t "skip_stars p pi" ti] ..
qed

lemma parse_not_empty: "c \<noteq> CHR ''*'' \<Longrightarrow> \<not> globs (parse_glob start (c # p)) []"
  by (auto simp: parse_glob.simps(2) class_token_def globs_simps backslash_def Let_def split: option.split prod.split)

lemma parse_literal:
  assumes "\<not> length p \<le> pi" "p ! pi \<noteq> CHR ''*''" "p ! pi \<noteq> CHR ''?''" "p ! pi \<noteq> CHR ''[''"
    and "escaped_char p pi = (expected, nxt)"
  shows "parse_glob (at_start p pi) (drop pi p) = Literal expected # parse_glob (at_start p nxt) (drop nxt p)"
proof -
  have d: "drop pi p = p ! pi # drop (Suc pi) p" using assms(1) by (simp add: drop_here)
  have tail: "drop (Suc pi) p \<noteq> [] \<longleftrightarrow> pi + 1 < length p" by auto
  show ?thesis
  proof (cases "p ! pi = backslash \<and> pi + 1 < length p")
    case True
    then have e: "expected = p ! (pi + 1)" "nxt = pi + 2" using assms(5) by (simp_all add: escaped_char_def)
    have "drop (Suc pi) p = p ! (pi + 1) # drop (pi + 2) p" using True by (simp add: drop_here)
    then show ?thesis
      unfolding d parse_glob.simps(2) e using assms(2-4) True by (simp add: at_start_def)
  next
    case False
    then have e: "expected = p ! pi" "nxt = pi + 1" using assms(5) by (auto simp: escaped_char_def split: if_splits)
    show ?thesis
      unfolding d parse_glob.simps(2) e tail using assms(2-4) False by (cases "p ! pi = backslash") (simp_all add: at_start_def)
  qed
qed

lemma accepts_other:
  assumes "\<not> length p \<le> pi" "p ! pi \<noteq> CHR ''*''" "\<not> (ti < length t \<and> p ! pi = CHR ''?'')"
    "\<not> (ti < length t \<and> p ! pi = CHR ''['')" "escaped_char p pi = (expected, nxt)" "ti \<le> length t"
  shows "accepts p t pi ti \<longleftrightarrow> (ti < length t \<and> expected = t ! ti) \<and> accepts p t nxt (ti + 1)"
proof (cases "ti < length t")
  case True
  then have "parse_glob (at_start p pi) (drop pi p) = Literal expected # parse_glob (at_start p nxt) (drop nxt p)"
    using parse_literal [OF assms(1,2) _ _ assms(5)] assms(3,4) by blast
  then show ?thesis using True by (auto simp: accepts_def globs_simps drop_here)
next
  case False
  then have "drop ti t = []" by simp
  moreover have "drop pi p = p ! pi # drop (Suc pi) p" using assms(1) by (simp add: drop_here)
  ultimately show ?thesis using False parse_not_empty [OF assms(2)] by (simp add: accepts_def)
qed

lemma accepts_any_one:
  assumes "\<not> length p \<le> pi" "ti < length t" "p ! pi = CHR ''?''"
  shows "accepts p t pi ti \<longleftrightarrow> t ! ti \<noteq> slash \<and> accepts p t (pi + 1) (ti + 1)"
  using assms by (simp add: accepts_def drop_here parse_glob.simps(2) globs_simps at_start_def slash_def)

lemma accepts_bracket:
  assumes "\<not> length p \<le> pi" "ti < length t" "p ! pi = CHR ''[''"
  shows "accepts p t pi ti \<longleftrightarrow>
    (case find_from (CHR '']'') p (pi + 1) of
       None \<Rightarrow> t ! ti = CHR ''['' \<and> accepts p t (pi + 1) (ti + 1)
     | Some e \<Rightarrow> (t ! ti \<noteq> slash \<and> character_class_matches p (pi + 1) e (t ! ti)) \<and> accepts p t (e + 1) (ti + 1))"
proof -
  have d: "drop pi p = p ! pi # drop (Suc pi) p" "drop ti t = t ! ti # drop (Suc ti) t"
    using assms(1,2) by (simp_all add: drop_here)
  show ?thesis
  proof (cases rule: cut_cases [of "CHR '']''" "drop (Suc pi) p"])
    case absent
    then show ?thesis
      using assms by (simp add: accepts_def d parse_glob.simps(2) globs_simps at_start_def slash_def find_from_def)
  next
    case (found body rest)
    let ?e = "Suc pi + length body"
    have f: "find_from (CHR '']'') p (pi + 1) = Some ?e" using found by (simp add: find_from_def)
    have e: "Suc pi \<le> ?e" "?e \<le> length p" using found(1) by (auto dest: arg_cong [of _ _ length])
    have b: "drop (Suc pi) (take ?e p) = body" using found(1) by (simp add: drop_take)
    have "drop (length body + 1) (drop (Suc pi) p) = rest" using found(1) by simp
    then have r: "drop (?e + 1) p = rest" by (simp add: add.commute)
    have "drop (length body) (drop (Suc pi) p) = CHR '']'' # rest" using found(1) by simp
    then have "drop ?e p = CHR '']'' # rest" by (simp add: add.commute)
    then have "p ! ?e = CHR '']''" by (metis e(2) drop_eq_Nil hd_drop_conv_nth le_neq_implies_less list.distinct(1) list.sel(1) order_refl)
    then have s: "at_start p (?e + 1) = False" by (simp add: at_start_def slash_def)
    obtain items negated where c: "class_token body = OneOf negated items"
      "character_class_matches p (Suc pi) ?e (t ! ti) \<longleftrightarrow> in_items (t ! ti) items \<noteq> negated"
      using class_token_matches [OF e, of "t ! ti"] b by metis
    have "parse_glob (at_start p pi) (drop pi p) = OneOf negated items # parse_glob (at_start p (?e + 1)) (drop (?e + 1) p)"
      unfolding s r d(1) parse_glob.simps(2) using assms(3) found(3) c(1) by simp
    then show ?thesis using f c(2) by (simp add: accepts_def globs_simps d(2))
  qed
qed

text \<open>The search computes the relation, and its table stays correct.\<close>

lemma wild_at_decides:
  "pi \<le> length p \<Longrightarrow> ti \<le> length t \<Longrightarrow> decides p t (wild_at p t pi ti) (accepts p t pi ti)"
proof (induction "(length p - pi) + (length t - ti)" arbitrary: pi ti rule: less_induct)
  case less
  note le = less.prems
  have rec: "decides p t (wild_at p t pi' ti') (accepts p t pi' ti')"
    if "pi \<le> pi'" "ti \<le> ti'" "pi < pi' \<or> ti < ti'" "pi' \<le> length p" "ti' \<le> length t" for pi' ti'
    by (rule less.hyps) (use that le in linarith)+
  let ?nxt = "skip_stars p pi"
  show ?case
    unfolding wild_at.simps [of p t pi ti]
  proof (rule decides_remember [OF _ le], goal_cases)
    case 1
    consider (finish) "length p \<le> pi"
      | (globstar) "\<not> length p \<le> pi" "p ! pi = CHR ''*''" "is_globstar p pi ?nxt"
      | (star) "\<not> length p \<le> pi" "p ! pi = CHR ''*''" "\<not> is_globstar p pi ?nxt"
      | (any_one) "\<not> length p \<le> pi" "ti < length t" "p ! pi = CHR ''?''"
      | (bracket) "\<not> length p \<le> pi" "ti < length t" "p ! pi = CHR ''[''"
      | (other) "\<not> length p \<le> pi" "p ! pi \<noteq> CHR ''*''" "\<not> (ti < length t \<and> p ! pi = CHR ''?'')"
          "\<not> (ti < length t \<and> p ! pi = CHR ''['')"
      by blast
    then show ?case
    proof cases
      case finish
      then have "accepts p t pi ti \<longleftrightarrow> ti = length t" using le by (auto simp: accepts_def globs_simps)
      then show ?thesis using finish by (simp add: decides_yields)
    next
      case globstar
      have r: "?nxt \<le> length p" "pi < ?nxt" using skip_stars_range [OF globstar(1,2)] by simp_all
      show ?thesis
        unfolding accepts_globstar [OF globstar le(2)] Let_def if_not_P [OF globstar(1)] if_P [OF globstar(2)] if_P [OF globstar(3)]
        by (intro decides_either decides_if rec) (use r le in auto)
    next
      case star
      have r: "?nxt \<le> length p" "pi < ?nxt" using skip_stars_range [OF star(1,2)] by simp_all
      show ?thesis
        unfolding accepts_star [OF star le(2)] Let_def if_not_P [OF star(1)] if_P [OF star(2)] if_not_P [OF star(3)]
        by (intro decides_either decides_if rec) (use r le in auto)
    next
      case any_one
      have e: "(if length p \<le> pi then a else if p ! pi = CHR ''*'' then b
          else if ti < length t \<and> p ! pi = CHR ''?'' then c else d) = c" for a b c d :: lookup
        using any_one by simp
      show ?thesis
        unfolding accepts_any_one [OF any_one] e by (intro decides_if rec) (use any_one in auto)
    next
      case bracket
      have e: "(if length p \<le> pi then a else if p ! pi = CHR ''*'' then b else if ti < length t \<and> p ! pi = CHR ''?'' then c
          else if ti < length t \<and> p ! pi = CHR ''['' then d else f) = d" for a b c d f :: lookup
        using bracket by simp
      show ?thesis
      proof (cases "find_from (CHR '']'') p (pi + 1)")
        case None
        show ?thesis
          unfolding accepts_bracket [OF bracket] e None option.case by (intro decides_if rec) (use bracket in auto)
      next
        case (Some stop)
        show ?thesis
          unfolding accepts_bracket [OF bracket] e Some option.case
          by (intro decides_if rec) (use bracket find_from_later [OF Some] in auto)
      qed
    next
      case other
      obtain expected nxt where n: "escaped_char p pi = (expected, nxt)" by (meson surj_pair)
      have e: "(if length p \<le> pi then a else if p ! pi = CHR ''*'' then b else if ti < length t \<and> p ! pi = CHR ''?'' then c
          else if ti < length t \<and> p ! pi = CHR ''['' then d else f) = f" for a b c d f :: lookup
        by (simp only: other if_False)
      show ?thesis
        unfolding accepts_other [OF other n le(2)] e n Let_def prod.case
        by (intro decides_if rec) (use escaped_char_later [OF n [symmetric] other(1)] in auto)
    qed
  qed
qed

lemma memo_ok_start: "memo_ok p t (replicate ((length p + 1) * (length t + 1)) (-1))"
  unfolding memo_ok_def
proof (intro conjI allI impI)
  fix pi ti assume "pi \<le> length p" "ti \<le> length t"
  then have "pi * (length t + 1) + ti < (length p + 1) * (length t + 1)" by (rule cell_bound)
  then show "replicate ((length p + 1) * (length t + 1)) (-1) ! (pi * (length t + 1) + ti) \<in> {-1, if accepts p t pi ti then 1 else 0}"
    by (simp only: nth_replicate insert_iff simp_thms)
qed (rule length_replicate)

lemma wildmatch_globs: "wildmatch p t \<longleftrightarrow> globs (parse_glob True p) t"
  using wild_at_decides [of 0 p 0 t] memo_ok_start [of p t]
  by (simp add: wildmatch_def decides_def accepts_def at_start_def)

text \<open>
  C20: The pattern matcher of the ignore rules, which searches backwards and forwards with a table of
  known results, accepts exactly the texts of the declarative reading of the pattern: single stars and
  classes within a name, double stars across names, escapes as written.
\<close>

theorem wildmatch_iff: "wildmatch p t \<longleftrightarrow> globs (parse_glob True p) t"
  by (rule wildmatch_globs)

end
