(* ===== verification/Gitignore.thy ===== *)
theory Gitignore
  imports Wildmatch Receive_Paths Progress_State
begin

text \<open>
  The ignore rules of transfer/gitignore.cpp: how a line becomes a rule, which paths a rule
  matches, which rule decides, and which files the rules of a source directory come from.
\<close>

section \<open>Rules\<close>

record ignore_rule =
  ir_base :: path
  ir_pattern :: string
  ir_directory_only :: bool
  ir_negated :: bool
  ir_anchored :: bool

definition ignore_absolute :: "file_system \<Rightarrow> path \<Rightarrow> path" where
  "ignore_absolute fs p = (if p = [] then [] else lexically_normal (absolute fs p))"

definition path_relative_to_rule :: "file_system \<Rightarrow> path \<Rightarrow> path \<Rightarrow> string option" where
  "path_relative_to_rule fs p base =
     (if base = [] then Some (path_string p)
      else
        let relative = lexically_relative (ignore_absolute fs p) base in
        if relative = [] \<or> relative = [''.''] then None
        else if ''..'' \<in> set relative then None
        else Some (path_string relative))"

text \<open>The path and every directory above it, from the top; the flag says that it is a directory.\<close>

function path_candidates_loop :: "string \<Rightarrow> string \<Rightarrow> bool \<Rightarrow> (string \<times> bool) list" where
  "path_candidates_loop prefix s is_directory =
     (case cut slash s of (component, rest) \<Rightarrow>
        let prefix' = (if component = [] then prefix else if prefix = [] then component else prefix @ slash # component);
            here = (if component = [] then [] else [(prefix', rest \<noteq> None \<or> is_directory)])
        in case rest of None \<Rightarrow> here | Some s' \<Rightarrow> here @ path_candidates_loop prefix' s' is_directory)"
  by pat_completeness auto
termination
  by (relation "measure (\<lambda>(prefix, s, d). length s)") (auto dest: cut_shorter)

declare path_candidates_loop.simps [simp del]

definition path_candidates :: "string \<Rightarrow> bool \<Rightarrow> (string \<times> bool) list" where
  "path_candidates p is_directory = path_candidates_loop [] p is_directory"

definition last_component :: "string \<Rightarrow> string" where
  "last_component s = rev (fst (cut slash (rev s)))"

definition match_rule :: "file_system \<Rightarrow> ignore_rule \<Rightarrow> path \<Rightarrow> bool \<Rightarrow> bool" where
  "match_rule fs rule p is_directory =
     (case path_relative_to_rule fs p (ir_base rule) of
        None \<Rightarrow> False
      | Some relative \<Rightarrow>
          let path_pattern = ir_anchored rule \<or> slash \<in> set (ir_pattern rule) in
          list_ex (\<lambda>(candidate, candidate_is_directory).
              \<not> (ir_directory_only rule \<and> \<not> candidate_is_directory) \<and>
              wildmatch (ir_pattern rule) (if path_pattern then candidate else last_component candidate))
            (path_candidates relative is_directory))"

definition ignored :: "file_system \<Rightarrow> ignore_rule list \<Rightarrow> path \<Rightarrow> bool \<Rightarrow> bool" where
  "ignored fs rules p is_directory =
     fold (\<lambda>rule ign. if match_rule fs rule p is_directory then \<not> ir_negated rule else ign) rules False"

section \<open>Lines\<close>

definition trailing_character_is_escaped :: "string \<Rightarrow> bool" where
  "trailing_character_is_escaped v =
     (2 \<le> length v \<and> odd (length (takeWhile (\<lambda>c. c = backslash) (rev (butlast v)))))"

function trim_blanks :: "string \<Rightarrow> string" where
  "trim_blanks l =
     (if l \<noteq> [] \<and> (last l = CHR '' '' \<or> last l = CHR 0x09) \<and> \<not> trailing_character_is_escaped l
      then trim_blanks (butlast l) else l)"
  by pat_completeness auto
termination by (relation "measure length") auto

declare trim_blanks.simps [simp del]

definition trim_pattern_line :: "string \<Rightarrow> string" where
  "trim_pattern_line l = trim_blanks (if l \<noteq> [] \<and> last l = CHR 0x0D then butlast l else l)"

definition add_line :: "path \<Rightarrow> string \<Rightarrow> ignore_rule list \<Rightarrow> ignore_rule list" where
  "add_line base l rules =
     (let pattern = trim_pattern_line l in
      if pattern = [] \<or> hd pattern = CHR ''#'' then rules
      else
        let negated = hd pattern = CHR ''!'';
            pattern = (if negated then tl pattern else pattern);
            directory_only = pattern \<noteq> [] \<and> last pattern = slash \<and> \<not> trailing_character_is_escaped pattern;
            pattern = (if directory_only then butlast pattern else pattern);
            anchored = pattern \<noteq> [] \<and> hd pattern = slash;
            pattern = (if anchored then tl pattern else pattern)
        in if pattern = [] then rules
           else rules @ [\<lparr>ir_base = base, ir_pattern = pattern, ir_directory_only = directory_only, ir_negated = negated,
             ir_anchored = anchored\<rparr>])"

definition add_file :: "file_system \<Rightarrow> path \<Rightarrow> ignore_rule list \<Rightarrow> ignore_rule list" where
  "add_file fs p rules =
     (case status fs p of
        Inr (RegularFile b) \<Rightarrow> fold (add_line (parent_path (ignore_absolute fs p))) (getlines (string_of b)) rules
      | _ \<Rightarrow> rules)"

definition path_exists :: "file_system \<Rightarrow> path \<Rightarrow> bool" where
  "path_exists fs p = (case status fs p of Inr _ \<Rightarrow> True | Inl _ \<Rightarrow> False)"

definition is_regular_file :: "file_system \<Rightarrow> path \<Rightarrow> bool" where
  "is_regular_file fs p = (case status fs p of Inr (RegularFile _) \<Rightarrow> True | _ \<Rightarrow> False)"

section \<open>The rules of a source directory\<close>

text \<open>The directory and those above it, up to one that holds \<open>.git\<close>; the flag says that there is one.\<close>

function repository_directories :: "file_system \<Rightarrow> path \<Rightarrow> path list \<times> bool" where
  "repository_directories fs dir =
     (if path_exists fs (append_path dir [''.git'']) then ([dir], True)
      else if parent_path dir = [] \<or> dir = parent_path dir then ([dir], False)
      else case repository_directories fs (parent_path dir) of (dirs, found) \<Rightarrow> (dir # dirs, found))"
  by pat_completeness auto
termination
proof (relation "measure (length \<circ> snd)")
  fix fs and dir :: path
  assume "\<not> (parent_path dir = [] \<or> dir = parent_path dir)"
  then show "((fs, parent_path dir), fs, dir) \<in> measure (length \<circ> snd)"
    by (cases dir) (auto simp: parent_path_def split: if_splits)
qed simp

declare repository_directories.simps [simp del]

definition load_gitignore_stack :: "file_system \<Rightarrow> path \<Rightarrow> ignore_rule list" where
  "load_gitignore_stack fs root =
     (let absolute_root = ignore_absolute fs root;
          (directories, found_repository) = repository_directories fs absolute_root;
          directories = (if found_repository then directories else [absolute_root])
      in fold (\<lambda>dir rules.
             let ignore_file = append_path dir [''.gitignore''] in
             if is_regular_file fs ignore_file then add_file fs ignore_file rules else rules)
           (rev directories) [])"

section \<open>What the rules do\<close>

lemma ignored_snoc:
  "ignored fs (rules @ [r]) p d = (if match_rule fs r p d then \<not> ir_negated r else ignored fs rules p d)"
  by (simp add: ignored_def)

text \<open>The last rule that matches decides.\<close>

lemma ignored_last:
  "ignored fs rules p d = (case find (\<lambda>r. match_rule fs r p d) (rev rules) of None \<Rightarrow> False | Some r \<Rightarrow> \<not> ir_negated r)"
  by (induction rules rule: rev_induct) (simp_all add: ignored_snoc, simp add: ignored_def)

text \<open>Paths below the directory of a rule.\<close>

lemma normal_below:
  assumes "\<forall>n \<in> set names. plain_name n"
  shows "ignore_absolute fs ([slash] # names) = [slash] # names"
proof -
  have f: "filter plain_name names = names" using assms by (simp add: filter_id_conv)
  have "''..'' \<notin> set names" "\<forall>n \<in> set names. slash \<notin> set n" using assms by (auto simp: plain_name_def)
  then have "lexically_normal ([slash] # names) = [slash] # names"
    using lexically_normal_absolute [of names] assms by (cases names rule: rev_cases) (simp_all add: f)
  then show ?thesis by (simp add: ignore_absolute_def absolute_def is_absolute_def)
qed

lemma relative_below:
  assumes "\<forall>n \<in> set (names @ below). plain_name n" "below \<noteq> []" "base = [slash] # names"
  shows "path_relative_to_rule fs (base @ below) base = Some (join_names below)"
proof -
  have n: "ignore_absolute fs (base @ below) = base @ below" using normal_below [OF assms(1)] assms(3) by simp
  have h: "hd below \<in> set below" using assms(2) by simp
  then have h': "plain_name (hd below)" using assms(1) by simp
  have r: "lexically_relative (base @ below) base = below"
    using lexically_relative_below(1) [of below base] assms(2) h' by (auto simp: plain_name_def)
  have plain: "plain_name n" if "n \<in> set below" for n using that assms(1) by simp
  have b: "below \<noteq> [''.'']" "''..'' \<notin> set below" "below \<noteq> []"
    using plain [of "''.''"] plain [of "''..''"] assms(2) by (auto simp: plain_name_def)
  have "hd below \<noteq> [slash]" using h' by (auto simp: plain_name_def)
  then have s: "path_string below = join_names below" by (simp add: path_string_def is_absolute_def)
  have "base \<noteq> []" using assms(3) by simp
  then show ?thesis
    unfolding path_relative_to_rule_def n r Let_def using b s by simp
qed

lemma candidates_one: "slash \<notin> set n \<Longrightarrow> n \<noteq> [] \<Longrightarrow> path_candidates n d = [(n, d)]"
  by (simp add: path_candidates_def path_candidates_loop.simps [of "[]"])

lemma candidates_two:
  "slash \<notin> set m \<Longrightarrow> m \<noteq> [] \<Longrightarrow> slash \<notin> set n \<Longrightarrow> n \<noteq> [] \<Longrightarrow>
   path_candidates (m @ slash # n) d = [(m, True), (m @ slash # n, d)]"
  by (simp add: path_candidates_def path_candidates_loop.simps [of "[]"] path_candidates_loop.simps [of m])

lemma last_component_simps [simp]:
  "slash \<notin> set n \<Longrightarrow> last_component n = n"
  "slash \<notin> set n \<Longrightarrow> last_component (m @ slash # n) = n"
  by (simp_all add: last_component_def)

lemma add_double_star:
  "add_line base ''**/bin/'' rules = rules @ [\<lparr>ir_base = base, ir_pattern = ''**/bin'', ir_directory_only = True,
     ir_negated = False, ir_anchored = False\<rparr>]"
  by (simp add: add_line_def trim_pattern_line_def trim_blanks.simps trailing_character_is_escaped_def slash_def backslash_def)

lemma literal_globs: "globs (map Literal n) n"
  by (induction n) (auto intro: globs.intros)

lemma parse_bin: "parse_glob True ''**/bin'' = GlobStar # Literal slash # map Literal ''bin''"
  by (simp add: parse_glob.simps(2) slash_def backslash_def)

lemma add_double_star_lines:
  "match_rule fs \<lparr>ir_base = base, ir_pattern = ''**/bin'', ir_directory_only = True, ir_negated = False, ir_anchored = False\<rparr> p d \<Longrightarrow>
     ignored fs (add_line base ''**/bin/'' rules) p d"
  by (simp add: add_double_star ignored_snoc)

text \<open>Every directory above a path, and the path, is a candidate.\<close>

lemma candidates_above:
  assumes "\<forall>n \<in> set (dirs @ n # below). plain_name n"
  shows "((if prefix = [] then [] else prefix @ [slash]) @ join_names (dirs @ [n]), below \<noteq> [] \<or> d) \<in>
    set (path_candidates_loop prefix (join_names (dirs @ n # below)) d)"
  using assms
proof (induction dirs arbitrary: prefix)
  case Nil
  then have n: "n \<noteq> []" "slash \<notin> set n" by (simp_all add: plain_name_def)
  show ?case
    using n by (cases below) (simp_all add: path_candidates_loop.simps [of prefix] Let_def)
next
  case (Cons m dirs)
  then have m: "m \<noteq> []" "slash \<notin> set m" by (simp_all add: plain_name_def)
  have j: "join_names (m # dirs @ n # below) = m @ slash # join_names (dirs @ n # below)"
    "join_names (m # dirs @ [n]) = m @ slash # join_names (dirs @ [n])" by (cases dirs; simp)+
  have "((if (if prefix = [] then m else prefix @ slash # m) = [] then [] else (if prefix = [] then m else prefix @ slash # m) @ [slash]) @
      join_names (dirs @ [n]), below \<noteq> [] \<or> d) \<in>
    set (path_candidates_loop (if prefix = [] then m else prefix @ slash # m) (join_names (dirs @ n # below)) d)"
    by (rule Cons.IH) (use Cons.prems in simp)
  then show ?case
    using m by (simp add: j path_candidates_loop.simps [of prefix "m @ slash # join_names (dirs @ n # below)"] Let_def split: if_splits)
qed

lemma join_names_ends: "\<exists>u. join_names (dirs @ [x @ v]) = u @ v"
proof (induction dirs)
  case (Cons m dirs)
  then obtain u where u: "join_names (dirs @ [x @ v]) = u @ v" by blast
  have "join_names ((m # dirs) @ [x @ v]) = m @ slash # join_names (dirs @ [x @ v])" by (cases dirs) simp_all
  then show ?case using u by (intro exI [of _ "m @ slash # u"]) simp
qed simp

text \<open>
  C21: A pattern with two stars for the directories above matches inside names. The line
  \<open>**/bin/\<close> of an ignore file, whatever lines come before it, makes every directory ignored that lies below
  the directory of the file at any depth and whose name ends with \<open>bin\<close>, whatever comes before it in the
  name (\<open>cabin\<close>, say), and everything inside such a directory. (A later line can re-include it.)
\<close>

theorem double_star_ignores_by_suffix:
  assumes "\<forall>n \<in> set (names @ dirs @ below). plain_name n" "slash \<notin> set x" "below \<noteq> [] \<or> is_directory"
  shows "ignored fs (add_line ([slash] # names) ''**/bin/'' rules) ([slash] # names @ dirs @ (x @ ''bin'') # below) is_directory"
proof -
  have p: "plain_name (x @ ''bin'')" using assms(2)
    by (cases x) (auto simp: plain_name_def slash_def append_eq_Cons_conv)
  let ?ns = "dirs @ (x @ ''bin'') # below"
  have r: "path_relative_to_rule fs ([slash] # names @ ?ns) ([slash] # names) = Some (join_names ?ns)"
    using relative_below [of names ?ns "[slash] # names" fs] assms(1) p by simp
  have c: "(join_names (dirs @ [x @ ''bin'']), True) \<in> set (path_candidates (join_names ?ns) is_directory)"
    using candidates_above [of dirs "x @ ''bin''" below "[]" is_directory] assms(1,3) p by (simp add: path_candidates_def)
  obtain u where "join_names (dirs @ [x @ ''bin'']) = u @ ''bin''" using join_names_ends by blast
  then have "wildmatch ''**/bin'' (join_names (dirs @ [x @ ''bin'']))"
    using globs.globstar_slash [OF literal_globs [of "''bin''"], of u] by (simp only: wildmatch_globs parse_bin)
  then have "match_rule fs \<lparr>ir_base = [slash] # names, ir_pattern = ''**/bin'', ir_directory_only = True, ir_negated = False,
      ir_anchored = False\<rparr> ([slash] # names @ ?ns) is_directory"
    unfolding match_rule_def ignore_rule.simps r option.case Let_def list_ex_iff
    by (intro bexI [OF _ c]) (simp add: slash_def)
  then show ?thesis by (rule add_double_star_lines)
qed

theorem double_star_ignores_by_suffix_witness:
  "ignored sample_fs (add_line [[slash], ''home''] ''**/bin/'' (add_line [[slash], ''home''] ''!cabin/'' []))
     [[slash], ''home'', ''src'', ''cabin'', ''x.c''] False"
  using double_star_ignores_by_suffix [of "[''home'']" "[''src'']" "[''x.c'']" "''ca''" False sample_fs
      "add_line [[slash], ''home''] ''!cabin/'' []"]
  by (simp add: slash_def plain_name_def)

text \<open>
  A rule that re-includes a directory re-includes every file below it, also those that another rule
  names: with the lines \<open>*.log\<close> and \<open>!keep/\<close> the file \<open>keep/x.log\<close> is not ignored.
\<close>

lemma reinclude_lines:
  "fold (add_line base) [''*.log'', ''!keep/''] [] =
     [\<lparr>ir_base = base, ir_pattern = ''*.log'', ir_directory_only = False, ir_negated = False, ir_anchored = False\<rparr>,
      \<lparr>ir_base = base, ir_pattern = ''keep'', ir_directory_only = True, ir_negated = True, ir_anchored = False\<rparr>]"
  by (simp add: add_line_def trim_pattern_line_def trim_blanks.simps trailing_character_is_escaped_def slash_def backslash_def)

lemma directory_reincludes_files:
  assumes "\<forall>n \<in> set names. plain_name n" "plain_name x"
  shows "\<not> ignored fs (fold (add_line ([slash] # names)) [''*.log'', ''!keep/''] []) ([slash] # names @ [''keep'', x]) False"
proof -
  have k: "plain_name ''keep''" by (simp add: plain_name_def slash_def)
  have "path_relative_to_rule fs ([slash] # names @ [''keep'', x]) ([slash] # names) = Some (''keep'' @ slash # x)"
    using relative_below [of names "[''keep'', x]" "[slash] # names" fs] assms k by simp
  moreover have "path_candidates (''keep'' @ slash # x) False = [(''keep'', True), (''keep'' @ slash # x, False)]"
    using assms(2) k by (intro candidates_two) (auto simp: plain_name_def)
  moreover have "wildmatch ''keep'' ''keep''"
    using literal_globs [of "''keep''"] by (simp add: wildmatch_globs parse_glob.simps(2) slash_def backslash_def)
  ultimately show ?thesis
    unfolding reinclude_lines ignored_def
    by (simp add: match_rule_def slash_def last_component_def)
qed

end
