(* ===== verification/File_Collect.thy ===== *)
theory File_Collect
  imports Gitignore Sampled_Hash
begin

text \<open>
  The choice of the files to send (transfer/file_manifest.cpp): the walk over the source directory with
  its ignore rules and symbolic links. The order in which the system lists a directory, times and
  permission bits are parameters.
\<close>

datatype symlink_mode = Follow | Preserve

record collect_options =
  co_use_gitignore :: bool
  co_symlink_mode :: symlink_mode

record source_env =
  se_fs :: file_system
  se_listing :: "location \<Rightarrow> string list"
  se_mtime_ms :: "path \<Rightarrow> u64"
  se_mode :: "path \<Rightarrow> u32"

section \<open>Entries\<close>

text \<open>
  \<open>std::filesystem::relative\<close> throws if one of the two paths cannot be resolved; of the text of
  that exception only the message of the system is modelled.
\<close>

definition relative_lexical :: "file_system \<Rightarrow> path \<Rightarrow> path \<Rightarrow> string result" where
  "relative_lexical fs p base =
     (let rel = lexically_relative p base in
      if rel = []
      then (case (weakly_canonical fs (absolute fs p), weakly_canonical fs (absolute fs base)) of
          (Inr a, Inr b) \<Rightarrow> Inr (path_string (lexically_relative a b))
        | (Inl e, _) \<Rightarrow> Inl (os_message e)
        | (_, Inl e) \<Rightarrow> Inl (os_message e))
      else Inr (path_string rel))"

definition empty_entry :: "path \<Rightarrow> string \<Rightarrow> file_entry" where
  "empty_entry p rel = \<lparr>fe_absolute = p, fe_relative = rel, fe_size = 0, fe_imohash = [], fe_mtime_ms = 0, fe_mode = 0,
     fe_symlink = False, fe_link_target = []\<rparr>"

definition make_symlink_entry :: "file_system \<Rightarrow> path \<Rightarrow> path \<Rightarrow> file_entry result" where
  "make_symlink_entry fs p base =
     (case symlink_status fs p of
        Inr (Symlink text) \<Rightarrow>
          let target = parse_path text in
          if \<not> is_safe_relative_symlink_target target
          then Inl (''unsafe symlink target for '' @ path_string p @ '': '' @ path_string target)
          else andthen (relative_lexical fs p base) (\<lambda>rel.
            Inr ((empty_entry p rel)\<lparr>fe_symlink := True, fe_link_target := path_string target\<rparr>))
      | _ \<Rightarrow> Inl (''failed to read symlink: '' @ path_string p))"

definition with_metadata :: "source_env \<Rightarrow> path \<Rightarrow> file_entry \<Rightarrow> file_entry" where
  "with_metadata env p e = e\<lparr>fe_mtime_ms := se_mtime_ms env p, fe_mode := se_mode env p\<rparr>"

definition regular_entry :: "source_env \<Rightarrow> path \<Rightarrow> string \<Rightarrow> nat \<Rightarrow> file_entry result" where
  "regular_entry env p rel sz =
     andthen (imohash_hex (se_fs env) p) (\<lambda>h.
       Inr (with_metadata env p ((empty_entry p rel)\<lparr>fe_size := of_nat sz, fe_imohash := h\<rparr>)))"

definition directory_entry :: "source_env \<Rightarrow> path \<Rightarrow> string \<Rightarrow> file_entry" where
  "directory_entry env p rel = with_metadata env p (empty_entry p (rel @ [slash]))"

section \<open>The walk\<close>

record collect_state =
  cs_rules :: "ignore_rule list"
  cs_ancestors :: "location list"
  cs_entries :: "file_entry list"

definition names_in :: "source_env \<Rightarrow> path \<Rightarrow> string list" where
  "names_in env p = (case locate (se_fs env) p True of Inr loc \<Rightarrow> se_listing env loc | Inl _ \<Rightarrow> [])"

text \<open>Whether \<open>recursive_directory_iterator\<close> goes into an entry, if it is not told otherwise.\<close>

definition descends :: "source_env \<Rightarrow> collect_options \<Rightarrow> path \<Rightarrow> bool" where
  "descends env options p =
     (case symlink_status (se_fs env) p of
        Inr Directory \<Rightarrow> True
      | Inr (Symlink _) \<Rightarrow> co_symlink_mode options = Follow \<and> status (se_fs env) p = Inr Directory
      | _ \<Rightarrow> False)"

definition add_entry :: "collect_state \<Rightarrow> file_entry \<Rightarrow> collect_state" where
  "add_entry st e = st\<lparr>cs_entries := cs_entries st @ [e]\<rparr>"

text \<open>The last part of the loop's body: the entry itself.\<close>

definition visit_entry :: "source_env \<Rightarrow> collect_options \<Rightarrow> path \<Rightarrow> path \<Rightarrow> bool \<Rightarrow> bool \<Rightarrow> collect_state \<Rightarrow> collect_state result" where
  "visit_entry env options base p is_symlink is_directory st =
     (let fs = se_fs env in
      if co_symlink_mode options = Preserve \<and> is_symlink then
        andthen (relative_lexical fs p base) (\<lambda>_.
        andthen (make_symlink_entry fs p base) (\<lambda>e. Inr (add_entry st e)))
      else if is_regular_file fs p then
        andthen (relative_lexical fs p base) (\<lambda>rel.
          case file_size fs p of
            Inl _ \<Rightarrow> Inr st
          | Inr sz \<Rightarrow> andthen (regular_entry env p rel sz) (\<lambda>e. Inr (add_entry st e)))
      else if is_directory \<and> names_in env p = [] then
        andthen (relative_lexical fs p base) (\<lambda>rel. Inr (add_entry st (directory_entry env p rel)))
      else Inr st)"

text \<open>The middle part: ignore rules. The flag says whether the walk may go into the entry.\<close>

definition visit_rules :: "source_env \<Rightarrow> collect_options \<Rightarrow> path \<Rightarrow> path \<Rightarrow> bool \<Rightarrow> bool \<Rightarrow> collect_state \<Rightarrow> (collect_state \<times> bool) result" where
  "visit_rules env options base p is_symlink is_directory st =
     (let fs = se_fs env in
      if co_use_gitignore options \<and> ignored fs (cs_rules st) p is_directory then Inr (st, \<not> is_directory)
      else
        let nested_ignore = append_path p [''.gitignore''];
            st = (if co_use_gitignore options \<and> is_directory \<and> is_regular_file fs nested_ignore
                  then st\<lparr>cs_rules := add_file fs nested_ignore (cs_rules st)\<rparr> else st)
        in andthen (visit_entry env options base p is_symlink is_directory st) (\<lambda>st. Inr (st, True)))"

definition visit :: "source_env \<Rightarrow> collect_options \<Rightarrow> path \<Rightarrow> path \<Rightarrow> nat \<Rightarrow> collect_state \<Rightarrow> (collect_state \<times> bool) result" where
  "visit env options base p depth st =
     (let fs = se_fs env; follow = (co_symlink_mode options = Follow);
          st = (if follow then st\<lparr>cs_ancestors := take (depth + 1) (cs_ancestors st)\<rparr> else st)
      in case symlink_status fs p of
        Inl _ \<Rightarrow> Inr (st, True)
      | Inr node \<Rightarrow>
          let is_symlink = (case node of Symlink _ \<Rightarrow> True | _ \<Rightarrow> False) in
          if is_symlink \<and> \<not> follow then visit_rules env options base p is_symlink False st
          else case status fs p of
            Inl _ \<Rightarrow> Inr (st, True)
          | Inr target \<Rightarrow>
              if follow \<and> target = Directory then
                (case locate fs p True of
                   Inl e \<Rightarrow> Inl (''failed to resolve source directory: '' @ path_string p @ '': '' @ os_message e)
                 | Inr canonical \<Rightarrow>
                     if canonical \<in> set (cs_ancestors st) then Inr (st, False)
                     else visit_rules env options base p is_symlink True
                       (st\<lparr>cs_ancestors := cs_ancestors st @ [canonical]\<rparr>))
              else visit_rules env options base p is_symlink (target = Directory) st)"

text \<open>The recursive iterator; \<open>None\<close>: the fuel did not suffice.\<close>

function collect_names ::
  "nat \<Rightarrow> source_env \<Rightarrow> collect_options \<Rightarrow> path \<Rightarrow> path \<Rightarrow> string list \<Rightarrow> nat \<Rightarrow> collect_state \<Rightarrow> collect_state result option" where
  "collect_names fuel env options base dir [] depth st = Some (Inr st)"
| "collect_names fuel env options base dir (n # ns) depth st =
     (let p = append_path dir [n] in
      case visit env options base p depth st of
        Inl e \<Rightarrow> Some (Inl e)
      | Inr (st, pending) \<Rightarrow>
          if pending \<and> descends env options p then
            (case fuel of
               0 \<Rightarrow> None
             | Suc fuel' \<Rightarrow>
                 (case collect_names fuel' env options base p (names_in env p) (depth + 1) st of
                    Some (Inr st) \<Rightarrow> collect_names fuel env options base dir ns depth st
                  | r \<Rightarrow> r))
          else collect_names fuel env options base dir ns depth st)"
  by pat_completeness auto
termination
  by (relation "measures [\<lambda>(fuel, env, options, base, dir, ns, depth, st). fuel,
      \<lambda>(fuel, env, options, base, dir, ns, depth, st). length ns]") auto

definition collect_directory :: "nat \<Rightarrow> source_env \<Rightarrow> collect_options \<Rightarrow> path \<Rightarrow> path \<Rightarrow> file_entry list result option" where
  "collect_directory fuel env options p base =
     (let fs = se_fs env;
          rules = (if co_use_gitignore options then load_gitignore_stack fs p else [])
      in case locate fs p True of
        Inl e \<Rightarrow> Some (Inl (''failed to resolve source directory: '' @ path_string p @ '': '' @ os_message e))
      | Inr root \<Rightarrow>
          let ancestors = (if co_symlink_mode options = Follow then [root] else []) in
          (case collect_names fuel env options base p (names_in env p) 0
              \<lparr>cs_rules = rules, cs_ancestors = ancestors, cs_entries = []\<rparr> of
             Some (Inr st) \<Rightarrow>
               Some (Inr (if cs_entries st = [] then [directory_entry env p (filename p)] else cs_entries st))
           | Some (Inl e) \<Rightarrow> Some (Inl e)
           | None \<Rightarrow> None))"

definition collect_files :: "nat \<Rightarrow> source_env \<Rightarrow> collect_options \<Rightarrow> path \<Rightarrow> file_entry list result option" where
  "collect_files fuel env options p =
     (let fs = se_fs env;
          base = (if parent_path p = [] then [''.''] else parent_path p);
          preserve_top = (co_symlink_mode options = Preserve \<and> (case symlink_status fs p of Inr (Symlink _) \<Rightarrow> True | _ \<Rightarrow> False))
      in if preserve_top then Some (andthen (make_symlink_entry fs p base) (\<lambda>e. Inr [e]))
      else case status fs p of
        Inr Directory \<Rightarrow> collect_directory fuel env options p base
      | Inr (RegularFile content) \<Rightarrow>
          Some (andthen (regular_entry env p (filename p) (length content)) (\<lambda>e. Inr [e]))
      | _ \<Rightarrow> Some (Inl (''not a file or directory: '' @ path_string p)))"

section \<open>What a visit does\<close>

text \<open>The entry for a path, if there is one.\<close>

definition entry_for :: "file_system \<Rightarrow> path \<Rightarrow> path \<Rightarrow> file_entry \<Rightarrow> bool" where
  "entry_for fs base p e \<longleftrightarrow>
     fe_absolute e = p \<and> (\<exists>rel. relative_lexical fs p base = Inr rel \<and> (fe_relative e = rel \<or> fe_relative e = rel @ [slash]))"

definition adds_at_most_one :: "file_system \<Rightarrow> path \<Rightarrow> path \<Rightarrow> collect_state \<Rightarrow> collect_state \<Rightarrow> bool" where
  "adds_at_most_one fs base p st st' \<longleftrightarrow>
     (\<exists>es. cs_entries st' = cs_entries st @ es \<and> (es = [] \<or> (\<exists>e. es = [e] \<and> entry_for fs base p e)))"

lemma adds_none: "cs_entries st' = cs_entries st \<Longrightarrow> adds_at_most_one fs base p st st'"
  by (simp add: adds_at_most_one_def)

lemma adds_one: "entry_for fs base p e \<Longrightarrow> adds_at_most_one fs base p st (add_entry st e)"
  by (simp add: adds_at_most_one_def add_entry_def)

lemma entries_for:
  "make_symlink_entry fs p base = Inr e \<Longrightarrow> entry_for fs base p e"
  "relative_lexical fs p base = Inr rel \<Longrightarrow> regular_entry env p rel sz = Inr e \<Longrightarrow> entry_for fs base p e"
  "relative_lexical fs p base = Inr rel \<Longrightarrow> entry_for fs base p (directory_entry env p rel)"
  by (auto simp: make_symlink_entry_def regular_entry_def directory_entry_def with_metadata_def entry_for_def empty_entry_def
      Let_def andthen_Inr_iff split: sum.splits node.splits if_splits)

lemma visit_entry_adds:
  assumes "visit_entry env options base p l d st = Inr st'"
  shows "adds_at_most_one (se_fs env) base p st st' \<and> cs_ancestors st' = cs_ancestors st"
proof -
  have "st' = st \<or> (\<exists>e. st' = add_entry st e \<and> entry_for (se_fs env) base p e)"
    using assms entries_for(1) [of "se_fs env" p base] entries_for(2,3) [of "se_fs env" p base]
    by (cases "file_size (se_fs env) p") (auto simp: visit_entry_def Let_def andthen_Inr_iff split: if_splits)
  then consider "st' = st" | e where "st' = add_entry st e" "entry_for (se_fs env) base p e" by blast
  then show ?thesis by cases (simp add: adds_none, simp add: adds_one, simp add: add_entry_def)
qed

lemma visit_rules_adds:
  assumes "visit_rules env options base p l d st = Inr (st', pending)"
  shows "adds_at_most_one (se_fs env) base p st st' \<and> cs_ancestors st' = cs_ancestors st"
proof -
  consider "st' = st" | st1 where "visit_entry env options base p l d st1 = Inr st'" "cs_entries st1 = cs_entries st"
      "cs_ancestors st1 = cs_ancestors st"
    using assms by (auto simp: visit_rules_def Let_def andthen_Inr_iff split: if_splits)
  then show ?thesis
  proof cases
    case 2
    then show ?thesis using visit_entry_adds [OF 2(1)] by (simp add: adds_at_most_one_def)
  qed (simp add: adds_none)
qed

lemma resolve_root:
  "resolve fuel fs at ns False = Inr [] \<Longrightarrow> resolve fuel fs at ns True = Inr []"
proof (induction fuel fs at ns False rule: resolve.induct)
  case (2 fuel fs at n ns)
  then show ?case
    by (auto simp: resolve.simps(2) [of fuel fs at n ns] Let_def split: option.splits node.splits nat.splits if_splits)
qed simp

text \<open>The stack of the directories above the current entry.\<close>

lemma directory_followed:
  assumes "symlink_status fs p = Inr Directory"
  shows "status fs p = Inr Directory"
proof -
  obtain loc where loc: "locate fs p False = Inr loc" "loc = [] \<or> nodes fs loc = Some Directory"
    using assms by (auto simp: symlink_status_def node_at_def split: sum.splits if_splits option.splits)
  have "\<nexists>t. nodes fs loc = Some (Symlink t)" if "loc \<noteq> []" using loc that by auto
  moreover have "locate fs p True = Inr loc" if n: "\<nexists>t. nodes fs loc = Some (Symlink t)"
    using loc(1) n resolve_nofollow_same by (auto simp: locate_def split: if_splits)
  moreover have "locate fs p True = Inr loc" if "loc = []"
    using loc(1) that resolve_root [of max_links "nodes fs"] by (auto simp: locate_def split: if_splits)
  ultimately have "locate fs p True = Inr loc" by blast
  then show ?thesis using loc(2) by (auto simp: status_def node_at_def)
qed


text \<open>A visit adds at most the entry of its path; if the walk goes on into a directory and links are followed, the directory is new on the stack.\<close>

lemma visit_cases:
  assumes "visit env options base p depth st = Inr (st', pending)"
  obtains st1 where "adds_at_most_one (se_fs env) base p st1 st'" "cs_ancestors st' = cs_ancestors st1" "cs_entries st1 = cs_entries st"
    "co_symlink_mode options = Follow \<Longrightarrow>
       cs_ancestors st1 = take (depth + 1) (cs_ancestors st) \<and> \<not> (pending \<and> descends env options p) \<or>
       (\<exists>loc. locate (se_fs env) p True = Inr loc \<and> is_dir (nodes (se_fs env)) loc \<and> loc \<notin> set (take (depth + 1) (cs_ancestors st)) \<and>
          cs_ancestors st1 = take (depth + 1) (cs_ancestors st) @ [loc])"
proof -
  let ?fs = "se_fs env"
  let ?st0 = "if co_symlink_mode options = Follow then st\<lparr>cs_ancestors := take (depth + 1) (cs_ancestors st)\<rparr> else st"
  have e0: "cs_entries ?st0 = cs_entries st" by simp
  have a0: "co_symlink_mode options = Follow \<Longrightarrow> cs_ancestors ?st0 = take (depth + 1) (cs_ancestors st)" by simp
  show thesis
  proof (cases "symlink_status ?fs p")
    case (Inl e)
    then have "st' = ?st0" using assms by (simp add: visit_def Let_def)
    then show thesis
      using that [of ?st0] Inl a0 e0 by (simp add: adds_none descends_def)
  next
    case (Inr node)
    let ?l = "case node of Symlink _ \<Rightarrow> True | _ \<Rightarrow> False"
    show thesis
    proof (cases "?l \<and> co_symlink_mode options \<noteq> Follow")
      case True
      then have "visit_rules env options base p ?l False ?st0 = Inr (st', pending)"
        using assms Inr by (simp add: visit_def Let_def)
      from visit_rules_adds [OF this] show thesis using that [of ?st0] True e0 by auto
    next
      case follow: False
      show thesis
      proof (cases "status ?fs p")
        case (Inl e)
        then have st: "st' = ?st0" using assms Inr follow by (auto simp: visit_def Let_def split: if_splits)
        have "\<not> descends env options p"
          using Inl Inr directory_followed [of ?fs p] by (cases node) (auto simp: descends_def)
        then show thesis using that [of ?st0] st a0 e0 by (simp add: adds_none)
      next
        case target: (Inr target)
        show thesis
        proof (cases "co_symlink_mode options = Follow \<and> target = Directory")
          case True
          obtain loc where loc: "locate ?fs p True = Inr loc" "is_dir (nodes ?fs) loc"
            using target True by (auto simp: status_def node_at_def is_dir_def split: sum.splits if_splits option.splits)
          show thesis
          proof (cases "loc \<in> set (cs_ancestors ?st0)")
            case old: True
            then have "st' = ?st0" "\<not> pending" using assms Inr follow target True loc by (auto simp: visit_def Let_def split: if_splits)
            then show thesis using that [of ?st0] a0 e0 by (simp add: adds_none)
          next
            case new: False
            let ?st1 = "?st0\<lparr>cs_ancestors := cs_ancestors ?st0 @ [loc]\<rparr>"
            have "visit_rules env options base p ?l True ?st1 = Inr (st', pending)"
              using assms Inr follow target True loc new by (simp add: visit_def Let_def)
            from visit_rules_adds [OF this] show thesis
              using that [of ?st1] loc new True by simp
          qed
        next
          case False
          have "\<not> descends env options p" if "co_symlink_mode options = Follow"
            using Inr target False that directory_followed [of ?fs p] by (cases node) (auto simp: descends_def)
          moreover have "visit_rules env options base p ?l (target = Directory) ?st0 = Inr (st', pending)"
            using assms Inr follow target False by (auto simp: visit_def Let_def split: if_splits)
          ultimately show thesis using visit_rules_adds that [of ?st0] a0 e0 by blast
        qed
      qed
    qed
  qed
qed

lemma visit_stack:
  assumes "visit env options base p depth st = Inr (st', pending)" "co_symlink_mode options = Follow"
  shows "cs_ancestors st' = take (depth + 1) (cs_ancestors st) \<and> \<not> (pending \<and> descends env options p) \<or>
    (\<exists>loc. loc \<in> {loc. is_dir (nodes (se_fs env)) loc} \<and> loc \<notin> set (take (depth + 1) (cs_ancestors st)) \<and>
       cs_ancestors st' = take (depth + 1) (cs_ancestors st) @ [loc])"
proof (rule visit_cases [OF assms(1)])
  fix st1
  assume a: "cs_ancestors st' = cs_ancestors st1"
    and c: "co_symlink_mode options = Follow \<Longrightarrow>
       cs_ancestors st1 = take (depth + 1) (cs_ancestors st) \<and> \<not> (pending \<and> descends env options p) \<or>
       (\<exists>loc. locate (se_fs env) p True = Inr loc \<and> is_dir (nodes (se_fs env)) loc \<and> loc \<notin> set (take (depth + 1) (cs_ancestors st)) \<and>
          cs_ancestors st1 = take (depth + 1) (cs_ancestors st) @ [loc])"
  from c [OF assms(2)] show ?thesis
    unfolding a mem_Collect_eq by (elim disjE exE conjE) (intro disjI1 conjI, assumption+, intro disjI2 exI conjI)
qed

section \<open>The walk ends\<close>

definition chain_ok :: "file_system \<Rightarrow> nat \<Rightarrow> collect_state \<Rightarrow> location list \<Rightarrow> bool" where
  "chain_ok fs depth st chain \<longleftrightarrow>
     take (depth + 1) (cs_ancestors st) = chain \<and> length chain = depth + 1 \<and> distinct chain \<and>
     set chain \<subseteq> {loc. is_dir (nodes fs) loc}"

lemma chain_ok_longer:
  assumes "chain_ok fs (depth + 1) st (chain @ [loc])" "length chain = depth + 1"
  shows "chain_ok fs depth st chain"
proof -
  have "take (depth + 1) (cs_ancestors st) = take (depth + 1) (take (depth + 1 + 1) (cs_ancestors st))" by simp
  also have "\<dots> = chain" using assms by (simp add: chain_ok_def)
  finally show ?thesis using assms by (simp add: chain_ok_def)
qed

lemma walk_ends:
  assumes "co_symlink_mode options = Follow" "finite {loc. is_dir (nodes (se_fs env)) loc}"
  shows "chain_ok (se_fs env) depth st chain \<Longrightarrow> card {loc. is_dir (nodes (se_fs env)) loc} \<le> fuel + depth + 1 \<Longrightarrow>
    \<exists>r. collect_names fuel env options base dir ns depth st = Some r \<and>
      (\<forall>st'. r = Inr st' \<longrightarrow> chain_ok (se_fs env) depth st' chain)"
  using assms
proof (induction fuel env options base dir ns depth st arbitrary: chain rule: collect_names.induct)
  case (1 fuel env options base dir depth st)
  then show ?case by simp
next
  case (2 fuel env options base dir n ns depth st)
  let ?p = "append_path dir [n]"
  let ?D = "{loc. is_dir (nodes (se_fs env)) loc}"
  have chain: "take (depth + 1) (cs_ancestors st) = chain" "length chain = depth + 1" "distinct chain" "set chain \<subseteq> ?D"
    using "2.prems"(1) by (simp_all add: chain_ok_def)
  show ?case
  proof (cases "visit env options base ?p depth st")
    case (Inl e)
    then show ?thesis by simp
  next
    case (Inr r)
    obtain st' pending where r: "r = (st', pending)" by fastforce
    have v: "visit env options base ?p depth st = Inr (st', pending)" using Inr r by simp
    have st1: "cs_ancestors st' = chain \<and> \<not> (pending \<and> descends env options ?p) \<or>
       (\<exists>loc. loc \<in> ?D \<and> loc \<notin> set chain \<and> cs_ancestors st' = chain @ [loc])"
      using visit_stack [OF v "2.prems"(3)] unfolding chain(1) .
    have ok: "chain_ok (se_fs env) depth st' chain"
      using st1 chain by (elim disjE exE conjE) (simp_all add: chain_ok_def)
    show ?thesis
    proof (cases "pending \<and> descends env options ?p")
      case False
      have "collect_names fuel env options base dir (n # ns) depth st = collect_names fuel env options base dir ns depth st'"
        unfolding collect_names.simps Let_def v sum.case prod.case by (simp only: False if_False)
      then show ?thesis using "2.IH"(3) [OF refl v refl False ok "2.prems"(2-4)] by simp
    next
      case True
      then obtain loc where loc: "loc \<in> ?D" "loc \<notin> set chain" "cs_ancestors st' = chain @ [loc]" using st1 by blast
      have ok': "chain_ok (se_fs env) (depth + 1) st' (chain @ [loc])"
        using chain loc by (simp add: chain_ok_def)
      have "card (set (chain @ [loc])) \<le> card ?D"
        using "2.prems"(4) chain(4) loc(1) by (intro card_mono) auto
      then have "depth + 2 \<le> card ?D" using distinct_card [of "chain @ [loc]"] chain(2,3) loc(2) by simp
      then have "depth + 2 \<le> fuel + depth + 1" using "2.prems"(2) by (rule le_trans)
      then obtain fuel' where f: "fuel = Suc fuel'" by (cases fuel) auto
      have c: "card ?D \<le> fuel' + (depth + 1) + 1" using "2.prems"(2) f by simp
      obtain r2 where r2: "collect_names fuel' env options base ?p (names_in env ?p) (depth + 1) st' = Some r2"
        "\<And>st2. r2 = Inr st2 \<Longrightarrow> chain_ok (se_fs env) (depth + 1) st2 (chain @ [loc])"
        using "2.IH"(1) [OF refl v refl True f ok' c "2.prems"(3,4)] by blast
      show ?thesis
      proof (cases r2)
        case (Inl e)
        then have "collect_names fuel env options base dir (n # ns) depth st = Some (Inl e)"
          using True r2(1) by (simp add: v f)
        then show ?thesis by simp
      next
        case st2: (Inr st2)
        have ok2: "chain_ok (se_fs env) depth st2 chain" using chain_ok_longer [OF r2(2) [OF st2] chain(2)] .
        have "collect_names fuel env options base dir (n # ns) depth st = collect_names fuel env options base dir ns depth st2"
          using True r2(1) st2 by (simp add: v f)
        then show ?thesis using "2.IH"(2) [OF refl v refl True f r2(1) st2 ok2 "2.prems"(2-4)] by simp
      qed
    qed
  qed
qed

text \<open>
  C18: The walk over a source directory ends, whatever symbolic links lead back into it: following
  links it goes at most as deep as there are directories.
\<close>

theorem collecting_ends:
  assumes "co_symlink_mode options = Follow" "finite {loc. nodes (se_fs env) loc = Some Directory}"
  shows "collect_files (card {loc. nodes (se_fs env) loc = Some Directory}) env options p \<noteq> None"
proof -
  let ?D = "{loc. nodes (se_fs env) loc = Some Directory}"
  have D: "{loc. is_dir (nodes (se_fs env)) loc} = insert [] ?D" by (auto simp: is_dir_def)
  have fin: "finite {loc. is_dir (nodes (se_fs env)) loc}" using assms(2) D by simp
  have card: "card {loc. is_dir (nodes (se_fs env)) loc} \<le> card ?D + 0 + 1" unfolding D using card_insert_le_m1 assms(2)
    by (simp add: card_insert_if)
  have "collect_directory (card ?D) env options p base \<noteq> None" if s: "status (se_fs env) p = Inr Directory" for base
  proof -
    obtain loc where loc: "locate (se_fs env) p True = Inr loc" "is_dir (nodes (se_fs env)) loc"
      using s by (auto simp: status_def node_at_def is_dir_def split: sum.splits if_splits option.splits)
    let ?st = "\<lparr>cs_rules = if co_use_gitignore options then load_gitignore_stack (se_fs env) p else [], cs_ancestors = [loc], cs_entries = []\<rparr>"
    have "chain_ok (se_fs env) 0 ?st [loc]" using loc(2) by (simp add: chain_ok_def)
    from walk_ends [OF assms(1) fin this card]
    obtain r where "collect_names (card ?D) env options base p (names_in env p) 0 ?st = Some r" by blast
    then show ?thesis
      using loc(1) assms(1) by (cases r) (simp_all add: collect_directory_def Let_def)
  qed
  then show ?thesis by (simp add: collect_files_def Let_def split: sum.split node.split)
qed

section \<open>The names sent\<close>

lemma split_join:
  "names \<noteq> [] \<Longrightarrow> \<forall>n \<in> set names. plain_name n \<Longrightarrow> split_names (join_names names) = names"
  "names \<noteq> [] \<Longrightarrow> \<forall>n \<in> set names. plain_name n \<Longrightarrow> split_names (join_names names @ [slash]) = names @ [[]]"
proof (induction names rule: join_names.induct)
  case (2 n)
  { case 1 then show ?case by (subst split_names.simps) (simp add: plain_name_def) }
  { case 2 then show ?case
      by (subst split_names.simps) (simp add: plain_name_def, subst split_names.simps, simp) }
next
  case (3 n m ns)
  have d: "dropWhile ((=) slash) (join_names (m # ns) @ s) = join_names (m # ns) @ s" if "plain_name m" for s
    using that by (cases ns; cases m) (auto simp: plain_name_def)
  { case 1
    then have "dropWhile ((=) slash) (join_names (m # ns)) = join_names (m # ns)" using d [of "[]"] by simp
    then show ?case using 1 3(1) by (subst split_names.simps) (simp add: plain_name_def) }
  { case 2
    then show ?case using 3(2) d [of "[slash]"] by (subst split_names.simps) (simp add: plain_name_def) }
qed simp_all

lemma parse_join:
  assumes "names \<noteq> []" "\<forall>n \<in> set names. plain_name n"
  shows "parse_path (join_names names) = names" "parse_path (join_names names @ [slash]) = names @ [[]]"
proof -
  have "\<exists>c s. join_names names = c # s \<and> c \<noteq> slash"
    using assms by (cases names rule: join_names.cases; cases "hd names") (auto simp: plain_name_def)
  then obtain c s where c: "join_names names = c # s" "c \<noteq> slash" by blast
  show "parse_path (join_names names) = names" "parse_path (join_names names @ [slash]) = names @ [[]]"
    using split_join [OF assms] c by (simp_all add: parse_path_def)
qed

lemma relative_lexical_below:
  assumes "p \<noteq> []" "plain_name (last p)" "\<forall>n \<in> set names. plain_name n"
  shows "relative_lexical fs (p @ names) (if parent_path p = [] then [''.''] else parent_path p) = Inr (join_names (last p # names))"
proof -
  have l: "last p \<noteq> [slash]" "last p \<noteq> []" "last p \<noteq> ''.''" using assms(2) by (auto simp: plain_name_def)
  have par: "parent_path p = butlast p" using l(1) by (auto simp: parent_path_def)
  have p: "p @ names = butlast p @ last p # names" using assms(1) by simp
  have "lexically_relative (p @ names) (if parent_path p = [] then [''.''] else parent_path p) = last p # names"
  proof (cases "butlast p = []")
    case True
    then show ?thesis unfolding par p using l by (simp add: lexically_relative_def)
  next
    case False
    then show ?thesis
      unfolding par p using lexically_relative_below(1) [of "last p # names" "butlast p"] l by simp
  qed
  then show ?thesis using l by (simp add: relative_lexical_def path_string_def is_absolute_def Let_def)
qed

text \<open>A name that a path of the transfer can have.\<close>

definition sendable :: "string \<Rightarrow> bool" where
  "sendable n \<longleftrightarrow> plain_name n \<and> CHR 0x00 \<notin> set n"

text \<open>The entries of a walk from a directory: each below one of its names, none twice.\<close>

definition entries_below :: "file_system \<Rightarrow> path \<Rightarrow> path \<Rightarrow> string list \<Rightarrow> file_entry list \<Rightarrow> bool" where
  "entries_below fs base dir ns es \<longleftrightarrow>
     (\<forall>e \<in> set es. \<exists>n rest. n \<in> set ns \<and> (\<forall>m \<in> set rest. sendable m) \<and> entry_for fs base (dir @ n # rest) e) \<and>
     distinct (map fe_absolute es)"

lemma entries_below_Nil: "entries_below fs base dir ns []"
  by (simp add: entries_below_def)

lemma entries_below_Cons:
  assumes "es = [] \<or> (\<exists>e. es = [e] \<and> entry_for fs base (dir @ [n]) e)" "entries_below fs base (dir @ [n]) ms es1"
    "entries_below fs base dir ns es2" "n \<notin> set ns" "\<forall>m \<in> set ms. sendable m"
  shows "entries_below fs base dir (n # ns) (es @ es1 @ es2)"
proof -
  have 1: "\<exists>rest. (\<forall>m \<in> set rest. sendable m) \<and> entry_for fs base (dir @ n # rest) e" if e: "e \<in> set (es @ es1)" for e
  proof -
    have "e \<in> set es \<or> e \<in> set es1" using e by simp
    then consider "e \<in> set es" | m rest where "m \<in> set ms" "\<forall>m \<in> set rest. sendable m" "entry_for fs base ((dir @ [n]) @ m # rest) e"
      using assms(2) unfolding entries_below_def by blast
    then show ?thesis
    proof cases
      case 1
      then show ?thesis using assms(1) by (intro exI [of _ "[]"]) auto
    next
      case 2
      then show ?thesis using assms(5) by (intro exI [of _ "m # rest"]) auto
    qed
  qed
  have a: "fe_absolute e = p" if "entry_for fs base p e" for p e using that by (simp add: entry_for_def)
  have d1: "distinct (map fe_absolute (es @ es1))"
  proof -
    have "fe_absolute e \<noteq> dir @ [n]" if e: "e \<in> set es1" for e
    proof -
      obtain m rest where "entry_for fs base ((dir @ [n]) @ m # rest) e" using e assms(2) unfolding entries_below_def by blast
      from a [OF this] show ?thesis by simp
    qed
    then have "dir @ [n] \<notin> set (map fe_absolute es1)" by (metis imageE list.set_map)
    moreover have "distinct (map fe_absolute es1)" using assms(2) unfolding entries_below_def ..
    moreover have "es = [] \<or> map fe_absolute es = [dir @ [n]]" using assms(1) a by auto
    ultimately show ?thesis by (cases "es = []") simp_all
  qed
  have "fe_absolute e1 \<noteq> fe_absolute e2" if h: "e1 \<in> set (es @ es1)" "e2 \<in> set es2" for e1 e2
  proof -
    obtain r1 where "fe_absolute e1 = dir @ n # r1" using 1 [OF h(1)] a by blast
    moreover obtain m r2 where "m \<in> set ns" "fe_absolute e2 = dir @ m # r2"
      using h(2) assms(3) a unfolding entries_below_def by blast
    ultimately show ?thesis using assms(4) by auto
  qed
  then have "distinct (map fe_absolute (es @ es1 @ es2))"
    using d1 assms(3) by (auto simp: entries_below_def)
  moreover have "\<exists>k rest. k \<in> set (n # ns) \<and> (\<forall>m \<in> set rest. sendable m) \<and> entry_for fs base (dir @ k # rest) e"
    if "e \<in> set (es @ es1 @ es2)" for e
  proof (cases "e \<in> set es2")
    case True
    then show ?thesis using assms(3) unfolding entries_below_def by (meson list.set_intros(2))
  next
    case False
    then have "e \<in> set (es @ es1)" using that by simp
    from 1 [OF this] show ?thesis by (meson list.set_intros(1))
  qed
  ultimately show ?thesis unfolding entries_below_def by blast
qed

text \<open>What listing a directory gives: its names, each once, without \<open>.\<close> and \<open>..\<close>.\<close>

definition listing_ok :: "source_env \<Rightarrow> bool" where
  "listing_ok env \<longleftrightarrow> (\<forall>loc. distinct (se_listing env loc) \<and> (\<forall>n \<in> set (se_listing env loc). sendable n))"

lemma names_in_ok: "listing_ok env \<Longrightarrow> distinct (names_in env p) \<and> (\<forall>n \<in> set (names_in env p). sendable n)"
  by (cases "locate (se_fs env) p True") (simp_all add: listing_ok_def names_in_def)


lemma append_plain: "dir \<noteq> [] \<Longrightarrow> plain_name (last dir) \<Longrightarrow> plain_name n \<Longrightarrow> append_path dir [n] = dir @ [n]"
  by (auto simp: append_path_def is_absolute_def plain_name_def)

lemma walk_visits:
  "collect_names fuel env options base dir (n # ns) depth st = Some (Inr st') \<Longrightarrow>
   \<exists>st1 pending. visit env options base (append_path dir [n]) depth st = Inr (st1, pending)"
  by (cases "visit env options base (append_path dir [n]) depth st") auto

lemma walk_entries:
  assumes "listing_ok env"
  shows "collect_names fuel env options base dir ns depth st = Some (Inr st') \<Longrightarrow> distinct ns \<Longrightarrow> \<forall>n \<in> set ns. sendable n \<Longrightarrow>
    dir \<noteq> [] \<Longrightarrow> plain_name (last dir) \<Longrightarrow>
    \<exists>es. cs_entries st' = cs_entries st @ es \<and> entries_below (se_fs env) base dir ns es"
  using assms
proof (induction fuel env options base dir ns depth st arbitrary: st' rule: collect_names.induct)
  case (1 fuel env options base dir depth st)
  then show ?case by (simp add: entries_below_Nil)
next
  case (2 fuel env options base dir n ns depth st)
  have "sendable n" using "2.prems"(3) by simp
  then have n: "plain_name n" by (simp add: sendable_def)
  then have p: "append_path dir [n] = dir @ [n]"
    using append_plain "2.prems"(4,5) by blast
  obtain st1 pending where v: "visit env options base (append_path dir [n]) depth st = Inr (st1, pending)"
    using walk_visits [OF "2.prems"(1)] by blast
  have "adds_at_most_one (se_fs env) base (append_path dir [n]) st st1"
    by (rule visit_cases [OF v]) (simp add: adds_at_most_one_def)
  then obtain es where es: "cs_entries st1 = cs_entries st @ es" "es = [] \<or> (\<exists>e. es = [e] \<and> entry_for (se_fs env) base (dir @ [n]) e)"
    unfolding adds_at_most_one_def p by blast
  note names = names_in_ok [OF "2.prems"(6), of "append_path dir [n]"]
  show ?case
  proof (cases "pending \<and> descends env options (append_path dir [n])")
    case False
    have "collect_names fuel env options base dir ns depth st1 = Some (Inr st')"
      using "2.prems"(1) unfolding collect_names.simps Let_def v sum.case prod.case by (simp only: False if_False)
    from "2.IH"(3) [OF refl v refl False this] obtain es2 where
      "cs_entries st' = cs_entries st1 @ es2" "entries_below (se_fs env) base dir ns es2"
      using "2.prems"(2-6) by auto
    then show ?thesis
      using entries_below_Cons [OF es(2) entries_below_Nil _ , where ms = "[]"] es(1) "2.prems"(2) by fastforce
  next
    case True
    obtain fuel' where f: "fuel = Suc fuel'"
      using "2.prems"(1) unfolding collect_names.simps Let_def v sum.case prod.case by (cases fuel) (simp_all only: True if_True, simp)
    obtain st2 where s2: "collect_names fuel' env options base (append_path dir [n]) (names_in env (append_path dir [n])) (depth + 1) st1 = Some (Inr st2)"
      "collect_names fuel env options base dir ns depth st2 = Some (Inr st')"
      using "2.prems"(1) unfolding collect_names.simps Let_def v sum.case prod.case
      by (simp only: True if_True f nat.case) (simp split: option.splits sum.splits)
    obtain es1 where es1: "cs_entries st2 = cs_entries st1 @ es1"
      "entries_below (se_fs env) base (append_path dir [n]) (names_in env (append_path dir [n])) es1"
      using "2.IH"(1) [OF refl v refl True f s2(1)] names n(1) p "2.prems"(6) by auto
    obtain es2 where es2: "cs_entries st' = cs_entries st2 @ es2" "entries_below (se_fs env) base dir ns es2"
      using "2.IH"(2) [OF refl v refl True f s2(1) refl s2(2)] "2.prems"(2-6) by auto
    show ?thesis
      using entries_below_Cons [OF es(2) es1(2) [unfolded p] es2(2)] es(1) es1(1) es2(1) names p "2.prems"(2) by auto
  qed
qed

definition sent_below :: "path \<Rightarrow> file_entry \<Rightarrow> bool" where
  "sent_below p e \<longleftrightarrow> (\<exists>names. (\<forall>n \<in> set names. sendable n) \<and> fe_absolute e = p @ names \<and>
     parse_path (fe_relative e) \<in> {last p # names, last p # names @ [[]]})"

lemma relatives_parse:
  assumes "sendable x" "\<forall>n \<in> set names. sendable n"
  shows "parse_path (join_names (x # names)) = x # names" "parse_path (join_names (x # names) @ [slash]) = x # names @ [[]]"
  using parse_join [of "x # names"] assms by (simp_all add: sendable_def)

lemma entry_for_below:
  assumes "entry_for fs (if parent_path p = [] then [''.''] else parent_path p) (p @ names) e" "p \<noteq> []" "sendable (last p)"
    "\<forall>n \<in> set names. sendable n"
  shows "sent_below p e \<and> CHR 0x00 \<notin> set (fe_relative e)"
proof -
  let ?r = "join_names (last p # names)"
  have r: "relative_lexical fs (p @ names) (if parent_path p = [] then [''.''] else parent_path p) = Inr ?r"
    using relative_lexical_below assms(2-4) by (auto simp: sendable_def)
  have e: "fe_absolute e = p @ names" "fe_relative e = ?r \<or> fe_relative e = ?r @ [slash]"
    using assms(1) unfolding entry_for_def r by simp_all
  have "\<forall>n \<in> set ns. CHR 0x00 \<notin> set n \<Longrightarrow> CHR 0x00 \<notin> set (join_names ns)" for ns
    by (induction ns rule: join_names.induct) (auto simp: slash_def)
  then have "CHR 0x00 \<notin> set ?r" using assms(3,4) by (simp add: sendable_def)
  then show ?thesis
    using e relatives_parse [OF assms(3,4)] assms(4) unfolding sent_below_def by (auto simp: slash_def)
qed

lemma safe_join_below:
  assumes "sent_below p e" "CHR 0x00 \<notin> set (fe_relative e)" "sendable (last p)"
  shows "safe_join out (fe_relative e) = Inr (append_path out (parse_path (fe_relative e)))"
proof -
  obtain names where n: "\<forall>n \<in> set names. sendable n"
    "parse_path (fe_relative e) = last p # names \<or> parse_path (fe_relative e) = last p # names @ [[]]"
    using assms(1) by (auto simp: sent_below_def)
  have l: "last p \<noteq> ''..''" "last p \<noteq> [slash]" "''..'' \<notin> set names"
    using n(1) assms(3) by (auto simp: sendable_def plain_name_def)
  from n(2) have "''..'' \<notin> set (parse_path (fe_relative e))" "\<not> is_absolute (parse_path (fe_relative e))"
    using l by (elim disjE; simp add: is_absolute_def)+
  then show ?thesis using assms(2) by (simp add: safe_join_def Let_def)
qed

lemma below_inj:
  assumes "sent_below p a" "sent_below p b" "fe_relative a = fe_relative b"
  shows "fe_absolute a = fe_absolute b"
proof -
  obtain ns ms where n: "\<forall>n \<in> set ns. sendable n" "\<forall>n \<in> set ms. sendable n" "fe_absolute a = p @ ns" "fe_absolute b = p @ ms"
    "parse_path (fe_relative a) \<in> {last p # ns, last p # ns @ [[]]}" "parse_path (fe_relative a) \<in> {last p # ms, last p # ms @ [[]]}"
    using assms unfolding sent_below_def by metis
  have "[] \<notin> set ns" "[] \<notin> set ms" using n(1,2) by (auto simp: sendable_def plain_name_def)
  then have "ns = ms" using n(5,6) by auto
  then show ?thesis using n(3,4) by simp
qed

lemma distinct_relatives:
  assumes "distinct (map fe_absolute es)" "\<forall>e \<in> set es. sent_below p e"
  shows "distinct (map fe_relative es)"
proof -
  have "inj_on fe_relative (set es)"
  proof (rule inj_onI)
    fix a b assume h: "a \<in> set es" "b \<in> set es" "fe_relative a = fe_relative b"
    then have "fe_absolute a = fe_absolute b" using below_inj assms(2) by blast
    then show "a = b" using assms(1) h unfolding distinct_map by (meson inj_onD)
  qed
  then show ?thesis using assms(1) unfolding distinct_map by blast
qed

lemma collected_entries:
  assumes "collect_files fuel env options p = Some (Inr es)" "listing_ok env" "p \<noteq> []" "sendable (last p)"
  shows "distinct (map fe_absolute es) \<and>
    (\<forall>e \<in> set es. \<exists>names. (\<forall>n \<in> set names. sendable n) \<and>
       entry_for (se_fs env) (if parent_path p = [] then [''.''] else parent_path p) (p @ names) e)"
proof -
  let ?base = "if parent_path p = [] then [''.''] else parent_path p"
  have f: "filename p = last p" using assms(3,4) by (auto simp: filename_def sendable_def plain_name_def)
  have top: "relative_lexical (se_fs env) p ?base = Inr (last p)"
    using relative_lexical_below [of p "[]" "se_fs env"] assms(3,4) by (simp add: sendable_def)
  have one: ?thesis if "es = [e]" "entry_for (se_fs env) ?base p e" for e
    using that by (auto intro!: exI [of _ "[]"])
  consider (link) e where "make_symlink_entry (se_fs env) p ?base = Inr e" "es = [e]"
    | (dir) "collect_directory fuel env options p ?base = Some (Inr es)"
    | (regular) e c where "regular_entry env p (filename p) c = Inr e" "es = [e]"
    using assms(1) by (auto simp: collect_files_def Let_def andthen_Inr_iff split: if_splits sum.splits node.splits)
  then show ?thesis
  proof cases
    case link
    then show ?thesis using one entries_for(1) by blast
  next
    case regular
    then have "entry_for (se_fs env) ?base p e" using entries_for(2) [OF top, of env c e] by (simp only: f)
    then show ?thesis using one regular by blast
  next
    case dir
    obtain rules anc st where w: "collect_names fuel env options ?base p (names_in env p) 0
        \<lparr>cs_rules = rules, cs_ancestors = anc, cs_entries = []\<rparr> = Some (Inr st)"
      "es = (if cs_entries st = [] then [directory_entry env p (filename p)] else cs_entries st)"
      using dir unfolding collect_directory_def Let_def by (auto split: sum.splits option.splits)
    have n: "distinct (names_in env p)" "\<forall>n \<in> set (names_in env p). sendable n" using names_in_ok [OF assms(2)] by auto
    have below: "entries_below (se_fs env) ?base p (names_in env p) (cs_entries st)"
      using walk_entries [OF assms(2) w(1) n assms(3)] assms(4) by (auto simp: sendable_def)
    show ?thesis
    proof (cases "cs_entries st = []")
      case True
      then show ?thesis
        using one w(2) entries_for(3) [OF top, of env] f by simp
    next
      case False
      have "\<exists>names. (\<forall>n \<in> set names. sendable n) \<and> entry_for (se_fs env) ?base (p @ names) e" if e: "e \<in> set es" for e
      proof -
        obtain m rest where "m \<in> set (names_in env p)" "\<forall>m \<in> set rest. sendable m" "entry_for (se_fs env) ?base (p @ m # rest) e"
          using e below w(2) False unfolding entries_below_def by auto
        then show ?thesis using n(2) by (intro exI [of _ "m # rest"]) simp
      qed
      then show ?thesis using below w(2) False unfolding entries_below_def by simp
    qed
  qed
qed

text \<open>
  C19: The names that a sender offers are names that a receiver accepts, if the last component of
  the source path is an ordinary name (not empty as after a trailing separator, not \<open>.\<close> or \<open>..\<close>, without NUL).
  Then every collected entry lies at or below the source, its transfer name is that name followed
  by the path below it, no two entries share one, and joining it to an output directory is not
  refused. Directory listings give each name once, and only ordinary names.
\<close>

theorem collected_names_accepted:
  assumes "collect_files fuel env options p = Some (Inr es)" "listing_ok env" "p \<noteq> []" "sendable (last p)"
  shows "distinct (map fe_relative es) \<and>
    (\<forall>e \<in> set es. (\<exists>names. fe_absolute e = p @ names \<and> parse_path (fe_relative e) \<in> {last p # names, last p # names @ [[]]}) \<and>
       safe_join out (fe_relative e) = Inr (append_path out (parse_path (fe_relative e))))"
proof -
  note c = collected_entries [OF assms]
  then have b: "\<forall>e \<in> set es. sent_below p e \<and> CHR 0x00 \<notin> set (fe_relative e)" using entry_for_below assms(3,4) by blast
  then have "distinct (map fe_relative es)" using c distinct_relatives by blast
  moreover have "\<forall>e \<in> set es. \<exists>names. fe_absolute e = p @ names \<and> parse_path (fe_relative e) \<in> {last p # names, last p # names @ [[]]}"
    using b unfolding sent_below_def by blast
  ultimately show ?thesis using b safe_join_below assms(4) by blast
qed

section \<open>A source path with a trailing separator\<close>

text \<open>
  An empty directory whose path is given with a trailing separator cannot be sent: the only entry
  has the name \<open>/\<close>, which every receiver refuses as an absolute path.
\<close>

theorem empty_directory_with_separator_refused:
  assumes "co_symlink_mode options = Follow" "status (se_fs env) (p @ [[]]) = Inr Directory" "names_in env (p @ [[]]) = []"
  shows "\<exists>e. collect_files fuel env options (p @ [[]]) = Some (Inr [e]) \<and> fe_relative e = ''/'' \<and>
    safe_join out (fe_relative e) = Inl ''refusing absolute path in transfer: /''"
proof -
  let ?e = "directory_entry env (p @ [[]]) []"
  obtain loc where "locate (se_fs env) (p @ [[]]) True = Inr loc"
    using assms(2) by (auto simp: status_def node_at_def split: sum.splits)
  moreover have "filename (p @ [[]]) = []" by (simp add: filename_def)
  ultimately have "collect_files fuel env options (p @ [[]]) = Some (Inr [?e])"
    using assms by (simp add: collect_files_def collect_directory_def Let_def)
  moreover have "fe_relative ?e = ''/''" by (simp add: directory_entry_def with_metadata_def empty_entry_def slash_def)
  moreover have "parse_path ''/'' = [[slash]]" by (simp add: parse_path_def slash_def)
  then have "safe_join out ''/'' = Inl ''refusing absolute path in transfer: /''"
    by (simp add: safe_join_def is_absolute_def)
  ultimately show ?thesis by (intro exI [of _ ?e]) simp
qed

section \<open>A small source tree\<close>

text \<open>A directory with a link back to it and an empty directory.\<close>

definition tree_nodes :: "location \<Rightarrow> node option" where
  "tree_nodes loc =
     (if loc = [''d''] \<or> loc = [''d'', ''e''] then Some Directory
      else if loc = [''d'', ''l''] then Some (Symlink ''../d'')
      else None)"

definition tree_env :: source_env where
  "tree_env = \<lparr>se_fs = \<lparr>nodes = tree_nodes, cwd = []\<rparr>,
     se_listing = (\<lambda>loc. if loc = [''d''] then [''l'', ''e''] else []), se_mtime_ms = (\<lambda>_. 0), se_mode = (\<lambda>_. 0)\<rparr>"

definition default_options :: collect_options where
  "default_options = \<lparr>co_use_gitignore = True, co_symlink_mode = Follow\<rparr>"

definition collected_names :: "file_entry list result option \<Rightarrow> string list option" where
  "collected_names r = (case r of Some (Inr es) \<Rightarrow> Some (map fe_relative es) | _ \<Rightarrow> None)"

lemma tree_directories: "{loc. nodes (se_fs tree_env) loc = Some Directory} = {[''d''], [''d'', ''e'']}"
  by (auto simp: tree_env_def tree_nodes_def)

lemma tree_names:
  "collected_names (collect_files 2 tree_env default_options [''d'']) = Some [''d/e/'']"
  "collected_names (collect_files 2 tree_env default_options [''d'', '''']) = Some [''e/'']"
  by code_simp+

theorem collecting_ends_witness: "collect_files 2 tree_env default_options [''d''] \<noteq> None"
  using collecting_ends [of default_options tree_env "[''d'']"]
  by (simp add: tree_directories default_options_def flip: numeral_2_eq_2)

lemma tree_listing: "listing_ok tree_env"
  by (simp add: listing_ok_def tree_env_def sendable_def plain_name_def slash_def)

theorem collected_names_accepted_witness:
  "\<exists>es. collect_files 2 tree_env default_options [''d''] = Some (Inr es) \<and> distinct (map fe_relative es) \<and> length es = 1"
proof -
  obtain es where es: "collect_files 2 tree_env default_options [''d''] = Some (Inr es)" "map fe_relative es = [''d/e/'']"
    using tree_names(1) by (auto simp: collected_names_def split: option.splits sum.splits)
  have "sendable (last [''d''])" by (simp add: sendable_def plain_name_def slash_def)
  from collected_names_accepted [OF es(1) tree_listing _ this] show ?thesis
    using es arg_cong [OF es(2), where f = length] by auto
qed

theorem empty_directory_with_separator_refused_witness:
  "\<exists>e. collect_files 0 tree_env default_options [''d'', ''e'', ''''] = Some (Inr [e]) \<and> fe_relative e = ''/''"
proof -
  have s: "status (se_fs tree_env) ([''d'', ''e''] @ [[]]) = Inr Directory" "names_in tree_env ([''d'', ''e''] @ [[]]) = []"
    by code_simp+
  then show ?thesis
    using empty_directory_with_separator_refused [of default_options tree_env "[''d'', ''e'']" 0 "[''out'']"]
    by (auto simp: default_options_def)
qed

end
