(* ===== verification/Session_Crypto.thy ===== *)
theory Session_Crypto
  imports Transfer_Frames Relay_Protocol
begin

text \<open>
  The session cryptography: HMAC and HKDF over SHA-256 and the stream ciphers (core/crypto.cpp), and the
  password-authenticated key exchange of two peers (core/pake.cpp). The primitives of libsodium are
  parameters: hash, authenticated encryption and the group operations.
\<close>

unbundle bit_operations_syntax

record sodium =
  sd_sha256 :: "bytes \<Rightarrow> bytes"
  sd_generichash :: "bytes \<Rightarrow> bytes"
  sd_from_hash :: "bytes \<Rightarrow> bytes"
  sd_scalar_reduce :: "bytes \<Rightarrow> bytes"
  sd_scalarmult_base :: "bytes \<Rightarrow> bytes option" \<comment> \<open>\<open>None\<close>: the call reports an error\<close>
  sd_scalarmult :: "bytes \<Rightarrow> bytes \<Rightarrow> bytes option"
  sd_add :: "bytes \<Rightarrow> bytes \<Rightarrow> bytes"
  sd_sub :: "bytes \<Rightarrow> bytes \<Rightarrow> bytes"
  sd_is_valid_point :: "bytes \<Rightarrow> bool"
  sd_aead_encrypt :: "bytes \<Rightarrow> bytes \<Rightarrow> bytes \<Rightarrow> bytes option"
  sd_aead_decrypt :: "bytes \<Rightarrow> bytes \<Rightarrow> bytes \<Rightarrow> bytes option"

section \<open>HMAC and HKDF\<close>

text \<open>A buffer of fixed size that is filled from the left.\<close>

definition buffer :: "nat \<Rightarrow> bytes \<Rightarrow> bytes" where
  "buffer n bs = take n bs @ replicate (n - length bs) 0"

lemma buffer_length [simp]: "length (buffer n bs) = n"
  by (simp add: buffer_def)

lemma buffer_same [simp]: "length bs = n \<Longrightarrow> buffer n bs = bs"
  by (simp add: buffer_def)

definition sha256 :: "sodium \<Rightarrow> bytes \<Rightarrow> bytes" where
  "sha256 so input = buffer 32 (sd_sha256 so input)"

definition hmac_sha256 :: "sodium \<Rightarrow> bytes \<Rightarrow> bytes \<Rightarrow> bytes" where
  "hmac_sha256 so key input =
     (let key_block = buffer 64 (if 64 < length key then sha256 so key else key);
          inner_pad = map (\<lambda>b. b XOR 0x36) key_block;
          outer_pad = map (\<lambda>b. b XOR 0x5c) key_block
      in sha256 so (outer_pad @ sha256 so (inner_pad @ input)))"

lemma hmac_length [simp]: "length (hmac_sha256 so key input) = 32"
  by (simp add: hmac_sha256_def sha256_def Let_def)

function hkdf_loop :: "sodium \<Rightarrow> bytes \<Rightarrow> bytes \<Rightarrow> nat \<Rightarrow> u8 \<Rightarrow> bytes \<Rightarrow> bytes \<Rightarrow> bytes" where
  "hkdf_loop so prk info len counter previous out =
     (if length out < len then
        let previous = hmac_sha256 so prk (previous @ info @ [counter])
        in hkdf_loop so prk info len (counter + 1) previous (out @ take (min (length previous) (len - length out)) previous)
      else out)"
  by pat_completeness auto
termination
  by (relation "measure (\<lambda>(so, prk, info, len, counter, previous, out). len - length out)") auto

declare hkdf_loop.simps [simp del]

definition hkdf_sha256 :: "sodium \<Rightarrow> bytes \<Rightarrow> bytes \<Rightarrow> bytes \<Rightarrow> nat \<Rightarrow> bytes result" where
  "hkdf_sha256 so ikm salt info len =
     (if 255 * 32 < len then Inl ''hkdf output too long''
      else
        let prk = hmac_sha256 so (if salt = [] then replicate 32 0 else salt) ikm
        in Inr (hkdf_loop so prk info len 1 [] []))"

section \<open>Stream ciphers\<close>

record stream_cipher =
  sc_send_key :: bytes
  sc_recv_key :: bytes

definition derive_subkey :: "sodium \<Rightarrow> bytes \<Rightarrow> string \<Rightarrow> bytes result" where
  "derive_subkey so key info = andthen (hkdf_sha256 so key [] (bytes_of info) (length key)) (\<lambda>d. Inr (buffer 32 d))"

definition stream_info :: "u8 \<Rightarrow> bool \<Rightarrow> string" where
  "stream_info stream_id sending = ''kiko-stream:'' @ to_dec (unat stream_id) @ (if sending then '':send'' else '':recv'')"

definition make_stream_cipher :: "sodium \<Rightarrow> bytes \<Rightarrow> bool \<Rightarrow> u8 \<Rightarrow> stream_cipher result" where
  "make_stream_cipher so key sender_originates stream_id =
     andthen (derive_subkey so key (stream_info stream_id sender_originates)) (\<lambda>send_key.
     andthen (derive_subkey so key (stream_info stream_id (\<not> sender_originates))) (\<lambda>recv_key.
       Inr \<lparr>sc_send_key = send_key, sc_recv_key = recv_key\<rparr>))"

definition kNonceBytes :: nat where "kNonceBytes = 24"
definition kTagBytes :: nat where "kTagBytes = 16"

text \<open>The random nonce is an argument.\<close>

definition cipher_encrypt :: "sodium \<Rightarrow> stream_cipher \<Rightarrow> bytes \<Rightarrow> bytes \<Rightarrow> bytes result" where
  "cipher_encrypt so c nonce plaintext =
     (case sd_aead_encrypt so (sc_send_key c) nonce plaintext of
        None \<Rightarrow> Inl ''encrypt failed''
      | Some body \<Rightarrow> Inr (nonce @ body))"

definition cipher_decrypt :: "sodium \<Rightarrow> stream_cipher \<Rightarrow> bytes \<Rightarrow> bytes result" where
  "cipher_decrypt so c ciphertext =
     (if length ciphertext < kNonceBytes + kTagBytes then Inl ''ciphertext too short''
      else case sd_aead_decrypt so (sc_recv_key c) (take kNonceBytes ciphertext) (drop kNonceBytes ciphertext) of
        None \<Rightarrow> Inl ''decrypt authentication failed''
      | Some plaintext \<Rightarrow> Inr plaintext)"

section \<open>Pairing codes\<close>

text \<open>The room label and the secret.\<close>

definition split_code :: "string \<Rightarrow> string \<times> string" where
  "split_code code = (case cut (CHR ''-'') code of (_, None) \<Rightarrow> (code, code) | (label, Some secret) \<Rightarrow> (label, secret))"

definition room_token :: "sodium \<Rightarrow> string \<Rightarrow> string" where
  "room_token so code = hex_encode (sha256 so (bytes_of (''kiko-room:'' @ fst (split_code code))))"

section \<open>The handshake\<close>

definition kPointBytes :: nat where "kPointBytes = 32"

definition hash_to_point :: "sodium \<Rightarrow> string \<Rightarrow> bytes" where
  "hash_to_point so label = sd_from_hash so (sd_generichash so (bytes_of label))"

definition hash_to_scalar :: "sodium \<Rightarrow> string \<Rightarrow> bytes" where
  "hash_to_scalar so material = sd_scalar_reduce so (sd_generichash so (bytes_of material))"

definition scalar_base :: "sodium \<Rightarrow> bytes \<Rightarrow> bytes result" where
  "scalar_base so s = (case sd_scalarmult_base so s of None \<Rightarrow> Inl ''scalar base failed'' | Some p \<Rightarrow> Inr p)"

definition scalar_mul :: "sodium \<Rightarrow> bytes \<Rightarrow> bytes \<Rightarrow> bytes result" where
  "scalar_mul so s p = (case sd_scalarmult so s p of None \<Rightarrow> Inl ''scalar mul failed'' | Some q \<Rightarrow> Inr q)"

definition point_m :: "sodium \<Rightarrow> bytes" where "point_m so = hash_to_point so ''kiko-cpace-M''"
definition point_n :: "sodium \<Rightarrow> bytes" where "point_n so = hash_to_point so ''kiko-cpace-N''"

definition self_mask :: "sodium \<Rightarrow> role \<Rightarrow> bytes" where
  "self_mask so role = (if role = Sender then point_m so else point_n so)"

definition peer_mask :: "sodium \<Rightarrow> role \<Rightarrow> bytes" where
  "peer_mask so role = (if role = Sender then point_n so else point_m so)"

definition code_scalar :: "sodium \<Rightarrow> string \<Rightarrow> bytes" where
  "code_scalar so code = hash_to_scalar so (''kiko-pake:'' @ snd (split_code code))"

text \<open>A random scalar that is zero becomes one.\<close>

definition nonzero_scalar :: "bytes \<Rightarrow> bytes" where
  "nonzero_scalar x = (if list_all (\<lambda>b. b = 0) x then x[0 := 1] else x)"

text \<open>The point that a side sends first.\<close>

definition hello_point :: "sodium \<Rightarrow> role \<Rightarrow> string \<Rightarrow> bytes \<Rightarrow> bytes result" where
  "hello_point so role code x =
     andthen (scalar_base so x) (\<lambda>b. andthen (scalar_mul so (code_scalar so code) (self_mask so role)) (\<lambda>m. Inr (sd_add so b m)))"

definition transcript_of :: "sodium \<Rightarrow> role \<Rightarrow> bytes \<Rightarrow> bytes \<Rightarrow> bytes \<Rightarrow> bytes \<Rightarrow> bytes" where
  "transcript_of so role self_point peer_point shared w =
     point_m so @ point_n so @ (if role = Sender then self_point else peer_point) @
     (if role = Sender then peer_point else self_point) @ shared @ w"

definition transcript_key :: "sodium \<Rightarrow> bytes \<Rightarrow> string \<Rightarrow> bytes result" where
  "transcript_key so transcript label = hkdf_sha256 so (sha256 so transcript) (bytes_of ''kiko-cpace-v1'') (bytes_of label) 32"

definition confirm_label :: "role \<Rightarrow> string" where
  "confirm_label role = (if role = Sender then ''confirm-sender'' else ''confirm-receiver'')"

definition confirm_mac :: "sodium \<Rightarrow> bytes \<Rightarrow> role \<Rightarrow> bytes result" where
  "confirm_mac so transcript role =
     andthen (transcript_key so transcript (confirm_label role)) (\<lambda>kc. Inr (hmac_sha256 so kc (bytes_of ''kiko-confirm'')))"

definition other_role :: "role \<Rightarrow> role" where
  "other_role role = (if role = Sender then Receiver else Sender)"

text \<open>What follows the peer's point: the transcript, or why there is none.\<close>

definition peer_transcript :: "sodium \<Rightarrow> role \<Rightarrow> string \<Rightarrow> bytes \<Rightarrow> bytes \<Rightarrow> bytes option result \<Rightarrow> bytes result" where
  "peer_transcript so role code x self_point first =
     andthen first (\<lambda>peer_frame. case peer_frame of
       None \<Rightarrow> Inl ''peer closed during handshake''
     | Some peer_point \<Rightarrow>
         if length peer_point \<noteq> kPointBytes then Inl ''peer closed during handshake''
         else if \<not> sd_is_valid_point so peer_point then Inl ''invalid ristretto255 point''
         else andthen (scalar_mul so (code_scalar so code) (peer_mask so role)) (\<lambda>mask.
           andthen (scalar_mul so x (sd_sub so peer_point mask)) (\<lambda>shared.
             Inr (transcript_of so role self_point peer_point shared (code_scalar so code)))))"

definition check_confirmation :: "bytes option result \<Rightarrow> bytes \<Rightarrow> unit result" where
  "check_confirmation second expected =
     andthen second (\<lambda>peer_mac. case peer_mac of
       None \<Rightarrow> Inl ''peer closed during key confirmation''
     | Some mac \<Rightarrow> fail_if (mac \<noteq> expected) ''key confirmation failed: wrong code or tampering detected'')"

text \<open>
  The whole handshake: \<open>random\<close> is the random scalar, \<open>first\<close> and \<open>second\<close> are what the two calls of
  \<open>recv_frame\<close> give; besides the key the result says which frames were sent.
\<close>

definition perform_handshake ::
  "sodium \<Rightarrow> role \<Rightarrow> string \<Rightarrow> bytes \<Rightarrow> bytes option result \<Rightarrow> bytes option result \<Rightarrow> bytes result \<times> bytes list" where
  "perform_handshake so role code random first second =
     (let x = nonzero_scalar random in
      case hello_point so role code x of
        Inl e \<Rightarrow> (Inl e, [])
      | Inr self_point \<Rightarrow>
          (case andthen (peer_transcript so role code x self_point first) (\<lambda>t.
              andthen (transcript_key so t ''session'') (\<lambda>key.
              andthen (confirm_mac so t Sender) (\<lambda>mac_sender.
              andthen (confirm_mac so t Receiver) (\<lambda>mac_receiver.
                Inr (key, if role = Sender then (mac_sender, mac_receiver) else (mac_receiver, mac_sender)))))) of
             Inl e \<Rightarrow> (Inl e, [self_point])
           | Inr (key, my_mac, expected_mac) \<Rightarrow>
               (andthen (check_confirmation second expected_mac) (\<lambda>_. Inr (buffer 32 key)), [self_point, my_mac])))"

section \<open>HKDF as RFC 5869 defines it\<close>

primrec hkdf_block :: "sodium \<Rightarrow> bytes \<Rightarrow> bytes \<Rightarrow> nat \<Rightarrow> bytes" where
  "hkdf_block so prk info 0 = []"
| "hkdf_block so prk info (Suc i) = hmac_sha256 so prk (hkdf_block so prk info i @ info @ [of_nat (Suc i)])"

definition hkdf_expand :: "sodium \<Rightarrow> bytes \<Rightarrow> bytes \<Rightarrow> nat \<Rightarrow> bytes" where
  "hkdf_expand so prk info len = take len (concat (map (hkdf_block so prk info) [1..<Suc ((len + 31) div 32)]))"

lemma hkdf_blocks_length: "length (concat (map (hkdf_block so prk info) [1..<Suc i])) = 32 * i"
  by (induction i) simp_all

lemma hkdf_blocks_Suc:
  "concat (map (hkdf_block so prk info) [1..<Suc (Suc i)]) =
     concat (map (hkdf_block so prk info) [1..<Suc i]) @ hkdf_block so prk info (Suc i)"
  by simp

lemma hkdf_loop_blocks:
  "32 * i \<le> len \<Longrightarrow> hkdf_loop so prk info len (of_nat (Suc i)) (hkdf_block so prk info i) (concat (map (hkdf_block so prk info) [1..<Suc i])) =
     hkdf_expand so prk info len"
proof (induction "len - 32 * i" arbitrary: i rule: less_induct)
  case less
  let ?T = "hkdf_block so prk info"
  let ?out = "concat (map ?T [1..<Suc i])"
  show ?case
  proof (cases "32 * i < len")
    case False
    then have e: "len = 32 * i" using less.prems by simp
    have "hkdf_loop so prk info len (of_nat (Suc i)) (?T i) ?out = ?out"
      using hkdf_blocks_length [of so prk info i] False by (subst hkdf_loop.simps) simp
    moreover have "(len + 31) div 32 = i" using e by simp
    ultimately show ?thesis using hkdf_blocks_length [of so prk info i] e by (simp add: hkdf_expand_def)
  next
    case True
    have step: "hkdf_loop so prk info len (of_nat (Suc i)) (?T i) ?out =
        hkdf_loop so prk info len (of_nat (Suc (Suc i))) (?T (Suc i)) (?out @ take (min 32 (len - 32 * i)) (?T (Suc i)))"
      using hkdf_blocks_length [of so prk info i] True by (subst hkdf_loop.simps) (simp add: Let_def add.commute)
    show ?thesis
    proof (cases "32 * Suc i \<le> len")
      case full: True
      then have "?out @ take (min 32 (len - 32 * i)) (?T (Suc i)) = concat (map ?T [1..<Suc (Suc i)])"
        unfolding hkdf_blocks_Suc by simp
      then show ?thesis using step less.hyps [of "Suc i"] full True by simp
    next
      case False
      then have n: "(len + 31) div 32 = Suc i" using True by simp
      have "min 32 (len - 32 * i) = len - 32 * i" using False by simp
      then have "?out @ take (min 32 (len - 32 * i)) (?T (Suc i)) = take len (concat (map ?T [1..<Suc (Suc i)]))"
        unfolding hkdf_blocks_Suc using hkdf_blocks_length [of so prk info i] True by simp
      also have "\<dots> = hkdf_expand so prk info len" by (simp only: hkdf_expand_def n)
      finally have o: "?out @ take (min 32 (len - 32 * i)) (?T (Suc i)) = hkdf_expand so prk info len" .
      have "length (hkdf_expand so prk info len) = len"
        unfolding hkdf_expand_def n using hkdf_blocks_length [of so prk info "Suc i"] False by (simp del: upt_Suc)
      then show ?thesis unfolding step o by (subst hkdf_loop.simps) simp
    qed
  qed
qed

lemma hkdf_expands:
  "hkdf_sha256 so ikm salt info len =
     (if len \<le> 255 * 32 then Inr (hkdf_expand so (hmac_sha256 so (if salt = [] then replicate 32 0 else salt) ikm) info len)
      else Inl ''hkdf output too long'')"
  using hkdf_loop_blocks [of 0 len so _ info] by (auto simp: hkdf_sha256_def)

lemma hkdf_length: "hkdf_sha256 so ikm salt info len = Inr out \<Longrightarrow> length out = len"
  using hkdf_blocks_length [of so _ info "(len + 31) div 32"]
  by (auto simp: hkdf_expands hkdf_expand_def simp del: upt_Suc split: if_splits)

text \<open>
  C22: The key derivation is the one of RFC 5869: up to the limit of 255 blocks it gives the first
  bytes of the chained blocks T(1), T(2), and so on; beyond the limit it is refused.
\<close>

theorem hkdf_is_rfc5869:
  "hkdf_sha256 so ikm salt info len =
     (if len \<le> 255 * 32 then Inr (hkdf_expand so (hmac_sha256 so (if salt = [] then replicate 32 0 else salt) ikm) info len)
      else Inl ''hkdf output too long'')"
  by (rule hkdf_expands)

section \<open>Ciphers of the two sides\<close>

text \<open>What libsodium documents of its authenticated encryption.\<close>

definition aead_laws :: "sodium \<Rightarrow> bool" where
  "aead_laws so \<longleftrightarrow>
     (\<forall>k n p c. sd_aead_encrypt so k n p = Some c \<longrightarrow> sd_aead_decrypt so k n c = Some p \<and> length c = length p + kTagBytes)"

lemma stream_info_inj: "stream_info i d = stream_info j e \<longleftrightarrow> i = j \<and> d = e"
proof
  define tail where "tail b = (if b then ''send'' else ''recv'')" for b
  have info: "stream_info k b = ''kiko-stream:'' @ to_dec (unat k) @ CHR '':'' # tail b" for k b
    by (simp add: stream_info_def tail_def)
  have nc: "CHR '':'' \<notin> set (to_dec n)" for n by (rule to_dec_char_not) (simp add: isdigit_def)
  assume "stream_info i d = stream_info j e"
  then have "to_dec (unat i) @ CHR '':'' # tail d = to_dec (unat j) @ CHR '':'' # tail e" by (simp add: info)
  then have "(to_dec (unat i), Some (tail d)) = (to_dec (unat j), Some (tail e))" by (metis nc cut_append)
  then show "i = j \<and> d = e" by (cases d; cases e) (simp_all add: to_dec_inj tail_def flip: word_unat_eq_iff)
qed simp

lemma cipher_keys:
  assumes "make_stream_cipher so key originates i = Inr a"
  shows "derive_subkey so key (stream_info i originates) = Inr (sc_send_key a)"
    "derive_subkey so key (stream_info i (\<not> originates)) = Inr (sc_recv_key a)"
  using assms by (auto simp: make_stream_cipher_def andthen_Inr_iff)

lemma ciphers_match:
  assumes "aead_laws so" "length nonce = kNonceBytes"
    "make_stream_cipher so key originates i = Inr a" "make_stream_cipher so key (\<not> originates) i = Inr b"
  shows "cipher_pair (cipher_encrypt so a nonce) (cipher_decrypt so b)"
  unfolding cipher_pair_def
proof (intro allI impI)
  fix p c
  assume "cipher_encrypt so a nonce p = Inr c"
  then obtain body where b: "sd_aead_encrypt so (sc_send_key a) nonce p = Some body" "c = nonce @ body"
    by (auto simp: cipher_encrypt_def split: option.splits)
  have k: "sc_send_key a = sc_recv_key b" using cipher_keys [OF assms(3)] cipher_keys [OF assms(4)] by simp
  have "sd_aead_decrypt so (sc_recv_key b) nonce body = Some p" "length body = length p + kTagBytes"
    using assms(1) b(1) k by (auto simp: aead_laws_def)
  then show "cipher_decrypt so b c = Inr p" using b(2) assms(2) by (simp add: cipher_decrypt_def)
qed

text \<open>
  C23: What one side sends on a channel the other side reads. For either direction of any of the 256
  channels, a tagged frame that is encrypted with the one side's cipher is decrypted, whatever the nonce, by the other side's
  cipher of that channel, and exactly its bytes are consumed.
\<close>

theorem encrypted_frame_roundtrip:
  assumes "aead_laws so" "length nonce = kNonceBytes"
    "make_stream_cipher so key originates channel = Inr mine" "make_stream_cipher so key (\<not> originates) channel = Inr theirs"
    "send_tagged (cipher_encrypt so mine nonce) tag payload = Inr out" "tag_ok tag"
  shows "recv_tagged (cipher_decrypt so theirs) \<lparr>arriving = out @ rest, ending = e, closed = False\<rparr> =
     (Inr (Some \<lparr>tf_tag = tag, tf_payload = payload\<rparr>), \<lparr>arriving = rest, ending = e, closed = False\<rparr>)"
  by (rule recv_send_tagged [OF ciphers_match [OF assms(1-4)] assms(6,5)])

section \<open>What the handshake promises\<close>

text \<open>What libsodium documents of the Ristretto group; results are 32 bytes wide.\<close>

definition group_laws :: "sodium \<Rightarrow> bool" where
  "group_laws so \<longleftrightarrow>
     (\<forall>h. sd_is_valid_point so (sd_from_hash so h)) \<and>
     (\<forall>s p. sd_scalarmult_base so s = Some p \<longrightarrow> sd_is_valid_point so p) \<and>
     (\<forall>s p q. sd_is_valid_point so p \<and> sd_scalarmult so s p = Some q \<longrightarrow> sd_is_valid_point so q \<and> length q = kPointBytes) \<and>
     (\<forall>p q. sd_is_valid_point so p \<and> sd_is_valid_point so q \<longrightarrow>
        sd_is_valid_point so (sd_add so p q) \<and> length (sd_add so p q) = kPointBytes \<and> sd_is_valid_point so (sd_sub so p q) \<and>
        sd_sub so (sd_add so p q) q = p) \<and>
     (\<forall>x y X Y. sd_scalarmult_base so x = Some X \<and> sd_scalarmult_base so y = Some Y \<longrightarrow> sd_scalarmult so x Y = sd_scalarmult so y X)"

lemma masks_valid: "group_laws so \<Longrightarrow> sd_is_valid_point so (self_mask so role)" "group_laws so \<Longrightarrow> sd_is_valid_point so (peer_mask so role)"
  by (simp_all add: group_laws_def self_mask_def peer_mask_def point_m_def point_n_def hash_to_point_def)

lemma other_masks: "peer_mask so (other_role role) = self_mask so role" "other_role (other_role role) = role" "other_role role \<noteq> role"
  by (cases role; simp add: peer_mask_def self_mask_def other_role_def)+

lemma hello_parts:
  assumes "hello_point so role code x = Inr p"
  obtains b m where "sd_scalarmult_base so x = Some b" "sd_scalarmult so (code_scalar so code) (self_mask so role) = Some m" "p = sd_add so b m"
  using assms by (auto simp: hello_point_def scalar_base_def scalar_mul_def andthen_Inr_iff split: option.splits)

lemma hello_valid:
  assumes "group_laws so" "hello_point so role code x = Inr p"
  shows "sd_is_valid_point so p" "length p = kPointBytes"
proof -
  obtain b m where p: "sd_scalarmult_base so x = Some b" "sd_scalarmult so (code_scalar so code) (self_mask so role) = Some m" "p = sd_add so b m"
    using assms(2) by (rule hello_parts)
  have "sd_is_valid_point so b" "sd_is_valid_point so m"
    using assms(1) p(1,2) masks_valid(1) [OF assms(1), of role] by (auto simp: group_laws_def)
  then show "sd_is_valid_point so p" "length p = kPointBytes" using assms(1) p(3) by (auto simp: group_laws_def)
qed

text \<open>With the same code the mask of the peer's point comes off and both sides compute the same shared point.\<close>

lemma peer_transcript_hello:
  assumes "group_laws so" "hello_point so role code x = Inr p" "hello_point so (other_role role) code y = Inr q"
    and "sd_scalarmult_base so y = Some Y" "sd_scalarmult so x Y = Some shared"
  shows "peer_transcript so role code x p (Inr (Some q)) = Inr (transcript_of so role p q shared (code_scalar so code))"
proof -
  obtain b m where q: "sd_scalarmult_base so y = Some b" "sd_scalarmult so (code_scalar so code) (self_mask so (other_role role)) = Some m"
      "q = sd_add so b m"
    using assms(3) by (rule hello_parts)
  have b: "b = Y" using q(1) assms(4) by simp
  have mask: "self_mask so (other_role role) = peer_mask so role" by (cases role) (simp_all add: self_mask_def peer_mask_def other_role_def)
  have "sd_is_valid_point so Y" "sd_is_valid_point so m"
    using assms(1,4) q(2) masks_valid(1) [OF assms(1), of "other_role role"] by (auto simp: group_laws_def)
  then have "sd_sub so q m = Y" using assms(1) q(3) b by (auto simp: group_laws_def)
  then show ?thesis
    using hello_valid [OF assms(1,3)] q(2) assms(5) unfolding mask by (simp add: peer_transcript_def scalar_mul_def)
qed

lemma same_transcript:
  "transcript_of so Sender p q shared w = transcript_of so Receiver q p shared w"
  by (simp add: transcript_of_def)

lemma transcript_key_ok: "\<exists>k. transcript_key so t label = Inr k \<and> length k = 32"
  using hkdf_length [of so "sha256 so t" "bytes_of ''kiko-cpace-v1''" "bytes_of label" 32]
  by (cases "transcript_key so t label") (auto simp: transcript_key_def hkdf_expands)

lemma confirm_mac_ok: "\<exists>m. confirm_mac so t role = Inr m"
  using transcript_key_ok [of so t "confirm_label role"] by (auto simp: confirm_mac_def)

text \<open>A run that has a transcript, seen from outside.\<close>

lemma handshake_with_transcript:
  assumes "hello_point so role code (nonzero_scalar random) = Inr p"
    and "peer_transcript so role code (nonzero_scalar random) p first = Inr t"
    and "transcript_key so t ''session'' = Inr key" "confirm_mac so t role = Inr mine" "confirm_mac so t (other_role role) = Inr theirs"
  shows "perform_handshake so role code random first second =
    (andthen (check_confirmation second theirs) (\<lambda>_. Inr (buffer 32 key)), [p, mine])"
  using assms by (cases role) (simp_all add: perform_handshake_def Let_def other_role_def)

text \<open>
  C24: Two peers with the same pairing code agree. Whatever random scalars they draw, if no group operation
  degenerates, each accepts what the other one sends, both with the same session key.
\<close>

theorem same_code_same_key:
  assumes "group_laws so"
    and "hello_point so Sender code (nonzero_scalar a) = Inr p" "hello_point so Receiver code (nonzero_scalar b) = Inr q"
    and "sd_scalarmult_base so (nonzero_scalar b) = Some Y" "sd_scalarmult so (nonzero_scalar a) Y = Some shared"
  shows "\<exists>key mac_sender mac_receiver.
    perform_handshake so Sender code a (Inr (Some q)) (Inr (Some mac_receiver)) = (Inr key, [p, mac_sender]) \<and>
    perform_handshake so Receiver code b (Inr (Some p)) (Inr (Some mac_sender)) = (Inr key, [q, mac_receiver])"
proof -
  obtain X where X: "sd_scalarmult_base so (nonzero_scalar a) = Some X" using assms(2) by (rule hello_parts)
  have sh: "sd_scalarmult so (nonzero_scalar b) X = Some shared"
    using assms(1,4,5) X unfolding group_laws_def by metis
  let ?t = "transcript_of so Sender p q shared (code_scalar so code)"
  have t1: "peer_transcript so Sender code (nonzero_scalar a) p (Inr (Some q)) = Inr ?t"
    using peer_transcript_hello [OF assms(1,2) _ assms(4,5)] assms(3) by (simp add: other_role_def)
  have t2: "peer_transcript so Receiver code (nonzero_scalar b) q (Inr (Some p)) = Inr ?t"
    using peer_transcript_hello [OF assms(1,3) _ X sh] assms(2) by (simp add: other_role_def same_transcript)
  obtain key where key: "transcript_key so ?t ''session'' = Inr key" "length key = 32" using transcript_key_ok by blast
  obtain ms mr where m: "confirm_mac so ?t Sender = Inr ms" "confirm_mac so ?t Receiver = Inr mr" using confirm_mac_ok by blast
  show ?thesis
    using handshake_with_transcript [OF assms(2) t1 key(1) m(1), where theirs = mr and second = "Inr (Some mr)"]
      handshake_with_transcript [OF assms(3) t2 key(1) m(2), where theirs = ms and second = "Inr (Some ms)"] m key(2)
    by (auto simp: other_role_def check_confirmation_def)
qed

lemma handshake_done:
  assumes "perform_handshake so role code random first second = (Inr key, sent)"
  obtains p t k mine theirs where "hello_point so role code (nonzero_scalar random) = Inr p"
    "peer_transcript so role code (nonzero_scalar random) p first = Inr t" "transcript_key so t ''session'' = Inr k" "key = buffer 32 k"
    "confirm_mac so t role = Inr mine" "confirm_mac so t (other_role role) = Inr theirs" "second = Inr (Some theirs)" "sent = [p, mine]"
proof -
  obtain p where p: "hello_point so role code (nonzero_scalar random) = Inr p"
    using assms by (auto simp: perform_handshake_def Let_def split: sum.splits)
  obtain t where t: "peer_transcript so role code (nonzero_scalar random) p first = Inr t"
    using assms p by (cases "peer_transcript so role code (nonzero_scalar random) p first") (auto simp: perform_handshake_def Let_def)
  obtain k where k: "transcript_key so t ''session'' = Inr k" using transcript_key_ok by blast
  obtain mine theirs where m: "confirm_mac so t role = Inr mine" "confirm_mac so t (other_role role) = Inr theirs" using confirm_mac_ok by blast
  have r: "andthen (check_confirmation second theirs) (\<lambda>_. Inr (buffer 32 k)) = Inr key" "sent = [p, mine]"
    using handshake_with_transcript [OF p t k m, of second] assms by simp_all
  then have "check_confirmation second theirs = Inr ()" "key = buffer 32 k" by (auto simp: andthen_Inr_iff)
  moreover from this(1) have "second = Inr (Some theirs)"
    by (auto simp: check_confirmation_def andthen_Inr_iff split: option.splits)
  ultimately show thesis using that p t k m r(2) by blast
qed

lemma peer_transcript_parts:
  assumes "peer_transcript so role code x p first = Inr t"
  obtains q mask sh where "first = Inr (Some q)" "length q = kPointBytes" "sd_is_valid_point so q"
    "sd_scalarmult so (code_scalar so code) (peer_mask so role) = Some mask" "sd_scalarmult so x (sd_sub so q mask) = Some sh"
    "t = transcript_of so role p q sh (code_scalar so code)"
proof -
  obtain q where q: "first = Inr (Some q)" "length q = kPointBytes" "sd_is_valid_point so q"
    using assms by (cases first; cases "projr first"; cases "length (the (projr first)) = kPointBytes";
        cases "sd_is_valid_point so (the (projr first))") (simp_all add: peer_transcript_def)
  obtain mask where mask: "sd_scalarmult so (code_scalar so code) (peer_mask so role) = Some mask"
    using assms q by (cases "sd_scalarmult so (code_scalar so code) (peer_mask so role)") (simp_all add: peer_transcript_def scalar_mul_def)
  obtain sh where sh: "sd_scalarmult so x (sd_sub so q mask) = Some sh"
    using assms q mask by (cases "sd_scalarmult so x (sd_sub so q mask)") (simp_all add: peer_transcript_def scalar_mul_def)
  show thesis using assms q mask sh that by (simp add: peer_transcript_def scalar_mul_def)
qed

lemma same_transcript_parts:
  assumes "group_laws so" "hello_point so role code x = Inr p" "hello_point so (other_role role) code' y = Inr q"
    and "peer_transcript so role code x p first = Inr t" "peer_transcript so (other_role role) code' y q first' = Inr t'" "t = t'"
  shows "first = Inr (Some q) \<and> first' = Inr (Some p) \<and> code_scalar so code = code_scalar so code'"
proof -
  obtain q0 mask sh where f: "first = Inr (Some q0)" "length q0 = kPointBytes" "sd_is_valid_point so q0"
    "sd_scalarmult so (code_scalar so code) (peer_mask so role) = Some mask" "sd_scalarmult so x (sd_sub so q0 mask) = Some sh"
    "t = transcript_of so role p q0 sh (code_scalar so code)"
    using assms(4) by (rule peer_transcript_parts)
  obtain p0 mask' sh' where f': "first' = Inr (Some p0)" "length p0 = kPointBytes" "sd_is_valid_point so p0"
    "sd_scalarmult so (code_scalar so code') (peer_mask so (other_role role)) = Some mask'"
    "sd_scalarmult so y (sd_sub so p0 mask') = Some sh'"
    "t' = transcript_of so (other_role role) q p0 sh' (code_scalar so code')"
    using assms(5) by (rule peer_transcript_parts)
  have len: "length p = kPointBytes" "length q = kPointBytes" using hello_valid(2) [OF assms(1)] assms(2,3) by blast+
  have shared: "length sh = kPointBytes" if "sd_is_valid_point so x" "sd_scalarmult so c (peer_mask so r) = Some mk"
    "sd_scalarmult so y (sd_sub so x mk) = Some sh" for x c r mk y sh
    using that assms(1) masks_valid(2) [OF assms(1), of r] unfolding group_laws_def by metis
  have sh: "length sh = kPointBytes" "length sh' = kPointBytes" using shared f(3-5) f'(3-5) by blast+
  have "transcript_of so role p q0 sh (code_scalar so code) = transcript_of so (other_role role) q p0 sh' (code_scalar so code')"
    using assms(6) f(6) f'(6) by simp
  then have "q0 = q" "p0 = p" "code_scalar so code = code_scalar so code'"
    using len sh f(2) f'(2) by (cases role; simp add: transcript_of_def other_role_def)+
  then show ?thesis using f(1) f'(1) by simp
qed

section \<open>What a confirmation is computed from\<close>

text \<open>
  The inputs on which SHA-256 is evaluated for an HMAC with a key of at most 64 bytes, and for
  the confirmation of a transcript: the hash of the transcript, the extraction and the one block
  of HKDF, and the HMAC of the fixed text.
\<close>

definition hmac_inputs :: "sodium \<Rightarrow> bytes \<Rightarrow> bytes \<Rightarrow> bytes set" where
  "hmac_inputs so key input =
     (let inner = map (\<lambda>b. b XOR 0x36) (buffer 64 key) @ input
      in {inner, map (\<lambda>b. b XOR 0x5c) (buffer 64 key) @ sha256 so inner})"

definition confirm_extract :: "sodium \<Rightarrow> bytes \<Rightarrow> bytes" where
  "confirm_extract so t = hmac_sha256 so (bytes_of ''kiko-cpace-v1'') (sha256 so t)"

definition confirm_key :: "sodium \<Rightarrow> bytes \<Rightarrow> role \<Rightarrow> bytes" where
  "confirm_key so t role = hmac_sha256 so (confirm_extract so t) (bytes_of (confirm_label role) @ [1])"

definition confirm_inputs :: "sodium \<Rightarrow> bytes \<Rightarrow> role \<Rightarrow> bytes set" where
  "confirm_inputs so t role =
     {t} \<union> hmac_inputs so (bytes_of ''kiko-cpace-v1'') (sha256 so t) \<union>
     hmac_inputs so (confirm_extract so t) (bytes_of (confirm_label role) @ [1]) \<union>
     hmac_inputs so (confirm_key so t role) (bytes_of ''kiko-confirm'')"

lemma confirm_mac_computed: "confirm_mac so t role = Inr (hmac_sha256 so (confirm_key so t role) (bytes_of ''kiko-confirm''))"
proof -
  have "bytes_of ''kiko-cpace-v1'' \<noteq> []" by (simp add: bytes_of_def)
  then show ?thesis
    by (simp add: confirm_mac_def transcript_key_def hkdf_expands hkdf_expand_def confirm_key_def confirm_extract_def)
qed

text \<open>Without a collision among its inputs, an HMAC determines its key and its text.\<close>

lemma xor_injective:
  assumes "map (\<lambda>b. b XOR c) xs = map (\<lambda>b. b XOR c) ys"
  shows "xs = (ys :: u8 list)"
proof -
  have "inj (\<lambda>b. b XOR c)" by (rule inj_on_inverseI [where g = "\<lambda>b. b XOR c"]) (simp add: xor.assoc)
  then show ?thesis using assms by (simp add: inj_map_eq_map)
qed

lemma buffer_injective: "buffer n xs = buffer n ys \<Longrightarrow> length xs = length ys \<Longrightarrow> length xs \<le> n \<Longrightarrow> xs = ys"
  by (simp add: buffer_def)

lemma hmac_injective:
  assumes "hmac_sha256 so k i = hmac_sha256 so k' i'" "length k = length k'" "length k \<le> 64"
    and "inj_on (sha256 so) (hmac_inputs so k i \<union> hmac_inputs so k' i')"
  shows "k = k' \<and> i = i'"
proof -
  let ?in = "map (\<lambda>b. b XOR 0x36) (buffer 64 k) @ i" and ?in' = "map (\<lambda>b. b XOR 0x36) (buffer 64 k') @ i'"
  let ?out = "map (\<lambda>b. b XOR 0x5c) (buffer 64 k)" and ?out' = "map (\<lambda>b. b XOR 0x5c) (buffer 64 k')"
  have "sha256 so (?out @ sha256 so ?in) = sha256 so (?out' @ sha256 so ?in')"
    using assms(1-3) by (simp add: hmac_sha256_def Let_def)
  then have "?out @ sha256 so ?in = ?out' @ sha256 so ?in'"
    by (rule inj_onD [OF assms(4)]) (simp_all add: hmac_inputs_def Let_def)
  then have o: "?out = ?out'" "sha256 so ?in = sha256 so ?in'" by simp_all
  from o(2) have "?in = ?in'" by (rule inj_onD [OF assms(4)]) (simp_all add: hmac_inputs_def Let_def)
  moreover have "buffer 64 k = buffer 64 k'" using o(1) by (rule xor_injective)
  ultimately show ?thesis using buffer_injective [of 64 k k'] assms(2,3) by simp
qed

lemma confirmation_injective:
  assumes "confirm_mac so t role = confirm_mac so t' role"
    and i: "inj_on (sha256 so) (confirm_inputs so t role \<union> confirm_inputs so t' role)"
  shows "t = t'"
proof -
  let ?text = "bytes_of ''kiko-confirm''" and ?label = "bytes_of (confirm_label role) @ [1]" and ?salt = "bytes_of ''kiko-cpace-v1''"
  have l: "length (confirm_key so x role) = 32" "length (confirm_extract so x) = 32" for x
    by (simp_all add: confirm_key_def confirm_extract_def)
  have parts: "hmac_inputs so (confirm_key so x role) ?text \<subseteq> confirm_inputs so x role"
    "hmac_inputs so (confirm_extract so x) ?label \<subseteq> confirm_inputs so x role"
    "hmac_inputs so ?salt (sha256 so x) \<subseteq> confirm_inputs so x role" "x \<in> confirm_inputs so x role" for x
    unfolding confirm_inputs_def by blast+
  have m: "hmac_sha256 so (confirm_key so t role) ?text = hmac_sha256 so (confirm_key so t' role) ?text"
    using assms(1) unfolding confirm_mac_computed by (rule sum.inject(2) [THEN iffD1])
  have "confirm_key so t role = confirm_key so t' role"
    by (rule hmac_injective [OF m _ _ inj_on_subset [OF i Un_mono [OF parts(1) parts(1)]], THEN conjunct1]) (simp_all add: l)
  then have "confirm_extract so t = confirm_extract so t'"
    unfolding confirm_key_def
    by (rule hmac_injective [OF _ _ _ inj_on_subset [OF i Un_mono [OF parts(2) parts(2)]], THEN conjunct1]) (simp_all add: l)
  then have "sha256 so t = sha256 so t'"
    unfolding confirm_extract_def
    by (rule hmac_injective [OF _ refl _ inj_on_subset [OF i Un_mono [OF parts(3) parts(3)]], THEN conjunct2]) (simp add: bytes_of_def)
  then show ?thesis by (rule inj_onD [OF i]) (use parts(4) in blast)+
qed

lemma handshake_point:
  assumes "perform_handshake so role code random first second = (r, [q, m])"
  shows "hello_point so role code (nonzero_scalar random) = Inr q"
  using assms by (auto simp: perform_handshake_def Let_def split: sum.splits)

text \<open>
  C25: An accepted confirmation proves that nobody changed the handshake. Let one side end with a
  key, and let the confirmation that it accepted be the one that a run of the other role sent, with
  any code and whatever that run received. If SHA-256 gives 32 bytes and does not collide on the
  inputs it is given for this confirmation in the two runs (\<open>confirm_inputs\<close>), then each side received the other's point unchanged, both
  derived the same scalar from the secret of their code (the room labels of the codes may differ),
  and the other side can only end with the same key. The group operations are those that
  libsodium documents.
\<close>

theorem confirmed_handshake_is_untouched:
  assumes "group_laws so"
    and "perform_handshake so role code a first second = (Inr key, sent)"
    and "perform_handshake so (other_role role) code' b first' second' = (r, [q, m])" "second = Inr (Some m)"
    and "peer_transcript so role code (nonzero_scalar a) (hd sent) first = Inr t"
      "peer_transcript so (other_role role) code' (nonzero_scalar b) q first' = Inr t'"
    and "\<forall>b. length (sd_sha256 so b) = 32"
      "inj_on (sd_sha256 so) (confirm_inputs so t (other_role role) \<union> confirm_inputs so t' (other_role role))"
  shows "first = Inr (Some q) \<and> first' = Inr (Some (hd sent)) \<and> code_scalar so code = code_scalar so code' \<and>
    (\<forall>key'. r = Inr key' \<longrightarrow> key' = key)"
proof -
  note q = handshake_point [OF assms(3)]
  obtain p t0 k mine theirs where s: "hello_point so role code (nonzero_scalar a) = Inr p"
    "peer_transcript so role code (nonzero_scalar a) p first = Inr t0" "transcript_key so t0 ''session'' = Inr k" "key = buffer 32 k"
    "confirm_mac so t0 role = Inr mine" "confirm_mac so t0 (other_role role) = Inr theirs" "second = Inr (Some theirs)" "sent = [p, mine]"
    using assms(2) by (rule handshake_done)
  have t0: "t0 = t" using s(2,8) assms(5) by simp
  have oo: "other_role (other_role role) = role" by (rule other_masks(2))
  obtain k' where k1: "transcript_key so t' ''session'' = Inr k'" using transcript_key_ok by blast
  obtain m' where k2: "confirm_mac so t' (other_role role) = Inr m'" using confirm_mac_ok by blast
  obtain mine' where k3: "confirm_mac so t' role = Inr mine'" using confirm_mac_ok by blast
  have run: "perform_handshake so (other_role role) code' b first' second' =
      (andthen (check_confirmation second' mine') (\<lambda>_. Inr (buffer 32 k')), [q, m'])"
    by (rule handshake_with_transcript [OF q assms(6) k1 k2]) (simp only: oo k3)
  then have mm: "m = m'" and rr: "r = andthen (check_confirmation second' mine') (\<lambda>_. Inr (buffer 32 k'))" using assms(3) by simp_all
  have "confirm_mac so t (other_role role) = confirm_mac so t' (other_role role)"
    using s(6,7) assms(4) mm k2 t0 by simp
  moreover have whole: "sha256 so = sd_sha256 so" using assms(7) by (simp add: sha256_def fun_eq_iff)
  have "inj_on (sha256 so) (confirm_inputs so t (other_role role) \<union> confirm_inputs so t' (other_role role))"
    unfolding whole by (rule assms(8))
  ultimately have t: "t = t'" by (rule confirmation_injective)
  have same: "first = Inr (Some q) \<and> first' = Inr (Some (hd sent)) \<and> code_scalar so code = code_scalar so code'"
    by (rule same_transcript_parts [OF assms(1) _ q _ assms(6) t]) (use s(1,8) assms(5) in simp_all)
  moreover have "key' = key" if "r = Inr key'" for key'
    using that rr t t0 s(3,4) k1 by (auto simp: andthen_Inr_iff)
  ultimately show ?thesis by simp
qed

section \<open>A toy instance\<close>

text \<open>
  Points are 32 bytes under bitwise exclusive or, an odd scalar keeps a point and an even one gives the
  neutral element, which is an error: enough to run both sides.
\<close>

definition toy_odd :: "bytes \<Rightarrow> bool" where
  "toy_odd s \<longleftrightarrow> s \<noteq> [] \<and> hd s AND 1 = 1"

definition toy_sodium :: sodium where
  "toy_sodium = \<lparr>sd_sha256 = (\<lambda>b. buffer 32 (of_nat (length b) # take 2 b)), sd_generichash = (\<lambda>b. [fold (+) b 1]),
     sd_from_hash = (\<lambda>h. replicate 32 (fold (+) h 7)), sd_scalar_reduce = (\<lambda>h. [1]),
     sd_scalarmult_base = (\<lambda>s. if toy_odd s then Some (replicate 32 9) else None),
     sd_scalarmult = (\<lambda>s p. if toy_odd s then Some p else None),
     sd_add = map2 (XOR), sd_sub = map2 (XOR), sd_is_valid_point = (\<lambda>p. length p = 32),
     sd_aead_encrypt = (\<lambda>k n p. Some (p @ replicate 16 0)), sd_aead_decrypt = (\<lambda>k n c. Some (take (length c - 16) c))\<rparr>"

lemma toy_xor: "length p = length q \<Longrightarrow> map2 (XOR) (map2 (XOR) p q) q = (p :: bytes)"
  by (induction p q rule: list_induct2) (simp_all add: xor.assoc)

lemma toy_group: "group_laws toy_sodium"
  unfolding group_laws_def toy_sodium_def by (simp add: kPointBytes_def toy_xor)

lemma toy_aead: "aead_laws toy_sodium"
  by (simp add: aead_laws_def toy_sodium_def kTagBytes_def)

definition toy_hello :: "role \<Rightarrow> bytes" where
  "toy_hello role = map2 (XOR) (replicate 32 9) (self_mask toy_sodium role)"

lemma toy_hellos: "hello_point toy_sodium role ''12-abc'' (nonzero_scalar [5]) = Inr (toy_hello role)"
  by (simp add: hello_point_def toy_hello_def scalar_base_def scalar_mul_def code_scalar_def hash_to_scalar_def toy_sodium_def toy_odd_def nonzero_scalar_def)

lemma toy_products: "sd_scalarmult_base toy_sodium (nonzero_scalar [5]) = Some (replicate 32 9)"
  "sd_scalarmult toy_sodium (nonzero_scalar [5]) (replicate 32 9) = Some (replicate 32 9)"
  by (simp_all add: toy_sodium_def toy_odd_def nonzero_scalar_def)

theorem same_code_same_key_witness:
  "\<exists>key mac_sender mac_receiver.
    perform_handshake toy_sodium Sender ''12-abc'' [5] (Inr (Some (toy_hello Receiver))) (Inr (Some mac_receiver)) =
      (Inr key, [toy_hello Sender, mac_sender]) \<and>
    perform_handshake toy_sodium Receiver ''12-abc'' [5] (Inr (Some (toy_hello Sender))) (Inr (Some mac_sender)) =
      (Inr key, [toy_hello Receiver, mac_receiver])"
  by (rule same_code_same_key [OF toy_group toy_hellos toy_hellos toy_products])

text \<open>
  The inputs of a confirmation differ in their length or in their first two bytes, which the toy
  hash keeps.
\<close>

lemma toy_digest: "\<forall>b. length (sd_sha256 toy_sodium b) = 32"
  by (simp add: toy_sodium_def)

lemma toy_digest_whole: "sha256 toy_sodium = sd_sha256 toy_sodium"
  using toy_digest by (simp add: sha256_def fun_eq_iff)

definition toy_view :: "bytes \<Rightarrow> u8 \<times> u8 \<times> u8" where
  "toy_view b = (of_nat (length b), b ! 0, b ! 1)"

lemma toy_hash_view:
  assumes "2 \<le> length b" "2 \<le> length c" "sha256 toy_sodium b = sha256 toy_sodium c"
  shows "toy_view b = toy_view c"
proof -
  have t: "take 2 x = [x ! 0, x ! 1]" if "2 \<le> length x" for x :: bytes
    using that by (cases x; cases "tl x") (auto simp: numeral_2_eq_2)
  show ?thesis using assms by (simp add: sha256_def toy_sodium_def buffer_def toy_view_def t)
qed

lemma toy_sha:
  "2 \<le> length b \<Longrightarrow> sha256 toy_sodium b ! 0 = of_nat (length b) \<and> sha256 toy_sodium b ! 1 = b ! 0 \<and> sha256 toy_sodium b ! 2 = b ! 1"
  by (cases b; cases "tl b") (auto simp: sha256_def toy_sodium_def buffer_def numeral_2_eq_2)

lemma buffer_at: "i < length xs \<Longrightarrow> i < n \<Longrightarrow> buffer n xs ! i = xs ! i"
  by (simp add: buffer_def nth_append)

lemma toy_view_pad:
  assumes "2 \<le> length key"
  shows "toy_view (map (\<lambda>b. b XOR c) (buffer 64 key) @ x) = (of_nat (64 + length x), key ! 0 XOR c, key ! 1 XOR c)"
proof -
  have "0 < length key" "1 < length key" using assms by linarith+
  then have "buffer 64 key ! 0 = key ! 0" "buffer 64 key ! 1 = key ! 1" by (simp_all only: buffer_at)
  then show ?thesis by (simp add: toy_view_def nth_append)
qed

lemma toy_hmac_head:
  assumes "2 \<le> length key" "length key \<le> 64"
  shows "hmac_sha256 toy_sodium key x ! 0 = 96" "hmac_sha256 toy_sodium key x ! 1 = key ! 0 XOR 0x5c"
proof -
  let ?o = "map (\<lambda>b. b XOR 0x5c) (buffer 64 key) @ sha256 toy_sodium (map (\<lambda>b. b XOR 0x36) (buffer 64 key) @ x)"
  have h: "hmac_sha256 toy_sodium key x = sha256 toy_sodium ?o" using assms(2) by (simp add: hmac_sha256_def Let_def)
  have "length (sha256 toy_sodium b) = 32" for b by (simp add: sha256_def)
  then have "length ?o = 96" by simp
  moreover have "0 < length key" using assms(1) by linarith
  then have "buffer 64 key ! 0 = key ! 0" by (simp only: buffer_at)
  then have "?o ! 0 = key ! 0 XOR 0x5c" by (simp add: nth_append)
  ultimately show "hmac_sha256 toy_sodium key x ! 0 = 96" "hmac_sha256 toy_sodium key x ! 1 = key ! 0 XOR 0x5c"
    unfolding h using toy_sha [of ?o] by simp_all
qed

lemma toy_confirm_inputs:
  assumes "length t = 161"
  shows "inj_on (sha256 toy_sodium) (confirm_inputs toy_sodium t Receiver)"
proof (rule inj_onI)
  let ?sha = "sha256 toy_sodium"
  let ?salt = "bytes_of ''kiko-cpace-v1''" and ?e = "confirm_extract toy_sodium t" and ?k = "confirm_key toy_sodium t Receiver"
  let ?label = "bytes_of (confirm_label Receiver) @ [1]" and ?text = "bytes_of ''kiko-confirm''"
  let ?in = "\<lambda>key x. map (\<lambda>b. b XOR 0x36) (buffer 64 key) @ x"
  let ?out = "\<lambda>key x. map (\<lambda>b. b XOR 0x5c) (buffer 64 key) @ ?sha (?in key x)"
  let ?all = "[t, ?in ?salt (?sha t), ?out ?salt (?sha t), ?in ?e ?label, ?out ?e ?label, ?in ?k ?text, ?out ?k ?text]"
  have l: "length ?salt = 13" "?salt ! 0 = 0x6b" "?salt ! 1 = 0x69" by (simp_all add: bytes_of_def of_char_def)
  have e: "length ?e = 32" "?e ! 0 = 96" "?e ! 1 = 0x37"
    unfolding confirm_extract_def using toy_hmac_head [of ?salt] l by simp_all
  have k: "length ?k = 32" "?k ! 0 = 96" "?k ! 1 = 0x3c"
    unfolding confirm_key_def using toy_hmac_head [of ?e] e by simp_all
  have ll: "length ?label = 17" "length ?text = 12" "length (?sha b) = 32" for b
    by (simp_all add: confirm_label_def bytes_of_def sha256_def)
  have set: "confirm_inputs toy_sodium t Receiver = set ?all"
    unfolding confirm_inputs_def hmac_inputs_def Let_def by auto
  have views: "map toy_view ?all = [(161, t ! 0, t ! 1), (96, 0x5d, 0x5f), (96, 0x37, 0x35), (81, 0x56, 0x01), (96, 0x3c, 0x6b),
      (76, 0x56, 0x0a), (96, 0x3c, 0x60)]"
    using toy_view_pad [of ?salt] toy_view_pad [of ?e] toy_view_pad [of ?k] l e k ll assms by (simp add: toy_view_def [of t])
  have "distinct (map toy_view ?all)" unfolding views by simp
  then have inj: "inj_on toy_view (set ?all)" by (simp only: distinct_map)
  have two: "\<forall>z\<in>set ?all. 2 \<le> length z" using assms by simp
  fix x y
  assume "x \<in> confirm_inputs toy_sodium t Receiver" "y \<in> confirm_inputs toy_sodium t Receiver" "?sha x = ?sha y"
  then have m: "x \<in> set ?all" "y \<in> set ?all" "?sha x = ?sha y" unfolding set by blast+
  then have "toy_view x = toy_view y" using two toy_hash_view by blast
  then show "x = y" using inj_onD [OF inj] m by blast
qed

lemma toy_transcript_length:
  "length (transcript_of toy_sodium Sender (toy_hello Sender) (toy_hello Receiver) (replicate 32 9) (code_scalar toy_sodium code)) = 161"
proof -
  have "length (sd_from_hash toy_sodium h) = 32" "length (sd_scalar_reduce toy_sodium h) = 1" for h by (simp_all add: toy_sodium_def)
  then show ?thesis
    by (simp add: transcript_of_def toy_hello_def self_mask_def point_m_def point_n_def hash_to_point_def code_scalar_def hash_to_scalar_def)
qed

theorem confirmed_handshake_is_untouched_witness:
  "\<exists>key m. fst (perform_handshake toy_sodium Sender ''12-abc'' [5] (Inr (Some (toy_hello Receiver))) (Inr (Some m))) = Inr key \<and>
     snd (perform_handshake toy_sodium Receiver ''12-abc'' [5] (Inr (Some (toy_hello Sender))) (Inr None)) = [toy_hello Receiver, m] \<and>
     code_scalar toy_sodium ''12-abc'' = code_scalar toy_sodium ''12-abc''"
proof -
  let ?t = "transcript_of toy_sodium Sender (toy_hello Sender) (toy_hello Receiver) (replicate 32 9) (code_scalar toy_sodium ''12-abc'')"
  have rolep: "other_role Sender = Receiver" "other_role Receiver = Sender" by (simp_all add: other_role_def)
  have ts: "peer_transcript toy_sodium Sender ''12-abc'' (nonzero_scalar [5]) (toy_hello Sender) (Inr (Some (toy_hello Receiver))) = Inr ?t"
    using peer_transcript_hello [OF toy_group toy_hellos [of Sender] toy_hellos [of "other_role Sender"] toy_products] by (simp add: rolep)
  have tr: "peer_transcript toy_sodium Receiver ''12-abc'' (nonzero_scalar [5]) (toy_hello Receiver) (Inr (Some (toy_hello Sender))) = Inr ?t"
    using peer_transcript_hello [OF toy_group toy_hellos [of Receiver] toy_hellos [of "other_role Receiver"] toy_products]
    by (simp add: rolep same_transcript)
  obtain k where k: "transcript_key toy_sodium ?t ''session'' = Inr k" using transcript_key_ok by blast
  obtain ms where ms: "confirm_mac toy_sodium ?t Sender = Inr ms" using confirm_mac_ok by blast
  obtain mr where mr: "confirm_mac toy_sodium ?t Receiver = Inr mr" using confirm_mac_ok by blast
  have s: "perform_handshake toy_sodium Sender ''12-abc'' [5] (Inr (Some (toy_hello Receiver))) (Inr (Some mr)) =
      (Inr (buffer 32 k), [toy_hello Sender, ms])"
    using handshake_with_transcript [OF toy_hellos ts k ms, of mr "Inr (Some mr)"] mr by (simp add: rolep check_confirmation_def)
  have r: "perform_handshake toy_sodium (other_role Sender) ''12-abc'' [5] (Inr (Some (toy_hello Sender))) (Inr None) =
      (Inl ''peer closed during key confirmation'', [toy_hello Receiver, mr])"
    using handshake_with_transcript [OF toy_hellos tr k mr, of ms "Inr None"] ms by (simp add: rolep check_confirmation_def)
  have i: "inj_on (sd_sha256 toy_sodium) (confirm_inputs toy_sodium ?t (other_role Sender) \<union> confirm_inputs toy_sodium ?t (other_role Sender))"
    unfolding rolep Un_absorb toy_digest_whole [symmetric] by (rule toy_confirm_inputs) (simp add: toy_transcript_length)
  have "code_scalar toy_sodium ''12-abc'' = code_scalar toy_sodium ''12-abc''"
    using confirmed_handshake_is_untouched [OF toy_group s r refl _ _ toy_digest i] tr ts by (simp add: rolep)
  then show ?thesis using s r by (intro exI [of _ "buffer 32 k"] exI [of _ mr]) (simp add: rolep)
qed

theorem encrypted_frame_roundtrip_witness:
  "\<exists>a b out. make_stream_cipher toy_sodium (replicate 32 1) True 3 = Inr a \<and> make_stream_cipher toy_sodium (replicate 32 1) False 3 = Inr b \<and>
     send_tagged (cipher_encrypt toy_sodium a (replicate 24 7)) Done [] = Inr out \<and>
     recv_tagged (cipher_decrypt toy_sodium b) \<lparr>arriving = out @ [1], ending = Eof, closed = False\<rparr> =
       (Inr (Some \<lparr>tf_tag = Done, tf_payload = []\<rparr>), \<lparr>arriving = [1], ending = Eof, closed = False\<rparr>)"
proof -
  have keys: "\<exists>k. derive_subkey toy_sodium (replicate 32 1) info = Inr k" for info
    by (simp add: derive_subkey_def hkdf_expands)
  obtain s r where k: "derive_subkey toy_sodium (replicate 32 1) (stream_info 3 True) = Inr s"
    "derive_subkey toy_sodium (replicate 32 1) (stream_info 3 False) = Inr r" using keys by meson
  have a: "make_stream_cipher toy_sodium (replicate 32 1) True 3 = Inr \<lparr>sc_send_key = s, sc_recv_key = r\<rparr>"
    and b: "make_stream_cipher toy_sodium (replicate 32 1) (\<not> True) 3 = Inr \<lparr>sc_send_key = r, sc_recv_key = s\<rparr>"
    using k by (simp_all add: make_stream_cipher_def)
  obtain out where o: "send_tagged (cipher_encrypt toy_sodium \<lparr>sc_send_key = s, sc_recv_key = r\<rparr> (replicate 24 7)) Done [] = Inr out"
    by (simp add: send_tagged_def cipher_encrypt_def toy_sodium_def send_frame_def kMaxFramePayloadBytes_def)
  have "length (replicate 24 7 :: bytes) = kNonceBytes" "tag_ok Done" by (simp_all add: kNonceBytes_def tag_ok_def)
  from encrypted_frame_roundtrip [OF toy_aead this(1) a b o this(2), of "[1]" Eof] show ?thesis using a b o by auto
qed

end
