(* ===== verification/Note_Frames.thy ===== *)
theory Note_Frames
  imports Protocol
begin

text \<open>
  The frames of a shared note (note/note_protocol.cpp): their limits, their text form, and how an
  update changes a document. A document is a last-writer-wins register.
\<close>

datatype note_frame_type = Hello | Update | Clear | NoteAck | Ping | Bye

record note_frame =
  nf_type :: note_frame_type
  nf_protocol_version :: u64
  nf_revision :: u64
  nf_timestamp_ms :: u64
  nf_writer_id :: string
  nf_pad_id :: string
  nf_title :: string
  nf_text :: string

record note_document =
  nd_revision :: u64
  nd_timestamp_ms :: u64
  nd_writer_id :: string
  nd_pad_id :: string
  nd_title :: string
  nd_text :: string

definition kNoteMaxBytes :: nat where "kNoteMaxBytes = 1024 * 1024"
definition kNoteMaxPadIdBytes :: nat where "kNoteMaxPadIdBytes = 128"
definition kNoteMaxTitleBytes :: nat where "kNoteMaxTitleBytes = 256"
definition kNoteMaxWriterIdBytes :: nat where "kNoteMaxWriterIdBytes = 128"
definition kNoteMaxWireBytes :: nat where "kNoteMaxWireBytes = 6 * kNoteMaxBytes + 4096"
definition kNoteProtocolVersion :: u64 where "kNoteProtocolVersion = 2"

definition new_note_frame :: "u64 \<Rightarrow> note_frame" where
  "new_note_frame now = \<lparr>nf_type = Update, nf_protocol_version = kNoteProtocolVersion, nf_revision = 0, nf_timestamp_ms = now,
     nf_writer_id = [], nf_pad_id = ''main'', nf_title = [], nf_text = []\<rparr>"

definition new_note_document :: note_document where
  "new_note_document = \<lparr>nd_revision = 0, nd_timestamp_ms = 0, nd_writer_id = [], nd_pad_id = ''main'', nd_title = [], nd_text = []\<rparr>"

section \<open>Text form\<close>

definition note_frame_type_name :: "note_frame_type \<Rightarrow> string" where
  "note_frame_type_name t = (case t of Hello \<Rightarrow> ''hello'' | Update \<Rightarrow> ''update'' | Clear \<Rightarrow> ''clear'' | NoteAck \<Rightarrow> ''ack''
     | Ping \<Rightarrow> ''ping'' | Bye \<Rightarrow> ''bye'')"

definition parse_note_frame_type :: "string \<Rightarrow> note_frame_type result" where
  "parse_note_frame_type v =
     (if v = ''hello'' then Inr Hello else if v = ''update'' then Inr Update else if v = ''clear'' then Inr Clear
      else if v = ''ack'' then Inr NoteAck else if v = ''ping'' then Inr Ping else if v = ''bye'' then Inr Bye
      else Inl (''unknown note frame kind: '' @ v))"

definition validate_note_frame_fields :: "note_frame \<Rightarrow> unit result" where
  "validate_note_frame_fields f =
     (if kNoteMaxBytes < length (nf_text f) then Inl ''note text exceeds 1 MiB limit''
      else if kNoteMaxPadIdBytes < length (nf_pad_id f) then Inl ''note pad id exceeds 128 byte limit''
      else if kNoteMaxTitleBytes < length (nf_title f) then Inl ''note title exceeds 256 byte limit''
      else if kNoteMaxWriterIdBytes < length (nf_writer_id f) then Inl ''note writer id exceeds 128 byte limit''
      else Inr ())"

definition normalized_pad_id :: "string \<Rightarrow> string" where
  "normalized_pad_id p = (if p = [] then ''main'' else p)"

definition note_message :: "note_frame \<Rightarrow> message" where
  "note_message f = \<lparr>mtype = ''note'', mfields = fold (\<lambda>(k, v). omap_put k v)
     [(''kind'', note_frame_type_name (nf_type f)),
      (''protocol_version'', to_dec (unat (nf_protocol_version f))),
      (''revision'', to_dec (unat (nf_revision f))),
      (''timestamp_ms'', to_dec (unat (nf_timestamp_ms f))),
      (''writer_id'', nf_writer_id f),
      (''pad_id'', normalized_pad_id (nf_pad_id f)),
      (''title'', nf_title f),
      (''text'', nf_text f)] []\<rparr>"

definition encode_note_frame :: "(json \<Rightarrow> string result) \<Rightarrow> note_frame \<Rightarrow> string result" where
  "encode_note_frame dump f =
     andthen (validate_note_frame_fields f) (\<lambda>_.
     andthen (encode_message dump (note_message f)) (\<lambda>payload.
       if kNoteMaxWireBytes < length payload then Inl ''note frame exceeds wire size limit'' else Inr payload))"

definition note_frame_of :: "message \<Rightarrow> note_frame result" where
  "note_frame_of msg =
     (if mtype msg \<noteq> ''note'' then Inl (''unexpected note frame: '' @ mtype msg)
      else
        andthen (parse_note_frame_type (msg_get msg ''kind'' [])) (\<lambda>t.
        andthen (msg_get_u64 msg ''protocol_version'' 0) (\<lambda>version.
        andthen (msg_get_u64 msg ''revision'' 0) (\<lambda>revision.
        andthen (msg_get_u64 msg ''timestamp_ms'' 0) (\<lambda>timestamp.
          let f = \<lparr>nf_type = t, nf_protocol_version = version, nf_revision = revision, nf_timestamp_ms = timestamp,
                nf_writer_id = msg_get msg ''writer_id'' [], nf_pad_id = normalized_pad_id (msg_get msg ''pad_id'' ''main''),
                nf_title = msg_get msg ''title'' [], nf_text = msg_get msg ''text'' []\<rparr>
          in andthen (validate_note_frame_fields f) (\<lambda>_. Inr f))))))"

definition decode_note_frame :: "(string \<Rightarrow> json result) \<Rightarrow> string \<Rightarrow> note_frame result" where
  "decode_note_frame parse payload =
     (if kNoteMaxWireBytes < length payload then Inl ''note frame exceeds wire size limit''
      else andthen (decode_message parse payload) note_frame_of)"

section \<open>Making frames\<close>

definition make_note_hello :: "u64 \<Rightarrow> note_frame" where
  "make_note_hello now = (new_note_frame now)\<lparr>nf_type := Hello\<rparr>"

definition validate_note_hello :: "note_frame \<Rightarrow> unit result" where
  "validate_note_hello f =
     (if nf_type f \<noteq> Hello then Inl ''note peer did not send hello''
      else if nf_protocol_version f = kNoteProtocolVersion then Inr ()
      else Inl (''incompatible notepad protocol (peer='' @
        (if nf_protocol_version f = 0 then ''legacy'' else to_dec (unat (nf_protocol_version f))) @ '', local='' @
        to_dec (unat kNoteProtocolVersion) @ ''); update kiko on both devices''))"

definition make_note_update :: "u64 \<Rightarrow> string \<Rightarrow> u64 \<Rightarrow> string \<Rightarrow> string \<Rightarrow> string \<Rightarrow> note_frame result" where
  "make_note_update now pad_id revision text title writer_id =
     (if kNoteMaxBytes < length text then Inl ''note text exceeds 1 MiB limit''
      else Inr ((new_note_frame now)\<lparr>nf_revision := revision, nf_writer_id := writer_id, nf_pad_id := normalized_pad_id pad_id,
        nf_title := title, nf_text := text\<rparr>))"

definition make_note_clear :: "u64 \<Rightarrow> string \<Rightarrow> u64 \<Rightarrow> string \<Rightarrow> string \<Rightarrow> note_frame result" where
  "make_note_clear now pad_id revision title writer_id =
     andthen (make_note_update now pad_id revision [] title writer_id) (\<lambda>f. Inr (f\<lparr>nf_type := Clear\<rparr>))"

definition make_note_ack :: "u64 \<Rightarrow> string \<Rightarrow> u64 \<Rightarrow> note_frame" where
  "make_note_ack now pad_id revision =
     (new_note_frame now)\<lparr>nf_type := NoteAck, nf_revision := revision, nf_pad_id := normalized_pad_id pad_id\<rparr>"

section \<open>Documents\<close>

text \<open>\<open>std::tie(...) <= std::tie(...)\<close>; strings are compared byte by byte.\<close>

definition tied :: "string \<Rightarrow> u64 \<Rightarrow> string \<Rightarrow> string \<Rightarrow> u64 \<Rightarrow> string \<Rightarrow> bool" where
  "tied w t x w' t' x' \<longleftrightarrow> w < w' \<or> w = w' \<and> (t < t' \<or> t = t' \<and> x \<le> x')"

definition is_note_edit :: "note_frame \<Rightarrow> bool" where
  "is_note_edit f \<longleftrightarrow> nf_type f = Update \<or> nf_type f = Clear"

definition incoming_text :: "note_frame \<Rightarrow> string" where
  "incoming_text f = (if nf_type f = Clear then [] else nf_text f)"

definition apply_note_update :: "note_document \<Rightarrow> note_frame \<Rightarrow> bool \<times> note_document" where
  "apply_note_update d f =
     (if \<not> is_note_edit f then (False, d)
      else if nf_revision f < nd_revision d then (False, d)
      else if nf_revision f = nd_revision d \<and>
        tied (nf_writer_id f) (nf_timestamp_ms f) (incoming_text f) (nd_writer_id d) (nd_timestamp_ms d) (nd_text d)
        then (False, d)
      else (True, d\<lparr>nd_revision := nf_revision f, nd_timestamp_ms := nf_timestamp_ms f, nd_writer_id := nf_writer_id f,
        nd_pad_id := normalized_pad_id (nf_pad_id f), nd_title := (if nf_title f \<noteq> [] then nf_title f else nd_title d),
        nd_text := incoming_text f\<rparr>))"

section \<open>The text form reads back\<close>

definition note_frame_ok :: "note_frame \<Rightarrow> bool" where
  "note_frame_ok f \<longleftrightarrow> nf_pad_id f \<noteq> []"

lemma note_message_ok: "message_ok (note_message f)"
  by (simp add: message_ok_def note_message_def omap_has_def omap_ok_Cons)

lemma note_lookup:
  "map_of (mfields (note_message f)) ''kind'' = Some (note_frame_type_name (nf_type f))"
  "map_of (mfields (note_message f)) ''protocol_version'' = Some (to_dec (unat (nf_protocol_version f)))"
  "map_of (mfields (note_message f)) ''revision'' = Some (to_dec (unat (nf_revision f)))"
  "map_of (mfields (note_message f)) ''timestamp_ms'' = Some (to_dec (unat (nf_timestamp_ms f)))"
  "map_of (mfields (note_message f)) ''writer_id'' = Some (nf_writer_id f)"
  "map_of (mfields (note_message f)) ''pad_id'' = Some (normalized_pad_id (nf_pad_id f))"
  "map_of (mfields (note_message f)) ''title'' = Some (nf_title f)"
  "map_of (mfields (note_message f)) ''text'' = Some (nf_text f)"
  by (simp_all add: note_message_def)

lemma parse_type_name [simp]: "parse_note_frame_type (note_frame_type_name t) = Inr t"
  by (cases t) (simp_all add: parse_note_frame_type_def note_frame_type_name_def)

lemma note_frame_of_message:
  assumes "note_frame_ok f" "validate_note_frame_fields f = Inr ()"
  shows "note_frame_of (note_message f) = Inr f"
proof -
  have n: "msg_get_u64 (note_message f) ''protocol_version'' 0 = Inr (nf_protocol_version f)"
    "msg_get_u64 (note_message f) ''revision'' 0 = Inr (nf_revision f)"
    "msg_get_u64 (note_message f) ''timestamp_ms'' 0 = Inr (nf_timestamp_ms f)"
    by (rule msg_get_u64_dec, rule note_lookup)+
  have t: "msg_get (note_message f) ''kind'' [] = note_frame_type_name (nf_type f)"
    "msg_get (note_message f) ''writer_id'' [] = nf_writer_id f" "msg_get (note_message f) ''pad_id'' ''main'' = nf_pad_id f"
    "msg_get (note_message f) ''title'' [] = nf_title f" "msg_get (note_message f) ''text'' [] = nf_text f"
    using assms(1) by (simp_all add: msg_get_def note_lookup normalized_pad_id_def note_frame_ok_def)
  have "mtype (note_message f) = ''note''" by (simp add: note_message_def)
  then show ?thesis
    unfolding note_frame_of_def n t parse_type_name andthen_simps
    using assms by (cases f) (simp add: normalized_pad_id_def note_frame_ok_def)
qed

text \<open>
  A note frame with a pad name survives its text form: decoding what was encoded gives the frame back, with all
  numbers and texts within their limits.
\<close>

theorem note_frame_roundtrip:
  assumes "json_inverse dump parse" "note_frame_ok f" "encode_note_frame dump f = Inr payload"
  shows "decode_note_frame parse payload = Inr f"
proof -
  have e: "validate_note_frame_fields f = Inr ()" "encode_message dump (note_message f) = Inr payload" "\<not> kNoteMaxWireBytes < length payload"
    using assms(3) by (auto simp: encode_note_frame_def andthen_Inr_iff split: if_splits)
  have "decode_message parse payload = Inr (note_message f)"
    by (rule decode_encode_message [OF assms(1) note_message_ok e(2)])
  then show ?thesis using e note_frame_of_message [OF assms(2)] by (simp add: decode_note_frame_def)
qed

theorem note_frame_roundtrip_witness:
  "\<exists>f dump parse payload. nf_text f = ''hi'' \<and> encode_note_frame dump f = Inr payload \<and> decode_note_frame parse payload = Inr f"
proof -
  let ?f = "(new_note_frame 5)\<lparr>nf_revision := 3, nf_writer_id := ''w'', nf_text := ''hi''\<rparr>"
  let ?j = "message_object (note_message ?f)"
  let ?dump = "\<lambda>j. if j = ?j then Inr ''doc'' else Inl ''unknown''"
  let ?parse = "\<lambda>t. if t = ''doc'' then Inr ?j else Inl ''unknown''"
  have i: "json_inverse ?dump ?parse" by (simp add: json_inverse_def)
  have ok: "note_frame_ok ?f" by (simp add: note_frame_ok_def new_note_frame_def)
  have "validate_note_frame_fields ?f = Inr ()"
    by (simp add: validate_note_frame_fields_def new_note_frame_def kNoteMaxBytes_def kNoteMaxPadIdBytes_def
        kNoteMaxTitleBytes_def kNoteMaxWriterIdBytes_def)
  then have e: "encode_note_frame ?dump ?f = Inr ''doc''"
    by (simp add: encode_note_frame_def encode_message_def kNoteMaxWireBytes_def kNoteMaxBytes_def)
  have "decode_note_frame ?parse ''doc'' = Inr ?f" by (rule note_frame_roundtrip [OF i ok e])
  then show ?thesis
    using e by (intro exI [of _ ?f] exI [of _ ?dump] exI [of _ ?parse] exI [of _ "''doc''"]) simp
qed

end
