(* ===== verification/Note_Workspace.thy ===== *)
theory Note_Workspace
  imports Note_Frames "HOL-Library.Product_Lexorder"
begin

text \<open>
  The shared notes of one side (note/note_workspace.cpp): its pads, local edits, frames of the peer and
  acknowledgements. Two sides that have seen the same edits show the same texts.
\<close>

record note_workspace =
  nw_documents :: "(string, note_document) omap"
  nw_local_revisions :: "(string, u64) omap"
  nw_acked_revisions :: "(string, u64) omap"
  nw_writer_id :: string
  nw_active_pad :: string
  nw_next_pad_number :: nat

section \<open>Operations\<close>

definition default_pad_title :: "string \<Rightarrow> string" where
  "default_pad_title pad_id = (if pad_id = ''main'' then ''Note 1'' else pad_id)"

definition ensure_pad :: "string \<Rightarrow> string \<Rightarrow> note_workspace \<Rightarrow> note_document \<times> note_workspace" where
  "ensure_pad pad_id title ws =
     (let p = normalized_pad_id pad_id;
          d = (case map_of (nw_documents ws) p of
            None \<Rightarrow> new_note_document\<lparr>nd_pad_id := p, nd_title := if title = [] then default_pad_title p else title\<rparr>
          | Some d \<Rightarrow> if title \<noteq> [] then d\<lparr>nd_title := title\<rparr> else d)
      in (d, ws\<lparr>nw_documents := omap_put p d (nw_documents ws)\<rparr>))"

definition new_workspace :: "string \<Rightarrow> note_workspace" where
  "new_workspace writer_id = snd (ensure_pad ''main'' ''Note 1''
     \<lparr>nw_documents = [], nw_local_revisions = [], nw_acked_revisions = [], nw_writer_id = writer_id, nw_active_pad = ''main'',
      nw_next_pad_number = 2\<rparr>)"

text \<open>The document lies in the map under the key \<open>p\<close>.\<close>

definition apply_local :: "string \<Rightarrow> note_document \<Rightarrow> note_frame \<Rightarrow> note_workspace \<Rightarrow> note_frame \<times> note_workspace" where
  "apply_local p d f ws =
     (let d' = snd (apply_note_update d f) in
      (f, ws\<lparr>nw_documents := omap_put p d' (nw_documents ws),
             nw_local_revisions := omap_put (nd_pad_id d') (nf_revision f) (nw_local_revisions ws)\<rparr>))"

definition update_active :: "u64 \<Rightarrow> string \<Rightarrow> note_workspace \<Rightarrow> note_frame result \<times> note_workspace" where
  "update_active now text ws =
     (let p = normalized_pad_id (nw_active_pad ws); (d, ws) = ensure_pad (nw_active_pad ws) [] ws in
      case make_note_update now (nd_pad_id d) (nd_revision d + 1) text (nd_title d) (nw_writer_id ws) of
        Inl e \<Rightarrow> (Inl e, ws)
      | Inr f \<Rightarrow> (case apply_local p d f ws of (f, ws) \<Rightarrow> (Inr f, ws)))"

definition clear_active :: "u64 \<Rightarrow> note_workspace \<Rightarrow> note_frame result \<times> note_workspace" where
  "clear_active now ws =
     (let p = normalized_pad_id (nw_active_pad ws); (d, ws) = ensure_pad (nw_active_pad ws) [] ws in
      case make_note_clear now (nd_pad_id d) (nd_revision d + 1) (nd_title d) (nw_writer_id ws) of
        Inl e \<Rightarrow> (Inl e, ws)
      | Inr f \<Rightarrow> (case apply_local p d f ws of (f, ws) \<Rightarrow> (Inr f, ws)))"

definition pad_name :: "nat \<Rightarrow> string" where "pad_name n = ''pad-'' @ to_dec n"

lemma pad_name_inj: "pad_name m = pad_name n \<longleftrightarrow> m = n"
  by (simp add: pad_name_def to_dec_inj)

lemma pad_numbers_finite: "finite {i. n \<le> i \<and> omap_has m (pad_name i)}"
proof (rule finite_imageD [of pad_name])
  have "pad_name ` {i. n \<le> i \<and> omap_has m (pad_name i)} \<subseteq> fst ` set m" by (auto simp: omap_has_iff)
  then show "finite (pad_name ` {i. n \<le> i \<and> omap_has m (pad_name i)})" by (rule finite_subset) simp
  show "inj_on pad_name {i. n \<le> i \<and> omap_has m (pad_name i)}" by (simp add: inj_on_def pad_name_inj)
qed

function free_pad_number :: "(string, note_document) omap \<Rightarrow> nat \<Rightarrow> nat" where
  "free_pad_number m n = (if omap_has m (pad_name n) then free_pad_number m (n + 1) else n)"
  by pat_completeness auto
termination
proof (relation "measure (\<lambda>(m, n). card {i. n \<le> i \<and> omap_has m (pad_name i)})")
  fix m :: "(string, note_document) omap" and n
  assume h: "omap_has m (pad_name n)"
  have "{i. n + 1 \<le> i \<and> omap_has m (pad_name i)} \<subset> {i. n \<le> i \<and> omap_has m (pad_name i)}"
  proof (rule psubsetI)
    show "{i. n + 1 \<le> i \<and> omap_has m (pad_name i)} \<subseteq> {i. n \<le> i \<and> omap_has m (pad_name i)}" by auto
    have "n \<in> {i. n \<le> i \<and> omap_has m (pad_name i)}" using h by simp
    moreover have "n \<notin> {i. n + 1 \<le> i \<and> omap_has m (pad_name i)}" by simp
    ultimately show "{i. n + 1 \<le> i \<and> omap_has m (pad_name i)} \<noteq> {i. n \<le> i \<and> omap_has m (pad_name i)}" by (metis (lifting))
  qed
  then have "card {i. n + 1 \<le> i \<and> omap_has m (pad_name i)} < card {i. n \<le> i \<and> omap_has m (pad_name i)}"
    by (rule psubset_card_mono [OF pad_numbers_finite])
  then show "((m, n + 1), m, n) \<in> measure (\<lambda>(m, n). card {i. n \<le> i \<and> omap_has m (pad_name i)})" by simp
qed simp

declare free_pad_number.simps [simp del]

definition create_pad :: "u64 \<Rightarrow> note_workspace \<Rightarrow> note_frame result \<times> note_workspace" where
  "create_pad now ws =
     (let number = free_pad_number (nw_documents ws) (nw_next_pad_number ws);
          pad_id = pad_name number;
          (d, ws) = ensure_pad pad_id (''Note '' @ to_dec number) (ws\<lparr>nw_next_pad_number := number + 1\<rparr>);
          ws = ws\<lparr>nw_active_pad := pad_id\<rparr>
      in case make_note_update now (nd_pad_id d) (nd_revision d + 1) (nd_text d) (nd_title d) (nw_writer_id ws) of
           Inl e \<Rightarrow> (Inl e, ws)
         | Inr f \<Rightarrow> (case apply_local pad_id d f ws of (f, ws) \<Rightarrow> (Inr f, ws)))"

definition select_pad :: "string \<Rightarrow> note_workspace \<Rightarrow> bool \<times> note_workspace" where
  "select_pad pad_id ws =
     (let p = normalized_pad_id pad_id in
      if omap_has (nw_documents ws) p then (True, ws\<lparr>nw_active_pad := p\<rparr>) else (False, ws))"

definition apply_remote :: "note_frame \<Rightarrow> note_workspace \<Rightarrow> bool \<times> note_workspace" where
  "apply_remote f ws =
     (if \<not> is_note_edit f then (False, ws)
      else
        let (d, ws) = ensure_pad (nf_pad_id f) (nf_title f) ws; (applied, d) = apply_note_update d f
        in (applied, ws\<lparr>nw_documents := omap_put (normalized_pad_id (nf_pad_id f)) d (nw_documents ws)\<rparr>))"

definition acknowledge :: "note_frame \<Rightarrow> note_workspace \<Rightarrow> note_workspace" where
  "acknowledge f ws =
     (if nf_type f \<noteq> NoteAck then ws
      else
        let p = normalized_pad_id (nf_pad_id f);
            revision = (case map_of (nw_acked_revisions ws) p of Some r \<Rightarrow> r | None \<Rightarrow> 0)
        in ws\<lparr>nw_acked_revisions := omap_put p (max revision (nf_revision f)) (nw_acked_revisions ws)\<rparr>)"

definition pad_document :: "string \<Rightarrow> note_workspace \<Rightarrow> note_document option" where
  "pad_document pad_id ws = map_of (nw_documents ws) (normalized_pad_id pad_id)"

definition active_document :: "note_workspace \<Rightarrow> note_document" where
  "active_document ws = (case map_of (nw_documents ws) (nw_active_pad ws) of None \<Rightarrow> new_note_document | Some d \<Rightarrow> d)"

definition all_synced :: "note_workspace \<Rightarrow> bool" where
  "all_synced ws =
     list_all (\<lambda>(p, revision). case map_of (nw_acked_revisions ws) p of None \<Rightarrow> False | Some acked \<Rightarrow> \<not> acked < revision)
       (nw_local_revisions ws)"

section \<open>Snapshots\<close>

definition pad_before :: "note_document \<Rightarrow> note_document \<Rightarrow> bool" where
  "pad_before a b =
     (if nd_pad_id a = ''main'' then nd_pad_id b \<noteq> ''main''
      else if nd_pad_id b = ''main'' then False else nd_pad_id a < nd_pad_id b)"

fun insert_document :: "note_document \<Rightarrow> note_document list \<Rightarrow> note_document list" where
  "insert_document d [] = [d]"
| "insert_document d (e # es) = (if pad_before e d then e # insert_document d es else d # e # es)"

record note_snapshot =
  ns_active_pad :: string
  ns_documents :: "note_document list"
  ns_latest_local_revision :: u64
  ns_last_acked_revision :: u64
  ns_has_local_updates :: bool
  ns_synced :: bool

definition workspace_snapshot :: "note_workspace \<Rightarrow> note_snapshot" where
  "workspace_snapshot ws =
     \<lparr>ns_active_pad = nw_active_pad ws,
      ns_documents = foldr insert_document (map snd (nw_documents ws)) [],
      ns_latest_local_revision = fold max (map snd (nw_local_revisions ws)) 0,
      ns_last_acked_revision = fold max (map snd (nw_acked_revisions ws)) 0,
      ns_has_local_updates = (nw_local_revisions ws \<noteq> []),
      ns_synced = (nw_local_revisions ws \<noteq> [] \<and> all_synced ws)\<rparr>"

section \<open>Documents as registers\<close>

text \<open>What decides between two contents of a document; the greater one wins.\<close>

type_synonym stamp = "u64 \<times> string \<times> u64 \<times> string"

definition stamp_of :: "note_document \<Rightarrow> stamp" where
  "stamp_of d = (nd_revision d, nd_writer_id d, nd_timestamp_ms d, nd_text d)"

definition frame_stamp :: "note_frame \<Rightarrow> stamp" where
  "frame_stamp f = (nf_revision f, nf_writer_id f, nf_timestamp_ms f, incoming_text f)"

definition bottom_stamp :: stamp where "bottom_stamp = (0, [], 0, [])"

lemma tied_le:
  "nf_revision f = nd_revision d \<Longrightarrow>
   tied (nf_writer_id f) (nf_timestamp_ms f) (incoming_text f) (nd_writer_id d) (nd_timestamp_ms d) (nd_text d) \<longleftrightarrow>
   frame_stamp f \<le> stamp_of d"
  by (auto simp: tied_def frame_stamp_def stamp_of_def less_eq_prod_def)

lemma apply_is_max:
  assumes "is_note_edit f"
  shows "stamp_of (snd (apply_note_update d f)) = max (stamp_of d) (frame_stamp f)"
proof (cases "nf_revision f = nd_revision d")
  case True
  then show ?thesis
    using assms tied_le [OF True] by (auto simp: apply_note_update_def max_def) (auto simp: stamp_of_def frame_stamp_def)
next
  case False
  then have "frame_stamp f \<le> stamp_of d \<longleftrightarrow> nf_revision f < nd_revision d"
    by (auto simp: frame_stamp_def stamp_of_def less_eq_prod_def)
  moreover have "stamp_of d \<le> frame_stamp f \<longleftrightarrow> nd_revision d < nf_revision f"
    using False by (auto simp: frame_stamp_def stamp_of_def less_eq_prod_def)
  ultimately show ?thesis
    using assms False by (auto simp: apply_note_update_def max_def) (auto simp: stamp_of_def frame_stamp_def)
qed

lemma bottom_least: "bottom_stamp \<le> s"
proof -
  obtain r w t x where s: "s = (r, w, t, x)" by (cases s)
  have "0 < r \<or> r = 0" "0 < t \<or> t = 0" "[] < w \<or> w = []" "[] \<le> x"
    by (simp_all add: word_gt_0 neq_Nil_conv le_less, (cases w; simp), (cases x; simp))
  then show ?thesis by (auto simp: s bottom_stamp_def less_eq_prod_def)
qed

lemma max_bottom [simp]: "max bottom_stamp s = s" "max s bottom_stamp = s"
  using bottom_least by (simp_all add: max.absorb1 max.absorb2)

lemma stamp_simps [simp]:
  "stamp_of (d\<lparr>nd_pad_id := p, nd_title := t\<rparr>) = stamp_of d" "stamp_of (d\<lparr>nd_title := t\<rparr>) = stamp_of d"
  "stamp_of (d\<lparr>nd_pad_id := p\<rparr>) = stamp_of d"
  "stamp_of new_note_document = bottom_stamp"
  by (simp_all add: stamp_of_def bottom_stamp_def new_note_document_def)

text \<open>What is known of each pad.\<close>

definition pad_stamp :: "note_workspace \<Rightarrow> string \<Rightarrow> stamp option" where
  "pad_stamp ws p = map_option stamp_of (map_of (nw_documents ws) p)"

definition known_stamp :: "stamp option \<Rightarrow> stamp" where
  "known_stamp s = (case s of None \<Rightarrow> bottom_stamp | Some s \<Rightarrow> s)"

lemma ensure_pad_stamp:
  assumes "ensure_pad pad title ws = (d, ws')"
  shows "stamp_of d = known_stamp (pad_stamp ws (normalized_pad_id pad))"
    "pad_stamp ws' = (pad_stamp ws)(normalized_pad_id pad \<mapsto> stamp_of d)"
    "nw_writer_id ws' = nw_writer_id ws" "nw_active_pad ws' = nw_active_pad ws"
  using assms by (auto simp: ensure_pad_def Let_def known_stamp_def pad_stamp_def fun_eq_iff split: option.splits)

lemma apply_local_stamp:
  assumes "apply_local p d f ws = (f', ws')" "is_note_edit f"
  shows "f' = f" "pad_stamp ws' = (pad_stamp ws)(p \<mapsto> max (stamp_of d) (frame_stamp f))"
  using assms apply_is_max [of f d] by (auto simp: apply_local_def Let_def pad_stamp_def fun_eq_iff)

text \<open>An edit is merged into the pad it names.\<close>

definition merge_edit :: "note_frame \<Rightarrow> (string \<Rightarrow> stamp option) \<Rightarrow> string \<Rightarrow> stamp option" where
  "merge_edit f m = m(normalized_pad_id (nf_pad_id f) \<mapsto> max (known_stamp (m (normalized_pad_id (nf_pad_id f)))) (frame_stamp f))"

lemma normalized_idem [simp]: "normalized_pad_id (normalized_pad_id p) = normalized_pad_id p"
  by (simp add: normalized_pad_id_def)

lemma remote_merges: "is_note_edit f \<Longrightarrow> pad_stamp (snd (apply_remote f ws)) = merge_edit f (pad_stamp ws)"
proof -
  assume e: "is_note_edit f"
  obtain d ws1 where s: "ensure_pad (nf_pad_id f) (nf_title f) ws = (d, ws1)" by fastforce
  obtain a d' where u: "apply_note_update d f = (a, d')" by fastforce
  have "stamp_of d' = max (stamp_of d) (frame_stamp f)" using apply_is_max [OF e, of d] u by simp
  then show ?thesis
    using e s u ensure_pad_stamp [OF s] by (auto simp: apply_remote_def merge_edit_def pad_stamp_def fun_eq_iff)
qed

lemma local_merges:
  assumes "ensure_pad pad title ws = (d, ws1)" "apply_local (normalized_pad_id pad) d f ws2 = (f', ws3)"
    "pad_stamp ws2 = pad_stamp ws1" "is_note_edit f" "nf_pad_id f = normalized_pad_id pad"
  shows "f' = f" "pad_stamp ws3 = merge_edit f (pad_stamp ws)"
  using ensure_pad_stamp [OF assms(1)] apply_local_stamp [OF assms(2,4)] assms(3,5)
  by (auto simp: merge_edit_def fun_eq_iff)

section \<open>What the operations do\<close>

text \<open>The invariant: a document lies under its own name, and the active pad exists.\<close>

definition workspace_ok :: "note_workspace \<Rightarrow> bool" where
  "workspace_ok ws \<longleftrightarrow>
     (\<forall>p d. map_of (nw_documents ws) p = Some d \<longrightarrow> nd_pad_id d = p) \<and> map_of (nw_documents ws) [] = None \<and>
     map_of (nw_documents ws) (nw_active_pad ws) \<noteq> None"

lemma normalized_nonempty [simp]: "normalized_pad_id p \<noteq> []"
  by (simp add: normalized_pad_id_def)

lemma normalized_same: "p \<noteq> [] \<Longrightarrow> normalized_pad_id p = p"
  by (simp add: normalized_pad_id_def)

lemma ensure_pad_ok:
  assumes "ensure_pad pad title ws = (d, ws')" "workspace_ok ws"
  shows "workspace_ok ws'" "nd_pad_id d = normalized_pad_id pad" "map_of (nw_documents ws') (normalized_pad_id pad) = Some d"
  using assms normalized_nonempty [of pad, symmetric]
  by (auto simp: ensure_pad_def workspace_ok_def Let_def split: option.splits if_splits)

lemma ensure_pad_revisions:
  assumes "ensure_pad pad title ws = (d, ws')"
  shows "nw_local_revisions ws' = nw_local_revisions ws" "nw_acked_revisions ws' = nw_acked_revisions ws"
  using assms by (auto simp: ensure_pad_def Let_def)

lemma applied_pad_id:
  "nd_pad_id d = normalized_pad_id (nf_pad_id f) \<Longrightarrow> nd_pad_id (snd (apply_note_update d f)) = normalized_pad_id (nf_pad_id f)"
  by (simp add: apply_note_update_def)

lemma new_workspace_ok: "workspace_ok (new_workspace w)"
  by (simp add: new_workspace_def ensure_pad_def workspace_ok_def Let_def normalized_pad_id_def)

text \<open>A local edit: its revision follows what is known of the pad, and it is merged and noted.\<close>

definition edit_made :: "note_frame \<Rightarrow> note_workspace \<Rightarrow> note_workspace \<Rightarrow> bool" where
  "edit_made f ws ws' \<longleftrightarrow>
     is_note_edit f \<and> nf_pad_id f \<noteq> [] \<and> nf_revision f = fst (known_stamp (pad_stamp ws (nf_pad_id f))) + 1 \<and>
     pad_stamp ws' = merge_edit f (pad_stamp ws) \<and> workspace_ok ws' \<and>
     nw_local_revisions ws' = omap_put (nf_pad_id f) (nf_revision f) (nw_local_revisions ws) \<and>
     nw_acked_revisions ws' = nw_acked_revisions ws"

definition contents_kept :: "note_workspace \<Rightarrow> note_workspace \<Rightarrow> bool" where
  "contents_kept ws ws' \<longleftrightarrow>
     pad_stamp ws' = pad_stamp ws \<and> workspace_ok ws' \<and> nw_local_revisions ws' = nw_local_revisions ws \<and>
     nw_acked_revisions ws' = nw_acked_revisions ws"

lemma made_updates:
  "make_note_update now pad r t title w = Inr f \<Longrightarrow> is_note_edit f \<and> nf_pad_id f = normalized_pad_id pad \<and> nf_revision f = r \<and> incoming_text f = t"
  "make_note_clear now pad r title w = Inr f \<Longrightarrow> is_note_edit f \<and> nf_pad_id f = normalized_pad_id pad \<and> nf_revision f = r \<and> incoming_text f = []"
  by (auto simp: make_note_update_def make_note_clear_def new_note_frame_def is_note_edit_def incoming_text_def andthen_Inr_iff
      split: if_splits)

lemma local_edit_step:
  assumes "workspace_ok ws" "ensure_pad pad title ws = (d, ws1)"
    "ws2 = ws1 \<or> ws2 = ws1\<lparr>nw_active_pad := normalized_pad_id pad\<rparr>"
    "apply_local (normalized_pad_id pad) d f ws2 = (f', ws3)" "is_note_edit f" "nf_pad_id f = normalized_pad_id pad"
    "nf_revision f = nd_revision d + 1"
  shows "edit_made f ws ws3 \<and> f' = f"
proof -
  note e = ensure_pad_ok [OF assms(2,1)]
  note r = ensure_pad_revisions [OF assms(2)]
  have s: "pad_stamp ws2 = pad_stamp ws1" "nw_documents ws2 = nw_documents ws1" "nw_local_revisions ws2 = nw_local_revisions ws1"
    "nw_acked_revisions ws2 = nw_acked_revisions ws1"
    using assms(3) by (auto simp: pad_stamp_def fun_eq_iff)
  have m: "f' = f" "pad_stamp ws3 = merge_edit f (pad_stamp ws)" using local_merges [OF assms(2,4) s(1) assms(5,6)] by simp_all
  have n: "nd_pad_id (snd (apply_note_update d f)) = normalized_pad_id pad"
    using applied_pad_id [of d f] e(2) assms(6) by simp
  have d: "nw_documents ws3 = omap_put (normalized_pad_id pad) (snd (apply_note_update d f)) (nw_documents ws1)"
    "nw_active_pad ws3 = nw_active_pad ws2" "nw_acked_revisions ws3 = nw_acked_revisions ws"
    "nw_local_revisions ws3 = omap_put (normalized_pad_id pad) (nf_revision f) (nw_local_revisions ws)"
    using assms(4) s r n by (auto simp: apply_local_def Let_def)
  moreover have "map_of (nw_documents ws1) (nw_active_pad ws2) \<noteq> None"
    using e(1,3) assms(3) by (auto simp: workspace_ok_def)
  ultimately have "workspace_ok ws3"
    using e(1) n normalized_nonempty [of pad, symmetric] by (auto simp: workspace_ok_def)
  moreover have "fst (known_stamp (pad_stamp ws (normalized_pad_id pad))) = nd_revision d"
    using ensure_pad_stamp(1) [OF assms(2), symmetric] by (simp add: stamp_of_def)
  ultimately show ?thesis using m d assms(5-7) by (simp add: edit_made_def)
qed

lemma ensure_active:
  assumes "workspace_ok ws"
  shows "\<exists>d ws1. ensure_pad (nw_active_pad ws) [] ws = (d, ws1) \<and> contents_kept ws ws1 \<and> nd_pad_id d = normalized_pad_id (nw_active_pad ws)"
proof -
  obtain d where d: "map_of (nw_documents ws) (nw_active_pad ws) = Some d" using assms by (auto simp: workspace_ok_def)
  have a: "nw_active_pad ws \<noteq> []" using assms by (auto simp: workspace_ok_def)
  let ?ws1 = "ws\<lparr>nw_documents := omap_put (nw_active_pad ws) d (nw_documents ws)\<rparr>"
  have "ensure_pad (nw_active_pad ws) [] ws = (d, ?ws1)" using d a by (simp add: ensure_pad_def normalized_same)
  moreover have "contents_kept ws ?ws1"
    using assms d by (auto simp: contents_kept_def pad_stamp_def fun_eq_iff workspace_ok_def)
  ultimately show ?thesis using ensure_pad_ok(2) [OF _ assms] by blast
qed

lemma free_pad_number_free: "\<not> omap_has m (pad_name (free_pad_number m n))"
  by (induction m n rule: free_pad_number.induct) (subst free_pad_number.simps, simp)

text \<open>An operation of the user makes an edit, or it fails and keeps what is written.\<close>

definition edited :: "note_frame result \<Rightarrow> note_workspace \<Rightarrow> note_workspace \<Rightarrow> bool" where
  "edited r ws ws' = (case r of Inl _ \<Rightarrow> contents_kept ws ws' | Inr f \<Rightarrow> edit_made f ws ws')"

lemma update_active_edits: "workspace_ok ws \<Longrightarrow> update_active now t ws = (r, ws') \<Longrightarrow> edited r ws ws'"
proof -
  assume ok: "workspace_ok ws" and u: "update_active now t ws = (r, ws')"
  obtain d ws1 where e: "ensure_pad (nw_active_pad ws) [] ws = (d, ws1)" "contents_kept ws ws1" "nd_pad_id d = normalized_pad_id (nw_active_pad ws)"
    using ensure_active [OF ok] by blast
  obtain f' ws3 where a: "apply_local (normalized_pad_id (nw_active_pad ws)) d f ws1 = (f' f, ws3 f)" for f by (meson surj_pair)
  show ?thesis
  proof (cases "make_note_update now (nd_pad_id d) (nd_revision d + 1) t (nd_title d) (nw_writer_id ws1)")
    case (Inl x)
    then have "update_active now t ws = (Inl x, ws1)" using e(1) by (simp add: update_active_def)
    then show ?thesis using u e(2) by (auto simp: edited_def)
  next
    case (Inr f)
    have "update_active now t ws = (Inr (f' f), ws3 f)" using e(1) Inr a by (simp add: update_active_def Let_def)
    moreover have "edit_made f ws (ws3 f) \<and> f' f = f"
      by (rule local_edit_step [OF ok e(1) _ a]) (use made_updates(1) [OF Inr] e(3) in simp_all)
    ultimately show ?thesis using u by (auto simp: edited_def)
  qed
qed

text \<open>After the greatest revision the next one is zero: an edit is then dropped here, and by the peer.\<close>

lemma edit_after_last_revision_lost:
  assumes "workspace_ok ws" "update_active now t ws = (Inr f, ws')" "pad_stamp ws (nf_pad_id f) = Some s" "fst s = - 1"
  shows "nf_revision f = 0 \<and> pad_stamp ws' = pad_stamp ws"
proof -
  have e: "edit_made f ws ws'" using update_active_edits [OF assms(1,2)] by (simp add: edited_def)
  then have r: "nf_revision f = 0" "nf_pad_id f \<noteq> []" using assms(3,4) by (simp_all add: edit_made_def known_stamp_def)
  have "frame_stamp f \<le> s" using r(1) assms(4) by (cases s) (simp add: frame_stamp_def less_eq_prod_def word_gt_0)
  then show ?thesis
    using e r assms(3) by (auto simp: edit_made_def merge_edit_def normalized_same known_stamp_def max_def fun_eq_iff)
qed

lemma clear_active_edits: "workspace_ok ws \<Longrightarrow> clear_active now ws = (r, ws') \<Longrightarrow> edited r ws ws'"
proof -
  assume ok: "workspace_ok ws" and u: "clear_active now ws = (r, ws')"
  obtain d ws1 where e: "ensure_pad (nw_active_pad ws) [] ws = (d, ws1)" "contents_kept ws ws1" "nd_pad_id d = normalized_pad_id (nw_active_pad ws)"
    using ensure_active [OF ok] by blast
  obtain f' ws3 where a: "apply_local (normalized_pad_id (nw_active_pad ws)) d f ws1 = (f' f, ws3 f)" for f by (meson surj_pair)
  show ?thesis
  proof (cases "make_note_clear now (nd_pad_id d) (nd_revision d + 1) (nd_title d) (nw_writer_id ws1)")
    case (Inl x)
    then have "clear_active now ws = (Inl x, ws1)" using e(1) by (simp add: clear_active_def)
    then show ?thesis using u e(2) by (auto simp: edited_def)
  next
    case (Inr f)
    have "clear_active now ws = (Inr (f' f), ws3 f)" using e(1) Inr a by (simp add: clear_active_def Let_def)
    moreover have "edit_made f ws (ws3 f) \<and> f' f = f"
      by (rule local_edit_step [OF ok e(1) _ a]) (use made_updates(2) [OF Inr] e(3) in simp_all)
    ultimately show ?thesis using u by (auto simp: edited_def)
  qed
qed

lemma create_pad_edits: "workspace_ok ws \<Longrightarrow> create_pad now ws = (r, ws') \<Longrightarrow> edited r ws ws'"
proof -
  assume ok: "workspace_ok ws" and u: "create_pad now ws = (r, ws')"
  let ?n = "free_pad_number (nw_documents ws) (nw_next_pad_number ws)"
  let ?ws0 = "ws\<lparr>nw_next_pad_number := ?n + 1\<rparr>"
  have ok0: "workspace_ok ?ws0" "pad_stamp ?ws0 = pad_stamp ws" using ok by (auto simp: workspace_ok_def pad_stamp_def fun_eq_iff)
  have p: "pad_name ?n \<noteq> []" by (simp add: pad_name_def)
  obtain d ws1 where e: "ensure_pad (pad_name ?n) (''Note '' @ to_dec ?n) ?ws0 = (d, ws1)" by (meson surj_pair)
  let ?ws2 = "ws1\<lparr>nw_active_pad := pad_name ?n\<rparr>"
  have n: "nd_pad_id d = normalized_pad_id (pad_name ?n)" by (rule ensure_pad_ok(2) [OF e ok0(1)])
  obtain f' ws3 where a: "apply_local (normalized_pad_id (pad_name ?n)) d f ?ws2 = (f' f, ws3 f)" for f by (meson surj_pair)
  show ?thesis
  proof (cases "make_note_update now (nd_pad_id d) (nd_revision d + 1) (nd_text d) (nd_title d) (nw_writer_id ws1)")
    case (Inl x)
    then have c: "create_pad now ws = (Inl x, ?ws2)" using e p by (simp add: create_pad_def Let_def)
    have "\<not> omap_has (nw_documents ws) (pad_name ?n)"
      by (rule free_pad_number_free)
    then have "nd_text d = []" using e p by (auto simp: ensure_pad_def Let_def normalized_same new_note_document_def omap_has_def)
    then show ?thesis using Inl by (simp add: make_note_update_def)
  next
    case (Inr f)
    have "create_pad now ws = (Inr (f' f), ws3 f)" using e Inr a p by (simp add: create_pad_def Let_def normalized_same)
    moreover have "edit_made f ?ws0 (ws3 f) \<and> f' f = f"
      by (rule local_edit_step [OF ok0(1) e _ a]) (use made_updates(1) [OF Inr] n p in \<open>simp_all add: normalized_same\<close>)
    ultimately show ?thesis using u ok0(2) by (auto simp: edited_def edit_made_def)
  qed
qed

lemma select_pad_keeps: "workspace_ok ws \<Longrightarrow> contents_kept ws (snd (select_pad p ws))"
  by (cases "omap_has (nw_documents ws) (normalized_pad_id p)")
    (auto simp: select_pad_def contents_kept_def workspace_ok_def pad_stamp_def omap_has_def Let_def fun_eq_iff)

lemma apply_remote_merges:
  assumes "workspace_ok ws" "is_note_edit f"
  shows "pad_stamp (snd (apply_remote f ws)) = merge_edit f (pad_stamp ws)" "workspace_ok (snd (apply_remote f ws))"
    "nw_local_revisions (snd (apply_remote f ws)) = nw_local_revisions ws" "nw_acked_revisions (snd (apply_remote f ws)) = nw_acked_revisions ws"
proof -
  obtain d ws1 where e: "ensure_pad (nf_pad_id f) (nf_title f) ws = (d, ws1)" by (meson surj_pair)
  show "workspace_ok (snd (apply_remote f ws))"
    using assms(2) e ensure_pad_ok [OF e assms(1)] applied_pad_id [of d f]
    by (auto simp: apply_remote_def workspace_ok_def split: prod.split)
  show "nw_local_revisions (snd (apply_remote f ws)) = nw_local_revisions ws"
    "nw_acked_revisions (snd (apply_remote f ws)) = nw_acked_revisions ws"
    using assms(2) e ensure_pad_revisions [OF e] by (auto simp: apply_remote_def split: prod.split)
qed (rule remote_merges [OF assms(2)])

lemma acknowledge_keeps:
  "workspace_ok ws \<Longrightarrow> pad_stamp (acknowledge f ws) = pad_stamp ws \<and> workspace_ok (acknowledge f ws) \<and>
     nw_local_revisions (acknowledge f ws) = nw_local_revisions ws"
  by (cases "nf_type f = NoteAck") (auto simp: acknowledge_def workspace_ok_def pad_stamp_def Let_def fun_eq_iff)

section \<open>Merged edits\<close>

lemma merge_grows: "known_stamp (m p) \<le> known_stamp (merge_edit f m p)"
  by (simp add: merge_edit_def known_stamp_def)

lemma merged_is_bound:
  "known_stamp (m p) \<le> known_stamp (fold merge_edit fs m p)"
  "f \<in> set fs \<Longrightarrow> normalized_pad_id (nf_pad_id f) = p \<Longrightarrow> frame_stamp f \<le> known_stamp (fold merge_edit fs m p)"
proof (induction fs arbitrary: m)
  case (Cons g fs)
  { case 1 show ?case using Cons(1) [of "merge_edit g m"] merge_grows [of m p g] by simp
  next
    case 2
    show ?case
    proof (cases "f = g")
      case True
      then have "frame_stamp f \<le> known_stamp (merge_edit g m p)" using 2(2) by (auto simp: merge_edit_def known_stamp_def)
      then show ?thesis using Cons(1) [of "merge_edit g m"] by simp
    next
      case False
      then show ?thesis using 2 Cons(2) [of "merge_edit g m"] by simp
    qed }
qed simp_all

lemma merged_is_least:
  "known_stamp (m p) \<le> s \<Longrightarrow> (\<And>f. f \<in> set fs \<Longrightarrow> normalized_pad_id (nf_pad_id f) = p \<Longrightarrow> frame_stamp f \<le> s) \<Longrightarrow>
   known_stamp (fold merge_edit fs m p) \<le> s"
proof (induction fs arbitrary: m)
  case (Cons g fs)
  have "known_stamp (merge_edit g m p) \<le> s"
    using Cons.prems by (cases "normalized_pad_id (nf_pad_id g) = p") (auto simp: merge_edit_def known_stamp_def)
  then show ?case using Cons.IH [of "merge_edit g m"] Cons.prems(2) by simp
qed simp

lemma merged_pads: "fold merge_edit fs m p = None \<longleftrightarrow> m p = None \<and> (\<forall>f\<in>set fs. normalized_pad_id (nf_pad_id f) \<noteq> p)"
  by (induction fs arbitrary: m) (auto simp: merge_edit_def)

text \<open>Two collections of edits that cover each other give the same contents.\<close>

definition covers :: "note_frame set \<Rightarrow> note_frame set \<Rightarrow> bool" where
  "covers F G \<longleftrightarrow> (\<forall>g\<in>G. \<exists>f\<in>F. normalized_pad_id (nf_pad_id f) = normalized_pad_id (nf_pad_id g) \<and> frame_stamp g \<le> frame_stamp f)"

lemma covered_merge_le:
  assumes "covers (set fs) (set gs)"
  shows "known_stamp (fold merge_edit gs m p) \<le> known_stamp (fold merge_edit fs m p)" "fold merge_edit fs m p = None \<Longrightarrow> fold merge_edit gs m p = None"
proof -
  show "known_stamp (fold merge_edit gs m p) \<le> known_stamp (fold merge_edit fs m p)"
  proof (rule merged_is_least [OF merged_is_bound(1)])
    fix g assume g: "g \<in> set gs" "normalized_pad_id (nf_pad_id g) = p"
    then obtain f where "f \<in> set fs" "normalized_pad_id (nf_pad_id f) = p" "frame_stamp g \<le> frame_stamp f"
      using assms by (auto simp: covers_def)
    then show "frame_stamp g \<le> known_stamp (fold merge_edit fs m p)" using merged_is_bound(2) order_trans by blast
  qed
  show "fold merge_edit fs m p = None \<Longrightarrow> fold merge_edit gs m p = None"
    using assms by (auto simp: merged_pads covers_def)
qed

lemma covered_merges_agree:
  assumes "covers (set fs) (set gs)" "covers (set gs) (set fs)"
  shows "fold merge_edit fs m = fold merge_edit gs m"
proof
  fix p
  have "known_stamp (fold merge_edit fs m p) = known_stamp (fold merge_edit gs m p)"
    using covered_merge_le(1) [OF assms(1), of m p] covered_merge_le(1) [OF assms(2), of m p] by (rule order_antisym [rotated])
  moreover have "fold merge_edit fs m p = None \<longleftrightarrow> fold merge_edit gs m p = None"
    using covered_merge_le(2) [OF assms(1), of m p] covered_merge_le(2) [OF assms(2), of m p] by blast
  ultimately show "fold merge_edit fs m p = fold merge_edit gs m p"
    by (cases "fold merge_edit fs m p"; cases "fold merge_edit gs m p") (simp_all add: known_stamp_def)
qed

end
