(* ===== verification/Note_Session.thy ===== *)
theory Note_Session
  imports Note_Workspace
begin

text \<open>
  A session that shares notes with a peer (note/note_session.cpp): the bounded queue of outgoing frames, which
  keeps one edit and one acknowledgement for each pad, and the two threads of a side. Frames of any pending
  operations are queued in any order; the channel keeps the order of the frames sent.
\<close>

section \<open>The outgoing queue\<close>

text \<open>
  The bytes of a frame depend on the capacity of its strings, which is a matter of the string library:
  \<open>nm_size\<close> is \<open>queued_frame_bytes\<close> of a frame to be queued, \<open>nm_kept a b\<close> the value for a queued frame of
  value \<open>a\<close> once a frame of value \<open>b\<close> has been moved into it.
\<close>

record note_memory =
  nm_size :: "note_frame \<Rightarrow> nat"
  nm_kept :: "nat \<Rightarrow> nat \<Rightarrow> nat"

record note_outbox =
  ob_frames :: "(note_frame \<times> nat) list"
  ob_bytes :: nat
  ob_stopped :: bool
  ob_error :: "string option"

definition kNoteOutboxMaxFrames :: nat where "kNoteOutboxMaxFrames = 128"
definition kNoteOutboxMaxBytes :: nat where "kNoteOutboxMaxBytes = 8 * 1024 * 1024"

definition frames_coalesce :: "note_frame \<Rightarrow> note_frame \<Rightarrow> bool" where
  "frames_coalesce queued incoming =
     (if nf_pad_id queued \<noteq> nf_pad_id incoming then False
      else if is_note_edit queued \<and> is_note_edit incoming then True
      else nf_type queued = NoteAck \<and> nf_type incoming = NoteAck)"

definition less_bytes :: "nat \<Rightarrow> nat \<Rightarrow> nat" where
  "less_bytes used taken = (if used \<ge> taken then used - taken else 0)"

definition outbox_overflow :: "note_outbox \<Rightarrow> note_outbox" where
  "outbox_overflow box =
     box\<lparr>ob_error := (case ob_error box of None \<Rightarrow> Some ''notepad send queue limit exceeded'' | Some e \<Rightarrow> Some e), ob_stopped := True\<rparr>"

definition queue_frame :: "note_memory \<Rightarrow> note_frame \<Rightarrow> note_outbox \<Rightarrow> bool \<times> note_outbox" where
  "queue_frame mem f box =
     (if ob_stopped box then (False, box)
      else
        let frame_bytes = nm_size mem f in
        case List.extract (\<lambda>c. frames_coalesce (fst c) f) (ob_frames box) of
          Some (before, (queued, queued_bytes), behind) \<Rightarrow>
            if nf_revision f < nf_revision queued then (True, box)
            else
              let remaining_bytes = less_bytes (ob_bytes box) queued_bytes in
              if kNoteOutboxMaxBytes < frame_bytes \<or> kNoteOutboxMaxBytes - frame_bytes < remaining_bytes
              then (False, outbox_overflow box)
              else (True, box\<lparr>ob_frames := before @ (f, nm_kept mem queued_bytes frame_bytes) # behind,
                              ob_bytes := remaining_bytes + frame_bytes\<rparr>)
        | None \<Rightarrow>
            if kNoteOutboxMaxFrames \<le> length (ob_frames box) \<or> kNoteOutboxMaxBytes < frame_bytes \<or>
               kNoteOutboxMaxBytes - frame_bytes < ob_bytes box
            then (False, outbox_overflow box)
            else (True, box\<lparr>ob_frames := ob_frames box @ [(f, frame_bytes)], ob_bytes := ob_bytes box + frame_bytes\<rparr>))"

text \<open>What the sender thread takes from the queue.\<close>

definition take_frame :: "note_outbox \<Rightarrow> (note_frame \<times> note_outbox) option" where
  "take_frame box =
     (if ob_stopped box then None
      else case ob_frames box of
        [] \<Rightarrow> None
      | (f, frame_bytes) # rest \<Rightarrow> Some (f, box\<lparr>ob_frames := rest, ob_bytes := less_bytes (ob_bytes box) frame_bytes\<rparr>))"

definition empty_outbox :: note_outbox where
  "empty_outbox = \<lparr>ob_frames = [], ob_bytes = 0, ob_stopped = False, ob_error = None\<rparr>"

definition outbox_frames :: "note_outbox \<Rightarrow> note_frame list" where
  "outbox_frames box = map fst (ob_frames box)"

section \<open>A queue that replaces\<close>

text \<open>A replaced or dropped element leaves a later one of its kind in the queue.\<close>

locale replacing_queue =
  fixes offer :: "'f \<Rightarrow> 'q \<Rightarrow> bool \<times> 'q" and take_next :: "'q \<Rightarrow> ('f \<times> 'q) option"
    and items :: "'q \<Rightarrow> 'f list" and older :: "'f \<Rightarrow> 'f \<Rightarrow> bool"
  assumes older_refl: "older f f"
    and older_trans: "older f g \<Longrightarrow> older g h \<Longrightarrow> older f h"
    and offered_kept: "offer f q = (True, q') \<Longrightarrow> g \<in> insert f (set (items q)) \<Longrightarrow> \<exists>h\<in>set (items q'). older g h"
    and offer_adds: "offer f q = (b, q') \<Longrightarrow> set (items q') \<subseteq> insert f (set (items q))"
    and take_first: "take_next q = Some (f, q') \<Longrightarrow> items q = f # items q'"
begin

text \<open>The elements \<open>F\<close> that must arrive are covered by those sent or still to be sent.\<close>

definition covered :: "'f set \<Rightarrow> 'f set \<Rightarrow> bool" where
  "covered F G \<longleftrightarrow> (\<forall>f\<in>F. \<exists>g\<in>G. older f g)"

lemma covered_offer:
  assumes "covered F (insert f (R \<union> set (items q) \<union> S))" "offer f q = (True, q')"
  shows "covered F (R \<union> set (items q') \<union> S)"
  unfolding covered_def
proof
  fix e assume "e \<in> F"
  then obtain g where g: "g \<in> insert f (R \<union> set (items q) \<union> S)" "older e g" using assms(1) by (auto simp: covered_def)
  show "\<exists>h\<in>R \<union> set (items q') \<union> S. older e h"
  proof (cases "g \<in> insert f (set (items q))")
    case True
    then obtain h where "h \<in> set (items q')" "older g h" using offered_kept [OF assms(2)] by blast
    then show ?thesis using older_trans [OF g(2)] by blast
  next
    case False
    then show ?thesis using g by blast
  qed
qed

lemma covered_take:
  "covered F (R \<union> set (items q) \<union> set s) \<Longrightarrow> take_next q = Some (f, q') \<Longrightarrow> covered F (R \<union> set (items q') \<union> set (s @ [f]))"
  using take_first by (fastforce simp: covered_def)

lemma covered_new: "covered F G \<Longrightarrow> covered (insert f F) (insert f G)"
  using older_refl by (auto simp: covered_def)

end

text \<open>The revision orders the edits, and the acknowledgements, of a pad.\<close>

definition older_frame :: "note_frame \<Rightarrow> note_frame \<Rightarrow> bool" where
  "older_frame f g \<longleftrightarrow> f = g \<or> frames_coalesce f g \<and> nf_revision f \<le> nf_revision g"

lemma frames_coalesce_iff:
  "frames_coalesce f g \<longleftrightarrow>
     nf_pad_id f = nf_pad_id g \<and> (is_note_edit f \<and> is_note_edit g \<or> nf_type f = NoteAck \<and> nf_type g = NoteAck)"
  by (simp add: frames_coalesce_def) blast

lemma edit_is_no_ack: "is_note_edit f \<Longrightarrow> nf_type f \<noteq> NoteAck"
  by (auto simp: is_note_edit_def)

lemma frames_coalesce_trans: "frames_coalesce f g \<Longrightarrow> frames_coalesce g h \<Longrightarrow> frames_coalesce f h"
  unfolding frames_coalesce_iff using edit_is_no_ack by metis

lemma frames_coalesce_sym: "frames_coalesce f g \<Longrightarrow> frames_coalesce g f"
  unfolding frames_coalesce_iff by metis

lemma older_frame_trans: "older_frame f g \<Longrightarrow> older_frame g h \<Longrightarrow> older_frame f h"
  unfolding older_frame_def using frames_coalesce_trans order_trans by metis

text \<open>The outcomes of queueing a frame.\<close>

lemma queue_frame_cases:
  assumes "queue_frame mem f box = (b, box')"
  obtains (kept) "box' = box" "b \<longrightarrow> (\<exists>g\<in>set (outbox_frames box). frames_coalesce g f \<and> nf_revision f < nf_revision g)"
  | (overflow) "box' = outbox_overflow box" "\<not> b"
  | (replaced) pre g n post where "b" "ob_frames box = pre @ (g, n) # post" "frames_coalesce g f" "nf_revision g \<le> nf_revision f"
      "box' = box\<lparr>ob_frames := pre @ (f, nm_kept mem n (nm_size mem f)) # post, ob_bytes := less_bytes (ob_bytes box) n + nm_size mem f\<rparr>"
      "less_bytes (ob_bytes box) n + nm_size mem f \<le> kNoteOutboxMaxBytes"
  | (added) "b" "\<forall>c\<in>set (ob_frames box). \<not> frames_coalesce (fst c) f" "length (ob_frames box) < kNoteOutboxMaxFrames"
      "ob_bytes box + nm_size mem f \<le> kNoteOutboxMaxBytes"
      "box' = box\<lparr>ob_frames := ob_frames box @ [(f, nm_size mem f)], ob_bytes := ob_bytes box + nm_size mem f\<rparr>"
proof (cases "ob_stopped box")
  case True
  then show ?thesis using assms kept by (simp add: queue_frame_def)
next
  case run: False
  show ?thesis
  proof (cases "List.extract (\<lambda>c. frames_coalesce (fst c) f) (ob_frames box)")
    case None
    then have n: "\<forall>c\<in>set (ob_frames box). \<not> frames_coalesce (fst c) f" by (simp add: extract_None_iff)
    show ?thesis
    proof (cases "kNoteOutboxMaxFrames \<le> length (ob_frames box) \<or> kNoteOutboxMaxBytes < nm_size mem f \<or>
        kNoteOutboxMaxBytes - nm_size mem f < ob_bytes box")
      case True
      then show ?thesis using assms run None overflow by (auto simp: queue_frame_def Let_def)
    next
      case False
      show ?thesis by (rule added) (use assms run None False n in \<open>auto simp: queue_frame_def Let_def\<close>)
    qed
  next
    case (Some x)
    obtain pre g n post where x: "x = (pre, (g, n), post)" by (metis surj_pair)
    have s: "ob_frames box = pre @ (g, n) # post" "frames_coalesce g f" using Some x by (auto simp: extract_Some_iff)
    have q: "queue_frame mem f box =
        (if nf_revision f < nf_revision g then (True, box)
         else if kNoteOutboxMaxBytes < nm_size mem f \<or> kNoteOutboxMaxBytes - nm_size mem f < less_bytes (ob_bytes box) n
         then (False, outbox_overflow box)
         else (True, box\<lparr>ob_frames := pre @ (f, nm_kept mem n (nm_size mem f)) # post,
                         ob_bytes := less_bytes (ob_bytes box) n + nm_size mem f\<rparr>))"
      using run Some x by (simp add: queue_frame_def Let_def)
    show ?thesis
    proof (cases "nf_revision f < nf_revision g")
      case True
      then show ?thesis using assms s kept by (auto simp: q outbox_frames_def)
    next
      case newer: False
      show ?thesis
      proof (cases "kNoteOutboxMaxBytes < nm_size mem f \<or> kNoteOutboxMaxBytes - nm_size mem f < less_bytes (ob_bytes box) n")
        case True
        then show ?thesis using assms newer overflow by (auto simp: q)
      next
        case False
        show ?thesis by (rule replaced [OF _ s]) (use assms newer False in \<open>auto simp: q\<close>)
      qed
    qed
  qed
qed

interpretation outbox: replacing_queue "queue_frame mem" take_frame outbox_frames older_frame
proof unfold_locales
  fix f g h :: note_frame and box box' and b
  show "older_frame f f" by (simp add: older_frame_def)
  show "older_frame f g \<Longrightarrow> older_frame g h \<Longrightarrow> older_frame f h"
    by (rule older_frame_trans)
  show "\<exists>h\<in>set (outbox_frames box'). older_frame g h"
    if q: "queue_frame mem f box = (True, box')" and g: "g \<in> insert f (set (outbox_frames box))"
    using q
  proof (cases rule: queue_frame_cases)
    case kept
    then obtain e where "e \<in> set (outbox_frames box)" "frames_coalesce f e" "nf_revision f < nf_revision e"
      using frames_coalesce_sym by blast
    then show ?thesis using g kept(1) by (auto simp: older_frame_def)
  next
    case (replaced pre e n post)
    then show ?thesis using g by (auto simp: outbox_frames_def older_frame_def)
  next
    case added
    then show ?thesis using g by (auto simp: outbox_frames_def older_frame_def)
  qed simp
  show "set (outbox_frames box') \<subseteq> insert f (set (outbox_frames box))" if q: "queue_frame mem f box = (b, box')"
    using q by (cases rule: queue_frame_cases) (auto simp: outbox_frames_def outbox_overflow_def)
  show "take_frame box = Some (f, box') \<Longrightarrow> outbox_frames box = f # outbox_frames box'"
    by (auto simp: take_frame_def outbox_frames_def split: if_splits list.splits)
qed


section \<open>The limits of the queue\<close>

definition outbox_ok :: "note_outbox \<Rightarrow> bool" where
  "outbox_ok box \<longleftrightarrow>
     length (ob_frames box) \<le> kNoteOutboxMaxFrames \<and> ob_bytes box \<le> kNoteOutboxMaxBytes \<and>
     sorted_wrt (\<lambda>c d. \<not> frames_coalesce (fst c) (fst d)) (ob_frames box)"

text \<open>The count of bytes is that of the queued frames.\<close>

definition outbox_counted :: "note_outbox \<Rightarrow> bool" where
  "outbox_counted box \<longleftrightarrow> ob_bytes box = sum_list (map snd (ob_frames box))"

datatype outbox_event = Queue note_frame | Take

definition outbox_step :: "note_memory \<Rightarrow> outbox_event \<Rightarrow> note_outbox \<Rightarrow> note_outbox" where
  "outbox_step mem e box =
     (case e of
        Queue f \<Rightarrow> snd (queue_frame mem f box)
      | Take \<Rightarrow> (case take_frame box of None \<Rightarrow> box | Some (_, box) \<Rightarrow> box))"

definition outbox_run :: "note_memory \<Rightarrow> outbox_event list \<Rightarrow> note_outbox" where
  "outbox_run mem es = fold (outbox_step mem) es empty_outbox"

lemma coalesce_same: "frames_coalesce g f \<Longrightarrow> frames_coalesce x f = frames_coalesce x g \<and> frames_coalesce f x = frames_coalesce g x"
proof -
  assume gf: "frames_coalesce g f"
  note fg = frames_coalesce_sym [OF gf]
  have "frames_coalesce x f" if "frames_coalesce x g" by (rule frames_coalesce_trans [OF that gf])
  moreover have "frames_coalesce x g" if "frames_coalesce x f" by (rule frames_coalesce_trans [OF that fg])
  moreover have "frames_coalesce f x" if "frames_coalesce g x" by (rule frames_coalesce_trans [OF fg that])
  moreover have "frames_coalesce g x" if "frames_coalesce f x" by (rule frames_coalesce_trans [OF gf that])
  ultimately show ?thesis by blast
qed

lemma coalesce_replaced:
  "frames_coalesce g f \<Longrightarrow> sorted_wrt (\<lambda>c d. \<not> frames_coalesce (fst c) (fst d)) (pre @ (g, n) # post) \<Longrightarrow>
   sorted_wrt (\<lambda>c d. \<not> frames_coalesce (fst c) (fst d)) (pre @ (f, m) # post)"
  using coalesce_same [of g f] by (simp add: sorted_wrt_append)

lemma queue_frame_ok: "outbox_ok box \<Longrightarrow> outbox_ok (snd (queue_frame mem f box))"
proof -
  assume ok: "outbox_ok box"
  obtain b box' where q: "queue_frame mem f box = (b, box')" by (meson surj_pair)
  then have "outbox_ok box'"
  proof (cases rule: queue_frame_cases)
    case (replaced pre g n post)
    then show ?thesis using ok coalesce_replaced [of g f pre n post] by (simp add: outbox_ok_def)
  qed (use ok in \<open>auto simp: outbox_ok_def outbox_overflow_def sorted_wrt_append\<close>)
  then show ?thesis using q by simp
qed

lemma queue_frame_counted:
  assumes "\<And>a b. nm_kept mem a b = b" "outbox_counted box"
  shows "outbox_counted (snd (queue_frame mem f box))"
proof -
  obtain b box' where q: "queue_frame mem f box = (b, box')" by (meson surj_pair)
  then have "outbox_counted box'"
    by (cases rule: queue_frame_cases) (use assms in \<open>auto simp: outbox_counted_def outbox_overflow_def less_bytes_def\<close>)
  then show ?thesis using q by simp
qed

lemma take_frame_ok: "take_frame box = Some (f, box') \<Longrightarrow> (outbox_ok box \<longrightarrow> outbox_ok box') \<and> (outbox_counted box \<longrightarrow> outbox_counted box')"
  by (auto simp: take_frame_def outbox_ok_def outbox_counted_def less_bytes_def split: if_splits list.splits)

lemma outbox_run_ok: "outbox_ok (outbox_run mem es)"
proof (induction es rule: rev_induct)
  case (snoc e es)
  then show ?case
    using queue_frame_ok take_frame_ok [of "outbox_run mem es"]
    by (auto simp: outbox_run_def outbox_step_def split: outbox_event.splits option.splits)
qed (simp add: outbox_run_def empty_outbox_def outbox_ok_def)

lemma outbox_run_counted: "(\<And>a b. nm_kept mem a b = b) \<Longrightarrow> outbox_counted (outbox_run mem es)"
proof (induction es rule: rev_induct)
  case (snoc e es)
  then show ?case
    using queue_frame_counted [of mem "outbox_run mem es"] take_frame_ok [of "outbox_run mem es"]
    by (auto simp: outbox_run_def outbox_step_def split: outbox_event.splits option.splits)
qed (simp add: outbox_run_def empty_outbox_def outbox_counted_def)

text \<open>
  C28: The queue of outgoing note frames is bounded. After any sequence of queued and sent frames it holds at most
  128 frames and counts at most 8 MiB, no two waiting frames are edits, or acknowledgements, of the same pad, and
  the count is the size of the waiting frames if moving a frame into the queue moves its size with it.
\<close>

theorem outbox_bounded:
  assumes "outbox_run mem es = box"
  shows "length (ob_frames box) \<le> kNoteOutboxMaxFrames \<and> ob_bytes box \<le> kNoteOutboxMaxBytes \<and>
    (\<forall>j<length (ob_frames box). \<forall>i<j. \<not> frames_coalesce (fst (ob_frames box ! i)) (fst (ob_frames box ! j))) \<and>
    ((\<forall>a b. nm_kept mem a b = b) \<longrightarrow> ob_bytes box = sum_list (map snd (ob_frames box)))"
  using outbox_run_ok [of mem es] outbox_run_counted [of mem es] assms
  by (auto simp: outbox_ok_def outbox_counted_def sorted_wrt_iff_nth_less)

lemmas outbox_run_simps =
  outbox_run_def outbox_step_def queue_frame_def empty_outbox_def frames_coalesce_def is_note_edit_def less_bytes_def
  new_note_frame_def make_note_ack_def normalized_pad_id_def kNoteOutboxMaxBytes_def kNoteOutboxMaxFrames_def
  extract_Cons_code extract_Nil_code

definition plain_memory :: note_memory where
  "plain_memory = \<lparr>nm_size = (\<lambda>f. 200 + length (nf_text f)), nm_kept = (\<lambda>a b. b)\<rparr>"

definition plain_events :: "outbox_event list" where
  "plain_events =
     [Queue ((new_note_frame 1)\<lparr>nf_revision := 1, nf_text := ''ab''\<rparr>), Queue ((new_note_frame 2)\<lparr>nf_revision := 2, nf_text := ''abc''\<rparr>),
      Queue (make_note_ack 3 ''main'' 1)]"

theorem outbox_bounded_witness:
  "ob_bytes (outbox_run plain_memory plain_events) = 403 \<and>
   sum_list (map snd (ob_frames (outbox_run plain_memory plain_events))) = 403"
proof -
  have "ob_bytes (outbox_run plain_memory plain_events) = 403"
    by (simp add: outbox_run_simps plain_memory_def plain_events_def)
  then show ?thesis using outbox_bounded [OF refl, of plain_memory plain_events] by (simp add: plain_memory_def)
qed

text \<open>
  The limit of bytes can be passed. A string library may keep the storage of a replaced string, as usual ones do for a
  short string moved into a long one; the kept storage is not counted, so the waiting frames can hold more than the limit.
\<close>

theorem kept_storage_is_not_counted:
  "\<exists>box. outbox_run \<lparr>nm_size = (\<lambda>f. 200 + 1048576 * length (nf_text f)), nm_kept = max\<rparr>
     (concat (map (\<lambda>p. [Queue ((new_note_frame 1)\<lparr>nf_revision := 1, nf_pad_id := p, nf_text := ''a''\<rparr>),
                      Queue ((new_note_frame 1)\<lparr>nf_revision := 2, nf_pad_id := p, nf_text := []\<rparr>)])
        [''a'', ''b'', ''c'', ''d'', ''e'', ''f'', ''g'', ''h'', ''i''])) = box \<and>
     \<not> ob_stopped box \<and> ob_bytes box = 1800 \<and> kNoteOutboxMaxBytes < sum_list (map snd (ob_frames box))"
  by (simp add: outbox_run_simps)

section \<open>A side of a session\<close>

datatype user_op = UpdateActive u64 string | ClearActive u64 | CreatePad u64 | SelectPad string

text \<open>
  \<open>si_pending\<close> are frames of threads that have not yet called \<open>queue_frame\<close>, \<open>si_sent\<close> the frames given to the
  channel and \<open>si_received\<close> the number of the peer's frames handled. The last two fields are history: all frames made here,
  and the edits merged into the workspace.
\<close>

record note_side =
  si_workspace :: note_workspace
  si_pending :: "note_frame list"
  si_outbox :: note_outbox
  si_sent :: "note_frame list"
  si_received :: nat
  si_offered :: "note_frame list"
  si_log :: "note_frame list"

definition new_side :: "string \<Rightarrow> note_side" where
  "new_side writer_id = \<lparr>si_workspace = new_workspace writer_id, si_pending = [], si_outbox = empty_outbox, si_sent = [],
     si_received = 0, si_offered = [], si_log = []\<rparr>"

definition user_edit :: "user_op \<Rightarrow> note_workspace \<Rightarrow> note_frame list \<times> note_workspace" where
  "user_edit op ws =
     (case op of
        SelectPad p \<Rightarrow> ([], snd (select_pad p ws))
      | _ \<Rightarrow>
         (case (case op of UpdateActive now t \<Rightarrow> update_active now t ws | ClearActive now \<Rightarrow> clear_active now ws
                | CreatePad now \<Rightarrow> create_pad now ws) of
            (Inl _, ws) \<Rightarrow> ([], ws)
          | (Inr f, ws) \<Rightarrow> ([f], ws)))"

definition session_edit :: "user_op \<Rightarrow> note_side \<Rightarrow> note_side" where
  "session_edit op s =
     (case user_edit op (si_workspace s) of (fs, ws) \<Rightarrow>
        s\<lparr>si_workspace := ws, si_pending := si_pending s @ fs, si_offered := si_offered s @ fs, si_log := si_log s @ fs\<rparr>)"

definition stop_side :: "note_side \<Rightarrow> note_side" where
  "stop_side s = s\<lparr>si_outbox := (si_outbox s)\<lparr>ob_stopped := True\<rparr>\<rparr>"

text \<open>The body of the receiving loop for one frame.\<close>

definition session_receive :: "u64 \<Rightarrow> note_frame \<Rightarrow> note_side \<Rightarrow> note_side" where
  "session_receive now f s =
     (let s = s\<lparr>si_received := si_received s + 1\<rparr> in
      if nf_type f = Bye then stop_side s
      else
        let s = (if nf_type f = NoteAck then s\<lparr>si_workspace := acknowledge f (si_workspace s)\<rparr>
                 else s\<lparr>si_workspace := snd (apply_remote f (si_workspace s))\<rparr>)
        in if is_note_edit f then
             let ack = make_note_ack now (nf_pad_id f) (nf_revision f) in
             s\<lparr>si_pending := si_pending s @ [ack], si_offered := si_offered s @ [ack], si_log := si_log s @ [f]\<rparr>
           else s)"

definition session_queue :: "note_memory \<Rightarrow> nat \<Rightarrow> note_side \<Rightarrow> note_side" where
  "session_queue mem i s =
     s\<lparr>si_pending := take i (si_pending s) @ drop (Suc i) (si_pending s),
       si_outbox := snd (queue_frame mem (si_pending s ! i) (si_outbox s))\<rparr>"

definition session_send :: "note_side \<Rightarrow> note_side" where
  "session_send s =
     (case take_frame (si_outbox s) of
        None \<Rightarrow> s
      | Some (f, box) \<Rightarrow> s\<lparr>si_outbox := box, si_sent := si_sent s @ [f]\<rparr>)"

text \<open>One step of a side; \<open>sent\<close> are the frames that the peer has sent so far.\<close>

inductive side_step :: "note_memory \<Rightarrow> note_frame list \<Rightarrow> note_side \<Rightarrow> note_side \<Rightarrow> bool" where
  Edit: "side_step mem sent s (session_edit op s)"
| Queues: "i < length (si_pending s) \<Longrightarrow> side_step mem sent s (session_queue mem i s)"
| Sends: "side_step mem sent s (session_send s)"
| Receives: "si_received s < length sent \<Longrightarrow> \<not> ob_stopped (si_outbox s) \<Longrightarrow>
    side_step mem sent s (session_receive now (sent ! si_received s) s)"
| Stops: "side_step mem sent s (stop_side s)"

inductive note_reach :: "note_memory \<Rightarrow> string \<Rightarrow> string \<Rightarrow> note_side \<Rightarrow> note_side \<Rightarrow> bool" where
  Start: "note_reach mem w v (new_side w) (new_side v)"
| First: "note_reach mem w v a b \<Longrightarrow> side_step mem (si_sent b) a a' \<Longrightarrow> note_reach mem w v a' b"
| Second: "note_reach mem w v a b \<Longrightarrow> side_step mem (si_sent a) b b' \<Longrightarrow> note_reach mem w v a b'"

end
