(* ===== verification/Note_Convergence.thy ===== *)
theory Note_Convergence
  imports Note_Session
begin

text \<open>
  Two sides of a note session agree: whatever the interleaving of their threads, once everything is sent and
  handled both show the same texts, and a side that shows that it is synchronized has been heard.
\<close>

section \<open>The invariant of a side\<close>

definition side_edits :: "note_side \<Rightarrow> note_frame set" where
  "side_edits s = {f \<in> set (si_offered s). is_note_edit f}"

definition no_wrap :: "note_side \<Rightarrow> bool" where
  "no_wrap s \<longleftrightarrow> (\<forall>f\<in>side_edits s. nf_revision f \<noteq> 0)"

text \<open>The frames handled so far are \<open>R\<close>. What is written are the edits made here and those received.\<close>

definition contents_ok :: "note_side \<Rightarrow> note_frame list \<Rightarrow> bool" where
  "contents_ok s R \<longleftrightarrow>
     workspace_ok (si_workspace s) \<and>
     pad_stamp (si_workspace s) = fold merge_edit (si_log s) (pad_stamp (new_workspace [])) \<and>
     set (si_log s) = side_edits s \<union> {f \<in> set R. is_note_edit f} \<and>
     (\<forall>f\<in>side_edits s. nf_pad_id f \<noteq> [])"

text \<open>On a pad the revisions made here order the edits; the noted revision is that of the latest.\<close>

definition ordered_edits :: "note_side \<Rightarrow> bool" where
  "ordered_edits s \<longleftrightarrow>
     (\<forall>f\<in>side_edits s. \<forall>g\<in>side_edits s.
        nf_pad_id f = nf_pad_id g \<longrightarrow> nf_revision f \<le> nf_revision g \<longrightarrow> frame_stamp f \<le> frame_stamp g) \<and>
     (\<forall>f\<in>side_edits s. \<exists>r. map_of (nw_local_revisions (si_workspace s)) (nf_pad_id f) = Some r \<and> nf_revision f \<le> r)"

definition noted_revisions :: "note_side \<Rightarrow> bool" where
  "noted_revisions s \<longleftrightarrow>
     omap_ok (nw_local_revisions (si_workspace s)) \<and>
     (\<forall>p r. map_of (nw_local_revisions (si_workspace s)) p = Some r \<longrightarrow> (\<exists>f\<in>side_edits s. nf_pad_id f = p \<and> nf_revision f = r))"

definition is_ack_of :: "note_frame \<Rightarrow> note_frame \<Rightarrow> bool" where
  "is_ack_of a f \<longleftrightarrow>
     nf_type a = NoteAck \<and> is_note_edit f \<and> nf_pad_id a = normalized_pad_id (nf_pad_id f) \<and> nf_revision a = nf_revision f"

definition acks_ok :: "note_side \<Rightarrow> note_frame list \<Rightarrow> bool" where
  "acks_ok s R \<longleftrightarrow>
     (\<forall>a\<in>set (si_offered s). is_note_edit a \<or> (\<exists>f\<in>set R. is_ack_of a f)) \<and>
     (\<forall>f\<in>set R. is_note_edit f \<longrightarrow> (\<exists>a\<in>set (si_offered s). is_ack_of a f))"

text \<open>The acknowledged revisions are the greatest received.\<close>

definition acked_ok :: "note_side \<Rightarrow> note_frame list \<Rightarrow> bool" where
  "acked_ok s R \<longleftrightarrow>
     (\<forall>p r. map_of (nw_acked_revisions (si_workspace s)) p = Some r \<longrightarrow>
        (\<exists>a\<in>set R. nf_type a = NoteAck \<and> normalized_pad_id (nf_pad_id a) = p \<and> nf_revision a = r)) \<and>
     (\<forall>a\<in>set R. nf_type a = NoteAck \<longrightarrow>
        (\<exists>r. map_of (nw_acked_revisions (si_workspace s)) (normalized_pad_id (nf_pad_id a)) = Some r \<and> nf_revision a \<le> r))"

definition waiting :: "note_side \<Rightarrow> note_frame set" where
  "waiting s = set (si_pending s) \<union> set (outbox_frames (si_outbox s)) \<union> set (si_sent s)"

definition queue_ok :: "note_side \<Rightarrow> bool" where
  "queue_ok s \<longleftrightarrow>
     waiting s \<subseteq> set (si_offered s) \<and>
     (\<not> ob_stopped (si_outbox s) \<longrightarrow> (\<forall>f\<in>set (si_offered s). \<exists>g\<in>waiting s. older_frame f g))"

section \<open>Edits\<close>

lemma user_edit_cases:
  assumes "workspace_ok ws" "user_edit op ws = (fs, ws')"
  shows "(fs = [] \<and> contents_kept ws ws') \<or> (\<exists>f. fs = [f] \<and> edit_made f ws ws')"
proof -
  have r: ?thesis
    if "edited r ws ws1" "(case (r, ws1) of (Inl _, ws) \<Rightarrow> ([], ws) | (Inr f, ws) \<Rightarrow> ([f], ws)) = (fs, ws')" for r ws1
    using that by (cases r) (auto simp: edited_def)
  show ?thesis
  proof (cases op)
    case (SelectPad p)
    then show ?thesis using assms select_pad_keeps [OF assms(1), of p] by (auto simp: user_edit_def)
  next
    case (UpdateActive now t)
    obtain r ws1 where u: "update_active now t ws = (r, ws1)" by (meson surj_pair)
    show ?thesis using assms(2) by (intro r [OF update_active_edits [OF assms(1) u]]) (simp add: user_edit_def UpdateActive u)
  next
    case (ClearActive now)
    obtain r ws1 where u: "clear_active now ws = (r, ws1)" by (meson surj_pair)
    show ?thesis using assms(2) by (intro r [OF clear_active_edits [OF assms(1) u]]) (simp add: user_edit_def ClearActive u)
  next
    case (CreatePad now)
    obtain r ws1 where u: "create_pad now ws = (r, ws1)" by (meson surj_pair)
    show ?thesis using assms(2) by (intro r [OF create_pad_edits [OF assms(1) u]]) (simp add: user_edit_def CreatePad u)
  qed
qed

lemma word_successor: "(x :: u64) + 1 \<noteq> 0 \<Longrightarrow> x < x + 1"
  using unatSuc [of x] by (simp add: word_less_nat_alt add.commute)

lemma revision_le: "s \<le> t \<Longrightarrow> fst s \<le> fst (t :: stamp)"
  by (cases s; cases t) (auto simp: less_eq_prod_def)

lemma revision_less: "fst s < fst t \<Longrightarrow> s \<le> (t :: stamp)"
  by (cases s; cases t) (auto simp: less_eq_prod_def)

lemma fst_frame_stamp [simp]: "fst (frame_stamp f) = nf_revision f"
  by (simp add: frame_stamp_def)

lemma log_known:
  assumes "contents_ok s R" "f \<in> set (si_log s)" "normalized_pad_id (nf_pad_id f) = p"
  shows "frame_stamp f \<le> known_stamp (pad_stamp (si_workspace s) p)"
  using assms merged_is_bound(2) [of f "si_log s" p] by (simp add: contents_ok_def)

lemma edit_contents:
  assumes "contents_ok s R" "edit_made f (si_workspace s) ws"
    "s' = s\<lparr>si_workspace := ws, si_pending := si_pending s @ [f], si_offered := si_offered s @ [f], si_log := si_log s @ [f]\<rparr>"
  shows "contents_ok s' R \<and> side_edits s' = insert f (side_edits s)"
proof -
  have e: "side_edits s' = insert f (side_edits s)" using assms(2,3) by (auto simp: side_edits_def edit_made_def)
  have "set (si_log s') = insert f (set (si_log s))" using assms(3) by simp
  then have "set (si_log s') = side_edits s' \<union> {f \<in> set R. is_note_edit f}"
    unfolding e using assms(1) by (simp add: contents_ok_def)
  moreover have "\<forall>f\<in>side_edits s'. nf_pad_id f \<noteq> []" using assms(1,2) by (simp add: e contents_ok_def edit_made_def)
  ultimately show ?thesis using assms e by (simp add: contents_ok_def edit_made_def)
qed

lemma edit_ordered:
  assumes "contents_ok s R" "ordered_edits s" "edit_made f (si_workspace s) ws" "nf_revision f \<noteq> 0"
    "side_edits s' = insert f (side_edits s)" "si_workspace s' = ws"
  shows "ordered_edits s'"
proof -
  have new: "nf_revision g < nf_revision f" if "g \<in> side_edits s" "nf_pad_id g = nf_pad_id f" for g
  proof -
    have "nf_pad_id f \<noteq> []" and r: "nf_revision f = fst (known_stamp (pad_stamp (si_workspace s) (nf_pad_id f))) + 1"
      using assms(3) by (simp_all add: edit_made_def)
    then have "frame_stamp g \<le> known_stamp (pad_stamp (si_workspace s) (nf_pad_id f))"
      using that assms(1) by (intro log_known) (auto simp: contents_ok_def normalized_same)
    from revision_le [OF this] have "nf_revision g \<le> fst (known_stamp (pad_stamp (si_workspace s) (nf_pad_id f)))" by simp
    also have "\<dots> < nf_revision f" unfolding r by (rule word_successor) (use assms(4) r in simp)
    finally show ?thesis .
  qed
  have l: "nw_local_revisions ws = omap_put (nf_pad_id f) (nf_revision f) (nw_local_revisions (si_workspace s))"
    using assms(3) by (simp add: edit_made_def)
  have "frame_stamp g \<le> frame_stamp h"
    if gh: "g \<in> side_edits s'" "h \<in> side_edits s'" "nf_pad_id g = nf_pad_id h" "nf_revision g \<le> nf_revision h" for g h
  proof (cases "g = f")
    case True
    then have "h = f" using gh new [of h] assms(5) by (cases "h = f") auto
    then show ?thesis using True by simp
  next
    case False
    then have g: "g \<in> side_edits s" using gh assms(5) by simp
    show ?thesis
    proof (cases "h = f")
      case True
      then show ?thesis using new [OF g] gh(3) by (intro revision_less) simp
    next
      case False
      then show ?thesis using g gh assms(2,5) by (auto simp: ordered_edits_def)
    qed
  qed
  moreover have "\<exists>r. map_of (nw_local_revisions ws) (nf_pad_id g) = Some r \<and> nf_revision g \<le> r" if "g \<in> side_edits s'" for g
  proof (cases "nf_pad_id g = nf_pad_id f")
    case True
    then have "nf_revision g \<le> nf_revision f" using that new [of g] assms(5) by (cases "g = f") auto
    then show ?thesis using True by (simp add: l)
  next
    case False
    then have "g \<in> side_edits s" using that assms(5) by auto
    then show ?thesis using False assms(2) by (simp add: l ordered_edits_def)
  qed
  ultimately show ?thesis using assms(6) by (simp add: ordered_edits_def)
qed

lemma edit_noted:
  assumes "noted_revisions s" "edit_made f (si_workspace s) ws" "side_edits s' = insert f (side_edits s)" "si_workspace s' = ws"
  shows "noted_revisions s'"
proof -
  have l: "nw_local_revisions ws = omap_put (nf_pad_id f) (nf_revision f) (nw_local_revisions (si_workspace s))"
    using assms(2) by (simp add: edit_made_def)
  show ?thesis using assms(1,3,4) by (auto simp: noted_revisions_def l split: if_splits)
qed

lemma older_self [simp]: "older_frame f f"
  by (simp add: older_frame_def)

lemma edit_queued:
  assumes "queue_ok s" "waiting s' = insert f (waiting s)" "set (si_offered s') = insert f (set (si_offered s))"
    "ob_stopped (si_outbox s') = ob_stopped (si_outbox s)"
  shows "queue_ok s'"
  unfolding queue_ok_def
proof (intro conjI impI ballI)
  show "waiting s' \<subseteq> set (si_offered s')" using assms by (auto simp: queue_ok_def)
  fix g assume "\<not> ob_stopped (si_outbox s')" "g \<in> set (si_offered s')"
  then show "\<exists>h\<in>waiting s'. older_frame g h" using assms older_self [of f] by (cases "g = f") (auto simp: queue_ok_def)
qed

section \<open>The invariant is kept\<close>

definition side_ok :: "note_side \<Rightarrow> note_frame list \<Rightarrow> bool" where
  "side_ok s R \<longleftrightarrow>
     contents_ok s R \<and> noted_revisions s \<and> (no_wrap s \<longrightarrow> ordered_edits s) \<and> acks_ok s R \<and> acked_ok s R \<and> queue_ok s"

lemma new_side_ok: "side_ok (new_side w) []"
proof -
  have "pad_stamp (new_workspace w) = pad_stamp (new_workspace [])"
    by (simp add: pad_stamp_def new_workspace_def ensure_pad_def Let_def fun_eq_iff)
  moreover have "nw_local_revisions (new_workspace w) = []" "nw_acked_revisions (new_workspace w) = []"
    by (simp_all add: new_workspace_def ensure_pad_def Let_def)
  ultimately show ?thesis
    using new_workspace_ok [of w]
    by (simp add: side_ok_def contents_ok_def noted_revisions_def ordered_edits_def acks_ok_def acked_ok_def queue_ok_def
        new_side_def side_edits_def waiting_def empty_outbox_def outbox_frames_def)
qed

lemma workspace_replaced [simp]:
  "side_edits (s\<lparr>si_workspace := ws\<rparr>) = side_edits s" "waiting (s\<lparr>si_workspace := ws\<rparr>) = waiting s"
  "no_wrap (s\<lparr>si_workspace := ws\<rparr>) = no_wrap s"
  by (simp_all add: side_edits_def waiting_def no_wrap_def)

lemma contents_kept_ok:
  assumes "side_ok s R" "contents_kept (si_workspace s) ws"
  shows "side_ok (s\<lparr>si_workspace := ws\<rparr>) R"
proof -
  have k: "pad_stamp ws = pad_stamp (si_workspace s)" "workspace_ok ws" "nw_local_revisions ws = nw_local_revisions (si_workspace s)"
    "nw_acked_revisions ws = nw_acked_revisions (si_workspace s)"
    using assms(2) by (simp_all add: contents_kept_def)
  show ?thesis
    using assms(1) by (simp add: k side_ok_def contents_ok_def noted_revisions_def ordered_edits_def acks_ok_def acked_ok_def queue_ok_def)
qed

lemma session_edit_ok:
  assumes "side_ok s R"
  shows "side_ok (session_edit op s) R"
proof -
  obtain fs ws where u: "user_edit op (si_workspace s) = (fs, ws)" by (meson surj_pair)
  let ?s = "s\<lparr>si_workspace := ws, si_pending := si_pending s @ fs, si_offered := si_offered s @ fs, si_log := si_log s @ fs\<rparr>"
  have s: "session_edit op s = ?s" using u by (simp add: session_edit_def)
  have c: "contents_ok s R" "noted_revisions s" "no_wrap s \<longrightarrow> ordered_edits s" "acks_ok s R" "acked_ok s R" "queue_ok s"
    using assms by (simp_all add: side_ok_def)
  have ok: "workspace_ok (si_workspace s)" using c(1) by (simp add: contents_ok_def)
  from user_edit_cases [OF ok u] show ?thesis unfolding s
  proof (elim disjE exE conjE)
    assume k: "fs = []" "contents_kept (si_workspace s) ws"
    then have "?s = s\<lparr>si_workspace := ws\<rparr>" by simp
    then show "side_ok ?s R" using contents_kept_ok [OF assms k(2)] by simp
  next
    fix f assume k: "fs = [f]" "edit_made f (si_workspace s) ws"
    have e: "contents_ok ?s R" "side_edits ?s = insert f (side_edits s)" using edit_contents [OF c(1) k(2) refl] k(1) by simp_all
    have n: "no_wrap ?s \<longleftrightarrow> no_wrap s \<and> nf_revision f \<noteq> 0" by (auto simp: no_wrap_def e(2))
    have "no_wrap ?s \<longrightarrow> ordered_edits ?s" using edit_ordered [OF c(1) _ k(2) _ e(2)] c(3) n by simp
    moreover have "noted_revisions ?s" by (rule edit_noted [OF c(2) k(2) e(2)]) simp
    moreover have "acked_ok ?s R" using c(5) k(2) by (simp add: acked_ok_def edit_made_def)
    moreover have "acks_ok ?s R" using c(4) k by (auto simp: acks_ok_def edit_made_def)
    moreover have "queue_ok ?s" by (rule edit_queued [OF c(6), of _ f]) (use k(1) in \<open>auto simp: waiting_def\<close>)
    ultimately show "side_ok ?s R" using e(1) by (simp add: side_ok_def)
  qed
qed

lemma queue_frame_running: "queue_frame mem f box = (b, box') \<Longrightarrow> \<not> ob_stopped box' \<Longrightarrow> b \<and> \<not> ob_stopped box"
  by (auto simp: queue_frame_def Let_def outbox_overflow_def split: if_splits option.splits prod.splits)

lemma outbox_replaced_ok:
  assumes "side_ok s R" "queue_ok s'" "si_workspace s' = si_workspace s" "si_offered s' = si_offered s" "si_log s' = si_log s"
  shows "side_ok s' R"
proof -
  have "side_edits s' = side_edits s" "no_wrap s' = no_wrap s" using assms(4) by (simp_all add: side_edits_def no_wrap_def)
  then show ?thesis
    using assms by (simp add: side_ok_def contents_ok_def noted_revisions_def ordered_edits_def acks_ok_def acked_ok_def)
qed

lemma session_queue_ok:
  assumes "side_ok s R" "i < length (si_pending s)"
  shows "side_ok (session_queue mem i s) R"
proof (rule outbox_replaced_ok [OF assms(1)])
  let ?x = "si_pending s ! i"
  let ?rest = "take i (si_pending s) @ drop (Suc i) (si_pending s)"
  obtain b box where q: "queue_frame mem ?x (si_outbox s) = (b, box)" by (meson surj_pair)
  have "si_pending s = take i (si_pending s) @ ?x # drop (Suc i) (si_pending s)" by (rule id_take_nth_drop [OF assms(2)])
  then have "set (si_pending s) = insert ?x (set ?rest)" by (metis (no_types, lifting) Un_insert_right list.simps(15) set_append)
  then have w: "waiting s = insert ?x (set ?rest \<union> set (outbox_frames (si_outbox s)) \<union> set (si_sent s))"
    unfolding waiting_def by blast
  have w': "waiting (session_queue mem i s) = set ?rest \<union> set (outbox_frames box) \<union> set (si_sent s)"
    using q by (simp add: waiting_def session_queue_def)
  have ok: "queue_ok s" using assms(1) by (simp add: side_ok_def)
  have "set (outbox_frames box) \<subseteq> insert ?x (set (outbox_frames (si_outbox s)))" by (rule outbox.offer_adds [OF q])
  then have "waiting (session_queue mem i s) \<subseteq> waiting s" unfolding w w' by blast
  moreover have "outbox.covered (set (si_offered s)) (waiting (session_queue mem i s))" if "\<not> ob_stopped box"
  proof -
    have b: "b" "\<not> ob_stopped (si_outbox s)" using queue_frame_running [OF q that] by simp_all
    have "outbox.covered (set (si_offered s)) (waiting s)" using ok b(2) by (simp add: outbox.covered_def queue_ok_def)
    then show ?thesis unfolding w w' by (rule outbox.covered_offer) (use q b(1) in simp)
  qed
  ultimately show "queue_ok (session_queue mem i s)"
    using ok q by (auto simp: queue_ok_def outbox.covered_def session_queue_def)
qed (simp_all add: session_queue_def)

lemma session_send_ok:
  assumes "side_ok s R"
  shows "side_ok (session_send s) R"
proof (cases "take_frame (si_outbox s)")
  case None
  then show ?thesis using assms by (simp add: session_send_def)
next
  case (Some x)
  obtain f box where x: "take_frame (si_outbox s) = Some (f, box)" using Some by (cases x) simp
  have i: "outbox_frames (si_outbox s) = f # outbox_frames box" by (rule outbox.take_first [OF x])
  have "ob_stopped box = ob_stopped (si_outbox s)" using x by (auto simp: take_frame_def split: if_splits list.splits)
  moreover have "waiting (session_send s) = waiting s" using x i by (auto simp: waiting_def session_send_def)
  ultimately have "queue_ok (session_send s)" using assms x by (simp add: side_ok_def queue_ok_def session_send_def)
  then show ?thesis by (rule outbox_replaced_ok [OF assms]) (simp_all add: session_send_def x)
qed

lemma stop_side_ok:
  assumes "side_ok s R"
  shows "side_ok (stop_side s) R"
proof (rule outbox_replaced_ok [OF assms])
  show "queue_ok (stop_side s)"
    using assms by (simp add: side_ok_def queue_ok_def stop_side_def waiting_def outbox_frames_def)
qed (simp_all add: stop_side_def)

section \<open>A received frame\<close>

lemma ack_made: "is_note_edit f \<Longrightarrow> is_ack_of (make_note_ack now (nf_pad_id f) (nf_revision f)) f \<and>
    \<not> is_note_edit (make_note_ack now (nf_pad_id f) (nf_revision f))"
  by (simp add: is_ack_of_def make_note_ack_def new_note_frame_def is_note_edit_def)

lemma receive_edit_ok:
  assumes "side_ok s R" "is_note_edit f"
  shows "side_ok (session_receive now f s) (R @ [f])"
proof -
  let ?a = "make_note_ack now (nf_pad_id f) (nf_revision f)"
  let ?ws = "snd (apply_remote f (si_workspace s))"
  let ?s = "s\<lparr>si_workspace := ?ws, si_pending := si_pending s @ [?a], si_received := Suc (si_received s),
    si_offered := si_offered s @ [?a], si_log := si_log s @ [f]\<rparr>"
  have s: "session_receive now f s = ?s"
    using assms(2) by (auto simp: session_receive_def Let_def is_note_edit_def)
  have c: "contents_ok s R" "noted_revisions s" "no_wrap s \<longrightarrow> ordered_edits s" "acks_ok s R" "acked_ok s R" "queue_ok s"
    using assms(1) by (simp_all add: side_ok_def)
  note a = ack_made [OF assms(2), of now]
  have ok: "workspace_ok (si_workspace s)" using c(1) by (simp add: contents_ok_def)
  note r = apply_remote_merges [OF ok assms(2)]
  have e: "side_edits ?s = side_edits s" "no_wrap ?s = no_wrap s" using a by (auto simp: side_edits_def no_wrap_def)
  have "contents_ok ?s (R @ [f])" unfolding contents_ok_def e using c(1) r assms(2) by (auto simp: contents_ok_def)
  moreover have "noted_revisions ?s" using c(2) r(3) by (simp add: noted_revisions_def e)
  moreover have "no_wrap ?s \<longrightarrow> ordered_edits ?s" using c(3) r(3) by (simp add: ordered_edits_def e)
  moreover have "acks_ok ?s (R @ [f])" using c(4) a by (auto simp: acks_ok_def)
  moreover have "acked_ok ?s (R @ [f])" using c(5) r(4) edit_is_no_ack [OF assms(2)] by (simp add: acked_ok_def)
  moreover have "queue_ok ?s" by (rule edit_queued [OF c(6), of _ ?a]) (auto simp: waiting_def)
  ultimately show ?thesis unfolding s by (simp add: side_ok_def)
qed

lemma acknowledge_acked:
  "nf_type f = NoteAck \<Longrightarrow> nw_acked_revisions (acknowledge f ws) =
     omap_put (normalized_pad_id (nf_pad_id f))
       (case map_of (nw_acked_revisions ws) (normalized_pad_id (nf_pad_id f)) of None \<Rightarrow> nf_revision f | Some r \<Rightarrow> max r (nf_revision f))
       (nw_acked_revisions ws)"
  by (simp add: acknowledge_def Let_def split: option.split)

lemma acked_grows:
  assumes "nf_type f = NoteAck" "acked_ok s R" "si_workspace s' = acknowledge f (si_workspace s)"
  shows "acked_ok s' (R @ [f])"
proof -
  let ?p = "normalized_pad_id (nf_pad_id f)"
  let ?old = "map_of (nw_acked_revisions (si_workspace s))"
  let ?new = "map_of (nw_acked_revisions (si_workspace s'))"
  have new: "?new = ?old(?p \<mapsto> (case ?old ?p of None \<Rightarrow> nf_revision f | Some r \<Rightarrow> max r (nf_revision f)))"
    using acknowledge_acked [OF assms(1), of "si_workspace s"] assms(3) by simp
  have "\<exists>a\<in>set (R @ [f]). nf_type a = NoteAck \<and> normalized_pad_id (nf_pad_id a) = p \<and> nf_revision a = r"
    if r: "?new p = Some r" for p r
  proof (cases "p = ?p \<and> r = nf_revision f")
    case True
    then show ?thesis using assms(1) by auto
  next
    case False
    then have "?old p = Some r" using r by (auto simp: new max_def split: if_splits option.splits)
    then show ?thesis using assms(2) by (auto simp: acked_ok_def)
  qed
  moreover have "\<exists>r. ?new (normalized_pad_id (nf_pad_id a)) = Some r \<and> nf_revision a \<le> r"
    if a: "a \<in> set (R @ [f])" "nf_type a = NoteAck" for a
  proof (cases "a = f")
    case True
    then show ?thesis by (simp add: new split: option.split)
  next
    case False
    then obtain r where "?old (normalized_pad_id (nf_pad_id a)) = Some r" "nf_revision a \<le> r"
      using a assms(2) by (auto simp: acked_ok_def)
    then show ?thesis by (cases "normalized_pad_id (nf_pad_id a) = ?p") (auto simp: new le_max_iff_disj)
  qed
  ultimately show ?thesis by (simp add: acked_ok_def)
qed

lemma receive_ack_ok:
  assumes "side_ok s R" "nf_type f = NoteAck"
  shows "side_ok (session_receive now f s) (R @ [f])"
proof -
  let ?s = "s\<lparr>si_workspace := acknowledge f (si_workspace s), si_received := Suc (si_received s)\<rparr>"
  have n: "\<not> is_note_edit f" using assms(2) edit_is_no_ack by blast
  have s: "session_receive now f s = ?s" using assms(2) n by (simp add: session_receive_def)
  have c: "contents_ok s R" "noted_revisions s" "no_wrap s \<longrightarrow> ordered_edits s" "acks_ok s R" "acked_ok s R" "queue_ok s"
    using assms(1) by (simp_all add: side_ok_def)
  have "workspace_ok (si_workspace s)" using c(1) by (simp add: contents_ok_def)
  note r = acknowledge_keeps [OF this, of f]
  have e: "side_edits ?s = side_edits s" "no_wrap ?s = no_wrap s" "waiting ?s = waiting s"
    by (simp_all add: side_edits_def no_wrap_def waiting_def)
  have "contents_ok ?s (R @ [f])" unfolding contents_ok_def e using c(1) r n by (auto simp: contents_ok_def)
  moreover have "noted_revisions ?s" using c(2) r by (simp add: noted_revisions_def e)
  moreover have "no_wrap ?s \<longrightarrow> ordered_edits ?s" using c(3) r by (simp add: ordered_edits_def e)
  moreover have "acks_ok ?s (R @ [f])" using c(4) n by (auto simp: acks_ok_def)
  moreover have "acked_ok ?s (R @ [f])" by (rule acked_grows [OF assms(2) c(5)]) simp
  moreover have "queue_ok ?s" using c(6) by (simp add: queue_ok_def e)
  ultimately show ?thesis unfolding s by (simp add: side_ok_def)
qed

section \<open>Both sides\<close>

lemma offered_kinds: "side_ok s R \<Longrightarrow> f \<in> set (si_sent s) \<Longrightarrow> f \<in> set (si_offered s) \<and> (is_note_edit f \<or> nf_type f = NoteAck)"
  by (auto simp: side_ok_def queue_ok_def waiting_def acks_ok_def is_ack_of_def)

lemma side_step_ok:
  assumes "side_step mem P s s'" "si_received s \<le> length P" "side_ok s (take (si_received s) P)"
    "\<forall>f\<in>set P. is_note_edit f \<or> nf_type f = NoteAck"
  shows "side_ok s' (take (si_received s') P) \<and> si_received s' \<le> length P \<and> (\<exists>ext. si_sent s' = si_sent s @ ext)"
  using assms
proof (cases rule: side_step.cases)
  case (Edit op)
  then show ?thesis using assms session_edit_ok by (auto simp: session_edit_def split: prod.split)
next
  case (Queues i)
  then show ?thesis using assms session_queue_ok [of s _ i mem] by (auto simp: session_queue_def)
next
  case Sends
  moreover have "si_received (session_send s) = si_received s" "\<exists>ext. si_sent (session_send s) = si_sent s @ ext"
    by (simp_all add: session_send_def split: option.split prod.split)
  ultimately show ?thesis using assms session_send_ok by simp
next
  case (Receives now)
  let ?f = "P ! si_received s"
  have "take (Suc (si_received s)) P = take (si_received s) P @ [?f]" by (rule take_Suc_conv_app_nth [OF Receives(2)])
  moreover have "is_note_edit ?f \<or> nf_type ?f = NoteAck" using assms(4) Receives(2) by simp
  then have "side_ok (session_receive now ?f s) (take (si_received s) P @ [?f])"
    using receive_edit_ok [OF assms(3)] receive_ack_ok [OF assms(3)] by blast
  moreover have "si_received (session_receive now ?f s) = Suc (si_received s)" "si_sent (session_receive now ?f s) = si_sent s"
    by (simp_all add: session_receive_def stop_side_def Let_def)
  ultimately show ?thesis using Receives by simp
next
  case Stops
  then show ?thesis using assms stop_side_ok by (simp add: stop_side_def)
qed

definition sides_ok :: "note_side \<Rightarrow> note_side \<Rightarrow> bool" where
  "sides_ok a b \<longleftrightarrow>
     si_received a \<le> length (si_sent b) \<and> side_ok a (take (si_received a) (si_sent b)) \<and>
     si_received b \<le> length (si_sent a) \<and> side_ok b (take (si_received b) (si_sent a))"

lemma sides_ok_sym: "sides_ok a b \<Longrightarrow> sides_ok b a"
  by (simp add: sides_ok_def)

lemma sides_ok_step:
  assumes "sides_ok a b" "side_step mem (si_sent b) a a'"
  shows "sides_ok a' b"
proof -
  have ok: "si_received a \<le> length (si_sent b)" "side_ok a (take (si_received a) (si_sent b))"
    "si_received b \<le> length (si_sent a)" "side_ok b (take (si_received b) (si_sent a))" using assms(1) by (simp_all add: sides_ok_def)
  have k: "\<forall>f\<in>set (si_sent b). is_note_edit f \<or> nf_type f = NoteAck" using offered_kinds [OF ok(4)] by blast
  have s: "side_ok a' (take (si_received a') (si_sent b))" "si_received a' \<le> length (si_sent b)" "\<exists>ext. si_sent a' = si_sent a @ ext"
    using side_step_ok [OF assms(2) ok(1,2) k] by simp_all
  then obtain ext where "si_sent a' = si_sent a @ ext" by blast
  then show ?thesis using s ok by (simp add: sides_ok_def)
qed

lemma reached_ok: "note_reach mem w v a b \<Longrightarrow> sides_ok a b"
proof (induction rule: note_reach.induct)
  case (Start mem w v)
  show ?case using new_side_ok [of w] new_side_ok [of v] by (simp add: sides_ok_def new_side_def)
next
  case (First mem w v a b a')
  show ?case by (rule sides_ok_step [OF First.IH First.hyps(2)])
next
  case (Second mem w v a b b')
  show ?case by (rule sides_ok_sym [OF sides_ok_step [OF sides_ok_sym [OF Second.IH] Second.hyps(2)]])
qed

definition settled :: "note_side \<Rightarrow> note_side \<Rightarrow> bool" where
  "settled s peer \<longleftrightarrow>
     si_pending s = [] \<and> ob_frames (si_outbox s) = [] \<and> \<not> ob_stopped (si_outbox s) \<and> si_received s = length (si_sent peer)"

lemma settled_sent:
  assumes "side_ok s R" "settled s peer" "f \<in> set (si_offered s)"
  shows "\<exists>g\<in>set (si_sent s). g \<in> set (si_offered s) \<and> older_frame f g"
proof -
  obtain g where "g \<in> waiting s" "older_frame f g" using assms by (auto simp: side_ok_def queue_ok_def settled_def)
  moreover have "waiting s = set (si_sent s)" using assms(2) by (simp add: waiting_def settled_def outbox_frames_def)
  ultimately show ?thesis using assms(1) offered_kinds by blast
qed

lemma older_edit:
  "older_frame f g \<Longrightarrow> is_note_edit f \<Longrightarrow> is_note_edit g \<and> nf_pad_id g = nf_pad_id f \<and> nf_revision f \<le> nf_revision g"
  using edit_is_no_ack by (auto simp: older_frame_def frames_coalesce_iff)

lemma older_ack:
  "older_frame f g \<Longrightarrow> nf_type f = NoteAck \<Longrightarrow> nf_type g = NoteAck \<and> nf_pad_id g = nf_pad_id f \<and> nf_revision f \<le> nf_revision g"
  using edit_is_no_ack by (auto simp: older_frame_def frames_coalesce_iff)

lemma settled_edit_sent:
  assumes "side_ok s R" "settled s peer" "f \<in> side_edits s"
  shows "\<exists>g\<in>set (si_sent s). g \<in> side_edits s \<and> nf_pad_id g = nf_pad_id f \<and> nf_revision f \<le> nf_revision g"
proof -
  have f: "f \<in> set (si_offered s)" "is_note_edit f" using assms(3) by (simp_all add: side_edits_def)
  obtain g where g: "g \<in> set (si_sent s)" "g \<in> set (si_offered s)" "older_frame f g"
    using settled_sent [OF assms(1,2) f(1)] by blast
  have "is_note_edit g \<and> nf_pad_id g = nf_pad_id f \<and> nf_revision f \<le> nf_revision g" by (rule older_edit [OF g(3) f(2)])
  then show ?thesis using g by (intro bexI [of _ g]) (simp_all add: side_edits_def)
qed

lemma settled_covers:
  assumes "sides_ok a b" "no_wrap b" "settled a b" "settled b a"
  shows "covers (set (si_log a)) (set (si_log b))"
  unfolding covers_def
proof
  fix g assume g: "g \<in> set (si_log b)"
  have a: "side_ok a (si_sent b)" and b: "side_ok b (si_sent a)" using assms by (simp_all add: sides_ok_def settled_def)
  have la: "set (si_log a) = side_edits a \<union> {f \<in> set (si_sent b). is_note_edit f}" using a by (simp add: side_ok_def contents_ok_def)
  have lb: "set (si_log b) = side_edits b \<union> {f \<in> set (si_sent a). is_note_edit f}" using b by (simp add: side_ok_def contents_ok_def)
  show "\<exists>f\<in>set (si_log a). normalized_pad_id (nf_pad_id f) = normalized_pad_id (nf_pad_id g) \<and> frame_stamp g \<le> frame_stamp f"
  proof (cases "g \<in> side_edits b")
    case True
    then obtain h where h: "h \<in> set (si_sent b)" "h \<in> side_edits b" "nf_pad_id h = nf_pad_id g" "nf_revision g \<le> nf_revision h"
      using settled_edit_sent [OF b assms(4)] by blast
    have "ordered_edits b" using b assms(2) by (simp add: side_ok_def)
    then have "frame_stamp g \<le> frame_stamp h" using True h by (auto simp: ordered_edits_def)
    moreover have "h \<in> set (si_log a)" using h by (simp add: la side_edits_def)
    ultimately show ?thesis using h(3) by (intro bexI [of _ h]) simp_all
  next
    case False
    then have "g \<in> set (si_sent a)" "is_note_edit g" using g by (auto simp: lb)
    then have "g \<in> set (si_log a)" using offered_kinds [OF a] by (auto simp: la side_edits_def)
    then show ?thesis by (intro bexI [of _ g]) simp_all
  qed
qed

lemma settled_synced:
  assumes "sides_ok a b" "settled a b" "settled b a"
  shows "all_synced (si_workspace a)"
proof -
  have a: "side_ok a (si_sent b)" and b: "side_ok b (si_sent a)" using assms by (simp_all add: sides_ok_def settled_def)
  have "\<exists>acked. map_of (nw_acked_revisions (si_workspace a)) p = Some acked \<and> r \<le> acked"
    if pr: "(p, r) \<in> set (nw_local_revisions (si_workspace a))" for p r
  proof -
    have n: "noted_revisions a" using a by (simp add: side_ok_def)
    then have "map_of (nw_local_revisions (si_workspace a)) p = Some r"
      using pr by (intro map_of_is_SomeI) (simp_all add: noted_revisions_def omap_ok_def)
    then obtain f where f: "f \<in> side_edits a" "nf_pad_id f = p" "nf_revision f = r" using n by (auto simp: noted_revisions_def)
    obtain h where h: "h \<in> set (si_sent a)" "h \<in> side_edits a" "nf_pad_id h = p" "r \<le> nf_revision h"
      using settled_edit_sent [OF a assms(2) f(1)] f by blast
    then obtain k where k: "k \<in> set (si_offered b)" "is_ack_of k h" using b by (auto simp: side_ok_def acks_ok_def side_edits_def)
    then obtain l where l: "l \<in> set (si_sent b)" "older_frame k l" using settled_sent [OF b assms(3)] by blast
    then have l: "l \<in> set (si_sent b)" "nf_type l = NoteAck" "nf_pad_id l = nf_pad_id k" "nf_revision k \<le> nf_revision l"
      using older_ack [of k l] k(2) by (simp_all add: is_ack_of_def)
    then obtain q where q: "map_of (nw_acked_revisions (si_workspace a)) (normalized_pad_id (nf_pad_id l)) = Some q" "nf_revision l \<le> q"
      using a by (auto simp: side_ok_def acked_ok_def)
    have "p \<noteq> []" using a f(1,2) by (auto simp: side_ok_def contents_ok_def)
    then have "normalized_pad_id (nf_pad_id l) = p" using l(3) k(2) h(3) by (simp add: is_ack_of_def normalized_same)
    moreover have "r \<le> q" using h(4) k(2) l(4) q(2) by (simp add: is_ack_of_def)
    ultimately show ?thesis using q(1) by auto
  qed
  then show ?thesis by (fastforce simp: all_synced_def list_all_iff)
qed

lemma shown_synced:
  assumes "noted_revisions s" "ordered_edits s" "all_synced (si_workspace s)"
  shows "ns_synced (workspace_snapshot (si_workspace s)) \<longleftrightarrow> side_edits s \<noteq> {}"
proof -
  have "nw_local_revisions (si_workspace s) \<noteq> [] \<longleftrightarrow> side_edits s \<noteq> {}"
  proof
    assume "nw_local_revisions (si_workspace s) \<noteq> []"
    then obtain p r ks where l: "nw_local_revisions (si_workspace s) = (p, r) # ks" by (metis list.exhaust surj_pair)
    then have "map_of (nw_local_revisions (si_workspace s)) p = Some r" by simp
    then have "\<exists>f\<in>side_edits s. nf_pad_id f = p \<and> nf_revision f = r" using assms(1) unfolding noted_revisions_def by blast
    then show "side_edits s \<noteq> {}" by blast
  next
    assume "side_edits s \<noteq> {}"
    then obtain f where "f \<in> side_edits s" by blast
    then have "\<exists>r. map_of (nw_local_revisions (si_workspace s)) (nf_pad_id f) = Some r" using assms(2) by (auto simp: ordered_edits_def)
    then show "nw_local_revisions (si_workspace s) \<noteq> []" by auto
  qed
  then show ?thesis using assms(3) by (simp add: workspace_snapshot_def)
qed

text \<open>
  C26: Two sides of a note session agree. Whatever the interleaving of the edits of both users, of the threads that
  queue frames, of the sending and of the receiving threads, and although a waiting edit is replaced by a later one:
  once everything is queued, sent and handled, each pad has the same revision, writer, time and text on both sides,
  every acknowledgement that a side waits for has come, and a side shows that it is synchronized exactly if its user
  has made an edit (a side without edits of its own never shows it). No revision that either side has given may
  be zero, that is, the 64-bit counters of the pads have not wrapped around.
\<close>

theorem settled_notes_agree:
  assumes "note_reach mem w v a b" "no_wrap a" "no_wrap b" "settled a b" "settled b a"
  shows "pad_stamp (si_workspace a) = pad_stamp (si_workspace b) \<and>
    all_synced (si_workspace a) \<and> all_synced (si_workspace b) \<and>
    (ns_synced (workspace_snapshot (si_workspace a)) \<longleftrightarrow> side_edits a \<noteq> {}) \<and>
    (ns_synced (workspace_snapshot (si_workspace b)) \<longleftrightarrow> side_edits b \<noteq> {})"
proof -
  note ok = reached_ok [OF assms(1)]
  have "pad_stamp (si_workspace a) = fold merge_edit (si_log a) (pad_stamp (new_workspace []))"
    "pad_stamp (si_workspace b) = fold merge_edit (si_log b) (pad_stamp (new_workspace []))"
    using ok by (simp_all add: sides_ok_def side_ok_def contents_ok_def)
  then have "pad_stamp (si_workspace a) = pad_stamp (si_workspace b)"
    using covered_merges_agree [OF settled_covers [OF ok assms(3-5)] settled_covers [OF sides_ok_sym [OF ok] assms(2,5,4)]] by simp
  moreover have "all_synced (si_workspace a)" "all_synced (si_workspace b)"
    using settled_synced [OF ok assms(4,5)] settled_synced [OF sides_ok_sym [OF ok] assms(5,4)] by blast+
  moreover have "noted_revisions a" "noted_revisions b" "ordered_edits a" "ordered_edits b"
    using ok assms(2,3) by (simp_all add: sides_ok_def side_ok_def)
  ultimately show ?thesis using shown_synced by blast
qed

text \<open>
  C27: A side that shows that it is synchronized has been heard. At any moment of a session, if all acknowledgements
  a side waits for have come, then the peer's document of each pad is at least as new as every edit made on this side.
\<close>

theorem synced_was_received:
  assumes "note_reach mem w v a b" "no_wrap a" "all_synced (si_workspace a)" "f \<in> side_edits a"
  shows "frame_stamp f \<le> known_stamp (pad_stamp (si_workspace b) (nf_pad_id f))"
proof -
  let ?Ra = "take (si_received a) (si_sent b)" and ?Rb = "take (si_received b) (si_sent a)"
  have a: "side_ok a ?Ra" and b: "side_ok b ?Rb" using reached_ok [OF assms(1)] by (simp_all add: sides_ok_def)
  have ord: "ordered_edits a" using a assms(2) by (simp add: side_ok_def)
  obtain r where r: "map_of (nw_local_revisions (si_workspace a)) (nf_pad_id f) = Some r" "nf_revision f \<le> r"
    using ord assms(4) by (auto simp: ordered_edits_def)
  then obtain q where q: "map_of (nw_acked_revisions (si_workspace a)) (nf_pad_id f) = Some q" "r \<le> q"
    using assms(3) by (fastforce simp: all_synced_def list_all_iff dest: map_of_SomeD split: option.splits)
  obtain k where k: "k \<in> set ?Ra" "nf_type k = NoteAck" "normalized_pad_id (nf_pad_id k) = nf_pad_id f" "nf_revision k = q"
    using a q(1) by (auto simp: side_ok_def acked_ok_def)
  have "k \<in> set (si_sent b)" using k(1) by (rule in_set_takeD)
  then have "k \<in> set (si_offered b)" "\<not> is_note_edit k" using offered_kinds [OF b] k(2) edit_is_no_ack by blast+
  then obtain h where h: "h \<in> set ?Rb" "is_ack_of k h" using b by (auto simp: side_ok_def acks_ok_def)
  have "h \<in> set (si_sent a)" using h(1) by (rule in_set_takeD)
  then have e: "h \<in> side_edits a" using offered_kinds [OF a] h(2) by (simp add: side_edits_def is_ack_of_def)
  then have p: "nf_pad_id h \<noteq> []" using a by (auto simp: side_ok_def contents_ok_def)
  have n: "normalized_pad_id (nf_pad_id h) = nf_pad_id f" "nf_pad_id h = nf_pad_id f"
    using h(2) k(3) p by (simp_all add: is_ack_of_def normalized_same)
  have "nf_revision f \<le> nf_revision h" using r(2) q(2) k(4) h(2) by (simp add: is_ack_of_def)
  then have "frame_stamp f \<le> frame_stamp h" using ord assms(4) e n(2) by (auto simp: ordered_edits_def)
  also have "h \<in> set (si_log b)" using b h by (auto simp: side_ok_def contents_ok_def is_ack_of_def)
  then have "frame_stamp h \<le> known_stamp (pad_stamp (si_workspace b) (nf_pad_id f))"
    using b n(1) by (intro log_known [of b ?Rb]) (simp_all add: side_ok_def)
  finally show ?thesis .
qed

section \<open>Instances\<close>

text \<open>One edit travels from the first side to the second, and its acknowledgement back.\<close>

definition demo_memory :: note_memory where
  "demo_memory = \<lparr>nm_size = (\<lambda>f. 200 + length (nf_text f)), nm_kept = (\<lambda>a b. b)\<rparr>"

definition demo_frame :: note_frame where
  "demo_frame = \<lparr>nf_type = Update, nf_protocol_version = 2, nf_revision = 1, nf_timestamp_ms = 5, nf_writer_id = ''a'', nf_pad_id = ''main'',
     nf_title = ''Note 1'', nf_text = ''hi''\<rparr>"

definition demo_document :: note_document where
  "demo_document = \<lparr>nd_revision = 1, nd_timestamp_ms = 5, nd_writer_id = ''a'', nd_pad_id = ''main'', nd_title = ''Note 1'', nd_text = ''hi''\<rparr>"

definition demo_workspace :: "string \<Rightarrow> note_workspace" where
  "demo_workspace w = (new_workspace w)\<lparr>nw_documents := [(''main'', demo_document)]\<rparr>"

definition demo_ack :: note_frame where "demo_ack = make_note_ack 6 ''main'' 1"

definition demo_edited :: note_side where
  "demo_edited = (new_side ''a'')\<lparr>si_workspace := (demo_workspace ''a'')\<lparr>nw_local_revisions := [(''main'', 1)]\<rparr>, si_sent := [demo_frame],
     si_offered := [demo_frame], si_log := [demo_frame]\<rparr>"

definition demo_second :: note_side where
  "demo_second = (new_side ''b'')\<lparr>si_workspace := demo_workspace ''b'', si_sent := [demo_ack],
     si_received := 1, si_offered := [demo_ack], si_log := [demo_frame]\<rparr>"

definition demo_first :: note_side where
  "demo_first = demo_edited\<lparr>si_workspace := (demo_workspace ''a'')\<lparr>nw_local_revisions := [(''main'', 1)], nw_acked_revisions := [(''main'', 1)]\<rparr>,
     si_received := 1\<rparr>"

lemmas demo_simps =
  outbox_run_simps demo_memory_def demo_frame_def demo_document_def demo_workspace_def demo_ack_def demo_edited_def demo_second_def
  demo_first_def new_side_def new_workspace_def ensure_pad_def session_edit_def user_edit_def session_queue_def session_send_def
  session_receive_def take_frame_def update_active_def make_note_update_def apply_local_def apply_note_update_def apply_remote_def
  acknowledge_def new_note_document_def incoming_text_def tied_def kNoteMaxBytes_def kNoteProtocolVersion_def

lemma demo_steps:
  "session_send (session_queue demo_memory 0 (session_edit (UpdateActive 5 ''hi'') (new_side ''a''))) = demo_edited"
  "session_send (session_queue demo_memory 0 (session_receive 6 demo_frame (new_side ''b''))) = demo_second"
  "session_receive 7 demo_ack demo_edited = demo_first"
  by (simp_all add: demo_simps Let_def)

lemma one_pending:
  "length (si_pending (session_edit (UpdateActive 5 ''hi'') (new_side ''a''))) = 1"
  "length (si_pending (session_receive 6 demo_frame (new_side ''b''))) = 1"
  by (simp_all add: demo_simps Let_def)

lemma demo_counts:
  "si_received (new_side w) = 0" "si_received demo_edited = 0" "si_sent demo_edited = [demo_frame]" "si_sent demo_second = [demo_ack]"
  "\<not> ob_stopped (si_outbox (new_side w))" "\<not> ob_stopped (si_outbox demo_edited)"
  by (simp_all add: demo_simps)

lemma demo_edited_reached: "note_reach demo_memory ''a'' ''b'' demo_edited (new_side ''b'')"
  unfolding demo_steps(1) [symmetric]
  by (rule note_reach.First [OF note_reach.First [OF note_reach.First [OF note_reach.Start side_step.Edit] side_step.Queues] side_step.Sends])
    (simp add: one_pending)

lemma demo_reached: "note_reach demo_memory ''a'' ''b'' demo_first demo_second"
proof -
  let ?b = "session_receive 6 demo_frame (new_side ''b'')"
  have 1: "side_step demo_memory (si_sent demo_edited) (new_side ''b'') ?b"
    using side_step.Receives [of "new_side ''b''" "si_sent demo_edited" demo_memory 6] by (simp add: demo_counts)
  have 2: "side_step demo_memory (si_sent demo_edited) ?b (session_queue demo_memory 0 ?b)"
    by (rule side_step.Queues) (simp add: one_pending)
  have 3: "note_reach demo_memory ''a'' ''b'' demo_edited demo_second"
    using note_reach.Second [OF note_reach.Second [OF note_reach.Second [OF demo_edited_reached 1] 2] side_step.Sends] by (simp add: demo_steps)
  have "side_step demo_memory (si_sent demo_second) demo_edited demo_first"
    using side_step.Receives [of demo_edited "si_sent demo_second" demo_memory 7] by (simp add: demo_counts demo_steps)
  then show ?thesis by (rule note_reach.First [OF 3])
qed

lemma demo_ends:
  "no_wrap demo_first" "no_wrap demo_second" "settled demo_first demo_second" "settled demo_second demo_first"
  "pad_stamp (si_workspace demo_first) ''main'' = Some (1, ''a'', 5, ''hi'')" "all_synced (si_workspace demo_first)"
  "demo_frame \<in> side_edits demo_first" "frame_stamp demo_frame = (1, ''a'', 5, ''hi'')" "nf_pad_id demo_frame = ''main''"
  by (auto simp: demo_simps no_wrap_def side_edits_def settled_def pad_stamp_def stamp_of_def all_synced_def frame_stamp_def)

lemma demo_second_silent: "side_edits demo_second = {}"
  by (auto simp: demo_simps side_edits_def)

theorem settled_notes_agree_witness:
  "pad_stamp (si_workspace demo_first) ''main'' = Some (1, ''a'', 5, ''hi'') \<and>
   pad_stamp (si_workspace demo_second) ''main'' = Some (1, ''a'', 5, ''hi'') \<and>
   ns_synced (workspace_snapshot (si_workspace demo_first)) \<and> \<not> ns_synced (workspace_snapshot (si_workspace demo_second))"
  using settled_notes_agree [OF demo_reached demo_ends(1-4)] demo_ends(5,7) demo_second_silent by auto

theorem synced_was_received_witness:
  "(1, ''a'', 5, ''hi'') \<le> known_stamp (pad_stamp (si_workspace demo_second) ''main'')"
  using synced_was_received [OF demo_reached demo_ends(1,6,7)] by (simp only: demo_ends(8,9))

end
