(* ===== verification/Web_Upload.thy ===== *)
theory Web_Upload
  imports Ord_Map Paths
begin

text \<open>
  The uploads of the browser interface (web/web_upload.cpp): files that arrive in chunks and are staged below a
  directory of the store until a transfer sends them. Every operation runs under the store's lock, so it is one
  step. The staging directory has a random name and belongs to the store alone; it is modelled as a map from the names
  of its directories to their files. The clock, the free space, the random numbers and the failures of the
  operating system are arguments.
\<close>

section \<open>The staging directory\<close>

type_synonym staging = "(string, (string, bytes) omap) omap"

definition staged_file :: "staging \<Rightarrow> string \<Rightarrow> string \<Rightarrow> bytes option" where
  "staged_file st dir name = Option.bind (map_of st dir) (\<lambda>files. map_of files name)"

definition make_dir :: "string \<Rightarrow> staging \<Rightarrow> staging" where
  "make_dir dir st = (if omap_has st dir then st else omap_put dir [] st)"

definition put_file :: "string \<Rightarrow> string \<Rightarrow> bytes \<Rightarrow> staging \<Rightarrow> staging" where
  "put_file dir name content st =
     (case map_of st dir of None \<Rightarrow> st | Some files \<Rightarrow> omap_put dir (omap_put name content files) st)"

definition remove_file :: "string \<Rightarrow> string \<Rightarrow> staging \<Rightarrow> staging" where
  "remove_file dir name st = (case map_of st dir of None \<Rightarrow> st | Some files \<Rightarrow> omap_put dir (omap_del name files) st)"

text \<open>\<open>remove\<close> of a directory: it stays if it is not empty.\<close>

definition remove_dir :: "string \<Rightarrow> staging \<Rightarrow> staging" where
  "remove_dir dir st = (if map_of st dir = Some [] then omap_del dir st else st)"

lemma staged_simps [simp]:
  "staged_file (make_dir d st) dir name = staged_file st dir name"
  "staged_file (remove_dir d st) dir name = staged_file st dir name"
  "staged_file (put_file d n c st) dir name =
     (if dir = d \<and> name = n \<and> omap_has st d then Some c else staged_file st dir name)"
  "staged_file (remove_file d n st) dir name = (if dir = d \<and> name = n then None else staged_file st dir name)"
  "omap_has (make_dir d st) d"
  by (auto simp: staged_file_def make_dir_def remove_dir_def put_file_def remove_file_def omap_has_def split: option.split)

lemma staged_file_dir: "staged_file st dir name = Some c \<Longrightarrow> omap_has st dir"
  by (auto simp: staged_file_def omap_has_def split: bind_splits)

section \<open>The store\<close>

record upload =
  up_dir :: string
  up_name :: string
  up_expected :: u64
  up_received :: u64
  up_finished :: bool
  up_updated_at :: int

record upload_limits =
  ul_max_active :: nat
  ul_reserve :: u64
  ul_idle_ttl :: int

record upload_store =
  us_uploads :: "(string, upload) omap"
  us_staging :: staging
  us_limits :: upload_limits

text \<open>Times are in seconds; one hour, 64 MiB and 8 uploads are the defaults.\<close>

definition default_upload_limits :: upload_limits where
  "default_upload_limits = \<lparr>ul_max_active = 8, ul_reserve = 64 * 1024 * 1024, ul_idle_ttl = 3600\<rparr>"

definition new_upload_store :: "upload_limits \<Rightarrow> upload_store" where
  "new_upload_store limits = \<lparr>us_uploads = [], us_staging = [], us_limits = limits\<rparr>"

definition kMaxUploadChunkBytes :: nat where "kMaxUploadChunkBytes = 768 * 1024"

definition safe_filename :: "string \<Rightarrow> string option" where
  "safe_filename name =
     (if name = [] \<or> CHR 0x00 \<in> set name then None
      else
        let safe = filename (parse_path name)
        in if safe = [] \<or> safe = ''.'' \<or> safe = ''..'' then None else Some safe)"

definition erase_upload :: "string \<Rightarrow> upload \<Rightarrow> upload_store \<Rightarrow> upload_store" where
  "erase_upload uid u s =
     s\<lparr>us_staging := remove_dir (up_dir u) (remove_file (up_dir u) (up_name u) (us_staging s)), us_uploads := omap_del uid (us_uploads s)\<rparr>"

definition purge_upload :: "int \<Rightarrow> string \<times> upload \<Rightarrow> upload_store \<Rightarrow> upload_store" where
  "purge_upload now p s =
     (if 0 < ul_idle_ttl (us_limits s) \<and> now - up_updated_at (snd p) \<le> ul_idle_ttl (us_limits s) then s
      else erase_upload (fst p) (snd p) s)"

definition purge_expired :: "int \<Rightarrow> upload_store \<Rightarrow> upload_store" where
  "purge_expired now s = fold (purge_upload now) (us_uploads s) s"

text \<open>The bytes still to come, or the greatest number if the sum overflows.\<close>

fun remaining_from :: "u64 \<Rightarrow> (string \<times> upload) list \<Rightarrow> u64" where
  "remaining_from acc [] = acc"
| "remaining_from acc ((_, u) # us) =
     (let remaining = up_expected u - up_received u
      in if - 1 - acc < remaining then - 1 else remaining_from (acc + remaining) us)"

definition reserved_remaining_bytes :: "upload_store \<Rightarrow> u64" where
  "reserved_remaining_bytes s = remaining_from 0 (us_uploads s)"

section \<open>Operations\<close>

record start_env =
  se_now :: int
  se_available :: "u64 option"
  se_random :: "string list"
  se_mkdir_error :: "string option"
  se_open :: bool

definition has_room :: "u64 \<Rightarrow> u64 \<Rightarrow> upload_store \<Rightarrow> bool" where
  "has_room available len s =
     (let reserve = ul_reserve (us_limits s);
          usable = (if reserve < available then available - reserve else 0);
          reserved = reserved_remaining_bytes s
      in \<not> (usable < len \<or> usable - len < reserved))"

text \<open>The loop takes the first random name that is free; \<open>None\<close>: all given ones are taken.\<close>

fun fresh_id :: "string list \<Rightarrow> (string, upload) omap \<Rightarrow> string option" where
  "fresh_id [] uploads = None"
| "fresh_id (uid # ids) uploads = (if omap_has uploads uid then fresh_id ids uploads else Some uid)"

definition stage_upload :: "start_env \<Rightarrow> string \<Rightarrow> string \<Rightarrow> u64 \<Rightarrow> upload_store \<Rightarrow> string result \<times> upload_store" where
  "stage_upload env uid name len s =
     (case se_mkdir_error env of
        Some e \<Rightarrow> (Inl (''could not create upload directory: '' @ e), s)
      | None \<Rightarrow>
          let s = s\<lparr>us_staging := make_dir uid (us_staging s)\<rparr>
          in if \<not> se_open env then (Inl ''could not create staged upload file'', s\<lparr>us_staging := remove_dir uid (us_staging s)\<rparr>)
             else (Inr uid, s\<lparr>us_staging := put_file uid name [] (us_staging s),
               us_uploads := omap_put uid \<lparr>up_dir = uid, up_name = name, up_expected = len, up_received = 0, up_finished = False,
                 up_updated_at = se_now env\<rparr> (us_uploads s)\<rparr>))"

definition start_upload :: "start_env \<Rightarrow> string \<Rightarrow> u64 \<Rightarrow> upload_store \<Rightarrow> (string result \<times> upload_store) option" where
  "start_upload env name len s =
     (case safe_filename name of
        None \<Rightarrow> Some (Inl ''upload filename is invalid'', s)
      | Some safe \<Rightarrow>
          let s = purge_expired (se_now env) s
          in if ul_max_active (us_limits s) \<le> length (us_uploads s) then Some (Inl ''too many active browser uploads'', s)
             else case se_available env of
               None \<Rightarrow> Some (Inl ''could not inspect free space for browser upload'', s)
             | Some available \<Rightarrow>
                 if 0 < len \<and> \<not> has_room available len s then Some (Inl ''not enough unreserved space to stage selected file'', s)
                 else map_option (\<lambda>uid. stage_upload env uid safe len s) (fresh_id (se_random env) (us_uploads s)))"

text \<open>
  A write that fails leaves the first bytes of the chunk, as many as \<open>ae_failed\<close> says, and is rolled back if the
  system allows it.
\<close>

record append_env =
  ae_now :: int
  ae_open :: bool
  ae_failed :: "nat option"
  ae_rollback :: bool

definition write_chunk :: "append_env \<Rightarrow> string \<Rightarrow> upload \<Rightarrow> bytes \<Rightarrow> bytes \<Rightarrow> upload_store \<Rightarrow> unit result \<times> upload_store" where
  "write_chunk env uid u staged chunk s =
     (case ae_failed env of
        Some k \<Rightarrow>
          let written = staged @ take k chunk;
              kept = (if ae_rollback env then take (unat (up_received u)) written else written)
          in (Inl (''could not write staged upload file'' @ (if ae_rollback env then [] else ''; partial upload could not be rolled back'')),
              s\<lparr>us_staging := put_file (up_dir u) (up_name u) kept (us_staging s)\<rparr>)
      | None \<Rightarrow>
          (Inr (), s\<lparr>us_staging := put_file (up_dir u) (up_name u) (staged @ chunk) (us_staging s),
             us_uploads := omap_put uid (u\<lparr>up_received := up_received u + of_nat (length chunk), up_updated_at := ae_now env\<rparr>) (us_uploads s)\<rparr>))"

definition append_upload :: "append_env \<Rightarrow> string \<Rightarrow> u64 \<Rightarrow> bytes \<Rightarrow> upload_store \<Rightarrow> unit result \<times> upload_store" where
  "append_upload env uid offset chunk s =
     (if kMaxUploadChunkBytes < length chunk then (Inl ''upload chunk exceeds 768 KiB limit'', s)
      else case map_of (us_uploads s) uid of
        None \<Rightarrow> (Inl ''upload not found'', s)
      | Some u \<Rightarrow>
          if up_finished u then (Inl ''upload is already complete'', s)
          else if offset \<noteq> up_received u then (Inl ''upload chunk offset mismatch'', s)
          else if up_expected u - up_received u < of_nat (length chunk) then (Inl ''upload exceeds declared size'', s)
          else case staged_file (us_staging s) (up_dir u) (up_name u) of
            None \<Rightarrow> (Inl ''staged upload size no longer matches confirmed offset'', s)
          | Some staged \<Rightarrow>
              if length staged \<noteq> unat (up_received u) then (Inl ''staged upload size no longer matches confirmed offset'', s)
              else if \<not> ae_open env then (Inl ''could not open staged upload file'', s)
              else write_chunk env uid u staged chunk s)"

text \<open>A completed upload: its directory and name below the staging directory, and its size.\<close>

definition finish_upload :: "int \<Rightarrow> string \<Rightarrow> upload_store \<Rightarrow> (string \<times> string \<times> u64) result \<times> upload_store" where
  "finish_upload now uid s =
     (case map_of (us_uploads s) uid of
        None \<Rightarrow> (Inl ''upload not found'', s)
      | Some u \<Rightarrow>
          if up_received u \<noteq> up_expected u then (Inl ''upload is incomplete'', s)
          else (Inr (up_dir u, up_name u, up_expected u),
                s\<lparr>us_uploads := omap_put uid (u\<lparr>up_finished := True, up_updated_at := now\<rparr>) (us_uploads s)\<rparr>))"

definition completed_path :: "int \<Rightarrow> string \<Rightarrow> upload_store \<Rightarrow> (string \<times> string) result \<times> upload_store" where
  "completed_path now uid s =
     (let s = purge_expired now s
      in case map_of (us_uploads s) uid of
        None \<Rightarrow> (Inl ''completed upload not found'', s)
      | Some u \<Rightarrow>
          if \<not> up_finished u then (Inl ''completed upload not found'', s)
          else (Inr (up_dir u, up_name u), s\<lparr>us_uploads := omap_put uid (u\<lparr>up_updated_at := now\<rparr>) (us_uploads s)\<rparr>))"

definition release_upload :: "string \<Rightarrow> upload_store \<Rightarrow> upload_store" where
  "release_upload uid s = s\<lparr>us_uploads := omap_del uid (us_uploads s)\<rparr>"

definition cancel_upload :: "string \<Rightarrow> upload_store \<Rightarrow> upload_store" where
  "cancel_upload uid s = (case map_of (us_uploads s) uid of None \<Rightarrow> s | Some u \<Rightarrow> erase_upload uid u s)"

text \<open>What the job that sends a staged file does at its end (\<open>StagedFileCleanup\<close> in web/web_job.cpp).\<close>

definition cleanup_staged :: "string \<Rightarrow> string \<Rightarrow> upload_store \<Rightarrow> upload_store" where
  "cleanup_staged dir name s = s\<lparr>us_staging := remove_dir dir (remove_file dir name (us_staging s))\<rparr>"

section \<open>Every run of the store\<close>

datatype upload_event =
  Start start_env string u64
| Append append_env string u64 bytes
| Finish int string
| Complete int string
| Release string
| Cancel string
| Purge int
| Cleanup string string

text \<open>
  Besides the store, a run remembers the bytes accepted for each name since its last start, each chunk at its offset, and
  the directories whose files a job has removed.
\<close>

record upload_run =
  ur_store :: upload_store
  ur_given :: "string \<Rightarrow> bytes"
  ur_cleaned :: "string set"

definition upload_step :: "upload_event \<Rightarrow> upload_run \<Rightarrow> upload_run" where
  "upload_step e r =
     (case e of
        Start env name len \<Rightarrow>
          (case start_upload env name len (ur_store r) of
             None \<Rightarrow> r
           | Some (Inl _, s) \<Rightarrow> r\<lparr>ur_store := s\<rparr>
           | Some (Inr uid, s) \<Rightarrow> \<lparr>ur_store = s, ur_given = (ur_given r)(uid := []), ur_cleaned = ur_cleaned r - {uid}\<rparr>)
      | Append env uid offset chunk \<Rightarrow>
          (case append_upload env uid offset chunk (ur_store r) of
             (Inl _, s) \<Rightarrow> r\<lparr>ur_store := s\<rparr>
           | (Inr _, s) \<Rightarrow> r\<lparr>ur_store := s, ur_given := (ur_given r)(uid := take (unat offset) (ur_given r uid) @ chunk)\<rparr>)
      | Finish now uid \<Rightarrow> r\<lparr>ur_store := snd (finish_upload now uid (ur_store r))\<rparr>
      | Complete now uid \<Rightarrow> r\<lparr>ur_store := snd (completed_path now uid (ur_store r))\<rparr>
      | Release uid \<Rightarrow> r\<lparr>ur_store := release_upload uid (ur_store r)\<rparr>
      | Cancel uid \<Rightarrow> r\<lparr>ur_store := cancel_upload uid (ur_store r)\<rparr>
      | Purge now \<Rightarrow> r\<lparr>ur_store := purge_expired now (ur_store r)\<rparr>
      | Cleanup dir name \<Rightarrow> r\<lparr>ur_store := cleanup_staged dir name (ur_store r), ur_cleaned := insert dir (ur_cleaned r)\<rparr>)"

definition new_upload_run :: "upload_limits \<Rightarrow> upload_run" where
  "new_upload_run limits = \<lparr>ur_store = new_upload_store limits, ur_given = (\<lambda>_. []), ur_cleaned = {}\<rparr>"

text \<open>
  The staged file holds what was accepted and, after a failed write that could not be rolled back, some junk;
  then the upload is not complete and its size check refuses every further chunk.
\<close>

definition upload_ok :: "upload_run \<Rightarrow> string \<Rightarrow> upload \<Rightarrow> bool" where
  "upload_ok r uid u \<longleftrightarrow>
     up_dir u = uid \<and> plain_name (up_name u) \<and> up_received u \<le> up_expected u \<and> (up_finished u \<longrightarrow> up_received u = up_expected u) \<and>
     length (ur_given r uid) = unat (up_received u) \<and>
     (uid \<notin> ur_cleaned r \<longrightarrow>
        (\<exists>junk. staged_file (us_staging (ur_store r)) uid (up_name u) = Some (ur_given r uid @ junk) \<and>
                (junk \<noteq> [] \<longrightarrow> up_received u < up_expected u)))"

definition uploads_ok :: "upload_run \<Rightarrow> bool" where
  "uploads_ok r \<longleftrightarrow> omap_ok (us_uploads (ur_store r)) \<and> (\<forall>uid u. map_of (us_uploads (ur_store r)) uid = Some u \<longrightarrow> upload_ok r uid u)"

lemma uploads_okD: "uploads_ok r \<Longrightarrow> map_of (us_uploads (ur_store r)) uid = Some u \<Longrightarrow> upload_ok r uid u"
  by (simp add: uploads_ok_def)

lemma safe_filename_plain:
  assumes "safe_filename name = Some safe"
  shows "plain_name safe"
proof -
  let ?p = "parse_path name"
  have safe: "safe = filename ?p" "safe \<noteq> []" "safe \<noteq> ''.''" "safe \<noteq> ''..''"
    using assms by (auto simp: safe_filename_def Let_def split: if_splits)
  then have p: "?p \<noteq> []" "last ?p \<noteq> [slash]" "safe = last ?p" by (auto simp: filename_def split: if_splits)
  then have "slash \<notin> set safe" using parse_path_names [of safe name] last_in_set by metis
  then show ?thesis using safe by (simp add: plain_name_def)
qed

text \<open>Dropping uploads, and removing the files of dropped ones, leaves the others as they are.\<close>

lemma erase_ok:
  assumes "uploads_ok r" "map_of (us_uploads (ur_store r)) uid = Some u"
  shows "uploads_ok (r\<lparr>ur_store := erase_upload uid u (ur_store r)\<rparr>)"
  unfolding uploads_ok_def
proof (intro conjI allI impI)
  show "omap_ok (us_uploads (ur_store (r\<lparr>ur_store := erase_upload uid u (ur_store r)\<rparr>)))"
    using assms(1) by (simp add: uploads_ok_def erase_upload_def)
  fix uid' u' assume "map_of (us_uploads (ur_store (r\<lparr>ur_store := erase_upload uid u (ur_store r)\<rparr>))) uid' = Some u'"
  then have "uid' \<noteq> uid" "upload_ok r uid' u'"
    using assms(1) by (auto simp: erase_upload_def uploads_ok_def split: if_splits)
  moreover have "up_dir u = uid" using uploads_okD [OF assms] by (simp add: upload_ok_def)
  ultimately show "upload_ok (r\<lparr>ur_store := erase_upload uid u (ur_store r)\<rparr>) uid' u'"
    by (simp add: upload_ok_def erase_upload_def)
qed

lemma purge_fold_ok:
  assumes "uploads_ok r" "distinct (map fst us)" "\<And>p. p \<in> set us \<Longrightarrow> map_of (us_uploads (ur_store r)) (fst p) = Some (snd p)"
  shows "uploads_ok (r\<lparr>ur_store := fold (purge_upload now) us (ur_store r)\<rparr>)"
  using assms
proof (induction us arbitrary: r)
  case Nil
  then show ?case by simp
next
  case (Cons p us)
  let ?r = "r\<lparr>ur_store := purge_upload now p (ur_store r)\<rparr>"
  have "uploads_ok ?r" using Cons.prems(1,3) erase_ok by (simp add: purge_upload_def)
  moreover have "map_of (us_uploads (ur_store ?r)) (fst q) = Some (snd q)" if "q \<in> set us" for q
  proof -
    have "fst q \<in> fst ` set us" by (rule imageI [OF that])
    then have "fst q \<noteq> fst p" using Cons.prems(2) by (metis distinct.simps(2) list.set_map list.simps(9))
    then show ?thesis using Cons.prems(3) that by (simp add: purge_upload_def erase_upload_def)
  qed
  ultimately have "uploads_ok (?r\<lparr>ur_store := fold (purge_upload now) us (ur_store ?r)\<rparr>)"
    using Cons.IH [of ?r] Cons.prems(2) by simp
  then show ?case by simp
qed

lemma purge_ok: "uploads_ok r \<Longrightarrow> uploads_ok (r\<lparr>ur_store := purge_expired now (ur_store r)\<rparr>)"
  unfolding purge_expired_def
  by (rule purge_fold_ok) (auto simp: uploads_ok_def omap_ok_def)

lemma fresh_id_free: "fresh_id ids uploads = Some uid \<Longrightarrow> map_of uploads uid = None"
  by (induction ids) (auto simp: omap_has_def split: if_splits)

text \<open>A changed upload, with the others and their files as before.\<close>

lemma put_upload_ok:
  assumes "uploads_ok r" "us_uploads (ur_store r') = omap_put uid u (us_uploads (ur_store r))" "upload_ok r' uid u"
    "\<And>d n. d \<noteq> uid \<Longrightarrow> staged_file (us_staging (ur_store r')) d n = staged_file (us_staging (ur_store r)) d n"
    "\<And>d. d \<noteq> uid \<Longrightarrow> ur_given r' d = ur_given r d" "\<And>d. d \<noteq> uid \<Longrightarrow> d \<in> ur_cleaned r' \<longleftrightarrow> d \<in> ur_cleaned r"
  shows "uploads_ok r'"
  using assms by (auto simp: uploads_ok_def upload_ok_def)

lemma same_uploads_ok:
  assumes "uploads_ok r" "us_uploads (ur_store r') = us_uploads (ur_store r)"
    "\<And>uid u. map_of (us_uploads (ur_store r)) uid = Some u \<Longrightarrow> upload_ok r uid u \<Longrightarrow> upload_ok r' uid u"
  shows "uploads_ok r'"
  using assms by (auto simp: uploads_ok_def)

lemma start_ok:
  assumes "uploads_ok r"
  shows "uploads_ok (upload_step (Start env name len) r)"
proof (cases "start_upload env name len (ur_store r)")
  case None
  then show ?thesis using assms by (simp add: upload_step_def)
next
  case (Some x)
  obtain safe where safe: "safe_filename name = Some safe \<or> snd x = ur_store r"
    using Some by (cases "safe_filename name") (auto simp: start_upload_def)
  let ?s = "purge_expired (se_now env) (ur_store r)"
  have purged: "uploads_ok (r\<lparr>ur_store := ?s\<rparr>)" by (rule purge_ok [OF assms])
  consider (refused) e s where "x = (Inl e, s)" "s = ur_store r \<or> s = ?s"
    | (staged) uid safe where "safe_filename name = Some safe" "fresh_id (se_random env) (us_uploads ?s) = Some uid"
        "x = stage_upload env uid safe len ?s"
    using Some by (auto simp: start_upload_def Let_def split: option.splits if_splits)
  then show ?thesis
  proof cases
    case refused
    then show ?thesis using Some assms purged by (auto simp: upload_step_def)
  next
    case staged
    have free: "map_of (us_uploads ?s) uid = None" by (rule fresh_id_free [OF staged(2)])
    show ?thesis
    proof (cases "fst x")
      case (Inl e)
      then have "us_uploads (snd x) = us_uploads ?s" "\<And>d n. staged_file (us_staging (snd x)) d n = staged_file (us_staging ?s) d n"
        using staged(3) by (auto simp: stage_upload_def Let_def split: option.splits if_splits)
      then have "uploads_ok (r\<lparr>ur_store := snd x\<rparr>)"
        using purged by (intro same_uploads_ok [OF purged]) (auto simp: upload_ok_def)
      then show ?thesis using Inl Some by (cases x) (simp add: upload_step_def)
    next
      case (Inr i)
      have x: "i = uid" "us_uploads (snd x) = omap_put uid \<lparr>up_dir = uid, up_name = safe, up_expected = len, up_received = 0,
            up_finished = False, up_updated_at = se_now env\<rparr> (us_uploads ?s)"
          "us_staging (snd x) = put_file uid safe [] (make_dir uid (us_staging ?s))"
        using Inr staged(3) by (auto simp: stage_upload_def Let_def split: option.splits if_splits)
      have "uploads_ok \<lparr>ur_store = snd x, ur_given = (ur_given r)(uid := []), ur_cleaned = ur_cleaned r - {uid}\<rparr>"
        by (rule put_upload_ok [OF purged]) (use x safe_filename_plain [OF staged(1)] in \<open>auto simp: upload_ok_def\<close>)
      then show ?thesis using Inr Some x(1) by (cases x) (simp add: upload_step_def)
    qed
  qed
qed

lemma append_ok:
  assumes "uploads_ok r"
  shows "uploads_ok (upload_step (Append env uid offset chunk) r)"
proof -
  obtain res s where x: "append_upload env uid offset chunk (ur_store r) = (res, s)" by fastforce
  show ?thesis
  proof (cases "s = ur_store r \<and> isl res")
    case True
    then show ?thesis using x assms by (cases res) (simp_all add: upload_step_def)
  next
    case False
    then obtain u staged where u: "map_of (us_uploads (ur_store r)) uid = Some u"
        "staged_file (us_staging (ur_store r)) (up_dir u) (up_name u) = Some staged" "\<not> up_finished u"
        "length chunk \<le> kMaxUploadChunkBytes" "offset = up_received u" "of_nat (length chunk) \<le> up_expected u - up_received u"
        "length staged = unat (up_received u)" "write_chunk env uid u staged chunk (ur_store r) = (res, s)"
      using x by (auto simp: append_upload_def not_less split: option.splits if_splits)
    have ok: "upload_ok r uid u" by (rule uploads_okD [OF assms u(1)])
    then have dir: "up_dir u = uid" "up_received u \<le> up_expected u" "length (ur_given r uid) = unat (up_received u)" "plain_name (up_name u)"
      by (simp_all add: upload_ok_def)
    have given: "staged = ur_given r uid" if "uid \<notin> ur_cleaned r"
      using ok u(2,7) that by (auto simp: upload_ok_def)
    have chunk: "unat (of_nat (length chunk) :: u64) = length chunk"
      using u(4) by (simp add: kMaxUploadChunkBytes_def)
    then have room: "unat (up_received u) + length chunk \<le> unat (up_expected u)"
      using u(6) dir(2) by (simp add: word_le_nat_alt unat_u64_sub)
    show ?thesis
    proof (cases "ae_failed env")
      case None
      then have s: "res = Inr ()" "us_staging s = put_file uid (up_name u) (staged @ chunk) (us_staging (ur_store r))"
          "us_uploads s = omap_put uid (u\<lparr>up_received := up_received u + of_nat (length chunk), up_updated_at := ae_now env\<rparr>) (us_uploads (ur_store r))"
        using u(8) dir(1) by (auto simp: write_chunk_def)
      have r: "unat (up_received u + of_nat (length chunk)) = unat (up_received u) + length chunk"
        using room chunk u64_less_bound [of "up_expected u"] by (simp add: unat_u64_add_noov)
      have "uploads_ok (r\<lparr>ur_store := s, ur_given := (ur_given r)(uid := take (unat offset) (ur_given r uid) @ chunk)\<rparr>)"
        by (rule put_upload_ok [OF assms])
          (use s r u(2,3,5) dir room given in \<open>auto simp: upload_ok_def word_le_nat_alt dest: staged_file_dir\<close>)
      then show ?thesis using x s(1) by (simp add: upload_step_def)
    next
      case (Some k)
      let ?kept = "if ae_rollback env then take (unat (up_received u)) (staged @ take k chunk) else staged @ take k chunk"
      have s: "isl res" "us_uploads s = us_uploads (ur_store r)" "us_staging s = put_file uid (up_name u) ?kept (us_staging (ur_store r))"
        using u(8) Some dir(1) by (auto simp: write_chunk_def Let_def)
      have junk: "chunk \<noteq> [] \<Longrightarrow> up_received u < up_expected u" using room by (cases chunk) (simp_all add: word_less_nat_alt)
      have "upload_ok (r\<lparr>ur_store := s\<rparr>) uid' u'" if "map_of (us_uploads (ur_store r)) uid' = Some u'" "upload_ok r uid' u'" for uid' u'
      proof (cases "uid' = uid")
        case False
        then show ?thesis using that(2) s(3) by (simp add: upload_ok_def)
      next
        case True
        then have u': "u' = u" using that(1) u(1) by simp
        have kept: "?kept = staged @ (if ae_rollback env then [] else take k chunk)" using u(7) by simp
        have "staged_file (us_staging s) uid (up_name u) = Some (staged @ (if ae_rollback env then [] else take k chunk))"
          using staged_file_dir [OF u(2)] dir(1) unfolding s(3) kept by simp
        moreover have "up_received u < up_expected u" if "(if ae_rollback env then [] else take k chunk) \<noteq> []"
          using junk that by (auto split: if_splits)
        ultimately show ?thesis
          using ok given unfolding True u' upload_ok_def by auto
      qed
      then have "uploads_ok (r\<lparr>ur_store := s\<rparr>)" using s(2) by (intro same_uploads_ok [OF assms]) simp_all
      then show ?thesis using x s(1) by (cases res) (simp_all add: upload_step_def)
    qed
  qed
qed

lemma finish_ok: "uploads_ok r \<Longrightarrow> uploads_ok (upload_step (Finish now uid) r)"
proof (cases "map_of (us_uploads (ur_store r)) uid")
  case (Some u)
  assume ok: "uploads_ok r"
  show ?thesis
    using Some uploads_okD [OF ok Some] ok
    by (auto simp: upload_step_def finish_upload_def intro!: put_upload_ok [OF ok, where uid = uid]) (auto simp: upload_ok_def)
qed (simp add: upload_step_def finish_upload_def)

lemma complete_ok:
  assumes "uploads_ok r"
  shows "uploads_ok (upload_step (Complete now uid) r)"
proof -
  let ?r = "r\<lparr>ur_store := purge_expired now (ur_store r)\<rparr>"
  have ok: "uploads_ok ?r" by (rule purge_ok [OF assms])
  show ?thesis
  proof (cases "map_of (us_uploads (ur_store ?r)) uid")
    case (Some u)
    show ?thesis
      using Some uploads_okD [OF ok Some] ok
      by (auto simp: upload_step_def completed_path_def Let_def intro!: put_upload_ok [OF ok, where uid = uid]) (auto simp: upload_ok_def)
  qed (use ok in \<open>simp add: upload_step_def completed_path_def Let_def\<close>)
qed

theorem upload_step_ok: "uploads_ok r \<Longrightarrow> uploads_ok (upload_step e r)"
proof (induction e)
  case (Release uid)
  then show ?case by (auto simp: upload_step_def release_upload_def uploads_ok_def upload_ok_def)
next
  case (Cancel uid)
  then show ?case using erase_ok by (auto simp: upload_step_def cancel_upload_def split: option.split)
next
  case (Purge now)
  then show ?case using purge_ok by (simp add: upload_step_def)
next
  case (Cleanup dir name)
  then show ?case by (auto simp: upload_step_def cleanup_staged_def uploads_ok_def upload_ok_def)
qed (rule start_ok append_ok finish_ok complete_ok; assumption)+

lemma upload_run_ok: "uploads_ok (fold upload_step es (new_upload_run limits))"
proof -
  have "uploads_ok r \<Longrightarrow> uploads_ok (fold upload_step es r)" for r
    by (induction es arbitrary: r) (simp_all add: upload_step_ok)
  then show ?thesis by (simp add: uploads_ok_def new_upload_run_def new_upload_store_def)
qed

text \<open>
  C35: A completed upload is intact. Whatever the operations on the store and their order, the failures of writes, of
  rollbacks and of the other calls of the system, the file that is given to a transfer holds exactly the accepted
  chunks, each at its offset, has the declared size, and lies under a plain name in a directory of its own.
\<close>

theorem completed_upload_is_intact:
  assumes "r = fold upload_step es (new_upload_run limits)" "completed_path now uid (ur_store r) = (Inr (dir, name), s)" "uid \<notin> ur_cleaned r"
  shows "dir = uid \<and> plain_name name \<and> staged_file (us_staging s) dir name = Some (ur_given r uid) \<and>
    (\<exists>u. map_of (us_uploads s) uid = Some u \<and> unat (up_expected u) = length (ur_given r uid))"
proof -
  let ?s = "purge_expired now (ur_store r)"
  have ok: "uploads_ok (r\<lparr>ur_store := ?s\<rparr>)" by (rule purge_ok) (simp add: assms(1) upload_run_ok)
  obtain u where u: "map_of (us_uploads ?s) uid = Some u" "up_finished u" "dir = up_dir u" "name = up_name u"
      "s = ?s\<lparr>us_uploads := omap_put uid (u\<lparr>up_updated_at := now\<rparr>) (us_uploads ?s)\<rparr>"
    using assms(2) by (auto simp: completed_path_def Let_def split: option.splits if_splits)
  have "upload_ok (r\<lparr>ur_store := ?s\<rparr>) uid u" using uploads_okD [OF ok] u(1) by simp
  then show ?thesis using u(2-5) assms(3) by (auto simp: upload_ok_def)
qed

definition sample_env :: start_env where
  "sample_env = \<lparr>se_now = 5, se_available = Some 1000000000, se_random = [''k''], se_mkdir_error = None, se_open = True\<rparr>"

definition sample_append :: "nat option \<Rightarrow> bool \<Rightarrow> append_env" where
  "sample_append failed rollback = \<lparr>ae_now = 6, ae_open = True, ae_failed = failed, ae_rollback = rollback\<rparr>"

text \<open>Two chunks of a file \<open>d/f\<close>; the first write of the second one fails and is rolled back.\<close>

definition sample_uploads :: "upload_event list" where
  "sample_uploads = [Start sample_env ''d/f'' 3, Append (sample_append None True) ''k'' 0 [1, 2],
     Append (sample_append (Some 1) True) ''k'' 2 [3], Append (sample_append None True) ''k'' 2 [3], Finish 7 ''k'']"

lemma sample_uploads_done:
  "completed_path 8 ''k'' (ur_store (fold upload_step sample_uploads (new_upload_run default_upload_limits))) =
     (Inr (''k'', ''f''), \<lparr>us_uploads = [(''k'', \<lparr>up_dir = ''k'', up_name = ''f'', up_expected = 3, up_received = 3, up_finished = True,
        up_updated_at = 8\<rparr>)], us_staging = [(''k'', [(''f'', [1, 2, 3])])], us_limits = default_upload_limits\<rparr>)"
  "ur_given (fold upload_step sample_uploads (new_upload_run default_upload_limits)) ''k'' = [1, 2, 3]"
  "ur_cleaned (fold upload_step sample_uploads (new_upload_run default_upload_limits)) = {}"
proof -
  have n: "safe_filename ''d/f'' = Some ''f''" by code_simp
  show "completed_path 8 ''k'' (ur_store (fold upload_step sample_uploads (new_upload_run default_upload_limits))) =
     (Inr (''k'', ''f''), \<lparr>us_uploads = [(''k'', \<lparr>up_dir = ''k'', up_name = ''f'', up_expected = 3, up_received = 3, up_finished = True,
        up_updated_at = 8\<rparr>)], us_staging = [(''k'', [(''f'', [1, 2, 3])])], us_limits = default_upload_limits\<rparr>)"
    "ur_given (fold upload_step sample_uploads (new_upload_run default_upload_limits)) ''k'' = [1, 2, 3]"
    "ur_cleaned (fold upload_step sample_uploads (new_upload_run default_upload_limits)) = {}"
    using n by (simp_all add: sample_uploads_def new_upload_run_def new_upload_store_def upload_step_def start_upload_def
      purge_expired_def purge_upload_def has_room_def reserved_remaining_bytes_def stage_upload_def append_upload_def write_chunk_def
      finish_upload_def completed_path_def default_upload_limits_def sample_env_def sample_append_def kMaxUploadChunkBytes_def
      staged_file_def make_dir_def put_file_def omap_has_def Let_def)
qed

theorem completed_upload_is_intact_witness:
  "plain_name ''f'' \<and> staged_file [(''k'', [(''f'', [1, 2, 3])])] ''k'' ''f'' = Some [1, 2, 3 :: u8]"
  using completed_upload_is_intact [OF refl sample_uploads_done(1)] sample_uploads_done(2,3) by simp

section \<open>The free space is not promised twice\<close>

definition bytes_to_come :: "(string, upload) omap \<Rightarrow> nat" where
  "bytes_to_come us = sum_list (map (\<lambda>p. unat (up_expected (snd p) - up_received (snd p))) us)"

lemma unat_greatest: "unat (- 1 :: u64) = 2 ^ 64 - 1"
  by (simp add: unsigned_minus_1_eq_mask mask_eq_exp_minus_1)

lemma remaining_from_sum: "unat (remaining_from acc us) = min (2 ^ 64 - 1) (unat acc + bytes_to_come us)"
proof (induction acc us rule: remaining_from.induct)
  case (1 acc)
  then show ?case using u64_less_bound [of acc] by (simp add: bytes_to_come_def)
next
  case (2 acc i u us)
  let ?r = "up_expected u - up_received u"
  have m: "unat (- 1 - acc) = 2 ^ 64 - 1 - unat acc"
    by (simp add: unat_u64_sub unat_greatest)
  show ?case
  proof (cases "- 1 - acc < ?r")
    case True
    then have "2 ^ 64 - 1 < unat acc + unat ?r" using m u64_less_bound [of acc] by (simp add: word_less_nat_alt)
    then show ?thesis using True by (simp add: bytes_to_come_def Let_def unat_greatest)
  next
    case False
    then have "unat acc + unat ?r < 2 ^ 64" using m u64_less_bound [of acc] by (simp add: word_less_nat_alt)
    then show ?thesis using 2 False by (simp add: bytes_to_come_def Let_def unat_u64_add_noov)
  qed
qed

lemma bytes_to_come_put: "map_of us uid = None \<Longrightarrow> bytes_to_come (omap_put uid u us) = unat (up_expected u - up_received u) + bytes_to_come us"
  by (induction us) (auto simp: bytes_to_come_def split: if_splits)

lemma length_put_le: "length (omap_put k v m) \<le> Suc (length m)"
  by (induction m) auto

text \<open>
  C36: The store never promises the same free space twice: when an upload is accepted, everything that is still to come
  for all uploads and the reserve fit into the free space, and there are at most as many uploads as allowed.
\<close>

theorem accepted_uploads_fit:
  assumes "start_upload env name len s = Some (Inr uid, s')" "0 < len" "se_available env = Some available"
  shows "bytes_to_come (us_uploads s') + unat (ul_reserve (us_limits s')) \<le> unat available \<and>
    length (us_uploads s') \<le> ul_max_active (us_limits s')"
proof -
  let ?s = "purge_expired (se_now env) s"
  obtain safe where safe: "length (us_uploads ?s) < ul_max_active (us_limits ?s)" "has_room available len ?s"
      "fresh_id (se_random env) (us_uploads ?s) = Some uid" "stage_upload env uid safe len ?s = (Inr uid, s')"
    using assms by (auto simp: start_upload_def Let_def stage_upload_def split: option.splits if_splits)
  have s': "us_limits s' = us_limits ?s" "us_uploads s' = omap_put uid \<lparr>up_dir = uid, up_name = safe, up_expected = len, up_received = 0,
      up_finished = False, up_updated_at = se_now env\<rparr> (us_uploads ?s)"
    using safe(4) by (auto simp: stage_upload_def Let_def split: option.splits if_splits)
  have sum: "bytes_to_come (us_uploads s') = unat len + bytes_to_come (us_uploads ?s)"
    using fresh_id_free [OF safe(3)] by (simp add: s'(2) bytes_to_come_put)
  define usable where "usable = (if ul_reserve (us_limits ?s) < available then available - ul_reserve (us_limits ?s) else 0)"
  have room: "len \<le> usable" "reserved_remaining_bytes ?s \<le> usable - len"
    using safe(2) by (simp_all add: has_room_def Let_def usable_def not_less)
  have "0 < unat len" using assms(2) by (simp add: word_less_nat_alt)
  then have fits: "unat len + bytes_to_come (us_uploads ?s) \<le> unat usable"
    using room u64_less_bound [of usable] remaining_from_sum [of 0 "us_uploads ?s"]
    by (simp add: reserved_remaining_bytes_def word_le_nat_alt unat_u64_sub min_def split: if_splits)
  moreover have "unat usable + unat (ul_reserve (us_limits ?s)) \<le> unat available"
    using fits \<open>0 < unat len\<close> unat_u64_sub [of "ul_reserve (us_limits ?s)" available]
    by (auto simp: usable_def word_less_nat_alt word_le_nat_alt split: if_splits)
  moreover have "length (us_uploads s') \<le> ul_max_active (us_limits ?s)"
    unfolding s'(2) using safe(1) by (intro le_trans [OF length_put_le]) simp
  ultimately show ?thesis unfolding sum s'(1) by linarith
qed

theorem accepted_uploads_fit_witness:
  "\<exists>s'. start_upload sample_env ''d/f'' 3 (new_upload_store default_upload_limits) = Some (Inr ''k'', s') \<and>
     bytes_to_come (us_uploads s') + unat (ul_reserve (us_limits s')) \<le> 1000000000"
proof -
  have n: "safe_filename ''d/f'' = Some ''f''" by code_simp
  obtain s' where s': "start_upload sample_env ''d/f'' 3 (new_upload_store default_upload_limits) = Some (Inr ''k'', s')"
    using n by (simp add: new_upload_store_def start_upload_def purge_expired_def has_room_def reserved_remaining_bytes_def
      stage_upload_def default_upload_limits_def sample_env_def omap_has_def Let_def)
  show ?thesis using accepted_uploads_fit [OF s', of 1000000000] s' by (simp add: sample_env_def)
qed

end
