(* ===== verification/Web_Request.thy ===== *)
theory Web_Request
  imports Ord_Map Text_Util
begin

text \<open>
  The requests of the browser interface (web/web.cpp): decoding of URLs and queries, reading a request from the
  connection, and who may use the interface. A text is a list of bytes.
\<close>

section \<open>URLs\<close>

definition is_hex :: "char \<Rightarrow> bool" where
  "is_hex c \<longleftrightarrow> isdigit c \<or> (CHR ''a'' \<le> c \<and> c \<le> CHR ''f'') \<or> (CHR ''A'' \<le> c \<and> c \<le> CHR ''F'')"

definition hex_value :: "char \<Rightarrow> nat" where
  "hex_value c =
     (if isdigit c then of_char c - 48 else if CHR ''a'' \<le> c then of_char c - 87 else of_char c - 55)"

text \<open>
  \<open>std::strtoul\<close> with base 16 on a C string of at most two characters: the value and what is left of the text. White
  space and a sign may come before the digits; without digits nothing is read. (A prefix \<open>0x\<close> counts only
  with a digit behind it, which two characters do not have room for.)
\<close>

definition strtoul16 :: "string \<Rightarrow> u64 \<times> string" where
  "strtoul16 s =
     (let t = dropWhile isspace s;
          negative = (t \<noteq> [] \<and> hd t = CHR ''-'');
          t = (if t \<noteq> [] \<and> (hd t = CHR ''-'' \<or> hd t = CHR ''+'') then tl t else t);
          digits = takeWhile is_hex t;
          v = fold (\<lambda>c v. v * 16 + of_nat (hex_value c)) digits 0
      in if digits = [] then (0, s) else (if negative then - v else v, dropWhile is_hex t))"

fun url_decode :: "string \<Rightarrow> string" where
  "url_decode [] = []"
| "url_decode (c # cs) =
     (case cs of
        a # b # rest \<Rightarrow>
          if c = CHR ''%'' then
            (case strtoul16 (takeWhile (\<lambda>x. x \<noteq> CHR 0x00) [a, b]) of
               (v, left) \<Rightarrow>
                 if left = [] then char_of (unat v mod 256) # url_decode rest
                 else c # url_decode cs)
          else (if c = CHR ''+'' then CHR '' '' else c) # url_decode cs
      | _ \<Rightarrow> (if c = CHR ''+'' then CHR '' '' else c) # url_decode cs)"

text \<open>One part of a query is added to the map; parts are split at \<open>&\<close>.\<close>

definition add_query_part :: "string \<Rightarrow> (string, string) omap \<Rightarrow> (string, string) omap" where
  "add_query_part part out =
     (if part = [] then out
      else case cut (CHR ''='') part of
        (key, None) \<Rightarrow> omap_put (url_decode key) [] out
      | (key, Some v) \<Rightarrow> omap_put (url_decode key) (url_decode v) out)"

function parse_query_from :: "string \<Rightarrow> (string, string) omap \<Rightarrow> (string, string) omap" where
  "parse_query_from query out =
     (case cut (CHR ''&'') query of
        (part, None) \<Rightarrow> add_query_part part out
      | (part, Some rest) \<Rightarrow> parse_query_from rest (add_query_part part out))"
  by pat_completeness auto
termination
  by (relation "measure (length \<circ> fst)") (auto dest!: cut_shorter)

declare parse_query_from.simps [simp del]

definition parse_query :: "string \<Rightarrow> (string, string) omap" where
  "parse_query query = parse_query_from query []"

definition query_value :: "(string, string) omap \<Rightarrow> string \<Rightarrow> string \<Rightarrow> string" where
  "query_value query key fallback = (case map_of query key of None \<Rightarrow> fallback | Some v \<Rightarrow> v)"

section \<open>Reading a request\<close>

record http_request =
  hr_method :: string
  hr_path :: string
  hr_query :: "(string, string) omap"
  hr_headers :: "(string, string) omap"
  hr_body :: string

definition kMaxBodyBytes :: nat where "kMaxBodyBytes = 1024 * 1024"
definition kMaxHeaderBytes :: nat where "kMaxHeaderBytes = 32 * 1024"

definition newline :: char where "newline = CHR 0x0A"
definition return_char :: char where "return_char = CHR 0x0D"

definition blank_line :: string where "blank_line = [return_char, newline, return_char, newline]"

text \<open>The place of the first blank line.\<close>

fun header_end :: "string \<Rightarrow> nat option" where
  "header_end [] = None"
| "header_end (c # cs) = (if take 4 (c # cs) = blank_line then Some 0 else map_option Suc (header_end cs))"

text \<open>
  \<open>stream\<close> is what arrives before the deadline, \<open>pieces i\<close> how many bytes the i-th read gives at most; every
  read that gives anything gives at least one byte. \<open>Inr None\<close>: the connection is closed or too slow.
\<close>

function read_head :: "(nat \<Rightarrow> nat) \<Rightarrow> nat \<Rightarrow> string \<Rightarrow> string \<Rightarrow> (nat \<times> string \<times> string) option result" where
  "read_head pieces i read stream =
     (case header_end read of
        Some h \<Rightarrow> Inr (Some (h, read, stream))
      | None \<Rightarrow>
          if kMaxHeaderBytes \<le> length read then Inl ''request headers too large''
          else if stream = [] then Inr None
          else
            let n = min (max 1 (pieces i)) (min 4096 (kMaxHeaderBytes - length read))
            in read_head pieces (Suc i) (read @ take n stream) (drop n stream))"
  by pat_completeness auto
termination
  by (relation "measure (\<lambda>(pieces, i, read, stream). length stream)") (auto simp: Let_def)

declare read_head.simps [simp del]

text \<open>\<open>std::getline\<close>: the lines of a text; a last line may lack its newline.\<close>

function http_lines :: "string \<Rightarrow> string list" where
  "http_lines s =
     (if s = [] then []
      else case cut newline s of
        (line, None) \<Rightarrow> [line]
      | (line, Some rest) \<Rightarrow> line # http_lines rest)"
  by pat_completeness auto
termination
  by (relation "measure length") (auto dest!: cut_shorter)

declare http_lines.simps [simp del]

definition without_return :: "string \<Rightarrow> string" where
  "without_return line = (if line \<noteq> [] \<and> last line = return_char then butlast line else line)"

text \<open>\<open>operator>>\<close>: the next word and the rest.\<close>

definition next_word :: "string \<Rightarrow> string \<times> string" where
  "next_word s = (let t = dropWhile isspace s in (takeWhile (Not \<circ> isspace) t, dropWhile (Not \<circ> isspace) t))"

definition add_header :: "string \<Rightarrow> (string, string) omap \<Rightarrow> (string, string) omap" where
  "add_header line headers =
     (case cut (CHR '':'') (without_return line) of
        (_, None) \<Rightarrow> headers
      | (name, Some v) \<Rightarrow> omap_put (lowercase_ascii (trim name)) (trim v) headers)"

definition content_length :: "(string, string) omap \<Rightarrow> nat result" where
  "content_length headers =
     (case map_of headers ''content-length'' of
        None \<Rightarrow> Inr 0
      | Some v \<Rightarrow>
          (case parse_u64_strict v of
             None \<Rightarrow> Inl ''invalid content length''
           | Some n \<Rightarrow> if of_nat kMaxBodyBytes < n then Inl ''request body too large'' else Inr (unat n)))"

text \<open>The request line and the headers; the body is filled in later.\<close>

definition parse_head :: "string \<Rightarrow> http_request option" where
  "parse_head head =
     (let ls = http_lines head;
          request_line = (case ls of [] \<Rightarrow> [] | l # _ \<Rightarrow> without_return l);
          (verb, behind) = next_word request_line; target = fst (next_word behind)
      in if verb = [] \<or> target = [] then None
         else case cut (CHR ''?'') target of
           (p, q) \<Rightarrow> Some \<lparr>hr_method = verb, hr_path = p, hr_query = (case q of None \<Rightarrow> [] | Some query \<Rightarrow> parse_query query),
             hr_headers = fold add_header (tl ls) [], hr_body = []\<rparr>)"

text \<open>What was read behind the head, and what is still to come.\<close>

definition complete_request :: "string \<Rightarrow> string \<Rightarrow> string \<Rightarrow> http_request option result" where
  "complete_request head behind stream =
     (case parse_head head of
        None \<Rightarrow> Inr None
      | Some req \<Rightarrow>
          andthen (content_length (hr_headers req)) (\<lambda>n.
            if length behind < n
            then if length stream < n - length behind then Inr None
                 else Inr (Some (req\<lparr>hr_body := behind @ take (n - length behind) stream\<rparr>))
            else Inr (Some (req\<lparr>hr_body := take n behind\<rparr>))))"

definition read_http_request :: "(nat \<Rightarrow> nat) \<Rightarrow> string \<Rightarrow> http_request option result" where
  "read_http_request pieces stream =
     andthen (read_head pieces 0 [] stream) (\<lambda>x.
       case x of
         None \<Rightarrow> Inr None
       | Some (h, read, rest) \<Rightarrow> complete_request (take h read) (drop (h + 4) read) rest)"

section \<open>Who may use the interface\<close>

definition token_ok :: "http_request \<Rightarrow> string \<Rightarrow> bool" where
  "token_ok req token \<longleftrightarrow> query_value (hr_query req) ''token'' [] = token \<or> map_of (hr_headers req) ''x-kiko-token'' = Some token"

text \<open>What is done with a request before the interface proper.\<close>

datatype client_action = NoAnswer | IndexPage | Refuse nat string string | UseApi http_request

definition handle_web_client :: "string \<Rightarrow> http_request option result \<Rightarrow> client_action" where
  "handle_web_client token asked =
     (case asked of
        Inl e \<Rightarrow> Refuse 400 ''Bad Request'' e
      | Inr None \<Rightarrow> NoAnswer
      | Inr (Some req) \<Rightarrow>
          if hr_path req = ''/'' \<or> hr_path req = ''/index.html'' then IndexPage
          else if take 5 (hr_path req) \<noteq> ''/api/'' then Refuse 404 ''Not Found'' ''not found''
          else if \<not> token_ok req token then Refuse 401 ''Unauthorized'' ''unauthorized''
          else UseApi req)"

section \<open>A request does not depend on how its bytes arrive\<close>

definition request_of_stream :: "string \<Rightarrow> http_request option result" where
  "request_of_stream s =
     (case header_end (take kMaxHeaderBytes s) of
        None \<Rightarrow> if kMaxHeaderBytes \<le> length s then Inl ''request headers too large'' else Inr None
      | Some h \<Rightarrow> complete_request (take h s) [] (drop (h + 4) s))"

lemma header_end_append: "header_end s = Some h \<Longrightarrow> header_end (s @ t) = Some h \<and> h + 4 \<le> length s"
proof (induction s arbitrary: h)
  case (Cons c cs)
  show ?case
  proof (cases "take 4 (c # cs) = blank_line")
    case True
    have "min (length (c # cs)) 4 = length blank_line" using arg_cong [OF True, of length] unfolding length_take .
    then have "4 \<le> length (c # cs)" by (simp add: blank_line_def)
    moreover from this have "take 4 ((c # cs) @ t) = blank_line" using True by (simp only: take_append) simp
    ultimately show ?thesis using Cons.prems True by auto
  next
    case False
    then obtain k where k: "header_end cs = Some k" "h = Suc k" using Cons.prems by auto
    have "k + 4 \<le> length cs" using Cons.IH [OF k(1)] by simp
    then have "take 4 ((c # cs) @ t) = take 4 (c # cs)" by simp
    then show ?thesis using False k Cons.IH [OF k(1)] by simp
  qed
qed simp

lemma complete_request_append: "complete_request head behind stream = complete_request head [] (behind @ stream)"
proof (cases "parse_head head")
  case (Some req)
  then show ?thesis by (cases "content_length (hr_headers req)") (auto simp: complete_request_def)
qed (simp add: complete_request_def)

lemma read_head_outcome:
  assumes "length read \<le> kMaxHeaderBytes"
  shows "case read_head pieces i read stream of
      Inl e \<Rightarrow> e = ''request headers too large'' \<and> header_end (take kMaxHeaderBytes (read @ stream)) = None \<and> kMaxHeaderBytes \<le> length (read @ stream)
    | Inr None \<Rightarrow> header_end (take kMaxHeaderBytes (read @ stream)) = None \<and> length (read @ stream) < kMaxHeaderBytes
    | Inr (Some (h, read', rest)) \<Rightarrow> read' @ rest = read @ stream \<and> header_end (take kMaxHeaderBytes (read @ stream)) = Some h \<and> h + 4 \<le> length read'"
  using assms
proof (induction pieces i read stream rule: read_head.induct)
  case (1 pieces i read stream)
  show ?case
  proof (cases "header_end read")
    case (Some h)
    have "take kMaxHeaderBytes (read @ stream) = read @ take (kMaxHeaderBytes - length read) stream" using "1.prems" by simp
    then show ?thesis using Some header_end_append [OF Some] by (subst read_head.simps) simp
  next
    case None
    consider (large) "kMaxHeaderBytes \<le> length read" | (empty) "length read < kMaxHeaderBytes" "stream = []"
      | (more) "length read < kMaxHeaderBytes" "stream \<noteq> []" by fastforce
    then show ?thesis
    proof cases
      case large
      then have "take kMaxHeaderBytes (read @ stream) = read" using "1.prems" by simp
      then show ?thesis using None large by (subst read_head.simps) simp
    next
      case empty
      then show ?thesis using None by (subst read_head.simps) simp
    next
      case more
      let ?n = "min (max 1 (pieces i)) (min 4096 (kMaxHeaderBytes - length read))"
      have n: "\<not> kMaxHeaderBytes \<le> length read" "length (read @ take ?n stream) \<le> kMaxHeaderBytes" using more(1) by auto
      have step: "read_head pieces i read stream = read_head pieces (Suc i) (read @ take ?n stream) (drop ?n stream)"
        using None more n(1) by (subst read_head.simps) (simp add: Let_def)
      have whole: "(read @ take ?n stream) @ drop ?n stream = read @ stream" by simp
      show ?thesis using "1.IH" [OF None n(1) more(2) refl n(2)] unfolding step whole .
    qed
  qed
qed

text \<open>
  C37: A request does not depend on how its bytes arrive: whatever the pieces in which the network delivers them, the
  request that is read, and every error, are those of the bytes as a whole; the head of a request is refused exactly if it
  has no end within 32 KiB.
\<close>

theorem request_independent_of_pieces: "read_http_request pieces stream = request_of_stream stream"
proof -
  have o: "case read_head pieces 0 [] stream of
      Inl e \<Rightarrow> e = ''request headers too large'' \<and> header_end (take kMaxHeaderBytes stream) = None \<and> kMaxHeaderBytes \<le> length stream
    | Inr None \<Rightarrow> header_end (take kMaxHeaderBytes stream) = None \<and> length stream < kMaxHeaderBytes
    | Inr (Some (h, read, rest)) \<Rightarrow> read @ rest = stream \<and> header_end (take kMaxHeaderBytes stream) = Some h \<and> h + 4 \<le> length read"
    by (rule read_head_outcome [where read = "[]" and pieces = pieces and i = 0 and stream = stream, unfolded append_Nil]) simp
  show ?thesis
  proof (cases "read_head pieces 0 [] stream")
    case (Inl e)
    then show ?thesis using o by (simp add: read_http_request_def request_of_stream_def)
  next
    case (Inr x)
    show ?thesis
    proof (cases x)
      case None
      then have "header_end (take kMaxHeaderBytes stream) = None" "\<not> kMaxHeaderBytes \<le> length stream" using Inr o by auto
      then show ?thesis using None Inr by (simp only: read_http_request_def request_of_stream_def) simp
    next
      case (Some p)
      obtain h read rest where p: "p = (h, read, rest)" by (cases p)
      then have r: "stream = read @ rest" "header_end (take kMaxHeaderBytes stream) = Some h" "h + 4 \<le> length read"
        using Inr Some o by auto
      have "read_http_request pieces stream = complete_request (take h read) (drop (h + 4) read) rest"
        using Inr Some p by (simp add: read_http_request_def)
      also have "\<dots> = complete_request (take h stream) [] (drop (h + 4) stream)"
        using r(3) by (subst complete_request_append) (simp add: r(1))
      finally show ?thesis using r(2) by (simp add: request_of_stream_def)
    qed
  qed
qed

section \<open>What a browser encodes is decoded\<close>

definition upper_hex :: "nat \<Rightarrow> char" where
  "upper_hex n = char_of (if n < 10 then 48 + n else 55 + n)"

definition unreserved :: "char \<Rightarrow> bool" where
  "unreserved c \<longleftrightarrow> isalnum c \<or> c \<in> {CHR ''-'', CHR ''_'', CHR ''.'', CHR ''!'', CHR ''~'', CHR ''*'', CHR 0x27, CHR ''('', CHR '')''}"

text \<open>\<open>encodeURIComponent\<close>\<close>

definition encode_char :: "char \<Rightarrow> string" where
  "encode_char c = (if unreserved c then [c] else [CHR ''%'', upper_hex (of_char c div 16), upper_hex (of_char c mod 16)])"

definition url_encode :: "string \<Rightarrow> string" where
  "url_encode s = concat (map encode_char s)"

lemma nibble_cases: "(n :: nat) < 16 \<Longrightarrow> n \<in> {0, 1, 2, 3, 4, 5, 6, 7, 8, 9, 10, 11, 12, 13, 14, 15}"
  by (simp only: insert_iff empty_iff) arith

lemma upper_hex_facts:
  assumes "n < 16"
  shows "is_hex (upper_hex n)" "hex_value (upper_hex n) = n" "\<not> isspace (upper_hex n)"
    "upper_hex n \<notin> {CHR ''-'', CHR ''+'', CHR ''%'', CHR ''&'', CHR ''='', CHR 0x00}"
  using nibble_cases [OF assms] by (elim insertE emptyE; hypsubst; code_simp)+

lemma strtoul_pair:
  assumes "a < 16" "b < 16"
  shows "strtoul16 [upper_hex a, upper_hex b] = (of_nat (16 * a + b), [])"
  using upper_hex_facts [OF assms(1)] upper_hex_facts [OF assms(2)] by (simp add: strtoul16_def Let_def)

lemma decode_other: "c \<noteq> CHR ''%'' \<Longrightarrow> c \<noteq> CHR ''+'' \<Longrightarrow> url_decode (c # rest) = c # url_decode rest"
  by (cases rest; cases "tl rest") auto

lemma nibbles: "(of_char c :: nat) div 16 < 16" "(of_char c :: nat) mod 16 < 16"
  using nat_of_char_less_256 [of c] by arith+

lemma decode_encode_char: "url_decode (encode_char c @ rest) = c # url_decode rest"
proof (cases "unreserved c")
  case True
  moreover have "\<not> unreserved CHR ''%''" "\<not> unreserved CHR ''+''" by code_simp+
  ultimately have "c \<noteq> CHR ''%''" "c \<noteq> CHR ''+''" by metis+
  then show ?thesis using True decode_other by (simp add: encode_char_def)
next
  case False
  let ?n = "of_char c :: nat"
  note n = nat_of_char_less_256 [of c] nibbles [of c]
  have "unat (of_nat (16 * (?n div 16) + ?n mod 16) :: u64) mod 256 = ?n" using n(1) by (simp only: mult_div_mod_eq) (simp add: unat_of_nat mod_less [OF less_trans [OF n(1)]])
  then show ?thesis
    using False strtoul_pair [OF n(2,3)] upper_hex_facts(4) [OF n(2)] upper_hex_facts(4) [OF n(3)] by (simp add: encode_char_def)
qed

lemma url_roundtrip: "url_decode (url_encode s) = s"
  by (induction s) (simp_all add: url_encode_def decode_encode_char)

definition query_part :: "string \<times> string \<Rightarrow> string" where
  "query_part p = url_encode (fst p) @ CHR ''='' # url_encode (snd p)"

definition query_text :: "(string \<times> string) list \<Rightarrow> string" where
  "query_text ps = (case ps of [] \<Rightarrow> [] | p # ps \<Rightarrow> query_part p @ concat (map (\<lambda>q. CHR ''&'' # query_part q) ps))"

lemma encode_no_separator: "CHR ''&'' \<notin> set (url_encode s)" "CHR ''='' \<notin> set (url_encode s)"
proof -
  have "CHR ''&'' \<notin> set (encode_char c) \<and> CHR ''='' \<notin> set (encode_char c)" for c
  proof -
    have "\<not> unreserved CHR ''&''" "\<not> unreserved CHR ''=''" by code_simp+
    then show ?thesis
      using nibbles [of c] upper_hex_facts(4) [of "of_char c div 16"] upper_hex_facts(4) [of "of_char c mod 16"] by (auto simp: encode_char_def)
  qed
  then show "CHR ''&'' \<notin> set (url_encode s)" "CHR ''='' \<notin> set (url_encode s)" by (auto simp: url_encode_def)
qed

lemma add_encoded_part: "add_query_part (query_part p) out = omap_put (fst p) (snd p) out"
  by (simp add: add_query_part_def query_part_def encode_no_separator url_roundtrip)

lemma parse_encoded_parts:
  "parse_query_from (query_part p @ concat (map (\<lambda>q. CHR ''&'' # query_part q) ps)) out =
     fold (\<lambda>q. omap_put (fst q) (snd q)) (p # ps) out"
proof (induction ps arbitrary: p out)
  have no: "CHR ''&'' \<notin> set (query_part p)" for p by (simp add: query_part_def encode_no_separator)
  {
    case Nil
    show ?case by (subst parse_query_from.simps) (simp add: no add_encoded_part)
  next
    case (Cons q ps)
    show ?case by (subst parse_query_from.simps) (simp add: no add_encoded_part Cons)
  }
qed

text \<open>
  C38: Whatever names and values a browser encodes into a query, the interface reads the same names and values; of values
  with the same name the last one counts.
\<close>

theorem query_roundtrip: "parse_query (query_text ps) = fold (\<lambda>p. omap_put (fst p) (snd p)) ps []"
proof (cases ps)
  case Nil
  then show ?thesis unfolding query_text_def parse_query_def by (subst parse_query_from.simps) (simp add: add_query_part_def)
next
  case (Cons p ps')
  then show ?thesis using parse_encoded_parts by (simp add: query_text_def parse_query_def)
qed

text \<open>A percent sign with a sign or a space and one digit is decoded as well.\<close>

lemma signed_percent_decoded: "url_decode ''%-1'' = [char_of (255 :: nat)]" "url_decode ''% 1'' = [char_of (1 :: nat)]"
  by (simp_all add: strtoul16_def isspace_def is_hex_def isdigit_def hex_value_def Let_def unsigned_minus_1_eq_mask mask_eq_exp_minus_1)

end
