(* ===== verification/Web_Job.thy ===== *)
theory Web_Job
  imports Progress_State Note_Workspace
begin

text \<open>
  The task of the browser interface (web/web_job.cpp): one store holds the state that the pages show, the thread that
  works, and the flag that cancels it. Calls of several request threads and of the accepting loop run at the same
  time; each section under the store's lock is one atomic step, and the steps interleave in every order.
\<close>

section \<open>The state shown\<close>

record job_snapshot =
  js_progress :: transfer_progress
  js_kind :: string
  js_running :: bool
  js_doctor_json :: string
  js_doctor_summary :: string
  js_note :: note_snapshot
  js_note_connected :: bool

definition job_log_lines :: nat where "job_log_lines = 120"

definition empty_note_snapshot :: note_snapshot where
  "empty_note_snapshot = \<lparr>ns_active_pad = ''main'', ns_documents = [], ns_latest_local_revision = 0, ns_last_acked_revision = 0,
     ns_has_local_updates = False, ns_synced = False\<rparr>"

definition idle_progress :: transfer_progress where
  "idle_progress = \<lparr>tp_activity = [], tp_code = [], tp_current_file = [], tp_current_done = 0, tp_current_size = 0,
     tp_overall_done = 0, tp_overall_total = 0, tp_files_done = 0, tp_files_total = 0, tp_route_phase = [], tp_route_summary = [],
     tp_route_timing = [], tp_receive_plan = empty_plan_summary, tp_has_receive_plan = False, tp_handshake = False,
     tp_finished = False, tp_failed = False, tp_canceled = False, tp_error = [], tp_logs = [], tp_started = 0, tp_ended = None\<rparr>"

definition new_snapshot :: job_snapshot where
  "new_snapshot = \<lparr>js_progress = idle_progress, js_kind = [], js_running = False, js_doctor_json = [], js_doctor_summary = [],
     js_note = empty_note_snapshot, js_note_connected = False\<rparr>"

definition on_progress :: "(transfer_progress \<Rightarrow> transfer_progress) \<Rightarrow> job_snapshot \<Rightarrow> job_snapshot" where
  "on_progress f st = st\<lparr>js_progress := f (js_progress st)\<rparr>"

definition set_activity :: "string \<Rightarrow> job_snapshot \<Rightarrow> job_snapshot" where
  "set_activity a = on_progress (\<lambda>p. p\<lparr>tp_activity := a\<rparr>)"

definition job_append_log :: "string \<Rightarrow> job_snapshot \<Rightarrow> job_snapshot" where
  "job_append_log line = on_progress (append_log job_log_lines line)"

text \<open>The ends of a task.\<close>

definition finish_job_success :: "string \<Rightarrow> int \<Rightarrow> job_snapshot \<Rightarrow> job_snapshot" where
  "finish_job_success activity now st =
     (let st = st\<lparr>js_running := False\<rparr>
      in if \<not> tp_failed (js_progress st) \<and> \<not> tp_canceled (js_progress st) then on_progress (finish_success activity now) st else st)"

definition finish_job_failed :: "string \<Rightarrow> int \<Rightarrow> job_snapshot \<Rightarrow> job_snapshot" where
  "finish_job_failed err now st = on_progress (finish_failed job_log_lines err now) (st\<lparr>js_running := False\<rparr>)"

definition finish_job_canceled :: "int \<Rightarrow> job_snapshot \<Rightarrow> job_snapshot" where
  "finish_job_canceled now st = on_progress (finish_canceled job_log_lines now) (st\<lparr>js_running := False\<rparr>)"

text \<open>A shared notepad reports that it is connected, and that its workspace has changed.\<close>

definition note_now_connected :: "string \<Rightarrow> route_outcome \<Rightarrow> job_snapshot \<Rightarrow> job_snapshot" where
  "note_now_connected code outcome st =
     job_append_log (''notepad connected via '' @ ro_data_path outcome)
       (on_progress (\<lambda>p.
          let p = p\<lparr>tp_code := code\<rparr>;
              p = (if tp_route_summary p = [] then p\<lparr>tp_route_summary := format_route_outcome_label outcome\<rparr> else p)
          in p\<lparr>tp_activity := ''notepad connected''\<rparr>) (st\<lparr>js_note_connected := True\<rparr>))"

definition note_now_changed :: "note_snapshot \<Rightarrow> bool \<Rightarrow> string \<Rightarrow> job_snapshot \<Rightarrow> job_snapshot" where
  "note_now_changed snapshot remote pad st =
     set_activity
       (if remote then (if ns_active_pad snapshot = pad then ''remote note update'' else ''remote note updated '' @ pad)
        else if ns_synced snapshot then ''notepad synced'' else ''notepad sent'')
       (st\<lparr>js_note := snapshot\<rparr>)"

text \<open>The report of the doctor and its text for the pages.\<close>

definition doctor_done :: "string \<Rightarrow> string \<Rightarrow> job_snapshot \<Rightarrow> job_snapshot" where
  "doctor_done json_text diagnosis st =
     job_append_log diagnosis (set_activity ''doctor complete'' (st\<lparr>js_doctor_json := json_text, js_doctor_summary := diagnosis\<rparr>))"

section \<open>Sections under the lock\<close>

text \<open>
  A cancellation flag, a session of a notepad and a thread are named by the call that made them. \<open>jo_worker\<close> is the
  thread object that can be joined.
\<close>

record 't job_store =
  jo_state :: job_snapshot
  jo_cancellation :: "'t option"
  jo_note :: "'t option"
  jo_worker :: "'t option"

definition begin_task :: "string \<Rightarrow> 't \<Rightarrow> int \<Rightarrow> 't job_store \<Rightarrow> string option \<times> 't job_store" where
  "begin_task kind token now jo =
     (if js_running (jo_state jo) then (Some ''another kiko web task is already running'', jo)
      else (None, jo\<lparr>jo_note := None,
              jo_state := on_progress (\<lambda>p. p\<lparr>tp_activity := ''starting'', tp_started := now\<rparr>) (new_snapshot\<lparr>js_kind := kind, js_running := True\<rparr>),
              jo_cancellation := Some token\<rparr>))"

definition reset_task :: "'t job_store \<Rightarrow> 't job_store" where
  "reset_task jo = jo\<lparr>jo_note := None, jo_cancellation := None, jo_state := new_snapshot\<rparr>"

text \<open>\<open>thread_error\<close>: the system starts no thread.\<close>

definition launch_worker :: "'t \<Rightarrow> string option \<Rightarrow> 't job_store \<Rightarrow> string option \<times> 't job_store" where
  "launch_worker t thread_error jo =
     (if jo_worker jo \<noteq> None then (Some ''previous web task worker is still active'', jo)
      else case thread_error of Some e \<Rightarrow> (Some e, jo) | None \<Rightarrow> (None, jo\<lparr>jo_worker := Some t\<rparr>))"

text \<open>What a task of the notepad sets before its thread starts.\<close>

definition initialize_note :: "'t \<Rightarrow> bool \<Rightarrow> string \<Rightarrow> note_snapshot \<Rightarrow> 't job_store \<Rightarrow> 't job_store" where
  "initialize_note t hosting code snapshot jo =
     jo\<lparr>jo_note := Some t,
        jo_state := (on_progress (\<lambda>p. p\<lparr>tp_activity := (if hosting then ''hosting notepad'' else ''joining notepad''), tp_code := code\<rparr>) (jo_state jo))
          \<lparr>js_note := snapshot\<rparr>\<rparr>"

text \<open>\<open>join_finished_worker\<close>: the thread to wait for.\<close>

definition take_worker :: "'t job_store \<Rightarrow> 't option \<times> 't job_store" where
  "take_worker jo =
     (if js_running (jo_state jo) then (None, jo) else (jo_worker jo, jo\<lparr>jo_worker := None\<rparr>))"

text \<open>\<open>cancel\<close>: what it cancels, whether it logs, and the state.\<close>

definition cancel_locked :: "'t job_store \<Rightarrow> 't option \<times> 't option \<times> bool \<times> 't job_store" where
  "cancel_locked jo =
     (jo_cancellation jo, jo_note jo,
      js_running (jo_state jo) \<and> tp_activity (js_progress (jo_state jo)) \<noteq> ''cancel requested'',
      if js_running (jo_state jo) then jo\<lparr>jo_state := set_activity ''cancel requested'' (jo_state jo)\<rparr> else jo)"

section \<open>Entry points\<close>

text \<open>What is checked before a task starts.\<close>

definition start_send_check :: "string list \<Rightarrow> string option" where
  "start_send_check file = (if file = [] then Some ''send path is required'' else None)"

definition start_recv_check :: "string \<Rightarrow> string option" where
  "start_recv_check code = (if code = [] then Some ''receive code is required'' else None)"

definition start_note_check :: "bool \<Rightarrow> string \<Rightarrow> string option" where
  "start_note_check receiver code = (if receiver \<and> code = [] then Some ''note code is required'' else None)"

text \<open>How a transfer ends: the text of its success, or its error.\<close>

definition transfer_result :: "string \<Rightarrow> int result \<Rightarrow> string result" where
  "transfer_result activity rc =
     andthen rc (\<lambda>n. if n \<noteq> 0 then Inl (activity @ '' exited with code '' @ int_text n) else Inr (activity @ '' complete''))"

text \<open>
  A change of the notepad by the user, without other calls in between: \<open>changed\<close> says whether the session took it, with its new state. Only a running
  notepad is changed.
\<close>

definition mutate_note :: "bool \<times> note_snapshot \<Rightarrow> string \<Rightarrow> string \<Rightarrow> 't job_store \<Rightarrow> string option \<times> 't job_store" where
  "mutate_note changed activity failure jo =
     (if \<not> js_running (jo_state jo) \<or> js_kind (jo_state jo) \<noteq> ''note'' \<or> jo_note jo = None then (Some ''notepad is not running'', jo)
      else if \<not> fst changed then (Some failure, jo)
      else (None, jo\<lparr>jo_state := set_activity activity ((jo_state jo)\<lparr>js_note := snd changed\<rparr>)\<rparr>))"

definition update_note :: "string \<Rightarrow> bool \<times> note_snapshot \<Rightarrow> 't job_store \<Rightarrow> string option \<times> 't job_store" where
  "update_note t changed jo =
     (if kNoteMaxBytes < length t then (Some ''note text exceeds 1 MiB limit'', jo)
      else mutate_note changed ''notepad syncing'' ''notepad is closed'' jo)"

definition clear_note :: "bool \<times> note_snapshot \<Rightarrow> 't job_store \<Rightarrow> string option \<times> 't job_store" where
  "clear_note changed jo = mutate_note changed ''notepad syncing'' ''notepad is closed'' jo"

definition create_note_pad :: "string \<Rightarrow> bool \<times> note_snapshot \<Rightarrow> 't job_store \<Rightarrow> string option \<times> 't job_store" where
  "create_note_pad title changed jo = mutate_note changed (''created '' @ title) ''notepad is closed'' jo"

definition select_note_pad :: "string \<Rightarrow> bool \<times> note_snapshot \<Rightarrow> 't job_store \<Rightarrow> string option \<times> 't job_store" where
  "select_note_pad pad changed jo =
     (if pad = [] then (Some ''note pad id is required'', jo)
      else mutate_note changed (''selected '' @ pad) ''note pad not found'' jo)"

section \<open>Calls and workers at the same time\<close>

text \<open>
  A call of \<open>start_task\<close>, of the accepting loop's \<open>join_finished_worker\<close>, or of \<open>cancel\<close>. A note task carries what
  its session shows at first.
\<close>

datatype task_kind = PlainTask string | NoteTask bool string note_snapshot

datatype 't job_call =
  StartJoin task_kind
| StartJoining task_kind 't
| StartBegin task_kind
| StartInit task_kind
| StartLaunch task_kind
| StartReset string
| StartRefused string
| TaskStarted
| JoinFinished
| Joining 't
| CancelStart
| CancelLog "'t option" bool
| CancelRequest "'t option"
| CallDone

datatype worker_pc = NoWorker | Working | Ended

record 't web_jobs =
  wj_store :: "'t job_store"
  wj_call :: "'t \<Rightarrow> 't job_call"
  wj_worker :: "'t \<Rightarrow> worker_pc"
  wj_decision :: "'t \<Rightarrow> (string result \<times> bool) option" \<comment> \<open>how the task of a thread came out, and the flag as the thread read it then\<close>
  wj_requested :: "'t set"

definition kind_name :: "task_kind \<Rightarrow> string" where
  "kind_name k = (case k of PlainTask n \<Rightarrow> n | NoteTask _ _ _ \<Rightarrow> ''note'')"

definition initialize_task :: "'t \<Rightarrow> task_kind \<Rightarrow> 't job_store \<Rightarrow> 't job_store" where
  "initialize_task t k jo = (case k of PlainTask _ \<Rightarrow> jo | NoteTask hosting code snapshot \<Rightarrow> initialize_note t hosting code snapshot jo)"

definition move_call :: "'t \<Rightarrow> 't job_call \<Rightarrow> 't web_jobs \<Rightarrow> 't web_jobs" where
  "move_call t c s = s\<lparr>wj_call := (wj_call s)(t := c)\<rparr>"

text \<open>One step of a call; \<open>None\<close>: it waits for a thread or has returned. \<open>now\<close> and \<open>thread_error\<close> come from the system.\<close>

definition call_step :: "'t \<Rightarrow> int \<Rightarrow> string option \<Rightarrow> 't web_jobs \<Rightarrow> 't web_jobs option" where
  "call_step t now thread_error s =
     (case wj_call s t of
        StartJoin k \<Rightarrow>
          (case take_worker (wj_store s) of (w, jo) \<Rightarrow>
             Some (move_call t (case w of None \<Rightarrow> StartBegin k | Some w \<Rightarrow> StartJoining k w) (s\<lparr>wj_store := jo\<rparr>)))
      | StartJoining k w \<Rightarrow> if wj_worker s w = Ended then Some (move_call t (StartBegin k) s) else None
      | StartBegin k \<Rightarrow>
          (case begin_task (kind_name k) t now (wj_store s) of (e, jo) \<Rightarrow>
             Some (move_call t (case e of None \<Rightarrow> StartInit k | Some e \<Rightarrow> StartRefused e) (s\<lparr>wj_store := jo\<rparr>)))
      | StartInit k \<Rightarrow> Some (move_call t (StartLaunch k) (s\<lparr>wj_store := initialize_task t k (wj_store s)\<rparr>))
      | StartLaunch k \<Rightarrow>
          (case launch_worker t thread_error (wj_store s) of
             (Some e, jo) \<Rightarrow> Some (move_call t (StartReset e) (s\<lparr>wj_store := jo\<rparr>))
           | (None, jo) \<Rightarrow> Some (move_call t TaskStarted (s\<lparr>wj_store := jo, wj_worker := (wj_worker s)(t := Working)\<rparr>)))
      | StartReset e \<Rightarrow> Some (move_call t (StartRefused e) (s\<lparr>wj_store := reset_task (wj_store s)\<rparr>))
      | JoinFinished \<Rightarrow>
          (case take_worker (wj_store s) of (w, jo) \<Rightarrow>
             Some (move_call t (case w of None \<Rightarrow> CallDone | Some w \<Rightarrow> Joining w) (s\<lparr>wj_store := jo\<rparr>)))
      | Joining w \<Rightarrow> if wj_worker s w = Ended then Some (move_call t CallDone s) else None
      | CancelStart \<Rightarrow>
          (case cancel_locked (wj_store s) of (token, session, logs, jo) \<Rightarrow> Some (move_call t (CancelLog token logs) (s\<lparr>wj_store := jo\<rparr>)))
      | CancelLog token logs \<Rightarrow>
          Some (move_call t (CancelRequest token)
            (if logs then s\<lparr>wj_store := (wj_store s)\<lparr>jo_state := job_append_log ''cancel requested'' (jo_state (wj_store s))\<rparr>\<rparr> else s))
      | CancelRequest token \<Rightarrow>
          Some (move_call t CallDone (case token of None \<Rightarrow> s | Some c \<Rightarrow> s\<lparr>wj_requested := insert c (wj_requested s)\<rparr>))
      | _ \<Rightarrow> None)"

text \<open>
  What the thread of a task does: it changes what is shown, cancels itself, reads the cancellation flag when its task
  has come out, and then ends with the update of what is shown.
\<close>

datatype worker_event =
  Reports "progress_op \<times> int"
| ReportsLog string
| ReportsDoctor string string
| ReportsConnected string route_outcome
| ReportsNote note_snapshot bool string
| CancelsItself
| ReadsFlag "string result"
| Ends int

definition worker_update :: "worker_event \<Rightarrow> (string result \<times> bool) option \<Rightarrow> job_snapshot \<Rightarrow> job_snapshot" where
  "worker_update e decision st =
     (case e of
        Reports op \<Rightarrow> on_progress (progress_step job_log_lines op) st
      | ReportsLog line \<Rightarrow> job_append_log line st
      | ReportsDoctor j d \<Rightarrow> doctor_done j d st
      | ReportsConnected c ro \<Rightarrow> note_now_connected c ro st
      | ReportsNote n r p \<Rightarrow> note_now_changed n r p st
      | CancelsItself \<Rightarrow> st
      | ReadsFlag _ \<Rightarrow> st
      | Ends now \<Rightarrow>
          (case decision of
             None \<Rightarrow> st
           | Some (_, True) \<Rightarrow> finish_job_canceled now st
           | Some (Inl e, False) \<Rightarrow> finish_job_failed e now st
           | Some (Inr activity, False) \<Rightarrow> finish_job_success activity now st))"

text \<open>The thread ends after it has read the flag, and does nothing else in between.\<close>

definition worker_may :: "worker_event \<Rightarrow> (string result \<times> bool) option \<Rightarrow> bool" where
  "worker_may e decision \<longleftrightarrow> (case e of Ends _ \<Rightarrow> decision \<noteq> None | _ \<Rightarrow> decision = None)"

definition task_thread_step :: "'t \<Rightarrow> worker_event \<Rightarrow> 't web_jobs \<Rightarrow> 't web_jobs option" where
  "task_thread_step t e s =
     (if wj_worker s t \<noteq> Working \<or> \<not> worker_may e (wj_decision s t) then None
      else
        let s = s\<lparr>wj_store := (wj_store s)\<lparr>jo_state := worker_update e (wj_decision s t) (jo_state (wj_store s))\<rparr>\<rparr>
        in Some (case e of
             CancelsItself \<Rightarrow> s\<lparr>wj_requested := insert t (wj_requested s)\<rparr>
           | ReadsFlag res \<Rightarrow> s\<lparr>wj_decision := (wj_decision s)(t \<mapsto> (res, t \<in> wj_requested s))\<rparr>
           | Ends _ \<Rightarrow> s\<lparr>wj_worker := (wj_worker s)(t := Ended)\<rparr>
           | _ \<Rightarrow> s))"

definition new_job_store :: "'t job_store" where
  "new_job_store = \<lparr>jo_state = new_snapshot, jo_cancellation = None, jo_note = None, jo_worker = None\<rparr>"

definition web_jobs_start :: "('t \<Rightarrow> 't job_call) \<Rightarrow> 't web_jobs" where
  "web_jobs_start calls = \<lparr>wj_store = new_job_store, wj_call = calls, wj_worker = (\<lambda>_. NoWorker), wj_decision = (\<lambda>_. None),
     wj_requested = {}\<rparr>"

definition fresh_job_call :: "'t job_call \<Rightarrow> bool" where
  "fresh_job_call c \<longleftrightarrow> (case c of StartJoin _ \<Rightarrow> True | JoinFinished \<Rightarrow> True | CancelStart \<Rightarrow> True | CallDone \<Rightarrow> True | _ \<Rightarrow> False)"

inductive web_jobs_run :: "('t \<Rightarrow> 't job_call) \<Rightarrow> 't web_jobs \<Rightarrow> bool" for calls where
  start: "web_jobs_run calls (web_jobs_start calls)"
| call: "web_jobs_run calls s \<Longrightarrow> call_step t now thread_error s = Some s' \<Longrightarrow> web_jobs_run calls s'"
| worker: "web_jobs_run calls s \<Longrightarrow> task_thread_step t e s = Some s' \<Longrightarrow> web_jobs_run calls s'"

section \<open>One task at a time\<close>

text \<open>A call owns the task from its beginning until its thread has ended or its start is undone.\<close>

definition starting :: "'t job_call \<Rightarrow> bool" where
  "starting c \<longleftrightarrow> (case c of StartInit _ \<Rightarrow> True | StartLaunch _ \<Rightarrow> True | StartReset _ \<Rightarrow> True | _ \<Rightarrow> False)"

definition joins :: "'t job_call \<Rightarrow> 't option" where
  "joins c = (case c of StartJoining _ w \<Rightarrow> Some w | Joining w \<Rightarrow> Some w | _ \<Rightarrow> None)"

definition owns_task :: "'t web_jobs \<Rightarrow> 't \<Rightarrow> bool" where
  "owns_task s t \<longleftrightarrow> starting (wj_call s t) \<or> wj_worker s t = Working"

definition jobs_inv :: "'t web_jobs \<Rightarrow> bool" where
  "jobs_inv s \<longleftrightarrow>
     (\<forall>t u. owns_task s t \<longrightarrow> owns_task s u \<longrightarrow> t = u) \<and>
     (js_running (jo_state (wj_store s)) \<longleftrightarrow> (\<exists>t. owns_task s t)) \<and>
     (\<forall>t. wj_worker s t \<noteq> NoWorker \<longrightarrow> wj_call s t = TaskStarted) \<and>
     (\<forall>t. wj_worker s t = Working \<longrightarrow> jo_worker (wj_store s) = Some t) \<and>
     (\<forall>w. jo_worker (wj_store s) = Some w \<longrightarrow> wj_worker s w \<noteq> NoWorker) \<and>
     (\<forall>t w. joins (wj_call s t) = Some w \<longrightarrow> wj_worker s w = Ended) \<and>
     (\<forall>t. owns_task s t \<longrightarrow> jo_cancellation (wj_store s) = Some t)"

lemma worker_update_running:
  "worker_may e d \<Longrightarrow> js_running (worker_update e d st) = (case e of Ends _ \<Rightarrow> False | _ \<Rightarrow> js_running st)"
  by (cases d) (simp_all add: worker_may_def  worker_update_def on_progress_def job_append_log_def doctor_done_def set_activity_def note_now_connected_def
      note_now_changed_def finish_job_canceled_def finish_job_failed_def finish_job_success_def Let_def split: worker_event.splits option.splits prod.split sum.split bool.split)

lemma initialize_task_simps [simp]:
  "js_running (jo_state (initialize_task t k jo)) = js_running (jo_state jo)" "jo_worker (initialize_task t k jo) = jo_worker jo"
  "jo_cancellation (initialize_task t k jo) = jo_cancellation jo"
  by (simp_all add: initialize_task_def initialize_note_def on_progress_def split: task_kind.split)

lemma set_activity_running [simp]:
  "js_running (set_activity a st) = js_running st" "js_running (job_append_log l st) = js_running st"
  by (simp_all add: set_activity_def job_append_log_def on_progress_def)

lemma jobs_invD:
  assumes "jobs_inv s"
  shows "owns_task s t \<Longrightarrow> owns_task s u \<Longrightarrow> t = u" "js_running (jo_state (wj_store s)) \<longleftrightarrow> (\<exists>t. owns_task s t)"
    "wj_worker s t \<noteq> NoWorker \<Longrightarrow> wj_call s t = TaskStarted" "wj_worker s t = Working \<Longrightarrow> jo_worker (wj_store s) = Some t"
    "jo_worker (wj_store s) = Some w \<Longrightarrow> wj_worker s w \<noteq> NoWorker"
    "joins (wj_call s t) = Some w \<Longrightarrow> wj_worker s w = Ended" "owns_task s t \<Longrightarrow> jo_cancellation (wj_store s) = Some t"
  using assms unfolding jobs_inv_def by blast+

lemma jobs_invI:
  assumes "\<And>t u. owns_task s t \<Longrightarrow> owns_task s u \<Longrightarrow> t = u" "js_running (jo_state (wj_store s)) = (\<exists>t. owns_task s t)"
    "\<And>t. wj_worker s t \<noteq> NoWorker \<Longrightarrow> wj_call s t = TaskStarted" "\<And>t. wj_worker s t = Working \<Longrightarrow> jo_worker (wj_store s) = Some t"
    "\<And>w. jo_worker (wj_store s) = Some w \<Longrightarrow> wj_worker s w \<noteq> NoWorker"
    "\<And>t w. joins (wj_call s t) = Some w \<Longrightarrow> wj_worker s w = Ended" "\<And>t. owns_task s t \<Longrightarrow> jo_cancellation (wj_store s) = Some t"
  shows "jobs_inv s"
  using assms unfolding jobs_inv_def by blast

lemma owned_running: "jobs_inv s \<Longrightarrow> \<not> js_running (jo_state (wj_store s)) \<Longrightarrow> wj_worker s u \<noteq> Working"
  using jobs_invD(2) [of s] by (auto simp: owns_task_def)

text \<open>A step that does not change who owns the task.\<close>

lemma jobs_inv_same_owner:
  assumes "jobs_inv s" "wj_worker s' = wj_worker s" "\<And>u. u \<noteq> t \<Longrightarrow> wj_call s' u = wj_call s u" "wj_call s t \<noteq> TaskStarted"
    "starting (wj_call s' t) = starting (wj_call s t)" "js_running (jo_state (wj_store s')) = js_running (jo_state (wj_store s))"
    "jo_worker (wj_store s') = jo_worker (wj_store s) \<or> jo_worker (wj_store s') = None \<and> \<not> js_running (jo_state (wj_store s))"
    "\<And>w. joins (wj_call s' t) = Some w \<Longrightarrow> wj_worker s w = Ended" "jo_cancellation (wj_store s') = jo_cancellation (wj_store s)"
  shows "jobs_inv s'"
proof -
  have own: "owns_task s' u = owns_task s u" for u
    using assms(2,3,5) by (cases "u = t") (simp_all add: owns_task_def)
  note inv = jobs_invD [OF assms(1)]
  show ?thesis
  proof (rule jobs_invI, unfold own assms(2,6,9))
    show "wj_call s' u = TaskStarted" if "wj_worker s u \<noteq> NoWorker" for u
      using inv(3) [OF that] assms(3,4) by (cases "u = t") simp_all
    show "jo_worker (wj_store s') = Some u" if "wj_worker s u = Working" for u
      using inv(4) [OF that] owned_running [OF assms(1)] that assms(7) by auto
    show "wj_worker s w \<noteq> NoWorker" if "jo_worker (wj_store s') = Some w" for w
      using inv(5) [of w] assms(7) that by auto
    show "wj_worker s w = Ended" if "joins (wj_call s' u) = Some w" for u w
      using inv(6) [of u w] assms(3,8) that by (cases "u = t") simp_all
  qed (fact inv(1), fact inv(2), fact inv(7))
qed

lemma take_worker_facts:
  assumes "jobs_inv s" "take_worker (wj_store s) = (w, jo)"
  shows "jo_state jo = jo_state (wj_store s)" "jo_cancellation jo = jo_cancellation (wj_store s)" "w = Some x \<Longrightarrow> wj_worker s x = Ended"
    "jo_worker jo = jo_worker (wj_store s) \<or> jo_worker jo = None \<and> \<not> js_running (jo_state (wj_store s))"
proof -
  have e: "wj_worker s x = Ended" if "jo_worker (wj_store s) = Some x" "\<not> js_running (jo_state (wj_store s))"
    using jobs_invD(5) [OF assms(1) that(1)] owned_running [OF assms(1) that(2), of x] by (cases "wj_worker s x") auto
  show "jo_state jo = jo_state (wj_store s)" "jo_cancellation jo = jo_cancellation (wj_store s)" "w = Some x \<Longrightarrow> wj_worker s x = Ended"
    "jo_worker jo = jo_worker (wj_store s) \<or> jo_worker jo = None \<and> \<not> js_running (jo_state (wj_store s))"
    using assms(2) e by (auto simp: take_worker_def split: if_splits)
qed

lemmas call_simps = call_step_def move_call_def starting_def joins_def

lemma begin_step_inv:
  assumes "jobs_inv s" "call_step t now thread_error s = Some s'" "wj_call s t = StartBegin k"
  shows "jobs_inv s'"
proof -
  note inv = jobs_invD [OF assms(1)]
  obtain e jo where e: "begin_task (kind_name k) t now (wj_store s) = (e, jo)" by fastforce
  show ?thesis
  proof (cases e)
    case (Some x)
    then show ?thesis
      using assms(2,3) e
      by (intro jobs_inv_same_owner [OF assms(1), where t = t]) (auto simp: call_simps begin_task_def split: if_splits)
  next
    case None
    then have idle: "\<not> js_running (jo_state (wj_store s))" using e by (auto simp: begin_task_def split: if_splits)
    have s': "s' = move_call t (StartInit k) (s\<lparr>wj_store := jo\<rparr>)" "jo_worker jo = jo_worker (wj_store s)" "js_running (jo_state jo)"
        "jo_cancellation jo = Some t"
      using assms(2,3) e None by (auto simp: call_step_def begin_task_def on_progress_def split: if_splits)
    have own: "owns_task s' u \<longleftrightarrow> u = t" for u
      using inv(2) idle owned_running [OF assms(1) idle, of u] by (auto simp: s'(1) owns_task_def move_call_def starting_def)
    show ?thesis
    proof (rule jobs_invI, unfold own)
      show "wj_call s' u = TaskStarted" if "wj_worker s' u \<noteq> NoWorker" for u
        using inv(3) [of u] inv(3) [of t] that assms(3) by (auto simp: s'(1) move_call_def)
      show "jo_worker (wj_store s') = Some u" if "wj_worker s' u = Working" for u
        using owned_running [OF assms(1) idle, of u] that by (simp add: s'(1) move_call_def)
      show "wj_worker s' w \<noteq> NoWorker" if "jo_worker (wj_store s') = Some w" for w
        using inv(5) [of w] that by (simp add: s' move_call_def)
      show "wj_worker s' w = Ended" if "joins (wj_call s' u) = Some w" for u w
        using inv(6) [of u w] that by (cases "u = t") (simp_all add: s'(1) move_call_def joins_def)
    qed (use s'(1,3,4) in \<open>simp_all add: move_call_def\<close>)
  qed
qed

lemma launch_step_inv:
  assumes "jobs_inv s" "call_step t now thread_error s = Some s'" "wj_call s t = StartLaunch k"
  shows "jobs_inv s'"
proof -
  note inv = jobs_invD [OF assms(1)]
  obtain e jo where e: "launch_worker t thread_error (wj_store s) = (e, jo)" by fastforce
  show ?thesis
  proof (cases e)
    case (Some x)
    then show ?thesis
      using assms(2,3) e
      by (intro jobs_inv_same_owner [OF assms(1), where t = t]) (auto simp: call_simps launch_worker_def split: if_splits option.splits)
  next
    case None
    have s': "s' = move_call t TaskStarted (s\<lparr>wj_store := jo, wj_worker := (wj_worker s)(t := Working)\<rparr>)" "jo_worker jo = Some t"
        "jo_state jo = jo_state (wj_store s)" "jo_worker (wj_store s) = None" "jo_cancellation jo = jo_cancellation (wj_store s)"
      using assms(2,3) e None by (auto simp: call_step_def launch_worker_def split: if_splits option.splits)
    have t: "owns_task s t" using assms(3) by (simp add: owns_task_def starting_def)
    have own: "owns_task s' u \<longleftrightarrow> u = t" for u
    proof (cases "u = t")
      case True
      then show ?thesis by (simp add: s'(1) owns_task_def move_call_def starting_def)
    next
      case False
      then have "\<not> owns_task s u" using inv(1) [OF t] by blast
      then show ?thesis using False by (simp add: s'(1) owns_task_def move_call_def starting_def)
    qed
    have wt: "wj_worker s t = NoWorker" using inv(3) [of t] assms(3) by auto
    show ?thesis
    proof (rule jobs_invI, unfold own)
      show "wj_call s' u = TaskStarted" if "wj_worker s' u \<noteq> NoWorker" for u
        using inv(3) [of u] that by (cases "u = t") (simp_all add: s'(1) move_call_def)
      show "jo_worker (wj_store s') = Some u" if "wj_worker s' u = Working" for u
        using inv(4) [of u] s'(4) that by (cases "u = t") (simp_all add: s'(1,2) move_call_def)
      show "wj_worker s' w \<noteq> NoWorker" if "jo_worker (wj_store s') = Some w" for w
        using that by (simp add: s'(1,2) move_call_def)
      show "wj_worker s' w = Ended" if "joins (wj_call s' u) = Some w" for u w
        using inv(6) [of u w] that wt by (cases "u = t"; cases "w = t") (simp_all add: s'(1) move_call_def joins_def)
    next
      show "js_running (jo_state (wj_store s')) = (\<exists>u. u = t)" using inv(2) t s'(3) by (auto simp: s'(1) move_call_def)
      show "jo_cancellation (wj_store s') = Some u" if "u = t" for u using inv(7) [OF t] that by (simp add: s'(1,5) move_call_def)
    qed blast
  qed
qed

lemma reset_step_inv:
  assumes "jobs_inv s" "call_step t now thread_error s = Some s'" "wj_call s t = StartReset e"
  shows "jobs_inv s'"
proof -
  note inv = jobs_invD [OF assms(1)]
  have s': "s' = move_call t (StartRefused e) (s\<lparr>wj_store := reset_task (wj_store s)\<rparr>)"
    using assms(2,3) by (simp add: call_step_def)
  have t: "owns_task s t" using assms(3) by (simp add: owns_task_def starting_def)
  have wt: "wj_worker s t = NoWorker" using inv(3) [of t] assms(3) by auto
  have own: "\<not> owns_task s' u" for u
  proof (cases "u = t")
    case True
    then show ?thesis using wt by (simp add: s' owns_task_def move_call_def starting_def)
  next
    case False
    then have "\<not> owns_task s u" using inv(1) [OF t] by blast
    then show ?thesis using False by (simp add: s' owns_task_def move_call_def starting_def)
  qed
  show ?thesis
  proof (rule jobs_invI)
    show "wj_call s' u = TaskStarted" if "wj_worker s' u \<noteq> NoWorker" for u
      using inv(3) [of u] that wt by (cases "u = t") (simp_all add: s' move_call_def)
    show "jo_worker (wj_store s') = Some u" if "wj_worker s' u = Working" for u
      using own [of u] that by (simp add: owns_task_def)
    show "wj_worker s' w \<noteq> NoWorker" if "jo_worker (wj_store s') = Some w" for w
      using inv(5) [of w] that by (simp add: s' move_call_def reset_task_def)
    show "wj_worker s' w = Ended" if "joins (wj_call s' u) = Some w" for u w
      using inv(6) [of u w] that by (cases "u = t") (simp_all add: s' move_call_def joins_def)
  next
    show "js_running (jo_state (wj_store s')) = (\<exists>u. owns_task s' u)" using own by (simp add: s' move_call_def reset_task_def new_snapshot_def)
  qed (simp_all add: own)
qed

lemma call_step_inv:
  assumes "jobs_inv s" "call_step t now thread_error s = Some s'"
  shows "jobs_inv s'"
proof -
  note same = jobs_inv_same_owner [OF assms(1), where t = t]
  show ?thesis
  proof (cases "wj_call s t")
    case (StartJoin k)
    obtain w jo where w: "take_worker (wj_store s) = (w, jo)" by fastforce
    show ?thesis
      using assms(2) take_worker_facts [OF assms(1) w] StartJoin w by (intro same) (auto simp: call_simps split: option.splits)
  next
    case JoinFinished
    obtain w jo where w: "take_worker (wj_store s) = (w, jo)" by fastforce
    show ?thesis
      using assms(2) take_worker_facts [OF assms(1) w] JoinFinished w by (intro same) (auto simp: call_simps split: option.splits)
  next
    case CancelStart
    then show ?thesis using assms(2) by (intro same) (auto simp: call_simps cancel_locked_def split: if_splits)
  next
    case (StartJoining k w)
    then show ?thesis using assms(2) by (intro same) (auto simp: call_simps split: if_splits)
  next
    case (Joining w)
    then show ?thesis using assms(2) by (intro same) (auto simp: call_simps split: if_splits)
  next
    case (StartInit k)
    then show ?thesis using assms(2) by (intro same) (auto simp: call_simps)
  next
    case (CancelLog token logs)
    then show ?thesis using assms(2) by (intro same) (auto simp: call_simps split: if_splits)
  next
    case (CancelRequest token)
    then show ?thesis using assms(2) by (intro same) (auto simp: call_simps split: option.splits)
  next
    case (StartBegin k)
    then show ?thesis by (rule begin_step_inv [OF assms])
  next
    case (StartLaunch k)
    then show ?thesis by (rule launch_step_inv [OF assms])
  next
    case (StartReset e)
    then show ?thesis by (rule reset_step_inv [OF assms])
  qed (use assms(2) in \<open>simp_all add: call_step_def\<close>)
qed

lemma task_thread_step_inv:
  assumes "jobs_inv s" "task_thread_step t e s = Some s'"
  shows "jobs_inv s'"
proof -
  note inv = jobs_invD [OF assms(1)]
  have w: "wj_worker s t = Working" "worker_may e (wj_decision s t)" using assms(2) by (auto simp: task_thread_step_def split: if_splits)
  then have t: "owns_task s t" by (simp add: owns_task_def)
  have c: "wj_call s t = TaskStarted" using inv(3) w by simp
  show ?thesis
  proof (cases "\<exists>n. e = Ends n")
    case True
    then have s': "wj_worker s' = (wj_worker s)(t := Ended)" "wj_call s' = wj_call s" "\<not> js_running (jo_state (wj_store s'))"
        "jo_worker (wj_store s') = jo_worker (wj_store s)"
      using assms(2) w by (auto simp: task_thread_step_def Let_def worker_update_running)
    have own: "\<not> owns_task s' u" for u
    proof (cases "u = t")
      case True
      then show ?thesis using c by (simp add: s' owns_task_def starting_def)
    next
      case False
      then have "\<not> owns_task s u" using inv(1) [OF t] by blast
      then show ?thesis using False by (simp add: s' owns_task_def starting_def)
    qed
    show ?thesis
    proof (rule jobs_invI)
      show "wj_call s' u = TaskStarted" if "wj_worker s' u \<noteq> NoWorker" for u
        using inv(3) [of u] that c by (cases "u = t") (simp_all add: s')
      show "jo_worker (wj_store s') = Some u" if "wj_worker s' u = Working" for u
        using own [of u] that by (simp add: owns_task_def)
      show "wj_worker s' x \<noteq> NoWorker" if "jo_worker (wj_store s') = Some x" for x
        using inv(5) [of x] that by (simp add: s')
      show "wj_worker s' x = Ended" if "joins (wj_call s' u) = Some x" for u x
        using inv(6) [of u x] that by (simp add: s')
    next
      show "js_running (jo_state (wj_store s')) = (\<exists>u. owns_task s' u)" using own s'(3) by simp
    qed (simp_all add: own)
  next
    case False
    then have s': "wj_worker s' = wj_worker s" "wj_call s' = wj_call s" "js_running (jo_state (wj_store s')) = js_running (jo_state (wj_store s))"
        "jo_worker (wj_store s') = jo_worker (wj_store s)" "jo_cancellation (wj_store s') = jo_cancellation (wj_store s)"
      using assms(2) w by (cases e; auto simp: task_thread_step_def Let_def worker_update_running)+
    have own: "owns_task s' u = owns_task s u" for u by (simp add: owns_task_def s'(1,2))
    show ?thesis using assms(1) unfolding jobs_inv_def own s' .
  qed
qed

lemma web_jobs_inv:
  assumes "web_jobs_run calls s" "\<And>t. fresh_job_call (calls t)"
  shows "jobs_inv s"
  using assms(1)
proof induction
  case start
  have fresh: "\<not> starting (calls t) \<and> joins (calls t) = None" for t
    using assms(2) [of t] by (cases "calls t") (simp_all add: fresh_job_call_def starting_def joins_def)
  have "\<not> owns_task (web_jobs_start calls) t" for t using fresh by (simp add: owns_task_def web_jobs_start_def)
  then show ?case
  proof (intro jobs_invI)
    assume own: "\<And>t. \<not> owns_task (web_jobs_start calls) t"
    show "js_running (jo_state (wj_store (web_jobs_start calls))) = (\<exists>t. owns_task (web_jobs_start calls) t)"
      using own by (simp add: web_jobs_start_def new_job_store_def new_snapshot_def)
  qed (simp_all add: web_jobs_start_def new_job_store_def fresh)
next
  case (call s t now thread_error s')
  then show ?case by (blast intro: call_step_inv)
next
  case (worker s t e s')
  then show ?case by (blast intro: task_thread_step_inv)
qed

text \<open>
  C39: Whatever the calls of the pages and however their steps interleave with each other and with the threads: at
  most one task runs, what is shown says so exactly while a task runs or is being started, a cancellation reaches the
  task that runs, and a thread is only waited for when it has ended.
\<close>

theorem one_task_at_a_time:
  assumes "web_jobs_run calls s" "\<And>t. fresh_job_call (calls t)"
  shows "(wj_worker s t = Working \<longrightarrow> wj_worker s u = Working \<longrightarrow> t = u) \<and>
    (js_running (jo_state (wj_store s)) \<longleftrightarrow> (\<exists>t. starting (wj_call s t) \<or> wj_worker s t = Working)) \<and>
    (wj_worker s t = Working \<longrightarrow> fst (cancel_locked (wj_store s)) = Some t) \<and>
    (joins (wj_call s u) = Some w \<longrightarrow> wj_worker s w = Ended)"
proof -
  note inv = jobs_invD [OF web_jobs_inv [OF assms]]
  have own: "owns_task s x" if "wj_worker s x = Working" for x using that by (simp add: owns_task_def)
  show ?thesis
    using inv(1) [OF own own, of t u] inv(2) inv(6) [of u w] inv(7) [OF own, of t] by (auto simp: owns_task_def cancel_locked_def)
qed

section \<open>A start that comes while a task ends\<close>

text \<open>
  C40: A start that has found a task running, and begins when that task has just ended, fails: the thread of the ended
  task has not been joined, so no new thread is started, and undoing the start erases the result of the ended task.
\<close>

theorem start_erases_result:
  assumes "wj_call s t = StartBegin k" "\<not> js_running (jo_state (wj_store s))" "jo_worker (wj_store s) = Some w"
  shows "\<exists>s1 s2 s3 s4. call_step t now thread_error s = Some s1 \<and> call_step t now thread_error s1 = Some s2 \<and>
    call_step t now thread_error s2 = Some s3 \<and> call_step t now thread_error s3 = Some s4 \<and>
    wj_call s4 t = StartRefused ''previous web task worker is still active'' \<and> jo_state (wj_store s4) = new_snapshot"
proof -
  obtain jo where jo: "begin_task (kind_name k) t now (wj_store s) = (None, jo)" "jo_worker jo = Some w"
    using assms by (simp add: begin_task_def)
  let ?s1 = "move_call t (StartInit k) (s\<lparr>wj_store := jo\<rparr>)"
  let ?s2 = "move_call t (StartLaunch k) (?s1\<lparr>wj_store := initialize_task t k jo\<rparr>)"
  let ?s3 = "move_call t (StartReset ''previous web task worker is still active'') ?s2"
  have "call_step t now thread_error s = Some ?s1" using assms(1) jo(1) by (simp add: call_step_def)
  moreover have "call_step t now thread_error ?s1 = Some ?s2" by (simp add: call_step_def move_call_def)
  moreover have "call_step t now thread_error ?s2 = Some ?s3" using jo(2) by (simp add: call_step_def launch_worker_def move_call_def)
  moreover have "call_step t now thread_error ?s3 =
      Some (move_call t (StartRefused ''previous web task worker is still active'') (?s3\<lparr>wj_store := reset_task (initialize_task t k jo)\<rparr>))"
    by (simp add: call_step_def move_call_def)
  ultimately show ?thesis by (auto simp: move_call_def reset_task_def)
qed

text \<open>Call 0 sends a file; call 1 looks while it runs and begins when it has ended.\<close>

definition race_calls :: "nat \<Rightarrow> nat job_call" where
  "race_calls t = (if t = 0 then StartJoin (PlainTask ''send'') else if t = 1 then StartJoin (PlainTask ''recv'') else CallDone)"

lemma worker_reads_flag:
  "wj_worker s t = Working \<Longrightarrow> wj_decision s t = None \<Longrightarrow> t \<notin> wj_requested s \<Longrightarrow>
     task_thread_step t (ReadsFlag r) s = Some (s\<lparr>wj_decision := (wj_decision s)(t \<mapsto> (r, False))\<rparr>)"
  by (cases s; cases "wj_store s") (simp add: task_thread_step_def worker_update_def worker_may_def)

lemma race_run:
  "\<exists>s. web_jobs_run race_calls s \<and> wj_call s 1 = StartBegin (PlainTask ''recv'') \<and> \<not> js_running (jo_state (wj_store s)) \<and>
     jo_worker (wj_store s) = Some 0 \<and> tp_finished (js_progress (jo_state (wj_store s))) \<and>
     tp_activity (js_progress (jo_state (wj_store s))) = ''send complete''"
proof -
  let ?s0 = "web_jobs_start race_calls"
  obtain s1 where s1: "call_step 0 5 None ?s0 = Some s1" "s1 = move_call 0 (StartBegin (PlainTask ''send'')) ?s0"
    by (simp add: call_step_def web_jobs_start_def race_calls_def take_worker_def new_job_store_def new_snapshot_def move_call_def)
  obtain jo where jo: "begin_task ''send'' 0 5 (wj_store s1) = (None, jo)" "js_running (jo_state jo)" "jo_worker jo = None"
      "\<not> tp_failed (js_progress (jo_state jo))" "\<not> tp_canceled (js_progress (jo_state jo))"
    by (simp add: begin_task_def s1(2) move_call_def web_jobs_start_def new_job_store_def new_snapshot_def on_progress_def idle_progress_def)
  let ?s2 = "move_call 0 (StartInit (PlainTask ''send'')) (s1\<lparr>wj_store := jo\<rparr>)"
  have s2: "call_step 0 5 None s1 = Some ?s2" using jo(1) by (simp add: call_step_def s1(2) move_call_def kind_name_def)
  let ?s3 = "move_call 0 (StartLaunch (PlainTask ''send'')) ?s2"
  have s3: "call_step 0 5 None ?s2 = Some ?s3" by (simp add: call_step_def move_call_def initialize_task_def)
  let ?s4 = "move_call 0 TaskStarted (?s3\<lparr>wj_store := jo\<lparr>jo_worker := Some 0\<rparr>, wj_worker := (wj_worker ?s3)(0 := Working)\<rparr>)"
  have s4: "call_step 0 5 None ?s3 = Some ?s4" using jo(3) by (simp add: call_step_def move_call_def launch_worker_def)
  let ?s5 = "move_call 1 (StartBegin (PlainTask ''recv'')) ?s4"
  have s5: "call_step 1 5 None ?s4 = Some ?s5"
    using jo(2) by (simp add: call_step_def move_call_def take_worker_def s1(2) web_jobs_start_def race_calls_def)
  have w: "wj_worker ?s5 0 = Working" "wj_decision ?s5 0 = None" "0 \<notin> wj_requested ?s5"
    by (simp_all add: move_call_def s1(2) web_jobs_start_def)
  let ?s' = "?s5\<lparr>wj_decision := (wj_decision ?s5)(0 \<mapsto> (Inr ''send complete'', False))\<rparr>"
  have s': "task_thread_step 0 (ReadsFlag (Inr ''send complete'')) ?s5 = Some ?s'" by (rule worker_reads_flag [OF w])
  obtain s6 where s6: "task_thread_step 0 (Ends 6) ?s' = Some s6" "wj_call s6 1 = StartBegin (PlainTask ''recv'')"
      "jo_state (wj_store s6) = finish_job_success ''send complete'' 6 (jo_state jo)" "jo_worker (wj_store s6) = Some 0"
    using w by (simp add: task_thread_step_def worker_update_def worker_may_def move_call_def)
  have "web_jobs_run race_calls s6"
    by (rule web_jobs_run.worker [OF web_jobs_run.worker [OF web_jobs_run.call [OF web_jobs_run.call [OF web_jobs_run.call [OF web_jobs_run.call
      [OF web_jobs_run.call [OF web_jobs_run.start s1(1)] s2] s3] s4] s5] s'] s6(1)])
  then show ?thesis
    using s6(2-4) jo(4,5) by (auto simp: finish_job_success_def on_progress_def finish_success_def set_terminal_state_def)
qed

theorem start_erases_result_witness:
  "\<exists>s (s4 :: nat web_jobs). web_jobs_run race_calls s \<and> tp_activity (js_progress (jo_state (wj_store s))) = ''send complete'' \<and>
     wj_call s4 1 = StartRefused ''previous web task worker is still active'' \<and> jo_state (wj_store s4) = new_snapshot"
proof -
  obtain s where s: "web_jobs_run race_calls s" "wj_call s 1 = StartBegin (PlainTask ''recv'')" "\<not> js_running (jo_state (wj_store s))"
      "jo_worker (wj_store s) = Some 0" "tp_activity (js_progress (jo_state (wj_store s))) = ''send complete''"
    using race_run by blast
  obtain s4 :: "nat web_jobs" where "wj_call s4 1 = StartRefused ''previous web task worker is still active''" "jo_state (wj_store s4) = new_snapshot"
    using start_erases_result [OF s(2-4), of 7 None] by blast
  then show ?thesis using s(1,5) by (intro exI conjI)
qed

theorem one_task_at_a_time_witness:
  "\<exists>s. web_jobs_run race_calls s \<and> (js_running (jo_state (wj_store s)) \<longleftrightarrow> (\<exists>t. starting (wj_call s t) \<or> wj_worker s t = Working))"
proof -
  obtain s where s: "web_jobs_run race_calls s" using race_run by blast
  have f: "fresh_job_call (race_calls t)" for t by (simp add: race_calls_def fresh_job_call_def)
  show ?thesis using one_task_at_a_time [OF s f] s by blast
qed

end
