(* ===== verification/Addresses.thy ===== *)
theory Addresses
  imports Text_Util
begin

text \<open>
  What an address text says (core/common.cpp): family and scope, loopback hosts and global IPv6 addresses. Reading
  an address and its special ranges are those of the network library, a parameter.
\<close>

unbundle bit_operations_syntax

datatype ip_address = V4 u32 | V6 "u8 list"

record address_library =
  al_make_address :: "string \<Rightarrow> ip_address option"
  al_is_unspecified :: "ip_address \<Rightarrow> bool"
  al_is_loopback :: "ip_address \<Rightarrow> bool"
  al_is_multicast :: "ip_address \<Rightarrow> bool"

datatype ip_family = UnknownFamily | IPv4 | IPv6
datatype ip_scope = UnknownScope | Loopback | LinkLocal | Private | UniqueLocal | GlobalScope

definition parse_ip_address :: "address_library \<Rightarrow> string \<Rightarrow> ip_address option" where
  "parse_ip_address al h =
     (let h = (if 2 \<le> length h \<and> hd h = CHR ''['' \<and> last h = CHR '']'' then butlast (tl h) else h)
      in al_make_address al (fst (cut (CHR ''%'') h)))"

definition ipv4_private :: "u32 \<Rightarrow> bool" where
  "ipv4_private v =
     (let a = drop_bit 24 v AND 0xff; b = drop_bit 16 v AND 0xff
      in a = 10 \<or> (a = 172 \<and> 16 \<le> b \<and> b \<le> 31) \<or> (a = 192 \<and> b = 168))"

definition ipv4_link_local :: "u32 \<Rightarrow> bool" where
  "ipv4_link_local v = (drop_bit 24 v AND 0xff = 169 \<and> drop_bit 16 v AND 0xff = 254)"

definition ip_address_family :: "address_library \<Rightarrow> string \<Rightarrow> ip_family" where
  "ip_address_family al h =
     (case parse_ip_address al h of None \<Rightarrow> UnknownFamily | Some (V6 _) \<Rightarrow> IPv6 | Some (V4 _) \<Rightarrow> IPv4)"

definition ip_address_scope :: "address_library \<Rightarrow> string \<Rightarrow> ip_scope" where
  "ip_address_scope al h =
     (case parse_ip_address al h of
        None \<Rightarrow> UnknownScope
      | Some a \<Rightarrow>
          if al_is_unspecified al a then UnknownScope
          else if al_is_loopback al a then Loopback
          else case a of
            V4 v \<Rightarrow>
              if ipv4_link_local v then LinkLocal
              else if ipv4_private v then Private
              else if al_is_multicast al a then UnknownScope
              else GlobalScope
          | V6 bs \<Rightarrow>
              if bs ! 0 = 0xfe \<and> bs ! 1 AND 0xc0 = 0x80 then LinkLocal
              else if bs ! 0 AND 0xfe = 0xfc then UniqueLocal
              else if al_is_multicast al a then UnknownScope
              else GlobalScope)"

definition ip_address_family_name :: "ip_family \<Rightarrow> string" where
  "ip_address_family_name f = (case f of IPv4 \<Rightarrow> ''ipv4'' | IPv6 \<Rightarrow> ''ipv6'' | UnknownFamily \<Rightarrow> ''unknown'')"

definition ip_address_scope_name :: "ip_scope \<Rightarrow> string" where
  "ip_address_scope_name s =
     (case s of Loopback \<Rightarrow> ''loopback'' | LinkLocal \<Rightarrow> ''link_local'' | Private \<Rightarrow> ''private'' | UniqueLocal \<Rightarrow> ''unique_local''
      | GlobalScope \<Rightarrow> ''global'' | UnknownScope \<Rightarrow> ''unknown'')"

definition is_loopback_host :: "address_library \<Rightarrow> string \<Rightarrow> bool" where
  "is_loopback_host al h \<longleftrightarrow> h = ''localhost'' \<or> ip_address_scope al h = Loopback"

definition is_global_ipv6_address :: "address_library \<Rightarrow> string \<Rightarrow> bool" where
  "is_global_ipv6_address al h \<longleftrightarrow> ip_address_family al h = IPv6 \<and> ip_address_scope al h = GlobalScope"

text \<open>The loop keeps the hosts already counted.\<close>

fun count_global_loop :: "address_library \<Rightarrow> string list \<Rightarrow> string list \<Rightarrow> nat \<Rightarrow> nat" where
  "count_global_loop al [] seen count = count"
| "count_global_loop al (h # hs) seen count =
     (if \<not> is_global_ipv6_address al h \<or> h \<in> set seen then count_global_loop al hs seen count
      else count_global_loop al hs (seen @ [h]) (count + 1))"

definition count_global_ipv6_addresses :: "address_library \<Rightarrow> string list \<Rightarrow> nat" where
  "count_global_ipv6_addresses al hosts = count_global_loop al hosts [] 0"

lemma count_global_loop_eq:
  "distinct seen \<Longrightarrow> set seen \<subseteq> {h. is_global_ipv6_address al h} \<Longrightarrow>
   count_global_loop al hs seen (length seen) = card (set seen \<union> {h \<in> set hs. is_global_ipv6_address al h})"
proof (induction hs arbitrary: seen)
  case Nil
  then show ?case by (simp add: distinct_card)
next
  case (Cons h hs)
  show ?case
  proof (cases "\<not> is_global_ipv6_address al h \<or> h \<in> set seen")
    case True
    then have "set seen \<union> {x \<in> set (h # hs). is_global_ipv6_address al x} = set seen \<union> {x \<in> set hs. is_global_ipv6_address al x}"
      by auto
    then show ?thesis using True Cons.IH [OF Cons.prems] by simp
  next
    case False
    then have "set seen \<union> {x \<in> set (h # hs). is_global_ipv6_address al x} =
        set (seen @ [h]) \<union> {x \<in> set hs. is_global_ipv6_address al x}" by auto
    then show ?thesis using False Cons.IH [of "seen @ [h]"] Cons.prems by simp
  qed
qed

text \<open>The number of different global IPv6 addresses.\<close>

lemma count_global_is_card:
  "count_global_ipv6_addresses al hosts = card {h \<in> set hosts. is_global_ipv6_address al h}"
  using count_global_loop_eq [of "[]" al hosts] by (simp add: count_global_ipv6_addresses_def)

end
