(* ===== verification/Direct_Plan.thy ===== *)
theory Direct_Plan
  imports Relay_Protocol Addresses
begin

text \<open>
  The plan of a direct connection: candidates with their priorities and timeouts (core/adaptive.cpp), the route plan
  with the history of the network (connect/route_planner.cpp) and the candidates of a peer (connect/direct_session.cpp).
  Times are in milliseconds.
\<close>

section \<open>Candidates\<close>

datatype nat_type = NatOpen | BehindNat | NatUnknown

record punch_observation =
  po_phase :: string
  po_candidate :: string
  po_kind :: string
  po_priority :: int
  po_success :: bool
  po_elapsed_ms :: u64
  po_error :: string

record direct_candidate =
  dc_endpoint :: endpoint
  dc_kind :: string
  dc_priority :: int
  dc_connect_timeout :: int
  dc_reasons :: "string list"

record punch_plan =
  pp_total_timeout :: int
  pp_connect_timeout :: int
  pp_same_port_timeout :: int
  pp_same_port_connect_timeout :: int
  pp_retry_delay :: int
  pp_prefer_outbound :: bool
  pp_candidates :: "direct_candidate list"

definition new_punch_plan :: punch_plan where
  "new_punch_plan = \<lparr>pp_total_timeout = 2500, pp_connect_timeout = 450, pp_same_port_timeout = 500,
     pp_same_port_connect_timeout = 160, pp_retry_delay = 120, pp_prefer_outbound = True, pp_candidates = []\<rparr>"

definition clamp_ms :: "int \<Rightarrow> int \<Rightarrow> int \<Rightarrow> int" where
  "clamp_ms v lo hi = min hi (max lo v)"

definition default_candidate_reason :: "string \<Rightarrow> string" where
  "default_candidate_reason kind =
     (if kind = ''discovered'' then ''lan_discovery''
      else if kind = ''lan'' then ''peer_lan_candidate''
      else if kind = ''listen'' then ''peer_listen_host''
      else if kind = ''ipv6_global'' then ''global_ipv6_candidate''
      else if kind = ''public'' then ''relay_observed_public''
      else if kind = ''public-same-port'' then ''same_port_probe''
      else if kind = ''accept'' then ''inbound_accept''
      else ''candidate'')"

definition dial_timeout_for :: "direct_candidate \<Rightarrow> int \<Rightarrow> int" where
  "dial_timeout_for c plan_connect_timeout =
     (if 90 \<le> dc_priority c \<or> dc_kind c = ''discovered'' \<or> dc_kind c = ''lan'' \<or> dc_kind c = ''ipv6_global'' \<or>
         ''profile_direct_success'' \<in> set (dc_reasons c)
      then clamp_ms (plan_connect_timeout + 100) 300 600
      else if 60 \<le> dc_priority c \<or> dc_kind c = ''listen'' then clamp_ms plan_connect_timeout 220 450
      else if dc_kind c = ''public'' \<or> dc_kind c = ''public-same-port'' then clamp_ms plan_connect_timeout 120 220
      else clamp_ms plan_connect_timeout 150 400)"

definition add_reason :: "string \<Rightarrow> direct_candidate \<Rightarrow> direct_candidate" where
  "add_reason reason c =
     (if reason = [] then c
      else if reason \<notin> set (dc_reasons c) then c\<lparr>dc_reasons := dc_reasons c @ [reason]\<rparr> else c)"

definition tune_candidate :: "int \<Rightarrow> direct_candidate \<Rightarrow> direct_candidate" where
  "tune_candidate plan_connect_timeout c =
     (let c = c\<lparr>dc_reasons := filter (\<lambda>r. r \<noteq> ''extended_probe'') (filter (\<lambda>r. r \<noteq> ''short_probe'') (dc_reasons c))\<rparr>;
          c = c\<lparr>dc_connect_timeout := dial_timeout_for c plan_connect_timeout\<rparr>
      in if dc_connect_timeout c < plan_connect_timeout then add_reason ''short_probe'' c
         else if plan_connect_timeout < dc_connect_timeout c then add_reason ''extended_probe'' c
         else c)"

definition tune_direct_candidate_timeouts :: "punch_plan \<Rightarrow> punch_plan" where
  "tune_direct_candidate_timeouts plan =
     plan\<lparr>pp_candidates := map (tune_candidate (pp_connect_timeout plan)) (pp_candidates plan)\<rparr>"

definition classify_nat :: "string list \<Rightarrow> endpoint \<Rightarrow> nat_type" where
  "classify_nat local_addresses reflexive =
     (if host reflexive = [] \<or> port reflexive = 0 then NatUnknown
      else if host reflexive \<in> set local_addresses then NatOpen else BehindNat)"

definition nat_type_name :: "nat_type \<Rightarrow> string" where
  "nat_type_name t = (case t of NatOpen \<Rightarrow> ''open'' | BehindNat \<Rightarrow> ''behind-nat'' | NatUnknown \<Rightarrow> ''unknown'')"

definition is_direct_candidate_order_kind :: "string \<Rightarrow> bool" where
  "is_direct_candidate_order_kind kind =
     (kind = ''manual'' \<or> kind = ''discovered'' \<or> kind = ''lan'' \<or> kind = ''listen'' \<or> kind = ''ipv6_global'' \<or> kind = ''public'')"

definition make_direct_candidate :: "endpoint \<Rightarrow> string \<Rightarrow> int \<Rightarrow> direct_candidate" where
  "make_direct_candidate e kind priority =
     \<lparr>dc_endpoint = e, dc_kind = kind, dc_priority = priority, dc_connect_timeout = 0, dc_reasons = [default_candidate_reason kind]\<rparr>"

text \<open>\<open>std::stable_sort\<close> by falling priority.\<close>

definition puncher_plan :: "role \<Rightarrow> direct_candidate list \<Rightarrow> punch_observation list \<Rightarrow> punch_plan" where
  "puncher_plan role candidates observations =
     (let plan = new_punch_plan\<lparr>pp_candidates := sort_key (\<lambda>c. - dc_priority c) candidates, pp_prefer_outbound := (role = Receiver)\<rparr>;
          plan = (if role = Receiver then plan\<lparr>pp_connect_timeout := 350, pp_retry_delay := 80\<rparr> else plan);
          failures = length (filter (\<lambda>ob. \<not> po_success ob) observations);
          plan = (if 3 \<le> failures then plan\<lparr>pp_total_timeout := 1800, pp_connect_timeout := 250\<rparr> else plan)
      in tune_direct_candidate_timeouts plan)"

definition puncher_plan_nat ::
  "role \<Rightarrow> direct_candidate list \<Rightarrow> nat_type \<Rightarrow> nat_type \<Rightarrow> punch_observation list \<Rightarrow> punch_plan" where
  "puncher_plan_nat role candidates self peer observations =
     (let plan = puncher_plan role candidates observations;
          plan = (if self = NatOpen \<or> peer = NatOpen then plan\<lparr>pp_total_timeout := 3500, pp_connect_timeout := 500\<rparr>
                  else if self = BehindNat \<and> peer = BehindNat
                  then plan\<lparr>pp_total_timeout := 1200, pp_connect_timeout := 250, pp_retry_delay := 70\<rparr>
                  else plan)
      in tune_direct_candidate_timeouts plan)"

section \<open>Route plans\<close>

datatype stun_nat_class = StunOpen | StunCone | StunSymmetric | StunUnknown

record network_profile =
  np_last_path :: string
  np_success_count :: int
  np_path_streak :: int
  np_relay_path :: string
  np_relay_interface :: string
  np_relay_reason :: string
  np_relay_rtts :: "(string, int) omap"
  np_last_direct_candidate_kind :: string
  np_last_direct_rtt_ms :: int
  np_candidate_failures :: "(string, int) omap"
  np_same_port_attempts :: int
  np_same_port_successes :: int
  np_same_port_failure_streak :: int
  np_same_port_last_elapsed_ms :: int

text \<open>The part of a snapshot that the rules read.\<close>

record connectivity_snapshot =
  cs_self_nat :: nat_type
  cs_peer_nat :: nat_type
  cs_stun_nat :: stun_nat_class
  cs_vpn_detected :: bool
  cs_lan_discovered_count :: nat
  cs_no_direct_config :: bool
  cs_only_local :: bool
  cs_profile :: network_profile
  cs_self_global_ipv6 :: nat
  cs_peer_global_ipv6 :: nat

record score_hints =
  sh_vpn_detected :: bool
  sh_last_path :: string
  sh_direct_kind :: string
  sh_failures :: "(string, int) omap"

record route_plan =
  rp_skip_direct :: bool
  rp_udp_punch_enabled :: bool
  rp_direct_timeout :: int
  rp_direct_connect :: int
  rp_same_port_timeout :: int
  rp_same_port_connect :: int
  rp_connections :: int
  rp_direct_candidate_order :: "string list"
  rp_relay_order :: "string list"
  rp_hints :: score_hints
  rp_reason :: string

definition no_hints :: score_hints where
  "no_hints = \<lparr>sh_vpn_detected = False, sh_last_path = [], sh_direct_kind = [], sh_failures = []\<rparr>"

definition new_route_plan :: route_plan where
  "new_route_plan = \<lparr>rp_skip_direct = False, rp_udp_punch_enabled = False, rp_direct_timeout = 2500, rp_direct_connect = 450,
     rp_same_port_timeout = 500, rp_same_port_connect = 160, rp_connections = 4, rp_direct_candidate_order = [],
     rp_relay_order = [], rp_hints = no_hints, rp_reason = []\<rparr>"

definition kRelayStandbyDirectWindow :: int where "kRelayStandbyDirectWindow = 500"
definition kRelayStandbyConnectWindow :: int where "kRelayStandbyConnectWindow = 220"

definition allows_profile_shortening :: "route_plan \<Rightarrow> bool" where
  "allows_profile_shortening plan =
     (\<not> rp_skip_direct plan \<and> (rp_reason plan = ''default'' \<or> rp_reason plan = ''stun_cone_direct_probe'' \<or>
        rp_reason plan = ''ipv6_global_direct''))"

definition failure_count_for_kind :: "connectivity_snapshot \<Rightarrow> string \<Rightarrow> int" where
  "failure_count_for_kind s kind = (case map_of (np_candidate_failures (cs_profile s)) kind of None \<Rightarrow> 0 | Some n \<Rightarrow> n)"

definition normalized_direct_kind :: "string \<Rightarrow> string" where
  "normalized_direct_kind kind =
     (if kind = ''public-same-port'' then ''public'' else if is_direct_candidate_order_kind kind then kind else [])"

definition push_unique_kind :: "string \<Rightarrow> string list \<Rightarrow> string list" where
  "push_unique_kind kind kinds = (if kind = [] then kinds else if kind \<notin> set kinds then kinds @ [kind] else kinds)"

definition prepend_candidate_order :: "string list \<Rightarrow> route_plan \<Rightarrow> route_plan" where
  "prepend_candidate_order preferred plan =
     plan\<lparr>rp_direct_candidate_order := fold push_unique_kind (rp_direct_candidate_order plan) (fold push_unique_kind preferred [])\<rparr>"

definition prefer_local_before_public :: "route_plan \<Rightarrow> route_plan" where
  "prefer_local_before_public =
     prepend_candidate_order [''lan'', ''listen'', ''manual'', ''discovered'', ''ipv6_global'', ''public'']"

definition prefer_global_ipv6 :: "route_plan \<Rightarrow> route_plan" where
  "prefer_global_ipv6 =
     prepend_candidate_order [''manual'', ''discovered'', ''lan'', ''listen'', ''ipv6_global'', ''public'']"

definition fill_candidate_score_hints :: "connectivity_snapshot \<Rightarrow> route_plan \<Rightarrow> route_plan" where
  "fill_candidate_score_hints s plan =
     plan\<lparr>rp_hints := \<lparr>sh_vpn_detected = cs_vpn_detected s, sh_last_path = np_last_path (cs_profile s),
       sh_direct_kind = np_last_direct_candidate_kind (cs_profile s), sh_failures = np_candidate_failures (cs_profile s)\<rparr>\<rparr>"

definition apply_same_port_history :: "connectivity_snapshot \<Rightarrow> route_plan \<Rightarrow> route_plan" where
  "apply_same_port_history s plan =
     (if rp_skip_direct plan then plan
      else if 0 < np_same_port_successes (cs_profile s) \<and> np_same_port_failure_streak (cs_profile s) = 0
      then plan\<lparr>rp_same_port_timeout := max (rp_same_port_timeout plan) 650, rp_same_port_connect := max (rp_same_port_connect plan) 180\<rparr>
      else if 4 \<le> np_same_port_failure_streak (cs_profile s)
      then plan\<lparr>rp_same_port_timeout := 180, rp_same_port_connect := 100\<rparr>
      else plan)"

definition short_direct :: "string \<Rightarrow> route_plan \<Rightarrow> route_plan" where
  "short_direct reason plan =
     (let plan = (if 900 < rp_direct_timeout plan then plan\<lparr>rp_direct_timeout := 900, rp_direct_connect := 250\<rparr> else plan)
      in prefer_local_before_public (plan\<lparr>rp_reason := reason\<rparr>))"

definition prefer_last_kind :: "connectivity_snapshot \<Rightarrow> route_plan \<Rightarrow> route_plan" where
  "prefer_last_kind s plan =
     (let kind = np_last_direct_candidate_kind (cs_profile s)
      in if kind \<noteq> [] then prepend_candidate_order [normalized_direct_kind kind] plan else plan)"

definition shorten_after_ipv6_failures :: "connectivity_snapshot \<Rightarrow> route_plan \<Rightarrow> route_plan" where
  "shorten_after_ipv6_failures s plan =
     (if 2 \<le> failure_count_for_kind s ''ipv6_global'' \<and> allows_profile_shortening plan
      then short_direct ''profile_ipv6_failures_short_direct'' plan else plan)"

definition shorten_after_public_failures :: "connectivity_snapshot \<Rightarrow> route_plan \<Rightarrow> route_plan" where
  "shorten_after_public_failures s plan =
     (if 2 \<le> failure_count_for_kind s ''public'' + failure_count_for_kind s ''public-same-port'' \<and> allows_profile_shortening plan
      then short_direct ''profile_public_failures_short_direct'' plan else plan)"

definition shorten_after_relay_routes :: "connectivity_snapshot \<Rightarrow> route_plan \<Rightarrow> route_plan" where
  "shorten_after_relay_routes s plan =
     (if np_last_path (cs_profile s) = ''relay'' \<and> 2 \<le> np_path_streak (cs_profile s) \<and> \<not> rp_skip_direct plan \<and>
         (rp_reason plan = ''default'' \<or> rp_reason plan = ''profile_public_failures_short_direct'')
      then plan\<lparr>rp_direct_timeout := 600, rp_direct_connect := 220, rp_reason := ''profile_relay_history_short_direct''\<rparr>
      else plan)"

definition apply_profile_route_history :: "connectivity_snapshot \<Rightarrow> route_plan \<Rightarrow> route_plan" where
  "apply_profile_route_history s plan =
     (let plan = prefer_last_kind s (apply_same_port_history s plan)
      in if np_last_path (cs_profile s) = ''direct'' then plan
         else shorten_after_relay_routes s (shorten_after_public_failures s (shorten_after_ipv6_failures s plan)))"

text \<open>A probe that succeeded gives the class; \<open>stun_ok\<close> is \<open>None\<close> without one.\<close>

definition base_local :: "connectivity_snapshot \<Rightarrow> route_plan \<Rightarrow> route_plan" where
  "base_local s plan =
     (let plan = (if cs_only_local s then plan\<lparr>rp_reason := ''only_local''\<rparr> else plan)
      in if cs_vpn_detected s \<and> 0 < cs_lan_discovered_count s
         then plan\<lparr>rp_direct_timeout := 1000, rp_direct_connect := 250, rp_reason := ''vpn_lan_short_direct''\<rparr> else plan)"

definition base_stun :: "stun_nat_class option \<Rightarrow> route_plan \<Rightarrow> route_plan" where
  "base_stun stun_ok plan =
     (case stun_ok of
        Some StunSymmetric \<Rightarrow> plan\<lparr>rp_direct_timeout := kRelayStandbyDirectWindow,
          rp_direct_connect := kRelayStandbyConnectWindow, rp_reason := ''stun_symmetric_short_direct''\<rparr>
      | Some StunOpen \<Rightarrow> plan\<lparr>rp_direct_timeout := 3500, rp_reason := ''stun_open''\<rparr>
      | _ \<Rightarrow> plan)"

definition both_global_ipv6 :: "connectivity_snapshot \<Rightarrow> bool" where
  "both_global_ipv6 s = (0 < cs_self_global_ipv6 s \<and> 0 < cs_peer_global_ipv6 s)"

definition base_ipv6 :: "connectivity_snapshot \<Rightarrow> route_plan \<Rightarrow> route_plan" where
  "base_ipv6 s plan =
     (if both_global_ipv6 s
      then prefer_global_ipv6 (plan\<lparr>rp_direct_timeout := 3500, rp_direct_connect := 450, rp_reason := ''ipv6_global_direct''\<rparr>)
      else plan)"

definition base_double_nat :: "connectivity_snapshot \<Rightarrow> route_plan \<Rightarrow> route_plan" where
  "base_double_nat s plan =
     (if \<not> both_global_ipv6 s \<and> cs_self_nat s = BehindNat \<and> cs_peer_nat s = BehindNat
      then
        let plan = (if kRelayStandbyDirectWindow < rp_direct_timeout plan
                    then plan\<lparr>rp_direct_timeout := kRelayStandbyDirectWindow\<rparr> else plan);
            plan = plan\<lparr>rp_direct_connect := kRelayStandbyConnectWindow\<rparr>
        in if rp_reason plan = ''default'' then plan\<lparr>rp_reason := ''double_nat_short_punch''\<rparr> else plan
      else plan)"

definition base_cone :: "connectivity_snapshot \<Rightarrow> stun_nat_class option \<Rightarrow> route_plan \<Rightarrow> route_plan" where
  "base_cone s stun_ok plan =
     (if \<not> rp_skip_direct plan then
        let nat = (case stun_ok of Some c \<Rightarrow> c | None \<Rightarrow> cs_stun_nat s)
        in if nat = StunCone \<and> rp_reason plan = ''default'' then plan\<lparr>rp_reason := ''stun_cone_direct_probe''\<rparr> else plan
      else plan)"

definition build_base_route_plan :: "connectivity_snapshot \<Rightarrow> stun_nat_class option \<Rightarrow> bool \<Rightarrow> int \<Rightarrow> route_plan" where
  "build_base_route_plan s stun_ok force_no_direct default_connections =
     (let plan = fill_candidate_score_hints s (new_route_plan\<lparr>rp_connections := default_connections, rp_reason := ''default''\<rparr>)
      in if force_no_direct \<or> cs_no_direct_config s
         then plan\<lparr>rp_skip_direct := True, rp_direct_timeout := 0, rp_reason := ''no_direct''\<rparr>
         else base_cone s stun_ok (base_double_nat s (base_ipv6 s (base_stun stun_ok (base_local s plan)))))"

definition build_route_plan :: "bool \<Rightarrow> connectivity_snapshot \<Rightarrow> stun_nat_class option \<Rightarrow> int \<Rightarrow> route_plan" where
  "build_route_plan no_direct s stun_ok connections =
     apply_profile_route_history s (build_base_route_plan s stun_ok no_direct connections)"

definition ms_text :: "int \<Rightarrow> string" where
  "ms_text n = (if n < 0 then ''-'' @ to_dec (nat (- n)) else to_dec (nat n))"

definition describe_route_plan :: "route_plan \<Rightarrow> bool \<Rightarrow> string" where
  "describe_route_plan plan include_same_port =
     (if rp_skip_direct plan then rp_reason plan @ '' (skip direct)''
      else rp_reason plan @ '' direct_window='' @ ms_text (rp_direct_timeout plan) @ ''ms'' @
        '' direct_connect='' @ ms_text (rp_direct_connect plan) @ ''ms'' @
        (if include_same_port then '' same_port='' @ ms_text (rp_same_port_timeout plan) @ ''ms/'' @
           ms_text (rp_same_port_connect plan) @ ''ms'' else []) @
        (if rp_udp_punch_enabled plan then '' udp-assist'' else []))"

end
