(* ===== verification/Direct_Candidates.thy ===== *)
theory Direct_Candidates
  imports Direct_Plan "HOL-Library.Multiset"
begin

text \<open>
  The candidates of a direct connection: those that a peer offers and how they are scored, ordered and given their
  timeouts (connect/direct_session.cpp, connect/route_planner.cpp).
\<close>

section \<open>Candidates of a peer\<close>

definition classify_kind :: "address_library \<Rightarrow> endpoint \<Rightarrow> string \<Rightarrow> string" where
  "classify_kind al e base_kind =
     (let family = ip_address_family al (host e); scope = ip_address_scope al (host e)
      in if family = IPv6 \<and> scope = GlobalScope then ''ipv6_global''
         else if family = IPv6 \<and> base_kind = ''public'' then ''lan''
         else base_kind)"

definition classify_priority :: "string \<Rightarrow> int \<Rightarrow> int" where
  "classify_priority kind priority = (if kind = ''ipv6_global'' then max priority 82 else priority)"

text \<open>The first candidate with the endpoint is updated in place.\<close>

fun update_endpoint :: "endpoint \<Rightarrow> int \<Rightarrow> string \<Rightarrow> direct_candidate list \<Rightarrow> direct_candidate list option" where
  "update_endpoint e priority reason [] = None"
| "update_endpoint e priority reason (c # cs) =
     (if dc_endpoint c = e then
        let c = add_reason reason c
        in Some ((if dc_priority c < priority then c\<lparr>dc_priority := priority\<rparr> else c) # cs)
      else map_option ((#) c) (update_endpoint e priority reason cs))"

definition push_candidate ::
  "address_library \<Rightarrow> endpoint \<times> string \<times> int \<times> string \<Rightarrow> direct_candidate list \<Rightarrow> direct_candidate list" where
  "push_candidate al x out =
     (case x of (e, base_kind, base_priority, source_reason) \<Rightarrow>
        if port e = 0 \<or> is_unspecified e then out
        else
          let kind = classify_kind al e base_kind; priority = classify_priority kind base_priority
          in case update_endpoint e priority source_reason out of
               Some out \<Rightarrow> out
             | None \<Rightarrow> out @ [add_reason source_reason (make_direct_candidate e kind priority)])"

text \<open>What the calls of \<open>push_unique\<close> are given, in order.\<close>

definition offered_endpoints :: "relay_peer_info \<Rightarrow> endpoint list \<Rightarrow> (endpoint \<times> string \<times> int \<times> string) list" where
  "offered_endpoints peer extra =
     map (\<lambda>e. (e, ''discovered'', 95, ''lan_discovery'')) extra @
     (if 0 < port (pi_peer_listen peer) then
        map (\<lambda>h. (\<lparr>host = h, port = port (pi_peer_listen peer)\<rparr>, ''lan'', 90, ''peer_local_candidates'')) (pi_local_candidates peer) @
        (if host (pi_peer_listen peer) \<noteq> [] then [(pi_peer_listen peer, ''listen'', 60, ''peer_listen_host'')] else [])
      else []) @
     (if host (pi_peer_public peer) \<noteq> [] \<and> 0 < port (pi_peer_public peer)
      then [(pi_peer_public peer, ''public'', 20, ''peer_public_host'')] else [])"

definition peer_candidates :: "address_library \<Rightarrow> relay_peer_info \<Rightarrow> endpoint list \<Rightarrow> direct_candidate list" where
  "peer_candidates al peer extra = fold (push_candidate al) (offered_endpoints peer extra) []"

section \<open>Scoring\<close>

fun kind_rank :: "string \<Rightarrow> string list \<Rightarrow> nat" where
  "kind_rank kind [] = 0"
| "kind_rank kind (k # ks) = (if k = kind then 0 else Suc (kind_rank kind ks))"

definition score_candidate :: "score_hints \<Rightarrow> string list \<Rightarrow> direct_candidate \<Rightarrow> direct_candidate" where
  "score_candidate hints kind_order c =
     (let r = kind_rank (dc_kind c) kind_order;
          c = (if kind_order \<noteq> [] \<and> r < length kind_order
               then add_reason ''route_order_hint'' (c\<lparr>dc_priority := dc_priority c + (1000 - int r * 100)\<rparr>) else c);
          c = (if sh_direct_kind hints \<noteq> [] \<and> sh_last_path hints = ''direct'' \<and> dc_kind c = sh_direct_kind hints
               then add_reason ''profile_direct_success'' (c\<lparr>dc_priority := dc_priority c + 25\<rparr>) else c);
          c = (case map_of (sh_failures hints) (dc_kind c) of
                 Some n \<Rightarrow> add_reason ''profile_previous_failure'' (c\<lparr>dc_priority := dc_priority c - min 30 (n * 5)\<rparr>)
               | None \<Rightarrow> c)
      in if sh_vpn_detected hints \<and> (dc_kind c = ''discovered'' \<or> dc_kind c = ''lan'')
         then add_reason ''vpn_lan_caution'' (c\<lparr>dc_priority := dc_priority c - 10\<rparr>) else c)"

definition apply_direct_candidate_scoring :: "score_hints \<Rightarrow> string list \<Rightarrow> direct_candidate list \<Rightarrow> direct_candidate list" where
  "apply_direct_candidate_scoring hints kind_order candidates = map (score_candidate hints kind_order) candidates"

definition build_direct_attempt_plan ::
  "route_plan \<Rightarrow> role \<Rightarrow> punch_observation list \<Rightarrow> direct_candidate list \<Rightarrow> nat_type \<Rightarrow> nat_type \<Rightarrow> punch_plan" where
  "build_direct_attempt_plan plan role observations candidates self peer =
     (let ordered = apply_direct_candidate_scoring (rp_hints plan) (rp_direct_candidate_order plan) candidates;
          out = puncher_plan_nat role ordered self peer observations;
          out = (if 0 < rp_direct_timeout plan \<and> rp_direct_timeout plan < pp_total_timeout out
                 then out\<lparr>pp_total_timeout := rp_direct_timeout plan\<rparr> else out);
          out = (if 0 < rp_direct_connect plan then out\<lparr>pp_connect_timeout := rp_direct_connect plan\<rparr> else out);
          out = (if 0 < rp_same_port_timeout plan then out\<lparr>pp_same_port_timeout := rp_same_port_timeout plan\<rparr> else out);
          out = (if 0 < rp_same_port_connect plan then out\<lparr>pp_same_port_connect_timeout := rp_same_port_connect plan\<rparr> else out)
      in tune_direct_candidate_timeouts out)"

section \<open>The guard of the relay fallback\<close>

definition kPublicOnlyDirectWindow :: int where "kPublicOnlyDirectWindow = 500"
definition kPublicOnlyConnectWindow :: int where "kPublicOnlyConnectWindow = 220"

definition is_high_confidence :: "direct_candidate \<Rightarrow> bool" where
  "is_high_confidence c = (dc_kind c = ''discovered'' \<or> dc_kind c = ''lan'' \<or> dc_kind c = ''listen'' \<or> dc_kind c = ''manual'')"

definition has_ipv6_global_candidate :: "punch_plan \<Rightarrow> bool" where
  "has_ipv6_global_candidate punch = list_ex (\<lambda>c. dc_kind c = ''ipv6_global'') (pp_candidates punch)"

definition apply_relay_fallback_guard :: "route_plan \<Rightarrow> punch_plan \<Rightarrow> punch_plan" where
  "apply_relay_fallback_guard plan punch =
     (if pp_candidates punch = [] then punch
      else if list_ex is_high_confidence (pp_candidates punch) then punch
      else if rp_reason plan = ''ipv6_global_direct'' \<and> has_ipv6_global_candidate punch then punch
      else
        let changed = (kPublicOnlyDirectWindow < pp_total_timeout punch \<or> kPublicOnlyConnectWindow < pp_connect_timeout punch);
            punch = (if kPublicOnlyDirectWindow < pp_total_timeout punch then punch\<lparr>pp_total_timeout := kPublicOnlyDirectWindow\<rparr> else punch);
            punch = (if kPublicOnlyConnectWindow < pp_connect_timeout punch then punch\<lparr>pp_connect_timeout := kPublicOnlyConnectWindow\<rparr> else punch)
        in if \<not> changed then punch
           else tune_direct_candidate_timeouts
             (punch\<lparr>pp_candidates := map (add_reason ''relay_fallback_guard'') (pp_candidates punch)\<rparr>))"

text \<open>What \<open>attempt_direct\<close> tries; \<open>None\<close> without an attempt.\<close>

definition attempt_plan ::
  "address_library \<Rightarrow> role \<Rightarrow> relay_peer_info \<Rightarrow> endpoint list \<Rightarrow> punch_observation list \<Rightarrow> nat_type \<Rightarrow> nat_type \<Rightarrow> route_plan \<Rightarrow> punch_plan option" where
  "attempt_plan al role peer lan_extra observations self peer_nat plan =
     (if rp_skip_direct plan then None
      else Some (apply_relay_fallback_guard plan
        (build_direct_attempt_plan plan role observations (peer_candidates al peer lan_extra) self peer_nat)))"

fun joined_reasons :: "string list \<Rightarrow> string" where
  "joined_reasons [] = []"
| "joined_reasons (r # rs) = r @ concat (map (\<lambda>x. CHR ''+'' # x) rs)"

definition candidate_text :: "punch_plan \<Rightarrow> direct_candidate \<Rightarrow> string" where
  "candidate_text punch c =
     dc_kind c @ ''@'' @ endpoint_to_string (dc_endpoint c) @ '' score='' @ ms_text (dc_priority c) @
     (if 0 < dc_connect_timeout c \<and> dc_connect_timeout c \<noteq> pp_connect_timeout punch
      then '' dial='' @ ms_text (dc_connect_timeout c) @ ''ms'' else []) @
     (if dc_reasons c \<noteq> [] then '' reason='' @ joined_reasons (dc_reasons c) else [])"

definition describe_direct_plan :: "route_plan \<Rightarrow> punch_plan \<Rightarrow> string" where
  "describe_direct_plan plan punch =
     ''direct plan: timeout='' @ ms_text (pp_total_timeout punch) @ ''ms connect='' @ ms_text (pp_connect_timeout punch) @
     ''ms same_port='' @ ms_text (pp_same_port_timeout punch) @ ''ms/'' @ ms_text (pp_same_port_connect_timeout punch) @ ''ms'' @
     (if rp_udp_punch_enabled plan then '' udp-assist'' else []) @
     (if pp_candidates punch = [] then '' candidates=none''
      else '' candidates='' @ join_csv (map (candidate_text punch) (pp_candidates punch)))"

section \<open>The candidates of a peer are usable\<close>

lemma add_reason_simps [simp]:
  "dc_endpoint (add_reason r c) = dc_endpoint c" "dc_kind (add_reason r c) = dc_kind c"
  "dc_priority (add_reason r c) = dc_priority c" "dc_connect_timeout (add_reason r c) = dc_connect_timeout c"
  by (simp_all add: add_reason_def)

lemma make_candidate_simps [simp]:
  "dc_endpoint (make_direct_candidate e k n) = e" "dc_kind (make_direct_candidate e k n) = k"
  by (simp_all add: make_direct_candidate_def)

definition candidate_ok :: "address_library \<Rightarrow> direct_candidate \<Rightarrow> bool" where
  "candidate_ok al c \<longleftrightarrow>
     port (dc_endpoint c) \<noteq> 0 \<and> \<not> is_unspecified (dc_endpoint c) \<and>
     (dc_kind c = ''ipv6_global'' \<longleftrightarrow> is_global_ipv6_address al (host (dc_endpoint c))) \<and>
     (dc_kind c = ''public'' \<longrightarrow> ip_address_family al (host (dc_endpoint c)) \<noteq> IPv6)"

definition candidates_ok :: "address_library \<Rightarrow> direct_candidate list \<Rightarrow> bool" where
  "candidates_ok al cs \<longleftrightarrow> distinct (map dc_endpoint cs) \<and> list_all (candidate_ok al) cs"

lemma update_endpoint_None: "update_endpoint e n r cs = None \<longleftrightarrow> e \<notin> set (map dc_endpoint cs)"
  by (induction cs) (auto simp: Let_def)

lemma update_endpoint_Some:
  "update_endpoint e n r cs = Some ds \<Longrightarrow> map dc_endpoint ds = map dc_endpoint cs \<and> (list_all (candidate_ok al) cs \<longrightarrow> list_all (candidate_ok al) ds)"
  by (induction cs arbitrary: ds) (auto simp: Let_def candidate_ok_def split: if_splits)

lemma push_candidate_ok:
  assumes "candidates_ok al out" "base_kind \<noteq> ''ipv6_global''"
  shows "candidates_ok al (push_candidate al (e, base_kind, n, r) out)"
proof (cases "port e = 0 \<or> is_unspecified e")
  case True
  then show ?thesis using assms(1) by (simp add: push_candidate_def)
next
  case False
  let ?k = "classify_kind al e base_kind"
  let ?n = "classify_priority ?k n"
  show ?thesis
  proof (cases "update_endpoint e ?n r out")
    case None
    have "candidate_ok al (add_reason r (make_direct_candidate e ?k ?n))"
      using False assms(2) by (auto simp: candidate_ok_def classify_kind_def is_global_ipv6_address_def Let_def)
    then show ?thesis using None False assms(1) update_endpoint_None [of e ?n r out]
      by (auto simp: push_candidate_def candidates_ok_def Let_def)
  next
    case (Some ds)
    then show ?thesis using False assms(1) update_endpoint_Some [OF Some, of al] by (simp add: push_candidate_def candidates_ok_def Let_def)
  qed
qed

lemma offered_entry_kinds: "(e, k, n, r) \<in> set (offered_endpoints peer extra) \<Longrightarrow> k \<noteq> ''ipv6_global''"
  by (auto simp: offered_endpoints_def split: if_splits)

lemma push_all_ok:
  "candidates_ok al out \<Longrightarrow> (\<And>e k n r. (e, k, n, r) \<in> set xs \<Longrightarrow> k \<noteq> ''ipv6_global'') \<Longrightarrow> candidates_ok al (fold (push_candidate al) xs out)"
proof (induction xs arbitrary: out)
  case (Cons x xs)
  obtain e k n r where x: "x = (e, k, n, r)" by (cases x)
  have "candidates_ok al (push_candidate al x out)"
    unfolding x by (rule push_candidate_ok [OF Cons.prems(1)]) (use Cons.prems(2) x in auto)
  moreover have "\<And>e k n r. (e, k, n, r) \<in> set xs \<Longrightarrow> k \<noteq> ''ipv6_global''" using Cons.prems(2) by auto
  ultimately show ?case using Cons.IH by simp
qed simp

text \<open>
  The candidates of a peer are usable and apart: no two have the same endpoint, each has a port and a
  definite host, exactly those with a global IPv6 address are of the kind \<open>ipv6_global\<close>, and none of the kind
  \<open>public\<close> has an IPv6 address.
\<close>

theorem peer_candidates_usable:
  "distinct (map dc_endpoint (peer_candidates al peer extra)) \<and> list_all (candidate_ok al) (peer_candidates al peer extra)"
  using push_all_ok [of al "[]" "offered_endpoints peer extra"] offered_entry_kinds
  by (fastforce simp: peer_candidates_def candidates_ok_def)

section \<open>The plan of an attempt\<close>

lemma clamp_range:
  "a \<le> lo \<Longrightarrow> a \<le> hi \<Longrightarrow> a \<le> clamp_ms v lo hi" "hi \<le> b \<Longrightarrow> clamp_ms v lo hi \<le> b"
  by (auto simp: clamp_ms_def)

lemma dial_timeout_range: "120 \<le> dial_timeout_for c n \<and> dial_timeout_for c n \<le> 600"
  by (simp add: dial_timeout_for_def clamp_range)

lemma tune_candidate_simps [simp]:
  "dc_endpoint (tune_candidate n c) = dc_endpoint c" "dc_kind (tune_candidate n c) = dc_kind c"
  "dc_priority (tune_candidate n c) = dc_priority c"
  by (simp_all add: tune_candidate_def Let_def)

lemma tune_candidate_timeout: "120 \<le> dc_connect_timeout (tune_candidate n c) \<and> dc_connect_timeout (tune_candidate n c) \<le> 600"
proof -
  have "\<exists>d. dc_connect_timeout (tune_candidate n c) = dial_timeout_for d n"
    by (rule exI [of _ "c\<lparr>dc_reasons := filter (\<lambda>r. r \<noteq> ''extended_probe'') (filter (\<lambda>r. r \<noteq> ''short_probe'') (dc_reasons c))\<rparr>"])
      (simp add: tune_candidate_def Let_def)
  then show ?thesis using dial_timeout_range by auto
qed

lemma score_candidate_simps [simp]:
  "dc_endpoint (score_candidate h ks c) = dc_endpoint c" "dc_kind (score_candidate h ks c) = dc_kind c"
  by (simp_all add: score_candidate_def Let_def split: option.split)

abbreviation candidate_key :: "direct_candidate \<Rightarrow> endpoint \<times> string" where
  "candidate_key c \<equiv> (dc_endpoint c, dc_kind c)"

text \<open>What every change of a plan after the sorting keeps.\<close>

definition plan_ok :: "direct_candidate list \<Rightarrow> punch_plan \<Rightarrow> bool" where
  "plan_ok candidates p \<longleftrightarrow>
     mset (map candidate_key (pp_candidates p)) = mset (map candidate_key candidates) \<and>
     sorted_wrt (\<lambda>a b. dc_priority b \<le> dc_priority a) (pp_candidates p) \<and>
     list_all (\<lambda>c. 120 \<le> dc_connect_timeout c \<and> dc_connect_timeout c \<le> 600) (pp_candidates p)"

lemma plan_ok_map:
  assumes "plan_ok candidates p" "pp_candidates q = map f (pp_candidates p)"
    "\<And>c. candidate_key (f c) = candidate_key c \<and> dc_priority (f c) = dc_priority c \<and> dc_connect_timeout (f c) = dc_connect_timeout c"
  shows "plan_ok candidates q"
proof -
  have "candidate_key \<circ> f = candidate_key" using assms(3) by (simp add: fun_eq_iff)
  then show ?thesis using assms by (simp add: plan_ok_def sorted_wrt_map list_all_iff)
qed

lemma plan_ok_tune: "plan_ok candidates p \<Longrightarrow> plan_ok candidates (tune_direct_candidate_timeouts p)"
  using tune_candidate_timeout
  by (simp add: plan_ok_def tune_direct_candidate_timeouts_def sorted_wrt_map list_all_iff comp_def)

lemma sorted_by_priority: "sorted_wrt (\<lambda>a b. dc_priority b \<le> dc_priority a) (sort_key (\<lambda>c. - dc_priority c) cs)"
  using sorted_sort_key [of "\<lambda>c. - dc_priority c" cs] by (simp add: sorted_map)

lemma plan_ok_start:
  assumes "pp_candidates p = sort_key (\<lambda>c. - dc_priority c) cs"
  shows "plan_ok cs (tune_direct_candidate_timeouts p)"
  using tune_candidate_timeout sorted_by_priority [of cs]
  by (simp add: plan_ok_def tune_direct_candidate_timeouts_def assms sorted_wrt_map list_all_iff comp_def)

lemma puncher_plan_ok: "plan_ok cs (puncher_plan role cs obs)"
  unfolding puncher_plan_def Let_def by (rule plan_ok_start) (simp add: new_punch_plan_def)

lemma plan_ok_times [simp]:
  "plan_ok cs (p\<lparr>pp_total_timeout := t\<rparr>) = plan_ok cs p" "plan_ok cs (p\<lparr>pp_connect_timeout := t\<rparr>) = plan_ok cs p"
  "plan_ok cs (p\<lparr>pp_retry_delay := t\<rparr>) = plan_ok cs p" "plan_ok cs (p\<lparr>pp_same_port_timeout := t\<rparr>) = plan_ok cs p"
  "plan_ok cs (p\<lparr>pp_same_port_connect_timeout := t\<rparr>) = plan_ok cs p"
  by (simp_all add: plan_ok_def)

lemma puncher_plan_nat_ok: "plan_ok cs (puncher_plan_nat role cs self peer obs)"
  unfolding puncher_plan_nat_def Let_def by (rule plan_ok_tune) (simp add: puncher_plan_ok)

lemma attempt_plan_kept: "plan_ok cs (build_direct_attempt_plan plan role obs cs self peer)"
proof -
  let ?scored = "apply_direct_candidate_scoring (rp_hints plan) (rp_direct_candidate_order plan) cs"
  have "plan_ok ?scored (build_direct_attempt_plan plan role obs cs self peer)"
    unfolding build_direct_attempt_plan_def Let_def by (rule plan_ok_tune) (simp add: puncher_plan_nat_ok)
  then show ?thesis by (simp add: plan_ok_def apply_direct_candidate_scoring_def comp_def)
qed

lemma tune_total [simp]: "pp_total_timeout (tune_direct_candidate_timeouts p) = pp_total_timeout p"
  by (simp add: tune_direct_candidate_timeouts_def)

lemma puncher_total: "pp_total_timeout (puncher_plan_nat role cs self peer obs) \<in> {1200, 1800, 2500, 3500}"
  by (simp add: puncher_plan_nat_def puncher_plan_def new_punch_plan_def Let_def)

lemma attempt_total:
  "0 < pp_total_timeout (build_direct_attempt_plan plan role obs cs self peer) \<and>
   pp_total_timeout (build_direct_attempt_plan plan role obs cs self peer) \<le> 3500"
  using puncher_total [of role "apply_direct_candidate_scoring (rp_hints plan) (rp_direct_candidate_order plan) cs" self peer obs]
  by (auto simp: build_direct_attempt_plan_def Let_def)

lemma guard_ok: "plan_ok cs p \<Longrightarrow> plan_ok cs (apply_relay_fallback_guard plan p)"
proof -
  assume p: "plan_ok cs p"
  have "plan_ok cs (tune_direct_candidate_timeouts q)" if "pp_candidates q = map (add_reason ''relay_fallback_guard'') (pp_candidates p)" for q
    by (rule plan_ok_tune [OF plan_ok_map [OF p that]]) simp
  then show ?thesis using p by (simp add: apply_relay_fallback_guard_def Let_def)
qed

lemma guard_total:
  assumes "0 < pp_total_timeout p" "pp_total_timeout p \<le> 3500"
  shows "0 < pp_total_timeout (apply_relay_fallback_guard plan p) \<and> pp_total_timeout (apply_relay_fallback_guard plan p) \<le> 3500"
  using assms by (simp add: apply_relay_fallback_guard_def Let_def kPublicOnlyDirectWindow_def)

lemma guard_short:
  assumes "\<forall>c\<in>set (pp_candidates p). dc_kind c = ''public''" "pp_candidates p \<noteq> []"
  shows "pp_total_timeout (apply_relay_fallback_guard plan p) \<le> 500"
  using assms by (auto simp: apply_relay_fallback_guard_def Let_def kPublicOnlyDirectWindow_def list_ex_iff is_high_confidence_def
      has_ipv6_global_candidate_def)

lemma plan_kinds: "plan_ok cs p \<Longrightarrow> dc_kind ` set (pp_candidates p) = dc_kind ` set cs"
proof -
  assume "plan_ok cs p"
  then have "set (map candidate_key (pp_candidates p)) = set (map candidate_key cs)"
    unfolding plan_ok_def by (metis set_mset_mset)
  then have "snd ` set (map candidate_key (pp_candidates p)) = snd ` set (map candidate_key cs)" by simp
  then show ?thesis by (simp add: image_image)
qed

text \<open>
  The plan of a direct attempt lists every candidate of the peer once, in the order of falling priority, each with
  a dial timeout between 120 and 600 ms; the time it gives to the attempt is positive and at most 3.5 s, and half
  a second if the peer offers only addresses seen by the relay. (The attempt itself goes through the list until that
  time is over, with timeouts clipped to what is left.)
\<close>

theorem attempt_plan_complete:
  assumes "attempt_plan al role peer extra obs self peer_nat plan = Some p"
  shows "mset (map candidate_key (pp_candidates p)) = mset (map candidate_key (peer_candidates al peer extra)) \<and>
    sorted_wrt (\<lambda>a b. dc_priority b \<le> dc_priority a) (pp_candidates p) \<and>
    list_all (\<lambda>c. 120 \<le> dc_connect_timeout c \<and> dc_connect_timeout c \<le> 600) (pp_candidates p) \<and>
    0 < pp_total_timeout p \<and> pp_total_timeout p \<le> 3500 \<and>
    (dc_kind ` set (peer_candidates al peer extra) = {''public''} \<longrightarrow> pp_total_timeout p \<le> 500)"
proof -
  let ?cs = "peer_candidates al peer extra"
  let ?b = "build_direct_attempt_plan plan role obs ?cs self peer_nat"
  have p: "p = apply_relay_fallback_guard plan ?b" using assms by (simp add: attempt_plan_def split: if_splits)
  have ok: "plan_ok ?cs ?b" by (rule attempt_plan_kept)
  have "pp_total_timeout p \<le> 500" if k: "dc_kind ` set ?cs = {''public''}"
  proof -
    have k': "dc_kind ` set (pp_candidates ?b) = {''public''}" using plan_kinds [OF ok] k by simp
    have "\<forall>c\<in>set (pp_candidates ?b). dc_kind c = ''public''" using k' by (metis image_eqI singletonD)
    moreover have "pp_candidates ?b \<noteq> []" using k' by (cases "pp_candidates ?b") simp_all
    ultimately show ?thesis unfolding p by (rule guard_short)
  qed
  then show ?thesis
    using guard_ok [OF ok, of plan] guard_total [of ?b plan] attempt_total [of plan role obs ?cs self peer_nat] p by (simp add: plan_ok_def)
qed

definition sample_library :: address_library where
  "sample_library = \<lparr>al_make_address = (\<lambda>h. None), al_is_unspecified = (\<lambda>a. False), al_is_loopback = (\<lambda>a. False),
     al_is_multicast = (\<lambda>a. False)\<rparr>"

definition sample_peer :: relay_peer_info where
  "sample_peer = \<lparr>pi_peer_public = \<lparr>host = ''h'', port = 9\<rparr>, pi_peer_listen = \<lparr>host = [], port = 0\<rparr>, pi_local_candidates = [],
     pi_no_direct = False, pi_self_public = \<lparr>host = [], port = 0\<rparr>, pi_punch_token = [], pi_route_commit_v2 = False,
     pi_file_count = 0, pi_total_size = 0, pi_conn_count = 1\<rparr>"

theorem attempt_plan_complete_witness:
  "\<exists>p. attempt_plan sample_library Receiver sample_peer [] [] BehindNat BehindNat new_route_plan = Some p \<and> pp_total_timeout p \<le> 500"
proof -
  obtain p where p: "attempt_plan sample_library Receiver sample_peer [] [] BehindNat BehindNat new_route_plan = Some p"
    by (simp add: attempt_plan_def new_route_plan_def)
  have "dc_kind ` set (peer_candidates sample_library sample_peer []) = {''public''}"
    by (simp add: peer_candidates_def offered_endpoints_def sample_peer_def push_candidate_def is_unspecified_def classify_kind_def
        ip_address_family_def ip_address_scope_def parse_ip_address_def sample_library_def)
  then show ?thesis using attempt_plan_complete [OF p] p by blast
qed

end
