(* ===== verification/Route_Advice.thy ===== *)
theory Route_Advice
  imports Direct_Plan Protocol
begin

text \<open>
  Advice on the route from a language model (diagnostics/ai_advisor.cpp) and how it is merged into the plan of
  the rules (connect/route_planner.cpp). The answer of the model is a JSON value, a parameter.
\<close>

section \<open>Reading an advice\<close>

definition json_key :: "string \<Rightarrow> json \<Rightarrow> json option" where
  "json_key k j = (case j of JObject fs \<Rightarrow> map_of fs k | _ \<Rightarrow> None)"

definition bool_key :: "string \<Rightarrow> json \<Rightarrow> bool option" where
  "bool_key k j = (case json_key k j of Some (JBool b) \<Rightarrow> Some b | _ \<Rightarrow> None)"

text \<open>An integer is read as a signed one of 64 bits.\<close>

definition integer_key :: "string \<Rightarrow> json \<Rightarrow> int option" where
  "integer_key k j = (case json_key k j of Some (JUnsigned w) \<Rightarrow> Some (sint w) | Some (JInteger w) \<Rightarrow> Some (sint w) | _ \<Rightarrow> None)"

definition strings_key :: "string \<Rightarrow> json \<Rightarrow> string list option" where
  "strings_key k j =
     (case json_key k j of
        Some (JArray js) \<Rightarrow> Some (List.map_filter (\<lambda>i. case i of JString s \<Rightarrow> Some s | _ \<Rightarrow> None) js)
      | _ \<Rightarrow> None)"

definition string_key :: "string \<Rightarrow> json \<Rightarrow> string option" where
  "string_key k j = (case json_key k j of Some (JString s) \<Rightarrow> Some s | _ \<Rightarrow> None)"

definition when_some :: "'a option \<Rightarrow> ('a \<Rightarrow> 's \<Rightarrow> 's) \<Rightarrow> 's \<Rightarrow> 's" where
  "when_some x f s = (case x of None \<Rightarrow> s | Some v \<Rightarrow> f v s)"

definition clamp_int :: "int \<Rightarrow> int \<Rightarrow> int \<Rightarrow> int" where
  "clamp_int v lo hi = (if v < lo then lo else if hi < v then hi else v)"

definition valid_relay_kind :: "string \<Rightarrow> bool" where
  "valid_relay_kind kind = (kind = ''embedded'' \<or> kind = ''lan'' \<or> kind = ''external'')"

definition push_order_kind :: "string \<Rightarrow> string list \<Rightarrow> string list" where
  "push_order_kind kind kinds = (if is_direct_candidate_order_kind kind \<and> kind \<notin> set kinds then kinds @ [kind] else kinds)"

definition validate_ai_route_plan :: "json \<Rightarrow> route_plan" where
  "validate_ai_route_plan j =
     (when_some (string_key ''reason'' j) (\<lambda>r p. if length r \<le> 64 then p\<lparr>rp_reason := r\<rparr> else p) \<circ>
      when_some (strings_key ''relay_order'' j) (\<lambda>ks p. p\<lparr>rp_relay_order := rp_relay_order p @ filter valid_relay_kind ks\<rparr>) \<circ>
      when_some (strings_key ''direct_candidate_order'' j)
        (\<lambda>ks p. p\<lparr>rp_direct_candidate_order := fold push_order_kind ks (rp_direct_candidate_order p)\<rparr>) \<circ>
      when_some (integer_key ''connections'' j) (\<lambda>n p. p\<lparr>rp_connections := clamp_int n 1 32\<rparr>) \<circ>
      when_some (integer_key ''direct_connect_ms'' j) (\<lambda>n p. p\<lparr>rp_direct_connect := clamp_int n 0 5000\<rparr>) \<circ>
      when_some (integer_key ''direct_timeout_ms'' j) (\<lambda>n p. p\<lparr>rp_direct_timeout := clamp_int n 0 10000\<rparr>) \<circ>
      when_some (bool_key ''udp_punch_enabled'' j) (\<lambda>b p. p\<lparr>rp_udp_punch_enabled := b\<rparr>) \<circ>
      when_some (bool_key ''skip_direct'' j) (\<lambda>b p. p\<lparr>rp_skip_direct := b\<rparr>)) new_route_plan"

definition extract_json_object :: "string \<Rightarrow> string" where
  "extract_json_object t =
     (let before = takeWhile (\<lambda>c. c \<noteq> CHR ''{'') t; behind = takeWhile (\<lambda>c. c \<noteq> CHR ''}'') (rev t)
      in if CHR ''{'' \<notin> set t \<or> CHR ''}'' \<notin> set t \<or> length t - length behind - 1 \<le> length before then t
         else take (length t - length behind - length before) (drop (length before) t))"

section \<open>Merging\<close>

definition has_key :: "json option \<Rightarrow> string \<Rightarrow> bool" where
  "has_key raw k = (case raw of None \<Rightarrow> True | Some j \<Rightarrow> json_key k j \<noteq> None)"

definition apply_when :: "('s \<Rightarrow> bool) \<Rightarrow> ('s \<Rightarrow> 's) \<Rightarrow> 's \<Rightarrow> 's" where
  "apply_when c f s = (if c s then f s else s)"

definition merge_ai_route_plan :: "route_plan \<Rightarrow> route_plan \<Rightarrow> json option \<Rightarrow> route_plan" where
  "merge_ai_route_plan rules ai raw =
     (apply_when (\<lambda>m. rp_reason ai \<noteq> []) (\<lambda>m. m\<lparr>rp_reason := ''ai:'' @ rp_reason ai\<rparr>) \<circ>
      apply_when (\<lambda>m. has_key raw ''relay_order'') (\<lambda>m. m\<lparr>rp_relay_order := rp_relay_order ai\<rparr>) \<circ>
      apply_when (\<lambda>m. has_key raw ''direct_candidate_order'') (\<lambda>m. m\<lparr>rp_direct_candidate_order := rp_direct_candidate_order ai\<rparr>) \<circ>
      apply_when (\<lambda>m. has_key raw ''connections'' \<and> 1 \<le> rp_connections ai) (\<lambda>m. m\<lparr>rp_connections := rp_connections ai\<rparr>) \<circ>
      apply_when (\<lambda>m. has_key raw ''direct_connect_ms'' \<and> 0 < rp_direct_connect ai) (\<lambda>m. m\<lparr>rp_direct_connect := rp_direct_connect ai\<rparr>) \<circ>
      apply_when (\<lambda>m. \<not> rp_skip_direct m \<and> rp_skip_direct ai \<and> 500 < rp_direct_timeout m) (\<lambda>m. m\<lparr>rp_direct_timeout := 500\<rparr>) \<circ>
      apply_when (\<lambda>m. has_key raw ''direct_timeout_ms'' \<and> 0 < rp_direct_timeout ai) (\<lambda>m. m\<lparr>rp_direct_timeout := rp_direct_timeout ai\<rparr>))
     rules"

text \<open>
  \<open>advice\<close> is the parsed answer, or \<open>None\<close> if the client is not configured, has no connection or gives no JSON; the
  messages for the user are left out.
\<close>

definition resolve_route_plan ::
  "bool \<Rightarrow> connectivity_snapshot \<Rightarrow> stun_nat_class option \<Rightarrow> int \<Rightarrow> bool \<Rightarrow> bool \<Rightarrow> bool \<Rightarrow> json option \<Rightarrow> route_plan" where
  "resolve_route_plan no_direct s stun_ok connections ai_route plan_only connectivity_only advice =
     (let plan = build_route_plan no_direct s stun_ok connections in
      if \<not> ai_route \<and> \<not> plan_only then plan
      else case advice of
        None \<Rightarrow> plan
      | Some j \<Rightarrow>
          if plan_only then plan
          else
            let merged = merge_ai_route_plan plan (validate_ai_route_plan j) (Some j)
            in if connectivity_only then merged\<lparr>rp_connections := rp_connections plan\<rparr> else merged)"

definition merge_route_plan_hint :: "route_plan \<Rightarrow> route_plan \<Rightarrow> route_plan" where
  "merge_route_plan_hint rules hint = merge_ai_route_plan rules hint None"

definition apply_peer_direct_policy :: "bool \<Rightarrow> route_plan \<Rightarrow> route_plan" where
  "apply_peer_direct_policy peer_no_direct plan =
     (if \<not> peer_no_direct then plan
      else plan\<lparr>rp_skip_direct := True, rp_direct_timeout := 0, rp_direct_connect := 0, rp_udp_punch_enabled := False,
        rp_reason := ''peer_no_direct''\<rparr>)"

section \<open>What the rules may make of a plan\<close>

definition known_order :: "string list \<Rightarrow> bool" where
  "known_order ks \<longleftrightarrow> distinct ks \<and> list_all is_direct_candidate_order_kind ks"

lemma push_unique_known: "known_order ks \<Longrightarrow> k = [] \<or> is_direct_candidate_order_kind k \<Longrightarrow> known_order (push_unique_kind k ks)"
  by (auto simp: push_unique_kind_def known_order_def)

lemma push_all_known: "known_order ks \<Longrightarrow> \<forall>k\<in>set xs. k = [] \<or> is_direct_candidate_order_kind k \<Longrightarrow> known_order (fold push_unique_kind xs ks)"
  by (induction xs arbitrary: ks) (simp_all add: push_unique_known)

lemma push_order_known: "known_order ks \<Longrightarrow> known_order (fold push_order_kind xs ks)"
  by (induction xs arbitrary: ks) (auto simp: push_order_kind_def known_order_def)

text \<open>A plan within the limits; the first two parts are the switches.\<close>

definition plan_within :: "bool \<Rightarrow> int \<Rightarrow> route_plan \<Rightarrow> bool" where
  "plan_within skip n p \<longleftrightarrow>
     rp_skip_direct p = skip \<and> \<not> rp_udp_punch_enabled p \<and> rp_connections p = n \<and>
     0 \<le> rp_direct_timeout p \<and> rp_direct_timeout p \<le> 3500 \<and> 0 \<le> rp_direct_connect p \<and> rp_direct_connect p \<le> 5000 \<and>
     known_order (rp_direct_candidate_order p)"

named_theorems within_intros

lemma prepend_within:
  "plan_within b n p \<Longrightarrow> \<forall>k\<in>set ks. k = [] \<or> is_direct_candidate_order_kind k \<Longrightarrow> plan_within b n (prepend_candidate_order ks p)"
  using push_all_known [of "fold push_unique_kind ks []" "rp_direct_candidate_order p"] push_all_known [of "[]" ks]
  by (simp add: plan_within_def prepend_candidate_order_def known_order_def list_all_iff)

lemma prefer_within [within_intros]:
  "plan_within b n p \<Longrightarrow> plan_within b n (prefer_local_before_public p)"
  "plan_within b n p \<Longrightarrow> plan_within b n (prefer_global_ipv6 p)"
  unfolding prefer_local_before_public_def prefer_global_ipv6_def
  by (rule prepend_within; simp add: is_direct_candidate_order_kind_def)+

lemma short_direct_within [within_intros]: "plan_within b n p \<Longrightarrow> plan_within b n (short_direct r p)"
  unfolding short_direct_def Let_def by (rule prefer_within(1)) (simp add: plan_within_def)

lemma same_port_within [within_intros]: "plan_within b n p \<Longrightarrow> plan_within b n (apply_same_port_history s p)"
  by (simp add: apply_same_port_history_def plan_within_def)

lemma last_kind_within [within_intros]: "plan_within b n p \<Longrightarrow> plan_within b n (prefer_last_kind s p)"
  unfolding prefer_last_kind_def Let_def
  by (auto intro!: prepend_within simp: normalized_direct_kind_def is_direct_candidate_order_kind_def)

lemma shorten_within [within_intros]:
  "plan_within b n p \<Longrightarrow> plan_within b n (shorten_after_ipv6_failures s p)"
  "plan_within b n p \<Longrightarrow> plan_within b n (shorten_after_public_failures s p)"
  "plan_within b n p \<Longrightarrow> plan_within b n (shorten_after_relay_routes s p)"
  by (simp_all add: shorten_after_ipv6_failures_def shorten_after_public_failures_def short_direct_within)
    (simp add: shorten_after_relay_routes_def plan_within_def)

lemma history_within [within_intros]: "plan_within b n p \<Longrightarrow> plan_within b n (apply_profile_route_history s p)"
  unfolding apply_profile_route_history_def Let_def by (simp add: within_intros)

lemma base_steps_within [within_intros]:
  "plan_within b n p \<Longrightarrow> plan_within b n (base_local s p)"
  "plan_within b n p \<Longrightarrow> plan_within b n (base_stun st p)"
  "plan_within b n p \<Longrightarrow> plan_within b n (base_double_nat s p)"
  "plan_within b n p \<Longrightarrow> plan_within b n (base_cone s st p)"
  by (simp add: base_local_def plan_within_def Let_def)
    (simp add: base_stun_def plan_within_def kRelayStandbyDirectWindow_def kRelayStandbyConnectWindow_def split: option.split stun_nat_class.split,
     simp add: base_double_nat_def plan_within_def Let_def kRelayStandbyDirectWindow_def kRelayStandbyConnectWindow_def,
     simp add: base_cone_def plan_within_def Let_def)

lemma base_ipv6_within [within_intros]: "plan_within b n p \<Longrightarrow> plan_within b n (base_ipv6 s p)"
proof -
  assume "plan_within b n p"
  then have "plan_within b n (p\<lparr>rp_direct_timeout := 3500, rp_direct_connect := 450, rp_reason := ''ipv6_global_direct''\<rparr>)"
    by (simp add: plan_within_def)
  from prefer_within(2) [OF this] show "plan_within b n (base_ipv6 s p)" if "plan_within b n p" using that by (simp add: base_ipv6_def)
qed

lemma base_within: "plan_within (nd \<or> cs_no_direct_config s) n (build_base_route_plan s st nd n)"
proof -
  let ?p = "fill_candidate_score_hints s (new_route_plan\<lparr>rp_connections := n, rp_reason := ''default''\<rparr>)"
  have p: "plan_within False n ?p"
    by (simp add: plan_within_def fill_candidate_score_hints_def new_route_plan_def known_order_def)
  show ?thesis
  proof (cases "nd \<or> cs_no_direct_config s")
    case True
    then show ?thesis using p by (simp only: build_base_route_plan_def Let_def True if_True) (simp add: plan_within_def)
  next
    case False
    then show ?thesis using p by (simp only: build_base_route_plan_def Let_def False if_False) (simp add: within_intros)
  qed
qed

lemma rules_within: "plan_within (nd \<or> cs_no_direct_config s) n (build_route_plan nd s st n)"
  unfolding build_route_plan_def by (rule history_within [OF base_within])

section \<open>What an advice may change\<close>

lemma when_some_induct: "P s \<Longrightarrow> (\<And>v s. P s \<Longrightarrow> x = Some v \<Longrightarrow> P (f v s)) \<Longrightarrow> P (when_some x f s)"
  by (cases x) (simp_all add: when_some_def)

definition advice_within :: "route_plan \<Rightarrow> bool" where
  "advice_within p \<longleftrightarrow>
     0 \<le> rp_direct_timeout p \<and> rp_direct_timeout p \<le> 10000 \<and> 0 \<le> rp_direct_connect p \<and> rp_direct_connect p \<le> 5000 \<and>
     1 \<le> rp_connections p \<and> rp_connections p \<le> 32 \<and> known_order (rp_direct_candidate_order p)"

lemma validated_within: "advice_within (validate_ai_route_plan j)"
  unfolding validate_ai_route_plan_def comp_apply
  by (intro when_some_induct [where P = advice_within])
    (auto simp: advice_within_def new_route_plan_def clamp_int_def known_order_def push_order_known [unfolded known_order_def])

lemma apply_when_induct: "P s \<Longrightarrow> (\<And>s. P s \<Longrightarrow> c s \<Longrightarrow> P (f s)) \<Longrightarrow> P (apply_when c f s)"
  by (simp add: apply_when_def)

lemma merged_within:
  assumes "plan_within b n p" "1 \<le> n" "n \<le> 32" "advice_within ai"
  shows "rp_skip_direct (merge_ai_route_plan p ai raw) = b \<and> \<not> rp_udp_punch_enabled (merge_ai_route_plan p ai raw) \<and>
    advice_within (merge_ai_route_plan p ai raw)"
proof -
  define P where "P m \<longleftrightarrow> rp_skip_direct m = b \<and> \<not> rp_udp_punch_enabled m \<and> advice_within m" for m
  have "P p" using assms by (simp add: P_def plan_within_def advice_within_def)
  then have "P (merge_ai_route_plan p ai raw)"
    unfolding merge_ai_route_plan_def comp_apply
    by (intro apply_when_induct [where P = P]) (use assms(4) in \<open>simp_all add: P_def advice_within_def\<close>)
  then show ?thesis by (simp add: P_def)
qed

lemma resolved_within:
  assumes "1 \<le> n" "n \<le> 32"
  shows "rp_skip_direct (resolve_route_plan nd s st n ai po co advice) = (nd \<or> cs_no_direct_config s) \<and>
    \<not> rp_udp_punch_enabled (resolve_route_plan nd s st n ai po co advice) \<and> advice_within (resolve_route_plan nd s st n ai po co advice)"
proof -
  let ?p = "build_route_plan nd s st n"
  have p: "plan_within (nd \<or> cs_no_direct_config s) n ?p" by (rule rules_within)
  then have a: "advice_within ?p" "rp_skip_direct ?p = (nd \<or> cs_no_direct_config s)" "\<not> rp_udp_punch_enabled ?p" "rp_connections ?p = n"
    using assms by (simp_all add: plan_within_def advice_within_def)
  note m = merged_within [OF p assms validated_within]
  show ?thesis
  proof (cases "(\<not> ai \<and> \<not> po) \<or> advice = None \<or> po")
    case True
    then have "resolve_route_plan nd s st n ai po co advice = ?p" by (auto simp: resolve_route_plan_def Let_def split: option.split)
    then show ?thesis using a by simp
  next
    case False
    then obtain j where "advice = Some j" "ai" "\<not> po" by (cases advice) auto
    then show ?thesis using m [of j "Some j"] a(4) assms by (simp add: resolve_route_plan_def Let_def advice_within_def)
  qed
qed

text \<open>
  C33: Only the user, here or at the peer, decides whether a direct connection is tried. Whatever the probes, the history
  of the network and the advice of the model say, direct attempts are skipped exactly if this side or the peer
  has switched them off, and the experimental UDP packets stay off.
\<close>

theorem direct_only_off_by_user:
  assumes "1 \<le> connections" "connections \<le> 32"
    "plan = apply_peer_direct_policy peer_no_direct
       (resolve_route_plan no_direct s stun_ok connections ai_route plan_only connectivity_only advice)"
  shows "(rp_skip_direct plan \<longleftrightarrow> no_direct \<or> cs_no_direct_config s \<or> peer_no_direct) \<and> \<not> rp_udp_punch_enabled plan"
  using resolved_within [OF assms(1,2), of no_direct s stun_ok ai_route plan_only connectivity_only advice] assms(3)
  by (simp add: apply_peer_direct_policy_def)

text \<open>
  C34: The resolved plan is within its limits, whatever JSON the model answers: at most 10 s for the direct attempt and 5 s
  for a connection, 1 to 32 connections, and an order of candidate kinds that names known kinds once each.
\<close>

theorem resolved_plan_bounded:
  assumes "1 \<le> connections" "connections \<le> 32"
    "plan = resolve_route_plan no_direct s stun_ok connections ai_route plan_only connectivity_only advice"
  shows "0 \<le> rp_direct_timeout plan \<and> rp_direct_timeout plan \<le> 10000 \<and> 0 \<le> rp_direct_connect plan \<and> rp_direct_connect plan \<le> 5000 \<and>
    1 \<le> rp_connections plan \<and> rp_connections plan \<le> 32 \<and>
    distinct (rp_direct_candidate_order plan) \<and> list_all is_direct_candidate_order_kind (rp_direct_candidate_order plan)"
  using resolved_within [OF assms(1,2), of no_direct s stun_ok ai_route plan_only connectivity_only advice] assms(3)
  by (simp add: advice_within_def known_order_def)

definition sample_snapshot :: connectivity_snapshot where
  "sample_snapshot = \<lparr>cs_self_nat = BehindNat, cs_peer_nat = BehindNat, cs_stun_nat = StunUnknown, cs_vpn_detected = False,
     cs_lan_discovered_count = 0, cs_no_direct_config = False, cs_only_local = False,
     cs_profile = \<lparr>np_last_path = [], np_success_count = 0, np_path_streak = 0, np_relay_path = [], np_relay_interface = [],
       np_relay_reason = [], np_relay_rtts = [], np_last_direct_candidate_kind = [], np_last_direct_rtt_ms = -1,
       np_candidate_failures = [], np_same_port_attempts = 0, np_same_port_successes = 0, np_same_port_failure_streak = 0,
       np_same_port_last_elapsed_ms = -1\<rparr>,
     cs_self_global_ipv6 = 0, cs_peer_global_ipv6 = 0\<rparr>"

text \<open>An advice that asks for too much and for a relay only.\<close>

definition sample_advice :: json where
  "sample_advice = JObject [(''connections'', JUnsigned 1000), (''direct_timeout_ms'', JInteger (- 1)), (''skip_direct'', JBool True)]"

theorem direct_only_off_by_user_witness:
  "\<not> rp_skip_direct (apply_peer_direct_policy False (resolve_route_plan False sample_snapshot None 4 True False False (Some sample_advice)))"
  using direct_only_off_by_user [of 4, OF _ _ refl, of False False sample_snapshot None True False False "Some sample_advice"]
  by (simp add: sample_snapshot_def)

theorem resolved_plan_bounded_witness:
  "rp_connections (resolve_route_plan False sample_snapshot None 4 True False False (Some sample_advice)) \<le> 32"
  using resolved_plan_bounded [of 4, OF _ _ refl, of False sample_snapshot None True False False "Some sample_advice"] by simp

end
