(* ===== verification/Direct_Exchange.thy ===== *)
theory Direct_Exchange
  imports Direct_Candidates Protocol
begin

text \<open>
  The messages that two peers exchange to agree on a direct connection (connect/connectivity.cpp), on parallel
  connections (connect/direct_session.cpp), and what is counted of the attempts.
\<close>

section \<open>The preflight of a connection\<close>

definition peer_role :: "role \<Rightarrow> role" where
  "peer_role role = (if role = Sender then Receiver else Sender)"

definition direct_hello_message :: "string \<Rightarrow> role \<Rightarrow> message" where
  "direct_hello_message room role = \<lparr>mtype = ''direct_hello'', mfields = omap_put ''role'' (role_name role) (omap_put ''room'' room [])\<rparr>"

definition direct_ack_message :: "string \<Rightarrow> message" where
  "direct_ack_message room = \<lparr>mtype = ''direct_ack'', mfields = omap_put ''room'' room []\<rparr>"

definition direct_ack_ok :: "message \<Rightarrow> string \<Rightarrow> bool" where
  "direct_ack_ok m room \<longleftrightarrow> mtype m = ''direct_ack'' \<and> msg_get m ''room'' [] = room"

definition direct_hello_ok :: "message \<Rightarrow> string \<Rightarrow> role \<Rightarrow> bool" where
  "direct_hello_ok m room expected \<longleftrightarrow>
     mtype m = ''direct_hello'' \<and> msg_get m ''room'' [] = room \<and> msg_get m ''role'' [] = role_name expected"

text \<open>
  The side that dials. \<open>first\<close> and \<open>second\<close> are what the two reads give, \<open>cancelled i\<close> the i-th look at the flag; besides the
  verdict the result says which messages were sent.
\<close>

definition complete_direct_dial_preflight ::
  "role \<Rightarrow> string \<Rightarrow> (nat \<Rightarrow> bool) \<Rightarrow> message option \<Rightarrow> message option \<Rightarrow> bool \<times> message list" where
  "complete_direct_dial_preflight role room cancelled first second =
     (if cancelled 0 then (False, [])
      else
        let hello = direct_hello_message room role in
        if cancelled 1 then (False, [hello])
        else case first of
          None \<Rightarrow> (False, [hello])
        | Some response \<Rightarrow>
            if direct_ack_ok response room then (True, [hello])
            else if \<not> direct_hello_ok response room (peer_role role) then (False, [hello])
            else
              let sent = [hello, direct_ack_message room] in
              if cancelled 2 then (False, sent)
              else (case second of None \<Rightarrow> (False, sent) | Some peer_ack \<Rightarrow> (direct_ack_ok peer_ack room, sent)))"

text \<open>The side that accepts: whether it keeps the connection, and what it sends.\<close>

definition accept_preflight :: "string \<Rightarrow> role \<Rightarrow> bool \<Rightarrow> message option \<Rightarrow> bool \<times> message list" where
  "accept_preflight room expected cancelled hello =
     (if cancelled then (False, [])
      else case hello of
        None \<Rightarrow> (False, [])
      | Some m \<Rightarrow> if direct_hello_ok m room expected then (True, [direct_ack_message room]) else (False, []))"

definition nth_message :: "nat \<Rightarrow> message list \<Rightarrow> message option" where
  "nth_message i ms = (if i < length ms then Some (ms ! i) else None)"

lemma hello_facts [simp]:
  "direct_hello_ok (direct_hello_message room r) room' e \<longleftrightarrow> room = room' \<and> r = e" "\<not> direct_ack_ok (direct_hello_message room r) room'"
  "direct_ack_ok (direct_ack_message room) room' \<longleftrightarrow> room = room'" "\<not> direct_hello_ok (direct_ack_message room) room' e"
  by (cases r; cases e; auto simp: direct_hello_ok_def direct_ack_ok_def direct_hello_message_def direct_ack_message_def msg_get_def role_name_def)+

lemma peer_role_simps [simp]: "peer_role Sender = Receiver" "peer_role Receiver = Sender" "peer_role (peer_role r) = r"
  by (cases r; simp add: peer_role_def)+

lemma peer_role_swap: "e = peer_role r \<longleftrightarrow> r = peer_role e"
  by (cases r; cases e; simp)

text \<open>
  C29: Both ends of a direct connection agree on it, when no side is cancelled and every message that
  one end sends reaches the other in time (the two reads of an end give the first two messages that the
  other one sent). If one side dials and the other accepts, or both dial at once and their connections
  meet, then either both take the connection or neither does; they take it exactly if they are in the
  same room with opposite roles. (An acknowledgement that is lost leaves the accepting end with a
  connection that the other one gives up.)
\<close>

theorem preflight_agrees:
  assumes "\<And>i. \<not> cancelled i" "\<And>i. \<not> cancelled' i"
  shows "(\<forall>dial_sent dialed accept_sent accepted.
      complete_direct_dial_preflight role room cancelled (nth_message 0 accept_sent) (nth_message 1 accept_sent) = (dialed, dial_sent) \<longrightarrow>
      accept_preflight room' (peer_role role') False (nth_message 0 dial_sent) = (accepted, accept_sent) \<longrightarrow>
      dialed = accepted \<and> dialed = (room = room' \<and> role = peer_role role')) \<and>
    (\<forall>sent dialed sent' dialed'.
      complete_direct_dial_preflight role room cancelled (nth_message 0 sent') (nth_message 1 sent') = (dialed, sent) \<longrightarrow>
      complete_direct_dial_preflight role' room' cancelled' (nth_message 0 sent) (nth_message 1 sent) = (dialed', sent') \<longrightarrow>
      dialed = dialed' \<and> dialed = (room = room' \<and> role = peer_role role'))"
proof (intro conjI allI impI)
  fix dial_sent accept_sent :: "message list" and dialed accepted
  assume d: "complete_direct_dial_preflight role room cancelled (nth_message 0 accept_sent) (nth_message 1 accept_sent) = (dialed, dial_sent)"
    and a: "accept_preflight room' (peer_role role') False (nth_message 0 dial_sent) = (accepted, accept_sent)"
  have h: "nth_message 0 dial_sent = Some (direct_hello_message room role)"
    using d assms by (auto simp: complete_direct_dial_preflight_def nth_message_def Let_def split: option.splits if_splits)
  then have "accepted = (room = room' \<and> role = peer_role role') \<and> accept_sent = (if accepted then [direct_ack_message room'] else [])"
    using a by (auto simp: accept_preflight_def split: if_splits)
  moreover from this have "dialed = accepted"
    using d assms by (auto simp: complete_direct_dial_preflight_def nth_message_def Let_def split: if_splits)
  ultimately show "dialed = accepted" "dialed = (room = room' \<and> role = peer_role role')" by simp_all
next
  fix sent sent' :: "message list" and dialed dialed'
  assume d: "complete_direct_dial_preflight role room cancelled (nth_message 0 sent') (nth_message 1 sent') = (dialed, sent)"
    and d': "complete_direct_dial_preflight role' room' cancelled' (nth_message 0 sent) (nth_message 1 sent) = (dialed', sent')"
  have h: "nth_message 0 sent = Some (direct_hello_message room role)" "nth_message 0 sent' = Some (direct_hello_message room' role')"
    using d d' assms by (auto simp: complete_direct_dial_preflight_def nth_message_def Let_def split: option.splits if_splits)
  have "sent = (if room = room' \<and> role = peer_role role' then [direct_hello_message room role, direct_ack_message room] else [direct_hello_message room role])"
    "sent' = (if room = room' \<and> role = peer_role role' then [direct_hello_message room' role', direct_ack_message room'] else [direct_hello_message room' role'])"
    using d d' h assms by (auto simp: peer_role_swap [of role'] complete_direct_dial_preflight_def Let_def split: option.splits if_splits)
  then show "dialed = dialed'" "dialed = (room = room' \<and> role = peer_role role')"
    using d d' h assms by (auto simp: complete_direct_dial_preflight_def nth_message_def Let_def split: if_splits)
qed

theorem preflight_agrees_witness:
  "complete_direct_dial_preflight Receiver ''r'' (\<lambda>_. False) (nth_message 0 [direct_ack_message ''r'']) (nth_message 1 [direct_ack_message ''r'']) =
     (True, [direct_hello_message ''r'' Receiver]) \<and>
   accept_preflight ''r'' (peer_role Sender) False (nth_message 0 [direct_hello_message ''r'' Receiver]) = (True, [direct_ack_message ''r'']) \<and>
   ''r'' = ''r'' \<and> Receiver = peer_role Sender"
proof -
  have d: "complete_direct_dial_preflight Receiver ''r'' (\<lambda>_. False) (nth_message 0 [direct_ack_message ''r'']) (nth_message 1 [direct_ack_message ''r'']) =
      (True, [direct_hello_message ''r'' Receiver])"
    by (simp add: complete_direct_dial_preflight_def nth_message_def)
  have a: "accept_preflight ''r'' (peer_role Sender) False (nth_message 0 [direct_hello_message ''r'' Receiver]) = (True, [direct_ack_message ''r''])"
    by (simp add: accept_preflight_def nth_message_def)
  show ?thesis
    using preflight_agrees [of "\<lambda>_. False" "\<lambda>_. False" Receiver "''r''" "''r''" Sender] d a by blast
qed

section \<open>Parallel connections\<close>

text \<open>What the i-th accept and the read that follows give; \<open>Thrown\<close> is an exception of the calls or of a cancellation.\<close>

datatype 's accept_outcome = AcceptLate | AcceptInvalid | HelloLate | Thrown string | HelloGiven "message option" 's

fun accept_aux ::
  "nat \<Rightarrow> u64 \<Rightarrow> string \<Rightarrow> (nat \<Rightarrow> 's accept_outcome) \<Rightarrow> nat \<Rightarrow> bool list \<Rightarrow> 's option list \<Rightarrow> 's option list result" where
  "accept_aux 0 connections room outcomes i seen aux = Inr aux"
| "accept_aux (Suc left) connections room outcomes i seen aux =
     (case outcomes i of
        AcceptLate \<Rightarrow> Inl ''timed out accepting auxiliary direct connection''
      | AcceptInvalid \<Rightarrow> Inl ''failed to accept auxiliary direct connection''
      | HelloLate \<Rightarrow> Inl ''timed out reading auxiliary direct hello''
      | Thrown e \<Rightarrow> Inl e
      | HelloGiven None _ \<Rightarrow> Inl ''invalid auxiliary direct connection''
      | HelloGiven (Some m) accepted \<Rightarrow>
          if mtype m \<noteq> ''direct_aux'' \<or> msg_get m ''room'' [] \<noteq> room then Inl ''invalid auxiliary direct connection''
          else andthen (msg_get_u64 m ''conn_index'' 0) (\<lambda>index.
            if index = 0 \<or> connections \<le> index \<or> seen ! unat index
            then Inl ''invalid auxiliary direct connection index''
            else accept_aux left connections room outcomes (Suc i) (seen[unat index := True]) (aux[unat index - 1 := Some accepted])))"

definition gather_as_sender :: "u64 \<Rightarrow> string \<Rightarrow> (nat \<Rightarrow> 's accept_outcome) \<Rightarrow> 's option list result" where
  "gather_as_sender connections room outcomes =
     accept_aux (unat connections - 1) connections room outcomes 1
       ((replicate (unat connections) False)[0 := True]) (replicate (unat connections - 1) None)"

text \<open>One turn of the dialling loop: the time is up, the dial fails, gives a connection, or throws.\<close>

datatype 's dial_outcome = DialLate | DialRefused | Dialed 's | DialThrown string

fun dial_aux :: "(direct_candidate \<Rightarrow> 's dial_outcome) \<Rightarrow> direct_candidate list \<Rightarrow> 's option result" where
  "dial_aux dial [] = Inr None"
| "dial_aux dial (c # cs) =
     (case dial c of
        DialLate \<Rightarrow> Inr None
      | Dialed s \<Rightarrow> Inr (Some s)
      | DialRefused \<Rightarrow> dial_aux dial cs
      | DialThrown e \<Rightarrow> Inl e)"

definition aux_message :: "string \<Rightarrow> nat \<Rightarrow> message" where
  "aux_message room k = \<lparr>mtype = ''direct_aux'', mfields = omap_put ''conn_index'' (to_dec k) (omap_put ''room'' room [])\<rparr>"

text \<open>What the receiver meets for its k-th connection: a cancellation, its dials, and an error of the send.\<close>

record 's aux_world =
  aw_cancelled :: "nat \<Rightarrow> bool"
  aw_dial :: "nat \<Rightarrow> direct_candidate \<Rightarrow> 's dial_outcome"
  aw_send_error :: "nat \<Rightarrow> string option"

text \<open>The connections of the receiver, each with what it sends first.\<close>

fun open_aux ::
  "nat list \<Rightarrow> string \<Rightarrow> 's aux_world \<Rightarrow> direct_candidate list \<Rightarrow> ('s \<times> message) list result" where
  "open_aux [] room world candidates = Inr []"
| "open_aux (k # ks) room world candidates =
     (if aw_cancelled world k then Inl ''transfer canceled''
      else andthen (dial_aux (aw_dial world k) candidates) (\<lambda>connected.
        case connected of
          None \<Rightarrow> Inl ''failed to open auxiliary direct connection''
        | Some s \<Rightarrow>
            (case aw_send_error world k of
               Some e \<Rightarrow> Inl e
             | None \<Rightarrow> andthen (open_aux ks room world candidates) (\<lambda>rest. Inr ((s, aux_message room k) # rest)))))"

definition gather_as_receiver ::
  "u64 \<Rightarrow> string \<Rightarrow> 's aux_world \<Rightarrow> direct_candidate list \<Rightarrow> ('s \<times> message) list result" where
  "gather_as_receiver connections room world candidates =
     (if candidates = [] then Inl ''peer listen candidates missing for direct mux''
      else open_aux [1..<unat connections] room world candidates)"

lemma open_aux_messages:
  "open_aux ks room world candidates = Inr opened \<Longrightarrow> map snd opened = map (aux_message room) ks \<and> length opened = length ks"
  by (induction ks arbitrary: opened) (auto simp: andthen_Inr_iff split: option.splits if_splits)

lemma accept_aux_fills:
  assumes "inj_on \<pi> {i..<i + left}" "\<pi> ` {i..<i + left} \<subseteq> {1..<unat connections}"
    "\<forall>j\<in>{i..<i + left}. outcomes j = HelloGiven (Some (aux_message room (\<pi> j))) (conn (\<pi> j))"
    "\<forall>j\<in>{i..<i + left}. \<not> seen ! \<pi> j" "length seen = unat connections" "length aux = unat connections - 1"
  shows "accept_aux left connections room outcomes i seen aux =
    Inr (map (\<lambda>k. if k \<in> \<pi> ` {i..<i + left} then Some (conn k) else aux ! (k - 1)) [1..<unat connections])"
  using assms
proof (induction left arbitrary: i seen aux)
  case 0
  have "map (\<lambda>k. aux ! (k - 1)) [1..<unat connections] = aux"
    using 0(6) by (intro nth_equalityI) simp_all
  then show ?case by simp
next
  case (Suc left)
  let ?k = "\<pi> i"
  have r: "{i..<i + Suc left} = insert i {Suc i..<Suc i + left}" by auto
  have k: "1 \<le> ?k" "?k < unat connections" using Suc.prems(2) unfolding r by auto
  have "?k < 2 ^ 64" using k(2) u64_less_bound [of connections] by simp
  then have u: "unat (of_nat ?k :: u64) = ?k" by (simp add: unat_of_nat)
  have "msg_get_u64 (aux_message room ?k) ''conn_index'' 0 = Inr (of_nat ?k)"
    by (rule msg_get_u64_dec) (simp add: aux_message_def u)
  moreover have "(of_nat ?k :: u64) \<noteq> 0" using k(1) u by (metis not_one_le_zero unat_0)
  moreover have "\<not> connections \<le> of_nat ?k" using k(2) u by (simp add: word_le_nat_alt)
  moreover have "\<not> seen ! ?k" "outcomes i = HelloGiven (Some (aux_message room ?k)) (conn ?k)" using Suc.prems(3,4) by simp_all
  ultimately have step: "accept_aux (Suc left) connections room outcomes i seen aux =
      accept_aux left connections room outcomes (Suc i) (seen[?k := True]) (aux[?k - 1 := Some (conn ?k)])"
    using u by (simp add: aux_message_def msg_get_def)
  have other: "\<pi> j \<noteq> ?k" if "j \<in> {Suc i..<Suc i + left}" for j
    using inj_onD [OF Suc.prems(1), of j i] that by auto
  have "accept_aux left connections room outcomes (Suc i) (seen[?k := True]) (aux[?k - 1 := Some (conn ?k)]) =
      Inr (map (\<lambda>k. if k \<in> \<pi> ` {Suc i..<Suc i + left} then Some (conn k) else aux[?k - 1 := Some (conn ?k)] ! (k - 1)) [1..<unat connections])"
  proof (rule Suc.IH)
    show "inj_on \<pi> {Suc i..<Suc i + left}" by (rule inj_on_subset [OF Suc.prems(1)]) auto
    show "\<pi> ` {Suc i..<Suc i + left} \<subseteq> {1..<unat connections}" using Suc.prems(2) unfolding r by blast
    show "\<forall>j\<in>{Suc i..<Suc i + left}. outcomes j = HelloGiven (Some (aux_message room (\<pi> j))) (conn (\<pi> j))"
      using Suc.prems(3) unfolding r by blast
    show "\<forall>j\<in>{Suc i..<Suc i + left}. \<not> seen[?k := True] ! \<pi> j"
    proof
      fix j assume j: "j \<in> {Suc i..<Suc i + left}"
      have "seen[?k := True] ! \<pi> j = seen ! \<pi> j" by (rule nth_list_update_neq) (use other [OF j] in simp)
      then show "\<not> seen[?k := True] ! \<pi> j" using Suc.prems(4) j unfolding r by simp
    qed
  qed (use Suc.prems(5,6) in simp_all)
  also have "\<dots> = Inr (map (\<lambda>k. if k \<in> \<pi> ` {i..<i + Suc left} then Some (conn k) else aux ! (k - 1)) [1..<unat connections])"
  proof (rule arg_cong [where f = Inr], rule map_cong [OF refl])
    fix k' assume "k' \<in> set [1..<unat connections]"
    then have k': "1 \<le> k'" by simp
    show "(if k' \<in> \<pi> ` {Suc i..<Suc i + left} then Some (conn k') else aux[?k - 1 := Some (conn ?k)] ! (k' - 1)) =
        (if k' \<in> \<pi> ` {i..<i + Suc left} then Some (conn k') else aux ! (k' - 1))"
    proof (cases "k' = ?k")
      case True
      have "?k - 1 < length aux" using k Suc.prems(6) by simp
      then show ?thesis unfolding True r by simp
    next
      case False
      then have "?k - 1 \<noteq> k' - 1" using k(1) k' by simp
      moreover have "k' \<in> \<pi> ` {i..<i + Suc left} \<longleftrightarrow> k' \<in> \<pi> ` {Suc i..<Suc i + left}" using False unfolding r by blast
      ultimately show ?thesis by simp
    qed
  qed
  finally show ?case using step by simp
qed

text \<open>
  C30: The parallel connections of both sides are paired by their number. If the receiver opens its connections, and the
  sender accepts them in any order, each with the first message that the receiver sends on it, then the sender
  puts each one in the place of its number and no place stays empty.
\<close>

theorem aux_channels_paired:
  assumes "gather_as_receiver connections room world candidates = Inr opened"
    "bij_betw \<pi> {1..<unat connections} {1..<unat connections}"
    "\<forall>i\<in>{1..<unat connections}. outcomes i = HelloGiven (Some (snd (opened ! (\<pi> i - 1)))) (fst (opened ! (\<pi> i - 1)))"
  shows "gather_as_sender connections room outcomes = Inr (map (\<lambda>k. Some (fst (opened ! (k - 1)))) [1..<unat connections])"
proof (cases "unat connections = 0")
  case True
  then show ?thesis by (simp add: gather_as_sender_def)
next
  case False
  let ?n = "unat connections"
  have o: "map snd opened = map (aux_message room) [1..<?n]" "length opened = ?n - 1"
    using assms(1) open_aux_messages [of "[1..<?n]" room world candidates opened] by (simp_all add: gather_as_receiver_def split: if_splits)
  have image: "\<pi> ` {1..<?n} = {1..<?n}" using assms(2) by (rule bij_betw_imp_surj_on)
  have m: "snd (opened ! (k - 1)) = aux_message room k" if "k \<in> {1..<?n}" for k
  proof -
    have "map snd opened ! (k - 1) = aux_message room k" unfolding o(1) using that by (subst nth_map) auto
    moreover have "map snd opened ! (k - 1) = snd (opened ! (k - 1))" by (rule nth_map) (use that o(2) in auto)
    ultimately show ?thesis by simp
  qed
  have given: "\<forall>i\<in>{1..<?n}. outcomes i = HelloGiven (Some (aux_message room (\<pi> i))) (fst (opened ! (\<pi> i - 1)))"
    using assms(3) image m by (metis imageI)
  have range: "{1..<1 + (?n - 1)} = {1..<?n}" using False by simp
  have unseen: "\<forall>j\<in>{1..<?n}. \<not> (replicate ?n False)[0 := True] ! \<pi> j"
  proof
    fix j assume "j \<in> {1..<?n}"
    then have "1 \<le> \<pi> j" "\<pi> j < ?n" using image by fastforce+
    then show "\<not> (replicate ?n False)[0 := True] ! \<pi> j" by simp
  qed
  have "gather_as_sender connections room outcomes =
      Inr (map (\<lambda>k. if k \<in> \<pi> ` {1..<1 + (?n - 1)} then Some (fst (opened ! (k - 1))) else replicate (?n - 1) None ! (k - 1)) [1..<?n])"
    unfolding gather_as_sender_def
    by (rule accept_aux_fills) (unfold range, use assms(2) image given unseen in \<open>simp_all add: bij_betw_def\<close>)
  then show ?thesis unfolding range image by simp
qed

text \<open>Three connections that the sender accepts in the opposite order.\<close>

theorem aux_channels_paired_witness:
  "gather_as_sender 3 ''r'' (\<lambda>i. HelloGiven (Some (aux_message ''r'' (3 - i))) (3 - i)) = Inr [Some 1, Some 2]"
proof -
  let ?c = "make_direct_candidate \<lparr>host = ''h'', port = 9\<rparr> ''listen'' 60"
  have two: "[1..<unat (3 :: u64)] = [1, 2]" by (simp add: upt_rec)
  have range: "{1..<unat (3 :: u64)} = {1, 2}" by auto
  let ?w = "\<lparr>aw_cancelled = \<lambda>k. False, aw_dial = \<lambda>k c. Dialed k, aw_send_error = \<lambda>k. None\<rparr>"
  have o: "gather_as_receiver 3 ''r'' ?w [?c] = Inr [(1, aux_message ''r'' 1), (2, aux_message ''r'' 2)]"
    unfolding gather_as_receiver_def two by simp
  have b: "bij_betw (\<lambda>i. 3 - i) {1..<unat (3 :: u64)} {1..<unat (3 :: u64)}"
    by (rule bij_betw_byWitness [where f' = "\<lambda>i. 3 - i"]) auto
  have g: "\<forall>i\<in>{1..<unat (3 :: u64)}. HelloGiven (Some (aux_message ''r'' (3 - i))) (3 - i) =
      HelloGiven (Some (snd ([(1, aux_message ''r'' 1), (2, aux_message ''r'' 2)] ! ((3 - i) - 1))))
        (fst ([(1, aux_message ''r'' 1), (2, aux_message ''r'' 2)] ! ((3 - i) - 1)))"
    unfolding range by (simp add: numeral_2_eq_2)
  show ?thesis using aux_channels_paired [OF o b g] unfolding two by simp
qed

text \<open>What a side reports of its gathered connections.\<close>

definition local_state :: "u64 \<Rightarrow> 'x list result \<Rightarrow> bool \<times> string" where
  "local_state connections gathered =
     (case gathered of
        Inl e \<Rightarrow> (False, e)
      | Inr aux \<Rightarrow> if length aux = unat connections - 1 then (True, []) else (False, ''auxiliary direct connection count mismatch''))"

definition mux_status :: "string \<Rightarrow> u64 \<Rightarrow> bool \<times> string \<Rightarrow> message" where
  "mux_status room connections state =
     \<lparr>mtype = ''direct_mux_status'',
      mfields = put_if (snd state \<noteq> []) ''error'' (snd state)
        (omap_put ''ready'' (if fst state then ''1'' else ''0'') (omap_put ''conn_count'' (to_dec (unat connections)) (omap_put ''room'' room [])))\<rparr>"

definition read_mux_status :: "string \<Rightarrow> u64 \<Rightarrow> message option result \<Rightarrow> bool \<times> string" where
  "read_mux_status room connections received =
     (case received of
        Inl e \<Rightarrow> (False, e)
      | Inr None \<Rightarrow> (False, ''peer mux status missing'')
      | Inr (Some m) \<Rightarrow>
          if mtype m \<noteq> ''direct_mux_status'' \<or> msg_get m ''room'' [] \<noteq> room then (False, ''peer mux status missing'')
          else case msg_get_u64 m ''conn_count'' 0 of
            Inl e \<Rightarrow> (False, e)
          | Inr n \<Rightarrow>
              if n \<noteq> connections then (False, ''peer mux status missing'')
              else (msg_get m ''ready'' [] = ''1'', msg_get m ''error'' []))"

text \<open>Whether parallel connections are used, the reason if not, and the status sent.\<close>

definition negotiate_direct_mux ::
  "u64 \<Rightarrow> string \<Rightarrow> 'x list result \<Rightarrow> message option result \<Rightarrow> bool \<times> string \<times> message option" where
  "negotiate_direct_mux connections room gathered received =
     (if connections \<le> 1 then (False, [], None)
      else
        let mine = local_state connections gathered; theirs = read_mux_status room connections received;
            status = mux_status room connections mine
        in if fst mine \<and> fst theirs then (True, [], Some status)
           else
             let reason = (if snd mine \<noteq> [] then snd mine else snd theirs)
             in (False, if reason = [] then ''peer declined direct mux'' else reason, Some status))"

lemma read_own_status:
  "read_mux_status room connections (Inr (Some (mux_status room' connections' state))) =
     (if room = room' \<and> connections = connections' then (fst state, snd state) else (False, ''peer mux status missing''))"
proof -
  have "msg_get_u64 (mux_status room' connections' state) ''conn_count'' 0 = Inr connections'"
    by (rule msg_get_u64_dec) (simp add: mux_status_def)
  then show ?thesis by (cases state) (auto simp: read_mux_status_def mux_status_def msg_get_def)
qed

text \<open>
  C31: Both sides agree on parallel connections, when each side receives the status that the other
  one sent. Then both use parallel connections or neither does; they use them exactly if the rooms and
  the numbers are equal and both have all theirs. (If one status is lost or late, its reader falls back
  to one connection while the other side may use several.)
\<close>

theorem mux_agreement:
  assumes "2 \<le> connections" "2 \<le> connections'"
    "negotiate_direct_mux connections room gathered (Inr status') = (enabled, reason, status)"
    "negotiate_direct_mux connections' room' gathered' (Inr status) = (enabled', reason', status')"
  shows "enabled = enabled' \<and>
    enabled = (room = room' \<and> connections = connections' \<and> fst (local_state connections gathered) \<and> fst (local_state connections' gathered'))"
proof -
  have n: "\<not> connections \<le> 1" "\<not> connections' \<le> 1" using assms(1,2) by (simp_all add: word_le_nat_alt)
  have "status = Some (mux_status room connections (local_state connections gathered))"
    "status' = Some (mux_status room' connections' (local_state connections' gathered'))"
    using assms(3,4) n by (auto simp: negotiate_direct_mux_def Let_def split: if_splits)
  then show ?thesis using assms(3,4) n by (auto simp: negotiate_direct_mux_def Let_def read_own_status split: if_splits)
qed

theorem mux_agreement_witness:
  "\<exists>status status'. negotiate_direct_mux 2 ''r'' (Inr [()]) (Inr status') = (True, [], status) \<and>
     negotiate_direct_mux 2 ''r'' (Inr [()]) (Inr status) = (True, [], status') \<and> (True = True)"
proof -
  let ?m = "Some (mux_status ''r'' 2 (True, []))"
  have n: "negotiate_direct_mux 2 ''r'' (Inr [()]) (Inr ?m) = (True, [], ?m)"
    by (simp add: negotiate_direct_mux_def read_own_status local_state_def word_le_nat_alt)
  have "True = True" using mux_agreement [OF _ _ n n] by simp
  then show ?thesis using n by blast
qed

section \<open>What is counted of the attempts\<close>

record punch_stats =
  ps_attempted :: bool
  ps_direct_ok :: bool
  ps_failures :: "(string, int) omap"
  ps_successful_kind :: string
  ps_successful_endpoint :: string
  ps_successful_family :: string
  ps_successful_scope :: string
  ps_successful_priority :: int
  ps_successful_elapsed_ms :: int
  ps_attempts_by_kind :: "(string, int) omap"
  ps_failures_by_kind :: "(string, int) omap"
  ps_same_port_attempts :: int
  ps_same_port_successes :: int
  ps_same_port_failures :: int
  ps_same_port_last_elapsed_ms :: int

definition new_punch_stats :: "bool \<Rightarrow> bool \<Rightarrow> punch_stats" where
  "new_punch_stats direct_ok attempted = \<lparr>ps_attempted = attempted, ps_direct_ok = direct_ok, ps_failures = [],
     ps_successful_kind = [], ps_successful_endpoint = [], ps_successful_family = [], ps_successful_scope = [],
     ps_successful_priority = 0, ps_successful_elapsed_ms = -1, ps_attempts_by_kind = [], ps_failures_by_kind = [],
     ps_same_port_attempts = 0, ps_same_port_successes = 0, ps_same_port_failures = 0, ps_same_port_last_elapsed_ms = -1\<rparr>"

definition fill_success_address :: "address_library \<Rightarrow> string \<Rightarrow> punch_stats \<Rightarrow> punch_stats" where
  "fill_success_address al candidate st =
     (let st = st\<lparr>ps_successful_endpoint := candidate\<rparr> in
      case parse_endpoint candidate 0 of
        Inl _ \<Rightarrow> st\<lparr>ps_successful_family := ''unknown'', ps_successful_scope := ''unknown''\<rparr>
      | Inr e \<Rightarrow> st\<lparr>ps_successful_family := ip_address_family_name (ip_address_family al (host e)),
                   ps_successful_scope := ip_address_scope_name (ip_address_scope al (host e))\<rparr>)"

definition successful_direct_kind :: "address_library \<Rightarrow> punch_observation \<Rightarrow> string" where
  "successful_direct_kind al ob =
     (if po_kind ob \<noteq> ''accept'' then po_kind ob
      else case parse_endpoint (po_candidate ob) 0 of
        Inl _ \<Rightarrow> po_kind ob
      | Inr e \<Rightarrow>
          let family = ip_address_family al (host e); scope = ip_address_scope al (host e)
          in if family = IPv6 \<and> scope = GlobalScope then ''ipv6_global''
             else if scope = Loopback \<or> scope = Private \<or> scope = LinkLocal \<or> scope = UniqueLocal then ''lan''
             else if scope = GlobalScope then ''public''
             else po_kind ob)"

definition count_up :: "string \<Rightarrow> (string, int) omap \<Rightarrow> (string, int) omap" where
  "count_up k m = omap_put k ((case map_of m k of None \<Rightarrow> 0 | Some n \<Rightarrow> n) + 1) m"

definition count_same_port :: "punch_observation \<Rightarrow> punch_stats \<Rightarrow> punch_stats" where
  "count_same_port ob st =
     (if po_kind ob = ''public-same-port'' then
        let st = st\<lparr>ps_same_port_attempts := ps_same_port_attempts st + 1, ps_same_port_last_elapsed_ms := sint (po_elapsed_ms ob)\<rparr>
        in if po_success ob then st\<lparr>ps_same_port_successes := ps_same_port_successes st + 1\<rparr>
           else st\<lparr>ps_same_port_failures := ps_same_port_failures st + 1\<rparr>
      else st)"

definition count_outcome :: "address_library \<Rightarrow> punch_observation \<Rightarrow> punch_stats \<Rightarrow> punch_stats" where
  "count_outcome al ob st =
     (if po_success ob then
        if ps_successful_kind st = [] \<or> ps_successful_kind st = ''accept'' then
          (fill_success_address al (po_candidate ob) (st\<lparr>ps_successful_kind := successful_direct_kind al ob\<rparr>))
            \<lparr>ps_successful_priority := po_priority ob, ps_successful_elapsed_ms := sint (po_elapsed_ms ob)\<rparr>
        else st
      else
        let st = st\<lparr>ps_failures := count_up (if po_error ob = [] then ''unknown'' else po_error ob) (ps_failures st)\<rparr>
        in if po_kind ob \<noteq> [] then st\<lparr>ps_failures_by_kind := count_up (po_kind ob) (ps_failures_by_kind st)\<rparr> else st)"

definition count_observation :: "address_library \<Rightarrow> punch_observation \<Rightarrow> punch_stats \<Rightarrow> punch_stats" where
  "count_observation al ob st =
     count_outcome al ob (count_same_port ob
       (if po_kind ob \<noteq> [] then st\<lparr>ps_attempts_by_kind := count_up (po_kind ob) (ps_attempts_by_kind st)\<rparr> else st))"

definition punch_stats_from :: "address_library \<Rightarrow> punch_observation list \<Rightarrow> bool \<Rightarrow> bool \<Rightarrow> punch_stats" where
  "punch_stats_from al observations direct_ok attempted =
     (if \<not> attempted then new_punch_stats direct_ok attempted
      else fold (count_observation al) observations (new_punch_stats direct_ok attempted))"

definition tally :: "(string, int) omap \<Rightarrow> string \<Rightarrow> int" where
  "tally m k = (case map_of m k of None \<Rightarrow> 0 | Some n \<Rightarrow> n)"

lemma tally_count_up [simp]: "tally (count_up k m) j = tally m j + (if j = k then 1 else 0)"
  by (simp add: tally_def count_up_def)

lemma count_same_port_parts [simp]:
  "ps_attempts_by_kind (count_same_port ob st) = ps_attempts_by_kind st" "ps_failures_by_kind (count_same_port ob st) = ps_failures_by_kind st"
  by (simp_all add: count_same_port_def Let_def)

lemma count_outcome_parts [simp]:
  "ps_attempts_by_kind (count_outcome al ob st) = ps_attempts_by_kind st"
  "ps_same_port_attempts (count_outcome al ob st) = ps_same_port_attempts st"
  "ps_same_port_successes (count_outcome al ob st) = ps_same_port_successes st"
  "ps_same_port_failures (count_outcome al ob st) = ps_same_port_failures st"
  "tally (ps_failures_by_kind (count_outcome al ob st)) k =
     tally (ps_failures_by_kind st) k + (if k = po_kind ob \<and> k \<noteq> [] \<and> \<not> po_success ob then 1 else 0)"
  by (auto simp: count_outcome_def Let_def fill_success_address_def split: sum.split)

lemma observations_counted:
  assumes "k \<noteq> []"
  shows "tally (ps_attempts_by_kind (fold (count_observation al) obs st)) k =
      tally (ps_attempts_by_kind st) k + int (length (filter (\<lambda>ob. po_kind ob = k) obs))"
    "tally (ps_failures_by_kind (fold (count_observation al) obs st)) k =
      tally (ps_failures_by_kind st) k + int (length (filter (\<lambda>ob. po_kind ob = k \<and> \<not> po_success ob) obs))"
  using assms by (induction obs arbitrary: st) (auto simp: count_observation_def)

lemma same_port_counted:
  "ps_same_port_attempts st = ps_same_port_successes st + ps_same_port_failures st \<Longrightarrow>
   ps_same_port_attempts (fold (count_observation al) obs st) =
     ps_same_port_successes (fold (count_observation al) obs st) + ps_same_port_failures (fold (count_observation al) obs st)"
  by (induction obs arbitrary: st) (auto simp: count_observation_def count_same_port_def Let_def)

lemma punch_stats_counts:
  assumes "k \<noteq> []"
  shows "tally (ps_attempts_by_kind (punch_stats_from al obs ok True)) k = int (length (filter (\<lambda>ob. po_kind ob = k) obs))"
    "tally (ps_failures_by_kind (punch_stats_from al obs ok True)) k = int (length (filter (\<lambda>ob. po_kind ob = k \<and> \<not> po_success ob) obs))"
    "ps_same_port_attempts (punch_stats_from al obs ok True) =
       ps_same_port_successes (punch_stats_from al obs ok True) + ps_same_port_failures (punch_stats_from al obs ok True)"
  using observations_counted [OF assms] same_port_counted
  by (simp_all add: punch_stats_from_def new_punch_stats_def tally_def)

end
