(* ===== verification/Proxy.thy ===== *)
theory Proxy
  imports Addresses Protocol
begin

text \<open>
  Connections through a proxy (core/proxy.cpp): the URL of a proxy, and the exchanges of HTTP CONNECT and SOCKS5 before
  the tunnel is open. The bytes that the proxy sends before the deadline are a list; a read takes the bytes it asks
  for from its front and fails if there are fewer. A send that fails is not modelled: its exception closes the tunnel.
\<close>

section \<open>URLs\<close>

datatype proxy_type = HttpProxy | Socks5Proxy

record proxy_config =
  px_type :: proxy_type
  px_endpoint :: endpoint

text \<open>The text before and behind the first separator.\<close>

fun split_at_text :: "string \<Rightarrow> string \<Rightarrow> (string \<times> string) option" where
  "split_at_text sep [] = (if sep = [] then Some ([], []) else None)"
| "split_at_text sep (c # cs) =
     (if take (length sep) (c # cs) = sep then Some ([], drop (length sep) (c # cs))
      else map_option (\<lambda>(a, b). (c # a, b)) (split_at_text sep cs))"

definition parse_proxy_url :: "string \<Rightarrow> proxy_config option result" where
  "parse_proxy_url url =
     (if url = [] then Inr None
      else case split_at_text ''://'' url of
        None \<Rightarrow> Inr None
      | Some (before, rest) \<Rightarrow>
          let scheme = lowercase_ascii before in
          if scheme = ''http'' \<or> scheme = ''https'' then
            andthen (parse_endpoint rest (if scheme = ''https'' then 443 else 8080)) (\<lambda>e. Inr (Some \<lparr>px_type = HttpProxy, px_endpoint = e\<rparr>))
          else if scheme = ''socks5'' \<or> scheme = ''socks'' then
            andthen (parse_endpoint rest 8080) (\<lambda>e. Inr (Some \<lparr>px_type = Socks5Proxy, px_endpoint = e\<rparr>))
          else Inr None)"

section \<open>HTTP CONNECT\<close>

definition cr :: u8 where "cr = 13"
definition lf :: u8 where "lf = 10"

definition strip_line_end :: "bytes \<Rightarrow> bytes" where
  "strip_line_end line = rev (dropWhile (\<lambda>b. b = lf \<or> b = cr) (rev line))"

text \<open>A line is read byte by byte, so nothing behind it is taken from the connection.\<close>

fun recv_line :: "bytes \<Rightarrow> bytes \<Rightarrow> bytes option \<times> bytes" where
  "recv_line line [] = (None, [])"
| "recv_line line (b # stream) =
     (if line \<noteq> [] \<and> last line = cr \<and> b = lf then (Some (strip_line_end line), stream) else recv_line (line @ [b]) stream)"

definition next_bytes_word :: "string \<Rightarrow> string \<times> string" where
  "next_bytes_word s = (let t = dropWhile isspace s in (takeWhile (Not \<circ> isspace) t, dropWhile (Not \<circ> isspace) t))"

text \<open>Reading an \<open>int\<close> from a stream: white space, a sign, digits; it fails without digits and if the value does not fit.\<close>

definition read_int :: "string \<Rightarrow> int option" where
  "read_int s =
     (let t = dropWhile isspace s;
          negative = (t \<noteq> [] \<and> hd t = CHR ''-'');
          t = (if t \<noteq> [] \<and> (hd t = CHR ''-'' \<or> hd t = CHR ''+'') then tl t else t);
          digits = takeWhile isdigit t;
          v = (if negative then - int (dec_val 0 digits) else int (dec_val 0 digits))
      in if digits = [] \<or> v < - (2 ^ 31) \<or> 2 ^ 31 \<le> v then None else Some v)"

definition http_connect_ok :: "string \<Rightarrow> bool" where
  "http_connect_ok status_line =
     (case next_bytes_word status_line of (version, rest) \<Rightarrow> version \<noteq> [] \<and> read_int rest = Some 200)"

lemma recv_line_shorter: "recv_line line stream = (Some l, rest) \<Longrightarrow> length rest < length stream"
proof (induction stream arbitrary: line)
  case (Cons b stream)
  then show ?case by (auto split: if_splits intro: less_trans)
qed simp

text \<open>The headers up to an empty line, or up to where the proxy stops.\<close>

function skip_headers :: "bytes \<Rightarrow> bytes" where
  "skip_headers stream =
     (case recv_line [] stream of
        (None, rest) \<Rightarrow> rest
      | (Some l, rest) \<Rightarrow> if l = [] then rest else skip_headers rest)"
  by pat_completeness auto
termination
  by (relation "measure length") (auto dest: recv_line_shorter [OF sym])

declare skip_headers.simps [simp del]

definition connect_request :: "endpoint \<Rightarrow> string" where
  "connect_request target =
     (let hostport = host target @ CHR '':'' # to_dec (unat (port target)); crlf = [CHR 0x0D, CHR 0x0A]
      in ''CONNECT '' @ hostport @ '' HTTP/1.1'' @ crlf @ ''Host: '' @ hostport @ crlf @ ''Proxy-Connection: keep-alive'' @ crlf @ crlf)"

text \<open>What is sent, and what is left of the connection or the error.\<close>

definition http_connect :: "endpoint \<Rightarrow> bytes \<Rightarrow> bytes \<times> bytes result" where
  "http_connect target stream =
     (bytes_of (connect_request target),
      case recv_line [] stream of
        (None, _) \<Rightarrow> Inl ''proxy: no response''
      | (Some l, rest) \<Rightarrow>
          if \<not> http_connect_ok (string_of l) then Inl (''proxy CONNECT failed: '' @ string_of l)
          else Inr (skip_headers rest))"

section \<open>SOCKS5\<close>

definition recv_bytes :: "nat \<Rightarrow> string \<Rightarrow> bytes \<Rightarrow> (bytes \<times> bytes) result" where
  "recv_bytes n err stream = (if length stream < n then Inl err else Inr (take n stream, drop n stream))"

definition u32_bytes :: "u32 \<Rightarrow> bytes" where
  "u32_bytes v = [ucast (drop_bit 24 v), ucast (drop_bit 16 v), ucast (drop_bit 8 v), ucast v]"

definition socks5_address :: "address_library \<Rightarrow> string \<Rightarrow> bytes result" where
  "socks5_address al h =
     (case al_make_address al h of
        Some (V4 v) \<Rightarrow> Inr (0x01 # u32_bytes v)
      | Some (V6 bs) \<Rightarrow> Inr (0x04 # bs)
      | None \<Rightarrow> if 255 < length h then Inl ''proxy: hostname too long'' else Inr (0x03 # of_nat (length h) # bytes_of h))"

definition socks5_request :: "address_library \<Rightarrow> endpoint \<Rightarrow> bytes result" where
  "socks5_request al target =
     andthen (socks5_address al (host target)) (\<lambda>a.
       Inr ([0x05, 0x01, 0x00] @ a @ [ucast (drop_bit 8 (port target)), ucast (port target)]))"

text \<open>The address in the answer of the proxy, which is skipped.\<close>

definition socks5_skip :: "bytes \<Rightarrow> bytes \<Rightarrow> bytes result" where
  "socks5_skip head stream =
     andthen
       (if head ! 3 = 0x01 then Inr (4, stream)
        else if head ! 3 = 0x04 then Inr (16, stream)
        else if head ! 3 = 0x03 then andthen (recv_bytes 1 ''proxy: SOCKS domain length failed'' stream) (\<lambda>(l, rest). Inr (unat (l ! 0), rest))
        else Inl ''proxy: SOCKS bad address type'') (\<lambda>(n, rest).
     andthen (recv_bytes (n + 2) ''proxy: SOCKS bind read failed'' rest) (\<lambda>(_, rest). Inr rest))"

definition socks5_greeting :: bytes where "socks5_greeting = [0x05, 0x01, 0x00]"

definition socks5_connect :: "address_library \<Rightarrow> endpoint \<Rightarrow> bytes \<Rightarrow> bytes \<times> bytes result" where
  "socks5_connect al target stream =
     (case recv_bytes 2 ''proxy: SOCKS greeting failed'' stream of
        Inl e \<Rightarrow> (socks5_greeting, Inl e)
      | Inr (verb, rest) \<Rightarrow>
          if verb ! 0 \<noteq> 0x05 \<or> verb ! 1 \<noteq> 0x00 then (socks5_greeting, Inl ''proxy: unsupported SOCKS auth'')
          else case socks5_request al target of
            Inl e \<Rightarrow> (socks5_greeting, Inl e)
          | Inr req \<Rightarrow>
              (socks5_greeting @ req,
               andthen (recv_bytes 4 ''proxy: SOCKS connect failed'' rest) (\<lambda>(head, rest).
                 if head ! 1 \<noteq> 0x00 then Inl ''proxy: SOCKS connect rejected'' else socks5_skip head rest)))"

definition proxy_connect :: "address_library \<Rightarrow> proxy_config \<Rightarrow> endpoint \<Rightarrow> bytes \<Rightarrow> bytes \<times> bytes result" where
  "proxy_connect al proxy target stream =
     (if px_type proxy = HttpProxy then http_connect target stream else socks5_connect al target stream)"

section \<open>The tunnel loses no byte\<close>

text \<open>What a proxy answers when it has connected.\<close>

definition plain_line :: "bytes \<Rightarrow> bool" where
  "plain_line l \<longleftrightarrow> l \<noteq> [] \<and> cr \<notin> set l \<and> lf \<notin> set l"

definition http_answer :: "bytes list \<Rightarrow> bytes" where
  "http_answer ls = concat (map (\<lambda>l. l @ [cr, lf]) ls) @ [cr, lf]"

definition socks_address_ok :: "bytes \<Rightarrow> bool" where
  "socks_address_ok a \<longleftrightarrow>
     a \<noteq> [] \<and> (hd a = 0x01 \<and> length a = 5 \<or> hd a = 0x04 \<and> length a = 17 \<or>
       hd a = 0x03 \<and> 1 < length a \<and> length a = 2 + unat (a ! 1))"

definition socks_answer :: "u8 \<Rightarrow> bytes \<Rightarrow> bytes \<Rightarrow> bytes" where
  "socks_answer version a p = [0x05, 0x00] @ [version, 0x00, 0x00] @ a @ p"

lemma recv_line_plain:
  assumes "cr \<notin> set l" "line = [] \<or> last line \<noteq> cr"
  shows "recv_line line (l @ cr # lf # rest) = (Some (strip_line_end (line @ l @ [cr])), rest)"
  using assms
proof (induction l arbitrary: line)
  case Nil
  then show ?case by (simp add: cr_def lf_def)
next
  case (Cons b l)
  have "recv_line line ((b # l) @ cr # lf # rest) = recv_line (line @ [b]) (l @ cr # lf # rest)" using Cons.prems by auto
  also have "\<dots> = (Some (strip_line_end ((line @ [b]) @ l @ [cr])), rest)" using Cons by (intro Cons.IH) auto
  finally show ?case by simp
qed

lemma strip_plain: "cr \<notin> set l \<Longrightarrow> lf \<notin> set l \<Longrightarrow> strip_line_end (l @ [cr]) = l"
  by (cases "rev l") (auto simp: strip_line_end_def dest: arg_cong [where f = rev] arg_cong [where f = set])

lemma skip_headers_plain:
  assumes "\<forall>l\<in>set ls. plain_line l"
  shows "skip_headers (concat (map (\<lambda>l. l @ [cr, lf]) ls) @ [cr, lf] @ rest) = rest"
  using assms
proof (induction ls)
  case Nil
  have "recv_line [] (cr # lf # rest) = (Some [], rest)" using recv_line_plain [of "[]" "[]" rest] strip_plain [of "[]"] by simp
  then show ?case by (subst skip_headers.simps) simp
next
  case (Cons l ls)
  then have l: "cr \<notin> set l" "lf \<notin> set l" "l \<noteq> []" by (simp_all add: plain_line_def)
  show ?case
    using Cons recv_line_plain [OF l(1), of "[]"] strip_plain [OF l(1,2)] l(3) by (subst skip_headers.simps) simp
qed

lemma socks_skip_exact:
  assumes "socks_address_ok a" "length p = 2"
  shows "andthen (recv_bytes 4 e ([version, 0x00, 0x00] @ a @ p @ tunnel)) (\<lambda>(head, rest). socks5_skip head rest) = Inr tunnel"
proof -
  obtain t a' where a: "a = t # a'" using assms(1) by (cases a) (auto simp: socks_address_ok_def)
  have kinds: "t = 0x01 \<and> length a' = 4 \<or> t = 0x04 \<and> length a' = 16 \<or> t = 0x03 \<and> a' \<noteq> [] \<and> length a' = 1 + unat (hd a')"
    using assms(1) by (cases a') (auto simp: socks_address_ok_def a)
  have "socks5_skip [version, 0x00, 0x00, t] (a' @ p @ tunnel) = Inr tunnel"
    using kinds
  proof (elim disjE conjE)
    assume "t = 0x03" "a' \<noteq> []" "length a' = 1 + unat (hd a')"
    then show ?thesis using assms(2) by (cases a') (auto simp: socks5_skip_def recv_bytes_def)
  qed (use assms(2) in \<open>auto simp: socks5_skip_def recv_bytes_def\<close>)
  then show ?thesis by (simp add: a recv_bytes_def)
qed

text \<open>
  Once a proxy has accepted the connection, exactly its answer has been taken from the connection: everything behind
  it belongs to the tunnel and is left there, with HTTP whatever headers the proxy sends, with SOCKS5 for each kind of
  address it names.
\<close>

theorem tunnel_keeps_every_byte:
  assumes "\<forall>l\<in>set (status # headers). plain_line l" "http_connect_ok (string_of status)"
    "socks_address_ok a" "length p = 2" "socks5_request al target = Inr req"
  shows "proxy_connect al \<lparr>px_type = HttpProxy, px_endpoint = e\<rparr> target (http_answer (status # headers) @ tunnel) =
      (bytes_of (connect_request target), Inr tunnel) \<and>
    proxy_connect al \<lparr>px_type = Socks5Proxy, px_endpoint = e\<rparr> target (socks_answer version a p @ tunnel) =
      (socks5_greeting @ req, Inr tunnel)"
proof
  have l: "cr \<notin> set status" "lf \<notin> set status" using assms(1) by (simp_all add: plain_line_def)
  show "proxy_connect al \<lparr>px_type = HttpProxy, px_endpoint = e\<rparr> target (http_answer (status # headers) @ tunnel) =
      (bytes_of (connect_request target), Inr tunnel)"
    using assms(1,2) recv_line_plain [OF l(1), of "[]"] strip_plain [OF l]
    by (simp add: proxy_connect_def http_connect_def http_answer_def skip_headers_plain [unfolded append.simps])
  have "socks5_connect al target (socks_answer version a p @ tunnel) =
      (socks5_greeting @ req, andthen (recv_bytes 4 ''proxy: SOCKS connect failed'' ([version, 0x00, 0x00] @ a @ p @ tunnel)) (\<lambda>(head, rest). socks5_skip head rest))"
    using assms(5) by (simp add: socks5_connect_def socks_answer_def recv_bytes_def)
  then show "proxy_connect al \<lparr>px_type = Socks5Proxy, px_endpoint = e\<rparr> target (socks_answer version a p @ tunnel) =
      (socks5_greeting @ req, Inr tunnel)"
    unfolding socks_skip_exact [OF assms(3,4)] by (simp add: proxy_connect_def)
qed

definition numeric_library :: address_library where
  "numeric_library = \<lparr>al_make_address = (\<lambda>h. if h = ''1.2.3.4'' then Some (V4 0x01020304) else None),
     al_is_unspecified = (\<lambda>_. False), al_is_loopback = (\<lambda>_. False), al_is_multicast = (\<lambda>_. False)\<rparr>"

theorem tunnel_keeps_every_byte_witness:
  "proxy_connect numeric_library \<lparr>px_type = Socks5Proxy, px_endpoint = \<lparr>host = ''p'', port = 1\<rparr>\<rparr> \<lparr>host = ''1.2.3.4'', port = 443\<rparr>
     (socks_answer 5 [0x03, 2, 120, 121] [0, 80] @ [7, 8]) =
   (socks5_greeting @ [5, 1, 0, 1, 1, 2, 3, 4, 1, 187], Inr [7, 8])"
proof -
  have s: "bytes_of ''HTTP/1.1 200 OK'' = [72, 84, 84, 80, 47, 49, 46, 49, 32, 50, 48, 48, 32, 79, 75]" by (simp add: bytes_of_def)
  have "\<forall>l\<in>set (bytes_of ''HTTP/1.1 200 OK'' # []). plain_line l" by (simp add: s plain_line_def cr_def lf_def)
  moreover have "http_connect_ok (string_of (bytes_of ''HTTP/1.1 200 OK''))"
    by (simp add: http_connect_ok_def next_bytes_word_def read_int_def isspace_def isdigit_def digit_val_def Let_def)
  moreover have "socks_address_ok [0x03, 2, 120, 121]" by (simp add: socks_address_ok_def)
  moreover have "length [0, 80 :: u8] = 2" by simp
  moreover have "socks5_request numeric_library \<lparr>host = ''1.2.3.4'', port = 443\<rparr> = Inr [5, 1, 0, 1, 1, 2, 3, 4, 1, 187]"
    by (simp add: socks5_request_def socks5_address_def numeric_library_def u32_bytes_def)
  ultimately show ?thesis using tunnel_keeps_every_byte by metis
qed

text \<open>For an IPv6 target the request of HTTP CONNECT lacks the brackets around the address.\<close>

lemma connect_request_ipv6:
  "\<exists>rest. connect_request \<lparr>host = ''2001:db8::1'', port = 80\<rparr> = ''CONNECT 2001:db8::1:'' @ rest"
  "\<exists>rest. endpoint_to_string \<lparr>host = ''2001:db8::1'', port = 80\<rparr> = ''[2001:db8::1]:'' @ rest"
  by (simp_all add: connect_request_def endpoint_to_string_def Let_def)

end
