(* ===== verification/Relay_Race.thy ===== *)
theory Relay_Race
  imports Proxy Relay_Protocol
begin

text \<open>
  The race between relays (relay/relay_race.cpp, connect/rendezvous_session.cpp): which relays are tried and in which
  order, the registration with one of them, and the wait for the first that reports the peer. Connecting, polling and
  the clock are arguments: an oracle says for each look at a relay what it gives.
\<close>

section \<open>The relays of a race\<close>

record race_entry =
  re_endpoint :: endpoint
  re_use_proxy :: bool
  re_priority :: nat
  re_start_delay :: int

record connect_options =
  co_proxy :: "proxy_config option"
  co_bind_interface :: string
  co_local_bind :: "endpoint option"

definition no_options :: connect_options where
  "no_options = \<lparr>co_proxy = None, co_bind_interface = [], co_local_bind = None\<rparr>"

definition push_unique_endpoint :: "endpoint \<Rightarrow> endpoint list \<Rightarrow> endpoint list" where
  "push_unique_endpoint e out = (if port e = 0 then out else if e \<in> set out then out else out @ [e])"

definition relay_with_manual_ip :: "endpoint \<Rightarrow> string option \<Rightarrow> endpoint result" where
  "relay_with_manual_ip relay manual_ip =
     (case manual_ip of None \<Rightarrow> Inr relay | Some ip \<Rightarrow> if ip = [] then Inr relay else parse_endpoint ip (port relay))"

text \<open>\<open>addresses\<close> is what the inventory of interfaces gives.\<close>

definition local_candidates_for_listener :: "endpoint \<Rightarrow> string list \<Rightarrow> string list" where
  "local_candidates_for_listener local_listen addresses = (if is_unspecified local_listen then addresses else [host local_listen])"

definition relay_race_entries_for_send :: "bool \<Rightarrow> endpoint \<Rightarrow> bool \<Rightarrow> endpoint \<Rightarrow> race_entry list" where
  "relay_race_entries_for_send use_embedded embedded only_local external =
     (if use_embedded
      then [\<lparr>re_endpoint = \<lparr>host = ''127.0.0.1'', port = port embedded\<rparr>, re_use_proxy = False, re_priority = 0, re_start_delay = 0\<rparr>] else []) @
     (if \<not> only_local
      then [\<lparr>re_endpoint = external, re_use_proxy = True, re_priority = (if use_embedded then 1 else 0), re_start_delay = 0\<rparr>] else [])"

definition relay_race_entries_for_recv :: "endpoint list \<Rightarrow> endpoint \<Rightarrow> race_entry list" where
  "relay_race_entries_for_recv targets external_relay =
     (let has_local = list_ex (\<lambda>t. t \<noteq> external_relay) targets
      in map (\<lambda>t. let external = (t = external_relay)
                  in \<lparr>re_endpoint = t, re_use_proxy = external, re_priority = (if external then 1 else 0),
                      re_start_delay = (if external \<and> has_local then 650 else 0)\<rparr>) targets)"

definition relay_kind_for_entry :: "address_library \<Rightarrow> endpoint \<Rightarrow> race_entry \<Rightarrow> string" where
  "relay_kind_for_entry al external_relay entry =
     (if re_endpoint entry = external_relay then ''external''
      else if is_loopback_host al (host (re_endpoint entry)) then ''embedded''
      else ''lan'')"

definition connect_options_for_entry :: "address_library \<Rightarrow> race_entry \<Rightarrow> connect_options \<Rightarrow> connect_options" where
  "connect_options_for_entry al entry base =
     \<lparr>co_proxy = (if re_use_proxy entry then co_proxy base else None),
      co_bind_interface = (if is_loopback_host al (host (re_endpoint entry)) then [] else co_bind_interface base),
      co_local_bind = None\<rparr>"

text \<open>The place of a kind in an order; unknown kinds come last.\<close>

fun order_rank :: "string list \<Rightarrow> string \<Rightarrow> nat" where
  "order_rank [] kind = 0"
| "order_rank (k # ks) kind = (if k = kind then 0 else Suc (order_rank ks kind))"

definition apply_relay_kind_order :: "address_library \<Rightarrow> string list \<Rightarrow> endpoint \<Rightarrow> race_entry list \<Rightarrow> race_entry list" where
  "apply_relay_kind_order al kind_order external_relay entries =
     (if kind_order = [] \<or> length entries < 2 then entries
      else map (\<lambda>(i, e). e\<lparr>re_priority := i\<rparr>)
        (enumerate 0 (sort_key (\<lambda>e. order_rank kind_order (relay_kind_for_entry al external_relay e)) entries)))"

section \<open>Probes\<close>

record probe_entry =
  pe_kind :: string
  pe_endpoint :: string
  pe_rtt_ms :: int
  pe_pong_ok :: bool
  pe_version :: string

text \<open>A probe: \<open>None\<close> without an answer in time, or what came back after so many milliseconds.\<close>

definition probe_relay :: "(message \<times> int) option \<Rightarrow> int \<times> string" where
  "probe_relay answer =
     (case answer of
        None \<Rightarrow> (-1, [])
      | Some (m, ms) \<Rightarrow> if mtype m \<noteq> ''pong'' then (-1, []) else (ms, msg_get m ''version'' []))"

text \<open>The order of the sort: failed probes are equal to each other and come last.\<close>

definition probe_key :: "int \<Rightarrow> int \<times> int" where
  "probe_key rtt = (if rtt < 0 then (1, 0) else (0, rtt))"

definition sort_probed :: "(race_entry \<times> int \<times> string) list \<Rightarrow> (race_entry \<times> int \<times> string) list" where
  "sort_probed scored =
     sort_key (\<lambda>x. fst (probe_key (fst (snd x)))) (sort_key (\<lambda>x. snd (probe_key (fst (snd x)))) scored)"

definition probe_and_sort_relay_race_entries ::
  "address_library \<Rightarrow> endpoint \<Rightarrow> race_entry list \<Rightarrow> (message \<times> int) option list \<Rightarrow> race_entry list \<times> probe_entry list" where
  "probe_and_sort_relay_race_entries al external_relay entries answers =
     (let scored = sort_probed (map2 (\<lambda>e answer. (e, probe_relay answer)) entries answers)
      in (map fst scored,
          map (\<lambda>(e, rtt, version). \<lparr>pe_kind = relay_kind_for_entry al external_relay e, pe_endpoint = endpoint_to_string (re_endpoint e),
            pe_rtt_ms = rtt, pe_pong_ok = (0 \<le> rtt), pe_version = version\<rparr>) scored))"

section \<open>Registration\<close>

text \<open>The probe for the address the relay sees: \<open>observed\<close> is what the exchange gives, \<open>Inl\<close> for an exception.\<close>

definition punch_probe_message :: "string \<Rightarrow> role \<Rightarrow> string option \<Rightarrow> message" where
  "punch_probe_message room role relay_pass =
     \<lparr>mtype = ''punch_probe'',
      mfields = (case relay_pass of Some p \<Rightarrow> put_if (p \<noteq> []) ''relay_pass'' p | None \<Rightarrow> (\<lambda>fs. fs))
        (omap_put ''role'' (role_name role) (omap_put ''room'' room []))\<rparr>"

definition read_punch_observed :: "message option result \<Rightarrow> endpoint option" where
  "read_punch_observed observed =
     (case observed of
        Inr (Some m) \<Rightarrow>
          if mtype m \<noteq> ''punch_observed'' then None
          else (case msg_get_u64 m ''public_port'' 0 of
            Inl _ \<Rightarrow> None
          | Inr p \<Rightarrow>
              if msg_get m ''public_host'' [] = [] \<or> p = 0 \<or> 65535 < p then None
              else Some \<lparr>host = msg_get m ''public_host'' [], port = ucast p\<rparr>)
      | _ \<Rightarrow> None)"

definition probe_punch_mapping ::
  "relay_hello \<Rightarrow> connect_options \<Rightarrow> string option \<Rightarrow> int \<Rightarrow> bool \<Rightarrow> (connect_options \<Rightarrow> message \<Rightarrow> message option result option) \<Rightarrow> endpoint option" where
  "probe_punch_mapping hello options relay_pass timeout cancelled exchange =
     (if co_proxy options \<noteq> None \<or> timeout \<le> 0 then None
      else if cancelled then None
      else if port (h_listen hello) = 0 then None
      else case exchange (options\<lparr>co_local_bind := Some \<lparr>host = [], port = port (h_listen hello)\<rparr>\<rparr>)
             (punch_probe_message (h_room hello) (h_role hello) relay_pass) of
        None \<Rightarrow> None
      | Some observed \<Rightarrow> read_punch_observed observed)"

text \<open>Waiting for the pong: whether it came before an error; a read that gives nothing is repeated.\<close>

fun await_pong :: "message option result list \<Rightarrow> bool" where
  "await_pong [] = False"
| "await_pong (Inl _ # rs) = False"
| "await_pong (Inr None # rs) = await_pong rs"
| "await_pong (Inr (Some m) # rs) =
     (if mtype m = ''pong'' then True else if mtype m = ''error'' then False else await_pong rs)"

definition registration_hello :: "relay_hello \<Rightarrow> string option \<Rightarrow> endpoint option \<Rightarrow> relay_hello" where
  "registration_hello hello relay_pass punch =
     (let r = (case relay_pass of Some p \<Rightarrow> if p \<noteq> [] then hello\<lparr>h_relay_pass := Some p\<rparr> else hello | None \<Rightarrow> hello)
      in case punch of Some e \<Rightarrow> r\<lparr>h_punch_public := e\<rparr> | None \<Rightarrow> r)"

text \<open>
  What the world does to one registration: the looks at the cancellation flag, the exchange of the probe, whether
  the connection is made, which sends fail, what the reads give until the time is up or the transfer cancelled, and
  whether it is then too late.
\<close>

record registration_world =
  tw_cancelled :: bool
  tw_probe_cancelled :: bool
  tw_exchange :: "connect_options \<Rightarrow> message \<Rightarrow> message option result option"
  tw_connected :: bool
  tw_ping_fails :: bool
  tw_reads :: "message option result list"
  tw_too_late :: bool
  tw_hello_fails :: bool

definition ping_message :: message where "ping_message = \<lparr>mtype = ''ping'', mfields = []\<rparr>"

text \<open>Whether the relay took the registration, and what was sent to it.\<close>

definition try_connect_relay_and_register ::
  "registration_world \<Rightarrow> relay_hello \<Rightarrow> connect_options \<Rightarrow> string option \<Rightarrow> int \<Rightarrow> bool \<times> message list" where
  "try_connect_relay_and_register w hello options relay_pass timeout =
     (if tw_cancelled w then (False, [])
      else
        let timeout = (if timeout \<le> 0 then 1 else timeout);
            punch = probe_punch_mapping hello options relay_pass (min timeout 600) (tw_probe_cancelled w) (tw_exchange w)
        in if \<not> tw_connected w \<or> tw_ping_fails w then (False, [])
           else if \<not> await_pong (tw_reads w) \<or> tw_too_late w then (False, [ping_message])
           else case encode_relay_hello (registration_hello hello relay_pass punch) of
             Inl _ \<Rightarrow> (False, [ping_message])
           | Inr m \<Rightarrow> if tw_hello_fails w then (False, [ping_message]) else (True, [ping_message, m]))"

section \<open>Waiting for the peer\<close>

record race_candidate =
  ac_endpoint :: endpoint
  ac_priority :: nat
  ac_order :: nat
  ac_peer :: "message option"
  ac_valid :: bool

definition relay_candidate_better :: "race_candidate \<Rightarrow> race_candidate \<Rightarrow> bool" where
  "relay_candidate_better candidate best =
     (if ac_priority candidate \<noteq> ac_priority best then ac_priority candidate < ac_priority best
      else ac_order candidate < ac_order best)"

text \<open>A look at one relay: nothing to read, a failed read or an end of the connection, or a message; and the time after it.\<close>

datatype look = Silent | Fails | Gives message int

record wait_state =
  wt_relays :: "race_candidate list"
  wt_best :: "nat option"
  wt_settle :: "int option"

definition kPeerSelectionSettleWindow :: int where "kPeerSelectionSettleWindow = 120"

definition close_relay :: "nat \<Rightarrow> wait_state \<Rightarrow> wait_state" where
  "close_relay i w = w\<lparr>wt_relays := (wt_relays w)[i := (wt_relays w ! i)\<lparr>ac_valid := False\<rparr>]\<rparr>"

text \<open>\<open>None\<close>: the code reads behind the end of its vector, which is undefined behaviour.\<close>

definition look_at :: "(nat \<Rightarrow> look) \<Rightarrow> nat \<Rightarrow> wait_state \<Rightarrow> wait_state option" where
  "look_at looks i w =
     (if ac_peer (wt_relays w ! i) \<noteq> None \<or> \<not> ac_valid (wt_relays w ! i) then Some w
      else case looks i of
        Silent \<Rightarrow> Some w
      | Fails \<Rightarrow> Some (close_relay i w)
      | Gives m now \<Rightarrow>
          if mtype m = ''error'' then Some (close_relay i w)
          else if mtype m \<noteq> ''peer'' then Some w
          else
            let w = w\<lparr>wt_relays := (wt_relays w)[i := (wt_relays w ! i)\<lparr>ac_peer := Some m\<rparr>]\<rparr>
            in case wt_best w of
                 None \<Rightarrow> Some (w\<lparr>wt_best := Some i, wt_settle := Some (now + kPeerSelectionSettleWindow)\<rparr>)
               | Some b \<Rightarrow>
                   if length (wt_relays w) \<le> b then None
                   else if relay_candidate_better (wt_relays w ! i) (wt_relays w ! b)
                   then Some (w\<lparr>wt_best := Some i, wt_settle := Some (now + kPeerSelectionSettleWindow)\<rparr>)
                   else if wt_settle w = None then Some (w\<lparr>wt_settle := Some (now + kPeerSelectionSettleWindow)\<rparr>)
                   else Some w)"

fun look_at_all :: "(nat \<Rightarrow> look) \<Rightarrow> nat list \<Rightarrow> wait_state \<Rightarrow> wait_state option" where
  "look_at_all looks [] w = Some w"
| "look_at_all looks (i # is) w = (case look_at looks i w of None \<Rightarrow> None | Some w \<Rightarrow> look_at_all looks is w)"

text \<open>The chosen relay with the others, whose connections are closed; or no peer, with the relays that are left.\<close>

datatype wait_result = UndefinedBehaviour | NoPeer "race_candidate list" | Chosen race_candidate "race_candidate list"

definition choose_best :: "wait_state \<Rightarrow> wait_result" where
  "choose_best w =
     (case wt_best w of
        None \<Rightarrow> NoPeer (wt_relays w)
      | Some b \<Rightarrow>
          if length (wt_relays w) \<le> b then UndefinedBehaviour
          else if ac_peer (wt_relays w ! b) = None then NoPeer (wt_relays w)
          else Chosen (wt_relays w ! b) (take b (wt_relays w) @ drop (Suc b) (wt_relays w)))"

definition drop_dead :: "wait_state \<Rightarrow> wait_state" where
  "drop_dead w = w\<lparr>wt_relays := filter (\<lambda>c. \<not> (ac_peer c = None \<and> \<not> ac_valid c)) (wt_relays w)\<rparr>"

text \<open>One entry for each round of the loop: what the looks give, and the time behind them. At its end the time is up or the transfer cancelled.\<close>

fun wait_rounds :: "((nat \<Rightarrow> look) \<times> int) list \<Rightarrow> wait_state \<Rightarrow> wait_result" where
  "wait_rounds [] w = choose_best w"
| "wait_rounds ((looks, now) # rounds) w =
     (case look_at_all looks [0..<length (wt_relays w)] w of
        None \<Rightarrow> UndefinedBehaviour
      | Some w \<Rightarrow>
          if wt_best w \<noteq> None \<and> (case wt_settle w of None \<Rightarrow> False | Some d \<Rightarrow> d \<le> now) then choose_best w
          else
            let w = drop_dead w in
            if wt_relays w = [] then NoPeer [] else wait_rounds rounds w)"

definition wait_for_peer_candidates :: "race_candidate list \<Rightarrow> ((nat \<Rightarrow> look) \<times> int) list \<Rightarrow> wait_result" where
  "wait_for_peer_candidates relays rounds = wait_rounds rounds \<lparr>wt_relays = relays, wt_best = None, wt_settle = None\<rparr>"

section \<open>The race\<close>

text \<open>
  One turn of the loop of \<open>race_until_peer\<close>: which attempts are found to be ready, whether the time is up when the
  relays are to be asked, and what the wait meets. The attempts come out as \<open>registered\<close> says.
\<close>

record race_turn =
  rt_ready :: "nat set"
  rt_late :: bool
  rt_rounds :: "((nat \<Rightarrow> look) \<times> int) list"

definition new_candidate :: "race_entry list \<Rightarrow> nat \<Rightarrow> race_candidate" where
  "new_candidate entries i =
     \<lparr>ac_endpoint = re_endpoint (entries ! i), ac_priority = re_priority (entries ! i), ac_order = i, ac_peer = None, ac_valid = True\<rparr>"

definition take_ready :: "race_entry list \<Rightarrow> (nat \<Rightarrow> bool) \<Rightarrow> nat set \<Rightarrow> bool list \<Rightarrow> race_candidate list \<Rightarrow> bool list \<times> race_candidate list" where
  "take_ready entries registered ready finished relays =
     (let new = filter (\<lambda>i. \<not> finished ! i \<and> i \<in> ready) [0..<length entries]
      in (map (\<lambda>i. finished ! i \<or> i \<in> ready) [0..<length entries], relays @ map (new_candidate entries) (filter registered new)))"

text \<open>After the loop: \<open>cancelled\<close>, and what the last wait meets.\<close>

definition race_end :: "bool \<Rightarrow> ((nat \<Rightarrow> look) \<times> int) list \<Rightarrow> race_candidate list \<Rightarrow> wait_result" where
  "race_end cancelled rounds relays =
     (if cancelled \<or> relays = [] then NoPeer relays else wait_for_peer_candidates relays rounds)"

fun race_turns ::
  "race_entry list \<Rightarrow> (nat \<Rightarrow> bool) \<Rightarrow> bool \<Rightarrow> ((nat \<Rightarrow> look) \<times> int) list \<Rightarrow> race_turn list \<Rightarrow> bool list \<Rightarrow> race_candidate list \<Rightarrow> wait_result" where
  "race_turns entries registered cancelled final [] finished relays = race_end cancelled final relays"
| "race_turns entries registered cancelled final (t # ts) finished relays =
     (case take_ready entries registered (rt_ready t) finished relays of (finished, relays) \<Rightarrow>
        if relays \<noteq> [] \<and> rt_late t then race_end cancelled final relays
        else case (if relays = [] then NoPeer [] else wait_for_peer_candidates relays (rt_rounds t)) of
          NoPeer relays \<Rightarrow>
            if list_all id finished \<and> relays = [] then NoPeer []
            else race_turns entries registered cancelled final ts finished relays
        | r \<Rightarrow> r)"

definition race_until_peer ::
  "race_entry list \<Rightarrow> bool \<Rightarrow> (nat \<Rightarrow> bool) \<Rightarrow> race_turn list \<Rightarrow> bool \<Rightarrow> ((nat \<Rightarrow> look) \<times> int) list \<Rightarrow> wait_result" where
  "race_until_peer entries cancelled_first registered turns cancelled final =
     (if entries = [] \<or> cancelled_first then NoPeer []
      else race_turns entries registered cancelled final turns (replicate (length entries) False) [])"

section \<open>The choice among the relays\<close>

text \<open>A look that neither closes the connection of its relay nor brings an error.\<close>

definition harmless :: "look \<Rightarrow> bool" where
  "harmless l \<longleftrightarrow> (case l of Silent \<Rightarrow> True | Fails \<Rightarrow> False | Gives m _ \<Rightarrow> mtype m \<noteq> ''error'')"

definition gives_peer :: "look \<Rightarrow> bool" where
  "gives_peer l \<longleftrightarrow> (case l of Gives m _ \<Rightarrow> mtype m = ''peer'' | _ \<Rightarrow> False)"

definition reported :: "race_candidate \<Rightarrow> bool" where
  "reported c \<longleftrightarrow> ac_peer c \<noteq> None"

definition best_is :: "wait_state \<Rightarrow> nat \<Rightarrow> bool" where
  "best_is w b \<longleftrightarrow> b < length (wt_relays w) \<and> reported (wt_relays w ! b) \<and>
     (\<forall>r\<in>set (wt_relays w). reported r \<longrightarrow> \<not> relay_candidate_better r (wt_relays w ! b))"

definition wait_inv :: "nat \<Rightarrow> wait_state \<Rightarrow> bool" where
  "wait_inv n w \<longleftrightarrow> length (wt_relays w) = n \<and> (\<forall>r\<in>set (wt_relays w). ac_valid r) \<and>
     (case wt_best w of
        None \<Rightarrow> wt_settle w = None \<and> (\<forall>r\<in>set (wt_relays w). \<not> reported r)
      | Some b \<Rightarrow> wt_settle w \<noteq> None \<and> best_is w b)"

lemma better_irrefl: "\<not> relay_candidate_better r r"
  by (simp add: relay_candidate_better_def)

lemma better_trans: "relay_candidate_better a b \<Longrightarrow> relay_candidate_better b c \<Longrightarrow> relay_candidate_better a c"
  by (auto simp: relay_candidate_better_def split: if_splits)

text \<open>A relay that reports: it replaces the best if it is better.\<close>

lemma best_after_report:
  assumes "best_is w b" "i < length (wt_relays w)" "\<not> reported (wt_relays w ! i)" "reported c"
    and "wt_relays w' = (wt_relays w)[i := c]"
  shows "relay_candidate_better c (wt_relays w' ! b) \<Longrightarrow> best_is w' i"
    and "\<not> relay_candidate_better c (wt_relays w' ! b) \<Longrightarrow> best_is w' b"
proof -
  have ib: "i \<noteq> b" using assms(1,3) by (auto simp: best_is_def)
  then have b: "wt_relays w' ! b = wt_relays w ! b" "wt_relays w' ! i = c" "length (wt_relays w') = length (wt_relays w)"
    using assms(2,5) by simp_all
  have old: "r = c \<or> r \<in> set (wt_relays w)" if "r \<in> set (wt_relays w')" for r
    using that set_update_subset_insert [of "wt_relays w" i c] unfolding assms(5) by blast
  show "best_is w' i" if "relay_candidate_better c (wt_relays w' ! b)"
    using that old assms(1,2,4) b better_irrefl better_trans unfolding best_is_def by metis
  show "best_is w' b" if "\<not> relay_candidate_better c (wt_relays w' ! b)"
    using that old assms(1,4) b unfolding best_is_def by metis
qed

lemma first_report:
  assumes "\<forall>r\<in>set (wt_relays w). \<not> reported r" "i < length (wt_relays w)" "reported c" "wt_relays w' = (wt_relays w)[i := c]"
  shows "best_is w' i"
proof -
  have "r = c" if "r \<in> set (wt_relays w')" "reported r" for r
    using that assms(1) set_update_subset_insert [of "wt_relays w" i c] unfolding assms(4) by blast
  then show ?thesis using assms(2-4) better_irrefl by (auto simp: best_is_def)
qed

text \<open>What a round keeps; the second part says what happens to a wait without a best relay.\<close>

definition look_ok :: "nat \<Rightarrow> bool \<Rightarrow> wait_state \<Rightarrow> wait_state option \<Rightarrow> bool" where
  "look_ok n given w r \<longleftrightarrow>
     (\<exists>w'. r = Some w' \<and> wait_inv n w' \<and> (wt_best w' = None \<longrightarrow> w' = w \<and> \<not> given))"

lemma wait_invD:
  assumes "wait_inv n w"
  shows "length (wt_relays w) = n" "r \<in> set (wt_relays w) \<Longrightarrow> ac_valid r" "wt_best w = Some b \<Longrightarrow> best_is w b"
    "wt_best w = None \<Longrightarrow> r \<in> set (wt_relays w) \<Longrightarrow> \<not> reported r" "wt_best w = Some b \<Longrightarrow> wt_settle w \<noteq> None"
    "wt_best w = None \<Longrightarrow> wt_settle w = None"
  using assms by (auto simp: wait_inv_def split: option.splits)

lemma wait_invI:
  assumes "length (wt_relays w) = n" "\<forall>r\<in>set (wt_relays w). ac_valid r" "wt_best w = Some b" "best_is w b" "wt_settle w \<noteq> None"
  shows "wait_inv n w"
  using assms by (simp add: wait_inv_def)

lemma look_at_ok:
  assumes inv: "wait_inv n w" and i: "i < n" and "harmless (looks i)"
  shows "look_ok n (gives_peer (looks i)) w (look_at looks i w)"
proof -
  note len = wait_invD(1) [OF inv]
  have v: "ac_valid (wt_relays w ! i)" using wait_invD(2) [OF inv] i len by simp
  have keep: "look_ok n g w (Some w)" if "wt_best w = None \<Longrightarrow> \<not> g" for g using that inv by (simp add: look_ok_def)
  show ?thesis
  proof (cases "reported (wt_relays w ! i)")
    case True
    then have "wt_best w \<noteq> None" using wait_invD(4) [OF inv] i len by (metis nth_mem)
    then have "look_ok n (gives_peer (looks i)) w (Some w)" by (intro keep) simp
    then show ?thesis using True by (simp add: look_at_def reported_def)
  next
    case new: False
    show ?thesis
    proof (cases "gives_peer (looks i)")
      case False
      then have "look_at looks i w = Some w" using assms(3) by (auto simp: look_at_def gives_peer_def harmless_def split: look.splits)
      then show ?thesis using keep False by simp
    next
      case True
      then obtain m now where g: "looks i = Gives m now" "mtype m = ''peer''" by (auto simp: gives_peer_def split: look.splits)
      let ?c = "(wt_relays w ! i)\<lparr>ac_peer := Some m\<rparr>"
      let ?w = "w\<lparr>wt_relays := (wt_relays w)[i := ?c]\<rparr>"
      let ?t = "Some (now + kPeerSelectionSettleWindow)"
      have c: "reported ?c" "ac_valid ?c" using v by (simp_all add: reported_def)
      have valid: "\<forall>r\<in>set (wt_relays ?w). ac_valid r"
        using wait_invD(2) [OF inv] c(2) set_update_subset_insert [of "wt_relays w" i ?c] by auto
      have lens: "length (wt_relays ?w) = n" "i < length (wt_relays w)" "wt_relays ?w ! i = ?c" using i len by simp_all
      have result: "look_ok n True w (Some w')"
        if "wt_relays w' = wt_relays ?w" "wt_best w' = Some b" "best_is ?w b" "wt_settle w' \<noteq> None" for w' b
      proof -
        have "best_is w' b" using that(1,3) by (simp add: best_is_def)
        then have "wait_inv n w'" using that valid lens by (intro wait_invI) simp_all
        then show ?thesis using that(2) by (simp add: look_ok_def)
      qed
      show ?thesis
      proof (cases "wt_best w")
        case None
        have "best_is ?w i" using first_report [of w i ?c ?w] wait_invD(4) [OF inv None] lens(2) c(1) by simp
        then have "look_ok n True w (Some (?w\<lparr>wt_best := Some i, wt_settle := ?t\<rparr>))" by (intro result) simp_all
        then show ?thesis using None new v g True by (simp add: look_at_def reported_def Let_def)
      next
        case (Some b)
        note best = wait_invD(3) [OF inv Some]
        have b: "\<not> length (wt_relays ?w) \<le> b" using best by (simp add: best_is_def)
        show ?thesis
        proof (cases "relay_candidate_better ?c (wt_relays ?w ! b)")
          case True
          have "best_is ?w i" by (rule best_after_report(1) [OF best lens(2) new c(1) _ True]) simp
          then have "look_ok n True w (Some (?w\<lparr>wt_best := Some i, wt_settle := ?t\<rparr>))" by (intro result) simp_all
          then show ?thesis using Some new v g True b lens by (simp add: look_at_def reported_def Let_def gives_peer_def)
        next
          case False
          have "best_is ?w b" by (rule best_after_report(2) [OF best lens(2) new c(1) _ False]) simp
          then have "look_ok n True w (Some ?w)" using wait_invD(5) [OF inv Some] Some by (intro result) simp_all
          then show ?thesis
            using Some new v g False b lens wait_invD(5) [OF inv Some] by (auto simp: look_at_def reported_def Let_def gives_peer_def)
        qed
      qed
    qed
  qed
qed

lemma look_at_all_ok:
  assumes "wait_inv n w" "\<forall>i\<in>set is. i < n \<and> harmless (looks i)"
  shows "look_ok n (\<exists>i\<in>set is. gives_peer (looks i)) w (look_at_all looks is w)"
  using assms
proof (induction "is" arbitrary: w)
  case Nil
  then show ?case by (simp add: look_ok_def)
next
  case (Cons i "is")
  have "look_ok n (gives_peer (looks i)) w (look_at looks i w)" using Cons.prems by (intro look_at_ok) simp_all
  then obtain w1 where w1: "look_at looks i w = Some w1" "wait_inv n w1" "wt_best w1 = None \<longrightarrow> w1 = w \<and> \<not> gives_peer (looks i)"
    by (auto simp: look_ok_def)
  have "look_ok n (\<exists>i\<in>set is. gives_peer (looks i)) w1 (look_at_all looks is w1)" using Cons.prems w1(2) by (intro Cons.IH) simp_all
  then show ?case using w1 by (auto simp: look_ok_def)
qed

text \<open>What the end of a wait says of the relays it was given.\<close>

definition picks_best :: "nat \<Rightarrow> ((nat \<Rightarrow> look) \<times> int) list \<Rightarrow> race_candidate list \<Rightarrow> wait_result \<Rightarrow> bool" where
  "picks_best n rounds relays result \<longleftrightarrow>
     (case result of
        UndefinedBehaviour \<Rightarrow> False
      | Chosen c others \<Rightarrow> reported c \<and> (\<forall>r\<in>set others. reported r \<longrightarrow> \<not> relay_candidate_better r c)
      | NoPeer left \<Rightarrow> left = relays \<and> (\<forall>(looks, now)\<in>set rounds. \<forall>i<n. \<not> gives_peer (looks i)))"

lemma choose_best_picks:
  assumes "wait_inv n w" "wt_best w = None \<Longrightarrow> wt_relays w = relays \<and> (\<forall>(looks, now)\<in>set rounds. \<forall>i<n. \<not> gives_peer (looks i))"
  shows "picks_best n rounds relays (choose_best w)"
proof (cases "wt_best w")
  case None
  then show ?thesis using assms(2) by (simp add: choose_best_def picks_best_def)
next
  case (Some b)
  note best = wait_invD(3) [OF assms(1) Some]
  have sub: "set (take b (wt_relays w)) \<union> set (drop (Suc b) (wt_relays w)) \<subseteq> set (wt_relays w)"
    by (simp add: set_take_subset set_drop_subset)
  have "\<not> length (wt_relays w) \<le> b" "reported (wt_relays w ! b)" using best by (simp_all add: best_is_def)
  then have c: "choose_best w = Chosen (wt_relays w ! b) (take b (wt_relays w) @ drop (Suc b) (wt_relays w))"
    using Some by (simp add: choose_best_def reported_def)
  have "\<not> relay_candidate_better r (wt_relays w ! b)" if "r \<in> set (take b (wt_relays w) @ drop (Suc b) (wt_relays w))" "reported r" for r
    using that best sub unfolding best_is_def by auto
  then show ?thesis using \<open>reported (wt_relays w ! b)\<close> unfolding c picks_best_def by simp
qed

lemma drop_dead_valid: "\<forall>r\<in>set (wt_relays w). ac_valid r \<Longrightarrow> drop_dead w = w"
  by (simp add: drop_dead_def)

lemma wait_rounds_picks:
  assumes "wait_inv n w" "\<forall>(looks, now)\<in>set rounds. \<forall>i<n. harmless (looks i)" "wt_best w = None \<Longrightarrow> wt_relays w = relays"
    and "\<forall>(looks, now)\<in>set past. \<forall>i<n. wt_best w = None \<longrightarrow> \<not> gives_peer (looks i)"
  shows "picks_best n (past @ rounds) relays (wait_rounds rounds w)"
  using assms
proof (induction rounds arbitrary: w past)
  case Nil
  then show ?case by (auto intro!: choose_best_picks)
next
  case (Cons r rounds)
  obtain looks now where r: "r = (looks, now)" by fastforce
  note len = wait_invD(1) [OF Cons.prems(1)]
  have "look_ok n (\<exists>i\<in>set [0..<n]. gives_peer (looks i)) w (look_at_all looks [0..<n] w)"
    using Cons.prems(1,2) r by (intro look_at_all_ok) auto
  then obtain w1 where w1: "look_at_all looks [0..<n] w = Some w1" "wait_inv n w1"
    "wt_best w1 = None \<Longrightarrow> w1 = w \<and> (\<forall>i<n. \<not> gives_peer (looks i))"
    by (auto simp: look_ok_def)
  have d: "drop_dead w1 = w1" using wait_invD(2) [OF w1(2)] by (intro drop_dead_valid) blast
  have past: "\<forall>(looks, now)\<in>set (past @ [r]). \<forall>i<n. wt_best w1 = None \<longrightarrow> \<not> gives_peer (looks i)"
    using Cons.prems(4) w1(3) r by auto
  have same: "wt_best w1 = None \<Longrightarrow> wt_relays w1 = relays" using w1(3) Cons.prems(3) by auto
  have rest: "picks_best n ((past @ [r]) @ rounds) relays (wait_rounds rounds w1)"
    using Cons.prems(2) by (intro Cons.IH w1(2) same past) auto
  consider (settled) "wt_best w1 \<noteq> None" "wait_rounds (r # rounds) w = choose_best w1"
    | (empty) "wt_relays w1 = []" "wt_best w1 = None" "wait_rounds (r # rounds) w = NoPeer []"
    | (on) "wait_rounds (r # rounds) w = wait_rounds rounds w1"
  proof -
    have "wt_relays w1 = [] \<Longrightarrow> wt_best w1 = None" using wait_invD(3) [OF w1(2)] by (cases "wt_best w1") (auto simp: best_is_def)
    moreover have "wait_rounds (r # rounds) w = (if wt_best w1 \<noteq> None \<and> (case wt_settle w1 of None \<Rightarrow> False | Some t \<Rightarrow> t \<le> now) then choose_best w1
        else if wt_relays w1 = [] then NoPeer [] else wait_rounds rounds w1)"
      using w1(1) len r by (simp add: d Let_def)
    ultimately show thesis using that by presburger
  qed
  then show ?case
  proof cases
    case settled
    then show ?thesis unfolding settled(2) by (intro choose_best_picks [OF w1(2)]) simp
  next
    case empty
    then have "n = 0" using wait_invD(1) [OF w1(2)] by simp
    then show ?thesis using empty same by (simp add: picks_best_def)
  next
    case on
    then show ?thesis using rest by simp
  qed
qed

text \<open>
  The race takes the best relay. As long as no relay fails while the peer is waited for, the wait ends with a relay
  that has reported the peer, and no other one that has reported it comes first by priority and order; or no relay has
  reported the peer, and all are kept for the next wait.
\<close>

theorem wait_takes_best_relay:
  assumes "\<forall>r\<in>set relays. ac_valid r \<and> \<not> reported r" "\<forall>(looks, now)\<in>set rounds. \<forall>i<length relays. harmless (looks i)"
  shows "picks_best (length relays) rounds relays (wait_for_peer_candidates relays rounds)"
proof -
  have "wait_inv (length relays) \<lparr>wt_relays = relays, wt_best = None, wt_settle = None\<rparr>" using assms(1) by (simp add: wait_inv_def)
  then show ?thesis
    using wait_rounds_picks [of "length relays" "\<lparr>wt_relays = relays, wt_best = None, wt_settle = None\<rparr>" rounds relays "[]"] assms(2)
    by (simp add: wait_for_peer_candidates_def)
qed

section \<open>A relay that fails moves the others\<close>

text \<open>
  When a relay before the best one fails during the settle window, it is erased from the vector but the index of the best
  one is kept: with two relays the next access is behind the end of the vector, with a third one the wait looks
  at that one, finds no peer there, and gives up although a relay has reported the peer.
\<close>

theorem failing_relay_moves_best:
  assumes "ac_valid a" "ac_valid b" "ac_valid c" "\<not> reported a" "\<not> reported b" "\<not> reported c" "mtype m = ''peer''" "now < t + 120"
    and "looks 0 = Fails" "looks 1 = Gives m t" "looks 2 = Silent"
  shows "wait_for_peer_candidates [a, b] [(looks, now)] = UndefinedBehaviour \<and>
    wait_for_peer_candidates [a, b, c] [(looks, now)] = NoPeer [b\<lparr>ac_peer := Some m\<rparr>, c]"
proof -
  have n: "ac_peer a = None" "ac_peer b = None" "ac_peer c = None" "mtype m \<noteq> ''error''" using assms by (simp_all add: reported_def)
  have s: "\<not> t + kPeerSelectionSettleWindow \<le> now" using assms(8) by (simp add: kPeerSelectionSettleWindow_def)
  have looks: "looks 0 = Fails" "looks (Suc 0) = Gives m t" "looks (Suc (Suc 0)) = Silent" using assms(9-11) by (simp_all add: numeral_2_eq_2)
  have two: "[0..<length [a, b]] = [0, Suc 0]" "[0..<length [a, b, c]] = [0, Suc 0, Suc (Suc 0)]" by (simp_all add: upt_rec)
  show ?thesis
    unfolding wait_for_peer_candidates_def wait_rounds.simps wait_state.simps two
    using assms(1-3,7) n s looks
    by (simp add: look_at_def close_relay_def drop_dead_def choose_best_def Let_def)
qed

text \<open>Three relays, the second and the third report; the third has the better priority.\<close>

definition sample_candidate :: "nat \<Rightarrow> nat \<Rightarrow> race_candidate" where
  "sample_candidate p i = \<lparr>ac_endpoint = \<lparr>host = ''h'', port = 9\<rparr>, ac_priority = p, ac_order = i, ac_peer = None, ac_valid = True\<rparr>"

definition peer_found :: message where "peer_found = \<lparr>mtype = ''peer'', mfields = []\<rparr>"

theorem wait_takes_best_relay_witness:
  "\<exists>c others. wait_for_peer_candidates [sample_candidate 0 0, sample_candidate 2 1, sample_candidate 1 2]
       [((\<lambda>i. if i = 0 then Silent else Gives peer_found 5), 7)] = Chosen c others \<and>
     ac_priority c = 1 \<and> (\<forall>r\<in>set others. reported r \<longrightarrow> \<not> relay_candidate_better r c)"
proof -
  let ?relays = "[sample_candidate 0 0, sample_candidate 2 1, sample_candidate 1 2]"
  let ?rounds = "[((\<lambda>i. if i = 0 then Silent else Gives peer_found 5), 7 :: int)]"
  have three: "[0..<length ?relays] = [0, Suc 0, Suc (Suc 0)]" by (simp add: upt_rec)
  obtain c others where c: "wait_for_peer_candidates ?relays ?rounds = Chosen c others" "ac_priority c = 1"
    unfolding wait_for_peer_candidates_def wait_rounds.simps wait_state.simps three
    by (simp add: look_at_def sample_candidate_def peer_found_def relay_candidate_better_def drop_dead_def choose_best_def
        kPeerSelectionSettleWindow_def Let_def)
  have "picks_best (length ?relays) ?rounds ?relays (wait_for_peer_candidates ?relays ?rounds)"
    by (rule wait_takes_best_relay) (simp_all add: sample_candidate_def reported_def harmless_def peer_found_def)
  then show ?thesis using c by (simp add: picks_best_def)
qed

end
