(* ===== verification/Route_Session.thy ===== *)
theory Route_Session
  imports Direct_Exchange Relay_Server Progress
begin

text \<open>
  The choice of the route on the side of a peer (connect/route_session.cpp) and what follows it: the upgrade of a relayed
  session to the local network (connect/lan_upgrade.cpp) and the parallel connections through the relay
  (connect/peer_route_session.cpp). The older exchange without the standby message is \<open>select_transfer_route\<close> alone.
  Connections, polling and the clock are arguments; what a peer sends to the relay and
  what it reports is threaded through a record.
\<close>

section \<open>What is reported of the attempts\<close>

definition count_map_summary :: "(string, int) omap \<Rightarrow> string" where
  "count_map_summary values = join_csv (map (\<lambda>(key, n). key @ ''='' @ int_text n) values)"

definition same_port_summary :: "punch_stats \<Rightarrow> string" where
  "same_port_summary st =
     add_if (0 \<le> ps_same_port_last_elapsed_ms st) ('',last_ms='' @ int_text (ps_same_port_last_elapsed_ms st))
       (''attempts='' @ int_text (ps_same_port_attempts st) @ '',successes='' @ int_text (ps_same_port_successes st) @
        '',failures='' @ int_text (ps_same_port_failures st))"

definition direct_probe_summary :: "punch_stats \<Rightarrow> string" where
  "direct_probe_summary st =
     (if \<not> ps_attempted st then ''result=not_attempted''
      else add_if (0 < ps_same_port_attempts st) ('' same_port='' @ same_port_summary st)
        (add_if (ps_attempts_by_kind st \<noteq> []) ('' candidate_kinds='' @ count_map_summary (ps_attempts_by_kind st))
          (''result='' @ (if ps_direct_ok st then ''direct'' else ''relay_fallback''))))"

definition success_detail :: "punch_stats \<Rightarrow> string" where
  "success_detail st =
     (if ps_successful_kind st = [] then []
      else '' kind='' @ ps_successful_kind st @ '' priority='' @ int_text (ps_successful_priority st) @
        (if ps_successful_endpoint st \<noteq> [] then '' endpoint='' @ ps_successful_endpoint st else []) @
        (if ps_successful_family st \<noteq> [] then '' family='' @ ps_successful_family st else []) @
        (if ps_successful_scope st \<noteq> [] then '' scope='' @ ps_successful_scope st else []) @
        (if 0 \<le> ps_successful_elapsed_ms st then '' elapsed_ms='' @ int_text (ps_successful_elapsed_ms st) else []))"

definition failure_detail :: "punch_stats \<Rightarrow> string" where
  "failure_detail st =
     (if ps_failures st \<noteq> [] then '' failures='' @ count_map_summary (ps_failures st) else []) @
     (if ps_failures_by_kind st \<noteq> [] then '' candidate_kinds='' @ count_map_summary (ps_failures_by_kind st) else []) @
     (if 0 < ps_same_port_attempts st then '' same_port='' @ same_port_summary st else [])"

definition report_route_detail :: "punch_stats \<Rightarrow> progress_event list" where
  "report_route_detail st =
     [Status (''direct probe summary: '' @ direct_probe_summary st),
      Status
        (if \<not> ps_attempted st then ''route detail: direct_not_attempted''
         else if ps_direct_ok st then ''route detail: direct_success'' @ success_detail st
         else ''route detail: direct_failed'' @ failure_detail st)]"

text \<open>\<open>part\<close> behind a semicolon, unless it is the first.\<close>

definition add_part :: "bool \<Rightarrow> string \<Rightarrow> string \<Rightarrow> string" where
  "add_part b part summary = (if b then (if summary = [] then part else summary @ '';'' @ part) else summary)"

definition direct_failure_summary :: "punch_stats \<Rightarrow> string" where
  "direct_failure_summary st =
     (if \<not> ps_attempted st then ''not_attempted''
      else
        let summary =
          add_part (0 < ps_same_port_attempts st) (''same_port='' @ same_port_summary st)
            (add_part (ps_failures_by_kind st \<noteq> []) (''candidate_kinds='' @ count_map_summary (ps_failures_by_kind st))
              (if ps_failures st \<noteq> [] then count_map_summary (ps_failures st) else []))
        in if summary = [] then ''unknown'' else summary)"

text \<open>An \<open>int64_t\<close> stored in an \<open>int\<close>.\<close>

definition to_int :: "int \<Rightarrow> int" where
  "to_int v = sint (word_of_int v :: 32 word)"

definition new_route_outcome :: route_outcome where
  "new_route_outcome = \<lparr>ro_control_path = ''relay'', ro_data_path = ''relay'', ro_reason = [], ro_direct_attempted = False,
     ro_lan_upgrade = False, ro_direct_candidate_kind = [], ro_direct_candidate_endpoint = [], ro_direct_candidate_family = [],
     ro_direct_candidate_scope = [], ro_direct_candidate_priority = -1, ro_direct_elapsed_ms = -1, ro_direct_failure_summary = []\<rparr>"

definition make_route_outcome :: "string \<Rightarrow> string \<Rightarrow> bool \<Rightarrow> bool \<Rightarrow> punch_stats \<Rightarrow> route_outcome" where
  "make_route_outcome data_path reason direct_attempted lan_upgrade st =
     (let ok = ps_direct_ok st in
      \<lparr>ro_control_path = ''relay'', ro_data_path = data_path, ro_reason = reason,
       ro_direct_attempted = direct_attempted, ro_lan_upgrade = lan_upgrade,
       ro_direct_candidate_kind = (if ok then ps_successful_kind st else []),
       ro_direct_candidate_endpoint = (if ok then ps_successful_endpoint st else []),
       ro_direct_candidate_family = (if ok then ps_successful_family st else []),
       ro_direct_candidate_scope = (if ok then ps_successful_scope st else []),
       ro_direct_candidate_priority = (if ok then ps_successful_priority st else -1),
       ro_direct_elapsed_ms = (if ok then to_int (ps_successful_elapsed_ms st) else -1),
       ro_direct_failure_summary = (if ok then [] else direct_failure_summary st)\<rparr>)"

section \<open>The selection\<close>

datatype route_path = DirectPath | RelayPath

text \<open>The direct connection belongs to the selection exactly on the direct path.\<close>

record route_selection =
  se_path :: route_path
  se_allow_lan_upgrade :: bool
  se_punch_stats :: punch_stats
  se_explain_direct_failure :: bool
  se_outcome :: route_outcome
  se_timing :: route_timing

record route_io =
  ri_sent :: "message list"
  ri_events :: "progress_event list"

type_synonym 'a route_run = "route_io \<Rightarrow> 'a result \<times> route_io"

definition bind_route :: "'a route_run \<Rightarrow> ('a \<Rightarrow> 'b route_run) \<Rightarrow> 'b route_run" where
  "bind_route c f io = (case c io of (Inl e, io1) \<Rightarrow> (Inl e, io1) | (Inr x, io1) \<Rightarrow> f x io1)"

definition give :: "'a result \<Rightarrow> 'a route_run" where
  "give r io = (r, io)"

definition report_events :: "progress_event list \<Rightarrow> unit route_run" where
  "report_events es io = (Inr (), io\<lparr>ri_events := ri_events io @ es\<rparr>)"

text \<open>\<open>fault\<close>: the exception of the send, if it fails.\<close>

definition post :: "string option \<Rightarrow> message \<Rightarrow> unit route_run" where
  "post fault m io = (case fault of Some e \<Rightarrow> (Inl e, io) | None \<Rightarrow> (Inr (), io\<lparr>ri_sent := ri_sent io @ [m]\<rparr>))"

definition phase_event :: "route_phase \<Rightarrow> string \<Rightarrow> string \<Rightarrow> progress_event" where
  "phase_event phase message reason =
     RoutePhaseEvent phase \<lparr>rd_message = message, rd_reason = reason, rd_relay_fallback_ready = True\<rparr>"

definition path_name :: "route_path \<Rightarrow> string" where
  "path_name p = (case p of DirectPath \<Rightarrow> ''direct'' | RelayPath \<Rightarrow> ''relay'')"

definition report_route_result :: "string \<Rightarrow> string \<Rightarrow> bool \<Rightarrow> bool \<Rightarrow> progress_event" where
  "report_route_result path reason direct_attempted allow_lan_upgrade =
     Status (''route result: path='' @ path @ '' reason='' @ reason @ '' direct_attempted='' @ true_false direct_attempted @
       '' lan_upgrade='' @ true_false allow_lan_upgrade)"

definition finalize_route_selection :: "route_selection \<Rightarrow> string \<Rightarrow> bool \<Rightarrow> route_selection route_run" where
  "finalize_route_selection selection reason direct_attempted =
     (let path = path_name (se_path selection);
          upgrade = se_allow_lan_upgrade selection;
          outcome = make_route_outcome path reason direct_attempted upgrade (se_punch_stats selection)
      in bind_route
           (report_events ([report_route_result path reason direct_attempted upgrade] @ report_route_detail (se_punch_stats selection) @
                  [RouteOutcomeEvent outcome, RouteTimingEvent (se_timing selection)]))
           (\<lambda>_. give (Inr (selection\<lparr>se_outcome := outcome\<rparr>))))"

definition new_selection :: "route_path \<Rightarrow> bool \<Rightarrow> punch_stats \<Rightarrow> bool \<Rightarrow> route_timing \<Rightarrow> route_selection" where
  "new_selection path upgrade st explain timing =
     \<lparr>se_path = path, se_allow_lan_upgrade = upgrade, se_punch_stats = st, se_explain_direct_failure = explain,
      se_outcome = new_route_outcome, se_timing = timing\<rparr>"

text \<open>
  What the world does to one call of \<open>select_transfer_route\<close>: the looks at the cancellation flag, the exception of the
  send, what the read of the confirmation gives, and the time it took. \<open>obs\<close> are the observations of the attempts.
\<close>

record select_world =
  sw_cancelled :: bool
  sw_send_fault :: "string option"
  sw_confirmation :: "message option result"
  sw_cancelled_after :: bool
  sw_elapsed :: int

definition stop_if :: "bool \<Rightarrow> unit route_run" where
  "stop_if b = give (fail_if b ''transfer canceled'')"

definition confirm_direct ::
  "address_library \<Rightarrow> punch_observation list \<Rightarrow> route_timing \<Rightarrow> select_world \<Rightarrow> route_selection route_run" where
  "confirm_direct al obs timing w =
     bind_route (report_events [Status ''direct connection established'']) (\<lambda>_.
     bind_route (post (sw_send_fault w) (plain_message ''direct_ok'' [])) (\<lambda>_.
     bind_route (give (sw_confirmation w)) (\<lambda>choice.
     bind_route (stop_if (sw_cancelled_after w)) (\<lambda>_.
       case choice of
         None \<Rightarrow> give (Inl ''relay closed before route confirmation'')
       | Some m \<Rightarrow>
           if mtype m = ''relay_start'' then
             bind_route (report_events [Status ''peer selected relay; using relay path'',
                               phase_event RelayCommitted ''peer selected relay'' ''peer_selected_relay'']) (\<lambda>_.
             finalize_route_selection
               (new_selection RelayPath False (punch_stats_from al obs False True) False (timing\<lparr>rt_relay_commit_ms := sw_elapsed w\<rparr>))
               ''peer_selected_relay'' True)
           else if mtype m \<noteq> ''direct_start'' then give (Inl (''unexpected relay route confirmation: '' @ mtype m))
           else finalize_route_selection (new_selection DirectPath False (punch_stats_from al obs True True) False timing)
                  ''confirmed'' True))))"

definition commit_relay ::
  "address_library \<Rightarrow> punch_observation list \<Rightarrow> route_plan \<Rightarrow> route_timing \<Rightarrow> select_world \<Rightarrow> route_selection route_run" where
  "commit_relay al obs plan timing w =
     (let skip = rp_skip_direct plan;
          relay_reason = (if skip then ''direct_skipped'' else ''direct_failed'')
      in bind_route
           (report_events [Status (if skip then ''direct skipped, using relay'' else ''direct failed, using relay''),
                  phase_event RelayCommitted (if skip then ''direct skipped; using relay'' else ''direct failed; using relay'') relay_reason]) (\<lambda>_.
         bind_route (post (sw_send_fault w) (plain_message ''relay_ready'' [])) (\<lambda>_.
         bind_route (give (sw_confirmation w)) (\<lambda>start.
         bind_route (stop_if (sw_cancelled_after w)) (\<lambda>_.
           case start of
             None \<Rightarrow> give (Inl ''relay did not start stream'')
           | Some m \<Rightarrow>
               if mtype m \<noteq> ''relay_start'' then give (Inl ''relay did not start stream'')
               else finalize_route_selection
                      (new_selection RelayPath (msg_get m ''reason'' [] \<noteq> ''mismatch'') (punch_stats_from al obs False (\<not> skip)) True
                        (timing\<lparr>rt_relay_commit_ms := sw_elapsed w\<rparr>))
                      relay_reason (\<not> skip))))))"

definition select_transfer_route ::
  "address_library \<Rightarrow> punch_observation list \<Rightarrow> bool \<Rightarrow> route_plan \<Rightarrow> route_timing \<Rightarrow> select_world \<Rightarrow> route_selection route_run" where
  "select_transfer_route al obs has_direct plan timing w =
     bind_route (stop_if (sw_cancelled w)) (\<lambda>_.
       if has_direct then confirm_direct al obs timing w else commit_relay al obs plan timing w)"

section \<open>The race with the direct attempt\<close>

text \<open>What comes of the attempt: no connection, a connection, or an exception with its text.\<close>

datatype attempt_end = NoConnection | Connected | AttemptThrows string

definition has_connection :: "attempt_end \<Rightarrow> bool" where
  "has_connection a \<longleftrightarrow> a = Connected"

definition attempt_report :: "attempt_end \<Rightarrow> progress_event list" where
  "attempt_report a = (case a of AttemptThrows e \<Rightarrow> [Status (''direct attempt failed: '' @ e)] | _ \<Rightarrow> [])"

text \<open>
  The world of a race: one entry for each turn of the loop while the attempt runs, with the look at the cancellation flag
  and what the relay gives; the times of the attempt and of stopping it; how it ends; and the last look at the relay.
\<close>

record race_world =
  rw_cancelled :: bool
  rw_standby_fault :: "string option"
  rw_pending :: "(bool \<times> message option result) list"
  rw_probe_ms :: int
  rw_commit_ms :: int
  rw_cancelled_after :: bool
  rw_attempt :: attempt_end
  rw_last_look :: "message option result"
  rw_select :: select_world

definition relay_selection_from_start ::
  "address_library \<Rightarrow> punch_observation list \<Rightarrow> message \<Rightarrow> route_timing \<Rightarrow> route_selection route_run" where
  "relay_selection_from_start al obs start timing =
     finalize_route_selection
       (new_selection RelayPath (msg_get start ''reason'' [] \<noteq> ''mismatch'') (punch_stats_from al obs False True) False timing)
       ''peer_selected_relay'' True"

text \<open>A message of the relay before the route is chosen, other than its start.\<close>

definition early_message_error :: "string \<Rightarrow> message \<Rightarrow> string" where
  "early_message_error unexpected m =
     (if mtype m = ''error'' then ''relay route error: '' @ msg_get m ''code'' ''unknown''
      else if mtype m = ''done'' then ''relay closed before route selection''
      else unexpected @ mtype m)"

text \<open>The loop while the attempt runs: the start of the relay, or nothing when the attempt has ended.\<close>

fun pending_loop :: "(bool \<times> message option result) list \<Rightarrow> message option result" where
  "pending_loop [] = Inr None"
| "pending_loop ((cancelled, look) # turns) =
     (if cancelled then Inl ''transfer canceled''
      else case look of
        Inl e \<Rightarrow> Inl e
      | Inr None \<Rightarrow> pending_loop turns
      | Inr (Some m) \<Rightarrow>
          if mtype m = ''relay_start'' then Inr (Some m)
          else Inl (early_message_error ''unexpected relay route message while direct pending: '' m))"

definition after_attempt ::
  "address_library \<Rightarrow> punch_observation list \<Rightarrow> route_plan \<Rightarrow> route_timing \<Rightarrow> race_world \<Rightarrow> route_selection route_run" where
  "after_attempt al obs plan timing w =
     (let timing = timing\<lparr>rt_direct_probe_ms := rw_probe_ms w\<rparr> in
      bind_route (stop_if (rw_cancelled_after w)) (\<lambda>_.
      bind_route (report_events (attempt_report (rw_attempt w))) (\<lambda>_.
      bind_route (give (rw_last_look w)) (\<lambda>look.
        case look of
          None \<Rightarrow> select_transfer_route al obs (has_connection (rw_attempt w)) plan timing (rw_select w)
        | Some m \<Rightarrow>
            if mtype m = ''relay_start'' then
              bind_route (report_events [Status ''relay committed before direct confirmation'',
                                phase_event RelayCommitted ''peer selected relay before direct confirmation'' ''peer_selected_relay'']) (\<lambda>_.
              relay_selection_from_start al obs m (timing\<lparr>rt_relay_commit_ms := 0\<rparr>))
            else give (Inl (early_message_error ''unexpected relay route message before route confirmation: '' m))))))"

definition committed_by_peer ::
  "address_library \<Rightarrow> punch_observation list \<Rightarrow> message \<Rightarrow> route_timing \<Rightarrow> race_world \<Rightarrow> route_selection route_run" where
  "committed_by_peer al obs start timing w =
     bind_route (report_events [Status ''relay committed by peer; canceling direct'',
                       phase_event RelayCommitted ''peer selected relay; canceling direct'' ''peer_selected_relay'']) (\<lambda>_.
     relay_selection_from_start al obs start (timing\<lparr>rt_direct_probe_ms := rw_probe_ms w, rt_relay_commit_ms := rw_commit_ms w\<rparr>))"

definition race_transfer_route ::
  "address_library \<Rightarrow> punch_observation list \<Rightarrow> bool \<Rightarrow> route_plan \<Rightarrow> route_timing \<Rightarrow> race_world \<Rightarrow> route_selection route_run" where
  "race_transfer_route al obs has_attempt plan timing w =
     bind_route (stop_if (rw_cancelled w)) (\<lambda>_.
       if rp_skip_direct plan \<or> \<not> has_attempt then select_transfer_route al obs False plan timing (rw_select w)
       else
         bind_route (post (rw_standby_fault w) (plain_message ''relay_standby'' [])) (\<lambda>_.
         bind_route
           (report_events [Status ''relay standby; trying direct'',
                  phase_event RelayStandby ''relay fallback is ready'' (rp_reason plan),
                  phase_event DirectProbing ''trying direct with relay fallback ready'' (rp_reason plan)]) (\<lambda>_.
         bind_route (give (pending_loop (rw_pending w))) (\<lambda>start.
           case start of
             Some m \<Rightarrow> committed_by_peer al obs m timing w
           | None \<Rightarrow> after_attempt al obs plan timing w))))"

section \<open>The upgrade to the local network\<close>

definition add_candidate :: "u16 \<Rightarrow> string \<Rightarrow> endpoint list \<Rightarrow> endpoint list" where
  "add_candidate p h out =
     (let c = \<lparr>host = h, port = p\<rparr> in if is_unspecified c then out else if c \<in> set out then out else out @ [c])"

definition local_candidates_from_message :: "message \<Rightarrow> endpoint list result" where
  "local_candidates_from_message m =
     andthen (message_port_field m ''listen_port'' False) (\<lambda>p.
       case p of
         None \<Rightarrow> Inr []
       | Some p \<Rightarrow>
           let out = fold (add_candidate p) (split_csv (msg_get m ''local_candidates'' [])) []
           in Inr (if msg_get m ''listen_host'' [] \<noteq> [] then add_candidate p (msg_get m ''listen_host'' []) out else out))"

definition ips_response :: "u16 \<Rightarrow> string \<Rightarrow> string list \<Rightarrow> message" where
  "ips_response listen_port listen_host local_addrs =
     \<lparr>mtype = ''ips_response'',
      mfields = omap_put ''local_candidates'' (join_csv local_addrs) (omap_put ''listen_host'' listen_host
        (omap_put ''listen_port'' (u16_text listen_port) []))\<rparr>"

text \<open>The channel that is used from then on.\<close>

datatype channel = OverRelay | OverLan

text \<open>The receiver asks for addresses and dials them in turn; \<open>reachable\<close> says which connections come about.\<close>

definition upgrade_receiver :: "string option \<Rightarrow> message option result \<Rightarrow> (endpoint \<Rightarrow> bool) \<Rightarrow> channel route_run" where
  "upgrade_receiver fault response reachable =
     bind_route (post fault (plain_message ''ips_request'' [])) (\<lambda>_.
     bind_route (give response) (\<lambda>response.
       case response of
         None \<Rightarrow> give (Inr OverRelay)
       | Some m \<Rightarrow>
           if mtype m \<noteq> ''ips_response'' then give (Inr OverRelay)
           else bind_route (give (local_candidates_from_message m)) (\<lambda>cs.
             give (Inr (if list_ex reachable cs then OverLan else OverRelay)))))"

text \<open>One turn of the sender's loop: whether a connection is accepted, what the relay gives if it is ready, and the exception of an answer.\<close>

record lan_turn =
  lt_accepted :: bool
  lt_read :: "message option result"
  lt_send_fault :: "string option"

fun upgrade_sender :: "u16 \<Rightarrow> string \<Rightarrow> string list \<Rightarrow> lan_turn list \<Rightarrow> channel route_run" where
  "upgrade_sender listen_port listen_host local_addrs [] = give (Inr OverRelay)"
| "upgrade_sender listen_port listen_host local_addrs (t # turns) =
     (if lt_accepted t then give (Inr OverLan)
      else bind_route (give (lt_read t)) (\<lambda>read.
        bind_route
          (if (case read of Some m \<Rightarrow> mtype m = ''ips_request'' | None \<Rightarrow> False)
           then post (lt_send_fault t) (ips_response listen_port listen_host local_addrs) else give (Inr ()))
          (\<lambda>_. upgrade_sender listen_port listen_host local_addrs turns)))"

definition resolve_relay_channel ::
  "role \<Rightarrow> bool \<Rightarrow> bool \<Rightarrow> channel route_run \<Rightarrow> channel route_run \<Rightarrow> channel route_run" where
  "resolve_relay_channel role relay_valid no_direct as_receiver as_sender =
     (if no_direct \<or> \<not> relay_valid then give (Inr OverRelay) else if role = Receiver then as_receiver else as_sender)"

section \<open>Parallel connections through the relay\<close>

text \<open>The hello of each further connection; \<open>reachable\<close> says which connections to the relay come about.\<close>

definition auxiliary_hello :: "string \<Rightarrow> role \<Rightarrow> string option \<Rightarrow> nat \<Rightarrow> relay_hello" where
  "auxiliary_hello room role relay_pass index =
     \<lparr>h_room = room, h_role = role, h_conn_index = of_nat index, h_listen = \<lparr>host = [], port = 0\<rparr>,
      h_punch_public = \<lparr>host = [], port = 0\<rparr>, h_file_count = 0, h_total_size = 0, h_conn_count = 1, h_auxiliary = True,
      h_no_direct = False, h_local_candidates = [], h_app = [], h_stun_nat = [], h_relay_pass = relay_pass,
      h_extension_fields = []\<rparr>"

fun open_relay_channels ::
  "string \<Rightarrow> role \<Rightarrow> string option \<Rightarrow> (nat \<Rightarrow> bool) \<Rightarrow> (nat \<Rightarrow> string option) \<Rightarrow> nat list \<Rightarrow> unit route_run" where
  "open_relay_channels room role relay_pass reachable faults [] = give (Inr ())"
| "open_relay_channels room role relay_pass reachable faults (index # indices) =
     (if \<not> reachable index then give (Inl ''failed to open auxiliary relay connection'')
      else bind_route (give (encode_relay_hello (auxiliary_hello room role relay_pass index))) (\<lambda>m.
        bind_route (post (faults index) m) (\<lambda>_.
        open_relay_channels room role relay_pass reachable faults indices)))"

definition open_relay_mux_channels ::
  "string \<Rightarrow> role \<Rightarrow> string option \<Rightarrow> (nat \<Rightarrow> bool) \<Rightarrow> (nat \<Rightarrow> string option) \<Rightarrow> nat \<Rightarrow> unit route_run" where
  "open_relay_mux_channels room role relay_pass reachable faults connections =
     open_relay_channels room role relay_pass reachable faults [1..<connections]"

section \<open>Both peers take the route of the relay\<close>

text \<open>The messages that a peer has from the relay while it chooses its route.\<close>

definition look_messages :: "message option result \<Rightarrow> message list" where
  "look_messages l = (case l of Inr (Some m) \<Rightarrow> [m] | _ \<Rightarrow> [])"

definition heard :: "race_world \<Rightarrow> message list" where
  "heard w = concat (map (look_messages \<circ> snd) (rw_pending w)) @ look_messages (rw_last_look w) @
     look_messages (sw_confirmation (rw_select w))"

lemma bind_route_Inr:
  "bind_route c f io = (Inr y, io2) \<longleftrightarrow> (\<exists>x io1. c io = (Inr x, io1) \<and> f x io1 = (Inr y, io2))"
  by (auto simp: bind_route_def split: prod.splits sum.splits)

lemma give_Inr [simp]: "give r io = (Inr x, io1) \<longleftrightarrow> r = Inr x \<and> io1 = io"
  by (auto simp: give_def)

lemma route_steps [simp]:
  "report_events es io = (Inr x, io1) \<longleftrightarrow> io1 = io\<lparr>ri_events := ri_events io @ es\<rparr>"
  "post fault m io = (Inr x, io1) \<longleftrightarrow> fault = None \<and> io1 = io\<lparr>ri_sent := ri_sent io @ [m]\<rparr>"
  "stop_if b io = (Inr x, io1) \<longleftrightarrow> \<not> b \<and> io1 = io"
  by (auto simp: report_events_def post_def stop_if_def fail_if_def split: option.splits)

lemma finalize_path:
  "finalize_route_selection s reason attempted io = (Inr s', io') \<Longrightarrow>
     se_path s' = se_path s \<and> se_allow_lan_upgrade s' = se_allow_lan_upgrade s \<and> ri_sent io' = ri_sent io"
  by (auto simp: finalize_route_selection_def Let_def bind_route_Inr)

text \<open>A selection rests on a message of the relay: the start of the relay, or of the direct path with a connection that has been reported.\<close>

definition grounded :: "message list \<Rightarrow> bool \<Rightarrow> route_selection \<Rightarrow> message list \<Rightarrow> bool" where
  "grounded ms connected s sent \<longleftrightarrow>
     (case se_path s of
        DirectPath \<Rightarrow> connected \<and> list_ex (\<lambda>m. mtype m = ''direct_start'') ms \<and> plain_message ''direct_ok'' [] \<in> set sent
      | RelayPath \<Rightarrow> list_ex (\<lambda>m. mtype m = ''relay_start'') ms)"

lemma confirm_direct_grounded:
  assumes "confirm_direct al obs timing w io = (Inr s, io')"
  shows "grounded (look_messages (sw_confirmation w)) True s (ri_sent io')"
proof -
  obtain m where m: "sw_confirmation w = Inr (Some m)"
    using assms by (auto simp: confirm_direct_def bind_route_Inr split: option.splits)
  show ?thesis
    using assms m
    by (auto simp: confirm_direct_def bind_route_Inr grounded_def look_messages_def new_selection_def
        split: if_splits dest!: finalize_path)
qed

lemma commit_relay_grounded:
  assumes "commit_relay al obs plan timing w io = (Inr s, io')"
  shows "grounded (look_messages (sw_confirmation w)) c s (ri_sent io')"
proof -
  obtain m where m: "sw_confirmation w = Inr (Some m)"
    using assms by (auto simp: commit_relay_def Let_def bind_route_Inr split: option.splits)
  show ?thesis
    using assms m
    by (auto simp: commit_relay_def Let_def bind_route_Inr grounded_def look_messages_def new_selection_def
        split: if_splits dest!: finalize_path)
qed

lemma select_grounded:
  assumes "select_transfer_route al obs has_direct plan timing w io = (Inr s, io')"
  shows "grounded (look_messages (sw_confirmation w)) has_direct s (ri_sent io')"
  using assms confirm_direct_grounded commit_relay_grounded
  by (auto simp: select_transfer_route_def bind_route_Inr split: if_splits)

lemma grounded_more: "grounded ms c s sent \<Longrightarrow> set ms \<subseteq> set ms' \<Longrightarrow> grounded ms' c s sent"
  by (auto simp: grounded_def list_ex_iff split: route_path.splits)

lemma pending_loop_start:
  "pending_loop turns = Inr (Some m) \<Longrightarrow> mtype m = ''relay_start'' \<and> m \<in> set (concat (map (look_messages \<circ> snd) turns))"
  by (induction turns rule: pending_loop.induct) (auto simp: look_messages_def split: if_splits sum.splits option.splits)

lemma start_grounded:
  assumes "relay_selection_from_start al obs m timing io = (Inr s, io')" "mtype m = ''relay_start''" "m \<in> set ms"
  shows "grounded ms c s (ri_sent io')"
  using assms by (auto simp: relay_selection_from_start_def grounded_def new_selection_def list_ex_iff dest!: finalize_path)

lemma after_attempt_grounded:
  assumes "after_attempt al obs plan timing w io = (Inr s, io')"
  shows "grounded (heard w) (has_connection (rw_attempt w)) s (ri_sent io')"
proof (cases "rw_last_look w")
  case (Inr look)
  show ?thesis
  proof (cases look)
    case None
    obtain t io1 where "select_transfer_route al obs (has_connection (rw_attempt w)) plan t (rw_select w) io1 = (Inr s, io')"
      using assms Inr None by (auto simp: after_attempt_def Let_def bind_route_Inr)
    then have "grounded (look_messages (sw_confirmation (rw_select w))) (has_connection (rw_attempt w)) s (ri_sent io')"
      by (rule select_grounded)
    then show ?thesis by (rule grounded_more) (auto simp: heard_def)
  next
    case (Some m)
    have m: "mtype m = ''relay_start''" using assms Inr Some by (auto simp: after_attempt_def Let_def bind_route_Inr split: if_splits)
    obtain t io1 where "relay_selection_from_start al obs m t io1 = (Inr s, io')"
      using assms Inr Some m by (auto simp: after_attempt_def Let_def bind_route_Inr)
    then show ?thesis by (rule start_grounded [OF _ m]) (simp add: heard_def look_messages_def Inr Some)
  qed
qed (use assms in \<open>auto simp: after_attempt_def Let_def bind_route_Inr\<close>)

lemma race_grounded:
  assumes "race_transfer_route al obs has_attempt plan timing w io = (Inr s, io')"
  shows "grounded (heard w) (has_connection (rw_attempt w)) s (ri_sent io')"
proof (cases "rp_skip_direct plan \<or> \<not> has_attempt")
  case True
  then have "select_transfer_route al obs False plan timing (rw_select w) io = (Inr s, io')"
    using assms by (auto simp: race_transfer_route_def bind_route_Inr)
  then have "grounded (look_messages (sw_confirmation (rw_select w))) False s (ri_sent io')" by (rule select_grounded)
  then have "grounded (heard w) False s (ri_sent io')" by (rule grounded_more) (auto simp: heard_def)
  then show ?thesis by (simp add: grounded_def split: route_path.splits)
next
  case False
  then obtain start io1 where r: "pending_loop (rw_pending w) = Inr start"
    "(case start of Some m \<Rightarrow> committed_by_peer al obs m timing w | None \<Rightarrow> after_attempt al obs plan timing w) io1 = (Inr s, io')"
    using assms by (auto simp: race_transfer_route_def bind_route_Inr)
  show ?thesis
  proof (cases start)
    case None
    then show ?thesis using r after_attempt_grounded by simp
  next
    case (Some m)
    then have m: "mtype m = ''relay_start''" "m \<in> set (heard w)" using r(1) pending_loop_start [of "rw_pending w" m] by (auto simp: heard_def)
    obtain t io2 where "relay_selection_from_start al obs m t io2 = (Inr s, io')"
      using r(2) Some by (auto simp: committed_by_peer_def bind_route_Inr)
    then show ?thesis by (rule start_grounded [OF _ m])
  qed
qed

text \<open>The relay sends messages of one type, whatever fails.\<close>

definition sends_only :: "string \<Rightarrow> 'a client \<Rightarrow> bool" where
  "sends_only t c \<longleftrightarrow>
     (\<forall>io. \<exists>ms. io_sent (snd (c io)) = io_sent io @ ms \<and> (\<forall>m\<in>set ms. mtype (snd m) = t))"

lemma sends_only_bind:
  assumes "sends_only t c" "\<And>x. sends_only t (f x)"
  shows "sends_only t (bindc c f)"
  unfolding sends_only_def
proof
  fix io
  obtain r io1 where c: "c io = (r, io1)" by fastforce
  obtain ms where ms: "io_sent io1 = io_sent io @ ms" "\<forall>m\<in>set ms. mtype (snd m) = t"
    using assms(1) c unfolding sends_only_def by (metis snd_conv)
  show "\<exists>ms. io_sent (snd (bindc c f io)) = io_sent io @ ms \<and> (\<forall>m\<in>set ms. mtype (snd m) = t)"
  proof (cases r)
    case (Inl e)
    then show ?thesis using c ms by (simp add: bindc_def)
  next
    case (Inr x)
    obtain ns where "io_sent (snd (f x io1)) = io_sent io1 @ ns" "\<forall>m\<in>set ns. mtype (snd m) = t"
      using assms(2) [of x] unfolding sends_only_def by blast
    then have "io_sent (snd (bindc c f io)) = io_sent io @ (ms @ ns)" "\<forall>m\<in>set (ms @ ns). mtype (snd m) = t"
      using c Inr ms by (auto simp: bindc_def)
    then show ?thesis by blast
  qed
qed

lemma sends_only_basic [simp]:
  "mtype m = t \<Longrightarrow> sends_only t (send_to k m)"
  "mtype m = t \<Longrightarrow> sends_only t (send_message_best_effort valid k m)"
  "sends_only t (relay_stream a b)" "sends_only t (lift r)"
  by (auto simp: sends_only_def send_to_def send_message_best_effort_def relay_stream_def lift_def split: list.split option.split)

definition start_type :: "route_decision \<Rightarrow> string" where
  "start_type d = (case kind d of Direct \<Rightarrow> ''direct_start'' | Relay \<Rightarrow> ''relay_start'' | _ \<Rightarrow> ''done'')"

lemma bindc_lift_result: "bindc (lift (Inr d)) f = f d" "bindc (lift (Inl e)) f = lift (Inl e)"
  by (simp_all add: bindc_def lift_def fun_eq_iff)

lemma route_session_one_type: "\<exists>t. sends_only t (route_session env other self)"
proof (cases "wait_route_decision (ce_turns env)")
  case (Inl e)
  then have "route_session env other self = lift (Inl e)" by (simp add: route_session_def bindc_lift_result)
  then have "sends_only t (route_session env other self)" for t by simp
  then show ?thesis by blast
next
  case (Inr d)
  have "sends_only (start_type d) (route_session env other self)"
    unfolding route_session_def Inr bindc_lift_result Let_def
    by (cases "kind d") (simp_all add: start_type_def plain_message_def sends_only_bind)
  then show ?thesis by blast
qed

lemma grounded_path:
  assumes "grounded (heard w) c s sent" "\<forall>m\<in>set (heard w). mtype m = t"
  shows "t = (case se_path s of DirectPath \<Rightarrow> ''direct_start'' | RelayPath \<Rightarrow> ''relay_start'')"
    "se_path s = DirectPath \<Longrightarrow> c \<and> plain_message ''direct_ok'' [] \<in> set sent"
  using assms by (auto simp: grounded_def list_ex_iff split: route_path.splits)

text \<open>
  C32: Both peers of a session take the same route. If each of them hears from the relay, while it chooses its route,
  nothing but what the relay's run for this room sends to it, and both selections succeed, then the two paths are equal,
  whatever the relay is told, whatever sends of it fail and however the looks of the peers fall: either both use the relay,
  or both use a direct connection, and then the attempt of each has ended with a connection and each has reported it to the
  relay.
\<close>

theorem peers_take_the_same_route:
  assumes "route_session env other self io = (r, io')" "io_sent io' = io_sent io @ ms"
    and "\<forall>m\<in>set (heard w1). (wp_socket other, m) \<in> set ms" "\<forall>m\<in>set (heard w2). (wp_socket self, m) \<in> set ms"
    and "race_transfer_route al obs1 attempt1 plan1 timing1 w1 io1 = (Inr s1, io1')"
    and "race_transfer_route al' obs2 attempt2 plan2 timing2 w2 io2 = (Inr s2, io2')"
  shows "se_path s1 = se_path s2 \<and>
    (se_path s1 = DirectPath \<longrightarrow>
      rw_attempt w1 = Connected \<and> plain_message ''direct_ok'' [] \<in> set (ri_sent io1') \<and>
      rw_attempt w2 = Connected \<and> plain_message ''direct_ok'' [] \<in> set (ri_sent io2'))"
proof -
  obtain t where "sends_only t (route_session env other self)" using route_session_one_type by blast
  then have "\<exists>ns. io_sent io' = io_sent io @ ns \<and> (\<forall>m\<in>set ns. mtype (snd m) = t)"
    using assms(1) unfolding sends_only_def by (metis snd_conv)
  then have t: "\<forall>m\<in>set ms. mtype (snd m) = t" using assms(2) by auto
  have h1: "\<forall>m\<in>set (heard w1). mtype m = t" and h2: "\<forall>m\<in>set (heard w2). mtype m = t" using assms(3,4) t by fastforce+
  note g1 = race_grounded [OF assms(5)] and g2 = race_grounded [OF assms(6)]
  have "se_path s1 = se_path s2"
    using grounded_path(1) [OF g1 h1] grounded_path(1) [OF g2 h2] by (cases "se_path s1"; cases "se_path s2") simp_all
  then show ?thesis using grounded_path(2) [OF g1 h1] grounded_path(2) [OF g2 h2] by (simp add: has_connection_def)
qed

text \<open>A room whose peers both report a direct connection.\<close>

definition direct_env :: client_env where
  "direct_env = (sample_env (plain_message ''hello'' []))\<lparr>ce_turns := sample_turns\<rparr>"

definition room_peer :: "nat \<Rightarrow> waiting_peer" where
  "room_peer k =
     \<lparr>wp_role = Sender, wp_socket = k, wp_public_endpoint = \<lparr>host = [], port = 0\<rparr>, wp_listen_endpoint = \<lparr>host = [], port = 0\<rparr>,
      wp_file_count = 0, wp_total_size = 0, wp_conn_count = 1, wp_no_direct = False, wp_local_candidates = [], wp_registered_at = 0\<rparr>"

definition calm_world :: "message \<Rightarrow> race_world" where
  "calm_world m =
     \<lparr>rw_cancelled = False, rw_standby_fault = None, rw_pending = [(False, Inr None)], rw_probe_ms = 40, rw_commit_ms = 0,
      rw_cancelled_after = False, rw_attempt = Connected, rw_last_look = Inr None,
      rw_select = \<lparr>sw_cancelled = False, sw_send_fault = None, sw_confirmation = Inr (Some m), sw_cancelled_after = False, sw_elapsed = 3\<rparr>\<rparr>"

definition no_addresses :: address_library where
  "no_addresses = \<lparr>al_make_address = (\<lambda>_. None), al_is_unspecified = (\<lambda>_. False), al_is_loopback = (\<lambda>_. False),
     al_is_multicast = (\<lambda>_. False)\<rparr>"

definition no_times :: route_timing where
  "no_times = \<lparr>rt_rendezvous_ms = 0, rt_direct_probe_ms = -1, rt_relay_commit_ms = -1, rt_securing_ms = -1\<rparr>"

definition no_route_io :: route_io where "no_route_io = \<lparr>ri_sent = [], ri_events = []\<rparr>"

definition calm_race :: "message \<Rightarrow> route_selection result \<times> route_io" where
  "calm_race m = race_transfer_route no_addresses [] True new_route_plan no_times (calm_world m) no_route_io"

lemma calm_race_direct:
  "\<exists>s io'. calm_race (plain_message ''direct_start'' []) = (Inr s, io') \<and> se_path s = DirectPath"
  by (simp add: calm_race_def race_transfer_route_def after_attempt_def select_transfer_route_def confirm_direct_def
      finalize_route_selection_def calm_world_def new_route_plan_def bind_route_def give_def report_events_def post_def stop_if_def
      fail_if_def no_route_io_def plain_message_def has_connection_def attempt_report_def new_selection_def Let_def)

theorem peers_take_the_same_route_witness:
  "\<exists>s1 io1 s2 io2. calm_race (plain_message ''direct_start'' []) = (Inr s1, io1) \<and> se_path s1 = DirectPath \<and>
     calm_race (plain_message ''direct_start'' []) = (Inr s2, io2) \<and> se_path s1 = se_path s2 \<and>
     plain_message ''direct_ok'' [] \<in> set (ri_sent io2)"
proof -
  let ?m = "plain_message ''direct_start'' []"
  obtain s io1 where run: "calm_race ?m = (Inr s, io1)" "se_path s = DirectPath" using calm_race_direct by blast
  have turns: "ce_turns direct_env = sample_turns" by (simp add: direct_env_def)
  have relay: "route_session direct_env (room_peer 1) (room_peer 2) (sample_io\<lparr>io_faults := []\<rparr>) =
      (Inr (), sample_io\<lparr>io_faults := [], io_sent := io_sent sample_io @ [(1, ?m), (2, ?m)]\<rparr>)"
    by (simp add: route_session_def turns sample_turns_direct bindc_lift_result bindc_def send_to_def room_peer_def)
  have heard: "heard (calm_world ?m) = [?m]" by (simp add: heard_def calm_world_def look_messages_def)
  have "se_path s = se_path s \<and> (se_path s = DirectPath \<longrightarrow>
      rw_attempt (calm_world ?m) = Connected \<and> plain_message ''direct_ok'' [] \<in> set (ri_sent io1) \<and>
      rw_attempt (calm_world ?m) = Connected \<and> plain_message ''direct_ok'' [] \<in> set (ri_sent io1))"
    by (rule peers_take_the_same_route [OF relay, of "[(1, ?m), (2, ?m)]" "calm_world ?m" "calm_world ?m"])
      (use run in \<open>simp_all add: heard room_peer_def calm_race_def\<close>)
  then show ?thesis using run by blast
qed

section \<open>A report that comes too late\<close>

text \<open>
  The relay decides for its own path as soon as one peer is ready for it and the other one is present. A peer whose attempt
  succeeds at that moment still reports its connection; the relay has left the choice and passes the report to the other
  peer as the first bytes of the session. Both peers use the relay, but only one of them goes on to the upgrade.
\<close>

lemma late_report_disagrees:
  defines "start \<equiv> plain_message ''relay_start'' [(''reason'', ''standby'')]"
  shows "\<exists>s1 io1 s2 io2. calm_race start = (Inr s1, io1) \<and> se_path s1 = RelayPath \<and> \<not> se_allow_lan_upgrade s1 \<and>
      map mtype (ri_sent io1) = [''relay_standby'', ''direct_ok''] \<and>
      race_transfer_route no_addresses [] True new_route_plan no_times ((calm_world start)\<lparr>rw_attempt := NoConnection\<rparr>) no_route_io =
        (Inr s2, io2) \<and> se_path s2 = RelayPath \<and> se_allow_lan_upgrade s2"
  unfolding start_def
  by (simp add: calm_race_def race_transfer_route_def after_attempt_def select_transfer_route_def confirm_direct_def commit_relay_def
      finalize_route_selection_def calm_world_def new_route_plan_def bind_route_def give_def report_events_def post_def stop_if_def
      fail_if_def no_route_io_def plain_message_def has_connection_def attempt_report_def new_selection_def msg_get_def Let_def)

section \<open>The addresses of the upgrade\<close>

lemma candidates_well_formed:
  assumes "local_candidates_from_message m = Inr cs"
  shows "distinct cs \<and> list_all (Not \<circ> is_unspecified) cs"
proof -
  let ?ok = "\<lambda>cs. distinct cs \<and> list_all (Not \<circ> is_unspecified) cs"
  have add: "?ok (add_candidate p h out)" if "?ok out" for p h out using that by (auto simp: add_candidate_def Let_def)
  have adds: "?ok (fold (add_candidate p) hs out)" if "?ok out" for p hs out
    using that by (induction hs arbitrary: out) (simp_all add: add)
  show ?thesis
    using assms by (auto simp: local_candidates_from_message_def andthen_Inr_iff Let_def adds add split: option.splits if_splits)
qed

text \<open>The receiver dials the addresses that the sender has listed, in their order and then the one it listens on.\<close>

lemma candidates_of_response:
  assumes "csv_ok addrs" "p \<noteq> 0"
  shows "local_candidates_from_message (ips_response p h addrs) =
     Inr (fold (add_candidate p) (addrs @ (if h \<noteq> [] then [h] else [])) [])"
proof -
  have "msg_get_u64 (ips_response p h addrs) ''listen_port'' 0 = Inr (ucast p)"
    using msg_get_u64_dec [of "ips_response p h addrs" _ "ucast p"] by (simp add: ips_response_def u16_text_def)
  moreover have "(ucast p :: u64) \<noteq> 0" using assms(2) by (metis ucast_0 ucast_u16_u64_u16)
  ultimately have "message_port_field (ips_response p h addrs) ''listen_port'' False = Inr (Some p)"
    by (simp add: message_port_field_def msg_get_def ips_response_def u16_text_def u16_in_range)
  then show ?thesis
    using split_join_csv_ok [OF assms(1)] by (simp add: local_candidates_from_message_def Let_def msg_get_def ips_response_def)
qed

lemma receiver_over_lan:
  assumes "upgrade_receiver fault response reachable io = (Inr OverLan, io')"
  shows "\<exists>m cs. response = Inr (Some m) \<and> local_candidates_from_message m = Inr cs \<and> list_ex reachable cs \<and>
    ri_sent io' = ri_sent io @ [plain_message ''ips_request'' []]"
  using assms by (auto simp: upgrade_receiver_def bind_route_Inr split: option.splits if_splits)

section \<open>What the relay is told of the parallel connections\<close>

lemma auxiliary_hello_ok: "room \<noteq> [] \<Longrightarrow> relay_pass \<noteq> Some [] \<Longrightarrow> hello_ok (auxiliary_hello room role relay_pass i)"
  by (simp add: hello_ok_def auxiliary_hello_def kMaxRelayConnections_def csv_ok_def kHelloFields_def omap_ok_def)

lemma open_relay_channels_sent:
  assumes "room \<noteq> []" "relay_pass \<noteq> Some []" "open_relay_channels room role relay_pass reachable faults is io = (Inr (), io')"
  shows "\<exists>ms. ri_sent io' = ri_sent io @ ms \<and> map decode_relay_hello ms = map (Inr \<circ> auxiliary_hello room role relay_pass) is"
  using assms(3)
proof (induction "is" arbitrary: io)
  case (Cons i "is")
  note ok = auxiliary_hello_ok [OF assms(1,2), of role i]
  obtain m where e: "encode_relay_hello (auxiliary_hello room role relay_pass i) = Inr m"
    "open_relay_channels room role relay_pass reachable faults is (io\<lparr>ri_sent := ri_sent io @ [m]\<rparr>) = (Inr (), io')"
    using Cons.prems by (auto simp: bind_route_Inr give_def split: if_splits)
  define io1 where "io1 = io\<lparr>ri_sent := ri_sent io @ [m]\<rparr>"
  have m: "ri_sent io1 = ri_sent io @ [m]" "open_relay_channels room role relay_pass reachable faults is io1 = (Inr (), io')"
    using e(2) by (simp_all add: io1_def)
  have "decode_relay_hello m = Inr (auxiliary_hello room role relay_pass i)"
    using hello_codec.roundtrip [OF ok] e(1) by simp
  moreover obtain ms where "ri_sent io' = ri_sent io1 @ ms" "map decode_relay_hello ms = map (Inr \<circ> auxiliary_hello room role relay_pass) is"
    using Cons.IH [OF m(2)] by blast
  ultimately show ?case using m(1) by (intro exI [of _ "m # ms"]) simp
qed simp

text \<open>Connection \<open>i\<close> registers as the auxiliary connection \<open>i\<close> of the room, which the relay pairs with the other peer's.\<close>

lemma relay_mux_registered:
  assumes "room \<noteq> []" "relay_pass \<noteq> Some []" "open_relay_mux_channels room role relay_pass reachable faults n io = (Inr (), io')"
  shows "\<exists>ms. ri_sent io' = ri_sent io @ ms \<and> map decode_relay_hello ms = map (Inr \<circ> auxiliary_hello room role relay_pass) [1..<n]"
  using open_relay_channels_sent [OF assms(1,2)] assms(3) by (simp add: open_relay_mux_channels_def)

end
