(* ===== verification/Spec2Isabelle.thy ===== *)
theory Spec2Isabelle
  imports Kiko_Prelude Ord_Map Text_Util Protocol Relay_Protocol Relay_Route Relay_Room Relay_Server
    Transfer_Frames Mux_Receive Progress Progress_State Paths File_System Receive_Paths
    Transfer_Manifest Transfer_IO Transfer_Resume Receive_Plan Plan_Checks File_Session Transfer_Stream Stream_Safety Transfer_Cancel Retry Sampled_Hash Mux_Send Mux_Transfer Mux_Loop Wildmatch Gitignore File_Collect Session_Crypto
    Note_Frames Note_Workspace Note_Session Note_Convergence
    Web_Upload Web_Request Web_Job
    Addresses Direct_Plan Direct_Candidates Route_Advice Direct_Exchange Proxy Relay_Race Route_Session
begin

text \<open>
  A model of kiko, a C++ program that sends files and shares notes between two computers. Two peers meet
  at a rendezvous relay under a short code, look for a direct connection, agree on a key with a
  password-authenticated exchange, and then transfer files over one encrypted connection or several. The
  command line, a terminal interface and a browser interface drive the same core. All source names below are
  relative to src/src of the repository.

  \<^bold>\<open>How the parts work together.\<close> A peer looks for relays (connect/rendezvous_session.cpp) and registers with
  several of them at once (relay/relay_race.cpp), if need be through a proxy (core/proxy.cpp). A relay
  (relay/) pairs the two hellos of a room and tells each peer the addresses of the other. Each peer then has a route
  plan (connect/route_planner.cpp, with advice of diagnostics/ai_advisor.cpp), dials and accepts direct
  connections (connect/), and tells the relay how that went; the relay decides for the room and either steps aside or
  becomes a byte pipe. Over the chosen connection the peers run the handshake (core/pake.cpp) and exchange encrypted
  frames (core/crypto.cpp, core/protocol.cpp). The sender offers a manifest of its files
  (transfer/file_manifest.cpp, transfer/transfer_manifest.cpp); the receiver makes a plan of where each
  entry goes (transfer/receive_plan.cpp, transfer/transfer_receive_paths.cpp), agrees on resumed parts
  (transfer/transfer_resume.cpp) and writes the pieces, from one stream (transfer/transfer_stream.cpp) or from
  parallel channels (transfer/mux_*.cpp). A lost connection is tried again
  (transfer/transfer_retry.cpp). Shared notes (note/) use the same connection and frames. Events go to the reporters
  of core/progress.cpp, whose state the interfaces show.

  \<^bold>\<open>How the code is translated.\<close> A struct is a record, an enum a datatype, an integer of fixed width a word, so
  that sums wrap as in C++; a \<open>std::string\<close> and a byte buffer are lists; a \<open>std::map\<close> is an association list in
  the order of its keys. An exception is the value \<open>Inl\<close> of its text. Code that changes state takes and returns
  it. Concurrent code is cut at its locks: a step is what one thread does between two of them, and the steps interleave
  in every order, as a relation or as a list of steps that is an argument. A loop that waits for something
  outside (a socket, the clock, another process) is a recursion over the list of what its turns
  meet; the end of the list is the deadline. Such lists, and the failures of sends where the code handles them, are arguments of the
  definitions, so a theorem holds whatever they are.

  \<^bold>\<open>Parameters.\<close> Code outside the repository is an argument: the printing and parsing of JSON text, SHA-256, the
  group and encryption of libsodium (record \<open>sodium\<close>), the Zstandard streams, the address functions of the
  network library (record \<open>address_library\<close>). So are the answers of the system: the order in which a directory is listed,
  the free space and the name rules of a volume, whether a socket is alive, times, permission bits, random
  identifiers. What a theorem needs of them is a hypothesis or a law of a locale, and its witness gives a concrete instance.

  \<^bold>\<open>Shared notions.\<close> \<open>Kiko_Prelude\<close>: results, bytes, and the contracts of a codec (\<open>codec\<close>) and of a
  machine whose steps keep an invariant (\<open>machine\<close>), which \<open>Relay_Protocol\<close>, \<open>Relay_Server\<close> and
  \<open>Progress_State\<close> interpret. \<open>Ord_Map\<close>: ordered maps and sets with the contract \<open>kv_store\<close>. \<open>Text_Util\<close>,
  \<open>Addresses\<close> (core/common.cpp): strict numbers, comma lists, codes, endpoints, families and scopes of addresses.

  \<^bold>\<open>Messages and frames.\<close> \<open>Protocol\<close> (core/protocol.cpp): control messages, frames, both readers of frames; what was
  sent is read back and nothing else is consumed. \<open>Relay_Protocol\<close> (relay/relay_protocol.cpp): hello and peer
  messages with their round trips. \<open>Transfer_Manifest\<close> (transfer/transfer_manifest.cpp) and \<open>Note_Frames\<close>
  (note/note_protocol.cpp): manifests and note frames, their limits and round trips. \<open>Transfer_Frames\<close>: tagged encrypted frames.

  \<^bold>\<open>The relay.\<close> \<open>Relay_Room\<close> (relay/relay_room_state.cpp): the table of waiting peers and active rooms; no room is
  claimed twice, no socket is lost. \<open>Relay_Route\<close> (relay/relay_route_state.cpp and the waiting loop of
  relay/relay_server.cpp): the merge of the choices and the decision, with the exceptions of its reads. \<open>Relay_Server\<close>
  (relay/relay_server.cpp): the whole run of a client; on every way out it releases the room it claimed, and it
  refines the step relation of the table. Also the byte pipe and the limit on workers.

  \<^bold>\<open>Connections.\<close> \<open>Proxy\<close> (core/proxy.cpp): the exchanges with a proxy, which leave the bytes of the tunnel untouched.
  \<open>Relay_Race\<close> (relay/relay_race.cpp, connect/rendezvous_session.cpp): the relays to try, their
  orders, the registration, and the wait, which takes the best relay as long as none fails. \<open>Direct_Plan\<close>,
  \<open>Direct_Candidates\<close> (core/adaptive.cpp, connect/route_planner.cpp, connect/direct_session.cpp): route plans and the
  candidates of a peer with their scores, order and timeouts. \<open>Route_Advice\<close> (diagnostics/ai_advisor.cpp): advice is
  validated and merged; it cannot turn off direct connections nor leave the bounds. \<open>Direct_Exchange\<close>
  (connect/connectivity.cpp, connect/direct_session.cpp): the preflight, the parallel connections and the statistics, with
  the agreement of both ends. \<open>Route_Session\<close> (connect/route_session.cpp, connect/lan_upgrade.cpp, parts of
  connect/peer_route_session.cpp): the choice of the route by a peer; together with \<open>Relay_Server\<close> it follows that both
  peers take the same one.

  \<^bold>\<open>Cryptography.\<close> \<open>Session_Crypto\<close> (core/crypto.cpp, core/pake.cpp): HMAC, HKDF against RFC 5869, the ciphers of a
  session, and the handshake: both sides of a code get the same key, and a run that is confirmed was not changed on
  the way. The laws of the group are the hypothesis \<open>group_laws\<close>; secrecy against an attacker who computes is
  not stated. \<open>Sampled_Hash\<close> (core/imohash.cpp): the sampled hash and what it does not see.

  \<^bold>\<open>Files on the sending side.\<close> \<open>Paths\<close>, \<open>File_System\<close>: paths and a POSIX file system with symbolic links, as
  \<open>std::filesystem\<close> shows them. \<open>Wildmatch\<close>, \<open>Gitignore\<close> (transfer/gitignore.cpp): the table-driven matcher
  against a declarative reading of patterns, and the rules. \<open>File_Collect\<close> (transfer/file_manifest.cpp): the walk over
  the source, which ends and offers names that the receiver takes. \<open>Mux_Send\<close> (transfer/mux_send_scheduler.cpp,
  transfer/mux_transfer.cpp): the scheduler of the parallel send with its invariant and its end in every interleaving.

  \<^bold>\<open>Files on the receiving side.\<close> \<open>Receive_Paths\<close> (transfer/transfer_receive_paths.cpp): checks that keep a target below
  the output directory. \<open>Receive_Plan\<close>, \<open>Plan_Checks\<close> (transfer/receive_plan.cpp): the plan of a manifest
  and the account of its entries. \<open>Transfer_Resume\<close>, \<open>Transfer_IO\<close>, \<open>File_Session\<close> (transfer/transfer_resume.cpp,
  transfer/file_metadata.cpp, transfer/transfer_file_session.cpp): the dialogue about one file.
  \<open>Transfer_Stream\<close>, \<open>Stream_Safety\<close> (transfer/transfer_stream.cpp): the stream transfer; an accepted file has the digest of
  the source. \<open>Mux_Receive\<close>, \<open>Mux_Loop\<close>, \<open>Mux_Transfer\<close> (transfer/mux_receive_session.cpp, transfer/mux_transfer.cpp):
  chunks in any order; a failure leaves a prefix of the source, and a complete transfer is a sequential copy. \<open>Transfer_Cancel\<close>,
  \<open>Retry\<close> (core/cancellation.cpp, transfer/transfer_retry.cpp, transfer/transfer.cpp): cancellation and new attempts.

  \<^bold>\<open>Notes and interfaces.\<close> \<open>Note_Workspace\<close>, \<open>Note_Session\<close>, \<open>Note_Convergence\<close> (note/note_workspace.cpp,
  note/note_session.cpp): pads, the bounded queue (contract \<open>replacing_queue\<close>), both threads of a side, and the agreement
  of two sides. \<open>Progress\<close>, \<open>Progress_State\<close> (core/progress.cpp, core/progress_state.cpp): events, their texts and
  the state shown. \<open>Web_Upload\<close>, \<open>Web_Request\<close>, \<open>Web_Job\<close> (web/): uploads in chunks, requests, and the running task.

  \<^bold>\<open>Bounds.\<close> A path is resolved along at most \<open>max_links\<close> = 40 symbolic links, the limit of the system, and \<open>ELOOP\<close> is
  an error of the model too. The walk of \<open>File_Collect\<close> takes the number of directories as fuel;
  \<open>collecting_ends\<close> proves that it is enough. HKDF gives up to 255 blocks, as in the code. Other recursions are structural or have a
  measure; loops of concurrent code are runs of steps, and \<open>parallel_send_ends\<close> bounds their length.

  \<^bold>\<open>Not modelled.\<close> The sockets and name resolution of core/socket.cpp and the threads and deadlines of the dialling
  phases (calls of the operating system); UDP punching and discovery; files of network profiles; the set-up of a session in
  connect/peer_route_session.cpp; measured times; locks that only guard statistics; a failing write to an output file that is
  already open; averages of \<open>double\<close>s, which are exact rationals; the JSON of the answers of the browser interface and its pages;
  the terminal interface; the network probes and the report of diagnostics/doctor.cpp, and the HTTP client of the
  advice; processes and folders of platform/; option parsing in app/. The windows-only branches are left out: paths
  are those of POSIX systems.
\<close>

end
